(* ===== verification/Prelude.thy ===== *)
theory Prelude
  imports Main "HOL-Library.Word" "HOL-Library.Monad_Syntax"
begin

text \<open>
  Shared vocabulary of the development: the C integer types at their width, the
  flat byte memory used by the packet code, the character classes of \<open>ctype.h\<close> in
  the C locale, a fold that stops early (the shape of every search loop), and the
  list, map and word lemmas that more than one component needs.

  Conventions. A C function that may fail to return (a loop without a bound) has a
  result of type \<open>'a option\<close>, \<open>None\<close> meaning that it does not return. An error
  return of the code is a value of a sum type. A C string is the list of its
  characters before the terminating NUL.
\<close>

unbundle bit_operations_syntax

section \<open>C types\<close>

type_synonym u8 = "8 word"
type_synonym u16 = "16 word"
type_synonym u32 = "32 word"
type_synonym u64 = "64 word"

text \<open>A flat byte memory; an address is a natural number.\<close>

type_synonym mem = "nat \<Rightarrow> u8"

text \<open>Rewrite rules on the byte memory, and invariants that operations keep.\<close>

named_theorems mem_simps
named_theorems inv_intros

section \<open>Folding with an early exit\<close>

fun fold_until :: "('a \<Rightarrow> 's \<Rightarrow> bool \<times> 's) \<Rightarrow> 'a list \<Rightarrow> 's \<Rightarrow> 's" where
  "fold_until body [] s = s"
| "fold_until body (x # xs) s =
     (case body x s of (stop, s') \<Rightarrow> if stop then s' else fold_until body xs s')"

lemma fold_until_find:
  "fold_until (\<lambda>x r. if P x then (True, f x) else (False, r)) xs r =
     (case List.find P xs of None \<Rightarrow> r | Some x \<Rightarrow> f x)"
  by (induction xs) auto

lemma fold_until_collect:
  "fold_until (\<lambda>x r. (False, r @ [g x])) xs r = r @ map g xs"
  by (induction xs arbitrary: r) auto

section \<open>Lists and maps\<close>

lemma find_Some_iff_unique:
  assumes "\<And>x y. x \<in> set xs \<Longrightarrow> y \<in> set xs \<Longrightarrow> P x \<Longrightarrow> P y \<Longrightarrow> x = y"
  shows "List.find P xs = Some x \<longleftrightarrow> x \<in> set xs \<and> P x"
  using assms by (induction xs) (auto split: if_splits)

lemma find_None_iff_all: "List.find P xs = None \<longleftrightarrow> (\<forall>x \<in> set xs. \<not> P x)"
  by (auto simp: find_None_iff)

lemma find_SomeD: "List.find P xs = Some x \<Longrightarrow> x \<in> set xs \<and> P x"
  by (induction xs) (auto split: if_splits)

lemma find_map: "List.find P (map f xs) = map_option f (List.find (P \<circ> f) xs)"
  by (induction xs) auto

lemma find_filter:
  "(\<And>x. x \<in> set xs \<Longrightarrow> P x \<Longrightarrow> Q x) \<Longrightarrow> List.find P (filter Q xs) = List.find P xs"
  by (induction xs) auto

lemma remove1_map_inj:
  "inj f \<Longrightarrow> remove1 (f x) (map f xs) = map f (remove1 x xs)"
  by (induction xs) (auto dest: injD)

lemma remove1_filter_in: "Q x \<Longrightarrow> remove1 x (filter Q xs) = filter Q (remove1 x xs)"
  by (induction xs) auto

lemma remove1_filter_out: "\<not> Q x \<Longrightarrow> filter Q (remove1 x xs) = filter Q xs"
  by (induction xs) auto

lemma length_distinct_bound:
  assumes "distinct xs" and "set xs \<subseteq> {..<n}"
  shows "length xs \<le> n"
proof -
  have "card (set xs) \<le> card {..<n}"
    using assms(2) by (rule card_mono [OF finite_lessThan])
  with assms(1) show ?thesis by (simp add: distinct_card)
qed

section \<open>Words\<close>

lemma unat_of_nat_small: "n < 2 ^ LENGTH('a) \<Longrightarrow> unat (of_nat n :: 'a::len word) = n"
  by (simp add: unat_of_nat take_bit_nat_eq_self)

lemma unat_bound: "unat (w :: 'a::len word) < 2 ^ LENGTH('a)"
  by (fact unsigned_less)

lemma unat_Suc_word:
  fixes w :: "'a::len word"
  assumes "unat w < 2 ^ LENGTH('a) - 1"
  shows "unat (w + 1) = Suc (unat w)"
  using assms by (simp add: unat_word_ariths)

lemma unat_pred_word:
  fixes w :: "'a::len word"
  assumes "0 < unat w"
  shows "unat (w - 1) = unat w - 1"
proof -
  have "w \<noteq> 0" using assms by auto
  then show ?thesis by (rule unat_minus_one)
qed

section \<open>Characters (\<open>ctype.h\<close>, C locale)\<close>

definition isgraph :: "char \<Rightarrow> bool" where
  "isgraph c \<longleftrightarrow> (let n = of_char c :: nat in 33 \<le> n \<and> n \<le> 126)"

definition isspace :: "char \<Rightarrow> bool" where
  "isspace c \<longleftrightarrow> (let n = of_char c :: nat in n = 32 \<or> (9 \<le> n \<and> n \<le> 13))"

definition isdigit :: "char \<Rightarrow> bool" where
  "isdigit c \<longleftrightarrow> (let n = of_char c :: nat in 48 \<le> n \<and> n \<le> 57)"

definition isxdigit :: "char \<Rightarrow> bool" where
  "isxdigit c \<longleftrightarrow> isdigit c \<or>
     (let n = of_char c :: nat in (65 \<le> n \<and> n \<le> 70) \<or> (97 \<le> n \<and> n \<le> 102))"

section \<open>C strings in buffers\<close>

abbreviation NUL :: char where "NUL \<equiv> CHR 0x00"

text \<open>The string a buffer holds, and buffers that hold a given string.\<close>

definition cstr :: "char list \<Rightarrow> string" where
  "cstr buf = takeWhile (\<lambda>c. c \<noteq> NUL) buf"

definition holds :: "char list \<Rightarrow> string \<Rightarrow> bool" where
  "holds buf s \<longleftrightarrow> NUL \<notin> set s \<and> (\<exists>rest. buf = s @ NUL # rest)"

lemma holds_cstr: "holds buf s \<Longrightarrow> cstr buf = s"
  unfolding holds_def cstr_def by clarify (subst takeWhile_append2; auto)

lemma holds_length: "holds buf s \<Longrightarrow> length s < length buf"
  by (auto simp: holds_def)

lemma cstr_append_NUL: "NUL \<notin> set s \<Longrightarrow> cstr (s @ NUL # r) = s"
  by (rule holds_cstr) (auto simp: holds_def)

text \<open>\<open>memmove(buf + dst, buf + src, n)\<close> inside one buffer; \<open>None\<close>: out of its bounds.\<close>

definition memmove :: "nat \<Rightarrow> nat \<Rightarrow> nat \<Rightarrow> 'a list \<Rightarrow> 'a list option" where
  "memmove dst src n buf =
     (if dst + n \<le> length buf \<and> src + n \<le> length buf
      then Some (take dst buf @ take n (drop src buf) @ drop (dst + n) buf) else None)"

text \<open>\<open>buf[i] = c\<close>, in bounds or not at all.\<close>

definition store_at :: "nat \<Rightarrow> 'a \<Rightarrow> 'a list \<Rightarrow> 'a list option" where
  "store_at i c buf = (if i < length buf then Some (buf[i := c]) else None)"

lemma store_at_append: "length xs = n \<Longrightarrow> store_at n c (xs @ y # ys) = Some (xs @ c # ys)"
  by (auto simp: store_at_def)

text \<open>\<open>strstr\<close>: the position of the first occurrence.\<close>

fun strstr :: "'a list \<Rightarrow> 'a list \<Rightarrow> nat option" where
  "strstr [] pat = (if pat = [] then Some 0 else None)"
| "strstr (c # s) pat =
     (if take (length pat) (c # s) = pat then Some 0 else map_option Suc (strstr s pat))"

lemma strstr_Some:
  "strstr s pat = Some i \<Longrightarrow> take (length pat) (drop i s) = pat \<and> i + length pat \<le> length s"
proof (induction s arbitrary: i)
  case (Cons c s)
  show ?case
  proof (cases "take (length pat) (c # s) = pat")
    case True
    with Cons.prems have "i = 0" by simp
    with True show ?thesis by simp (metis length_Cons length_take min.cobounded1)
  next
    case False
    with Cons.prems obtain j where j: "strstr s pat = Some j" "i = Suc j" by auto
    from Cons.IH[OF j(1)] j(2) show ?thesis by simp
  qed
qed (auto split: if_splits)

end
