(* ===== verification/ListH.thy ===== *)
theory ListH
  imports Prelude
begin

text \<open>
  \<open>libs/app_utils/api/list.h\<close>: the circular doubly linked lists with a sentinel
  head that the buffer manager, the hash table and the rendezvous server link their
  objects with. A heap of nodes is a pair of pointer functions; \<open>'n\<close> is the type of
  node addresses. Each operation performs the assignments of the C function in their
  order. \<open>is_list\<close> says that the nodes form a list; the locale \<open>linked_lists\<close> is
  the contract the clients use, stated for any number of lists in one heap.
\<close>

section \<open>The code\<close>

record 'n lheap =
  nxt :: "'n \<Rightarrow> 'n"
  prv :: "'n \<Rightarrow> 'n"

definition set_nxt :: "'n \<Rightarrow> 'n \<Rightarrow> 'n lheap \<Rightarrow> 'n lheap" where
  "set_nxt p q h = h\<lparr>nxt := (nxt h)(p := q)\<rparr>"

definition set_prv :: "'n \<Rightarrow> 'n \<Rightarrow> 'n lheap \<Rightarrow> 'n lheap" where
  "set_prv p q h = h\<lparr>prv := (prv h)(p := q)\<rparr>"

definition INIT_LIST_HEAD :: "'n \<Rightarrow> 'n lheap \<Rightarrow> 'n lheap" where
  "INIT_LIST_HEAD ptr h = set_prv ptr ptr (set_nxt ptr ptr h)"

text \<open>\<open>__list_add\<close>: four assignments, in the order of the source.\<close>

definition list_add_between :: "'n \<Rightarrow> 'n \<Rightarrow> 'n \<Rightarrow> 'n lheap \<Rightarrow> 'n lheap" where
  "list_add_between new prev next h =
     (let h1 = set_prv next new h;
          h2 = set_nxt new next h1;
          h3 = set_prv new prev h2
      in set_nxt prev new h3)"

definition list_add :: "'n \<Rightarrow> 'n \<Rightarrow> 'n lheap \<Rightarrow> 'n lheap" where
  "list_add new head h = list_add_between new head (nxt h head) h"

definition list_add_tail :: "'n \<Rightarrow> 'n \<Rightarrow> 'n lheap \<Rightarrow> 'n lheap" where
  "list_add_tail new head h = list_add_between new (prv h head) head h"

text \<open>\<open>__list_del\<close>.\<close>

definition list_del_between :: "'n \<Rightarrow> 'n \<Rightarrow> 'n lheap \<Rightarrow> 'n lheap" where
  "list_del_between prev next h = set_nxt prev next (set_prv next prev h)"

definition list_del :: "'n \<Rightarrow> 'n lheap \<Rightarrow> 'n lheap" where
  "list_del entry h = list_del_between (prv h entry) (nxt h entry) h"

definition list_move_tail :: "'n \<Rightarrow> 'n \<Rightarrow> 'n lheap \<Rightarrow> 'n lheap" where
  "list_move_tail l head h =
     list_add_tail l head (list_del_between (prv h l) (nxt h l) h)"

definition list_empty :: "'n \<Rightarrow> 'n lheap \<Rightarrow> bool" where
  "list_empty head h \<longleftrightarrow> nxt h head = head"

text \<open>
  \<open>list_for_each\<close> with a body that may leave the loop (\<open>break\<close> or \<open>return\<close>): the
  body answers whether it leaves, and the new value of the caller's locals. A chain
  that never comes back to the head is a loop that does not end: the value \<open>None\<close>.
\<close>

partial_function (option) list_for_each_from ::
    "'n lheap \<Rightarrow> 'n \<Rightarrow> ('n \<Rightarrow> 's \<Rightarrow> bool \<times> 's) \<Rightarrow> 'n \<Rightarrow> 's \<Rightarrow> 's option" where
  "list_for_each_from h head body pos s =
     (if pos = head then Some s
      else case body pos s of (stop, s') \<Rightarrow>
        if stop then Some s' else list_for_each_from h head body (nxt h pos) s')"

definition list_for_each ::
    "'n lheap \<Rightarrow> 'n \<Rightarrow> ('n \<Rightarrow> 's \<Rightarrow> bool \<times> 's) \<Rightarrow> 's \<Rightarrow> 's option" where
  "list_for_each h head body s = list_for_each_from h head body (nxt h head) s"

section \<open>Chains of nodes\<close>

fun seg :: "'n lheap \<Rightarrow> 'n \<Rightarrow> 'n list \<Rightarrow> 'n \<Rightarrow> bool" where
  "seg h a [] b \<longleftrightarrow> nxt h a = b \<and> prv h b = a"
| "seg h a (x # xs) b \<longleftrightarrow> nxt h a = x \<and> prv h x = a \<and> seg h x xs b"

definition is_list :: "'n lheap \<Rightarrow> 'n \<Rightarrow> 'n list \<Rightarrow> bool" where
  "is_list h head xs \<longleftrightarrow> distinct (head # xs) \<and> seg h head xs head"

lemma set_nxt_sel [simp]:
  "nxt (set_nxt p q h) = (nxt h)(p := q)" "prv (set_nxt p q h) = prv h"
  by (simp_all add: set_nxt_def)

lemma set_prv_sel [simp]:
  "prv (set_prv p q h) = (prv h)(p := q)" "nxt (set_prv p q h) = nxt h"
  by (simp_all add: set_prv_def)

lemma seg_append: "seg h a (xs @ y # ys) b \<longleftrightarrow> seg h a xs y \<and> seg h y ys b"
  by (induction xs arbitrary: a) auto

lemma seg_cong:
  assumes "\<And>n. n \<in> set (a # xs) \<Longrightarrow> nxt h' n = nxt h n"
    and "\<And>n. n \<in> set (b # xs) \<Longrightarrow> prv h' n = prv h n"
  shows "seg h' a xs b = seg h a xs b"
  using assms by (induction xs arbitrary: a) auto

lemma seg_first: "seg h a xs b \<Longrightarrow> nxt h a = hd (xs @ [b])"
  by (cases xs) auto

lemma seg_last: "seg h a xs b \<Longrightarrow> prv h b = last (a # xs)"
  by (induction xs arbitrary: a) auto

lemma list_add_between_sel:
  "nxt (list_add_between new prev next h) = (nxt h)(new := next, prev := new)"
  "prv (list_add_between new prev next h) = (prv h)(next := new, new := prev)"
  by (simp_all add: list_add_between_def Let_def)

lemma list_del_between_sel:
  "nxt (list_del_between prev next h) = (nxt h)(prev := next)"
  "prv (list_del_between prev next h) = (prv h)(next := prev)"
  by (simp_all add: list_del_between_def)


lemma seg_insert_last:
  assumes "seg h a xs b" and "distinct (a # xs)" and "b \<notin> set xs"
    and "n \<notin> set (a # xs)" and "n \<noteq> b"
  shows "seg (list_add_between n (last (a # xs)) b h) a (xs @ [n]) b"
  using assms
proof (induction xs arbitrary: a)
  case Nil
  then show ?case by (auto simp: list_add_between_sel)
next
  case (Cons x xs)
  have l: "last (x # xs) \<in> set (x # xs)" by (rule last_in_set) simp
  have "seg (list_add_between n (last (x # xs)) b h) x (xs @ [n]) b"
    by (rule Cons.IH) (use Cons.prems in auto)
  moreover have "last (a # x # xs) = last (x # xs)" by simp
  ultimately show ?case using Cons.prems l
    by (simp only: append_Cons seg.simps) (auto simp: list_add_between_sel simp del: last.simps)
qed

lemma seg_insert_first:
  assumes "seg h a xs b" and "distinct (a # xs)" and "b \<notin> set xs"
    and "n \<notin> set (a # xs)" and "n \<noteq> b"
  shows "seg (list_add_between n a (nxt h a) h) a (n # xs) b"
proof (cases xs)
  case Nil
  then show ?thesis using assms by (auto simp: list_add_between_sel)
next
  case (Cons x ys)
  have "seg (list_add_between n a x h) x ys b = seg h x ys b"
    by (rule seg_cong) (use assms Cons in \<open>auto simp: list_add_between_sel\<close>)
  then show ?thesis using assms Cons by (auto simp: list_add_between_sel)
qed

lemma seg_delete:
  assumes "seg h a (ys @ n # zs) b" and "distinct (a # ys @ n # zs)"
    and "b \<notin> set (ys @ n # zs)"
  shows "seg (list_del_between (prv h n) (nxt h n) h) a (ys @ zs) b"
  using assms
proof (induction ys arbitrary: a)
  case Nil
  show ?case
  proof (cases zs)
    case Nil
    with Nil.prems show ?thesis by (auto simp: list_del_between_sel)
  next
    case (Cons z zs')
    have "seg (list_del_between a z h) z zs' b = seg h z zs' b"
      by (rule seg_cong) (use Nil.prems Cons in \<open>auto simp: list_del_between_sel\<close>)
    then show ?thesis using Nil.prems Cons by (auto simp: list_del_between_sel)
  qed
next
  case (Cons y ys)
  from Cons.prems have s: "seg h y ys n" "seg h n zs b" by (auto simp: seg_append)
  then have p: "prv h n \<in> set (y # ys)" and q: "nxt h n \<in> set (zs @ [b])"
    by (simp_all only: seg_first seg_last) (rule last_in_set hd_in_set, simp)+
  have "seg (list_del_between (prv h n) (nxt h n) h) y (ys @ zs) b"
    by (rule Cons.IH) (use Cons.prems in auto)
  with Cons.prems p q show ?case by (auto simp: list_del_between_sel)
qed

section \<open>The operations on one list\<close>

lemma is_list_distinct: "is_list h p xs \<Longrightarrow> distinct (p # xs)"
  by (simp add: is_list_def)

lemma INIT_LIST_HEAD_is_list: "is_list (INIT_LIST_HEAD p h) p []"
  by (simp add: is_list_def INIT_LIST_HEAD_def)

lemma list_add_is_list:
  "is_list h p xs \<Longrightarrow> n \<notin> set (p # xs) \<Longrightarrow> is_list (list_add n p h) p (n # xs)"
  by (auto simp: is_list_def list_add_def simp del: seg.simps intro: seg_insert_first)

lemma list_add_tail_is_list:
  "is_list h p xs \<Longrightarrow> n \<notin> set (p # xs) \<Longrightarrow> is_list (list_add_tail n p h) p (xs @ [n])"
  using seg_insert_last[of h p xs p n]
  by (auto simp: is_list_def list_add_tail_def seg_last simp del: last.simps)

lemma list_del_is_list:
  assumes "is_list h p xs" and "n \<in> set xs"
  shows "is_list (list_del n h) p (remove1 n xs)"
proof -
  obtain ys zs where xs: "xs = ys @ n # zs" and "n \<notin> set ys"
    using assms(2) by (meson split_list_first)
  with assms show ?thesis
    by (auto simp: is_list_def list_del_def remove1_append intro: seg_delete)
qed

lemma list_empty_iff: "is_list h p xs \<Longrightarrow> list_empty p h \<longleftrightarrow> xs = []"
  by (cases xs) (auto simp: is_list_def list_empty_def)

lemma first_node: "is_list h p (x # xs) \<Longrightarrow> nxt h p = x"
  by (simp add: is_list_def)

lemma list_for_each_from_seg:
  "seg h a xs p \<Longrightarrow> p \<notin> set xs \<Longrightarrow>
     list_for_each_from h p body (nxt h a) s = Some (fold_until body xs s)"
proof (induction xs arbitrary: a s)
  case Nil
  then show ?case by (simp add: list_for_each_from.simps)
next
  case (Cons x xs)
  then show ?case
    by (subst list_for_each_from.simps) (auto split: prod.splits)
qed

lemma list_for_each_eq:
  "is_list h p xs \<Longrightarrow> list_for_each h p body s = Some (fold_until body xs s)"
  unfolding list_for_each_def is_list_def by (rule list_for_each_from_seg) auto

section \<open>What an operation leaves alone\<close>

lemma is_list_cong:
  assumes "\<And>n. n \<in> set (p # xs) \<Longrightarrow> nxt h' n = nxt h n \<and> prv h' n = prv h n"
  shows "is_list h' p xs = is_list h p xs"
  unfolding is_list_def using seg_cong[of p xs h' h p] assms by auto

lemma is_list_hd_last:
  assumes "is_list h p xs"
  shows "nxt h p \<in> set (p # xs)" and "prv h p \<in> set (p # xs)"
proof -
  have "seg h p xs p" using assms by (simp add: is_list_def)
  then have "nxt h p = hd (xs @ [p])" "prv h p = last (p # xs)"
    by (simp_all only: seg_first seg_last)
  moreover have "hd (xs @ [p]) \<in> set (xs @ [p])" "last (p # xs) \<in> set (p # xs)"
    by (rule hd_in_set last_in_set, simp)+
  ultimately show "nxt h p \<in> set (p # xs)" "prv h p \<in> set (p # xs)" by auto
qed

lemma is_list_neighbours:
  assumes "is_list h p xs" and "n \<in> set xs"
  shows "nxt h n \<in> set (p # xs)" and "prv h n \<in> set (p # xs)"
proof -
  obtain ys zs where xs: "xs = ys @ n # zs" using assms(2) by (meson split_list)
  with assms(1) have "seg h p ys n" "seg h n zs p" by (auto simp: is_list_def seg_append)
  then have "nxt h n = hd (zs @ [p])" "prv h n = last (p # ys)"
    using seg_first[of h n zs p] seg_last[of h p ys n] by simp_all
  moreover have "hd (zs @ [p]) \<in> set (zs @ [p])" "last (p # ys) \<in> set (p # ys)"
    by (rule hd_in_set last_in_set, simp)+
  ultimately show "nxt h n \<in> set (p # xs)" "prv h n \<in> set (p # xs)" by (auto simp: xs)
qed

lemma INIT_LIST_HEAD_frame:
  "is_list h q ys \<Longrightarrow> p \<notin> set (q # ys) \<Longrightarrow> is_list (INIT_LIST_HEAD p h) q ys"
  by (subst is_list_cong) (auto simp: INIT_LIST_HEAD_def)

lemma list_add_frame:
  assumes "is_list h p xs" and "is_list h q ys"
    and "set (p # xs) \<inter> set (q # ys) = {}" and "n \<notin> set (q # ys)"
  shows "is_list (list_add n p h) q ys"
  using assms is_list_hd_last[OF assms(1)]
  by (subst is_list_cong) (auto simp: list_add_def list_add_between_sel)

lemma list_add_tail_frame:
  assumes "is_list h p xs" and "is_list h q ys"
    and "set (p # xs) \<inter> set (q # ys) = {}" and "n \<notin> set (q # ys)"
  shows "is_list (list_add_tail n p h) q ys"
  using assms is_list_hd_last[OF assms(1)]
  by (subst is_list_cong) (auto simp: list_add_tail_def list_add_between_sel)

lemma list_del_frame:
  assumes "is_list h p xs" and "n \<in> set xs" and "is_list h q ys"
    and "set (p # xs) \<inter> set (q # ys) = {}"
  shows "is_list (list_del n h) q ys"
proof -
  have "nxt h n \<notin> set (q # ys)" "prv h n \<notin> set (q # ys)"
    using is_list_neighbours[OF assms(1,2)] assms(4) by blast+
  then have "is_list (list_del n h) q ys = is_list h q ys"
    unfolding list_del_def by (intro is_list_cong) (metis fun_upd_other list_del_between_sel)
  with assms(3) show ?thesis by simp
qed

lemma list_move_tail_eq: "list_move_tail n p h = list_add_tail n p (list_del n h)"
  by (simp add: list_move_tail_def list_del_def)

section \<open>Any number of lists in one heap\<close>

text \<open>
  \<open>nodes L\<close> is what the lists of \<open>L\<close> (head to contents) occupy; \<open>list_store rep h L\<close>
  says that the heap holds every list of \<open>L\<close> and that no node is on two of them.
\<close>

definition nodes :: "('n \<rightharpoonup> 'n list) \<Rightarrow> 'n set" where
  "nodes L = {n. \<exists>p xs. L p = Some xs \<and> n \<in> set (p # xs)}"

definition list_store ::
    "('h \<Rightarrow> 'n \<Rightarrow> 'n list \<Rightarrow> bool) \<Rightarrow> 'h \<Rightarrow> ('n \<rightharpoonup> 'n list) \<Rightarrow> bool" where
  "list_store rep h L \<longleftrightarrow>
     (\<forall>p xs. L p = Some xs \<longrightarrow> rep h p xs) \<and>
     (\<forall>p q xs ys. p \<noteq> q \<longrightarrow> L p = Some xs \<longrightarrow> L q = Some ys \<longrightarrow>
        set (p # xs) \<inter> set (q # ys) = {})"

lemma list_store_rep: "list_store rep h L \<Longrightarrow> L p = Some xs \<Longrightarrow> rep h p xs"
  by (simp add: list_store_def)

lemma list_store_disjoint:
  "list_store rep h L \<Longrightarrow> p \<noteq> q \<Longrightarrow> L p = Some xs \<Longrightarrow> L q = Some ys \<Longrightarrow>
     set (p # xs) \<inter> set (q # ys) = {}"
  unfolding list_store_def by blast

lemma nodes_in: "L p = Some xs \<Longrightarrow> n \<in> set (p # xs) \<Longrightarrow> n \<in> nodes L"
  unfolding nodes_def by blast

lemma nodes_upd_subset: "nodes (L(p \<mapsto> xs)) \<subseteq> nodes L \<union> set (p # xs)"
  unfolding nodes_def by (auto split: if_splits)

lemma list_store_upd:
  assumes "list_store rep h L" and "rep h' p xs"
    and "\<And>q ys. q \<noteq> p \<Longrightarrow> L q = Some ys \<Longrightarrow> rep h' q ys \<and> set (p # xs) \<inter> set (q # ys) = {}"
  shows "list_store rep h' (L(p \<mapsto> xs))"
  unfolding list_store_def
proof (intro conjI allI impI)
  fix q ys assume "(L(p \<mapsto> xs)) q = Some ys"
  then show "rep h' q ys" using assms(2,3) by (auto split: if_splits)
next
  fix q r ys zs
  assume "q \<noteq> r" "(L(p \<mapsto> xs)) q = Some ys" "(L(p \<mapsto> xs)) r = Some zs"
  then show "set (q # ys) \<inter> set (r # zs) = {}"
    using assms(3) list_store_disjoint[OF assms(1), of q r]
    by (cases "q = p"; cases "r = p") (auto simp: Int_commute)
qed

locale linked_lists =
  fixes rep :: "'h \<Rightarrow> 'n \<Rightarrow> 'n list \<Rightarrow> bool"
    and init :: "'n \<Rightarrow> 'h \<Rightarrow> 'h"
    and add :: "'n \<Rightarrow> 'n \<Rightarrow> 'h \<Rightarrow> 'h"
    and add_tail :: "'n \<Rightarrow> 'n \<Rightarrow> 'h \<Rightarrow> 'h"
    and del :: "'n \<Rightarrow> 'h \<Rightarrow> 'h"
  assumes rep_distinct: "rep h p xs \<Longrightarrow> distinct (p # xs)"
    and init: "rep (init p h) p []"
    and init_frame: "rep h q ys \<Longrightarrow> p \<notin> set (q # ys) \<Longrightarrow> rep (init p h) q ys"
    and add: "rep h p xs \<Longrightarrow> n \<notin> set (p # xs) \<Longrightarrow> rep (add n p h) p (n # xs)"
    and add_frame: "rep h p xs \<Longrightarrow> rep h q ys \<Longrightarrow> set (p # xs) \<inter> set (q # ys) = {} \<Longrightarrow>
       n \<notin> set (q # ys) \<Longrightarrow> rep (add n p h) q ys"
    and add_tail: "rep h p xs \<Longrightarrow> n \<notin> set (p # xs) \<Longrightarrow> rep (add_tail n p h) p (xs @ [n])"
    and add_tail_frame: "rep h p xs \<Longrightarrow> rep h q ys \<Longrightarrow>
       set (p # xs) \<inter> set (q # ys) = {} \<Longrightarrow> n \<notin> set (q # ys) \<Longrightarrow> rep (add_tail n p h) q ys"
    and del: "rep h p xs \<Longrightarrow> n \<in> set xs \<Longrightarrow> rep (del n h) p (remove1 n xs)"
    and del_frame: "rep h p xs \<Longrightarrow> n \<in> set xs \<Longrightarrow> rep h q ys \<Longrightarrow>
       set (p # xs) \<inter> set (q # ys) = {} \<Longrightarrow> rep (del n h) q ys"
begin

lemma store_empty: "list_store rep h Map.empty"
  by (simp add: list_store_def)

lemma store_distinct: "list_store rep h L \<Longrightarrow> L p = Some xs \<Longrightarrow> distinct (p # xs)"
  by (metis list_store_rep rep_distinct)

lemma store_init:
  assumes "list_store rep h L" and "p \<notin> nodes L"
  shows "list_store rep (init p h) (L(p \<mapsto> []))"
proof (rule list_store_upd [OF assms(1) init])
  fix q ys assume "L q = Some ys"
  then show "rep (init p h) q ys \<and> set [p] \<inter> set (q # ys) = {}"
    using assms nodes_in[of L q ys p] init_frame[OF list_store_rep[OF assms(1)]] by auto
qed

lemma store_add:
  assumes "list_store rep h L" and "L p = Some xs" and "n \<notin> nodes L"
  shows "list_store rep (add n p h) (L(p \<mapsto> n # xs))"
proof (rule list_store_upd [OF assms(1)])
  show "rep (add n p h) p (n # xs)"
    by (rule add [OF list_store_rep[OF assms(1,2)]]) (use assms(2,3) nodes_in in fast)
next
  fix q ys assume q: "q \<noteq> p" "L q = Some ys"
  then have n: "n \<notin> set (q # ys)" using assms(3) nodes_in by fast
  have d: "set (p # xs) \<inter> set (q # ys) = {}"
    using list_store_disjoint[OF assms(1)] assms(2) q by blast
  have "rep (add n p h) q ys"
    by (rule add_frame [OF list_store_rep[OF assms(1,2)] list_store_rep[OF assms(1) q(2)] d n])
  moreover have "set (p # n # xs) \<inter> set (q # ys) = {}" using d n by auto
  ultimately show "rep (add n p h) q ys \<and> set (p # n # xs) \<inter> set (q # ys) = {}" ..
qed

lemma store_add_tail:
  assumes "list_store rep h L" and "L p = Some xs" and "n \<notin> nodes L"
  shows "list_store rep (add_tail n p h) (L(p \<mapsto> xs @ [n]))"
proof (rule list_store_upd [OF assms(1)])
  show "rep (add_tail n p h) p (xs @ [n])"
    by (rule add_tail [OF list_store_rep[OF assms(1,2)]]) (use assms(2,3) nodes_in in fast)
next
  fix q ys assume q: "q \<noteq> p" "L q = Some ys"
  then have n: "n \<notin> set (q # ys)" using assms(3) nodes_in by fast
  have d: "set (p # xs) \<inter> set (q # ys) = {}"
    using list_store_disjoint[OF assms(1)] assms(2) q by blast
  have "rep (add_tail n p h) q ys"
    by (rule add_tail_frame [OF list_store_rep[OF assms(1,2)] list_store_rep[OF assms(1) q(2)] d n])
  moreover have "set (p # xs @ [n]) \<inter> set (q # ys) = {}" using d n by auto
  ultimately show "rep (add_tail n p h) q ys \<and> set (p # xs @ [n]) \<inter> set (q # ys) = {}" ..
qed

lemma store_del:
  assumes "list_store rep h L" and "L p = Some xs" and "n \<in> set xs"
  shows "list_store rep (del n h) (L(p \<mapsto> remove1 n xs))"
proof (rule list_store_upd [OF assms(1)])
  show "rep (del n h) p (remove1 n xs)"
    by (rule del [OF list_store_rep[OF assms(1,2)] assms(3)])
next
  fix q ys assume q: "q \<noteq> p" "L q = Some ys"
  then have d: "set (p # xs) \<inter> set (q # ys) = {}"
    using list_store_disjoint[OF assms(1)] assms(2) by blast
  have "rep (del n h) q ys"
    by (rule del_frame [OF list_store_rep[OF assms(1,2)] assms(3)
          list_store_rep[OF assms(1) q(2)] d])
  then show "rep (del n h) q ys \<and> set (p # remove1 n xs) \<inter> set (q # ys) = {}"
    using d set_remove1_subset[of n xs] by auto
qed

lemma del_not_in_nodes:
  assumes "list_store rep h L" and "L p = Some xs" and "n \<in> set xs"
  shows "n \<notin> nodes (L(p \<mapsto> remove1 n xs))"
proof
  assume "n \<in> nodes (L(p \<mapsto> remove1 n xs))"
  then obtain q ys where q: "(L(p \<mapsto> remove1 n xs)) q = Some ys" "n \<in> set (q # ys)"
    unfolding nodes_def by blast
  have "distinct (p # xs)" by (rule store_distinct[OF assms(1,2)])
  with q assms(3) have "q \<noteq> p" by (auto split: if_splits)
  with q list_store_disjoint[OF assms(1), of p q xs ys] assms(2,3) show False by auto
qed

end

interpretation kernel_list: linked_lists is_list INIT_LIST_HEAD list_add list_add_tail list_del
  by unfold_locales
    (blast intro: is_list_distinct INIT_LIST_HEAD_is_list INIT_LIST_HEAD_frame
      list_add_is_list list_add_frame list_add_tail_is_list list_add_tail_frame
      list_del_is_list list_del_frame)+

section \<open>Properties\<close>

text \<open>C17: In a heap with any number of disjoint lists, empty ones included, each operation does to the list it names what its name
  says to a list of nodes, and leaves every other list as it is: a new empty list, insertion at the front and at the end,
  removal and the move to the end of any list of a node that is in the list, the test for emptiness, and the iteration, which
  visits the nodes in order until the body leaves it.\<close>

theorem list_h_operations:
  assumes "list_store is_list h L" and "n \<notin> nodes L" and "L p = Some xs"
  shows "list_store is_list (INIT_LIST_HEAD n h) (L(n \<mapsto> [])) \<and>
    list_store is_list (list_add n p h) (L(p \<mapsto> n # xs)) \<and>
    list_store is_list (list_add_tail n p h) (L(p \<mapsto> xs @ [n])) \<and>
    list_empty p h = (xs = []) \<and>
    list_for_each h p body s = Some (fold_until body xs s) \<and>
    (\<forall>m \<in> set xs. list_store is_list (list_del m h) (L(p \<mapsto> remove1 m xs)) \<and>
      (\<forall>q ys. (L(p \<mapsto> remove1 m xs)) q = Some ys \<longrightarrow>
         list_store is_list (list_move_tail m q h) (L(p \<mapsto> remove1 m xs, q \<mapsto> ys @ [m]))))"
proof -
  have "list_store is_list (list_move_tail m q h) (L(p \<mapsto> remove1 m xs, q \<mapsto> ys @ [m]))"
    if "m \<in> set xs" "(L(p \<mapsto> remove1 m xs)) q = Some ys" for m q ys
    unfolding list_move_tail_eq
    by (rule kernel_list.store_add_tail[OF kernel_list.store_del[OF assms(1,3) that(1)] that(2)])
      (rule kernel_list.del_not_in_nodes[OF assms(1,3) that(1)])
  moreover have "is_list h p xs" by (rule list_store_rep[OF assms(1,3)])
  ultimately show ?thesis
    using kernel_list.store_del[OF assms(1,3)] kernel_list.store_init[OF assms(1,2)]
      kernel_list.store_add[OF assms(1,3,2)] kernel_list.store_add_tail[OF assms(1,3,2)]
    by (simp add: list_empty_iff list_for_each_eq)
qed

lemma two_lists:
  "list_store is_list
     (list_add_tail 12 10 (INIT_LIST_HEAD 20 (list_add 11 10 (INIT_LIST_HEAD (10::nat) h))))
     (Map.empty(10 \<mapsto> [], 10 \<mapsto> 11 # [], 20 \<mapsto> [], 10 \<mapsto> [11] @ [12]))"
  by (intro kernel_list.store_init kernel_list.store_add kernel_list.store_add_tail
      kernel_list.store_empty) (auto simp: nodes_def split: if_splits)

lemma list_h_operations_witness:
  "\<exists>(h :: nat lheap) L. L 20 = Some [] \<and>
    list_store is_list (list_add 13 10 h) (L(10 \<mapsto> [13, 11, 12])) \<and>
    list_store is_list (list_move_tail 11 20 h) (L(10 \<mapsto> [12], 20 \<mapsto> [11])) \<and>
    list_for_each h 10 (\<lambda>n s. (False, s + n)) 0 = Some 23 \<and> list_empty 20 h"
proof -
  let ?h = "list_add_tail 12 10 (INIT_LIST_HEAD 20 (list_add 11 10
      (INIT_LIST_HEAD (10 :: nat) \<lparr>nxt = id, prv = id\<rparr>)))"
  let ?L = "Map.empty(10 :: nat \<mapsto> [], 10 \<mapsto> 11 # [], 20 \<mapsto> [], 10 \<mapsto> [11] @ [12 :: nat])"
  have n: "13 \<notin> nodes ?L" by (auto simp: nodes_def split: if_splits)
  have l: "?L 10 = Some [11, 12]" "?L 20 = Some []" by simp_all
  note r = list_h_operations[OF two_lists[of "\<lparr>nxt = id, prv = id\<rparr>"] n]
  note c = r[OF l(1), where body = "\<lambda>n s. (False, s + n)" and s = 0, THEN conjunct2]
  have "list_store is_list (list_add 13 10 ?h) (?L(10 \<mapsto> [13, 11, 12]))" using c[THEN conjunct1] .
  moreover have "list_for_each ?h 10 (\<lambda>n s. (False, s + n)) 0 = Some (23 :: nat)"
    using c[THEN conjunct2, THEN conjunct2, THEN conjunct2, THEN conjunct1] by simp
  moreover have "list_store is_list (list_move_tail 11 20 ?h) (?L(10 \<mapsto> remove1 11 [11, 12], 20 \<mapsto> [] @ [11]))"
    using c[THEN conjunct2, THEN conjunct2, THEN conjunct2, THEN conjunct2, THEN bspec, of 11, THEN conjunct2, rule_format, of 20 "[]"]
    by simp
  then have "list_store is_list (list_move_tail 11 20 ?h) (?L(10 \<mapsto> [12], 20 \<mapsto> [11]))" by simp
  moreover have "list_empty 20 ?h"
    using r[OF l(2), where body = "\<lambda>n s. (False, s)" and s = "0 :: nat"] by simp
  ultimately show ?thesis using l(2) by blast
qed

end
