(* ===== verification/Mm.thy ===== *)
theory Mm
  imports ListH "HOL-Library.Multiset"
begin

text \<open>
  \<open>libs/app_utils/src/mm.c\<close>: the fixed-size buffer manager. A manager owns \<open>num\<close>
  buffers cut from one allocation; the free ones are on the list \<open>free_pool\<close>, and a
  client may put the ones it holds on the list \<open>all\<close>. A buffer is named by its index
  in the allocation; a list node is one of the two heads inside the manager or one of
  the two link fields of a buffer, so that the two lists live in one heap and the code
  cannot confuse them unless it really does. The locale \<open>buffer_pool\<close> is the contract
  a client relies on.
\<close>

section \<open>State\<close>

datatype mm_node = FreePool | AllHead | LinkFreeAlloc nat | LinkAll nat

text \<open>
  What a pointer to the user part of a buffer can be: \<open>NULL\<close>, a buffer, or an address
  computed by \<open>list_entry\<close> from a node that is no buffer's \<open>link_node_free_alloc\<close>.
\<close>

datatype mm_ptr = NullPtr | Buf nat | WildPtr

record t_mm_manager =
  buffer_num_total :: u32
  buffer_num_free :: u32
  links :: "mm_node lheap"
  mutex_free_pool :: bool
  mutex_all :: bool
  buffer_mem_len :: u32

text \<open>
  The mutexes are of the default kind: locking a mutex that is held does not return
  when there is no other thread to release it (\<open>None\<close>).
\<close>

definition lock_free_pool :: "t_mm_manager \<Rightarrow> t_mm_manager option" where
  "lock_free_pool m = (if mutex_free_pool m then None else Some (m\<lparr>mutex_free_pool := True\<rparr>))"

definition unlock_free_pool :: "t_mm_manager \<Rightarrow> t_mm_manager" where
  "unlock_free_pool m = m\<lparr>mutex_free_pool := False\<rparr>"

definition lock_all_link :: "t_mm_manager \<Rightarrow> t_mm_manager option" where
  "lock_all_link m = (if mutex_all m then None else Some (m\<lparr>mutex_all := True\<rparr>))"

definition unlock_all_link :: "t_mm_manager \<Rightarrow> t_mm_manager" where
  "unlock_all_link m = m\<lparr>mutex_all := False\<rparr>"

definition upd_links :: "(mm_node lheap \<Rightarrow> mm_node lheap) \<Rightarrow> t_mm_manager \<Rightarrow> t_mm_manager" where
  "upd_links f m = m\<lparr>links := f (links m)\<rparr>"

section \<open>Operations\<close>

definition free_buffer_num :: "t_mm_manager \<Rightarrow> u32" where
  "free_buffer_num m = buffer_num_free m"

definition MM_HANDLE_IS_VALID :: "t_mm_manager option \<Rightarrow> bool" where
  "MM_HANDLE_IS_VALID handle = (handle \<noteq> None)"

definition free_only :: "nat \<Rightarrow> t_mm_manager \<Rightarrow> t_mm_manager" where
  "free_only b m =
     (let m1 = upd_links (list_add_tail (LinkFreeAlloc b) FreePool) m
      in m1\<lparr>buffer_num_free := buffer_num_free m1 + 1\<rparr>)"

definition free_buffer :: "nat \<Rightarrow> t_mm_manager \<Rightarrow> t_mm_manager option" where
  "free_buffer b m = do {
     m1 \<leftarrow> lock_free_pool m;
     let m2 = free_only b m1;
     Some (unlock_free_pool m2)
   }"

text \<open>\<open>list_entry(pt_list, t_buffer, link_node_free_alloc)\<close> and \<open>->buffer\<close>.\<close>

fun buffer_of_free_alloc :: "mm_node \<Rightarrow> mm_ptr" where
  "buffer_of_free_alloc (LinkFreeAlloc b) = Buf b"
| "buffer_of_free_alloc n = WildPtr"

text \<open>The part of \<open>alloc_buffer\<close> under the lock, for the node read before the lock.\<close>

definition alloc_locked :: "mm_node \<Rightarrow> t_mm_manager \<Rightarrow> mm_ptr \<times> t_mm_manager" where
  "alloc_locked pt_list m =
     (if buffer_num_free m = 0 then (NullPtr, m)
      else let m1 = upd_links (list_del pt_list) m;
               m2 = m1\<lparr>buffer_num_free := buffer_num_free m1 - 1\<rparr>
           in (buffer_of_free_alloc pt_list, m2))"

definition alloc_buffer :: "t_mm_manager \<Rightarrow> (mm_ptr \<times> t_mm_manager) option" where
  "alloc_buffer m = do {
     let pt_list = nxt (links m) FreePool;
     m1 \<leftarrow> lock_free_pool m;
     let (ret, m2) = alloc_locked pt_list m1;
     Some (ret, unlock_free_pool m2)
   }"

definition add_to_all_link :: "nat \<Rightarrow> t_mm_manager \<Rightarrow> t_mm_manager option" where
  "add_to_all_link b m = do {
     m1 \<leftarrow> lock_all_link m;
     let m2 = upd_links (list_add_tail (LinkAll b) AllHead) m1;
     Some (unlock_all_link m2)
   }"

definition delete_from_all_link :: "nat \<Rightarrow> t_mm_manager \<Rightarrow> t_mm_manager option" where
  "delete_from_all_link b m = do {
     m1 \<leftarrow> lock_all_link m;
     let m2 = upd_links (list_del (LinkAll b)) m1;
     Some (unlock_all_link m2)
   }"

text \<open>
  \<open>for_each_buf_in_all_link\<close>: the callback answers non-zero to stop; what it does to
  the caller's state is the second component. It takes no lock, as in the source.
\<close>

fun buffer_of_all :: "mm_node \<Rightarrow> mm_ptr" where
  "buffer_of_all (LinkAll b) = Buf b"
| "buffer_of_all n = WildPtr"

definition for_each_buf_in_all_link ::
    "(mm_ptr \<Rightarrow> 's \<Rightarrow> bool \<times> 's) \<Rightarrow> t_mm_manager \<Rightarrow> 's \<Rightarrow> 's option" where
  "for_each_buf_in_all_link usr_func m s =
     list_for_each (links m) AllHead (\<lambda>pos. usr_func (buffer_of_all pos)) s"

text \<open>
  \<open>create_buffer_manager\<close>. \<open>mgr\<close> is the memory the first \<open>malloc\<close> returns, with
  whatever it contains, and \<open>mem_ok\<close> tells whether the second one succeeds. The
  structure \<open>t_buffer\<close> is four pointers, 32 bytes; the lengths are computed in 32 bits.
\<close>

definition init_manager :: "u32 \<Rightarrow> u32 \<Rightarrow> t_mm_manager \<Rightarrow> t_mm_manager" where
  "init_manager num total_mem_len m =
     (let m1 = m\<lparr>buffer_num_total := num, buffer_mem_len := total_mem_len\<rparr>;
          m2 = upd_links (INIT_LIST_HEAD FreePool) m1;
          m3 = upd_links (INIT_LIST_HEAD AllHead) m2
      in m3\<lparr>mutex_free_pool := False, mutex_all := False\<rparr>)"

definition add_new_buffer :: "nat \<Rightarrow> t_mm_manager \<Rightarrow> t_mm_manager" where
  "add_new_buffer i m = free_only i (upd_links (INIT_LIST_HEAD (LinkAll i)) m)"

definition create_buffer_manager ::
    "t_mm_manager option \<Rightarrow> bool \<Rightarrow> int \<Rightarrow> int \<Rightarrow> t_mm_manager option" where
  "create_buffer_manager mgr mem_ok buf_size num =
     (let actual_buf_size = 32 + word_of_int buf_size :: u32;
          total_mem_len = actual_buf_size * word_of_int num
      in case mgr of
           None \<Rightarrow> None
         | Some m \<Rightarrow>
             if \<not> mem_ok then None
             else Some (fold add_new_buffer [0..<nat num]
                         (init_manager (word_of_int num) total_mem_len m)))"

section \<open>The contract of a buffer pool\<close>

text \<open>
  \<open>inv m fs as\<close>: the free buffers are \<open>fs\<close>, in the order they will be handed out,
  and the buffers on the client's list are \<open>as\<close>. \<open>own\<close> is the buffer a returned pointer
  points to.
\<close>

datatype 'b pool_call = CallAlloc | CallFree 'b

text \<open>A client that frees only buffers it holds: the buffers it holds then, every pointer it was given, and the pool.\<close>

fun pool_run ::
    "('m \<Rightarrow> ('p \<times> 'm) option) \<Rightarrow> ('p \<Rightarrow> 'b option) \<Rightarrow> ('b \<Rightarrow> 'm \<Rightarrow> 'm option) \<Rightarrow>
     'b pool_call list \<Rightarrow> 'm \<Rightarrow> 'b list \<Rightarrow> ('b list \<times> 'p list \<times> 'm) option" where
  "pool_run alloc own free [] m held = Some (held, [], m)"
| "pool_run alloc own free (CallAlloc # cs) m held =
     (case alloc m of None \<Rightarrow> None
      | Some (p, m') \<Rightarrow> map_option (\<lambda>(held', ps, m''). (held', p # ps, m'')) (pool_run alloc own free cs m'
          (case own p of None \<Rightarrow> held | Some b \<Rightarrow> b # held)))"
| "pool_run alloc own free (CallFree b # cs) m held =
     (if b \<in> set held
      then case free b m of None \<Rightarrow> None
           | Some m' \<Rightarrow> pool_run alloc own free cs m' (remove1 b held)
      else pool_run alloc own free cs m held)"

locale buffer_pool =
  fixes inv :: "'m \<Rightarrow> 'b list \<Rightarrow> 'b list \<Rightarrow> bool"
    and universe :: "'b set"
    and null :: "'p"
    and own :: "'p \<Rightarrow> 'b option"
    and alloc :: "'m \<Rightarrow> ('p \<times> 'm) option"
    and free :: "'b \<Rightarrow> 'm \<Rightarrow> 'm option"
    and all_add :: "'b \<Rightarrow> 'm \<Rightarrow> 'm option"
    and all_del :: "'b \<Rightarrow> 'm \<Rightarrow> 'm option"
  assumes inv_free: "inv m fs as \<Longrightarrow> distinct fs \<and> set fs \<subseteq> universe"
    and inv_all: "inv m fs as \<Longrightarrow> distinct as \<and> set as \<subseteq> universe"
    and own_null: "own null = None"
    and alloc_none: "inv m [] as \<Longrightarrow> \<exists>m'. alloc m = Some (null, m') \<and> inv m' [] as"
    and alloc_some: "inv m (b # fs) as \<Longrightarrow>
       \<exists>p m'. alloc m = Some (p, m') \<and> own p = Some b \<and> inv m' fs as"
    and free_held: "inv m fs as \<Longrightarrow> b \<in> universe \<Longrightarrow> b \<notin> set fs \<Longrightarrow>
       \<exists>m'. free b m = Some m' \<and> inv m' (fs @ [b]) as"
    and all_add_ok: "inv m fs as \<Longrightarrow> b \<in> universe \<Longrightarrow> b \<notin> set as \<Longrightarrow>
       \<exists>m'. all_add b m = Some m' \<and> inv m' fs (as @ [b])"
    and all_del_ok: "inv m fs as \<Longrightarrow> b \<in> set as \<Longrightarrow>
       \<exists>m'. all_del b m = Some m' \<and> inv m' fs (remove1 b as)"
begin

lemma pool_run_conserves:
  assumes "inv m fs as" and "distinct (held @ fs)" and "set (held @ fs) = universe"
  shows "\<exists>held' ps m' fs'. pool_run alloc own free cs m held = Some (held', ps, m') \<and>
     inv m' fs' as \<and> distinct (held' @ fs') \<and> set (held' @ fs') = universe \<and>
     (\<forall>p \<in> set ps. p = null \<or> own p \<in> Some ` universe)"
  using assms
proof (induction cs arbitrary: m fs held)
  case Nil
  then show ?case by auto
next
  case (Cons c cs)
  show ?case
  proof (cases c)
    case CallAlloc
    show ?thesis
    proof (cases fs)
      case Nil
      with Cons.prems obtain m' where "alloc m = Some (null, m')" "inv m' [] as"
        using alloc_none by blast
      with Cons.IH[of m' "[]" held] Cons.prems Nil CallAlloc own_null show ?thesis by fastforce
    next
      case (Cons b fs')
      with Cons.prems obtain p m' where a: "alloc m = Some (p, m')" "own p = Some b" "inv m' fs' as"
        using alloc_some by blast
      have "distinct ((b # held) @ fs')" "set ((b # held) @ fs') = universe"
        using Cons Cons.prems by auto
      from Cons.IH[OF a(3) this] obtain held' ps m'' fs'' where
        "pool_run alloc own free cs m' (b # held) = Some (held', ps, m'')" "inv m'' fs'' as"
        "distinct (held' @ fs'')" "set (held' @ fs'') = universe" "\<forall>p \<in> set ps. p = null \<or> own p \<in> Some ` universe" by blast
      moreover have "b \<in> universe" using Cons Cons.prems by auto
      ultimately show ?thesis using a(1,2) CallAlloc
        by (intro exI[of _ held', OF exI[of _ "p # ps", OF exI[of _ m'', OF exI[of _ fs'']]]]) simp
    qed
  next
    case (CallFree b)
    show ?thesis
    proof (cases "b \<in> set held")
      case True
      then have "b \<in> universe" "b \<notin> set fs" using Cons.prems by auto
      with Cons.prems obtain m' where f: "free b m = Some m'" "inv m' (fs @ [b]) as"
        using free_held by blast
      have "distinct (remove1 b held @ fs @ [b])" "set (remove1 b held @ fs @ [b]) = universe"
        using Cons.prems True \<open>b \<in> universe\<close> by auto
      from Cons.IH[OF f(2) this] f CallFree True show ?thesis by simp
    next
      case False
      with Cons.IH[OF Cons.prems] CallFree show ?thesis by simp
    qed
  qed
qed

lemma alloc_fails_only_when_all_held:
  assumes "inv m fs as" and "distinct (held @ fs)" and "set (held @ fs) = universe"
  shows "(\<exists>m'. alloc m = Some (null, m')) \<longleftrightarrow> set held = universe"
proof (cases fs)
  case Nil
  then show ?thesis using assms alloc_none[of m as] by auto
next
  case (Cons b fs')
  then obtain p m' where "alloc m = Some (p, m')" "own p = Some b"
    using assms(1) alloc_some by blast
  moreover have "b \<in> universe" "b \<notin> set held" using assms Cons by auto
  ultimately show ?thesis using own_null by auto
qed

end

section \<open>The manager keeps the contract\<close>

definition mm_lists :: "t_mm_manager \<Rightarrow> nat list \<Rightarrow> nat list \<Rightarrow> bool" where
  "mm_lists m fs as \<longleftrightarrow>
     list_store is_list (links m)
       [FreePool \<mapsto> map LinkFreeAlloc fs, AllHead \<mapsto> map LinkAll as] \<and>
     \<not> mutex_free_pool m \<and> \<not> mutex_all m"

text \<open>The counter agrees with the list, and the indices are those of \<open>num\<close> buffers.\<close>

definition mm_ok :: "nat \<Rightarrow> t_mm_manager \<Rightarrow> nat list \<Rightarrow> nat list \<Rightarrow> bool" where
  "mm_ok num m fs as \<longleftrightarrow>
     mm_lists m fs as \<and> unat (buffer_num_free m) = length fs \<and>
     set fs \<subseteq> {..<num} \<and> set as \<subseteq> {..<num} \<and> num < 2 ^ 32"

lemma nodes_mm:
  "nodes [FreePool \<mapsto> map LinkFreeAlloc fs, AllHead \<mapsto> map LinkAll as] =
     {FreePool, AllHead} \<union> LinkFreeAlloc ` set fs \<union> LinkAll ` set as"
  unfolding nodes_def by (auto split: if_splits)

lemma upd_links_sel [simp]:
  "links (upd_links f m) = f (links m)"
  "buffer_num_free (upd_links f m) = buffer_num_free m"
  "buffer_num_total (upd_links f m) = buffer_num_total m"
  "mutex_free_pool (upd_links f m) = mutex_free_pool m"
  "mutex_all (upd_links f m) = mutex_all m"
  by (simp_all add: upd_links_def)

lemma mm_lists_distinct:
  assumes "mm_lists m fs as"
  shows "distinct fs" and "distinct as"
proof -
  have s: "list_store is_list (links m)
      [FreePool \<mapsto> map LinkFreeAlloc fs, AllHead \<mapsto> map LinkAll as]"
    using assms by (simp add: mm_lists_def)
  show "distinct fs"
    using kernel_list.store_distinct[OF s, of FreePool] by (simp add: distinct_map)
  show "distinct as"
    using kernel_list.store_distinct[OF s, of AllHead] by (simp add: distinct_map)
qed

lemma mm_lists_head:
  "mm_lists m (b # fs) as \<Longrightarrow> nxt (links m) FreePool = LinkFreeAlloc b"
  "mm_lists m [] as \<Longrightarrow> nxt (links m) FreePool = FreePool"
  unfolding mm_lists_def
  by (force dest!: list_store_rep[where p = FreePool] simp: is_list_def)+

lemma free_only_lists:
  assumes "mm_lists m fs as" and "b \<notin> set fs"
  shows "mm_lists (free_only b m) (fs @ [b]) as"
proof -
  have "list_store is_list (list_add_tail (LinkFreeAlloc b) FreePool (links m))
     ([FreePool \<mapsto> map LinkFreeAlloc fs, AllHead \<mapsto> map LinkAll as]
        (FreePool \<mapsto> map LinkFreeAlloc fs @ [LinkFreeAlloc b]))"
    using assms by (intro kernel_list.store_add_tail) (auto simp: mm_lists_def nodes_mm)
  moreover have "[FreePool \<mapsto> map LinkFreeAlloc fs, AllHead \<mapsto> map LinkAll as]
        (FreePool \<mapsto> map LinkFreeAlloc fs @ [LinkFreeAlloc b]) =
     [FreePool \<mapsto> map LinkFreeAlloc (fs @ [b]), AllHead \<mapsto> map LinkAll as]"
    by auto
  ultimately show ?thesis using assms(1) by (simp add: mm_lists_def free_only_def Let_def)
qed

lemma del_free_lists:
  assumes "mm_lists m (b # fs) as"
  shows "mm_lists (upd_links (list_del (LinkFreeAlloc b)) m) fs as"
proof -
  have "list_store is_list (list_del (LinkFreeAlloc b) (links m))
     ([FreePool \<mapsto> map LinkFreeAlloc (b # fs), AllHead \<mapsto> map LinkAll as]
        (FreePool \<mapsto> remove1 (LinkFreeAlloc b) (map LinkFreeAlloc (b # fs))))"
    using assms by (intro kernel_list.store_del) (auto simp: mm_lists_def)
  moreover have "[FreePool \<mapsto> map LinkFreeAlloc (b # fs), AllHead \<mapsto> map LinkAll as]
        (FreePool \<mapsto> remove1 (LinkFreeAlloc b) (map LinkFreeAlloc (b # fs))) =
     [FreePool \<mapsto> map LinkFreeAlloc fs, AllHead \<mapsto> map LinkAll as]"
    by auto
  ultimately show ?thesis using assms(1) by (simp add: mm_lists_def)
qed

lemma mm_lists_free_cong:
  "links m' = links m \<Longrightarrow> \<not> mutex_free_pool m' \<Longrightarrow> mutex_all m' = mutex_all m \<Longrightarrow>
     mm_lists m fs as \<Longrightarrow> mm_lists m' fs as"
  by (simp add: mm_lists_def)

lemma alloc_buffer_none:
  assumes "mm_lists m fs as" and "buffer_num_free m = 0"
  shows "alloc_buffer m = Some (NullPtr, m)"
  using assms
  by (auto simp: alloc_buffer_def lock_free_pool_def alloc_locked_def unlock_free_pool_def
      mm_lists_def)

lemma alloc_buffer_some:
  assumes "mm_lists m (b # fs) as" and "buffer_num_free m \<noteq> 0"
  shows "\<exists>m'. alloc_buffer m = Some (Buf b, m') \<and> mm_lists m' fs as \<and>
     buffer_num_free m' = buffer_num_free m - 1"
proof -
  let ?m = "upd_links (list_del (LinkFreeAlloc b)) m"
  let ?m' = "?m\<lparr>mutex_free_pool := False, buffer_num_free := buffer_num_free m - 1\<rparr>"
  have "mm_lists ?m fs as" by (rule del_free_lists[OF assms(1)])
  then have "mm_lists ?m' fs as" by (simp add: mm_lists_def)
  moreover have "alloc_buffer m = Some (Buf b, ?m')"
    using assms mm_lists_head(1)[OF assms(1)]
    by (simp add: alloc_buffer_def lock_free_pool_def alloc_locked_def unlock_free_pool_def
        mm_lists_def upd_links_def Let_def)
  ultimately show ?thesis by simp
qed

lemma free_buffer_lists:
  assumes "mm_lists m fs as" and "b \<notin> set fs"
  shows "\<exists>m'. free_buffer b m = Some m' \<and> mm_lists m' (fs @ [b]) as \<and>
     buffer_num_free m' = buffer_num_free m + 1"
proof -
  have e: "free_buffer b m = Some (free_only b m\<lparr>mutex_free_pool := False\<rparr>)"
    using assms(1)
    by (simp add: free_buffer_def lock_free_pool_def unlock_free_pool_def mm_lists_def
        free_only_def upd_links_def Let_def)
  moreover have "mm_lists (free_only b m\<lparr>mutex_free_pool := False\<rparr>) (fs @ [b]) as"
    using free_only_lists[OF assms] by (simp add: mm_lists_def)
  ultimately show ?thesis by (simp add: free_only_def Let_def)
qed

lemma add_to_all_lists:
  assumes "mm_lists m fs as" and "b \<notin> set as"
  shows "\<exists>m'. add_to_all_link b m = Some m' \<and> mm_lists m' fs (as @ [b]) \<and>
     buffer_num_free m' = buffer_num_free m"
proof -
  have "list_store is_list (list_add_tail (LinkAll b) AllHead (links m))
     ([FreePool \<mapsto> map LinkFreeAlloc fs, AllHead \<mapsto> map LinkAll as]
        (AllHead \<mapsto> map LinkAll as @ [LinkAll b]))"
    using assms by (intro kernel_list.store_add_tail) (auto simp: mm_lists_def nodes_mm)
  then show ?thesis using assms(1)
    by (simp add: add_to_all_link_def lock_all_link_def unlock_all_link_def mm_lists_def)
qed

lemma delete_from_all_lists:
  assumes "mm_lists m fs as" and "b \<in> set as"
  shows "\<exists>m'. delete_from_all_link b m = Some m' \<and> mm_lists m' fs (remove1 b as) \<and>
     buffer_num_free m' = buffer_num_free m"
proof -
  have "list_store is_list (list_del (LinkAll b) (links m))
     ([FreePool \<mapsto> map LinkFreeAlloc fs, AllHead \<mapsto> map LinkAll as]
        (AllHead \<mapsto> remove1 (LinkAll b) (map LinkAll as)))"
    using assms by (intro kernel_list.store_del) (auto simp: mm_lists_def)
  moreover have "remove1 (LinkAll b) (map LinkAll as) = map LinkAll (remove1 b as)"
    by (rule remove1_map_inj) (simp add: inj_def)
  ultimately show ?thesis using assms(1)
    by (simp add: delete_from_all_link_def lock_all_link_def unlock_all_link_def mm_lists_def)
qed

lemma mm_ok_count:
  assumes "mm_ok num m fs as"
  shows "length fs \<le> num" and "(buffer_num_free m = 0) = (fs = [])"
proof -
  show "length fs \<le> num"
    using assms mm_lists_distinct length_distinct_bound unfolding mm_ok_def by blast
  show "(buffer_num_free m = 0) = (fs = [])"
    using assms by (auto simp: mm_ok_def unat_eq_0[symmetric])
qed

lemma mm_ok_alloc_none:
  "mm_ok num m [] as \<Longrightarrow> alloc_buffer m = Some (NullPtr, m)"
  using alloc_buffer_none mm_ok_count(2) unfolding mm_ok_def by blast

lemma mm_ok_alloc_some:
  assumes "mm_ok num m (b # fs) as"
  shows "\<exists>m'. alloc_buffer m = Some (Buf b, m') \<and> mm_ok num m' fs as"
proof -
  have nz: "buffer_num_free m \<noteq> 0" using mm_ok_count(2)[OF assms] by simp
  with assms obtain m' where "alloc_buffer m = Some (Buf b, m')" "mm_lists m' fs as"
      "buffer_num_free m' = buffer_num_free m - 1"
    using alloc_buffer_some unfolding mm_ok_def by blast
  with assms nz show ?thesis by (auto simp: mm_ok_def unat_pred_word unat_gt_0)
qed

lemma mm_ok_free:
  assumes "mm_ok num m fs as" and "b < num" and "b \<notin> set fs"
  shows "\<exists>m'. free_buffer b m = Some m' \<and> mm_ok num m' (fs @ [b]) as"
proof -
  obtain m' where f: "free_buffer b m = Some m'" "mm_lists m' (fs @ [b]) as"
      "buffer_num_free m' = buffer_num_free m + 1"
    using assms free_buffer_lists unfolding mm_ok_def by blast
  then have "length (fs @ [b]) \<le> num"
    using assms mm_lists_distinct(1) by (intro length_distinct_bound) (auto simp: mm_ok_def)
  then have "unat (buffer_num_free m + 1) = Suc (length fs)"
    using assms by (subst unat_Suc_word) (auto simp: mm_ok_def)
  with f assms show ?thesis by (auto simp: mm_ok_def)
qed

lemma mm_ok_all_add:
  "mm_ok num m fs as \<Longrightarrow> b < num \<Longrightarrow> b \<notin> set as \<Longrightarrow>
     \<exists>m'. add_to_all_link b m = Some m' \<and> mm_ok num m' fs (as @ [b])"
  using add_to_all_lists[of m fs as b] by (auto simp: mm_ok_def)

lemma mm_ok_all_del:
  "mm_ok num m fs as \<Longrightarrow> b \<in> set as \<Longrightarrow>
     \<exists>m'. delete_from_all_link b m = Some m' \<and> mm_ok num m' fs (remove1 b as)"
  using delete_from_all_lists[of m fs as b] set_remove1_subset[of b as]
  by (auto simp: mm_ok_def)

fun own_buffer :: "mm_ptr \<Rightarrow> nat option" where
  "own_buffer (Buf b) = Some b"
| "own_buffer p = None"

interpretation mm_pool: buffer_pool "mm_ok num" "{..<num}" NullPtr own_buffer
    alloc_buffer free_buffer add_to_all_link delete_from_all_link for num
proof unfold_locales
  show "mm_ok num m fs as \<Longrightarrow> distinct fs \<and> set fs \<subseteq> {..<num}" for m fs as
    using mm_lists_distinct(1) unfolding mm_ok_def by blast
  show "mm_ok num m fs as \<Longrightarrow> distinct as \<and> set as \<subseteq> {..<num}" for m fs as
    using mm_lists_distinct(2) unfolding mm_ok_def by blast
  show "mm_ok num m [] as \<Longrightarrow> \<exists>m'. alloc_buffer m = Some (NullPtr, m') \<and> mm_ok num m' [] as"
    for m as
    using mm_ok_alloc_none by blast
  show "mm_ok num m (b # fs) as \<Longrightarrow>
      \<exists>p m'. alloc_buffer m = Some (p, m') \<and> own_buffer p = Some b \<and> mm_ok num m' fs as"
    for m b fs as
    using mm_ok_alloc_some by fastforce
qed (use mm_ok_free mm_ok_all_add mm_ok_all_del in auto)

section \<open>Creation\<close>

lemma init_manager_lists: "mm_lists (init_manager n l m) [] []"
proof -
  have "list_store is_list (INIT_LIST_HEAD AllHead (INIT_LIST_HEAD FreePool (links m)))
      (Map.empty(FreePool \<mapsto> [], AllHead \<mapsto> []))"
    by (intro kernel_list.store_init kernel_list.store_empty) (simp_all add: nodes_def)
  then show ?thesis by (simp add: mm_lists_def init_manager_def Let_def upd_links_def)
qed

lemma init_link_all_lists:
  assumes "mm_lists m fs []"
  shows "mm_lists (upd_links (INIT_LIST_HEAD (LinkAll i)) m) fs []"
proof -
  let ?L = "[FreePool \<mapsto> map LinkFreeAlloc fs, AllHead \<mapsto> map LinkAll []]"
  have s: "list_store is_list (links m) ?L" using assms by (simp add: mm_lists_def)
  have "list_store is_list (INIT_LIST_HEAD (LinkAll i) (links m)) (?L(LinkAll i \<mapsto> []))"
    using s by (rule kernel_list.store_init) (use nodes_mm[of fs "[]"] in auto)
  then have "list_store is_list (INIT_LIST_HEAD (LinkAll i) (links m)) ?L"
    unfolding list_store_def by (auto split: if_splits; metis mm_node.distinct)
  then show ?thesis using assms by (simp add: mm_lists_def)
qed

lemma add_new_buffers_lists:
  assumes "mm_lists m fs []" and "distinct (fs @ is)"
  shows "mm_lists (fold add_new_buffer is m) (fs @ is) [] \<and>
     buffer_num_free (fold add_new_buffer is m) = buffer_num_free m + of_nat (length is)"
  using assms
proof (induction "is" arbitrary: m fs)
  case Nil
  then show ?case by simp
next
  case (Cons i js)
  have "mm_lists (add_new_buffer i m) (fs @ [i]) []"
    unfolding add_new_buffer_def
    by (rule free_only_lists [OF init_link_all_lists]) (use Cons.prems in auto)
  from Cons.IH[OF this] Cons.prems show ?case
    by (simp add: add_new_buffer_def free_only_def Let_def)
qed

lemma create_buffer_manager_lists:
  assumes "create_buffer_manager (Some junk) True buf_size num = Some m"
  shows "mm_lists m [0..<nat num] [] \<and>
    buffer_num_free m = buffer_num_free junk + of_nat (nat num)"
proof -
  obtain l where m: "m = fold add_new_buffer [0..<nat num] (init_manager (word_of_int num) l junk)"
    using assms by (auto simp: create_buffer_manager_def Let_def)
  have "buffer_num_free (init_manager (word_of_int num) l junk) = buffer_num_free junk"
    by (simp add: init_manager_def Let_def)
  with add_new_buffers_lists[OF init_manager_lists, of "[0..<nat num]" "word_of_int num" l junk]
  show ?thesis by (simp add: m)
qed

section \<open>Threads in \<open>alloc_buffer\<close>\<close>

text \<open>
  The steps of \<open>alloc_buffer\<close> between which another thread can run: it reads
  \<open>free_pool.next\<close>, takes the lock, does the work, releases the lock.
\<close>

datatype alloc_pc =
    AtEntry | HasNode mm_node | InLock mm_node | Leaving mm_ptr | Returned mm_ptr

inductive alloc_step ::
    "t_mm_manager \<times> (nat \<Rightarrow> alloc_pc) \<Rightarrow> t_mm_manager \<times> (nat \<Rightarrow> alloc_pc) \<Rightarrow> bool" where
  read_head: "pc t = AtEntry \<Longrightarrow>
     alloc_step (m, pc) (m, pc(t := HasNode (nxt (links m) FreePool)))"
| take_lock: "pc t = HasNode n \<Longrightarrow> lock_free_pool m = Some m' \<Longrightarrow>
     alloc_step (m, pc) (m', pc(t := InLock n))"
| work: "pc t = InLock n \<Longrightarrow> alloc_locked n m = (p, m') \<Longrightarrow>
     alloc_step (m, pc) (m', pc(t := Leaving p))"
| drop_lock: "pc t = Leaving p \<Longrightarrow>
     alloc_step (m, pc) (unlock_free_pool m, pc(t := Returned p))"

inductive_cases alloc_stepE: "alloc_step (m, pc) s'"

abbreviation alloc_steps where "alloc_steps \<equiv> alloc_step\<^sup>*\<^sup>*"

fun in_lock :: "alloc_pc \<Rightarrow> bool" where
  "in_lock (InLock n) = True"
| "in_lock (Leaving p) = True"
| "in_lock _ = False"

lemma alloc_locked_mutex: "alloc_locked n m = (p, m') \<Longrightarrow> mutex_free_pool m' = mutex_free_pool m"
  by (auto simp: alloc_locked_def Let_def split: if_splits)

lemma alloc_steps_HasNode:
  assumes "pc t = HasNode n" and "lock_free_pool m = Some m1" and "alloc_locked n m1 = (p, m2)"
  shows "alloc_steps (m, pc) (unlock_free_pool m2, pc(t := Returned p))"
proof -
  have 1: "alloc_step (m, pc) (m1, pc(t := InLock n))"
    using take_lock[of pc t n m m1] assms by simp
  have 2: "alloc_step (m1, pc(t := InLock n)) (m2, pc(t := Leaving p))"
    using work[of "pc(t := InLock n)" t n m1 p m2] assms by simp
  have 3: "alloc_step (m2, pc(t := Leaving p)) (unlock_free_pool m2, pc(t := Returned p))"
    using drop_lock[of "pc(t := Leaving p)" t p m2] by simp
  from 1 2 3 show ?thesis by (meson rtranclp.rtrancl_into_rtrancl rtranclp.rtrancl_refl)
qed

lemma alloc_buffer_steps:
  assumes "alloc_buffer m = Some (p, m')" and "pc t = AtEntry"
  shows "alloc_steps (m, pc) (m', pc(t := Returned p))"
proof -
  let ?n = "nxt (links m) FreePool"
  obtain m1 where l1: "lock_free_pool m = Some m1"
    using assms(1) by (cases "lock_free_pool m") (auto simp: alloc_buffer_def)
  obtain q m2 where l2: "alloc_locked ?n m1 = (q, m2)" by (cases "alloc_locked ?n m1")
  with l1 assms(1) have l: "lock_free_pool m = Some m1" "alloc_locked ?n m1 = (p, m2)"
      "m' = unlock_free_pool m2"
    by (auto simp: alloc_buffer_def)
  have "alloc_step (m, pc) (m, pc(t := HasNode ?n))" by (rule read_head[of pc t, OF assms(2)])
  moreover have "alloc_steps (m, pc(t := HasNode ?n)) (m', pc(t := Returned p))"
    using alloc_steps_HasNode[of "pc(t := HasNode ?n)" t ?n m m1 p m2] l by simp
  ultimately show ?thesis by (rule converse_rtranclp_into_rtranclp)
qed

definition lock_inv :: "t_mm_manager \<times> (nat \<Rightarrow> alloc_pc) \<Rightarrow> bool" where
  "lock_inv s \<longleftrightarrow> (case s of (m, pc) \<Rightarrow>
     (\<forall>t u. in_lock (pc t) \<longrightarrow> in_lock (pc u) \<longrightarrow> t = u) \<and>
     (mutex_free_pool m \<longleftrightarrow> (\<exists>t. in_lock (pc t))))"

lemma lock_inv_step: "alloc_step s s' \<Longrightarrow> lock_inv s \<Longrightarrow> lock_inv s'"
proof (induction rule: alloc_step.induct)
  case (read_head pc t m)
  then have e: "in_lock (pc u) = in_lock ((pc(t := HasNode (nxt (links m) FreePool))) u)" for u
    by simp
  from read_head show ?case unfolding lock_inv_def prod.case e[symmetric] by simp
next
  case (take_lock pc t n m m')
  then show ?case
    by (auto simp: lock_inv_def lock_free_pool_def split: if_splits)
next
  case (work pc t n m p m')
  then have e: "in_lock (pc u) = in_lock ((pc(t := Leaving p)) u)" for u by simp
  from work alloc_locked_mutex[OF work(2)] show ?case
    unfolding lock_inv_def prod.case e[symmetric] by simp
next
  case (drop_lock pc t p m)
  then have "in_lock (pc t)" by simp
  with drop_lock show ?case by (auto simp: lock_inv_def unlock_free_pool_def)
qed

lemma lock_inv_steps: "alloc_steps s s' \<Longrightarrow> lock_inv s \<Longrightarrow> lock_inv s'"
  by (induction rule: rtranclp_induct) (auto intro: lock_inv_step)

section \<open>Properties\<close>

text \<open>Concrete managers for the witnesses: three buffers, and memory whose stale
  counter is \<open>c\<close>.\<close>

definition stale_memory :: "u32 \<Rightarrow> t_mm_manager" where
  "stale_memory c = \<lparr>buffer_num_total = 0, buffer_num_free = c,
     links = \<lparr>nxt = (\<lambda>_. FreePool), prv = (\<lambda>_. FreePool)\<rparr>,
     mutex_free_pool = False, mutex_all = False, buffer_mem_len = 0\<rparr>"

definition three_buffers :: "u32 \<Rightarrow> t_mm_manager" where
  "three_buffers c = the (create_buffer_manager (Some (stale_memory c)) True 16 3)"

lemma three_buffers_create:
  "create_buffer_manager (Some (stale_memory c)) True 16 3 = Some (three_buffers c)"
  by (simp add: three_buffers_def create_buffer_manager_def Let_def)

lemma three_buffers_lists:
  "mm_lists (three_buffers c) [0, 1, 2] [] \<and> buffer_num_free (three_buffers c) = c + 3"
  using create_buffer_manager_lists[OF three_buffers_create[of c]]
  by (simp add: stale_memory_def upt_rec eval_nat_numeral)

lemma three_buffers_ok: "mm_ok 3 (three_buffers 0) [0, 1, 2] []"
  using three_buffers_lists[of 0] by (simp add: mm_ok_def)

text \<open>C18: Over any sequence of allocations and of frees of held buffers, a manager whose
  counter agrees with its free list never fails to return; every pointer it hands out is \<open>NULL\<close> or one of
  its buffers, and none that is held then; \<open>NULL\<close> exactly when all are held. It loses none: the held buffers and the free
  list always partition the buffers of the manager.\<close>

theorem mm_client_conservation:
  assumes "mm_ok num m fs as" and "distinct (held @ fs)" and "set (held @ fs) = {..<num}"
  shows "\<exists>held' ps m' fs'. pool_run alloc_buffer own_buffer free_buffer cs m held = Some (held', ps, m') \<and>
     mm_ok num m' fs' as \<and> distinct (held' @ fs') \<and> set (held' @ fs') = {..<num} \<and>
     set ps \<subseteq> insert NullPtr (Buf ` {..<num}) \<and>
     (case alloc_buffer m' of None \<Rightarrow> False
      | Some (p, _) \<Rightarrow> if set held' = {..<num} then p = NullPtr else p \<in> Buf ` ({..<num} - set held'))"
proof -
  obtain held' ps m' fs' where r:
      "pool_run alloc_buffer own_buffer free_buffer cs m held = Some (held', ps, m')"
      "mm_ok num m' fs' as" "distinct (held' @ fs')" "set (held' @ fs') = {..<num}"
      "\<forall>p \<in> set ps. p = NullPtr \<or> own_buffer p \<in> Some ` {..<num}"
    using mm_pool.pool_run_conserves[OF assms] by blast
  have "p = NullPtr \<or> p \<in> Buf ` {..<num}" if "p \<in> set ps" for p
    using bspec[OF r(5) that] by (cases p) auto
  then have "set ps \<subseteq> insert NullPtr (Buf ` {..<num})" by blast
  moreover have "case alloc_buffer m' of None \<Rightarrow> False
      | Some (p, _) \<Rightarrow> if set held' = {..<num} then p = NullPtr else p \<in> Buf ` ({..<num} - set held')"
  proof (cases fs')
    case Nil
    with r(2,4) mm_ok_alloc_none[of num m' as] show ?thesis by simp
  next
    case (Cons b fs'')
    with r(2) mm_ok_alloc_some[of num m' b fs'' as] obtain m'' where "alloc_buffer m' = Some (Buf b, m'')" by blast
    moreover have "b \<in> {..<num} - set held'" "set held' \<noteq> {..<num}" using r(3,4) Cons by auto
    ultimately show ?thesis by simp
  qed
  ultimately show ?thesis using r(1-4) by blast
qed

lemma mm_client_conservation_witness:
  "\<exists>held' ps m'. pool_run alloc_buffer own_buffer free_buffer
       [CallAlloc, CallAlloc, CallFree 0, CallAlloc] (three_buffers 0) [] = Some (held', ps, m') \<and>
     set ps \<subseteq> insert NullPtr (Buf ` {..<3})"
  using mm_client_conservation[OF three_buffers_ok, of "[]" "[CallAlloc, CallAlloc, CallFree 0, CallAlloc]"] by fastforce

text \<open>\<open>create_buffer_manager\<close> links every buffer on the free list in address order and
  leaves the client list empty, but never initialises \<open>buffer_num_free\<close>: the counter
  starts at whatever the allocated memory held and is only incremented.\<close>

theorem mm_create_counter:
  assumes "create_buffer_manager (Some junk) True buf_size num = Some m"
  shows "mm_lists m [0..<nat num] [] \<and>
    free_buffer_num m = buffer_num_free junk + of_nat (nat num)"
  using create_buffer_manager_lists[OF assms] by (simp add: free_buffer_num_def)

lemma mm_create_counter_witness:
  "mm_lists (three_buffers 7) [0..<nat 3] [] \<and> free_buffer_num (three_buffers 7) = 7 + 3"
  using mm_create_counter[OF three_buffers_create[of 7]] by (simp add: stale_memory_def)

text \<open>In a manager whose counter is too high, which is what uninitialised memory can
  give, the allocation after the last buffer is not refused: it unlinks the list head
  and returns an address inside the manager structure instead of \<open>NULL\<close>.\<close>

theorem mm_exhausted_returns_manager:
  assumes "mm_lists m [] as" and "buffer_num_free m \<noteq> 0"
  shows "\<exists>m'. alloc_buffer m = Some (WildPtr, m')"
proof -
  have "nxt (links m) FreePool = FreePool" by (rule mm_lists_head(2)[OF assms(1)])
  with assms show ?thesis
    by (simp add: alloc_buffer_def lock_free_pool_def alloc_locked_def mm_lists_def Let_def)
qed

lemma three_buffers_drained:
  "\<exists>m. mm_lists m [] [] \<and> buffer_num_free m = 1"
proof -
  obtain m1 where 1: "mm_lists m1 [1, 2] []" "buffer_num_free m1 = 3"
    using alloc_buffer_some[of "three_buffers 1" 0 "[1, 2]" "[]"] three_buffers_lists[of 1]
    by auto
  obtain m2 where 2: "mm_lists m2 [2] []" "buffer_num_free m2 = 2"
    using alloc_buffer_some[OF 1(1)] 1(2) by auto
  then show ?thesis using alloc_buffer_some[OF 2(1)] by auto
qed

lemma mm_exhausted_returns_manager_witness:
  "\<exists>m m'. mm_lists m [] [] \<and> alloc_buffer m = Some (WildPtr, m')"
  using three_buffers_drained mm_exhausted_returns_manager by fastforce

text \<open>\<open>alloc_buffer\<close> reads \<open>free_pool.next\<close> before it takes the lock, so from any
  correct manager with two free buffers two threads can both return the same buffer.\<close>

theorem mm_alloc_race:
  assumes "mm_ok num m (b # c # fs) as" and "t \<noteq> u" and "pc t = AtEntry" and "pc u = AtEntry"
  shows "\<exists>m' pc'. alloc_steps (m, pc) (m', pc') \<and>
     pc' t = Returned (Buf b) \<and> pc' u = Returned (Buf b)"
proof -
  have n: "nxt (links m) FreePool = LinkFreeAlloc b"
    using assms(1) mm_lists_head(1) unfolding mm_ok_def by blast
  have 1: "alloc_step (m, pc) (m, pc(u := HasNode (LinkFreeAlloc b)))"
    using read_head[of pc u m] assms(4) n by simp
  obtain m1 where a: "alloc_buffer m = Some (Buf b, m1)" "mm_ok num m1 (c # fs) as"
    using mm_ok_alloc_some[OF assms(1)] by blast
  let ?pc1 = "pc(u := HasNode (LinkFreeAlloc b), t := Returned (Buf b))"
  have 2: "alloc_steps (m, pc(u := HasNode (LinkFreeAlloc b))) (m1, ?pc1)"
    by (rule alloc_buffer_steps[OF a(1)]) (use assms in simp)
  obtain m2 where l: "lock_free_pool m1 = Some m2"
    using a(2) by (auto simp: lock_free_pool_def mm_ok_def mm_lists_def)
  then have "buffer_num_free m2 \<noteq> 0"
    using mm_ok_count(2)[OF a(2)] by (auto simp: lock_free_pool_def split: if_splits)
  then obtain m3 where w: "alloc_locked (LinkFreeAlloc b) m2 = (Buf b, m3)"
    by (simp add: alloc_locked_def Let_def)
  have "alloc_steps (m1, ?pc1) (unlock_free_pool m3, ?pc1(u := Returned (Buf b)))"
    by (rule alloc_steps_HasNode[OF _ l w]) (use assms(2) in simp)
  with 1 2 have "alloc_steps (m, pc) (unlock_free_pool m3, ?pc1(u := Returned (Buf b)))"
    by (meson converse_rtranclp_into_rtranclp rtranclp_trans)
  then show ?thesis using assms(2) by fastforce
qed

lemma mm_alloc_race_witness:
  "\<exists>m' pc'. alloc_steps (three_buffers 0, \<lambda>_. AtEntry) (m', pc') \<and>
     pc' 1 = Returned (Buf 0) \<and> pc' 2 = Returned (Buf 0)"
  by (rule mm_alloc_race[OF three_buffers_ok]) auto

text \<open>In every interleaving of threads in \<open>alloc_buffer\<close>, at most one thread is between
  lock and unlock, and the mutex is held exactly then.\<close>

theorem mm_mutual_exclusion:
  assumes "alloc_steps (m, \<lambda>_. AtEntry) (m', pc)" and "\<not> mutex_free_pool m"
    and "in_lock (pc t)" and "in_lock (pc u)"
  shows "t = u \<and> mutex_free_pool m'"
proof -
  have "lock_inv (m, \<lambda>_. AtEntry)" using assms(2) by (simp add: lock_inv_def)
  then have "lock_inv (m', pc)" by (rule lock_inv_steps[OF assms(1)])
  with assms(3,4) show ?thesis by (auto simp: lock_inv_def)
qed

lemma mm_mutual_exclusion_witness:
  "\<exists>m' pc. alloc_steps (three_buffers 0, \<lambda>_. AtEntry) (m', pc) \<and> in_lock (pc 1) \<and>
     (1::nat) = 1 \<and> mutex_free_pool m'"
proof -
  let ?m = "three_buffers 0" and ?pc = "(\<lambda>_. AtEntry) (1 := HasNode (nxt (links (three_buffers 0)) FreePool))"
  have u: "\<not> mutex_free_pool ?m" using three_buffers_lists[of 0] by (simp add: mm_lists_def)
  then obtain m1 where l: "lock_free_pool ?m = Some m1" by (auto simp: lock_free_pool_def)
  have "alloc_step (?m, \<lambda>_. AtEntry) (?m, ?pc)" by (rule read_head) simp
  moreover have "alloc_step (?m, ?pc) (m1, ?pc(1 := InLock (nxt (links ?m) FreePool)))"
    by (rule take_lock) (use l in simp_all)
  ultimately have r:
    "alloc_steps (?m, \<lambda>_. AtEntry) (m1, ?pc(1 := InLock (nxt (links ?m) FreePool)))"
    by (meson rtranclp.rtrancl_into_rtrancl rtranclp.rtrancl_refl)
  with mm_mutual_exclusion[OF r u, of 1 1] show ?thesis by fastforce
qed

text \<open>\<open>for_each_buf_in_all_link\<close> calls the function on exactly the buffers the client
  linked and did not unlink, in the order it linked them, up to the first call that
  answers non-zero, and it returns.\<close>

theorem mm_for_each_visits:
  assumes "mm_ok num m fs as"
  shows "for_each_buf_in_all_link usr_func m s =
     Some (fold_until (\<lambda>b. usr_func (Buf b)) as s)"
proof -
  have "is_list (links m) AllHead (map LinkAll as)"
    using assms list_store_rep unfolding mm_ok_def mm_lists_def by fastforce
  then have "for_each_buf_in_all_link usr_func m s =
     Some (fold_until (\<lambda>pos. usr_func (buffer_of_all pos)) (map LinkAll as) s)"
    by (simp add: for_each_buf_in_all_link_def list_for_each_eq)
  also have "fold_until (\<lambda>pos. usr_func (buffer_of_all pos)) (map LinkAll as) s =
     fold_until (\<lambda>b. usr_func (Buf b)) as s"
    by (induction as arbitrary: s) (auto split: prod.splits)
  finally show ?thesis .
qed

lemma mm_for_each_visits_witness:
  "\<exists>m. add_to_all_link 2 (three_buffers 0) = Some m \<and>
     for_each_buf_in_all_link (\<lambda>p ps. (False, ps @ [p])) m [] = Some [Buf 2]"
proof -
  obtain m where "add_to_all_link 2 (three_buffers 0) = Some m" "mm_ok 3 m [0, 1, 2] ([] @ [2])"
    using mm_ok_all_add[OF three_buffers_ok, of 2] by auto
  with mm_for_each_visits[of 3 m "[0, 1, 2]" "[2]" "\<lambda>p ps. (False, ps @ [p])" "[]"]
  show ?thesis by auto
qed

end
