(* ===== verification/TabXxx.thy ===== *)
theory TabXxx
  imports Mm
begin

text \<open>
  \<open>apps/tab_example/tab_xxx.c\<close> and \<open>tab_xxx.h\<close>: a table of reference-counted entries,
  each on three lists of \<open>list.h\<close> (all entries, a hash line by id, a hash line by key),
  in buffers of a pool of \<open>mm.c\<close>. The file has the code, the invariant \<open>tab_inv\<close> with
  its two ghost components (the entries in the table, newest first, and the references
  callers hold), and the behaviour of each operation in terms of them.

  Results: \<open>None\<close> is a call that does not return (a spinlock that the caller already
  holds, or an endless search for an id) or that hands memory that is no buffer to the
  pool. The error returns, \<open>-1\<close> with \<open>errno\<close>, are the left injection of a sum.
\<close>

section \<open>State\<close>

datatype tab_node =
    LinkAllHead | HashById nat | HashByKey nat
  | EntAll mm_ptr | EntById mm_ptr | EntByKey mm_ptr

datatype tab_lock =
    AddDelLock | LinkLockAll | HashLineLockById nat | HashLineLockByKey nat | EntryLock mm_ptr

datatype tab_errno = EEXIST | ENOMEM | ESRCH

record t_tab_xxx_entry =
  ref_cnt :: u32
  id_of :: u16
  key_a :: u32
  key_b :: u32
  key_c :: u32
  priv_data :: u32

record t_xxx_tab =
  mem_pool :: t_mm_manager
  entry_num_in_use :: u32
  tlinks :: "tab_node lheap"
  entries :: "mm_ptr \<Rightarrow> t_tab_xxx_entry"
  held :: "tab_lock set"
  next_id :: u16

definition spin_lock :: "tab_lock \<Rightarrow> t_xxx_tab \<Rightarrow> t_xxx_tab option" where
  "spin_lock l t = (if l \<in> held t then None else Some (t\<lparr>held := insert l (held t)\<rparr>))"

definition spin_unlock :: "tab_lock \<Rightarrow> t_xxx_tab \<Rightarrow> t_xxx_tab" where
  "spin_unlock l t = t\<lparr>held := held t - {l}\<rparr>"

definition upd_tlinks :: "(tab_node lheap \<Rightarrow> tab_node lheap) \<Rightarrow> t_xxx_tab \<Rightarrow> t_xxx_tab" where
  "upd_tlinks f t = t\<lparr>tlinks := f (tlinks t)\<rparr>"

definition upd_entry ::
    "mm_ptr \<Rightarrow> (t_tab_xxx_entry \<Rightarrow> t_tab_xxx_entry) \<Rightarrow> t_xxx_tab \<Rightarrow> t_xxx_tab" where
  "upd_entry p f t = t\<lparr>entries := (entries t)(p := f (entries t p))\<rparr>"

section \<open>Hashing and searching\<close>

definition MAX_HASH_LINE_NUM :: nat where
  "MAX_HASH_LINE_NUM = 1024"

definition id_hash :: "u16 \<Rightarrow> nat" where
  "id_hash i = unat i mod MAX_HASH_LINE_NUM"

definition key_hash :: "u32 \<Rightarrow> u32 \<Rightarrow> u32 \<Rightarrow> nat" where
  "key_hash a b c = unat (a * b * c) mod MAX_HASH_LINE_NUM"

text \<open>\<open>list_entry\<close> for the three link fields.\<close>

fun entry_by_id :: "tab_node \<Rightarrow> mm_ptr" where
  "entry_by_id (EntById p) = p"
| "entry_by_id n = WildPtr"

fun entry_by_key :: "tab_node \<Rightarrow> mm_ptr" where
  "entry_by_key (EntByKey p) = p"
| "entry_by_key n = WildPtr"

fun entry_all :: "tab_node \<Rightarrow> mm_ptr" where
  "entry_all (EntAll p) = p"
| "entry_all n = WildPtr"

definition search_entry_by_id_in_link :: "tab_node \<Rightarrow> u16 \<Rightarrow> t_xxx_tab \<Rightarrow> mm_ptr option" where
  "search_entry_by_id_in_link head i t =
     list_for_each (tlinks t) head
       (\<lambda>pos r. let pt_entry = entry_by_id pos
                in if i = id_of (entries t pt_entry) then (True, pt_entry) else (False, r))
       NullPtr"

definition search_entry_by_id :: "u16 \<Rightarrow> t_xxx_tab \<Rightarrow> (mm_ptr \<times> t_xxx_tab) option" where
  "search_entry_by_id i t = do {
     let line = id_hash i;
     t1 \<leftarrow> spin_lock (HashLineLockById line) t;
     pt_entry \<leftarrow> search_entry_by_id_in_link (HashById line) i t1;
     Some (pt_entry, spin_unlock (HashLineLockById line) t1)
   }"

definition search_entry_by_key_in_link ::
    "tab_node \<Rightarrow> u32 \<Rightarrow> u32 \<Rightarrow> u32 \<Rightarrow> t_xxx_tab \<Rightarrow> mm_ptr option" where
  "search_entry_by_key_in_link head a b c t =
     list_for_each (tlinks t) head
       (\<lambda>pos r. let pt_entry = entry_by_key pos
                in if a = key_a (entries t pt_entry) \<and> b = key_b (entries t pt_entry) \<and>
                      c = key_c (entries t pt_entry)
                   then (True, pt_entry) else (False, r))
       NullPtr"

definition search_entry_by_key ::
    "u32 \<Rightarrow> u32 \<Rightarrow> u32 \<Rightarrow> t_xxx_tab \<Rightarrow> (mm_ptr \<times> t_xxx_tab) option" where
  "search_entry_by_key a b c t = do {
     let line = key_hash a b c;
     t1 \<leftarrow> spin_lock (HashLineLockByKey line) t;
     pt_entry \<leftarrow> search_entry_by_key_in_link (HashByKey line) a b c t1;
     Some (pt_entry, spin_unlock (HashLineLockByKey line) t1)
   }"

section \<open>Ids\<close>

definition MIN_ENTRY_ID :: u16 where "MIN_ENTRY_ID = 1"
definition MAX_ENTRY_ID :: nat where "MAX_ENTRY_ID = 65535"

text \<open>\<open>next_id++; if (next_id > MAX_ENTRY_ID) next_id = MIN_ENTRY_ID;\<close> in 16 bits.\<close>

definition bump_next_id :: "t_xxx_tab \<Rightarrow> t_xxx_tab" where
  "bump_next_id t =
     (let t1 = t\<lparr>next_id := next_id t + 1\<rparr>
      in if unat (next_id t1) > MAX_ENTRY_ID then t1\<lparr>next_id := MIN_ENTRY_ID\<rparr> else t1)"

partial_function (option) gen_id_loop :: "t_xxx_tab \<Rightarrow> t_xxx_tab option" where
  "gen_id_loop t = do {
     (found, t1) \<leftarrow> search_entry_by_id (next_id t) t;
     if found \<noteq> NullPtr then gen_id_loop (bump_next_id t1) else Some t1
   }"

definition gen_id :: "t_xxx_tab \<Rightarrow> (u16 \<times> t_xxx_tab) option" where
  "gen_id t = do {
     t1 \<leftarrow> gen_id_loop t;
     let ret = next_id t1;
     Some (ret, bump_next_id t1)
   }"

section \<open>Linking and unlinking an entry\<close>

definition do_add_entry_to_all :: "mm_ptr \<Rightarrow> t_xxx_tab \<Rightarrow> t_xxx_tab option" where
  "do_add_entry_to_all p t = do {
     t1 \<leftarrow> spin_lock LinkLockAll t;
     let t2 = upd_tlinks (list_add (EntAll p) LinkAllHead) t1;
     Some (spin_unlock LinkLockAll t2)
   }"

definition do_add_entry_to_id_hash :: "mm_ptr \<Rightarrow> t_xxx_tab \<Rightarrow> t_xxx_tab option" where
  "do_add_entry_to_id_hash p t = do {
     let line = id_hash (id_of (entries t p));
     t1 \<leftarrow> spin_lock (HashLineLockById line) t;
     let t2 = upd_tlinks (list_add (EntById p) (HashById line)) t1;
     Some (spin_unlock (HashLineLockById line) t2)
   }"

definition entry_line :: "mm_ptr \<Rightarrow> t_xxx_tab \<Rightarrow> nat" where
  "entry_line p t = key_hash (key_a (entries t p)) (key_b (entries t p)) (key_c (entries t p))"

definition do_add_entry_to_key_hash :: "mm_ptr \<Rightarrow> t_xxx_tab \<Rightarrow> t_xxx_tab option" where
  "do_add_entry_to_key_hash p t = do {
     let line = entry_line p t;
     t1 \<leftarrow> spin_lock (HashLineLockByKey line) t;
     let t2 = upd_tlinks (list_add (EntByKey p) (HashByKey line)) t1;
     Some (spin_unlock (HashLineLockByKey line) t2)
   }"

definition add_entry_into_tab :: "mm_ptr \<Rightarrow> t_xxx_tab \<Rightarrow> t_xxx_tab option" where
  "add_entry_into_tab p t = do {
     t1 \<leftarrow> do_add_entry_to_id_hash p t;
     t2 \<leftarrow> do_add_entry_to_key_hash p t1;
     t3 \<leftarrow> do_add_entry_to_all p t2;
     Some (t3\<lparr>entry_num_in_use := entry_num_in_use t3 + 1\<rparr>)
   }"

definition do_del_entry_from_all :: "mm_ptr \<Rightarrow> t_xxx_tab \<Rightarrow> t_xxx_tab option" where
  "do_del_entry_from_all p t = do {
     t1 \<leftarrow> spin_lock LinkLockAll t;
     let t2 = upd_tlinks (list_del (EntAll p)) t1;
     Some (spin_unlock LinkLockAll t2)
   }"

definition do_del_entry_from_id_hash :: "mm_ptr \<Rightarrow> t_xxx_tab \<Rightarrow> t_xxx_tab option" where
  "do_del_entry_from_id_hash p t = do {
     let line = id_hash (id_of (entries t p));
     t1 \<leftarrow> spin_lock (HashLineLockById line) t;
     let t2 = upd_tlinks (list_del (EntById p)) t1;
     Some (spin_unlock (HashLineLockById line) t2)
   }"

definition do_del_entry_from_key_hash :: "mm_ptr \<Rightarrow> t_xxx_tab \<Rightarrow> t_xxx_tab option" where
  "do_del_entry_from_key_hash p t = do {
     let line = entry_line p t;
     t1 \<leftarrow> spin_lock (HashLineLockByKey line) t;
     let t2 = upd_tlinks (list_del (EntByKey p)) t1;
     Some (spin_unlock (HashLineLockByKey line) t2)
   }"

definition del_entry_from_tab :: "mm_ptr \<Rightarrow> t_xxx_tab \<Rightarrow> t_xxx_tab option" where
  "del_entry_from_tab p t = do {
     t1 \<leftarrow> do_del_entry_from_id_hash p t;
     t2 \<leftarrow> do_del_entry_from_key_hash p t1;
     t3 \<leftarrow> do_del_entry_from_all p t2;
     Some (t3\<lparr>entry_num_in_use := entry_num_in_use t3 - 1\<rparr>)
   }"

section \<open>The table operations\<close>

text \<open>
  \<open>tab_xxx_init\<close>; the structure \<open>t_tab_xxx_entry\<close> is 80 bytes. \<open>mgr\<close> and \<open>mem_ok\<close> are
  the outcomes of the allocations of \<open>create_buffer_manager\<close>.
\<close>

definition init_hash_line :: "nat \<Rightarrow> t_xxx_tab \<Rightarrow> t_xxx_tab" where
  "init_hash_line i t =
     (let t1 = upd_tlinks (INIT_LIST_HEAD (HashById i)) t;
          t2 = spin_unlock (HashLineLockById i) t1;
          t3 = upd_tlinks (INIT_LIST_HEAD (HashByKey i)) t2
      in spin_unlock (HashLineLockByKey i) t3)"

definition tab_xxx_init ::
    "t_mm_manager option \<Rightarrow> bool \<Rightarrow> int \<Rightarrow> t_xxx_tab \<Rightarrow> tab_errno + t_xxx_tab" where
  "tab_xxx_init mgr mem_ok max_entry_num t =
     (case create_buffer_manager mgr mem_ok 80 max_entry_num of
        None \<Rightarrow> Inl ENOMEM
      | Some pool \<Rightarrow>
          let t1 = t\<lparr>mem_pool := pool\<rparr>;
              t2 = spin_unlock AddDelLock t1;
              t3 = t2\<lparr>entry_num_in_use := 0\<rparr>;
              t4 = upd_tlinks (INIT_LIST_HEAD LinkAllHead) t3;
              t5 = spin_unlock LinkLockAll t4
          in Inr (fold init_hash_line [0..<MAX_HASH_LINE_NUM] t5))"

definition build_new_entry ::
    "mm_ptr \<Rightarrow> u32 \<Rightarrow> u32 \<Rightarrow> u32 \<Rightarrow> u32 \<Rightarrow> t_xxx_tab \<Rightarrow> t_xxx_tab option" where
  "build_new_entry p a b c priv t = do {
     (i, t1) \<leftarrow> gen_id t;
     let t2 = upd_entry p (\<lambda>e. e\<lparr>id_of := i, key_a := a, key_b := b, key_c := c,
                                 priv_data := priv, ref_cnt := 1\<rparr>) t1;
     Some (spin_unlock (EntryLock p) t2)
   }"

definition inc_entry_ref_cnt :: "mm_ptr \<Rightarrow> t_xxx_tab \<Rightarrow> t_xxx_tab option" where
  "inc_entry_ref_cnt p t = do {
     t1 \<leftarrow> spin_lock (EntryLock p) t;
     let t2 = upd_entry p (\<lambda>e. e\<lparr>ref_cnt := ref_cnt e + 1\<rparr>) t1;
     Some (spin_unlock (EntryLock p) t2)
   }"

definition dec_entry_ref_cnt :: "mm_ptr \<Rightarrow> t_xxx_tab \<Rightarrow> (u32 \<times> t_xxx_tab) option" where
  "dec_entry_ref_cnt p t = do {
     t1 \<leftarrow> spin_lock (EntryLock p) t;
     let t2 = upd_entry p (\<lambda>e. e\<lparr>ref_cnt := ref_cnt e - 1\<rparr>) t1;
     let ret = ref_cnt (entries t2 p);
     Some (ret, spin_unlock (EntryLock p) t2)
   }"

definition tab_xxx_add_entry ::
    "u32 \<Rightarrow> u32 \<Rightarrow> u32 \<Rightarrow> u32 \<Rightarrow> t_xxx_tab \<Rightarrow> ((tab_errno + u16) \<times> t_xxx_tab) option" where
  "tab_xxx_add_entry a b c priv t = do {
     t1 \<leftarrow> spin_lock AddDelLock t;
     (old, t2) \<leftarrow> search_entry_by_key a b c t1;
     if old \<noteq> NullPtr then Some (Inl EEXIST, spin_unlock AddDelLock t2)
     else do {
       (pt_entry, pool) \<leftarrow> alloc_buffer (mem_pool t2);
       let t3 = t2\<lparr>mem_pool := pool\<rparr>;
       if pt_entry = NullPtr then Some (Inl ENOMEM, spin_unlock AddDelLock t3)
       else do {
         t4 \<leftarrow> build_new_entry pt_entry a b c priv t3;
         t5 \<leftarrow> add_entry_into_tab pt_entry t4;
         Some (Inr (id_of (entries t5 pt_entry)), spin_unlock AddDelLock t5)
       }
     }
   }"

definition tab_xxx_get_entry_by_key ::
    "u32 \<Rightarrow> u32 \<Rightarrow> u32 \<Rightarrow> t_xxx_tab \<Rightarrow> (mm_ptr \<times> t_xxx_tab) option" where
  "tab_xxx_get_entry_by_key a b c t = do {
     let line = key_hash a b c;
     t1 \<leftarrow> spin_lock (HashLineLockByKey line) t;
     pt_entry \<leftarrow> search_entry_by_key_in_link (HashByKey line) a b c t1;
     t2 \<leftarrow> (if pt_entry \<noteq> NullPtr then inc_entry_ref_cnt pt_entry t1 else Some t1);
     Some (pt_entry, spin_unlock (HashLineLockByKey line) t2)
   }"

definition tab_xxx_get_entry_by_id :: "u16 \<Rightarrow> t_xxx_tab \<Rightarrow> (mm_ptr \<times> t_xxx_tab) option" where
  "tab_xxx_get_entry_by_id i t = do {
     let line = id_hash i;
     t1 \<leftarrow> spin_lock (HashLineLockById line) t;
     pt_entry \<leftarrow> search_entry_by_id_in_link (HashById line) i t1;
     t2 \<leftarrow> (if pt_entry \<noteq> NullPtr then inc_entry_ref_cnt pt_entry t1 else Some t1);
     Some (pt_entry, spin_unlock (HashLineLockById line) t2)
   }"

fun free_entry :: "mm_ptr \<Rightarrow> t_mm_manager \<Rightarrow> t_mm_manager option" where
  "free_entry (Buf b) m = free_buffer b m"
| "free_entry _ m = None"

definition tab_xxx_put :: "mm_ptr \<Rightarrow> t_xxx_tab \<Rightarrow> t_xxx_tab option" where
  "tab_xxx_put p t = do {
     (ret, t1) \<leftarrow> dec_entry_ref_cnt p t;
     if ret = 0 then do {
       pool \<leftarrow> free_entry p (mem_pool t1);
       Some (t1\<lparr>mem_pool := pool\<rparr>)
     } else Some t1
   }"

definition tab_xxx_del_entry_by_key ::
    "u32 \<Rightarrow> u32 \<Rightarrow> u32 \<Rightarrow> t_xxx_tab \<Rightarrow> ((tab_errno + unit) \<times> t_xxx_tab) option" where
  "tab_xxx_del_entry_by_key a b c t = do {
     t1 \<leftarrow> spin_lock AddDelLock t;
     (pt_entry, t2) \<leftarrow> search_entry_by_key a b c t1;
     if pt_entry = NullPtr then Some (Inl ESRCH, spin_unlock AddDelLock t2)
     else do {
       t3 \<leftarrow> del_entry_from_tab pt_entry t2;
       t4 \<leftarrow> tab_xxx_put pt_entry t3;
       Some (Inr (), spin_unlock AddDelLock t4)
     }
   }"

definition tab_xxx_entry_num :: "t_xxx_tab \<Rightarrow> (u32 \<times> t_xxx_tab) option" where
  "tab_xxx_entry_num t = do {
     t1 \<leftarrow> spin_lock AddDelLock t;
     let n = entry_num_in_use t1;
     Some (n, spin_unlock AddDelLock t1)
   }"

text \<open>\<open>tab_xxx_dump_all_entry\<close>: the ids printed, in order.\<close>

definition tab_xxx_dump_all_entry :: "t_xxx_tab \<Rightarrow> (u16 list \<times> t_xxx_tab) option" where
  "tab_xxx_dump_all_entry t = do {
     t1 \<leftarrow> spin_lock AddDelLock t;
     out \<leftarrow> list_for_each (tlinks t1) LinkAllHead
              (\<lambda>pos r. (False, r @ [id_of (entries t1 (entry_all pos))])) [];
     Some (out, spin_unlock AddDelLock t1)
   }"

section \<open>Single steps, without the locks\<close>

lemma spin_lock_free: "l \<notin> held t \<Longrightarrow> spin_lock l t = Some (t\<lparr>held := insert l (held t)\<rparr>)"
  by (simp add: spin_lock_def)

lemma spin_unlock_id: "l \<notin> held t \<Longrightarrow> spin_unlock l t = t"
  by (simp add: spin_unlock_def)

lemma lock_unlock_links:
  "l \<notin> held t \<Longrightarrow> spin_unlock l (upd_tlinks f (t\<lparr>held := insert l (held t)\<rparr>)) = upd_tlinks f t"
  by (simp add: spin_unlock_def upd_tlinks_def)

lemma lock_unlock_entry:
  "l \<notin> held t \<Longrightarrow> spin_unlock l (upd_entry p f (t\<lparr>held := insert l (held t)\<rparr>)) = upd_entry p f t"
  by (simp add: spin_unlock_def upd_entry_def)

lemma lock_unlock:
  "l \<notin> held t \<Longrightarrow> spin_unlock l (t\<lparr>held := insert l (held t)\<rparr>) = t"
  by (simp add: spin_unlock_def)

lemma lock_first: "held t = {} \<Longrightarrow> spin_lock l t = Some (t\<lparr>held := {l}\<rparr>)"
  by (simp add: spin_lock_def)

lemma unlock_back: "held t = {} \<Longrightarrow> spin_unlock l (t\<lparr>held := {l}\<rparr>) = t"
  by (simp add: spin_unlock_def)

lemma unlock_last: "held t = {l} \<Longrightarrow> spin_unlock l t = t\<lparr>held := {}\<rparr>"
  by (simp add: spin_unlock_def)

lemmas lock_simps = spin_lock_free lock_unlock_links lock_unlock_entry lock_unlock

lemma upd_tlinks_sel [simp]:
  "tlinks (upd_tlinks f t) = f (tlinks t)" "entries (upd_tlinks f t) = entries t"
  "held (upd_tlinks f t) = held t" "mem_pool (upd_tlinks f t) = mem_pool t"
  "entry_num_in_use (upd_tlinks f t) = entry_num_in_use t" "next_id (upd_tlinks f t) = next_id t"
  by (simp_all add: upd_tlinks_def)

lemma upd_entry_sel [simp]:
  "tlinks (upd_entry p f t) = tlinks t"
  "entries (upd_entry p f t) = (entries t)(p := f (entries t p))"
  "held (upd_entry p f t) = held t" "mem_pool (upd_entry p f t) = mem_pool t"
  "entry_num_in_use (upd_entry p f t) = entry_num_in_use t" "next_id (upd_entry p f t) = next_id t"
  by (simp_all add: upd_entry_def)

lemma add_entry_into_tab_eq:
  assumes "held t \<subseteq> {AddDelLock}"
  shows "add_entry_into_tab p t = Some (t\<lparr>
     tlinks := list_add (EntAll p) LinkAllHead
        (list_add (EntByKey p) (HashByKey (entry_line p t))
          (list_add (EntById p) (HashById (id_hash (id_of (entries t p)))) (tlinks t))),
     entry_num_in_use := entry_num_in_use t + 1\<rparr>)"
proof -
  have h: "LinkLockAll \<notin> held t" "HashLineLockById l \<notin> held t" "HashLineLockByKey l \<notin> held t" for l
    using assms by auto
  show ?thesis
    by (simp add: add_entry_into_tab_def do_add_entry_to_id_hash_def do_add_entry_to_key_hash_def
        do_add_entry_to_all_def lock_simps h entry_line_def Let_def)
      (simp add: upd_tlinks_def spin_lock_def spin_unlock_def h)
qed

lemma del_entry_from_tab_eq:
  assumes "held t \<subseteq> {AddDelLock}"
  shows "del_entry_from_tab p t = Some (t\<lparr>
     tlinks := list_del (EntAll p) (list_del (EntByKey p) (list_del (EntById p) (tlinks t))),
     entry_num_in_use := entry_num_in_use t - 1\<rparr>)"
proof -
  have h: "LinkLockAll \<notin> held t" "HashLineLockById l \<notin> held t" "HashLineLockByKey l \<notin> held t" for l
    using assms by auto
  show ?thesis
    by (simp add: del_entry_from_tab_def do_del_entry_from_id_hash_def
        do_del_entry_from_key_hash_def do_del_entry_from_all_def lock_simps h entry_line_def
        Let_def) (simp add: upd_tlinks_def spin_lock_def spin_unlock_def h)
qed

section \<open>The lists of the table\<close>

text \<open>\<open>tab_shape ent es\<close>: what each list head of the table heads when the entries in the
  table are \<open>es\<close>, newest first.\<close>

fun tab_shape ::
    "(mm_ptr \<Rightarrow> t_tab_xxx_entry) \<Rightarrow> mm_ptr list \<Rightarrow> tab_node \<Rightarrow> tab_node list option" where
  "tab_shape ent es LinkAllHead = Some (map EntAll es)"
| "tab_shape ent es (HashById l) =
     (if l < MAX_HASH_LINE_NUM
      then Some (map EntById (filter (\<lambda>p. id_hash (id_of (ent p)) = l) es)) else None)"
| "tab_shape ent es (HashByKey l) =
     (if l < MAX_HASH_LINE_NUM
      then Some (map EntByKey
             (filter (\<lambda>p. key_hash (key_a (ent p)) (key_b (ent p)) (key_c (ent p)) = l) es))
      else None)"
| "tab_shape ent es _ = None"

definition tab_links :: "t_xxx_tab \<Rightarrow> mm_ptr list \<Rightarrow> bool" where
  "tab_links t es \<longleftrightarrow> list_store is_list (tlinks t) (tab_shape (entries t) es)"

lemma hash_bounds [simp]: "id_hash i < MAX_HASH_LINE_NUM" "key_hash a b c < MAX_HASH_LINE_NUM"
  by (simp_all add: id_hash_def key_hash_def MAX_HASH_LINE_NUM_def)

lemma tab_shape_nodes:
  assumes "n \<in> nodes (tab_shape ent es)"
  shows "n \<in> {LinkAllHead} \<union> range HashById \<union> range HashByKey \<union>
     EntAll ` set es \<union> EntById ` set es \<union> EntByKey ` set es"
proof -
  obtain q xs where "tab_shape ent es q = Some xs" "n \<in> set (q # xs)"
    using assms unfolding nodes_def by blast
  then show ?thesis by (cases q) (auto split: if_splits)
qed

lemma tab_links_distinct: "tab_links t es \<Longrightarrow> distinct es"
  using kernel_list.store_distinct[of "tlinks t" "tab_shape (entries t) es" LinkAllHead]
  by (auto simp: tab_links_def distinct_map)

lemma tab_shape_cong:
  assumes "\<And>p. p \<in> set es \<Longrightarrow> id_of (ent' p) = id_of (ent p) \<and> key_a (ent' p) = key_a (ent p) \<and>
     key_b (ent' p) = key_b (ent p) \<and> key_c (ent' p) = key_c (ent p)"
  shows "tab_shape ent' es = tab_shape ent es"
proof
  fix n show "tab_shape ent' es n = tab_shape ent es n"
    by (cases n) (auto simp: assms cong: filter_cong)
qed

lemma tab_links_add:
  assumes "tab_links t es" and "p \<notin> set es"
  shows "list_store is_list
     (list_add (EntAll p) LinkAllHead
        (list_add (EntByKey p) (HashByKey (entry_line p t))
          (list_add (EntById p) (HashById (id_hash (id_of (entries t p)))) (tlinks t))))
     (tab_shape (entries t) (p # es))"
proof -
  let ?ent = "entries t" and ?L = "tab_shape (entries t) es"
  let ?i = "id_hash (id_of (?ent p))" and ?k = "entry_line p t"
  let ?is = "map EntById (filter (\<lambda>p. id_hash (id_of (?ent p)) = ?i) es)"
  let ?ks = "map EntByKey (filter (\<lambda>q. entry_line q t = ?k) es)"
  let ?L1 = "?L(HashById ?i \<mapsto> EntById p # ?is)"
  let ?L2 = "?L1(HashByKey ?k \<mapsto> EntByKey p # ?ks)"
  have n: "n \<notin> nodes ?L" if "n \<in> {EntAll p, EntById p, EntByKey p}" for n
    using tab_shape_nodes[of n ?ent es] that assms(2) by auto
  have n1: "n \<notin> nodes ?L1" if "n \<in> {EntAll p, EntByKey p}" for n
    using nodes_upd_subset[of ?L "HashById ?i" "EntById p # ?is"] n that assms(2) by auto
  have n2: "EntAll p \<notin> nodes ?L2"
    using nodes_upd_subset[of ?L1 "HashByKey ?k" "EntByKey p # ?ks"] n1 assms(2) by auto
  have s: "list_store is_list (tlinks t) ?L" using assms(1) by (simp add: tab_links_def)
  have s1: "list_store is_list (list_add (EntById p) (HashById ?i) (tlinks t)) ?L1"
    by (rule kernel_list.store_add[OF s]) (use n in simp_all)
  have s2: "list_store is_list (list_add (EntByKey p) (HashByKey ?k)
      (list_add (EntById p) (HashById ?i) (tlinks t))) ?L2"
    by (rule kernel_list.store_add[OF s1]) (use n1 in \<open>simp_all add: entry_line_def\<close>)
  have "list_store is_list (list_add (EntAll p) LinkAllHead (list_add (EntByKey p) (HashByKey ?k)
      (list_add (EntById p) (HashById ?i) (tlinks t)))) (?L2(LinkAllHead \<mapsto> EntAll p # map EntAll es))"
    by (rule kernel_list.store_add[OF s2]) (use n2 in simp_all)
  moreover have "?L2(LinkAllHead \<mapsto> EntAll p # map EntAll es) = tab_shape ?ent (p # es)"
  proof
    fix n show "(?L2(LinkAllHead \<mapsto> EntAll p # map EntAll es)) n = tab_shape ?ent (p # es) n"
      by (cases n) (auto simp: entry_line_def)
  qed
  ultimately show ?thesis by simp
qed

lemma tab_links_del:
  assumes "tab_links t es" and "p \<in> set es"
  shows "list_store is_list (list_del (EntAll p) (list_del (EntByKey p) (list_del (EntById p) (tlinks t))))
     (tab_shape (entries t) (remove1 p es))"
proof -
  let ?ent = "entries t" and ?L = "tab_shape (entries t) es"
  let ?i = "id_hash (id_of (?ent p))" and ?k = "entry_line p t"
  let ?is = "map EntById (filter (\<lambda>p. id_hash (id_of (?ent p)) = ?i) es)"
  let ?ks = "map EntByKey (filter (\<lambda>q. entry_line q t = ?k) es)"
  let ?L1 = "?L(HashById ?i \<mapsto> remove1 (EntById p) ?is)"
  let ?L2 = "?L1(HashByKey ?k \<mapsto> remove1 (EntByKey p) ?ks)"
  have s: "list_store is_list (tlinks t) ?L" using assms(1) by (simp add: tab_links_def)
  have s1: "list_store is_list (list_del (EntById p) (tlinks t)) ?L1"
    by (rule kernel_list.store_del[OF s]) (use assms(2) in auto)
  have s2: "list_store is_list (list_del (EntByKey p) (list_del (EntById p) (tlinks t))) ?L2"
    by (rule kernel_list.store_del[OF s1]) (use assms(2) in \<open>auto simp: entry_line_def\<close>)
  have "list_store is_list (list_del (EntAll p) (list_del (EntByKey p) (list_del (EntById p) (tlinks t))))
      (?L2(LinkAllHead \<mapsto> remove1 (EntAll p) (map EntAll es)))"
    by (rule kernel_list.store_del[OF s2]) (use assms(2) in auto)
  moreover have "?L2(LinkAllHead \<mapsto> remove1 (EntAll p) (map EntAll es)) = tab_shape ?ent (remove1 p es)"
  proof
    fix n show "(?L2(LinkAllHead \<mapsto> remove1 (EntAll p) (map EntAll es))) n =
        tab_shape ?ent (remove1 p es) n"
      by (cases n) (auto simp: entry_line_def remove1_map_inj inj_def remove1_filter_in
          remove1_filter_out)
  qed
  ultimately show ?thesis by simp
qed

section \<open>Searching\<close>

text \<open>The first entry of \<open>es\<close> with a property, as the pointer the searches return.\<close>

definition lookup :: "(mm_ptr \<Rightarrow> bool) \<Rightarrow> mm_ptr list \<Rightarrow> mm_ptr" where
  "lookup P es = (case List.find P es of None \<Rightarrow> NullPtr | Some p \<Rightarrow> p)"

abbreviation key_of :: "t_tab_xxx_entry \<Rightarrow> u32 \<times> u32 \<times> u32" where
  "key_of e \<equiv> (key_a e, key_b e, key_c e)"

lemma search_entry_by_id_in_link_eq:
  assumes "tab_links t es"
  shows "search_entry_by_id_in_link (HashById (id_hash i)) i t =
     Some (lookup (\<lambda>p. id_of (entries t p) = i) es)"
proof -
  let ?ys = "filter (\<lambda>p. id_hash (id_of (entries t p)) = id_hash i) es"
  have "is_list (tlinks t) (HashById (id_hash i)) (map EntById ?ys)"
    using assms unfolding tab_links_def by (rule list_store_rep) simp
  moreover have "List.find (\<lambda>p. i = id_of (entries t p)) ?ys = List.find (\<lambda>p. i = id_of (entries t p)) es"
    by (rule find_filter) auto
  ultimately show ?thesis
    by (simp add: search_entry_by_id_in_link_def list_for_each_eq fold_until_find find_map comp_def
        lookup_def eq_commute[of i] Let_def cong: if_cong split: option.split)
qed

lemma search_entry_by_key_in_link_eq:
  assumes "tab_links t es"
  shows "search_entry_by_key_in_link (HashByKey (key_hash a b c)) a b c t =
     Some (lookup (\<lambda>p. key_of (entries t p) = (a, b, c)) es)"
proof -
  let ?P = "\<lambda>p. a = key_a (entries t p) \<and> b = key_b (entries t p) \<and> c = key_c (entries t p)"
  let ?ys = "filter (\<lambda>p. key_hash (key_a (entries t p)) (key_b (entries t p)) (key_c (entries t p))
      = key_hash a b c) es"
  have "is_list (tlinks t) (HashByKey (key_hash a b c)) (map EntByKey ?ys)"
    using assms unfolding tab_links_def by (rule list_store_rep) simp
  moreover have "List.find ?P ?ys = List.find ?P es"
    by (rule find_filter) auto
  moreover have "(\<lambda>p. key_of (entries t p) = (a, b, c)) = ?P" by auto
  ultimately show ?thesis
    by (simp add: search_entry_by_key_in_link_def list_for_each_eq fold_until_find find_map comp_def
        lookup_def Let_def cong: if_cong split: option.split)
qed

lemma tab_links_held: "tab_links (t\<lparr>held := H\<rparr>) es = tab_links t es"
  by (simp add: tab_links_def)

lemma search_entry_by_id_eq:
  assumes "tab_links t es" and "held t \<subseteq> {AddDelLock}"
  shows "search_entry_by_id i t = Some (lookup (\<lambda>p. id_of (entries t p) = i) es, t)"
proof -
  have "HashLineLockById (id_hash i) \<notin> held t" using assms(2) by auto
  then show ?thesis
    using search_entry_by_id_in_link_eq[of "t\<lparr>held := H\<rparr>" es i for H] assms(1)
    by (simp add: search_entry_by_id_def lock_simps tab_links_held)
qed

lemma search_entry_by_key_eq:
  assumes "tab_links t es" and "held t \<subseteq> {AddDelLock}"
  shows "search_entry_by_key a b c t = Some (lookup (\<lambda>p. key_of (entries t p) = (a, b, c)) es, t)"
proof -
  have "HashLineLockByKey (key_hash a b c) \<notin> held t" using assms(2) by auto
  then show ?thesis
    using search_entry_by_key_in_link_eq[of "t\<lparr>held := H\<rparr>" es a b c for H] assms(1)
    by (simp add: search_entry_by_key_def lock_simps tab_links_held)
qed

lemma lookup_NullPtr:
  "NullPtr \<notin> set es \<Longrightarrow> lookup P es = NullPtr \<longleftrightarrow> (\<forall>p \<in> set es. \<not> P p)"
  unfolding lookup_def by (auto simp: find_None_iff split: option.splits dest: find_SomeD)

lemma lookup_in: "lookup P es \<noteq> NullPtr \<Longrightarrow> lookup P es \<in> set es \<and> P (lookup P es)"
  unfolding lookup_def by (auto split: option.splits dest: find_SomeD)

section \<open>Generating an id\<close>

abbreviation ids :: "t_xxx_tab \<Rightarrow> mm_ptr list \<Rightarrow> u16 set" where
  "ids t es \<equiv> (\<lambda>p. id_of (entries t p)) ` set es"

lemma lookup_id:
  "NullPtr \<notin> set es \<Longrightarrow>
     lookup (\<lambda>p. id_of (entries t p) = i) es = NullPtr \<longleftrightarrow> i \<notin> ids t es"
  by (auto simp: lookup_NullPtr)

lemma bump_next_id_eq: "bump_next_id t = t\<lparr>next_id := next_id t + 1\<rparr>"
proof -
  have "unat (next_id t + 1) < 2 ^ 16" using unat_bound[of "next_id t + 1"] by simp
  then show ?thesis by (simp add: bump_next_id_def MAX_ENTRY_ID_def Let_def)
qed

lemma tab_links_next_id: "tab_links (t\<lparr>next_id := n\<rparr>) es = tab_links t es"
  by (simp add: tab_links_def)

lemma gen_id_loop_terminates:
  assumes "tab_links t es" and "held t \<subseteq> {AddDelLock}" and "NullPtr \<notin> set es"
    and "next_id t + of_nat k \<notin> ids t es"
  shows "\<exists>n. gen_id_loop t = Some (t\<lparr>next_id := n\<rparr>) \<and> n \<notin> ids t es"
  using assms
proof (induction k arbitrary: t)
  case 0
  then have "gen_id_loop t = Some t"
    by (subst gen_id_loop.simps) (simp add: search_entry_by_id_eq lookup_id del: image_iff)
  with 0 show ?case by (intro exI[of _ "next_id t"]) simp
next
  case (Suc k)
  show ?case
  proof (cases "next_id t \<in> ids t es")
    case True
    then have "gen_id_loop t = gen_id_loop (t\<lparr>next_id := next_id t + 1\<rparr>)"
      using Suc.prems
      by (subst gen_id_loop.simps) (simp add: search_entry_by_id_eq lookup_id bump_next_id_eq)
    with Suc.IH[of "t\<lparr>next_id := next_id t + 1\<rparr>"] Suc.prems show ?thesis
      by (auto simp: tab_links_next_id add.assoc)
  next
    case False
    then have "gen_id_loop t = Some t" using Suc.prems
      by (subst gen_id_loop.simps) (simp add: search_entry_by_id_eq lookup_id del: image_iff)
    with False show ?thesis by (intro exI[of _ "next_id t"]) simp
  qed
qed

lemma gen_id_fresh:
  assumes "tab_links t es" and "held t \<subseteq> {AddDelLock}" and "NullPtr \<notin> set es"
    and "length es < 2 ^ 16"
  shows "\<exists>i n. gen_id t = Some (i, t\<lparr>next_id := n\<rparr>) \<and> i \<notin> ids t es"
proof -
  let ?S = "ids t es"
  have "card ?S \<le> length es"
    by (rule le_trans[OF card_image_le card_length]) simp
  then have "?S \<noteq> UNIV" using assms(4) by (auto simp: card_word)
  then obtain w where "w \<notin> ?S" by blast
  then have "next_id t + of_nat (unat (w - next_id t)) \<notin> ?S" by simp
  from gen_id_loop_terminates[OF assms(1-3) this] show ?thesis
    by (auto simp: gen_id_def Let_def bump_next_id_eq)
qed

lemma gen_id_loop_result:
  "gen_id_loop t = Some t' \<Longrightarrow> tab_links t es \<Longrightarrow> held t \<subseteq> {AddDelLock} \<Longrightarrow> NullPtr \<notin> set es \<Longrightarrow>
     next_id t' \<notin> ids t es"
proof (induction arbitrary: es rule: gen_id_loop.raw_induct[rotated, consumes 1, case_names step])
  case (step gen_id_loop t t')
  note s = search_entry_by_id_eq[OF step(3,4), of "next_id t"]
  show ?case
  proof (cases "next_id t \<in> ids t es")
    case True
    then have "lookup (\<lambda>p. id_of (entries t p) = next_id t) es \<noteq> NullPtr"
      using step(5) by (auto simp: lookup_id)
    with step(2) s have "gen_id_loop (t\<lparr>next_id := next_id t + 1\<rparr>) = Some t'"
      by (simp add: bump_next_id_eq)
    from step(1)[OF this, of es] step show ?thesis by (simp add: tab_links_next_id)
  next
    case False
    then have "lookup (\<lambda>p. id_of (entries t p) = next_id t) es = NullPtr"
      using step(5) by (auto simp: lookup_id)
    with step(2) s False show ?thesis by simp
  qed
qed

section \<open>The invariant\<close>

text \<open>
  \<open>tab_inv num t es refs\<close>: the table has \<open>num\<close> buffers, its entries are \<open>es\<close>, newest
  first, and callers hold the references \<open>refs\<close> (a multiset: the same entry may be held
  several times). An entry's counter is its callers' references plus one while it is in
  the table, a buffer is free exactly if it is neither in the table nor held, and no
  lock is held between operations.
\<close>

definition tab_refs ::
    "nat \<Rightarrow> (mm_ptr \<Rightarrow> t_tab_xxx_entry) \<Rightarrow> mm_ptr list \<Rightarrow> mm_ptr multiset \<Rightarrow> nat list \<Rightarrow> bool" where
  "tab_refs num ent es refs fs \<longleftrightarrow>
     (\<forall>p \<in> set es \<union> set_mset refs.
        unat (ref_cnt (ent p)) = (if p \<in> set es then 1 else 0) + count refs p) \<and>
     set es \<union> set_mset refs = Buf ` ({..<num} - set fs)"

definition tab_keys :: "(mm_ptr \<Rightarrow> t_tab_xxx_entry) \<Rightarrow> mm_ptr list \<Rightarrow> bool" where
  "tab_keys ent es \<longleftrightarrow>
     inj_on (\<lambda>p. id_of (ent p)) (set es) \<and> inj_on (\<lambda>p. key_of (ent p)) (set es)"

definition tab_core :: "nat \<Rightarrow> t_xxx_tab \<Rightarrow> mm_ptr list \<Rightarrow> mm_ptr multiset \<Rightarrow> bool" where
  "tab_core num t es refs \<longleftrightarrow>
     tab_links t es \<and> tab_keys (entries t) es \<and>
     (\<exists>fs. mm_ok num (mem_pool t) fs [] \<and> tab_refs num (entries t) es refs fs) \<and>
     entry_num_in_use t = of_nat (length es)"

definition tab_inv :: "nat \<Rightarrow> t_xxx_tab \<Rightarrow> mm_ptr list \<Rightarrow> mm_ptr multiset \<Rightarrow> bool" where
  "tab_inv num t es refs \<longleftrightarrow> tab_core num t es refs \<and> held t = {}"

lemma tab_core_bufs:
  assumes "tab_core num t es refs"
  shows "set es \<union> set_mset refs \<subseteq> Buf ` {..<num}" and "distinct es" and "length es \<le> num"
    and "NullPtr \<notin> set es" and "num < 2 ^ 32"
proof -
  show s: "set es \<union> set_mset refs \<subseteq> Buf ` {..<num}" and "num < 2 ^ 32"
    using assms by (auto simp: tab_core_def tab_refs_def mm_ok_def)
  then show "NullPtr \<notin> set es" by auto
  show d: "distinct es" using assms tab_links_distinct by (auto simp: tab_core_def)
  have "card (set es) \<le> card (Buf ` {..<num})" using s by (intro card_mono) auto
  also have "\<dots> = num" by (simp add: card_image inj_on_def)
  finally show "length es \<le> num" using d by (simp add: distinct_card)
qed

lemma tab_core_held: "tab_core num (t\<lparr>held := H\<rparr>) es refs = tab_core num t es refs"
  by (simp add: tab_core_def tab_links_def)

lemma tab_links_ref_cnt:
  "(\<And>e. key_of (f e) = key_of e \<and> id_of (f e) = id_of e) \<Longrightarrow>
     tab_links (upd_entry p f t) es = tab_links t es"
  unfolding tab_links_def using tab_shape_cong[of es "(entries t)(p := f (entries t p))" "entries t"]
  by simp

lemma tab_keys_ref_cnt:
  assumes "\<And>e. key_of (f e) = key_of e \<and> id_of (f e) = id_of e"
  shows "tab_keys ((ent)(p := f (ent p))) es = tab_keys ent es"
proof -
  have "id_of ((ent(p := f (ent p))) q) = id_of (ent q)"
    "key_of ((ent(p := f (ent p))) q) = key_of (ent q)" for q
    using assms by auto
  then show ?thesis unfolding tab_keys_def by simp
qed

lemma inc_entry_ref_cnt_core:
  assumes "tab_core num t es refs" and "p \<in> set es \<union> set_mset refs" and "EntryLock p \<notin> held t"
    and "unat (ref_cnt (entries t p)) < 2 ^ 32 - 1"
  shows "\<exists>t'. inc_entry_ref_cnt p t = Some t' \<and> tab_core num t' es (add_mset p refs) \<and>
     held t' = held t \<and> t' = upd_entry p (\<lambda>e. e\<lparr>ref_cnt := ref_cnt e + 1\<rparr>) t"
proof -
  let ?f = "\<lambda>e. e\<lparr>ref_cnt := ref_cnt e + 1\<rparr>"
  obtain fs where fs: "mm_ok num (mem_pool t) fs []" "tab_refs num (entries t) es refs fs"
    using assms(1) by (auto simp: tab_core_def)
  have "unat (ref_cnt (entries t p) + 1) = Suc (unat (ref_cnt (entries t p)))"
    using assms(4) by (subst unat_Suc_word) auto
  with fs(2) assms(2)
  have "tab_refs num ((entries t)(p := ?f (entries t p))) es (add_mset p refs) fs"
    unfolding tab_refs_def by auto
  with fs(1) assms(1) have "tab_core num (upd_entry p ?f t) es (add_mset p refs)"
    by (auto simp: tab_core_def tab_links_ref_cnt tab_keys_ref_cnt)
  then show ?thesis using assms(3) by (simp add: inc_entry_ref_cnt_def lock_simps Let_def)
qed

lemma tab_put_core:
  assumes "tab_core num t es refs" and "p \<in># refs" and "EntryLock p \<notin> held t"
  shows "\<exists>t'. tab_xxx_put p t = Some t' \<and> tab_core num t' es (refs - {#p#}) \<and> held t' = held t \<and>
     entries t' = (entries t)(p := (entries t p)\<lparr>ref_cnt := ref_cnt (entries t p) - 1\<rparr>)"
proof -
  let ?f = "\<lambda>e. e\<lparr>ref_cnt := ref_cnt e - 1\<rparr>" and ?t1 = "upd_entry p (\<lambda>e. e\<lparr>ref_cnt := ref_cnt e - 1\<rparr>) t"
  let ?ent = "(entries t)(p := ?f (entries t p))"
  obtain fs where fs: "mm_ok num (mem_pool t) fs []" "tab_refs num (entries t) es refs fs"
    using assms(1) by (auto simp: tab_core_def)
  have cnt: "unat (ref_cnt (entries t p)) = (if p \<in> set es then 1 else 0) + count refs p"
    using fs(2) assms(2) by (auto simp: tab_refs_def)
  moreover obtain k where k: "count refs p = Suc k"
    using assms(2) by (metis not0_implies_Suc not_in_iff)
  ultimately have u: "unat (ref_cnt (entries t p) - 1) = (if p \<in> set es then 1 else 0) + (count refs p - 1)"
    by (subst unat_pred_word) auto
  have d: "dec_entry_ref_cnt p t = Some (ref_cnt (entries t p) - 1, ?t1)"
    using assms(3) by (simp add: dec_entry_ref_cnt_def lock_simps Let_def)
  have links: "tab_links ?t1 es" "tab_keys ?ent es" "entry_num_in_use ?t1 = of_nat (length es)"
    using assms(1) by (simp_all add: tab_core_def tab_links_ref_cnt tab_keys_ref_cnt)
  have cnts: "unat (ref_cnt (?ent q)) = (if q \<in> set es then 1 else 0) + count (refs - {#p#}) q"
    if "q \<in> set es \<union> set_mset (refs - {#p#})" for q
    using that u fs(2) by (auto simp: tab_refs_def dest: in_diffD)
  show ?thesis
  proof (cases "ref_cnt (entries t p) - 1 = 0")
    case True
    then have z: "p \<notin> set es" "count refs p = 1"
      using u k by (auto split: if_splits)
    from fs(2) assms(2) obtain b where b: "p = Buf b" "b < num" "b \<notin> set fs"
      by (auto simp: tab_refs_def)
    obtain m where m: "free_buffer b (mem_pool t) = Some m" "mm_ok num m (fs @ [b]) []"
      using mm_pool.free_held[OF fs(1)] b by auto
    have "set_mset (refs - {#p#}) = set_mset refs - {p}"
      using z(2) by (auto simp: in_diff_count split: if_splits)
    with fs(2) z(1) b have "set es \<union> set_mset (refs - {#p#}) = Buf ` ({..<num} - set (fs @ [b]))"
      by (auto simp: tab_refs_def)
    with cnts have "tab_refs num ?ent es (refs - {#p#}) (fs @ [b])"
      unfolding tab_refs_def by blast
    then have "\<exists>fs. mm_ok num m fs [] \<and> tab_refs num ?ent es (refs - {#p#}) fs"
      using m(2) by blast
    with links have "tab_core num (?t1\<lparr>mem_pool := m\<rparr>) es (refs - {#p#})"
      by (simp add: tab_core_def tab_links_def)
    with d True m b show ?thesis by (simp add: tab_xxx_put_def)
  next
    case False
    then have "p \<in> set es \<or> 1 < count refs p"
      using cnt k u by (auto simp: unat_eq_0[symmetric] split: if_splits)
    then have "set es \<union> set_mset (refs - {#p#}) = set es \<union> set_mset refs"
      using assms(2) by (auto simp: in_diff_count split: if_splits)
    with cnts fs(2) have "tab_refs num ?ent es (refs - {#p#}) fs"
      unfolding tab_refs_def by blast
    then have "\<exists>fs. mm_ok num (mem_pool t) fs [] \<and> tab_refs num ?ent es (refs - {#p#}) fs"
      using fs(1) by blast
    with links have "tab_core num ?t1 es (refs - {#p#})"
      by (simp add: tab_core_def)
    with d False show ?thesis by (simp add: tab_xxx_put_def)
  qed
qed

section \<open>The operations and the invariant\<close>

lemma tab_core_links: "tab_core num t es refs \<Longrightarrow> tab_links t es"
  by (simp add: tab_core_def)

lemma tab_get_entry_by_key_spec:
  assumes "tab_inv num t es refs"
    and p: "p = lookup (\<lambda>p. key_of (entries t p) = (a, b, c)) es"
    and "p \<noteq> NullPtr \<Longrightarrow> unat (ref_cnt (entries t p)) < 2 ^ 32 - 1"
  shows "\<exists>t'. tab_xxx_get_entry_by_key a b c t = Some (p, t') \<and>
     tab_inv num t' es (if p = NullPtr then refs else add_mset p refs) \<and>
     (p = NullPtr \<longrightarrow> t' = t) \<and>
     (p \<noteq> NullPtr \<longrightarrow> t' = upd_entry p (\<lambda>e. e\<lparr>ref_cnt := ref_cnt e + 1\<rparr>) t)"
proof -
  let ?l = "HashLineLockByKey (key_hash a b c)"
  let ?t1 = "t\<lparr>held := {?l}\<rparr>"
  have c: "tab_core num t es refs" and h: "held t = {}"
    using assms(1) by (auto simp: tab_inv_def)
  then have c1: "tab_core num ?t1 es refs" by (simp add: tab_core_held)
  have s: "search_entry_by_key_in_link (HashByKey (key_hash a b c)) a b c ?t1 = Some p"
    using search_entry_by_key_in_link_eq[OF tab_core_links[OF c1]] by (simp add: p)
  show ?thesis
  proof (cases "p = NullPtr")
    case True
    with s h c show ?thesis
      by (simp add: tab_xxx_get_entry_by_key_def lock_first unlock_back unlock_last tab_inv_def
          tab_core_held Let_def)
  next
    case False
    then have "p \<in> set es" unfolding p by (rule lookup_in[THEN conjunct1])
    then obtain t2 where t2: "inc_entry_ref_cnt p ?t1 = Some t2" "tab_core num t2 es (add_mset p refs)"
        "held t2 = {?l}" "t2 = upd_entry p (\<lambda>e. e\<lparr>ref_cnt := ref_cnt e + 1\<rparr>) ?t1"
      using inc_entry_ref_cnt_core[OF c1, of p] assms(3)[OF False] by auto
    have e: "t2\<lparr>held := {}\<rparr> = upd_entry p (\<lambda>e. e\<lparr>ref_cnt := ref_cnt e + 1\<rparr>) t"
      using t2(4) h by (simp add: upd_entry_def)
    show ?thesis
      using s h False t2(1-3) e tab_core_held[where t = t2 and H = "{}"]
      by (simp add: tab_xxx_get_entry_by_key_def lock_first unlock_back unlock_last tab_inv_def Let_def)
  qed
qed

lemma tab_get_entry_by_id_spec:
  assumes "tab_inv num t es refs"
    and p: "p = lookup (\<lambda>p. id_of (entries t p) = i) es"
    and "p \<noteq> NullPtr \<Longrightarrow> unat (ref_cnt (entries t p)) < 2 ^ 32 - 1"
  shows "\<exists>t'. tab_xxx_get_entry_by_id i t = Some (p, t') \<and>
     tab_inv num t' es (if p = NullPtr then refs else add_mset p refs) \<and>
     (p = NullPtr \<longrightarrow> t' = t) \<and>
     (p \<noteq> NullPtr \<longrightarrow> t' = upd_entry p (\<lambda>e. e\<lparr>ref_cnt := ref_cnt e + 1\<rparr>) t)"
proof -
  let ?l = "HashLineLockById (id_hash i)"
  let ?t1 = "t\<lparr>held := {?l}\<rparr>"
  have c: "tab_core num t es refs" and h: "held t = {}"
    using assms(1) by (auto simp: tab_inv_def)
  then have c1: "tab_core num ?t1 es refs" by (simp add: tab_core_held)
  have s: "search_entry_by_id_in_link (HashById (id_hash i)) i ?t1 = Some p"
    using search_entry_by_id_in_link_eq[OF tab_core_links[OF c1]] by (simp add: p)
  show ?thesis
  proof (cases "p = NullPtr")
    case True
    with s h c show ?thesis
      by (simp add: tab_xxx_get_entry_by_id_def lock_first unlock_back unlock_last tab_inv_def
          tab_core_held Let_def)
  next
    case False
    then have "p \<in> set es" unfolding p by (rule lookup_in[THEN conjunct1])
    then obtain t2 where t2: "inc_entry_ref_cnt p ?t1 = Some t2" "tab_core num t2 es (add_mset p refs)"
        "held t2 = {?l}" "t2 = upd_entry p (\<lambda>e. e\<lparr>ref_cnt := ref_cnt e + 1\<rparr>) ?t1"
      using inc_entry_ref_cnt_core[OF c1, of p] assms(3)[OF False] by auto
    have e: "t2\<lparr>held := {}\<rparr> = upd_entry p (\<lambda>e. e\<lparr>ref_cnt := ref_cnt e + 1\<rparr>) t"
      using t2(4) h by (simp add: upd_entry_def)
    show ?thesis
      using s h False t2(1-3) e tab_core_held[where t = t2 and H = "{}"]
      by (simp add: tab_xxx_get_entry_by_id_def lock_first unlock_back unlock_last tab_inv_def Let_def)
  qed
qed

lemma tab_put_spec:
  assumes "tab_inv num t es refs" and "p \<in># refs"
  shows "\<exists>t'. tab_xxx_put p t = Some t' \<and> tab_inv num t' es (refs - {#p#}) \<and>
     entries t' = (entries t)(p := (entries t p)\<lparr>ref_cnt := ref_cnt (entries t p) - 1\<rparr>)"
proof -
  have "tab_core num t es refs" and h: "held t = {}"
    using assms(1) by (auto simp: tab_inv_def)
  from tab_put_core[OF this(1) assms(2)] h show ?thesis by (auto simp: tab_inv_def)
qed

text \<open>Taking an entry out of the table turns the table's reference into one to release.\<close>

lemma tab_unlink_core:
  assumes "tab_core num t es refs" and "p \<in> set es" and "held t \<subseteq> {AddDelLock}"
  shows "\<exists>t'. del_entry_from_tab p t = Some t' \<and> tab_core num t' (remove1 p es) (add_mset p refs) \<and>
     held t' = held t \<and> entries t' = entries t"
proof -
  let ?t' = "t\<lparr>tlinks := list_del (EntAll p) (list_del (EntByKey p) (list_del (EntById p) (tlinks t))),
     entry_num_in_use := entry_num_in_use t - 1\<rparr>"
  have d: "distinct es" and l: "tab_links t es"
    using assms(1) tab_links_distinct by (auto simp: tab_core_def)
  obtain fs where fs: "mm_ok num (mem_pool t) fs []" "tab_refs num (entries t) es refs fs"
    using assms(1) by (auto simp: tab_core_def)
  have s: "set (remove1 p es) = set es - {p}" using d by simp
  from fs(2) assms(2) have "tab_refs num (entries t) (remove1 p es) (add_mset p refs) fs"
    unfolding tab_refs_def s by auto
  moreover have "tab_keys (entries t) (remove1 p es)"
    using assms(1) unfolding tab_core_def tab_keys_def s by (meson Diff_subset inj_on_subset)
  moreover have "tab_links ?t' (remove1 p es)"
    using tab_links_del[OF l assms(2)] by (simp add: tab_links_def)
  moreover have "entry_num_in_use ?t' = of_nat (length (remove1 p es))"
  proof -
    obtain n where "length es = Suc n" using assms(2) by (cases es) auto
    with assms(1,2) show ?thesis by (simp add: tab_core_def length_remove1)
  qed
  ultimately have "tab_core num ?t' (remove1 p es) (add_mset p refs)"
    using fs(1) unfolding tab_core_def by auto
  then show ?thesis using del_entry_from_tab_eq[OF assms(3)] by simp
qed

lemma tab_del_entry_by_key_spec:
  assumes "tab_inv num t es refs"
    and p: "p = lookup (\<lambda>p. key_of (entries t p) = (a, b, c)) es"
  shows "p = NullPtr \<Longrightarrow> tab_xxx_del_entry_by_key a b c t = Some (Inl ESRCH, t)"
    and "p \<noteq> NullPtr \<Longrightarrow> \<exists>t'. tab_xxx_del_entry_by_key a b c t = Some (Inr (), t') \<and>
       tab_inv num t' (remove1 p es) refs \<and>
       entries t' = (entries t)(p := (entries t p)\<lparr>ref_cnt := ref_cnt (entries t p) - 1\<rparr>)"
proof -
  let ?t1 = "t\<lparr>held := {AddDelLock}\<rparr>"
  have c: "tab_core num t es refs" and h: "held t = {}"
    using assms(1) by (auto simp: tab_inv_def)
  then have c1: "tab_core num ?t1 es refs" by (simp add: tab_core_held)
  have s: "search_entry_by_key a b c ?t1 = Some (p, ?t1)"
    using search_entry_by_key_eq[OF tab_core_links[OF c1]] by (simp add: p)
  show "p = NullPtr \<Longrightarrow> tab_xxx_del_entry_by_key a b c t = Some (Inl ESRCH, t)"
    using s h by (simp add: tab_xxx_del_entry_by_key_def lock_first unlock_back unlock_last)
  assume nz: "p \<noteq> NullPtr"
  then have "p \<in> set es" unfolding p by (rule lookup_in[THEN conjunct1])
  then obtain t2 where t2: "del_entry_from_tab p ?t1 = Some t2"
      "tab_core num t2 (remove1 p es) (add_mset p refs)" "held t2 = {AddDelLock}"
      "entries t2 = entries t"
    using tab_unlink_core[OF c1] by auto
  from t2(3) tab_put_core[OF t2(2), of p] obtain t3 where t3: "tab_xxx_put p t2 = Some t3"
      "tab_core num t3 (remove1 p es) refs" "held t3 = {AddDelLock}"
      "entries t3 = (entries t)(p := (entries t p)\<lparr>ref_cnt := ref_cnt (entries t p) - 1\<rparr>)"
    using t2(4) by auto
  then show "\<exists>t'. tab_xxx_del_entry_by_key a b c t = Some (Inr (), t') \<and>
       tab_inv num t' (remove1 p es) refs \<and>
       entries t' = (entries t)(p := (entries t p)\<lparr>ref_cnt := ref_cnt (entries t p) - 1\<rparr>)"
    using s h nz t2(1) tab_core_held[where t = t3 and H = "{}"]
    by (simp add: tab_xxx_del_entry_by_key_def lock_first unlock_back unlock_last tab_inv_def)
qed

text \<open>The entry \<open>tab_xxx_add_entry\<close> builds.\<close>

definition new_entry :: "u32 \<Rightarrow> u32 \<Rightarrow> u32 \<Rightarrow> u32 \<Rightarrow> u16 \<Rightarrow> t_tab_xxx_entry" where
  "new_entry a b c priv i = \<lparr>ref_cnt = 1, id_of = i, key_a = a, key_b = b, key_c = c, priv_data = priv\<rparr>"

lemma tab_keys_cong:
  assumes "\<And>p. p \<in> set es \<Longrightarrow> ent' p = ent p"
  shows "tab_keys ent' es = tab_keys ent es"
  unfolding tab_keys_def using assms by (auto simp: inj_on_def)

lemma all_fields_new_entry:
  "e\<lparr>id_of := i, key_a := a, key_b := b, key_c := c, priv_data := priv, ref_cnt := 1\<rparr> =
     new_entry a b c priv i"
  by (cases e) (simp add: new_entry_def)

lemma tab_link_core:
  assumes "tab_core num t es refs" and "held t = {AddDelLock}" and "length es < 2 ^ 16"
    and "mm_ok num (mem_pool t) (x # fs) []" and "tab_refs num (entries t) es refs (x # fs)"
    and "mm_ok num pool fs []" and "(a, b, c) \<notin> (\<lambda>p. key_of (entries t p)) ` set es"
  shows "\<exists>t4 t5 i. build_new_entry (Buf x) a b c priv (t\<lparr>mem_pool := pool\<rparr>) = Some t4 \<and>
     add_entry_into_tab (Buf x) t4 = Some t5 \<and> tab_core num t5 (Buf x # es) refs \<and>
     held t5 = {AddDelLock} \<and> i \<notin> ids t es \<and> Buf x \<notin> set es \<union> set_mset refs \<and>
     entries t5 = (entries t)(Buf x := new_entry a b c priv i)"
proof -
  let ?t3 = "t\<lparr>mem_pool := pool\<rparr>" and ?p = "Buf x"
  have new: "?p \<notin> set es \<union> set_mset refs" using assms(5) by (auto simp: tab_refs_def)
  have l3: "tab_links ?t3 es" using assms(1) by (simp add: tab_core_def tab_links_def)
  have nn: "NullPtr \<notin> set es" by (rule tab_core_bufs(4)[OF assms(1)])
  obtain i n where g: "gen_id ?t3 = Some (i, ?t3\<lparr>next_id := n\<rparr>)" "i \<notin> ids t es"
    using gen_id_fresh[OF l3 _ nn assms(3)] assms(2) by auto
  let ?ent = "(entries t)(?p := new_entry a b c priv i)"
  let ?t4 = "?t3\<lparr>next_id := n, entries := ?ent\<rparr>"
  have b: "build_new_entry ?p a b c priv ?t3 = Some ?t4"
    using g(1) assms(2)
    by (simp add: build_new_entry_def Let_def spin_unlock_id upd_entry_def all_fields_new_entry)
  have "tab_shape ?ent es = tab_shape (entries t) es"
    by (rule tab_shape_cong) (use new in auto)
  with l3 have l4: "tab_links ?t4 es" by (simp add: tab_links_def)
  let ?t5 = "?t4\<lparr>tlinks := list_add (EntAll ?p) LinkAllHead
        (list_add (EntByKey ?p) (HashByKey (entry_line ?p ?t4))
          (list_add (EntById ?p) (HashById (id_hash (id_of (entries ?t4 ?p)))) (tlinks ?t4))),
     entry_num_in_use := entry_num_in_use ?t4 + 1\<rparr>"
  have a: "add_entry_into_tab ?p ?t4 = Some ?t5"
    using add_entry_into_tab_eq[of ?t4 ?p] assms(2) by simp
  have l5: "tab_links ?t5 (?p # es)"
    using tab_links_add[OF l4, of ?p] new by (simp add: tab_links_def)
  have "tab_keys ?ent es"
    by (subst tab_keys_cong[of es ?ent "entries t"]) (use assms(1) new in \<open>auto simp: tab_core_def\<close>)
  with new g(2) assms(7) have k: "tab_keys ?ent (?p # es)"
    by (auto simp: tab_keys_def new_entry_def inj_on_def image_iff)
  have "x < num" "x \<notin> set fs" using mm_pool.inv_free[OF assms(4)] by auto
  with new assms(5) have r: "tab_refs num ?ent (?p # es) refs fs"
    unfolding tab_refs_def by (auto simp: new_entry_def not_in_iff)
  have "tab_core num ?t5 (?p # es) refs"
    using l5 k r assms(1,6) unfolding tab_core_def by auto
  with b a g(2) new assms(2) show ?thesis by (intro exI[of _ ?t4] exI[of _ ?t5] exI[of _ i]) simp
qed

lemma tab_add_entry_spec:
  assumes "tab_inv num t es refs"
  shows "(a, b, c) \<in> (\<lambda>p. key_of (entries t p)) ` set es \<Longrightarrow>
      tab_xxx_add_entry a b c priv t = Some (Inl EEXIST, t)"
    and "(a, b, c) \<notin> (\<lambda>p. key_of (entries t p)) ` set es \<Longrightarrow>
      set es \<union> set_mset refs = Buf ` {..<num} \<Longrightarrow>
      tab_xxx_add_entry a b c priv t = Some (Inl ENOMEM, t)"
    and "(a, b, c) \<notin> (\<lambda>p. key_of (entries t p)) ` set es \<Longrightarrow>
      set es \<union> set_mset refs \<noteq> Buf ` {..<num} \<Longrightarrow> length es < 2 ^ 16 \<Longrightarrow>
      \<exists>p i t'. tab_xxx_add_entry a b c priv t = Some (Inr i, t') \<and>
        tab_inv num t' (p # es) refs \<and> p \<notin> set es \<union> set_mset refs \<and> i \<notin> ids t es \<and>
        entries t' = (entries t)(p := new_entry a b c priv i)"
proof -
  let ?t1 = "t\<lparr>held := {AddDelLock}\<rparr>" and ?K = "(\<lambda>p. key_of (entries t p)) ` set es"
  let ?p = "lookup (\<lambda>p. key_of (entries t p) = (a, b, c)) es"
  have core: "tab_core num t es refs" and h: "held t = {}"
    using assms(1) by (auto simp: tab_inv_def)
  then have c1: "tab_core num ?t1 es refs" by (simp add: tab_core_held)
  have s: "search_entry_by_key a b c ?t1 = Some (?p, ?t1)"
    using search_entry_by_key_eq[OF tab_core_links[OF c1]] by simp
  have nil: "?p = NullPtr \<longleftrightarrow> (a, b, c) \<notin> ?K"
    unfolding lookup_NullPtr[OF tab_core_bufs(4)[OF core]] by (auto simp: image_iff)
  show "(a, b, c) \<in> ?K \<Longrightarrow> tab_xxx_add_entry a b c priv t = Some (Inl EEXIST, t)"
    using s h nil by (simp add: tab_xxx_add_entry_def lock_first unlock_back)
  obtain fs where fs: "mm_ok num (mem_pool t) fs []" "tab_refs num (entries t) es refs fs"
    using core by (auto simp: tab_core_def)
  have sub: "set fs \<subseteq> {..<num}" using mm_pool.inv_free[OF fs(1)] by simp
  have full: "set es \<union> set_mset refs = Buf ` {..<num} \<longleftrightarrow> fs = []"
  proof
    assume "set es \<union> set_mset refs = Buf ` {..<num}"
    then have "Buf ` ({..<num} - set fs) = Buf ` {..<num}" using fs(2) by (simp add: tab_refs_def)
    then have "{..<num} - set fs = {..<num}" by (subst (asm) inj_image_eq_iff) (auto simp: inj_def)
    with sub show "fs = []" by (cases fs) auto
  qed (use fs(2) in \<open>simp add: tab_refs_def\<close>)
  { assume k: "(a, b, c) \<notin> ?K" and f: "set es \<union> set_mset refs = Buf ` {..<num}"
    then have "alloc_buffer (mem_pool t) = Some (NullPtr, mem_pool t)"
      using fs(1) full mm_ok_alloc_none by auto
    with s h nil k show "tab_xxx_add_entry a b c priv t = Some (Inl ENOMEM, t)"
      by (simp add: tab_xxx_add_entry_def lock_first unlock_back) }
  assume k: "(a, b, c) \<notin> ?K" and f: "set es \<union> set_mset refs \<noteq> Buf ` {..<num}"
    and len: "length es < 2 ^ 16"
  from f full obtain x fs' where x: "fs = x # fs'" by (cases fs) auto
  obtain pool where p: "alloc_buffer (mem_pool t) = Some (Buf x, pool)" "mm_ok num pool fs' []"
    using mm_ok_alloc_some fs(1) x by blast
  obtain t4 t5 i where b: "build_new_entry (Buf x) a b c priv (?t1\<lparr>mem_pool := pool\<rparr>) = Some t4"
      "add_entry_into_tab (Buf x) t4 = Some t5" "tab_core num t5 (Buf x # es) refs"
      "held t5 = {AddDelLock}" "i \<notin> ids t es" "Buf x \<notin> set es \<union> set_mset refs"
      "entries t5 = (entries t)(Buf x := new_entry a b c priv i)"
    using tab_link_core[OF c1 _ len, of x fs' pool a b c priv] fs p x k by auto
  have "tab_xxx_add_entry a b c priv t = Some (Inr i, t5\<lparr>held := {}\<rparr>)"
    using s h nil k p b
    by (simp add: tab_xxx_add_entry_def lock_first unlock_last new_entry_def Let_def)
  moreover have "tab_inv num (t5\<lparr>held := {}\<rparr>) (Buf x # es) refs"
    using b(3) by (simp add: tab_inv_def tab_core_held)
  ultimately show "\<exists>p i t'. tab_xxx_add_entry a b c priv t = Some (Inr i, t') \<and>
        tab_inv num t' (p # es) refs \<and> p \<notin> set es \<union> set_mset refs \<and> i \<notin> ids t es \<and>
        entries t' = (entries t)(p := new_entry a b c priv i)"
    using b(5-7) by (intro exI[of _ "Buf x"] exI[of _ i] exI[of _ "t5\<lparr>held := {}\<rparr>"]) simp
qed

section \<open>Initialisation\<close>

definition empty_shape :: "nat \<Rightarrow> tab_node \<Rightarrow> tab_node list option" where
  "empty_shape n q = (case q of LinkAllHead \<Rightarrow> Some [] | HashById l \<Rightarrow> if l < n then Some [] else None
     | HashByKey l \<Rightarrow> if l < n then Some [] else None | _ \<Rightarrow> None)"

lemma empty_shape_nodes: "HashById n \<notin> nodes (empty_shape n)" "HashByKey n \<notin> nodes (empty_shape n)"
  unfolding nodes_def empty_shape_def by (auto split: tab_node.splits if_splits)

lemma empty_shape_Suc:
  "(empty_shape n)(HashById n \<mapsto> [], HashByKey n \<mapsto> []) = empty_shape (Suc n)"
  by (rule ext) (auto simp: empty_shape_def split: tab_node.splits)

lemma empty_shape_tab: "empty_shape MAX_HASH_LINE_NUM = tab_shape ent []"
proof
  fix q show "empty_shape MAX_HASH_LINE_NUM q = tab_shape ent [] q"
    by (cases q) (auto simp: empty_shape_def)
qed

lemma init_hash_line_sel:
  "tlinks (init_hash_line i t) = INIT_LIST_HEAD (HashByKey i) (INIT_LIST_HEAD (HashById i) (tlinks t))"
  "held (init_hash_line i t) = held t - {HashLineLockById i} - {HashLineLockByKey i}"
  "entries (init_hash_line i t) = entries t" "mem_pool (init_hash_line i t) = mem_pool t"
  "entry_num_in_use (init_hash_line i t) = entry_num_in_use t"
  by (simp_all add: init_hash_line_def Let_def spin_unlock_def)

lemma init_hash_lines:
  assumes "list_store is_list (tlinks t) (empty_shape 0)"
  shows "list_store is_list (tlinks (fold init_hash_line [0..<n] t)) (empty_shape n) \<and>
    held (fold init_hash_line [0..<n] t) \<subseteq> held t \<and>
    entries (fold init_hash_line [0..<n] t) = entries t \<and>
    mem_pool (fold init_hash_line [0..<n] t) = mem_pool t \<and>
    entry_num_in_use (fold init_hash_line [0..<n] t) = entry_num_in_use t"
proof (induction n)
  case 0
  then show ?case using assms by simp
next
  case (Suc n)
  let ?t = "fold init_hash_line [0..<n] t"
  have s: "list_store is_list (tlinks ?t) (empty_shape n)" using Suc by simp
  have 1: "list_store is_list (INIT_LIST_HEAD (HashById n) (tlinks ?t)) ((empty_shape n)(HashById n \<mapsto> []))"
    by (rule kernel_list.store_init[OF s empty_shape_nodes(1)])
  have "HashByKey n \<notin> nodes ((empty_shape n)(HashById n \<mapsto> []))"
    using nodes_upd_subset[of "empty_shape n" "HashById n" "[]"] empty_shape_nodes(2)[of n] by auto
  from kernel_list.store_init[OF 1 this] Suc show ?case
    by (auto simp: init_hash_line_sel empty_shape_Suc)
qed

lemma tab_init_spec:
  assumes "create_buffer_manager (Some junk) True 80 num = Some pool"
    and "buffer_num_free junk = 0" and "0 \<le> num" and "num < 2 ^ 31" and "held t = {}"
  shows "\<exists>t'. tab_xxx_init (Some junk) True num t = Inr t' \<and> tab_inv (nat num) t' [] {#}"
proof -
  let ?t5 = "spin_unlock LinkLockAll (upd_tlinks (INIT_LIST_HEAD LinkAllHead)
     ((spin_unlock AddDelLock (t\<lparr>mem_pool := pool\<rparr>))\<lparr>entry_num_in_use := 0\<rparr>))"
  let ?t' = "fold init_hash_line [0..<MAX_HASH_LINE_NUM] ?t5"
  have e: "empty_shape 0 = Map.empty(LinkAllHead \<mapsto> [])"
    by (rule ext) (auto simp: empty_shape_def split: tab_node.splits)
  have "list_store is_list (tlinks ?t5) (empty_shape 0)"
    unfolding e using kernel_list.store_init[OF kernel_list.store_empty, of LinkAllHead]
    by (simp add: spin_unlock_def nodes_def)
  note i = init_hash_lines[OF this, of MAX_HASH_LINE_NUM]
  have m: "mm_lists pool [0..<nat num] []" "buffer_num_free pool = of_nat (nat num)"
    using create_buffer_manager_lists[OF assms(1)] assms(2) by auto
  have "nat num < 2 ^ 32" using assms(3,4) by (simp add: nat_less_iff)
  with m have "mm_ok (nat num) pool [0..<nat num] []"
    by (auto simp: mm_ok_def unat_of_nat_small)
  moreover have "tab_refs (nat num) ent [] {#} [0..<nat num]" for ent
    by (simp add: tab_refs_def) (auto simp: set_eq_iff)
  ultimately have "tab_inv (nat num) ?t' [] {#}"
    using i assms(5)
    by (auto simp: tab_inv_def tab_core_def tab_links_def tab_keys_def spin_unlock_def
        empty_shape_tab[of "entries t"])
  moreover have "tab_xxx_init (Some junk) True num t = Inr ?t'"
    by (simp add: tab_xxx_init_def assms(1) Let_def)
  ultimately show ?thesis by blast
qed

section \<open>Clients\<close>

text \<open>
  A client makes any calls of the interface, except that it puts only references it
  holds. \<open>tab_run\<close> threads the table and the multiset of held references.
\<close>

datatype tab_call =
    AddEntry u32 u32 u32 u32 | DelByKey u32 u32 u32 | GetByKey u32 u32 u32 | GetById u16
  | PutEntry mm_ptr

definition take_ref :: "mm_ptr \<Rightarrow> mm_ptr multiset \<Rightarrow> mm_ptr multiset" where
  "take_ref p refs = (if p = NullPtr then refs else add_mset p refs)"

fun tab_call_step ::
    "tab_call \<Rightarrow> t_xxx_tab \<Rightarrow> mm_ptr multiset \<Rightarrow> (t_xxx_tab \<times> mm_ptr multiset) option" where
  "tab_call_step (AddEntry a b c priv) t refs = do {
     (r, t') \<leftarrow> tab_xxx_add_entry a b c priv t; Some (t', refs) }"
| "tab_call_step (DelByKey a b c) t refs = do {
     (r, t') \<leftarrow> tab_xxx_del_entry_by_key a b c t; Some (t', refs) }"
| "tab_call_step (GetByKey a b c) t refs = do {
     (p, t') \<leftarrow> tab_xxx_get_entry_by_key a b c t; Some (t', take_ref p refs) }"
| "tab_call_step (GetById i) t refs = do {
     (p, t') \<leftarrow> tab_xxx_get_entry_by_id i t; Some (t', take_ref p refs) }"
| "tab_call_step (PutEntry p) t refs =
     (if p \<in># refs then do { t' \<leftarrow> tab_xxx_put p t; Some (t', refs - {#p#}) } else Some (t, refs))"

fun tab_run :: "tab_call list \<Rightarrow> t_xxx_tab \<Rightarrow> mm_ptr multiset \<Rightarrow> (t_xxx_tab \<times> mm_ptr multiset) option" where
  "tab_run [] t refs = Some (t, refs)"
| "tab_run (c # cs) t refs = do {
     (t', refs') \<leftarrow> tab_call_step c t refs; tab_run cs t' refs' }"

lemma tab_ref_bound:
  assumes "tab_inv num t es refs" and "p \<in> set es \<union> set_mset refs"
  shows "unat (ref_cnt (entries t p)) \<le> Suc (size refs)"
proof -
  have "unat (ref_cnt (entries t p)) = (if p \<in> set es then 1 else 0) + count refs p"
    using assms by (auto simp: tab_inv_def tab_core_def tab_refs_def)
  moreover have "count refs p \<le> size refs" by (rule count_le_size)
  ultimately show ?thesis by simp
qed

lemma tab_call_step_inv:
  assumes "tab_inv num t es refs" and "num < 2 ^ 16" and "size refs < 2 ^ 32 - 2"
  shows "\<exists>t' es' refs'. tab_call_step c t refs = Some (t', refs') \<and> tab_inv num t' es' refs' \<and>
     size refs' \<le> Suc (size refs)"
proof -
  have nn: "NullPtr \<notin> set es" using assms(1) tab_core_bufs(4)[of num t es refs] by (simp add: tab_inv_def)
  have len: "length es < 2 ^ 16"
    using assms(1,2) tab_core_bufs(3)[of num t es refs] by (simp add: tab_inv_def)
  have rc: "unat (ref_cnt (entries t (lookup P es))) < 2 ^ 32 - 1" if "lookup P es \<noteq> NullPtr" for P
    using tab_ref_bound[OF assms(1), of "lookup P es"] lookup_in[OF that] assms(3) by auto
  show ?thesis
  proof (cases c)
    case (AddEntry a b d priv)
    show ?thesis
    proof (cases "(a, b, d) \<in> (\<lambda>p. key_of (entries t p)) ` set es")
      case True
      with tab_add_entry_spec(1)[OF assms(1) True] AddEntry assms(1) show ?thesis by auto
    next
      case k: False
      show ?thesis
      proof (cases "set es \<union> set_mset refs = Buf ` {..<num}")
        case True
        with tab_add_entry_spec(2)[OF assms(1) k True] AddEntry assms(1) show ?thesis by auto
      next
        case False
        from tab_add_entry_spec(3)[OF assms(1) k False len] obtain p i t' where
          "tab_xxx_add_entry a b d priv t = Some (Inr i, t')" "tab_inv num t' (p # es) refs" by blast
        with AddEntry show ?thesis by auto
      qed
    qed
  next
    case (DelByKey a b d)
    let ?p = "lookup (\<lambda>p. key_of (entries t p) = (a, b, d)) es"
    show ?thesis
    proof (cases "?p = NullPtr")
      case True
      from tab_del_entry_by_key_spec(1)[OF assms(1) refl True] DelByKey assms(1)
      show ?thesis by auto
    next
      case False
      from tab_del_entry_by_key_spec(2)[OF assms(1) refl False] obtain t' where
        "tab_xxx_del_entry_by_key a b d t = Some (Inr (), t')" "tab_inv num t' (remove1 ?p es) refs"
        by blast
      with DelByKey show ?thesis by auto
    qed
  next
    case (GetByKey a b d)
    from tab_get_entry_by_key_spec[OF assms(1) refl rc] obtain p t' where
      "tab_xxx_get_entry_by_key a b d t = Some (p, t')"
      "tab_inv num t' es (if p = NullPtr then refs else add_mset p refs)" by blast
    with GetByKey show ?thesis
      by (intro exI[of _ t'] exI[of _ es] exI[of _ "take_ref p refs"]) (simp add: take_ref_def)
  next
    case (GetById i)
    from tab_get_entry_by_id_spec[OF assms(1) refl rc] obtain p t' where
      "tab_xxx_get_entry_by_id i t = Some (p, t')"
      "tab_inv num t' es (if p = NullPtr then refs else add_mset p refs)" by blast
    with GetById show ?thesis
      by (intro exI[of _ t'] exI[of _ es] exI[of _ "take_ref p refs"]) (simp add: take_ref_def)
  next
    case (PutEntry p)
    show ?thesis
    proof (cases "p \<in># refs")
      case True
      with tab_put_spec[OF assms(1) True] PutEntry show ?thesis
        by (auto simp: size_Diff_singleton)
    qed (use PutEntry assms(1) in auto)
  qed
qed

lemma tab_run_inv:
  assumes "tab_inv num t es refs" and "num < 2 ^ 16" and "size refs + length cs < 2 ^ 32 - 2"
  shows "\<exists>t' es' refs'. tab_run cs t refs = Some (t', refs') \<and> tab_inv num t' es' refs'"
  using assms
proof (induction cs arbitrary: t es refs)
  case Nil
  then show ?case by auto
next
  case (Cons c cs)
  then have "size refs < 2 ^ 32 - 2" by simp
  from tab_call_step_inv[OF Cons.prems(1,2) this, of c] obtain t' es' refs' where
    s: "tab_call_step c t refs = Some (t', refs')" "tab_inv num t' es' refs'"
      "size refs' \<le> Suc (size refs)" by blast
  have "size refs' + length cs < 2 ^ 32 - 2" using s(3) Cons.prems(3) by simp
  from Cons.IH[OF s(2) Cons.prems(2) this] s(1) show ?case by simp
qed

section \<open>Properties\<close>

text \<open>What the table stores: key to id and private data.\<close>

definition table_map ::
    "(mm_ptr \<Rightarrow> t_tab_xxx_entry) \<Rightarrow> mm_ptr list \<Rightarrow> u32 \<times> u32 \<times> u32 \<Rightarrow> (u16 \<times> u32) option" where
  "table_map ent es = map_of (map (\<lambda>p. (key_of (ent p), (id_of (ent p), priv_data (ent p)))) es)"

lemma table_map_None: "table_map ent es k = None \<longleftrightarrow> k \<notin> (\<lambda>p. key_of (ent p)) ` set es"
  by (auto simp: table_map_def map_of_eq_None_iff image_image)

lemma table_map_cong:
  "(\<And>p. p \<in> set es \<Longrightarrow> key_of (ent' p) = key_of (ent p) \<and> id_of (ent' p) = id_of (ent p) \<and>
      priv_data (ent' p) = priv_data (ent p)) \<Longrightarrow> table_map ent' es = table_map ent es"
  unfolding table_map_def by (rule arg_cong[where f = map_of]) auto

lemma table_map_remove1:
  assumes "distinct es" and "inj_on (\<lambda>p. key_of (ent p)) (set es)" and "p \<in> set es"
  shows "table_map ent (remove1 p es) = (table_map ent es)(key_of (ent p) := None)"
  using assms
proof (induction es)
  case (Cons q es)
  then show ?case
  proof (cases "q = p")
    case True
    then have "key_of (ent p) \<notin> (\<lambda>p. key_of (ent p)) ` set es"
      using Cons.prems by (auto simp: inj_on_def)
    then have "table_map ent es (key_of (ent p)) = None" by (rule table_map_None[THEN iffD2])
    with True show ?thesis by (auto simp: table_map_def fun_upd_idem)
  next
    case False
    then have "distinct es" "inj_on (\<lambda>p. key_of (ent p)) (set es)" "p \<in> set es"
      using Cons.prems by auto
    then have "table_map ent (remove1 p es) = (table_map ent es)(key_of (ent p) := None)"
      by (rule Cons.IH)
    moreover have "key_of (ent q) \<noteq> key_of (ent p)"
      using Cons.prems False by (auto simp: inj_on_def)
    ultimately show ?thesis using False by (auto simp: table_map_def)
  qed
qed simp

text \<open>A concrete table with two buffers, for the witnesses.\<close>

definition blank_tab :: t_xxx_tab where
  "blank_tab = \<lparr>mem_pool = stale_memory 0, entry_num_in_use = 0,
     tlinks = \<lparr>nxt = (\<lambda>_. LinkAllHead), prv = (\<lambda>_. LinkAllHead)\<rparr>,
     entries = (\<lambda>_. new_entry 0 0 0 0 0), held = {}, next_id = MIN_ENTRY_ID\<rparr>"

definition two_entry_tab :: t_xxx_tab where
  "two_entry_tab = projr (tab_xxx_init (Some (stale_memory 0)) True 2 blank_tab)"

lemma two_entry_tab_inv: "tab_inv 2 two_entry_tab [] {#}"
proof -
  obtain pool where "create_buffer_manager (Some (stale_memory 0)) True 80 2 = Some pool"
    by (simp add: create_buffer_manager_def Let_def)
  then obtain t' where "tab_xxx_init (Some (stale_memory 0)) True 2 blank_tab = Inr t'"
      "tab_inv (nat 2) t' [] {#}"
    using tab_init_spec[of "stale_memory 0" 2 pool blank_tab]
    by (auto simp: stale_memory_def blank_tab_def)
  then show ?thesis by (simp add: two_entry_tab_def)
qed

text \<open>The same table with one entry in it.\<close>

lemma one_entry_tab:
  "\<exists>t p. tab_inv 2 t [p] {#} \<and> key_of (entries t p) = (1, 2, 3)"
proof -
  have "(1, 2, 3) \<notin> (\<lambda>p. key_of (entries two_entry_tab p)) ` set []" by simp
  moreover have "set [] \<union> set_mset {#} \<noteq> Buf ` {..<2}" by (simp add: lessThan_empty_iff)
  ultimately obtain p i t' where "tab_inv 2 t' (p # []) {#}"
      "entries t' = (entries two_entry_tab)(p := new_entry 1 2 3 9 i)"
    using tab_add_entry_spec(3)[OF two_entry_tab_inv, of 1 2 3 9] by auto
  then have "tab_inv 2 t' [p] {#}" "key_of (entries t' p) = (1, 2, 3)"
    by (simp_all add: new_entry_def)
  then show ?thesis by blast
qed

text \<open>\<open>tab_xxx_init\<close> on a fresh table and a pool whose memory happens to be zeroed gives
  an empty table with every lock free and every buffer available.\<close>

theorem tab_init_establishes_invariant:
  assumes "create_buffer_manager (Some junk) True 80 num = Some pool"
    and "buffer_num_free junk = 0" and "0 \<le> num" and "num < 2 ^ 31" and "held t = {}"
  shows "\<exists>t'. tab_xxx_init (Some junk) True num t = Inr t' \<and> tab_inv (nat num) t' [] {#}"
  by (rule tab_init_spec[OF assms])

lemma tab_init_establishes_invariant_witness:
  "\<exists>t'. tab_xxx_init (Some (stale_memory 0)) True 2 blank_tab = Inr t' \<and> tab_inv 2 t' [] {#}"
  using tab_init_establishes_invariant[of "stale_memory 0" 2 _ blank_tab]
  by (simp add: create_buffer_manager_def stale_memory_def blank_tab_def Let_def)

text \<open>C6: In a table of fewer than 65536 buffers (with as many entries as there are 16-bit ids the
  search for a free one would not end) \<open>tab_xxx_add_entry\<close> refines the insertion of a new key: it refuses a key that is
  present and changes nothing; it refuses when every buffer is in the table or held and
  changes nothing; otherwise it adds the key with the private data and an id no entry
  has, keeps the invariant, and releases every lock.\<close>

theorem tab_add_entry_refines:
  assumes "tab_inv num t es refs" and "num < 2 ^ 16"
  shows "\<exists>r t' es'. tab_xxx_add_entry a b c priv t = Some (r, t') \<and> tab_inv num t' es' refs \<and>
    (case table_map (entries t) es (a, b, c) of
       Some _ \<Rightarrow> r = Inl EEXIST \<and> t' = t
     | None \<Rightarrow> if set es \<union> set_mset refs = Buf ` {..<num} then r = Inl ENOMEM \<and> t' = t
         else \<exists>i. r = Inr i \<and> i \<notin> id_of ` entries t ` set es \<and>
           table_map (entries t') es' = (table_map (entries t) es)((a, b, c) \<mapsto> (i, priv)))"
proof (cases "table_map (entries t) es (a, b, c)")
  case (Some x)
  then have "(a, b, c) \<in> (\<lambda>p. key_of (entries t p)) ` set es"
    using table_map_None[of "entries t" es "(a, b, c)"] by auto
  from tab_add_entry_spec(1)[OF assms(1) this] Some assms(1) show ?thesis by auto
next
  case None
  then have k: "(a, b, c) \<notin> (\<lambda>p. key_of (entries t p)) ` set es" by (rule table_map_None[THEN iffD1])
  show ?thesis
  proof (cases "set es \<union> set_mset refs = Buf ` {..<num}")
    case True
    from tab_add_entry_spec(2)[OF assms(1) k True] None True assms(1) show ?thesis by auto
  next
    case False
    have "length es < 2 ^ 16"
      using assms tab_core_bufs(3)[of num t es refs] by (simp add: tab_inv_def)
    from tab_add_entry_spec(3)[OF assms(1) k False this] obtain p i t' where s:
      "tab_xxx_add_entry a b c priv t = Some (Inr i, t')" "tab_inv num t' (p # es) refs"
      "p \<notin> set es \<union> set_mset refs" "i \<notin> ids t es"
      "entries t' = (entries t)(p := new_entry a b c priv i)" by blast
    have "table_map (entries t') es = table_map (entries t) es"
      by (rule table_map_cong) (use s(3,5) in auto)
    then have "table_map (entries t') (p # es) = (table_map (entries t) es)((a, b, c) \<mapsto> (i, priv))"
      by (simp add: table_map_def s(5) new_entry_def)
    with s None False show ?thesis
      by (intro exI[of _ "Inr i"] exI[of _ t'] exI[of _ "p # es"]) (auto simp: image_image)
  qed
qed

lemma tab_add_entry_refines_witness:
  "\<exists>r t' es'. tab_xxx_add_entry 1 2 3 9 two_entry_tab = Some (r, t') \<and> tab_inv 2 t' es' {#} \<and>
     (\<exists>i. r = Inr i \<and> table_map (entries t') es' = [(1, 2, 3) \<mapsto> (i, 9)])"
proof -
  have "{} \<noteq> Buf ` {..<2}" by (simp add: lessThan_empty_iff)
  moreover have "table_map (entries two_entry_tab) [] = Map.empty" by (simp add: table_map_def)
  moreover obtain r t' es' where "tab_xxx_add_entry 1 2 3 9 two_entry_tab = Some (r, t')"
      "tab_inv 2 t' es' {#}"
      "case table_map (entries two_entry_tab) [] (1, 2, 3) of
       Some _ \<Rightarrow> r = Inl EEXIST \<and> t' = two_entry_tab
     | None \<Rightarrow> if set [] \<union> set_mset {#} = Buf ` {..<2} then r = Inl ENOMEM \<and> t' = two_entry_tab
         else \<exists>i. r = Inr i \<and> i \<notin> id_of ` entries two_entry_tab ` set [] \<and>
           table_map (entries t') es' = (table_map (entries two_entry_tab) [])((1, 2, 3) \<mapsto> (i, 9))"
    using tab_add_entry_refines[OF two_entry_tab_inv, of 1 2 3 9] by auto
  ultimately show ?thesis by (intro exI[of _ r] exI[of _ t'] exI[of _ es']) simp
qed

text \<open>C7: \<open>tab_xxx_del_entry_by_key\<close> refines the deletion of a key: an absent key is
  refused and nothing changes; a present one leaves the map, and the entry's buffer
  stays allocated with its id, key and data unchanged as long as a caller holds a
  reference to it.\<close>

theorem tab_del_entry_refines:
  assumes "tab_inv num t es refs"
  shows "\<exists>r t' es'. tab_xxx_del_entry_by_key a b c t = Some (r, t') \<and> tab_inv num t' es' refs \<and>
    (case table_map (entries t) es (a, b, c) of
       None \<Rightarrow> r = Inl ESRCH \<and> t' = t
     | Some _ \<Rightarrow> r = Inr () \<and> table_map (entries t') es' = (table_map (entries t) es)((a, b, c) := None) \<and>
         (\<forall>p. key_of (entries t' p) = key_of (entries t p) \<and> id_of (entries t' p) = id_of (entries t p) \<and>
              priv_data (entries t' p) = priv_data (entries t p)))"
proof -
  let ?p = "lookup (\<lambda>p. key_of (entries t p) = (a, b, c)) es"
  have core: "tab_core num t es refs" using assms by (simp add: tab_inv_def)
  note spec = tab_del_entry_by_key_spec[OF assms refl, of a b c]
  have nil: "?p = NullPtr \<longleftrightarrow> table_map (entries t) es (a, b, c) = None"
    unfolding lookup_NullPtr[OF tab_core_bufs(4)[OF core]] table_map_None by (auto simp: image_iff)
  show ?thesis
  proof (cases "?p = NullPtr")
    case True
    with nil have "table_map (entries t) es (a, b, c) = None" by simp
    with spec(1)[OF True] assms show ?thesis by auto
  next
    case False
    then have p: "?p \<in> set es" "key_of (entries t ?p) = (a, b, c)" using lookup_in[OF False] by auto
    from spec(2)[OF False] obtain t' where s:
      "tab_xxx_del_entry_by_key a b c t = Some (Inr (), t')" "tab_inv num t' (remove1 ?p es) refs"
      "entries t' = (entries t)(?p := (entries t ?p)\<lparr>ref_cnt := ref_cnt (entries t ?p) - 1\<rparr>)"
      by blast
    have "table_map (entries t') (remove1 ?p es) = table_map (entries t) (remove1 ?p es)"
      by (rule table_map_cong) (use s(3) in auto)
    also have "\<dots> = (table_map (entries t) es)((a, b, c) := None)"
      using table_map_remove1[OF tab_core_bufs(2)[OF core] _ p(1), of "entries t"] core p(2)
      by (simp add: tab_core_def tab_keys_def)
    finally have m: "table_map (entries t') (remove1 ?p es) = (table_map (entries t) es)((a, b, c) := None)" .
    from False nil obtain x where x: "table_map (entries t) es (a, b, c) = Some x" by auto
    have keep: "key_of (entries t' p) = key_of (entries t p) \<and> id_of (entries t' p) = id_of (entries t p) \<and>
        priv_data (entries t' p) = priv_data (entries t p)" for p
      using s(3) by simp
    show ?thesis
      by (intro exI[of _ "Inr ()"] exI[of _ t'] exI[of _ "remove1 ?p es"])
        (use s(1,2) m x keep in simp)
  qed
qed

lemma tab_del_entry_refines_witness:
  "\<exists>t r t' es'. tab_xxx_del_entry_by_key 1 2 3 t = Some (r, t') \<and> r = Inr () \<and>
     tab_inv 2 t' es' {#} \<and> table_map (entries t') es' (1, 2, 3) = None"
proof -
  obtain t p where t: "tab_inv 2 t [p] {#}" "key_of (entries t p) = (1, 2, 3)"
    using one_entry_tab by blast
  then have "table_map (entries t) [p] (1, 2, 3) = Some (id_of (entries t p), priv_data (entries t p))"
    by (simp add: table_map_def)
  with tab_del_entry_refines[OF t(1), of 1 2 3] show ?thesis by fastforce
qed

lemma tab_get_entry_facts:
  assumes "tab_inv num t es refs" and "size refs < 2 ^ 32 - 2"
  shows "\<exists>p t'. tab_xxx_get_entry_by_key a b c t = Some (p, t') \<and>
      tab_inv num t' es (take_ref p refs) \<and>
      (p = NullPtr \<longleftrightarrow> table_map (entries t) es (a, b, c) = None) \<and>
      (p \<noteq> NullPtr \<longrightarrow> p \<in> set es \<and> key_of (entries t p) = (a, b, c) \<and>
         ref_cnt (entries t' p) = ref_cnt (entries t p) + 1)"
    and "\<exists>p t'. tab_xxx_get_entry_by_id i t = Some (p, t') \<and>
      tab_inv num t' es (take_ref p refs) \<and>
      (p = NullPtr \<longleftrightarrow> i \<notin> id_of ` entries t ` set es) \<and>
      (p \<noteq> NullPtr \<longrightarrow> p \<in> set es \<and> id_of (entries t p) = i \<and>
         ref_cnt (entries t' p) = ref_cnt (entries t p) + 1)"
proof -
  have core: "tab_core num t es refs" using assms by (simp add: tab_inv_def)
  have rc: "unat (ref_cnt (entries t (lookup P es))) < 2 ^ 32 - 1" if "lookup P es \<noteq> NullPtr" for P
    using tab_ref_bound[OF assms(1), of "lookup P es"] lookup_in[OF that] assms(2) by auto
  let ?P = "\<lambda>p. key_of (entries t p) = (a, b, c)" and ?Q = "\<lambda>p. id_of (entries t p) = i"
  have nilk: "lookup ?P es = NullPtr \<longleftrightarrow> table_map (entries t) es (a, b, c) = None"
    unfolding lookup_NullPtr[OF tab_core_bufs(4)[OF core]] table_map_None by (auto simp: image_iff)
  have nili: "lookup ?Q es = NullPtr \<longleftrightarrow> i \<notin> id_of ` entries t ` set es"
    unfolding lookup_NullPtr[OF tab_core_bufs(4)[OF core]] by (auto simp: image_iff)
  from tab_get_entry_by_key_spec[OF assms(1) refl rc] obtain p t' where k: "p = lookup ?P es"
    "tab_xxx_get_entry_by_key a b c t = Some (p, t')" "tab_inv num t' es (take_ref p refs)"
    "p \<noteq> NullPtr \<longrightarrow> t' = upd_entry p (\<lambda>e. e\<lparr>ref_cnt := ref_cnt e + 1\<rparr>) t"
    unfolding take_ref_def by blast
  then show "\<exists>p t'. tab_xxx_get_entry_by_key a b c t = Some (p, t') \<and>
      tab_inv num t' es (take_ref p refs) \<and>
      (p = NullPtr \<longleftrightarrow> table_map (entries t) es (a, b, c) = None) \<and>
      (p \<noteq> NullPtr \<longrightarrow> p \<in> set es \<and> key_of (entries t p) = (a, b, c) \<and>
         ref_cnt (entries t' p) = ref_cnt (entries t p) + 1)"
    using nilk lookup_in[of ?P es] by (intro exI[of _ p] exI[of _ t']) auto
  from tab_get_entry_by_id_spec[OF assms(1) refl rc] obtain q u where i: "q = lookup ?Q es"
    "tab_xxx_get_entry_by_id i t = Some (q, u)" "tab_inv num u es (take_ref q refs)"
    "q \<noteq> NullPtr \<longrightarrow> u = upd_entry q (\<lambda>e. e\<lparr>ref_cnt := ref_cnt e + 1\<rparr>) t"
    unfolding take_ref_def by blast
  then show "\<exists>p t'. tab_xxx_get_entry_by_id i t = Some (p, t') \<and>
      tab_inv num t' es (take_ref p refs) \<and>
      (p = NullPtr \<longleftrightarrow> i \<notin> id_of ` entries t ` set es) \<and>
      (p \<noteq> NullPtr \<longrightarrow> p \<in> set es \<and> id_of (entries t p) = i \<and>
         ref_cnt (entries t' p) = ref_cnt (entries t p) + 1)"
    using nili lookup_in[of ?Q es] by (intro exI[of _ q] exI[of _ u]) auto
qed

text \<open>A lookup by key or by id returns the entry of the table that has the key or the
  id, with one more reference, or \<open>NULL\<close> when there is none; it changes no other field
  and keeps the invariant, so the entry cannot be freed until it is put.\<close>

theorem tab_get_entry_refines:
  assumes "tab_inv num t es refs" and "size refs < 2 ^ 32 - 2"
  shows "(\<exists>p t'. tab_xxx_get_entry_by_key a b c t = Some (p, t') \<and>
      tab_inv num t' es (take_ref p refs) \<and>
      (p = NullPtr \<longleftrightarrow> table_map (entries t) es (a, b, c) = None) \<and>
      (p \<noteq> NullPtr \<longrightarrow> p \<in> set es \<and> key_of (entries t p) = (a, b, c) \<and>
         ref_cnt (entries t' p) = ref_cnt (entries t p) + 1)) \<and>
    (\<exists>p t'. tab_xxx_get_entry_by_id i t = Some (p, t') \<and>
      tab_inv num t' es (take_ref p refs) \<and>
      (p = NullPtr \<longleftrightarrow> i \<notin> id_of ` entries t ` set es) \<and>
      (p \<noteq> NullPtr \<longrightarrow> p \<in> set es \<and> id_of (entries t p) = i \<and>
         ref_cnt (entries t' p) = ref_cnt (entries t p) + 1))"
  by (intro conjI tab_get_entry_facts[OF assms])

lemma tab_get_entry_refines_witness:
  "\<exists>t p q t'. tab_inv 2 t [p] {#} \<and> tab_xxx_get_entry_by_key 1 2 3 t = Some (q, t') \<and>
     q \<noteq> NullPtr \<and> tab_inv 2 t' [p] {#q#}"
proof -
  obtain t p where t: "tab_inv 2 t [p] {#}" "key_of (entries t p) = (1, 2, 3)"
    using one_entry_tab by blast
  then have m: "table_map (entries t) [p] (1, 2, 3) \<noteq> None" by (simp add: table_map_def)
  obtain q t' where q: "tab_xxx_get_entry_by_key 1 2 3 t = Some (q, t')"
     "tab_inv 2 t' [p] (take_ref q {#})" "q = NullPtr \<longleftrightarrow> table_map (entries t) [p] (1, 2, 3) = None"
    using tab_get_entry_refines[OF t(1), of 1 2 3 0] by auto
  with m have "q \<noteq> NullPtr" by simp
  with q(2) have "tab_inv 2 t' [p] {#q#}" by (simp add: take_ref_def)
  with \<open>q \<noteq> NullPtr\<close> q(1) t(1) show ?thesis by blast
qed

text \<open>C8: Let the table have fewer than 65536 buffers (else the search for a free id may not end) and
  let the references held at the start and the calls be fewer than \<open>2 ^ 32 - 2\<close> in all (else a
  32-bit counter could wrap). Whatever calls clients then make, as long as they put only references they hold, every
  call returns with all locks released and the invariant intact; every reference still
  held points to a buffer that is not on the pool's free list and has a positive
  counter: nothing is used after it is freed, freed twice or lost.\<close>

theorem tab_run_memory_safe:
  assumes "tab_inv num t es refs" and "num < 2 ^ 16" and "size refs + length cs < 2 ^ 32 - 2"
  shows "\<exists>t' es' refs' fs. tab_run cs t refs = Some (t', refs') \<and> tab_inv num t' es' refs' \<and>
    mm_lists (mem_pool t') fs [] \<and>
    (\<forall>p \<in># refs'. \<exists>b<num. p = Buf b \<and> b \<notin> set fs \<and> 0 < ref_cnt (entries t' p)) \<and>
    set es' \<union> set_mset refs' \<union> Buf ` set fs = Buf ` {..<num}"
proof -
  obtain t' es' refs' where r: "tab_run cs t refs = Some (t', refs')" "tab_inv num t' es' refs'"
    using tab_run_inv[OF assms] by blast
  obtain fs where fs: "mm_ok num (mem_pool t') fs []" "tab_refs num (entries t') es' refs' fs"
    using r(2) by (auto simp: tab_inv_def tab_core_def)
  have "set fs \<subseteq> {..<num}" using mm_pool.inv_free[OF fs(1)] by simp
  with fs(2) have "set es' \<union> set_mset refs' \<union> Buf ` set fs = Buf ` {..<num}"
    by (auto simp: tab_refs_def)
  moreover have "\<exists>b<num. p = Buf b \<and> b \<notin> set fs \<and> 0 < ref_cnt (entries t' p)" if "p \<in># refs'" for p
  proof -
    have "unat (ref_cnt (entries t' p)) = (if p \<in> set es' then 1 else 0) + count refs' p"
      "p \<in> Buf ` ({..<num} - set fs)"
      using fs(2) that by (auto simp: tab_refs_def)
    moreover have "count refs' p \<noteq> 0" using that by (simp add: not_in_iff)
    ultimately show ?thesis by (auto simp: word_gt_0 unat_eq_0[symmetric])
  qed
  ultimately show ?thesis using r fs(1) unfolding mm_ok_def by blast
qed

lemma tab_run_memory_safe_witness:
  "\<exists>t' es' refs' fs. tab_run [AddEntry 1 2 3 4, GetByKey 1 2 3, DelByKey 1 2 3, AddEntry 5 6 7 8,
      AddEntry 9 9 9 9] two_entry_tab {#} = Some (t', refs') \<and> tab_inv 2 t' es' refs' \<and>
    mm_lists (mem_pool t') fs [] \<and>
    (\<forall>p \<in># refs'. \<exists>b<2. p = Buf b \<and> b \<notin> set fs \<and> 0 < ref_cnt (entries t' p)) \<and>
    set es' \<union> set_mset refs' \<union> Buf ` set fs = Buf ` {..<2}"
  by (rule tab_run_memory_safe[OF two_entry_tab_inv]) simp_all

lemma word_65536: "(65536 :: u16) = 0"
  by (transfer, simp)

lemma tab_gen_id_facts:
  assumes "tab_links t es" and "held t \<subseteq> {AddDelLock}" and "NullPtr \<notin> set es"
  shows "length es < 2 ^ 16 \<Longrightarrow>
      \<exists>i n. gen_id t = Some (i, t\<lparr>next_id := n\<rparr>) \<and> i \<notin> id_of ` entries t ` set es"
    and "id_of ` entries t ` set es = UNIV \<Longrightarrow> gen_id t = None"
    and "next_id t = 65535 \<Longrightarrow> {65535, 0} \<inter> id_of ` entries t ` set es = {} \<Longrightarrow>
      \<exists>t1 t2. gen_id t = Some (65535, t1) \<and> gen_id t1 = Some (0, t2)"
proof -
  show "length es < 2 ^ 16 \<Longrightarrow>
      \<exists>i n. gen_id t = Some (i, t\<lparr>next_id := n\<rparr>) \<and> i \<notin> id_of ` entries t ` set es"
    using gen_id_fresh[OF assms] by (simp add: image_image)
  show "id_of ` entries t ` set es = UNIV \<Longrightarrow> gen_id t = None"
    using gen_id_loop_result[OF _ assms]
    by (cases "gen_id_loop t") (auto simp: gen_id_def image_image)
  assume n: "next_id t = 65535" "{65535, 0} \<inter> id_of ` entries t ` set es = {}"
  have stay: "gen_id_loop u = Some u"
    if "tab_links u es" "held u \<subseteq> {AddDelLock}" "next_id u \<notin> ids u es" for u
    using that assms(3) by (subst gen_id_loop.simps) (simp add: search_entry_by_id_eq lookup_id)
  let ?t1 = "t\<lparr>next_id := 0\<rparr>"
  have "gen_id_loop t = Some t" by (rule stay) (use n assms in \<open>auto simp: image_image\<close>)
  moreover have "gen_id_loop ?t1 = Some ?t1"
    by (rule stay) (use n assms in \<open>auto simp: image_image tab_links_next_id\<close>)
  ultimately show "\<exists>t1 t2. gen_id t = Some (65535, t1) \<and> gen_id t1 = Some (0, t2)"
    using n(1) by (simp add: gen_id_def Let_def bump_next_id_eq word_65536)
qed

text \<open>\<open>gen_id\<close> returns an id that no entry has whenever fewer than 65536 entries are in
  the table, but its wrap test compares a 16-bit value with 65535 and never holds: after
  65535 it issues 0, below \<open>MIN_ENTRY_ID\<close>, and when every id is taken it never returns.\<close>

theorem tab_gen_id_correct:
  assumes "tab_links t es" and "held t \<subseteq> {AddDelLock}" and "NullPtr \<notin> set es"
  shows "(length es < 2 ^ 16 \<longrightarrow>
      (\<exists>i n. gen_id t = Some (i, t\<lparr>next_id := n\<rparr>) \<and> i \<notin> id_of ` entries t ` set es)) \<and>
    (id_of ` entries t ` set es = UNIV \<longrightarrow> gen_id t = None) \<and>
    (next_id t = 65535 \<and> {65535, 0} \<inter> id_of ` entries t ` set es = {} \<longrightarrow>
      (\<exists>t1 t2. gen_id t = Some (65535, t1) \<and> gen_id t1 = Some (0, t2)))"
  using tab_gen_id_facts[OF assms] by blast

lemma tab_gen_id_correct_witness:
  "(\<exists>i n. gen_id two_entry_tab = Some (i, two_entry_tab\<lparr>next_id := n\<rparr>)) \<and>
   (\<exists>t1 t2. gen_id (two_entry_tab\<lparr>next_id := 65535\<rparr>) = Some (65535, t1) \<and> gen_id t1 = Some (0, t2))"
proof -
  have t: "tab_links two_entry_tab []" "held two_entry_tab = {}"
    using two_entry_tab_inv by (auto simp: tab_inv_def tab_core_def)
  then have u: "tab_links (two_entry_tab\<lparr>next_id := 65535\<rparr>) []"
      "held (two_entry_tab\<lparr>next_id := 65535\<rparr>) \<subseteq> {AddDelLock}"
    by (simp_all add: tab_links_next_id)
  show ?thesis
    using tab_gen_id_correct[OF t(1)] tab_gen_id_correct[OF u] t(2) by auto
qed

end
