(* ===== verification/PcQueue.thy ===== *)
theory PcQueue
  imports Prelude "HOL-Library.Sublist"
begin

text \<open>
  \<open>libs/app_utils/src/pc_queue.c\<close> and \<open>pc_queue.h\<close>: the producer-consumer ring. A slot
  is handed over by its \<open>valid\<close> field alone, there is no lock. The file has the two
  operations as they run to completion, their contract as the locale \<open>bounded_fifo\<close>
  (a queue of at most \<open>cap\<close> items), and the same code as single memory accesses of one
  producer and one consumer that interleave.

  The pointers into \<open>p_at_entries\<close> are indices; a pointer value is a 64-bit word and
  \<open>NULL\<close> is 0. \<open>None\<close> is an access outside the allocated memory.
\<close>

section \<open>The code\<close>

record t_pc_que_entry =
  valid :: u32
  para_int :: u32
  para :: u64
  data :: u64

record t_pc_que =
  nr_entry :: u32
  pt_head :: nat
  pt_tail :: nat
  pt_p_ptr :: nat
  pt_c_ptr :: nat
  p_at_entries :: "t_pc_que_entry list"

definition zero_entry :: t_pc_que_entry where
  "zero_entry = \<lparr>valid = 0, para_int = 0, para = 0, data = 0\<rparr>"

text \<open>
  \<open>create_pc_que\<close>. The length is computed in \<open>size_t\<close> and stored in an \<open>int\<close>; a negative
  one is a request that \<open>malloc\<close> refuses. The header is 48 bytes, an entry 32.
  \<open>mem_ok\<close> is the outcome of \<open>malloc\<close> otherwise; \<open>Some None\<close> is the \<open>NULL\<close> the code returns.
\<close>

definition pc_que_total_size :: "u32 \<Rightarrow> u32" where
  "pc_que_total_size nr = of_nat (48 + unat nr * 32)"

definition create_pc_que :: "bool \<Rightarrow> u32 \<Rightarrow> t_pc_que option option" where
  "create_pc_que mem_ok nr =
     (let total_size = sint (pc_que_total_size nr)
      in if total_size < 0 \<or> \<not> mem_ok then Some None
         else if total_size < 48 then None
         else Some (Some \<lparr>nr_entry = nr, pt_head = 0, pt_tail = unat (nr - 1),
                pt_p_ptr = 0, pt_c_ptr = 0,
                p_at_entries = replicate (nat ((total_size - 48) div 32)) zero_entry\<rparr>))"

text \<open>\<open>ptr == pt_tail ? pt_head : ptr + 1\<close>.\<close>

definition advance :: "t_pc_que \<Rightarrow> nat \<Rightarrow> nat" where
  "advance q ptr = (if ptr = pt_tail q then pt_head q else ptr + 1)"

text \<open>
  \<open>pc_que_outq_try\<close>: the returned pointer, and what is stored through \<open>para_int\<close> and
  \<open>para\<close> when the caller passes them (\<open>None\<close>: nothing is stored).
\<close>

definition pc_que_outq_try ::
    "t_pc_que \<Rightarrow> ((u64 \<times> (u32 \<times> u64) option) \<times> t_pc_que) option" where
  "pc_que_outq_try q =
     (if pt_c_ptr q < length (p_at_entries q) then
        let e = p_at_entries q ! pt_c_ptr q
        in if valid e = 0 then Some ((0, None), q)
           else let q1 = q\<lparr>p_at_entries := (p_at_entries q)[pt_c_ptr q := e\<lparr>valid := 0\<rparr>]\<rparr>
                in Some ((data e, Some (para_int e, para e)), q1\<lparr>pt_c_ptr := advance q1 (pt_c_ptr q1)\<rparr>)
      else None)"

definition pc_que_enq_try :: "u64 \<Rightarrow> u32 \<Rightarrow> u64 \<Rightarrow> t_pc_que \<Rightarrow> (int \<times> t_pc_que) option" where
  "pc_que_enq_try d pi pa q =
     (if pt_p_ptr q < length (p_at_entries q) then
        let e = p_at_entries q ! pt_p_ptr q
        in if valid e \<noteq> 0 then Some (1, q)
           else let e1 = e\<lparr>data := d, para_int := pi, para := pa, valid := 1\<rparr>;
                    q1 = q\<lparr>p_at_entries := (p_at_entries q)[pt_p_ptr q := e1]\<rparr>
                in Some (0, q1\<lparr>pt_p_ptr := advance q1 (pt_p_ptr q1)\<rparr>)
      else None)"

section \<open>The contract of a bounded queue\<close>

locale bounded_fifo =
  fixes inv :: "'q \<Rightarrow> nat \<Rightarrow> 'a list \<Rightarrow> bool"
    and enq :: "'a \<Rightarrow> 'q \<Rightarrow> (bool \<times> 'q) option"
    and deq :: "'q \<Rightarrow> ('a option \<times> 'q) option"
  assumes inv_bound: "inv q cap xs \<Longrightarrow> length xs \<le> cap"
    and enq_room: "inv q cap xs \<Longrightarrow> length xs < cap \<Longrightarrow>
       \<exists>q'. enq x q = Some (True, q') \<and> inv q' cap (xs @ [x])"
    and enq_full: "inv q cap xs \<Longrightarrow> length xs = cap \<Longrightarrow> enq x q = Some (False, q)"
    and deq_item: "inv q cap (x # xs) \<Longrightarrow> \<exists>q'. deq q = Some (Some x, q') \<and> inv q' cap xs"
    and deq_empty: "inv q cap [] \<Longrightarrow> deq q = Some (None, q)"

datatype 'a fifo_call = Enq 'a | Deq

text \<open>A run of calls: the items accepted and the items delivered, in order.\<close>

fun fifo_run ::
    "('a \<Rightarrow> 'q \<Rightarrow> (bool \<times> 'q) option) \<Rightarrow> ('q \<Rightarrow> ('a option \<times> 'q) option) \<Rightarrow>
     'a fifo_call list \<Rightarrow> 'q \<Rightarrow> ('a list \<times> 'a list \<times> 'q) option" where
  "fifo_run enq deq [] q = Some ([], [], q)"
| "fifo_run enq deq (Enq x # cs) q =
     (case enq x q of None \<Rightarrow> None
      | Some (ok, q') \<Rightarrow>
          (case fifo_run enq deq cs q' of None \<Rightarrow> None
           | Some (ins, outs, q'') \<Rightarrow> Some ((if ok then x # ins else ins), outs, q'')))"
| "fifo_run enq deq (Deq # cs) q =
     (case deq q of None \<Rightarrow> None
      | Some (r, q') \<Rightarrow>
          (case fifo_run enq deq cs q' of None \<Rightarrow> None
           | Some (ins, outs, q'') \<Rightarrow>
               Some (ins, (case r of None \<Rightarrow> outs | Some x \<Rightarrow> x # outs), q'')))"

context bounded_fifo
begin

lemma fifo_run_order:
  assumes "inv q cap xs"
  shows "\<exists>ins outs q' ys. fifo_run enq deq cs q = Some (ins, outs, q') \<and> inv q' cap ys \<and>
     xs @ ins = outs @ ys"
  using assms
proof (induction cs arbitrary: q xs)
  case Nil
  then show ?case by auto
next
  case (Cons c cs)
  show ?case
  proof (cases c)
    case (Enq x)
    show ?thesis
    proof (cases "length xs < cap")
      case True
      with Cons.prems obtain q' where e: "enq x q = Some (True, q')" "inv q' cap (xs @ [x])"
        using enq_room by blast
      from Cons.IH[OF e(2)] e(1) Enq show ?thesis by fastforce
    next
      case False
      with Cons.prems inv_bound have "length xs = cap" by fastforce
      with Cons.prems have "enq x q = Some (False, q)" using enq_full by blast
      with Cons.IH[OF Cons.prems] Enq show ?thesis by fastforce
    qed
  next
    case Deq
    show ?thesis
    proof (cases xs)
      case Nil
      with Cons.prems have "deq q = Some (None, q)" using deq_empty by blast
      with Cons.IH[OF Cons.prems] Deq show ?thesis by fastforce
    next
      case (Cons x xs')
      with Cons.prems obtain q' where d: "deq q = Some (Some x, q')" "inv q' cap xs'"
        using deq_item by blast
      from Cons.IH[OF d(2)] d(1) Deq Cons show ?thesis by fastforce
    qed
  qed
qed

end

section \<open>The ring as a window of slots\<close>

text \<open>
  \<open>ring es base xs\<close>: counting slots from \<open>base\<close> around the ring, the first
  \<open>length xs\<close> are valid and hold \<open>xs\<close>, the others are not valid.
\<close>

type_synonym item = "u64 \<times> u32 \<times> u64"

definition item_of :: "t_pc_que_entry \<Rightarrow> item" where
  "item_of e = (data e, para_int e, para e)"

definition ring :: "t_pc_que_entry list \<Rightarrow> nat \<Rightarrow> item list \<Rightarrow> bool" where
  "ring es base xs \<longleftrightarrow> es \<noteq> [] \<and> length xs \<le> length es \<and>
     (\<forall>i < length es. let e = es ! ((base + i) mod length es)
        in if i < length xs then valid e \<noteq> 0 \<and> item_of e = xs ! i else valid e = 0)"

lemma ringD:
  "ring es base xs \<Longrightarrow> i < length xs \<Longrightarrow>
     valid (es ! ((base + i) mod length es)) \<noteq> 0 \<and> item_of (es ! ((base + i) mod length es)) = xs ! i"
  "ring es base xs \<Longrightarrow> length xs \<le> i \<Longrightarrow> i < length es \<Longrightarrow>
     valid (es ! ((base + i) mod length es)) = 0"
  by (auto simp: ring_def Let_def dest: spec[of _ i])

lemma mod_window_inj:
  fixes n :: nat
  assumes "(base + i) mod n = (base + j) mod n" and "i < n" and "j < n"
  shows "i = j"
proof (cases "i \<le> j")
  case True
  then have "n dvd (base + j) - (base + i)"
    using mod_eq_dvd_iff_nat[of "base + i" "base + j" n] assms(1) by simp
  with assms(3) True show ?thesis by (auto dest: dvd_imp_le)
next
  case False
  then have "n dvd (base + i) - (base + j)"
    using mod_eq_dvd_iff_nat[of "base + j" "base + i" n] assms(1) by simp
  with assms(2) False show ?thesis by (auto dest: dvd_imp_le)
qed

lemma ring_put:
  assumes "ring es base xs" and "length xs < length es" and "valid e \<noteq> 0" and "item_of e = x"
  shows "ring (es[(base + length xs) mod length es := e]) base (xs @ [x])"
  unfolding ring_def
proof (intro conjI allI impI)
  fix i assume i: "i < length (es[(base + length xs) mod length es := e])"
  have m: "(base + length xs) mod length es < length es" using assms(2) by (intro mod_less_divisor) linarith
  show "let f = es[(base + length xs) mod length es := e] !
            ((base + i) mod length (es[(base + length xs) mod length es := e]))
        in if i < length (xs @ [x]) then valid f \<noteq> 0 \<and> item_of f = (xs @ [x]) ! i else valid f = 0"
  proof (cases "i = length xs")
    case True
    then show ?thesis using m assms(3,4) by (simp add: Let_def)
  next
    case False
    then have "(base + i) mod length es \<noteq> (base + length xs) mod length es"
      using mod_window_inj[of base i "length es" "length xs"] i assms(2) by auto
    then show ?thesis using False i ringD[OF assms(1), of i] by (auto simp: Let_def nth_append)
  qed
qed (use assms in \<open>auto simp: ring_def\<close>)

lemma ring_take:
  assumes "ring es base (x # xs)" and "valid e = 0"
  shows "ring (es[base mod length es := e]) (Suc base) xs"
  unfolding ring_def
proof (intro conjI allI impI)
  have n: "0 < length es" "Suc (length xs) \<le> length es" using assms(1) by (auto simp: ring_def)
  then have m: "base mod length es < length es" by simp
  fix i assume i: "i < length (es[base mod length es := e])"
  show "let f = es[base mod length es := e] !
            ((Suc base + i) mod length (es[base mod length es := e]))
        in if i < length xs then valid f \<noteq> 0 \<and> item_of f = xs ! i else valid f = 0"
  proof (cases "Suc i = length es")
    case True
    then have "(Suc base + i) mod length es = base mod length es"
      by (metis add_Suc_shift mod_add_self2)
    with True n m assms(2) show ?thesis by (simp add: Let_def)
  next
    case False
    then have s: "Suc i < length es" using i by simp
    then have "(base + Suc i) mod length es \<noteq> (base + 0) mod length es"
      using mod_window_inj[of base "Suc i" "length es" 0] n(1) by auto
    then show ?thesis using s ringD[OF assms(1), of "Suc i"] by (auto simp: Let_def)
  qed
qed (use assms in \<open>auto simp: ring_def\<close>)

lemma ring_hd:
  "ring es base (x # xs) \<Longrightarrow>
     valid (es ! (base mod length es)) \<noteq> 0 \<and> item_of (es ! (base mod length es)) = x"
  using ringD(1)[of es base "x # xs" 0] by simp

lemma ring_nil: "ring es base [] \<Longrightarrow> valid (es ! (base mod length es)) = 0"
  using ringD(2)[of es base "[]" 0] by (auto simp: ring_def)

lemma ring_room:
  assumes "ring es base xs"
  shows "valid (es ! ((base + length xs) mod length es)) = 0 \<longleftrightarrow> length xs < length es"
proof (cases "length xs < length es")
  case True
  then show ?thesis using ringD(2)[OF assms, of "length xs"] by simp
next
  case False
  then have "length xs = length es" "xs \<noteq> []" using assms by (auto simp: ring_def)
  then show ?thesis using ringD(1)[OF assms, of 0] assms by (auto simp: ring_def)
qed

definition que_frame :: "t_pc_que \<Rightarrow> bool" where
  "que_frame q \<longleftrightarrow> pt_head q = 0 \<and> pt_tail q = length (p_at_entries q) - 1"

definition que_ok :: "t_pc_que \<Rightarrow> nat \<Rightarrow> item list \<Rightarrow> bool" where
  "que_ok q cap xs \<longleftrightarrow> que_frame q \<and> cap = length (p_at_entries q) \<and>
     (\<exists>base. ring (p_at_entries q) base xs \<and> pt_c_ptr q = base mod cap \<and>
        pt_p_ptr q = (base + length xs) mod cap)"

lemma advance_mod:
  assumes "que_frame q" and "p_at_entries q \<noteq> []"
  shows "advance q (k mod length (p_at_entries q)) = Suc k mod length (p_at_entries q)"
proof -
  have "0 < length (p_at_entries q)" using assms(2) by simp
  then show ?thesis using assms(1)
    by (auto simp: advance_def que_frame_def mod_Suc)
qed

lemma que_frame_upd:
  "que_frame (q\<lparr>p_at_entries := (p_at_entries q)[i := e]\<rparr>) = que_frame q"
  "que_frame (q\<lparr>pt_p_ptr := p\<rparr>) = que_frame q" "que_frame (q\<lparr>pt_c_ptr := p\<rparr>) = que_frame q"
  by (simp_all add: que_frame_def)

lemma advance_upd:
  "advance (q\<lparr>p_at_entries := es\<rparr>) p = advance q p"
  by (simp add: advance_def)

text \<open>The calls with the interface of the contract.\<close>

definition que_enq :: "item \<Rightarrow> t_pc_que \<Rightarrow> (bool \<times> t_pc_que) option" where
  "que_enq x q = (case x of (d, pi, pa) \<Rightarrow>
     map_option (\<lambda>(r, q'). (r = 0, q')) (pc_que_enq_try d pi pa q))"

definition que_deq :: "t_pc_que \<Rightarrow> (item option \<times> t_pc_que) option" where
  "que_deq q = map_option (\<lambda>((d, out), q'). (map_option (\<lambda>(pi, pa). (d, pi, pa)) out, q'))
     (pc_que_outq_try q)"

lemma que_ok_in_range:
  "que_ok q cap xs \<Longrightarrow> pt_p_ptr q < length (p_at_entries q) \<and> pt_c_ptr q < length (p_at_entries q) \<and>
     p_at_entries q \<noteq> []"
  by (auto simp: que_ok_def ring_def)

lemma que_enq_room:
  assumes "que_ok q cap xs" and "length xs < cap"
  shows "\<exists>q'. que_enq x q = Some (True, q') \<and> que_ok q' cap (xs @ [x])"
proof -
  obtain base where b: "ring (p_at_entries q) base xs" "pt_c_ptr q = base mod cap"
      "pt_p_ptr q = (base + length xs) mod cap" "que_frame q" "cap = length (p_at_entries q)"
    using assms(1) by (auto simp: que_ok_def)
  obtain d pi pa where x: "x = (d, pi, pa)" by (cases x)
  let ?es = "p_at_entries q" and ?i = "(base + length xs) mod length (p_at_entries q)"
  let ?e = "(?es ! ?i)\<lparr>data := d, para_int := pi, para := pa, valid := 1\<rparr>"
  let ?q1 = "q\<lparr>p_at_entries := ?es[?i := ?e]\<rparr>"
  let ?q' = "?q1\<lparr>pt_p_ptr := Suc (base + length xs) mod cap\<rparr>"
  have "valid (?es ! ?i) = 0" using ring_room[OF b(1)] assms(2) b(5) by simp
  moreover have "advance ?q1 ?i = Suc (base + length xs) mod cap"
    using advance_mod[of q "base + length xs"] b(4,5) que_ok_in_range[OF assms(1)]
    by (simp add: advance_upd)
  ultimately have "que_enq x q = Some (True, ?q')"
    using que_ok_in_range[OF assms(1)] b(3,5)
    by (simp add: que_enq_def x pc_que_enq_try_def Let_def)
  moreover have "ring (?es[?i := ?e]) base (xs @ [x])"
    using assms(2) b(5) by (intro ring_put[OF b(1)]) (auto simp: x item_of_def)
  then have "que_ok ?q' cap (xs @ [x])"
    using b(2-5) by (auto simp: que_ok_def que_frame_upd)
  ultimately show ?thesis by blast
qed

lemma que_enq_full:
  assumes "que_ok q cap xs" and "length xs = cap"
  shows "que_enq x q = Some (False, q)"
proof -
  have "valid (p_at_entries q ! pt_p_ptr q) \<noteq> 0"
    using assms by (auto simp: que_ok_def dest!: ring_room)
  then show ?thesis using que_ok_in_range[OF assms(1)]
    by (cases x) (simp add: que_enq_def pc_que_enq_try_def Let_def)
qed

lemma que_deq_item:
  assumes "que_ok q cap (x # xs)"
  shows "\<exists>q'. que_deq q = Some (Some x, q') \<and> que_ok q' cap xs"
proof -
  obtain base where b: "ring (p_at_entries q) base (x # xs)" "pt_c_ptr q = base mod cap"
      "pt_p_ptr q = (base + length (x # xs)) mod cap" "que_frame q" "cap = length (p_at_entries q)"
    using assms(1) by (auto simp: que_ok_def)
  let ?es = "p_at_entries q" and ?i = "base mod length (p_at_entries q)"
  let ?e = "(?es ! ?i)\<lparr>valid := 0\<rparr>"
  let ?q1 = "q\<lparr>p_at_entries := ?es[?i := ?e]\<rparr>"
  let ?q' = "?q1\<lparr>pt_c_ptr := Suc base mod cap\<rparr>"
  have "valid (?es ! ?i) \<noteq> 0" "item_of (?es ! ?i) = x" using ring_hd[OF b(1)] by auto
  moreover have "advance ?q1 ?i = Suc base mod cap"
    using advance_mod[of q base] b(4,5) que_ok_in_range[OF assms(1)] by (simp add: advance_upd)
  ultimately have "que_deq q = Some (Some x, ?q')"
    using que_ok_in_range[OF assms(1)] b(2,5)
    by (simp add: que_deq_def pc_que_outq_try_def Let_def item_of_def)
  moreover have "ring (?es[?i := ?e]) (Suc base) xs"
    by (intro ring_take[OF b(1)]) simp
  then have "que_ok ?q' cap xs"
    using b(3-5) by (auto simp: que_ok_def que_frame_upd)
  ultimately show ?thesis by blast
qed

lemma que_deq_empty:
  assumes "que_ok q cap []"
  shows "que_deq q = Some (None, q)"
proof -
  have "valid (p_at_entries q ! pt_c_ptr q) = 0"
    using assms ring_nil by (auto simp: que_ok_def)
  then show ?thesis using que_ok_in_range[OF assms(1)]
    by (simp add: que_deq_def pc_que_outq_try_def Let_def)
qed

interpretation pc_que: bounded_fifo que_ok que_enq que_deq
proof unfold_locales
  show "que_ok q cap xs \<Longrightarrow> length xs \<le> cap" for q cap xs
    by (auto simp: que_ok_def ring_def)
qed (use que_enq_room que_enq_full que_deq_item que_deq_empty in auto)

lemma int_range_31:
  "48 + n * 32 < 2 ^ 31 \<Longrightarrow> signed_take_bit (LENGTH(32) - Suc 0) (48 + int n * 32) = 48 + int n * 32"
  by (rule signed_take_bit_int_eq_self) simp_all

lemma create_pc_que_ok:
  assumes "0 < unat nr" and "48 + unat nr * 32 < 2 ^ 31"
  shows "\<exists>q. create_pc_que True nr = Some (Some q) \<and> que_ok q (unat nr) [] \<and>
    length (p_at_entries q) = unat nr"
proof -
  have "pc_que_total_size nr = word_of_int (48 + int (unat nr) * 32)"
    by (simp add: pc_que_total_size_def)
  then have "sint (pc_que_total_size nr) =
      of_int (signed_take_bit (LENGTH(32) - Suc 0) (48 + int (unat nr) * 32))"
    by (simp only: signed_of_int)
  also have "\<dots> = 48 + int (unat nr) * 32"
    by (simp only: int_range_31[OF assms(2)] of_int_eq_id id_apply)
  finally have t: "sint (pc_que_total_size nr) = 48 + int (unat nr) * 32" .
  let ?q = "\<lparr>nr_entry = nr, pt_head = 0, pt_tail = unat (nr - 1), pt_p_ptr = 0, pt_c_ptr = 0,
     p_at_entries = replicate (unat nr) zero_entry\<rparr>"
  have n: "nat ((48 + int m * 32 - 48) div 32) = m" "\<not> 48 + int m * 32 < 0"
      "\<not> 48 + int m * 32 < 48" for m by simp_all
  have "create_pc_que True nr = Some (Some ?q)"
    unfolding create_pc_que_def t Let_def by (simp only: n) simp
  moreover have "ring (replicate (unat nr) zero_entry) 0 []"
    using assms(1) by (auto simp: ring_def zero_entry_def Let_def)
  then have "que_ok ?q (unat nr) []"
    using unat_pred_word[OF assms(1)] by (auto simp: que_ok_def que_frame_def intro!: exI[of _ 0])
  ultimately show ?thesis by simp
qed

section \<open>One producer and one consumer, access by access\<close>

text \<open>
  The accesses of the two functions that can interleave, in program order. The fields
  of a slot other than \<open>valid\<close> are written, and read, as one step: between the check of
  \<open>valid\<close> and its update the slot belongs to one side. \<open>ins\<close> and \<open>outs\<close> record the items
  published and delivered.
\<close>

datatype prod_pc = PIdle | PChecked item | PFilled item | PPublished
datatype cons_pc = CIdle | CChecked | CTaken item | CReleased item

record spsc =
  que :: t_pc_que
  ppc :: prod_pc
  cpc :: cons_pc
  ins :: "item list"
  outs :: "item list"

definition upd_slot :: "nat \<Rightarrow> (t_pc_que_entry \<Rightarrow> t_pc_que_entry) \<Rightarrow> t_pc_que \<Rightarrow> t_pc_que" where
  "upd_slot i f q = q\<lparr>p_at_entries := (p_at_entries q)[i := f (p_at_entries q ! i)]\<rparr>"

definition fill :: "item \<Rightarrow> t_pc_que_entry \<Rightarrow> t_pc_que_entry" where
  "fill x e = (case x of (d, pi, pa) \<Rightarrow> e\<lparr>data := d, para_int := pi, para := pa\<rparr>)"

abbreviation prod_slot :: "spsc \<Rightarrow> t_pc_que_entry" where
  "prod_slot s \<equiv> p_at_entries (que s) ! pt_p_ptr (que s)"

abbreviation cons_slot :: "spsc \<Rightarrow> t_pc_que_entry" where
  "cons_slot s \<equiv> p_at_entries (que s) ! pt_c_ptr (que s)"

inductive spsc_step :: "spsc \<Rightarrow> spsc \<Rightarrow> bool" where
  prod_check: "ppc s = PIdle \<Longrightarrow> valid (prod_slot s) = 0 \<Longrightarrow> spsc_step s (s\<lparr>ppc := PChecked x\<rparr>)"
| prod_fill: "ppc s = PChecked x \<Longrightarrow>
     spsc_step s (s\<lparr>que := upd_slot (pt_p_ptr (que s)) (fill x) (que s), ppc := PFilled x\<rparr>)"
| prod_publish: "ppc s = PFilled x \<Longrightarrow>
     spsc_step s (s\<lparr>que := upd_slot (pt_p_ptr (que s)) (\<lambda>e. e\<lparr>valid := 1\<rparr>) (que s),
        ppc := PPublished, ins := ins s @ [x]\<rparr>)"
| prod_advance: "ppc s = PPublished \<Longrightarrow>
     spsc_step s (s\<lparr>que := (que s)\<lparr>pt_p_ptr := advance (que s) (pt_p_ptr (que s))\<rparr>, ppc := PIdle\<rparr>)"
| cons_check: "cpc s = CIdle \<Longrightarrow> valid (cons_slot s) \<noteq> 0 \<Longrightarrow> spsc_step s (s\<lparr>cpc := CChecked\<rparr>)"
| cons_take: "cpc s = CChecked \<Longrightarrow> spsc_step s (s\<lparr>cpc := CTaken (item_of (cons_slot s))\<rparr>)"
| cons_release: "cpc s = CTaken x \<Longrightarrow>
     spsc_step s (s\<lparr>que := upd_slot (pt_c_ptr (que s)) (\<lambda>e. e\<lparr>valid := 0\<rparr>) (que s), cpc := CReleased x\<rparr>)"
| cons_advance: "cpc s = CReleased x \<Longrightarrow>
     spsc_step s (s\<lparr>que := (que s)\<lparr>pt_c_ptr := advance (que s) (pt_c_ptr (que s))\<rparr>,
        cpc := CIdle, outs := outs s @ [x]\<rparr>)"

abbreviation spsc_steps where "spsc_steps \<equiv> spsc_step\<^sup>*\<^sup>*"

definition prod_inv :: "spsc \<Rightarrow> nat \<Rightarrow> item list \<Rightarrow> bool" where
  "prod_inv s base xs \<longleftrightarrow> (let n = length (p_at_entries (que s)); p = pt_p_ptr (que s) in
     (case ppc s of
        PIdle \<Rightarrow> p = (base + length xs) mod n
      | PChecked x \<Rightarrow> p = (base + length xs) mod n \<and> length xs < n
      | PFilled x \<Rightarrow> p = (base + length xs) mod n \<and> length xs < n \<and> item_of (prod_slot s) = x
      | PPublished \<Rightarrow> \<exists>k. base + length xs = Suc k \<and> p = k mod n))"

definition cons_inv :: "spsc \<Rightarrow> nat \<Rightarrow> item list \<Rightarrow> bool" where
  "cons_inv s base xs \<longleftrightarrow> (let n = length (p_at_entries (que s)); c = pt_c_ptr (que s) in
     (case cpc s of
        CIdle \<Rightarrow> c = base mod n \<and> outs s @ xs = ins s
      | CChecked \<Rightarrow> c = base mod n \<and> xs \<noteq> [] \<and> outs s @ xs = ins s
      | CTaken x \<Rightarrow> c = base mod n \<and> xs \<noteq> [] \<and> x = hd xs \<and> outs s @ xs = ins s
      | CReleased x \<Rightarrow> (\<exists>k. base = Suc k \<and> c = k mod n) \<and> outs s @ x # xs = ins s))"

definition spsc_inv :: "spsc \<Rightarrow> bool" where
  "spsc_inv s \<longleftrightarrow> que_frame (que s) \<and>
     (\<exists>base xs. ring (p_at_entries (que s)) base xs \<and> prod_inv s base xs \<and> cons_inv s base xs)"

lemma ring_refill:
  assumes "ring es base xs" and "length xs < length es" and "valid e = 0"
  shows "ring (es[(base + length xs) mod length es := e]) base xs"
  unfolding ring_def
proof (intro conjI allI impI)
  fix i assume i: "i < length (es[(base + length xs) mod length es := e])"
  have m: "(base + length xs) mod length es < length es"
    using assms(2) by (intro mod_less_divisor) linarith
  show "let f = es[(base + length xs) mod length es := e] !
            ((base + i) mod length (es[(base + length xs) mod length es := e]))
        in if i < length xs then valid f \<noteq> 0 \<and> item_of f = xs ! i else valid f = 0"
  proof (cases "i = length xs")
    case True
    then show ?thesis using m assms(3) by (simp add: Let_def)
  next
    case False
    then have "(base + i) mod length es \<noteq> (base + length xs) mod length es"
      using mod_window_inj[of base i "length es" "length xs"] i assms(2) by auto
    then show ?thesis using False i ringD[OF assms(1), of i] by (auto simp: Let_def)
  qed
qed (use assms in \<open>auto simp: ring_def\<close>)

lemma upd_slot_sel [simp]:
  "p_at_entries (upd_slot i f q) = (p_at_entries q)[i := f (p_at_entries q ! i)]"
  "pt_p_ptr (upd_slot i f q) = pt_p_ptr q" "pt_c_ptr (upd_slot i f q) = pt_c_ptr q"
  "que_frame (upd_slot i f q) = que_frame q"
  by (simp_all add: upd_slot_def que_frame_def)

lemma fill_sel: "item_of (fill x e) = x" "valid (fill x e) = valid e"
  by (auto simp: fill_def item_of_def split: prod.splits)

lemma item_of_valid: "item_of (e\<lparr>valid := v\<rparr>) = item_of e"
  by (simp add: item_of_def)

lemma item_of_release:
  "item_of (es[i := (es ! i)\<lparr>valid := v\<rparr>] ! j) = item_of (es ! j)"
  by (cases "i < length es") (auto simp: nth_list_update item_of_valid list_update_beyond)

lemma spsc_invI:
  "que_frame (que s) \<Longrightarrow> ring (p_at_entries (que s)) base xs \<Longrightarrow> prod_inv s base xs \<Longrightarrow>
     cons_inv s base xs \<Longrightarrow> spsc_inv s"
  unfolding spsc_inv_def by blast

lemmas spsc_defs = prod_inv_def cons_inv_def Let_def

lemma spsc_inv_step: "spsc_step s s' \<Longrightarrow> spsc_inv s \<Longrightarrow> spsc_inv s'"
proof (induction rule: spsc_step.induct)
  case (prod_check s x)
  then obtain base xs where i: "que_frame (que s)" "ring (p_at_entries (que s)) base xs"
      "prod_inv s base xs" "cons_inv s base xs" by (auto simp: spsc_inv_def)
  then have "length xs < length (p_at_entries (que s))"
    using prod_check ring_room[OF i(2)] by (simp add: prod_inv_def)
  with i prod_check show ?case
    by (intro spsc_invI[of _ base xs]) (auto simp: spsc_defs split: prod_pc.splits cons_pc.splits)
next
  case (prod_fill s x)
  then obtain base xs where i: "que_frame (que s)" "ring (p_at_entries (que s)) base xs"
      "prod_inv s base xs" "cons_inv s base xs" by (auto simp: spsc_inv_def)
  let ?es = "p_at_entries (que s)"
  have p: "pt_p_ptr (que s) = (base + length xs) mod length ?es" "length xs < length ?es"
    using i(3) prod_fill by (auto simp: prod_inv_def Let_def)
  then have l: "pt_p_ptr (que s) < length ?es" by (metis gr_zeroI less_nat_zero_code mod_less_divisor)
  have "valid (prod_slot s) = 0" using ring_room[OF i(2)] p by simp
  then have "ring (?es[pt_p_ptr (que s) := fill x (prod_slot s)]) base xs"
    using ring_refill[OF i(2) p(2), of "fill x (prod_slot s)"] p(1) by (simp add: fill_sel)
  with i p l show ?case
    by (intro spsc_invI[of _ base xs]) (auto simp: spsc_defs fill_sel split: prod_pc.splits cons_pc.splits)
next
  case (prod_publish s x)
  then obtain base xs where i: "que_frame (que s)" "ring (p_at_entries (que s)) base xs"
      "prod_inv s base xs" "cons_inv s base xs" by (auto simp: spsc_inv_def)
  let ?es = "p_at_entries (que s)"
  have p: "pt_p_ptr (que s) = (base + length xs) mod length ?es" "length xs < length ?es"
      "item_of (prod_slot s) = x"
    using i(3) prod_publish by (auto simp: prod_inv_def Let_def)
  then have "ring (?es[pt_p_ptr (que s) := (prod_slot s)\<lparr>valid := 1\<rparr>]) base (xs @ [x])"
    using ring_put[OF i(2) p(2), of "(prod_slot s)\<lparr>valid := 1\<rparr>" x] by (simp add: item_of_valid)
  moreover have "cons_inv (s\<lparr>que := upd_slot (pt_p_ptr (que s)) (\<lambda>e. e\<lparr>valid := 1\<rparr>) (que s),
        ppc := PPublished, ins := ins s @ [x]\<rparr>) base (xs @ [x])"
    using i(4) by (auto simp: cons_inv_def Let_def split: cons_pc.splits)
  ultimately show ?case using i(1) p(1)
    by (intro spsc_invI[of _ base "xs @ [x]"]) (auto simp: prod_inv_def Let_def)
next
  case (prod_advance s)
  then obtain base xs where i: "que_frame (que s)" "ring (p_at_entries (que s)) base xs"
      "prod_inv s base xs" "cons_inv s base xs" by (auto simp: spsc_inv_def)
  then obtain k where k: "base + length xs = Suc k" "pt_p_ptr (que s) = k mod length (p_at_entries (que s))"
    using prod_advance by (auto simp: prod_inv_def Let_def)
  have "advance (que s) (pt_p_ptr (que s)) = (base + length xs) mod length (p_at_entries (que s))"
    using advance_mod[OF i(1)] i(2) k by (auto simp: ring_def)
  with i show ?case
    by (intro spsc_invI[of _ base xs])
      (auto simp: spsc_defs que_frame_upd split: prod_pc.splits cons_pc.splits)
next
  case (cons_check s)
  then obtain base xs where i: "que_frame (que s)" "ring (p_at_entries (que s)) base xs"
      "prod_inv s base xs" "cons_inv s base xs" by (auto simp: spsc_inv_def)
  have "xs \<noteq> []" using ring_nil[of "p_at_entries (que s)" base] i cons_check
    by (auto simp: cons_inv_def Let_def)
  with i cons_check show ?case
    by (intro spsc_invI[of _ base xs]) (auto simp: spsc_defs split: prod_pc.splits cons_pc.splits)
next
  case (cons_take s)
  then obtain base xs where i: "que_frame (que s)" "ring (p_at_entries (que s)) base xs"
      "prod_inv s base xs" "cons_inv s base xs" by (auto simp: spsc_inv_def)
  then obtain y ys where y: "xs = y # ys" "pt_c_ptr (que s) = base mod length (p_at_entries (que s))"
    using cons_take by (cases xs) (auto simp: cons_inv_def Let_def)
  then have "item_of (cons_slot s) = y" using ring_hd[of _ base y ys] i(2) by auto
  with i y cons_take show ?case
    by (intro spsc_invI[of _ base xs]) (auto simp: spsc_defs split: prod_pc.splits cons_pc.splits)
next
  case (cons_release s x)
  then obtain base xs where i: "que_frame (que s)" "ring (p_at_entries (que s)) base xs"
      "prod_inv s base xs" "cons_inv s base xs" by (auto simp: spsc_inv_def)
  then obtain ys where y: "xs = x # ys" "pt_c_ptr (que s) = base mod length (p_at_entries (que s))"
      "outs s @ x # ys = ins s"
    using cons_release by (cases xs) (auto simp: cons_inv_def Let_def)
  let ?s = "s\<lparr>que := upd_slot (pt_c_ptr (que s)) (\<lambda>e. e\<lparr>valid := 0\<rparr>) (que s), cpc := CReleased x\<rparr>"
  have "ring (p_at_entries (que ?s)) (Suc base) ys"
    using ring_take[of _ base x ys] i(2) y by simp
  moreover have "prod_inv ?s (Suc base) ys"
    using i(3) y(1) by (auto simp: prod_inv_def Let_def item_of_release split: prod_pc.splits)
  moreover have "cons_inv ?s (Suc base) ys" using y by (auto simp: cons_inv_def Let_def)
  ultimately show ?case using i(1) by (intro spsc_invI[of _ "Suc base" ys]) simp_all
next
  case (cons_advance s x)
  then obtain base xs where i: "que_frame (que s)" "ring (p_at_entries (que s)) base xs"
      "prod_inv s base xs" "cons_inv s base xs" by (auto simp: spsc_inv_def)
  then obtain k where k: "base = Suc k" "pt_c_ptr (que s) = k mod length (p_at_entries (que s))"
      "outs s @ x # xs = ins s"
    using cons_advance by (auto simp: cons_inv_def Let_def)
  have "advance (que s) (pt_c_ptr (que s)) = base mod length (p_at_entries (que s))"
    using advance_mod[OF i(1)] i(2) k by (auto simp: ring_def)
  with i k show ?case
    by (intro spsc_invI[of _ base xs])
      (auto simp: spsc_defs que_frame_upd split: prod_pc.splits cons_pc.splits)
qed

lemma spsc_inv_steps: "spsc_steps s s' \<Longrightarrow> spsc_inv s \<Longrightarrow> spsc_inv s'"
  by (induction rule: rtranclp_induct) (auto intro: spsc_inv_step)

section \<open>Properties\<close>

text \<open>C40: A queue made by \<open>create_pc_que\<close> whose size fits the \<open>int\<close> length is a first-in
  first-out queue of exactly that many items: over any sequence of calls no access
  leaves the allocated memory, and the items accepted are the items delivered, in
  order, followed by the items still in the ring.\<close>

theorem pc_que_fifo:
  assumes "0 < unat nr" and "48 + unat nr * 32 < 2 ^ 31"
  shows "\<exists>q ins outs q' ys. create_pc_que True nr = Some (Some q) \<and>
    fifo_run que_enq que_deq cs q = Some (ins, outs, q') \<and> que_ok q' (unat nr) ys \<and>
    ins = outs @ ys \<and> length ys \<le> unat nr \<and>
    (que_enq x q' = Some (False, q') \<longleftrightarrow> length ys = unat nr)"
proof -
  obtain q where q: "create_pc_que True nr = Some (Some q)" "que_ok q (unat nr) []"
    using create_pc_que_ok[OF assms] by blast
  obtain ins outs q' ys where r: "fifo_run que_enq que_deq cs q = Some (ins, outs, q')"
      "que_ok q' (unat nr) ys" "ins = outs @ ys"
    using pc_que.fifo_run_order[OF q(2), of cs] by auto
  have l: "length ys \<le> unat nr" by (rule pc_que.inv_bound[OF r(2)])
  have "que_enq x q' = Some (False, q') \<longleftrightarrow> length ys = unat nr"
  proof (cases "length ys = unat nr")
    case True
    then show ?thesis using pc_que.enq_full[OF r(2)] by simp
  next
    case False
    then show ?thesis using pc_que.enq_room[OF r(2), of x] l by auto
  qed
  with q r l show ?thesis by blast
qed

lemma pc_que_fifo_witness:
  "\<exists>q ins outs q' ys. create_pc_que True 2 = Some (Some q) \<and>
    fifo_run que_enq que_deq [Enq (7, 1, 0), Enq (8, 2, 0), Enq (9, 3, 0), Deq] q =
      Some (ins, outs, q') \<and> que_ok q' 2 ys \<and> ins = outs @ ys"
  using pc_que_fifo[of 2 "[Enq (7, 1, 0), Enq (8, 2, 0), Enq (9, 3, 0), Deq]" "(0, 0, 0)"]
  by (simp del: fifo_run.simps) blast

text \<open>C9: One producer and one consumer may interleave their accesses in any way: what the
  consumer has been given is at every moment a prefix of what the producer published,
  and at most the capacity plus the one item in the consumer's hands is in between.\<close>

theorem pc_que_spsc_order:
  assumes "spsc_steps \<lparr>que = q, ppc = PIdle, cpc = CIdle, ins = [], outs = []\<rparr> s"
    and "que_ok q cap []"
  shows "prefix (outs s) (ins s) \<and>
    length (ins s) \<le> length (outs s) + length (p_at_entries (que s)) + 1"
proof -
  let ?s0 = "\<lparr>que = q, ppc = PIdle, cpc = CIdle, ins = [], outs = []\<rparr>"
  obtain base where "ring (p_at_entries q) base []" "pt_c_ptr q = base mod length (p_at_entries q)"
      "pt_p_ptr q = base mod length (p_at_entries q)" "que_frame q"
    using assms(2) by (auto simp: que_ok_def)
  then have "spsc_inv ?s0" by (intro spsc_invI[of _ base "[]"]) (auto simp: spsc_defs)
  then have "spsc_inv s" by (rule spsc_inv_steps[OF assms(1)])
  then obtain base xs where i: "ring (p_at_entries (que s)) base xs" "cons_inv s base xs"
    by (auto simp: spsc_inv_def)
  then have "length xs \<le> length (p_at_entries (que s))" by (simp add: ring_def)
  moreover have "ins s = outs s @ (case cpc s of CReleased x \<Rightarrow> [x] | _ \<Rightarrow> []) @ xs"
    using i(2) by (cases "cpc s") (auto simp: cons_inv_def Let_def)
  then obtain zs where "ins s = outs s @ zs @ xs" "length zs \<le> 1"
    by (cases "cpc s") auto
  ultimately show ?thesis by simp
qed

lemma pc_que_spsc_order_witness:
  "\<exists>q s. que_ok q 2 [] \<and> ppc s = PChecked (7, 1, 0) \<and> prefix (outs s) (ins s) \<and>
     spsc_steps \<lparr>que = q, ppc = PIdle, cpc = CIdle, ins = [], outs = []\<rparr> s"
proof -
  obtain q where q: "que_ok q (unat (2 :: u32)) []" using create_pc_que_ok[of 2] by auto
  let ?s0 = "\<lparr>que = q, ppc = PIdle, cpc = CIdle, ins = [], outs = []\<rparr>"
  have "valid (p_at_entries q ! pt_p_ptr q) = 0"
    using q ring_room by (fastforce simp: que_ok_def)
  then have r: "spsc_steps ?s0 (?s0\<lparr>ppc := PChecked (7, 1, 0)\<rparr>)"
    by (intro r_into_rtranclp prod_check) simp_all
  have "que_ok q 2 []" using q by simp
  with r pc_que_spsc_order[OF r q] show ?thesis
    by (intro exI[of _ q] exI[of _ "?s0\<lparr>ppc := PChecked (7, 1, 0)\<rparr>"]) simp
qed

text \<open>\<open>create_pc_que\<close> stores the length in an \<open>int\<close>: a size of \<open>2\<^sup>2\<^sup>7\<close> wraps it to the bare
  header, and the first use of the queue reads outside the allocation.\<close>

theorem pc_que_size_overflow:
  "\<exists>q. create_pc_que True (2 ^ 27) = Some (Some q) \<and> p_at_entries q = [] \<and>
     pc_que_enq_try d pi pa q = None \<and> pc_que_outq_try q = None"
proof -
  have "pc_que_total_size (2 ^ 27) = 48" by (simp add: pc_que_total_size_def)
  then have "sint (pc_que_total_size (2 ^ 27)) = 48" by simp
  then show ?thesis
    by (simp add: create_pc_que_def pc_que_enq_try_def pc_que_outq_try_def Let_def)
qed

end
