(* ===== verification/StringUtils.thy ===== *)
theory StringUtils
  imports Prelude
begin

text \<open>
  \<open>libs/app_utils/src/string_utils.c\<close> and the inline functions of \<open>string_utils.h\<close>.
  A \<open>char *\<close> argument that is only read as a string is its list of characters; a buffer
  that is written is the list of its cells. \<open>None\<close> is an access outside a buffer.
\<close>

section \<open>The code\<close>

text \<open>
  \<open>str_trim_len\<close>. \<open>junk\<close> is what the automatic array \<open>str_temp\<close> of \<open>len + 1\<close> cells holds
  before the \<open>strcpy\<close>. The result is the returned length and the new contents of
  \<open>output\<close>, if it is written.
\<close>

fun trim_head :: "char list \<Rightarrow> nat \<Rightarrow> nat \<Rightarrow> nat \<times> nat" where
  "trim_head buf head 0 = (head, 0)"
| "trim_head buf head (Suc len) =
     (if \<not> isgraph (buf ! head) then trim_head buf (head + 1) len else (head, Suc len))"

fun trim_tail :: "char list \<Rightarrow> nat \<Rightarrow> nat \<Rightarrow> char list \<times> nat" where
  "trim_tail buf tail 0 = (buf, 0)"
| "trim_tail buf tail (Suc len) =
     (if \<not> isgraph (buf ! tail) then trim_tail (buf[tail := NUL]) (tail - 1) len
      else (buf, Suc len))"

definition str_trim_len :: "char list \<Rightarrow> string \<Rightarrow> int \<Rightarrow> (int \<times> string option) option" where
  "str_trim_len junk inp len =
     (if len \<le> 0 then Some (0, None)
      else if length inp > nat len then None
      else let str_temp = inp @ NUL # drop (length inp + 1) junk;
               (head, len1) = trim_head str_temp 0 (nat len)
           in if len1 = 0 then Some (0, None)
              else let (str_temp2, len2) = trim_tail str_temp (nat len - 1) len1
                   in if len2 = 0 then Some (0, None)
                      else Some (int len2, Some (cstr str_temp2)))"

definition str_trim :: "char list \<Rightarrow> string \<Rightarrow> (int \<times> string option) option" where
  "str_trim junk inp = str_trim_len junk inp (int (length inp))"

text \<open>\<open>str_trim_all_len\<close>; \<open>inp\<close> is the array it reads.\<close>

fun collect_graph :: "char list \<Rightarrow> nat \<Rightarrow> nat \<Rightarrow> string \<Rightarrow> string" where
  "collect_graph inp i 0 str_temp = str_temp"
| "collect_graph inp i (Suc n) str_temp =
     collect_graph inp (i + 1) n
       (if isgraph (inp ! i) then str_temp @ [inp ! i] else str_temp)"

definition str_trim_all_len :: "char list \<Rightarrow> int \<Rightarrow> (int \<times> string option) option" where
  "str_trim_all_len inp len =
     (if len \<le> 0 then Some (0, None)
      else if nat len > length inp then None
      else let str_temp = collect_graph inp 0 (nat len) []
           in Some (int (length str_temp), Some str_temp))"

definition str_trim_all :: "string \<Rightarrow> (int \<times> string option) option" where
  "str_trim_all inp = str_trim_all_len inp (int (length inp))"

text \<open>
  \<open>str_replace_substr\<close>: the loop from \<open>ptr1 = ptr2 = s\<close>, appending to the output. The
  occurrence found is overwritten with a NUL first, so that an empty \<open>from\<close> leaves
  nothing to go on with.
\<close>

function replace_loop :: "string \<Rightarrow> string \<Rightarrow> string \<Rightarrow> string \<Rightarrow> string" where
  "replace_loop pat rep s out =
     (case strstr s pat of
        None \<Rightarrow> out @ s
      | Some i \<Rightarrow>
          let out1 = out @ take i s @ rep;
              rest = (if pat = [] then [] else drop (i + length pat) s)
          in if rest = [] then out1 else replace_loop pat rep rest out1)"
  by pat_completeness auto
termination
  by (relation "measure (\<lambda>(pat, rep, s, out). length s)") (auto split: if_splits intro!: diff_less)

definition str_replace_substr :: "string \<Rightarrow> string \<Rightarrow> string \<Rightarrow> int \<times> string" where
  "str_replace_substr inp pat rep =
     (let out = replace_loop pat rep inp [] in (int (length out), out))"

text \<open>\<open>trim_new_line\<close>: \<open>k\<close> is \<open>tail - str + 1\<close>.\<close>

fun trim_nl_loop :: "char list \<Rightarrow> nat \<Rightarrow> char list" where
  "trim_nl_loop str 0 = str"
| "trim_nl_loop str (Suc k) =
     (if str ! k = CHR 0x0D \<or> str ! k = CHR 0x0A then trim_nl_loop (str[k := NUL]) k else str)"

definition trim_new_line :: "char list \<Rightarrow> char list" where
  "trim_new_line str = trim_nl_loop str (length (cstr str))"

definition insert_char :: "char list \<Rightarrow> char \<Rightarrow> nat \<Rightarrow> nat \<Rightarrow> char list option" where
  "insert_char str c idx len =
     (case memmove (idx + 1) idx (len - idx) str of None \<Rightarrow> None
      | Some s1 \<Rightarrow>
          (case store_at idx c s1 of None \<Rightarrow> None
           | Some s2 \<Rightarrow> store_at (len + 1) NUL s2))"

definition delete_char :: "char list \<Rightarrow> nat \<Rightarrow> nat \<Rightarrow> char list option" where
  "delete_char str idx len =
     (case memmove idx (idx + 1) (len - idx - 1) str of None \<Rightarrow> None
      | Some s1 \<Rightarrow> store_at (len - 1) NUL s1)"

section \<open>Trimming\<close>

lemma trim_head_eq:
  "length pre = head \<Longrightarrow>
   trim_head (pre @ s @ r) head (length s) =
     (head + length (takeWhile (\<lambda>c. \<not> isgraph c) s), length (dropWhile (\<lambda>c. \<not> isgraph c) s))"
proof (induction s arbitrary: pre head)
  case (Cons c s)
  then have n: "(pre @ (c # s) @ r) ! head = c" by (simp add: nth_append)
  show ?case
  proof (cases "isgraph c")
    case False
    have "trim_head ((pre @ [c]) @ s @ r) (head + 1) (length s) =
      (head + 1 + length (takeWhile (\<lambda>c. \<not> isgraph c) s), length (dropWhile (\<lambda>c. \<not> isgraph c) s))"
      by (rule Cons.IH) (use Cons.prems in simp)
    with False n show ?thesis by simp
  qed (use n in simp)
qed simp

text \<open>The tail loop turns the trailing non-graphic characters into NULs.\<close>

definition rstrip :: "string \<Rightarrow> string" where
  "rstrip s = rev (dropWhile (\<lambda>c. \<not> isgraph c) (rev s))"

lemma rstrip_snoc: "rstrip (s @ [c]) = (if isgraph c then s @ [c] else rstrip s)"
  by (simp add: rstrip_def)

lemma rstrip_prefix: "\<exists>t. s = rstrip s @ t"
  unfolding rstrip_def by (metis rev_append rev_rev_ident takeWhile_dropWhile_id)

lemma trim_tail_eq:
  "NUL \<notin> set s \<Longrightarrow> n \<le> length s \<Longrightarrow> \<exists>c \<in> set (drop (length s - n) s). isgraph c \<Longrightarrow>
   \<exists>b. trim_tail (s @ NUL # r) (length s - 1) n =
       (b, n - (length s - length (rstrip s))) \<and> cstr b = rstrip s \<and> length s - length (rstrip s) < n"
proof (induction s arbitrary: n r rule: rev_induct)
  case (snoc c s)
  then obtain m where m: "n = Suc m" by (cases n) auto
  show ?case
  proof (cases "isgraph c")
    case True
    have "cstr ((s @ [c]) @ NUL # r) = s @ [c]"
      by (rule cstr_append_NUL) (use snoc.prems in simp)
    with True m show ?thesis by (simp add: rstrip_snoc nth_append)
  next
    case False
    have d: "drop (length (s @ [c]) - n) (s @ [c]) = drop (length s - m) s @ [c]"
      using m snoc.prems(2) by simp
    from snoc.prems(3)[unfolded d] False have g: "\<exists>c \<in> set (drop (length s - m) s). isgraph c" by auto
    then have s: "s \<noteq> []" by auto
    have "\<exists>b. trim_tail (s @ NUL # NUL # r) (length s - 1) m =
       (b, m - (length s - length (rstrip s))) \<and> cstr b = rstrip s \<and> length s - length (rstrip s) < m"
      by (rule snoc.IH) (use snoc.prems m g in auto)
    moreover obtain t where "s = rstrip s @ t" using rstrip_prefix by blast
    then have "length (rstrip s) \<le> length s" by (metis le_add1 length_append)
    ultimately show ?thesis using False m
      by (auto simp: rstrip_snoc nth_append list_update_append Suc_diff_le)
  qed
qed simp

lemma str_trim_spec:
  assumes "NUL \<notin> set s" and "length junk = length s + 1"
  shows "str_trim junk s =
    (if \<exists>c \<in> set s. isgraph c
     then Some (int (length (dropWhile (\<lambda>c. \<not> isgraph c) (rstrip s))), Some (rstrip s))
     else Some (0, None))"
proof -
  let ?d = "dropWhile (\<lambda>c. \<not> isgraph c) s" and ?b = "s @ NUL # []"
  have h: "trim_head ?b 0 (length s) = (length (takeWhile (\<lambda>c. \<not> isgraph c) s), length ?d)"
    using trim_head_eq[of "[]" 0 s "NUL # []"] by simp
  have e: "s \<noteq> [] \<Longrightarrow> str_trim junk s =
      (case trim_head ?b 0 (length s) of (head, len1) \<Rightarrow>
         if len1 = 0 then Some (0, None)
         else case trim_tail ?b (length s - 1) len1 of (t2, len2) \<Rightarrow>
           if len2 = 0 then Some (0, None) else Some (int len2, Some (cstr t2)))"
    using assms(2) by (simp add: str_trim_def str_trim_len_def Let_def case_prod_beta cong: if_cong)
  show ?thesis
  proof (cases "\<exists>c \<in> set s. isgraph c")
    case False
    then have "?d = []" by simp
    with False h show ?thesis
      by (cases "s = []") (simp_all add: e, simp add: str_trim_def str_trim_len_def)
  next
    case True
    then have ne: "?d \<noteq> []" and s: "s \<noteq> []" by auto
    have le: "length ?d \<le> length s" by (rule length_dropWhile_le)
    have dd: "drop (length s - length ?d) s = ?d"
      by (metis append_eq_conv_conj length_append length_takeWhile_le diff_add_inverse2 takeWhile_dropWhile_id)
    have g: "\<exists>c \<in> set (drop (length s - length ?d) s). isgraph c"
      unfolding dd using hd_dropWhile[OF ne] ne by (meson hd_in_set)
    obtain b where b: "trim_tail ?b (length s - 1) (length ?d) =
       (b, length ?d - (length s - length (rstrip s)))" "cstr b = rstrip s"
       "length s - length (rstrip s) < length ?d"
      using trim_tail_eq[OF assms(1) le g, of "[]"] by blast
    obtain t where t: "s = rstrip s @ t" using rstrip_prefix by blast
    have gr: "\<exists>c \<in> set (rstrip s). isgraph c"
    proof -
      have "dropWhile (\<lambda>c. \<not> isgraph c) (rev s) \<noteq> []" using True by auto
      then show ?thesis unfolding rstrip_def
        by (metis (mono_tags, lifting) hd_dropWhile hd_in_set set_rev)
    qed
    from gr have "?d = dropWhile (\<lambda>c. \<not> isgraph c) (rstrip s) @ t"
      by (subst t) (metis (mono_tags, lifting) dropWhile_append1)
    then have "length ?d - (length s - length (rstrip s)) =
        length (dropWhile (\<lambda>c. \<not> isgraph c) (rstrip s))"
      by (subst (2) t) simp
    with b h True ne gr show ?thesis by (auto simp: e[OF s])
  qed
qed

lemma collect_graph_eq:
  "i + n \<le> length inp \<Longrightarrow> collect_graph inp i n acc = acc @ filter isgraph (take n (drop i inp))"
proof (induction n arbitrary: i acc)
  case (Suc n)
  then have "drop i inp = inp ! i # drop (Suc i) inp" by (simp add: Cons_nth_drop_Suc)
  with Suc show ?case by simp
qed simp

section \<open>Replacing\<close>

text \<open>Replace every occurrence, scanning from the left without overlap.\<close>

function replace_all :: "string \<Rightarrow> string \<Rightarrow> string \<Rightarrow> string" where
  "replace_all pat rep s =
     (if pat = [] \<or> s = [] then s
      else if take (length pat) s = pat then rep @ replace_all pat rep (drop (length pat) s)
      else hd s # replace_all pat rep (tl s))"
  by pat_completeness auto
termination
  by (relation "measure (\<lambda>(pat, rep, s). length s)") (auto intro!: diff_less)

declare replace_all.simps [simp del] replace_loop.simps [simp del]

lemma replace_all_Nil [simp]: "replace_all pat rep [] = []"
  by (simp add: replace_all.simps)

lemma replace_all_strstr:
  assumes "pat \<noteq> []"
  shows "replace_all pat rep s = (case strstr s pat of None \<Rightarrow> s
     | Some i \<Rightarrow> take i s @ rep @ replace_all pat rep (drop (i + length pat) s))"
proof (induction s)
  case Nil
  then show ?case using assms by simp
next
  case (Cons c s)
  show ?case
  proof (cases "take (length pat) (c # s) = pat")
    case True
    then show ?thesis using assms by (subst replace_all.simps) simp
  next
    case False
    then have "replace_all pat rep (c # s) = c # replace_all pat rep s"
      using assms by (subst replace_all.simps) simp
    with False Cons.IH show ?thesis by (auto split: option.split)
  qed
qed

lemma replace_loop_eq:
  assumes "pat \<noteq> []"
  shows "replace_loop pat rep s out = out @ replace_all pat rep s"
  using assms
proof (induction pat rep s out rule: replace_loop.induct)
  case (1 pat rep s out)
  show ?case
  proof (cases "strstr s pat")
    case None
    then show ?thesis
      using replace_all_strstr[OF 1(2), of rep s] by (simp add: replace_loop.simps)
  next
    case (Some i)
    have "replace_loop pat rep (drop (i + length pat) s) (out @ take i s @ rep) =
        (out @ take i s @ rep) @ replace_all pat rep (drop (i + length pat) s)"
      if "drop (i + length pat) s \<noteq> []"
      by (rule 1(1)[OF Some refl _ _ 1(2)]) (use that 1(2) in auto)
    with Some 1(2) replace_all_strstr[OF 1(2), of rep s] show ?thesis
      by (subst replace_loop.simps) (auto simp: Let_def)
  qed
qed

section \<open>Line ends, insertion and deletion\<close>

lemma trim_nl_loop_eq:
  "NUL \<notin> set s \<Longrightarrow>
   cstr (trim_nl_loop (s @ NUL # r) (length s)) =
     rev (dropWhile (\<lambda>c. c = CHR 0x0D \<or> c = CHR 0x0A) (rev s))"
proof (induction s arbitrary: r rule: rev_induct)
  case (snoc c s)
  show ?case
  proof (cases "c = CHR 0x0D \<or> c = CHR 0x0A")
    case True
    then have "trim_nl_loop ((s @ [c]) @ NUL # r) (length (s @ [c])) =
        trim_nl_loop (s @ NUL # NUL # r) (length s)"
      by (auto simp: nth_append list_update_append)
    with snoc True show ?thesis by auto
  next
    case False
    then have "trim_nl_loop ((s @ [c]) @ NUL # r) (length (s @ [c])) = (s @ [c]) @ NUL # r"
      by (simp add: nth_append)
    moreover have "cstr ((s @ [c]) @ NUL # r) = s @ [c]"
      by (rule cstr_append_NUL) (use snoc.prems in simp)
    ultimately show ?thesis using False by simp
  qed
qed (simp add: cstr_def)

lemma insert_char_holds:
  assumes "holds buf s" and "idx \<le> length s" and "length s + 1 < length buf" and "c \<noteq> NUL"
  shows "\<exists>buf'. insert_char buf c idx (length s) = Some buf' \<and> length buf' = length buf \<and>
    holds buf' (take idx s @ c # drop idx s)"
proof -
  obtain rest where b: "buf = s @ NUL # rest" "NUL \<notin> set s"
    using assms(1) by (auto simp: holds_def)
  let ?s1 = "take (Suc idx) buf @ drop idx s @ rest"
  have m: "memmove (idx + 1) idx (length s - idx) buf = Some ?s1"
    using assms(2,3) b by (simp add: memmove_def)
  have t: "take (Suc idx) buf = take idx s @ [buf ! idx]"
    using take_Suc_conv_app_nth[of idx buf] assms(2,3) b by simp
  have "store_at idx c ?s1 = Some (take idx s @ c # drop idx s @ rest)"
    unfolding t using assms(2) by (simp add: store_at_def list_update_append)
  moreover obtain x rest' where "rest = x # rest'" using assms(3) b by (cases rest) auto
  moreover have "store_at (length s + 1) NUL ((take idx s @ c # drop idx s) @ x # rest') =
      Some ((take idx s @ c # drop idx s) @ NUL # rest')"
    by (rule store_at_append) (use assms(2) in simp)
  ultimately have "insert_char buf c idx (length s) =
      Some (take idx s @ c # drop idx s @ NUL # rest')"
    using m by (simp add: insert_char_def)
  moreover have "length (take idx s @ c # drop idx s @ NUL # rest') = length buf"
    using \<open>rest = x # rest'\<close> b assms(2) by simp
  moreover have "NUL \<notin> set (take idx s @ c # drop idx s)"
    using b(2) assms(4) by (auto dest: in_set_takeD in_set_dropD)
  ultimately show ?thesis by (auto simp: holds_def)
qed

lemma delete_char_holds:
  assumes "holds buf s" and "idx < length s"
  shows "\<exists>buf'. delete_char buf idx (length s) = Some buf' \<and> length buf' = length buf \<and>
    holds buf' (take idx s @ drop (Suc idx) s)"
proof -
  obtain rest where b: "buf = s @ NUL # rest" "NUL \<notin> set s"
    using assms(1) by (auto simp: holds_def)
  let ?s1 = "take idx s @ drop (Suc idx) s @ last s # NUL # rest"
  have "drop (length s - 1) s = [last s]"
    using assms(2) by (cases s rule: rev_cases) auto
  then have m: "memmove idx (idx + 1) (length s - idx - 1) buf = Some ?s1"
    using assms(2) b by (simp add: memmove_def) (intro conjI; linarith)
  have "store_at (length s - 1) NUL ((take idx s @ drop (Suc idx) s) @ last s # NUL # rest) =
      Some ((take idx s @ drop (Suc idx) s) @ NUL # NUL # rest)"
    by (rule store_at_append) (use assms(2) in simp)
  then have "delete_char buf idx (length s) = Some (take idx s @ drop (Suc idx) s @ NUL # NUL # rest)"
    using m by (simp add: delete_char_def)
  moreover have "NUL \<notin> set (take idx s @ drop (Suc idx) s)"
    using b(2) by (auto dest: in_set_takeD in_set_dropD)
  moreover have "length (take idx s @ drop (Suc idx) s @ NUL # NUL # rest) = length buf"
    using assms(2) b by simp
  ultimately show ?thesis by (auto simp: holds_def)
qed

section \<open>Properties\<close>

text \<open>\<open>str_trim\<close> returns the length of the string without its leading and trailing
  non-graphic characters, but copies \<open>str_temp\<close> and not \<open>head\<close>: what it writes has lost
  only the trailing ones, and \<open>output\<close> is not written when nothing is left.\<close>

theorem str_trim_result:
  assumes "NUL \<notin> set s" and "length junk = length s + 1"
  shows "str_trim junk s =
    (if \<exists>c \<in> set s. isgraph c
     then Some (int (length (dropWhile (\<lambda>c. \<not> isgraph c) (rstrip s))), Some (rstrip s))
     else Some (0, None))"
  by (rule str_trim_spec[OF assms])

lemma str_trim_result_witness: "str_trim (replicate 5 NUL) '' ab '' = Some (2, Some '' ab'')"
  using str_trim_result[of "'' ab ''" "replicate 5 NUL"]
  by (simp add: rstrip_def isgraph_def)

lemma str_trim_all_graph:
  "s \<noteq> [] \<Longrightarrow> str_trim_all s = Some (int (length (filter isgraph s)), Some (filter isgraph s))"
  using collect_graph_eq[of 0 "length s" s "[]"]
  by (simp add: str_trim_all_def str_trim_all_len_def Let_def)

text \<open>\<open>str_trim_all\<close> returns and writes exactly the graphic characters, in order.\<close>

theorem str_trim_all_result:
  assumes "s \<noteq> []"
  shows "str_trim_all s = Some (int (length (filter isgraph s)), Some (filter isgraph s))"
  using assms by (rule str_trim_all_graph)

lemma str_trim_all_result_witness: "str_trim_all '' a b '' = Some (2, Some ''ab'')"
  using str_trim_all_result[of "'' a b ''"] by (simp add: isgraph_def)

text \<open>For a non-empty pattern \<open>str_replace_substr\<close> writes the string with every
  occurrence replaced, scanning from the left without overlap, and returns its length;
  it terminates even when the replacement contains the pattern.\<close>

theorem str_replace_substr_all:
  assumes "pat \<noteq> []"
  shows "str_replace_substr inp pat rep =
    (int (length (replace_all pat rep inp)), replace_all pat rep inp)"
  by (simp add: str_replace_substr_def replace_loop_eq[OF assms] Let_def)

lemma str_replace_substr_all_witness: "str_replace_substr ''a.b.'' ''.'' ''..'' = (6, ''a..b..'')"
  using str_replace_substr_all[of "''.''" "''a.b.''" "''..''"] by (simp add: replace_all.simps)

text \<open>\<open>trim_new_line\<close> removes exactly the trailing carriage returns and line feeds, also
  when nothing else is left.\<close>

theorem trim_new_line_result:
  assumes "holds buf s"
  shows "cstr (trim_new_line buf) = rev (dropWhile (\<lambda>c. c = CHR 0x0D \<or> c = CHR 0x0A) (rev s))"
proof -
  obtain rest where "buf = s @ NUL # rest" "NUL \<notin> set s" using assms by (auto simp: holds_def)
  then show ?thesis
    using trim_nl_loop_eq[of s rest] holds_cstr[OF assms] by (simp add: trim_new_line_def)
qed

lemma trim_new_line_result_witness:
  "cstr (trim_new_line [CHR ''a'', CHR 0x0D, CHR 0x0A, NUL]) = ''a''"
  using trim_new_line_result[of "[CHR ''a'', CHR 0x0D, CHR 0x0A, NUL]" "[CHR ''a'', CHR 0x0D, CHR 0x0A]"]
  by (simp add: holds_def)

text \<open>In a buffer with room, \<open>insert_char\<close> inserts at the index and \<open>delete_char\<close> with the
  new length undoes it; neither leaves the buffer.\<close>

theorem insert_delete_char_roundtrip:
  assumes "holds buf s" and "idx \<le> length s" and "length s + 1 < length buf" and "c \<noteq> NUL"
  shows "\<exists>b1 b2. insert_char buf c idx (length s) = Some b1 \<and>
    holds b1 (take idx s @ c # drop idx s) \<and>
    delete_char b1 idx (length s + 1) = Some b2 \<and> holds b2 s"
proof -
  obtain b1 where b1: "insert_char buf c idx (length s) = Some b1"
      "holds b1 (take idx s @ c # drop idx s)"
    using insert_char_holds[OF assms] by blast
  have l: "length (take idx s @ c # drop idx s) = length s + 1" using assms(2) by simp
  have "take idx (take idx s @ c # drop idx s) @ drop (Suc idx) (take idx s @ c # drop idx s) = s"
    using assms(2) by simp
  with delete_char_holds[OF b1(2), of idx] l assms(2) b1 show ?thesis by auto
qed

lemma insert_delete_char_roundtrip_witness:
  "\<exists>b1 b2. insert_char (''ac'' @ NUL # ''zz'') (CHR ''b'') 1 2 = Some b1 \<and> holds b1 ''abc'' \<and>
    delete_char b1 1 3 = Some b2 \<and> holds b2 ''ac''"
  using insert_delete_char_roundtrip[of "''ac'' @ NUL # ''zz''" "''ac''" 1 "CHR ''b''"]
  by (simp add: holds_def eval_nat_numeral)

end
