(* ===== verification/CLib.thy ===== *)
theory CLib
  imports Prelude
begin

text \<open>
  The functions of the C library that the source calls to print and parse numbers:
  the conversions \<open>%d\<close>, \<open>%u\<close>, \<open>%hhu\<close>, \<open>%hu\<close>, \<open>%02hhx\<close> and \<open>%04x\<close> of \<open>printf\<close>, and
  \<open>strtol\<close> and \<open>atoi\<close>, in the C locale.
\<close>

section \<open>Printing\<close>

definition digit_char :: "nat \<Rightarrow> char" where
  "digit_char n = char_of (if n < 10 then 48 + n else 87 + n)"

function show_nat :: "nat \<Rightarrow> nat \<Rightarrow> string" where
  "show_nat b n = (if b < 2 \<or> n < b then [digit_char n]
     else show_nat b (n div b) @ [digit_char (n mod b)])"
  by pat_completeness auto
termination by (relation "measure snd") auto

declare show_nat.simps [simp del]

abbreviation show_dec :: "nat \<Rightarrow> string" where "show_dec \<equiv> show_nat 10"

definition show_int :: "int \<Rightarrow> string" where
  "show_int i = (if i < 0 then CHR ''-'' # show_dec (nat (- i)) else show_dec (nat i))"

text \<open>\<open>%02hhx\<close> and \<open>%04x\<close>; the latter prints an \<open>int\<close> as an unsigned value.\<close>

definition show_02x :: "u8 \<Rightarrow> string" where
  "show_02x b = [digit_char (unat b div 16), digit_char (unat b mod 16)]"

definition show_04x :: "int \<Rightarrow> string" where
  "show_04x i = (let s = show_nat 16 (unat (word_of_int i :: u32))
     in replicate (4 - length s) (CHR ''0'') @ s)"

section \<open>Parsing\<close>

definition digit_value :: "char \<Rightarrow> nat option" where
  "digit_value c = (let n = of_char c :: nat in
     if 48 \<le> n \<and> n \<le> 57 then Some (n - 48)
     else if 97 \<le> n \<and> n \<le> 122 then Some (n - 87)
     else if 65 \<le> n \<and> n \<le> 90 then Some (n - 55)
     else None)"

text \<open>The digits of a base, as far as they go.\<close>

fun read_digits :: "nat \<Rightarrow> string \<Rightarrow> nat \<Rightarrow> nat" where
  "read_digits b [] acc = acc"
| "read_digits b (c # s) acc =
     (case digit_value c of
        None \<Rightarrow> acc
      | Some d \<Rightarrow> if d < b then read_digits b s (acc * b + d) else acc)"

definition is_digit_of :: "nat \<Rightarrow> string \<Rightarrow> bool" where
  "is_digit_of b s = (case s of [] \<Rightarrow> False | c # _ \<Rightarrow>
     (case digit_value c of None \<Rightarrow> False | Some d \<Rightarrow> d < b))"

definition drop_0x :: "string \<Rightarrow> string" where
  "drop_0x s = (case s of
     z # x # r \<Rightarrow> if z = CHR ''0'' \<and> (x = CHR ''x'' \<or> x = CHR ''X'') \<and> is_digit_of 16 r then r else s
   | _ \<Rightarrow> s)"

text \<open>\<open>printf\<close> of a text in a field of \<open>n\<close> characters, to the left.\<close>

definition pad_right :: "nat \<Rightarrow> string \<Rightarrow> string" where
  "pad_right n s = s @ replicate (n - length s) (CHR '' '')"

text \<open>\<open>strtol\<close> with \<open>endptr\<close> NULL and base 0, 10 or 16, in a 64-bit \<open>long\<close>; base 0 tells
  hexadecimal and octal by their prefixes. \<open>strtoul\<close> negates modulo \<open>2 ^ 64\<close>.\<close>

definition signed_digits :: "string \<Rightarrow> nat \<Rightarrow> bool \<times> nat" where
  "signed_digits s b =
     (let s1 = dropWhile isspace s;
          neg = (s1 \<noteq> [] \<and> hd s1 = CHR ''-'');
          s2 = (if s1 \<noteq> [] \<and> (hd s1 = CHR ''-'' \<or> hd s1 = CHR ''+'') then tl s1 else s1);
          s3 = (if b = 16 \<or> b = 0 then drop_0x s2 else s2);
          b1 = (if b \<noteq> 0 then b else if s3 \<noteq> s2 then 16
                else if s2 \<noteq> [] \<and> hd s2 = CHR ''0'' then 8 else 10)
      in (neg, read_digits b1 s3 0))"

definition strtol :: "string \<Rightarrow> nat \<Rightarrow> int" where
  "strtol s b = (case signed_digits s b of (neg, v) \<Rightarrow>
     max (- (2 ^ 63)) (min (2 ^ 63 - 1) (if neg then - int v else int v)))"

definition strtoul :: "string \<Rightarrow> nat \<Rightarrow> u64" where
  "strtoul s b = (case signed_digits s b of (neg, v) \<Rightarrow>
     if 2 ^ 64 \<le> v then - 1 else if neg then - of_nat v else of_nat v)"

text \<open>Conversion of a \<open>long\<close> to \<open>int\<close>.\<close>

definition long_to_int :: "int \<Rightarrow> int" where
  "long_to_int v = sint (word_of_int v :: u32)"

definition atoi :: "string \<Rightarrow> int" where
  "atoi s = long_to_int (strtol s 10)"

section \<open>Strings and lines\<close>

definition tolower :: "char \<Rightarrow> char" where
  "tolower c = (let n = of_char c :: nat in if 65 \<le> n \<and> n \<le> 90 then char_of (n + 32) else c)"

text \<open>\<open>strcasecmp(s, t) == 0\<close>.\<close>

definition strcaseeq :: "string \<Rightarrow> string \<Rightarrow> bool" where
  "strcaseeq s t \<longleftrightarrow> map tolower s = map tolower t"

abbreviation LF :: char where "LF \<equiv> CHR 0x0A"
abbreviation CR :: char where "CR \<equiv> CHR 0x0D"

text \<open>\<open>fgets\<close> on what is left of a file: at most \<open>size - 1\<close> characters, up to and with a
  line feed; and what is left then.\<close>

fun take_line :: "nat \<Rightarrow> string \<Rightarrow> string \<times> string" where
  "take_line 0 s = ([], s)"
| "take_line (Suc n) [] = ([], [])"
| "take_line (Suc n) (c # s) =
     (if c = LF then ([c], s) else case take_line n s of (l, r) \<Rightarrow> (c # l, r))"

definition fgets :: "nat \<Rightarrow> string \<Rightarrow> (string \<times> string) option" where
  "fgets sz s = (if s = [] then None else Some (take_line (sz - 1) s))"

lemma take_line_append: "take_line n s = (l, r) \<Longrightarrow> l @ r = s \<and> length l \<le> n"
  by (induction n s arbitrary: l r rule: take_line.induct) (auto split: if_splits prod.splits)

lemma fgets_shorter: "1 < sz \<Longrightarrow> fgets sz s = Some (l, r) \<Longrightarrow> length r < length s"
proof -
  assume n: "1 < sz" and "fgets sz s = Some (l, r)"
  then have s: "s \<noteq> []" "take_line (sz - 1) s = (l, r)" by (auto simp: fgets_def split: if_splits)
  obtain c t k where "s = c # t" "sz - 1 = Suc k" using s(1) n by (cases s; cases "sz - 1") auto
  with s(2) have "l \<noteq> []" by (auto split: if_splits prod.splits)
  moreover have "l @ r = s" using take_line_append[OF s(2)] by simp
  ultimately show ?thesis by auto
qed

lemma take_line_LF: "LF \<notin> set l \<Longrightarrow> length l < n \<Longrightarrow> take_line n (l @ LF # s) = (l @ [LF], s)"
  by (induction n l rule: take_line.induct) auto

lemma take_line_full: "LF \<notin> set l \<Longrightarrow> length l = n \<Longrightarrow> take_line n (l @ s) = (l, s)"
  by (induction n l rule: take_line.induct) auto

text \<open>\<open>strchr\<close> and \<open>strrchr\<close>: what stands before and after the occurrence found.\<close>

fun strchr :: "char \<Rightarrow> string \<Rightarrow> (string \<times> string) option" where
  "strchr c [] = None"
| "strchr c (x # s) = (if x = c then Some ([], s)
     else map_option (\<lambda>(a, b). (x # a, b)) (strchr c s))"

fun strrchr :: "char \<Rightarrow> string \<Rightarrow> (string \<times> string) option" where
  "strrchr c [] = None"
| "strrchr c (x # s) = (case strrchr c s of
     Some (a, b) \<Rightarrow> Some (x # a, b)
   | None \<Rightarrow> if x = c then Some ([], s) else None)"

text \<open>The tokens that repeated calls of \<open>strtok\<close> return, for one delimiter.\<close>

fun strtok_from :: "char \<Rightarrow> string \<Rightarrow> string \<Rightarrow> string list" where
  "strtok_from c tok [] = (if tok = [] then [] else [tok])"
| "strtok_from c tok (x # s) =
     (if x \<noteq> c then strtok_from c (tok @ [x]) s
      else if tok = [] then strtok_from c [] s else tok # strtok_from c [] s)"

abbreviation strtok_all :: "char \<Rightarrow> string \<Rightarrow> string list" where "strtok_all c \<equiv> strtok_from c []"

lemma strchr_append: "c \<notin> set a \<Longrightarrow> strchr c (a @ c # b) = Some (a, b)"
  by (induction a) auto

lemma strchr_None: "strchr c s = None \<longleftrightarrow> c \<notin> set s"
  by (induction s) auto

lemma strchr_Some: "strchr c s = Some (a, b) \<Longrightarrow> s = a @ c # b \<and> c \<notin> set a"
  by (induction s arbitrary: a) (auto split: if_splits)

lemma strrchr_None: "strrchr c s = None \<longleftrightarrow> c \<notin> set s"
  by (induction s) (auto split: option.splits)

lemma strrchr_append: "c \<notin> set b \<Longrightarrow> strrchr c (a @ c # b) = Some (a, b)"
  by (induction a) (auto simp: strrchr_None[THEN iffD2])

lemma strtok_from_append:
  "c \<notin> set w \<Longrightarrow> strtok_from c tok (w @ s) = strtok_from c (tok @ w) s"
  by (induction w arbitrary: tok) auto

section \<open>What is printed is parsed\<close>

lemma digit_value_char: "n < 36 \<Longrightarrow> digit_value (digit_char n) = Some n"
  by (auto simp: digit_value_def digit_char_def Let_def)

lemma read_digits_append:
  "(\<And>c. c \<in> set s \<Longrightarrow> \<exists>d < b. digit_value c = Some d) \<Longrightarrow>
     read_digits b (s @ t) acc = read_digits b t (read_digits b s acc)"
  by (induction s arbitrary: acc) (force split: option.splits)+

lemma show_nat_digits:
  "2 \<le> b \<Longrightarrow> b \<le> 36 \<Longrightarrow> c \<in> set (show_nat b n) \<Longrightarrow> \<exists>d < b. digit_value c = Some d"
proof (induction b n rule: show_nat.induct)
  case (1 b n)
  show ?case
  proof (cases "n < b")
    case True
    with 1(4) have "c = digit_char n" by (simp add: show_nat.simps[of b n])
    with True 1(3) show ?thesis by (auto simp: digit_value_char)
  next
    case False
    with 1(4) 1(2) have "c \<in> set (show_nat b (n div b)) \<or> c = digit_char (n mod b)"
      by (auto simp: show_nat.simps[of b n])
    moreover have m: "n mod b < b" using 1(2) by simp
    moreover have "digit_value (digit_char (n mod b)) = Some (n mod b)"
      using m 1(3) by (intro digit_value_char) simp
    ultimately show ?thesis using 1(1)[OF _ 1(2,3)] False 1(2,3) by auto
  qed
qed

lemma read_show_nat:
  "2 \<le> b \<Longrightarrow> b \<le> 36 \<Longrightarrow> read_digits b (show_nat b n) 0 = n"
proof (induction b n rule: show_nat.induct)
  case (1 b n)
  show ?case
  proof (cases "n < b")
    case True
    with 1(3) show ?thesis by (simp add: show_nat.simps[of b n] digit_value_char)
  next
    case False
    have m: "n mod b < b" using 1(2) by simp
    have "read_digits b (show_nat b (n div b) @ [digit_char (n mod b)]) 0 =
        read_digits b [digit_char (n mod b)] (n div b)"
      using 1(1)[OF _ 1(2,3)] False 1(2,3) show_nat_digits[OF 1(2,3)]
      by (subst read_digits_append) auto
    moreover have "digit_value (digit_char (n mod b)) = Some (n mod b)"
      using m 1(3) by (intro digit_value_char) simp
    ultimately show ?thesis using False 1(2,3) m by (simp add: show_nat.simps[of b n])
  qed
qed

lemma digit_not_space:
  "digit_value c = Some d \<Longrightarrow> \<not> isspace c \<and> c \<noteq> CHR ''-'' \<and> c \<noteq> CHR ''+''"
  by (auto simp: digit_value_def isspace_def Let_def split: if_splits)

lemma show_nat_not_Nil [simp]: "show_nat b n \<noteq> []"
  by (subst show_nat.simps) simp

lemma strtol_show_dec: "n < 2 ^ 63 \<Longrightarrow> strtol (show_dec n) 10 = int n"
proof -
  assume n: "n < 2 ^ 63"
  obtain c s where s: "show_dec n = c # s" by (cases "show_dec n") auto
  then obtain d where "digit_value c = Some d" using show_nat_digits[of 10 c n] by auto
  then have "\<not> isspace c \<and> c \<noteq> CHR ''-'' \<and> c \<noteq> CHR ''+''" by (rule digit_not_space)
  with n s show ?thesis using read_show_nat[of 10 n]
    by (simp add: strtol_def signed_digits_def Let_def)
qed

lemma show_nat_head: "2 \<le> b \<Longrightarrow> b \<le> 36 \<Longrightarrow> hd (show_nat b n) = CHR ''0'' \<Longrightarrow> n = 0"
proof (induction b n rule: show_nat.induct)
  case (1 b n)
  show ?case
  proof (cases "n < b")
    case True
    with 1(4) have "digit_char n = CHR ''0''" by (simp add: show_nat.simps[of b n])
    with True 1(3) digit_value_char[of n] show ?thesis by (simp add: digit_value_def)
  next
    case False
    with 1(4) 1(2) have "hd (show_nat b (n div b)) = CHR ''0''" by (simp add: show_nat.simps[of b n])
    with 1(1)[OF _ 1(2,3)] False 1(2) have "n div b = 0" by auto
    with False 1(2) show ?thesis by (simp add: div_eq_0_iff)
  qed
qed

lemma show_int_not_Nil [simp]: "show_int i \<noteq> []"
  by (simp add: show_int_def)

lemma show_dec_chars: "c \<in> set (show_dec n) \<Longrightarrow> isdigit c"
  using show_nat_digits[of 10 c n] by (auto simp: digit_value_def isdigit_def Let_def split: if_splits)

lemma show_int_chars: "c \<in> set (show_int i) \<Longrightarrow> isdigit c \<or> c = CHR ''-''"
  by (auto simp: show_int_def dest: show_dec_chars split: if_splits)

text \<open>A decimal number is read back in base 0, whatever stands behind it.\<close>

lemma read_digits_stop:
  "rest = [] \<or> digit_value (hd rest) = None \<Longrightarrow> read_digits b rest acc = acc"
  by (cases rest) auto

lemma signed_digits_show_dec:
  assumes "rest = [] \<or> (digit_value (hd rest) = None)"
  shows "signed_digits (show_dec n @ rest) 0 = (False, n)"
    and "signed_digits (CHR ''-'' # show_dec n @ rest) 0 = (True, n)"
proof -
  obtain c s where cs: "show_dec n = c # s" by (cases "show_dec n") auto
  then obtain d where "digit_value c = Some d" using show_nat_digits[of 10 c n] by auto
  then have c: "\<not> isspace c \<and> c \<noteq> CHR ''-'' \<and> c \<noteq> CHR ''+''" by (rule digit_not_space)
  have zero: "c = CHR ''0'' \<Longrightarrow> n = 0 \<and> s = []"
    using show_nat_head[of 10 n] cs by (auto simp: show_nat.simps)
  have x: "\<not> (hd rest = CHR ''x'' \<or> hd rest = CHR ''X'') \<or> rest = []"
    using assms by (auto simp: digit_value_def)
  have no0x: "drop_0x (show_dec n @ rest) = show_dec n @ rest"
    using cs zero x by (auto simp: drop_0x_def split: list.splits)
  have v10: "read_digits 10 (show_dec n @ rest) 0 = n"
    using read_digits_stop[OF assms] show_nat_digits[of 10 _ n]
    by (subst read_digits_append) (auto simp: read_show_nat)
  have v8: "c = CHR ''0'' \<Longrightarrow> read_digits 8 (show_dec n @ rest) 0 = n"
    using zero cs read_digits_stop[OF assms] by (simp add: digit_value_def)
  have v: "read_digits (if c = CHR ''0'' then 8 else 10) (c # s @ rest) 0 = n" using v8 v10 cs by auto
  show "signed_digits (show_dec n @ rest) 0 = (False, n)"
    using c no0x v cs by (simp add: signed_digits_def Let_def)
  have "\<not> isspace (CHR ''-'')" by (simp add: isspace_def)
  then show "signed_digits (CHR ''-'' # show_dec n @ rest) 0 = (True, n)"
    using c no0x v cs by (simp add: signed_digits_def Let_def)
qed

lemma strtol0_show_int:
  assumes "rest = [] \<or> digit_value (hd rest) = None" "- (2 ^ 63) \<le> i" "i < 2 ^ 63"
  shows "strtol (show_int i @ rest) 0 = i"
  using assms(2,3) signed_digits_show_dec[OF assms(1)] by (simp add: strtol_def show_int_def)

lemma sint_range': "- (2 ^ 63) \<le> sint (w :: u64) \<and> sint w < 2 ^ 63"
  using sint_range_size[of w] by (simp add: word_size)

section \<open>Signals\<close>

text \<open>The default action of a signal that is neither caught nor ignored ends the process, except for those
  that are discarded or only stop and continue it: SIGCHLD, SIGCONT, SIGSTOP, SIGTSTP, SIGTTIN, SIGTTOU, SIGURG
  and SIGWINCH. \<open>caught\<close>: what the process catches or ignores.\<close>

definition sig_ends :: "int set \<Rightarrow> nat \<Rightarrow> bool" where
  "sig_ends caught signo \<longleftrightarrow> int signo \<notin> caught \<and> signo \<notin> {17, 18, 19, 20, 21, 22, 23, 28}"

text \<open>How far a run of a program that handles signals has come.\<close>

datatype run_end = Goes_on | Ended | Killed_by nat

end
