(* ===== verification/Getopt.thy ===== *)
theory Getopt
  imports CLib
begin

text \<open>
  \<open>getopt\<close> and \<open>getopt_long\<close> of the GNU C library, as the programs call them: in a loop until
  the result is -1. The loop sees a list of events: the returned value and \<open>optarg\<close>. Words that
  are no options are passed over (the library moves them behind the options), \<open>--\<close> ends the
  options, a long name may be abbreviated as long as it is unambiguous, and every mistake is
  reported as \<open>?\<close>.
\<close>

section \<open>The library\<close>

datatype has_arg = no_argument | required_argument

text \<open>\<open>struct option\<close> with a null \<open>flag\<close>.\<close>

record long_option =
  opt_name :: string
  opt_has_arg :: has_arg
  opt_val :: nat

type_synonym opt_event = "nat \<times> string option"

definition opt_error :: opt_event where
  "opt_error = (63, None)"

definition opt_char :: "char \<Rightarrow> nat" where
  "opt_char c = of_char c"

text \<open>What \<open>optstring\<close> says of a character: nothing, or whether it takes an argument.\<close>

fun short_spec :: "string \<Rightarrow> char \<Rightarrow> has_arg option" where
  "short_spec [] c = None"
| "short_spec (x # s) c =
     (if x = c then
        (if c = CHR '':'' \<or> c = CHR '';'' then None
         else Some (if s \<noteq> [] \<and> hd s = CHR '':'' then required_argument else no_argument))
      else short_spec s c)"

text \<open>The characters behind a dash, with the words that follow; an argument is the rest of the
  word or the next word.\<close>

fun short_opts :: "string \<Rightarrow> string \<Rightarrow> string list \<Rightarrow> opt_event list \<times> string list" where
  "short_opts spec [] ws = ([], ws)"
| "short_opts spec (c # cs) ws =
     (case short_spec spec c of
        Some required_argument \<Rightarrow>
          if cs \<noteq> [] then ([(opt_char c, Some cs)], ws)
          else (case ws of [] \<Rightarrow> ([opt_error], [])
                | w # ws' \<Rightarrow> ([(opt_char c, Some w)], ws'))
      | Some no_argument \<Rightarrow> (case short_opts spec cs ws of (es, ws') \<Rightarrow> ((opt_char c, None) # es, ws'))
      | None \<Rightarrow> (case short_opts spec cs ws of (es, ws') \<Rightarrow> (opt_error # es, ws')))"

text \<open>The option a long name stands for: one of that name, or all it abbreviates are alike.\<close>

definition same_option :: "long_option \<Rightarrow> long_option \<Rightarrow> bool" where
  "same_option a b \<longleftrightarrow> opt_has_arg a = opt_has_arg b \<and> opt_val a = opt_val b"

definition long_match :: "long_option list \<Rightarrow> string \<Rightarrow> long_option option" where
  "long_match opts name =
     (case List.find (\<lambda>p. opt_name p = name) opts of
        Some p \<Rightarrow> Some p
      | None \<Rightarrow>
          (case filter (\<lambda>p. take (length name) (opt_name p) = name) opts of
             [] \<Rightarrow> None
           | p # ps \<Rightarrow> if list_all (same_option p) ps then Some p else None))"

definition split_eq :: "string \<Rightarrow> string \<times> string option" where
  "split_eq w = (case strchr (CHR ''='') w of None \<Rightarrow> (w, None) | Some (n, v) \<Rightarrow> (n, Some v))"

definition long_opt :: "long_option list \<Rightarrow> string \<Rightarrow> string list \<Rightarrow> opt_event \<times> string list" where
  "long_opt opts w ws =
     (case split_eq w of (name, val) \<Rightarrow>
        case long_match opts name of
          None \<Rightarrow> (opt_error, ws)
        | Some p \<Rightarrow>
            (case (opt_has_arg p, val) of
               (no_argument, None) \<Rightarrow> ((opt_val p, None), ws)
             | (no_argument, Some v) \<Rightarrow> (opt_error, ws)
             | (required_argument, Some v) \<Rightarrow> ((opt_val p, Some v), ws)
             | (required_argument, None) \<Rightarrow>
                 (case ws of [] \<Rightarrow> (opt_error, []) | a # ws' \<Rightarrow> ((opt_val p, Some a), ws'))))"

lemma short_opts_shorter: "length (snd (short_opts spec cs ws)) \<le> length ws"
  by (induction spec cs ws rule: short_opts.induct)
    (auto split: option.splits has_arg.splits list.splits prod.splits)

lemma long_opt_shorter: "length (snd (long_opt opts w ws)) \<le> length ws"
  by (auto simp: long_opt_def split: prod.splits option.splits has_arg.splits list.splits)

text \<open>Plain \<open>getopt\<close> has no long names: there a second dash is one more character.\<close>

function get_opts :: "string \<Rightarrow> long_option list option \<Rightarrow> string list \<Rightarrow> opt_event list" where
  "get_opts spec longopts [] = []"
| "get_opts spec longopts (w # ws) =
     (if w = ''--'' then []
      else if take 2 w = ''--'' \<and> longopts \<noteq> None then
        (let r = long_opt (the longopts) (drop 2 w) ws in fst r # get_opts spec longopts (snd r))
      else if take 1 w = ''-'' \<and> w \<noteq> ''-'' then
        (let r = short_opts spec (tl w) ws in fst r @ get_opts spec longopts (snd r))
      else get_opts spec longopts ws)"
  by pat_completeness auto
termination
  by (relation "measure (\<lambda>(_, _, ws). length ws)")
    (auto simp: le_imp_less_Suc short_opts_shorter long_opt_shorter)

declare get_opts.simps(2) [simp del]

text \<open>\<open>getopt_long(argc, argv, spec, opts, NULL)\<close> and \<open>getopt(argc, argv, spec)\<close>.\<close>

definition getopt_long :: "string \<Rightarrow> long_option list \<Rightarrow> string list \<Rightarrow> opt_event list" where
  "getopt_long spec opts argv = get_opts spec (Some opts) (tl argv)"

definition getopt :: "string \<Rightarrow> string list \<Rightarrow> opt_event list" where
  "getopt spec argv = get_opts spec None (tl argv)"

section \<open>Words written for an option\<close>

text \<open>An option table is well formed when its names are distinct and have no equality sign.\<close>

definition options_ok :: "long_option list \<Rightarrow> bool" where
  "options_ok opts \<longleftrightarrow> distinct (map opt_name opts) \<and>
     list_all (\<lambda>p. opt_name p \<noteq> [] \<and> CHR ''='' \<notin> set (opt_name p)) opts"

definition long_word :: "long_option \<Rightarrow> string option \<Rightarrow> string" where
  "long_word p arg = ''--'' @ opt_name p @ (case arg of None \<Rightarrow> [] | Some v \<Rightarrow> CHR ''='' # v)"

definition arg_fits :: "long_option \<Rightarrow> string option \<Rightarrow> bool" where
  "arg_fits p arg \<longleftrightarrow> (opt_has_arg p = required_argument \<longleftrightarrow> arg \<noteq> None)"

lemma long_match_exact:
  assumes "options_ok opts" "p \<in> set opts"
  shows "long_match opts (opt_name p) = Some p"
proof -
  have "inj_on opt_name (set opts)" using assms(1) by (simp add: options_ok_def distinct_map)
  then have "List.find (\<lambda>q. opt_name q = opt_name p) opts = Some p"
    using assms(2) by (subst find_Some_iff_unique) (auto dest: inj_onD)
  then show ?thesis by (simp add: long_match_def)
qed

lemma long_opt_word:
  assumes "options_ok opts" "p \<in> set opts" "arg_fits p arg"
  shows "long_opt opts (drop 2 (long_word p arg)) ws = ((opt_val p, arg), ws)"
proof -
  have eq: "CHR ''='' \<notin> set (opt_name p)" using assms(1,2) by (auto simp: options_ok_def list_all_iff)
  then have "split_eq (drop 2 (long_word p arg)) = (opt_name p, arg)"
    by (auto simp: split_eq_def long_word_def strchr_append strchr_None[THEN iffD2] split: option.splits)
  with long_match_exact[OF assms(1,2)] assms(3) show ?thesis
    by (auto simp: long_opt_def arg_fits_def split: has_arg.splits option.splits)
qed

text \<open>Options written out in full are seen in their order, whatever stands between them that is
  no option.\<close>

lemma getopt_long_words:
  assumes "options_ok opts" "\<forall>(p, arg) \<in> set pas. p \<in> set opts \<and> arg_fits p arg"
  shows "getopt_long spec opts (prog # map (\<lambda>(p, arg). long_word p arg) pas) =
    map (\<lambda>(p, arg). (opt_val p, arg)) pas"
  using assms(2)
proof (induction pas)
  case (Cons pa pas)
  obtain p arg where pa: "pa = (p, arg)" by (cases pa)
  with Cons.prems have fit: "p \<in> set opts" "arg_fits p arg" by auto
  then have ne: "opt_name p \<noteq> []" using assms(1) by (auto simp: options_ok_def list_all_iff)
  then have w: "long_word p arg \<noteq> ''--''" "take 2 (long_word p arg) = ''--''"
    by (auto simp: long_word_def)
  show ?case using Cons.IH Cons.prems pa w long_opt_word[OF assms(1) fit]
    by (simp add: getopt_long_def get_opts.simps(2) Let_def)
qed (simp add: getopt_long_def)

end
