(* ===== verification/NetHdr.thy ===== *)
theory NetHdr
  imports Prelude
begin

text \<open>
  The packet headers of \<open>libs/app_utils/api/net.h\<close> and the length updates of
  \<open>libs/app_utils/src/net.c\<close>. A packet is a region of a flat byte memory; a header
  pointer is its address, a field is read and written at its offset in the packed
  structure. \<open>rd16\<close> is \<open>ntohs\<close> of the field and \<open>wr16\<close> stores \<open>htons\<close> of the value, so
  that a 16-bit value here is always the value on the wire, on a host of either byte
  order; where the bit fields of a structure depend on the byte order, the little-endian
  branch is the one modelled. Lengths are \<open>int\<close>, as in the code.
\<close>

section \<open>Memory\<close>

definition rd16 :: "mem \<Rightarrow> nat \<Rightarrow> u16" where
  "rd16 m a = word_cat (m a) (m (a + 1))"

definition wr16 :: "nat \<Rightarrow> u16 \<Rightarrow> mem \<Rightarrow> mem" where
  "wr16 a v m = m(a := ucast (drop_bit 8 v), a + 1 := ucast v)"

text \<open>\<open>htons\<close> of an \<open>int\<close>: the conversion keeps the low 16 bits.\<close>

definition to_u16 :: "int \<Rightarrow> u16" where
  "to_u16 n = word_of_int n"

definition wr_bytes :: "nat \<Rightarrow> u8 list \<Rightarrow> mem \<Rightarrow> mem" where
  "wr_bytes a bs m = (\<lambda>x. if a \<le> x \<and> x < a + length bs then bs ! (x - a) else m x)"

definition rd_bytes :: "mem \<Rightarrow> nat \<Rightarrow> nat \<Rightarrow> u8 list" where
  "rd_bytes m a n = map (\<lambda>i. m (a + i)) [0..<n]"

section \<open>Ethernet\<close>

definition ETH_P_VLAN :: u16 where "ETH_P_VLAN = 0x8100"
definition ETH_P_LOOP :: u16 where "ETH_P_LOOP = 0x0060"
definition ETH_P_ECHO :: u16 where "ETH_P_ECHO = 0x0200"
definition ETH_P_PPP_DISC :: u16 where "ETH_P_PPP_DISC = 0x8863"
definition ETH_P_PPP_SES :: u16 where "ETH_P_PPP_SES = 0x8864"
definition ETH_P_IP :: u16 where "ETH_P_IP = 0x0800"
definition ETH_P_ARP :: u16 where "ETH_P_ARP = 0x0806"
definition ETH_P_RARP :: u16 where "ETH_P_RARP = 0x8035"
definition ETH_P_IPV6 :: u16 where "ETH_P_IPV6 = 0x86DD"

lemmas eth_p_defs = ETH_P_VLAN_def ETH_P_LOOP_def ETH_P_ECHO_def ETH_P_PPP_DISC_def
  ETH_P_PPP_SES_def ETH_P_IP_def ETH_P_ARP_def ETH_P_RARP_def ETH_P_IPV6_def

definition get_eth_type_from_addr :: "mem \<Rightarrow> nat \<Rightarrow> u16" where
  "get_eth_type_from_addr m addr = rd16 m addr"

text \<open>\<open>set_eth_type_to_addr\<close>; the stored value it returns is in network order, \<open>type\<close> here.\<close>

definition set_eth_type_to_addr :: "u16 \<Rightarrow> nat \<Rightarrow> mem \<Rightarrow> u16 \<times> mem" where
  "set_eth_type_to_addr ty addr m = (ty, wr16 addr ty m)"

definition eth_is_vlan :: "mem \<Rightarrow> nat \<Rightarrow> bool" where
  "eth_is_vlan m p \<longleftrightarrow> rd16 m (p + 12) = ETH_P_VLAN"

definition eth_type :: "mem \<Rightarrow> nat \<Rightarrow> u16" where
  "eth_type m p = (if rd16 m (p + 12) \<noteq> ETH_P_VLAN then rd16 m (p + 12) else rd16 m (p + 16))"

definition eth_hdr_len :: "mem \<Rightarrow> nat \<Rightarrow> nat" where
  "eth_hdr_len m p = (if eth_is_vlan m p then 18 else 14)"

definition eth_data :: "mem \<Rightarrow> nat \<Rightarrow> nat" where
  "eth_data m p = p + eth_hdr_len m p"

section \<open>IPv4 and what it carries\<close>

definition IPPROTO_ICMP :: u8 where "IPPROTO_ICMP = 1"
definition IPPROTO_IGMP :: u8 where "IPPROTO_IGMP = 2"
definition IPPROTO_TCP :: u8 where "IPPROTO_TCP = 6"
definition IPPROTO_UDP :: u8 where "IPPROTO_UDP = 17"
definition IPPROTO_FRAGMENT :: u8 where "IPPROTO_FRAGMENT = 44"
definition IPPROTO_ICMPV6 :: u8 where "IPPROTO_ICMPV6 = 58"

lemmas ipproto_defs = IPPROTO_ICMP_def IPPROTO_IGMP_def IPPROTO_TCP_def IPPROTO_UDP_def
  IPPROTO_FRAGMENT_def IPPROTO_ICMPV6_def

definition ip_protocol :: "mem \<Rightarrow> nat \<Rightarrow> u8" where "ip_protocol m iph = m (iph + 9)"

text \<open>\<open>ihl\<close> is the low half of the first byte.\<close>

definition ip_hdr_len :: "mem \<Rightarrow> nat \<Rightarrow> int" where
  "ip_hdr_len m iph = uint (m iph AND 0x0F) * 4"

definition ip_pkt_len :: "mem \<Rightarrow> nat \<Rightarrow> int" where
  "ip_pkt_len m iph = uint (rd16 m (iph + 2))"

definition ip_data :: "mem \<Rightarrow> nat \<Rightarrow> nat" where
  "ip_data m iph = iph + nat (ip_hdr_len m iph)"

definition ip_data_len :: "mem \<Rightarrow> nat \<Rightarrow> int" where
  "ip_data_len m iph = ip_pkt_len m iph - ip_hdr_len m iph"

definition set_ip_pkt_len :: "nat \<Rightarrow> int \<Rightarrow> mem \<Rightarrow> mem" where
  "set_ip_pkt_len iph len m = wr16 (iph + 2) (to_u16 len) m"

definition icmp_hdr_len :: "mem \<Rightarrow> nat \<Rightarrow> int" where
  "icmp_hdr_len m p = (if (m p = 8 \<or> m p = 0) \<and> m (p + 1) = 0 then 8 else 4)"

definition icmp6_hdr_len :: "mem \<Rightarrow> nat \<Rightarrow> int" where
  "icmp6_hdr_len m p = (if (m p = 128 \<or> m p = 129) \<and> m (p + 1) = 0 then 8 else 4)"

text \<open>\<open>doff\<close> is the high half of byte 12.\<close>

definition tcp_hdr_len :: "mem \<Rightarrow> nat \<Rightarrow> int" where
  "tcp_hdr_len m p = uint (drop_bit 4 (m (p + 12))) * 4"

definition udp_data_len :: "mem \<Rightarrow> nat \<Rightarrow> int" where
  "udp_data_len m iph = ip_data_len m iph - 8"

definition tcp_data_len :: "mem \<Rightarrow> nat \<Rightarrow> int" where
  "tcp_data_len m iph = ip_data_len m iph - tcp_hdr_len m (ip_data m iph)"

definition arp_pkt_len :: "mem \<Rightarrow> nat \<Rightarrow> int" where
  "arp_pkt_len m p = 8 + 12 + uint (m (p + 5)) * 2"

section \<open>IPv6\<close>

definition IPV6_HDR_LEN :: nat where "IPV6_HDR_LEN = 40"

definition ip6_nexthdr :: "mem \<Rightarrow> nat \<Rightarrow> u8" where "ip6_nexthdr m ip6h = m (ip6h + 6)"

definition ip6_data :: "nat \<Rightarrow> nat" where "ip6_data ip6h = ip6h + IPV6_HDR_LEN"

definition ip6_data_len :: "mem \<Rightarrow> nat \<Rightarrow> int" where
  "ip6_data_len m ip6h = uint (rd16 m (ip6h + 4))"

definition ip6_pkt_len :: "mem \<Rightarrow> nat \<Rightarrow> int" where
  "ip6_pkt_len m ip6h = ip6_data_len m ip6h + int IPV6_HDR_LEN"

definition set_ip6_pkt_len :: "nat \<Rightarrow> int \<Rightarrow> mem \<Rightarrow> mem" where
  "set_ip6_pkt_len ip6h len m = wr16 (ip6h + 4) (to_u16 (len - int IPV6_HDR_LEN)) m"

section \<open>Fragments\<close>

text \<open>For IPv4 the mask keeps the more-fragments bit and the offset.\<close>

definition ip_pkt_is_frag :: "mem \<Rightarrow> nat \<Rightarrow> int" where
  "ip_pkt_is_frag m p =
     (if eth_type m p = ETH_P_IP then uint (rd16 m (eth_data m p + 6) AND (2 ^ 14 - 1))
      else if eth_type m p = ETH_P_IPV6
           then (if ip6_nexthdr m (eth_data m p) = IPPROTO_FRAGMENT then 1 else 0)
      else 0)"

definition ip_frag_offset :: "mem \<Rightarrow> nat \<Rightarrow> int" where
  "ip_frag_offset m p =
     (if eth_type m p = ETH_P_IP then uint (rd16 m (eth_data m p + 6) AND (2 ^ 13 - 1))
      else uint (drop_bit 3 (rd16 m (ip6_data (eth_data m p) + 2))))"

definition ip_pkt_can_frag :: "mem \<Rightarrow> nat \<Rightarrow> bool" where
  "ip_pkt_can_frag m p \<longleftrightarrow>
     (if ip_pkt_is_frag m p \<noteq> 0 then False
      else if eth_type m p \<noteq> ETH_P_IP \<and> eth_type m p \<noteq> ETH_P_IPV6 then False
      else True)"

section \<open>Setting the lengths of a frame\<close>

definition update_len_v4 :: "nat \<Rightarrow> int \<Rightarrow> mem \<Rightarrow> mem" where
  "update_len_v4 p len m =
     (let iph = eth_data m p;
          udph = ip_data m iph;
          m1 = wr16 (iph + 2) (to_u16 (len - int (eth_hdr_len m p))) m
      in if ip_protocol m1 iph = IPPROTO_UDP
         then wr16 (udph + 4) (to_u16 (ip_data_len m1 iph)) m1 else m1)"

definition update_len_v6 :: "nat \<Rightarrow> int \<Rightarrow> mem \<Rightarrow> mem" where
  "update_len_v6 p len m =
     (let ip6h = eth_data m p;
          udph = ip6_data ip6h;
          m1 = set_ip6_pkt_len ip6h (len - int (eth_hdr_len m p)) m
      in if ip6_nexthdr m1 ip6h = IPPROTO_UDP
         then wr16 (udph + 4) (to_u16 (ip6_data_len m1 ip6h)) m1 else m1)"

definition update_len :: "nat \<Rightarrow> int \<Rightarrow> mem \<Rightarrow> mem" where
  "update_len p len m =
     (if eth_type m p = ETH_P_IP then update_len_v4 p len m
      else if eth_type m p = ETH_P_IPV6 then update_len_v6 p len m
      else m)"

section \<open>Reading and writing fields\<close>

lemma rd16_wr16_same [mem_simps]: "rd16 (wr16 a v m) a = v"
  by (simp add: rd16_def wr16_def, intro bit_word_eqI)
    (auto simp: bit_word_cat_iff bit_simps)

lemma rd16_wr16_other [mem_simps]:
  "a + 1 < b \<or> b + 1 < a \<Longrightarrow> rd16 (wr16 b v m) a = rd16 m a"
  by (auto simp: rd16_def wr16_def)

lemma wr16_other [mem_simps]: "x \<noteq> a \<Longrightarrow> x \<noteq> a + 1 \<Longrightarrow> wr16 a v m x = m x"
  by (simp add: wr16_def)

lemma uint_cat: "uint (word_cat (x :: u8) (y :: u8) :: u16) = uint x * 256 + uint y"
  by (transfer) (simp add: concat_bit_eq take_bit_eq_mod push_bit_eq_mult)

lemma rd16_unat: "unat (rd16 m a) = unat (m a) * 256 + unat (m (a + 1))"
proof -
  have "int (unat (rd16 m a)) = int (unat (m a) * 256 + unat (m (a + 1)))"
    by (simp add: rd16_def uint_cat)
  then show ?thesis by (simp only: of_nat_eq_iff)
qed

lemma rd16_cong: "m' a = m a \<Longrightarrow> m' (a + 1) = m (a + 1) \<Longrightarrow> rd16 m' a = rd16 m a"
  by (simp add: rd16_def)

lemma wr16_wr16: "wr16 a v (wr16 a w m) = wr16 a v m"
  by (auto simp: wr16_def fun_eq_iff)

lemma cat_high: "ucast (drop_bit 8 (word_cat (x :: u8) (y :: u8) :: u16)) = x"
  by (intro bit_word_eqI) (auto simp: bit_word_cat_iff bit_simps)

lemma cat_low: "ucast (word_cat (x :: u8) (y :: u8) :: u16) = y"
  by (intro bit_word_eqI) (auto simp: bit_word_cat_iff bit_simps)

lemma wr16_restore: "wr16 a (rd16 m a) (wr16 a v m) = m"
  by (auto simp: wr16_def rd16_def cat_high cat_low fun_eq_iff)

lemma to_u16_uint: "0 \<le> n \<Longrightarrow> n < 2 ^ 16 \<Longrightarrow> uint (to_u16 n) = n"
  by (simp add: to_u16_def uint_word_of_int)

lemma eth_hdr_len_ge: "14 \<le> eth_hdr_len m p"
  by (simp add: eth_hdr_len_def)

text \<open>Writing behind the link-layer header does not change how it is read.\<close>

lemma eth_wr16:
  assumes "eth_data m p \<le> a"
  shows "rd16 (wr16 a v m) (p + 12) = rd16 m (p + 12)"
    and "eth_is_vlan (wr16 a v m) p = eth_is_vlan m p"
    and "eth_hdr_len (wr16 a v m) p = eth_hdr_len m p"
    and "eth_data (wr16 a v m) p = eth_data m p"
    and "eth_type (wr16 a v m) p = eth_type m p"
proof -
  have a: "p + 14 \<le> a" using assms eth_hdr_len_ge[of m p] by (simp add: eth_data_def)
  then show r: "rd16 (wr16 a v m) (p + 12) = rd16 m (p + 12)"
    by (intro rd16_wr16_other) simp
  then show v: "eth_is_vlan (wr16 a v m) p = eth_is_vlan m p" by (simp add: eth_is_vlan_def)
  then show "eth_hdr_len (wr16 a v m) p = eth_hdr_len m p" by (simp add: eth_hdr_len_def)
  then show "eth_data (wr16 a v m) p = eth_data m p" by (simp add: eth_data_def)
  show "eth_type (wr16 a v m) p = eth_type m p"
  proof (cases "eth_is_vlan m p")
    case True
    then have "p + 18 \<le> a" using assms by (simp add: eth_data_def eth_hdr_len_def)
    then have "rd16 (wr16 a v m) (p + 16) = rd16 m (p + 16)" by (intro rd16_wr16_other) simp
    with r show ?thesis by (simp add: eth_type_def)
  next
    case False
    with r show ?thesis by (simp add: eth_type_def eth_is_vlan_def)
  qed
qed

lemma ip_wr16:
  assumes "ip_data m iph \<le> a" and "20 \<le> ip_hdr_len m iph"
  shows "ip_hdr_len (wr16 a v m) iph = ip_hdr_len m iph"
    and "ip_pkt_len (wr16 a v m) iph = ip_pkt_len m iph"
    and "ip_protocol (wr16 a v m) iph = ip_protocol m iph"
    and "ip_data (wr16 a v m) iph = ip_data m iph"
    and "ip_data_len (wr16 a v m) iph = ip_data_len m iph"
    and "k + 1 < 20 \<Longrightarrow> rd16 (wr16 a v m) (iph + k) = rd16 m (iph + k)"
proof -
  have a: "iph + 20 \<le> a" using assms by (simp add: ip_data_def)
  then show "k + 1 < 20 \<Longrightarrow> rd16 (wr16 a v m) (iph + k) = rd16 m (iph + k)"
    by (intro rd16_wr16_other) simp
  from a show h: "ip_hdr_len (wr16 a v m) iph = ip_hdr_len m iph"
    by (simp add: ip_hdr_len_def wr16_other)
  from a show l: "ip_pkt_len (wr16 a v m) iph = ip_pkt_len m iph"
    by (simp add: ip_pkt_len_def rd16_wr16_other)
  from a show "ip_protocol (wr16 a v m) iph = ip_protocol m iph"
    by (simp add: ip_protocol_def wr16_other)
  from h show "ip_data (wr16 a v m) iph = ip_data m iph" by (simp add: ip_data_def)
  from h l show "ip_data_len (wr16 a v m) iph = ip_data_len m iph" by (simp add: ip_data_len_def)
qed

text \<open>Concrete frames for the witnesses: a UDP datagram with two bytes of data over IPv4,
  and over IPv6; every byte beyond them is zero.\<close>

definition frame4 :: mem where
  "frame4 = (\<lambda>i. let bs = [0,1,2,3,4,5, 6,7,8,9,10,11, 0x08,0x00,
       0x45,0, 0,30, 0,1, 0,0, 64,17, 0,0, 10,0,0,1, 10,0,0,2,
       0x04,0x00, 0x00,0x35, 0,10, 0,0, 0xAB,0xCD]
     in if i < length bs then bs ! i else 0)"

definition frame6 :: mem where
  "frame6 = (\<lambda>i. let bs = [0,1,2,3,4,5, 6,7,8,9,10,11, 0x86,0xDD,
       0x60,0,0,0, 0,10, 17,64] @ replicate 15 0 @ [1] @ replicate 15 0 @ [2] @
       [0x04,0x00, 0x00,0x35, 0,10, 0,0, 0xAB,0xCD]
     in if i < length bs then bs ! i else 0)"

lemma frame4_fields:
  "eth_type frame4 0 = ETH_P_IP" "eth_hdr_len frame4 0 = 14" "eth_data frame4 0 = 14"
  "ip_hdr_len frame4 14 = 20" "ip_protocol frame4 14 = IPPROTO_UDP" "ip_pkt_len frame4 14 = 30"
  "ip_pkt_is_frag frame4 0 = 0"
  by code_simp+

lemma frame6_fields:
  "eth_type frame6 0 = ETH_P_IPV6" "eth_hdr_len frame6 0 = 14" "eth_data frame6 0 = 14"
  "ip6_nexthdr frame6 14 = IPPROTO_UDP" "ip6_data_len frame6 14 = 10" "ip_pkt_is_frag frame6 0 = 0"
  by code_simp+

section \<open>Properties\<close>

text \<open>After \<open>update_len\<close> on an IPv4 frame of \<open>len\<close> bytes that fits, the link-layer
  header and the IP packet add up to \<open>len\<close>, a UDP header holds the length of the IP
  payload, and the frame is still read with the same type, tag and protocol.\<close>

theorem update_len_v4_consistent:
  assumes "eth_type m p = ETH_P_IP" and "int (eth_hdr_len m p) + 20 \<le> len"
    and "len < int (eth_hdr_len m p) + 2 ^ 16"
    and "20 \<le> ip_hdr_len m (eth_data m p)"
    and "ip_hdr_len m (eth_data m p) + int (eth_hdr_len m p) \<le> len"
  defines "m' \<equiv> update_len p len m"
  shows "eth_type m' p = ETH_P_IP \<and> eth_data m' p = eth_data m p \<and>
    ip_protocol m' (eth_data m p) = ip_protocol m (eth_data m p) \<and>
    int (eth_hdr_len m' p) + ip_pkt_len m' (eth_data m p) = len \<and>
    (ip_protocol m (eth_data m p) = IPPROTO_UDP \<longrightarrow>
       uint (rd16 m' (ip_data m' (eth_data m p) + 4)) = ip_data_len m' (eth_data m p))"
proof -
  let ?iph = "eth_data m p"
  let ?m1 = "wr16 (?iph + 2) (to_u16 (len - int (eth_hdr_len m p))) m"
  let ?u = "ip_data m ?iph"
  have e1: "eth_type ?m1 p = ETH_P_IP" "eth_data ?m1 p = ?iph" "eth_hdr_len ?m1 p = eth_hdr_len m p"
    using assms(1) by (simp_all add: eth_wr16)
  have h1: "ip_hdr_len ?m1 ?iph = ip_hdr_len m ?iph" "ip_protocol ?m1 ?iph = ip_protocol m ?iph"
    by (simp_all add: ip_hdr_len_def ip_protocol_def wr16_other)
  have l1: "ip_pkt_len ?m1 ?iph = len - int (eth_hdr_len m p)"
    unfolding ip_pkt_len_def rd16_wr16_same by (rule to_u16_uint) (use assms in linarith)+
  have d1: "ip_data ?m1 ?iph = ?u" using h1 by (simp add: ip_data_def)
  have m': "m' = (if ip_protocol m ?iph = IPPROTO_UDP
      then wr16 (?u + 4) (to_u16 (ip_data_len ?m1 ?iph)) ?m1 else ?m1)"
    using assms(1) h1 by (simp add: m'_def update_len_def update_len_v4_def Let_def)
  show ?thesis
  proof (cases "ip_protocol m ?iph = IPPROTO_UDP")
    case False
    with e1 h1 l1 m' show ?thesis by simp
  next
    case True
    have u: "ip_data ?m1 ?iph \<le> ?u + 4" using d1 by simp
    have "?iph \<le> ?u" by (simp add: ip_data_def)
    then have "eth_data ?m1 p \<le> ?u + 4" using e1 by simp
    note e2 = eth_wr16[OF this]
    have "20 \<le> ip_hdr_len ?m1 ?iph" using h1 assms(4) by simp
    note i2 = ip_wr16[OF u this]
    have "0 \<le> ip_data_len ?m1 ?iph \<and> ip_data_len ?m1 ?iph < 2 ^ 16"
      using l1 h1 assms(3-5) by (simp add: ip_data_len_def)
    then have "uint (to_u16 (ip_data_len ?m1 ?iph)) = ip_data_len ?m1 ?iph"
      by (intro to_u16_uint) auto
    with True e1 e2 i2 h1 l1 d1 show ?thesis
      by (simp add: m' rd16_wr16_same)
  qed
qed

lemma update_len_v4_consistent_witness:
  "int (eth_hdr_len (update_len 0 44 frame4) 0) + ip_pkt_len (update_len 0 44 frame4) 14 = 44 \<and>
   uint (rd16 (update_len 0 44 frame4) (ip_data (update_len 0 44 frame4) 14 + 4)) =
     ip_data_len (update_len 0 44 frame4) 14"
  using update_len_v4_consistent[of frame4 0 44] by (simp add: frame4_fields)

text \<open>The same for IPv6: the payload length is what remains of the frame after the
  40-byte header, and a UDP header holds it too.\<close>

theorem update_len_v6_consistent:
  assumes "eth_type m p = ETH_P_IPV6" and "int (eth_hdr_len m p) + 40 \<le> len"
    and "len < int (eth_hdr_len m p) + 40 + 2 ^ 16"
  defines "m' \<equiv> update_len p len m"
  shows "eth_type m' p = ETH_P_IPV6 \<and> eth_data m' p = eth_data m p \<and>
    int (eth_hdr_len m' p) + ip6_pkt_len m' (eth_data m p) = len \<and>
    (ip6_nexthdr m (eth_data m p) = IPPROTO_UDP \<longrightarrow>
       uint (rd16 m' (ip6_data (eth_data m p) + 4)) = ip6_data_len m' (eth_data m p))"
proof -
  let ?h = "eth_data m p"
  let ?m1 = "wr16 (?h + 4) (to_u16 (len - int (eth_hdr_len m p) - 40)) m"
  have e1: "eth_type ?m1 p = ETH_P_IPV6" "eth_data ?m1 p = ?h" "eth_hdr_len ?m1 p = eth_hdr_len m p"
    using assms(1) by (simp_all add: eth_wr16)
  have n1: "ip6_nexthdr ?m1 ?h = ip6_nexthdr m ?h" by (simp add: ip6_nexthdr_def wr16_other)
  have u: "uint (to_u16 (len - int (eth_hdr_len m p) - 40)) = len - int (eth_hdr_len m p) - 40"
    by (rule to_u16_uint) (use assms in linarith)+
  then have l1: "ip6_data_len ?m1 ?h = len - int (eth_hdr_len m p) - 40"
    by (simp add: ip6_data_len_def rd16_wr16_same)
  let ?m2 = "wr16 (ip6_data ?h + 4) (to_u16 (ip6_data_len ?m1 ?h)) ?m1"
  have m': "m' = (if ip6_nexthdr m ?h = IPPROTO_UDP then ?m2 else ?m1)"
    using assms(1) n1 by (simp add: m'_def update_len_def update_len_v6_def set_ip6_pkt_len_def
        IPV6_HDR_LEN_def Let_def eth_p_defs)
  have "eth_data ?m1 p \<le> ip6_data ?h + 4" using e1 by (simp add: ip6_data_def)
  note e2 = eth_wr16[OF this]
  have l2: "ip6_data_len ?m2 ?h = ip6_data_len ?m1 ?h"
    by (simp add: ip6_data_len_def rd16_wr16_other ip6_data_def IPV6_HDR_LEN_def)
  show ?thesis
    using e1 e2 l1 l2 u by (simp add: m' rd16_wr16_same ip6_pkt_len_def IPV6_HDR_LEN_def)
qed

lemma update_len_v6_consistent_witness:
  "int (eth_hdr_len (update_len 0 64 frame6) 0) + ip6_pkt_len (update_len 0 64 frame6) 14 = 64 \<and>
   uint (rd16 (update_len 0 64 frame6) (ip6_data 14 + 4)) = ip6_data_len (update_len 0 64 frame6) 14"
  using update_len_v6_consistent[of frame6 0 64] by (simp add: frame6_fields)

end
