(* ===== verification/NetCsum.thy ===== *)
theory NetCsum
  imports NetHdr
begin

text \<open>
  The Internet checksum of \<open>libs/app_utils/src/net.c\<close> and its uses: IPv4 header, ICMP and
  IGMP, TCP and UDP over IPv4 and IPv6. The routines clear the checksum field, sum, and
  restore it: they take and return the memory. A checksum is given as the value on the
  wire; the \<open>htons\<close> at the end of the C functions is part of \<open>wr16\<close>. The running sum, a
  \<open>long\<close> of 64 bits, stays far below its bound and is a natural number.
\<close>

section \<open>The code\<close>

fun csum_loop :: "mem \<Rightarrow> nat \<Rightarrow> nat \<Rightarrow> nat \<Rightarrow> nat" where
  "csum_loop m addr 0 s = s"
| "csum_loop m addr (Suc 0) s = s + unat (m addr) * 2 ^ 8"
| "csum_loop m addr (Suc (Suc count)) s = csum_loop m (addr + 2) count (s + unat (rd16 m addr))"

text \<open>\<open>while (sum >> 16) sum = (sum & 0xffff) + (sum >> 16);\<close>\<close>

function fold_carry :: "nat \<Rightarrow> nat" where
  "fold_carry s = (if s div 2 ^ 16 \<noteq> 0 then fold_carry (s mod 2 ^ 16 + s div 2 ^ 16) else s)"
  by pat_completeness auto
termination
proof (relation "measure id")
  fix n :: nat assume "n div 2 ^ 16 \<noteq> 0"
  then have q: "0 < n div 65536" by simp
  have e: "n = 65536 * (n div 65536) + n mod 65536" by simp
  have "n mod 65536 + n div 65536 < 65536 * (n div 65536) + n mod 65536" using q by linarith
  then have "n mod 65536 + n div 65536 < n" by (simp only: e[symmetric])
  then show "(n mod 2 ^ 16 + n div 2 ^ 16, n) \<in> measure id" by simp
qed simp

declare fold_carry.simps [simp del]

definition complement16 :: "nat \<Rightarrow> u16" where
  "complement16 s = NOT (of_nat s)"

definition csum :: "mem \<Rightarrow> nat \<Rightarrow> int \<Rightarrow> u16" where
  "csum m addr count = complement16 (fold_carry (csum_loop m addr (nat count) 0))"

subsection \<open>IPv4 header, ICMP and IGMP\<close>

definition ip_check :: "nat \<Rightarrow> mem \<Rightarrow> u16 \<times> mem" where
  "ip_check iph m =
     (let ori_check = rd16 m (iph + 10);
          m1 = wr16 (iph + 10) 0 m;
          new_check = csum m1 iph (ip_hdr_len m1 iph)
      in (new_check, wr16 (iph + 10) ori_check m1))"

definition ip_update_check :: "nat \<Rightarrow> mem \<Rightarrow> mem" where
  "ip_update_check iph m = (let (c, m1) = ip_check iph m in wr16 (iph + 10) c m1)"

definition ip_checksum_wrong :: "nat \<Rightarrow> mem \<Rightarrow> bool \<times> mem" where
  "ip_checksum_wrong iph m = (let (c, m1) = ip_check iph m in (rd16 m (iph + 10) \<noteq> c, m1))"

definition icmp_igmp_check :: "nat \<Rightarrow> mem \<Rightarrow> u16 \<times> mem" where
  "icmp_igmp_check iph m =
     (let icmph = ip_data m iph;
          ori_check = rd16 m (icmph + 2);
          m1 = wr16 (icmph + 2) 0 m;
          new_check = csum m1 icmph (ip_data_len m1 iph)
      in (new_check, wr16 (icmph + 2) ori_check m1))"

definition icmp_igmp_update_check :: "nat \<Rightarrow> mem \<Rightarrow> mem" where
  "icmp_igmp_update_check iph m =
     (let icmph = ip_data m iph; (c, m1) = icmp_igmp_check iph m in wr16 (icmph + 2) c m1)"

definition icmp_igmp_checksum_wrong :: "nat \<Rightarrow> mem \<Rightarrow> bool \<times> mem" where
  "icmp_igmp_checksum_wrong iph m =
     (let icmph = ip_data m iph; (c, m1) = icmp_igmp_check iph m in (rd16 m (icmph + 2) \<noteq> c, m1))"

subsection \<open>TCP and UDP over IPv4\<close>

text \<open>The pseudo header is a local structure of twelve bytes.\<close>

definition bytes_at :: "u8 list \<Rightarrow> mem" where
  "bytes_at bs = (\<lambda>i. if i < length bs then bs ! i else 0)"

definition u16_bytes :: "u16 \<Rightarrow> u8 list" where
  "u16_bytes v = [ucast (drop_bit 8 v), ucast v]"

definition pseudo_hdr :: "nat \<Rightarrow> mem \<Rightarrow> u8 list" where
  "pseudo_hdr iph m = rd_bytes m (iph + 12) 4 @ rd_bytes m (iph + 16) 4 @
     [0, ip_protocol m iph] @ u16_bytes (to_u16 (ip_data_len m iph))"

definition tcp_udp_check_field :: "nat \<Rightarrow> mem \<Rightarrow> nat" where
  "tcp_udp_check_field iph m =
     (if ip_protocol m iph = IPPROTO_TCP then ip_data m iph + 16 else ip_data m iph + 6)"

definition tcp_udp_checksum :: "nat \<Rightarrow> mem \<Rightarrow> u16 \<times> mem" where
  "tcp_udp_checksum iph m =
     (let t_pseudo_hdr = pseudo_hdr iph m;
          check = tcp_udp_check_field iph m;
          ori_sum = rd16 m check;
          m1 = wr16 check 0 m;
          s = csum_loop (bytes_at t_pseudo_hdr) 0 12 0;
          sum2 = csum_loop m1 (ip_data m1 iph) (nat (ip_data_len m1 iph)) s;
          sum3 = fold_carry sum2;
          m2 = wr16 (tcp_udp_check_field iph m1) ori_sum m1
      in (complement16 sum3, m2))"

definition tcp_update_check :: "nat \<Rightarrow> mem \<Rightarrow> mem" where
  "tcp_update_check iph m =
     (let h = ip_data m iph; (c, m1) = tcp_udp_checksum iph m in wr16 (h + 16) c m1)"

definition udp_update_check :: "nat \<Rightarrow> mem \<Rightarrow> mem" where
  "udp_update_check iph m =
     (let h = ip_data m iph; (c, m1) = tcp_udp_checksum iph m in wr16 (h + 6) c m1)"

definition tcp_checksum_wrong :: "nat \<Rightarrow> mem \<Rightarrow> bool \<times> mem" where
  "tcp_checksum_wrong iph m =
     (let h = ip_data m iph; (c, m1) = tcp_udp_checksum iph m in (rd16 m (h + 16) \<noteq> c, m1))"

definition udp_checksum_wrong :: "nat \<Rightarrow> mem \<Rightarrow> bool \<times> mem" where
  "udp_checksum_wrong iph m =
     (let h = ip_data m iph; (c, m1) = tcp_udp_checksum iph m in (rd16 m (h + 6) \<noteq> c, m1))"

subsection \<open>TCP, UDP and ICMP over IPv6\<close>

definition pseudo_hdr6 :: "nat \<Rightarrow> mem \<Rightarrow> u8 list" where
  "pseudo_hdr6 ip6h m = rd_bytes m (ip6h + 8) 16 @ rd_bytes m (ip6h + 24) 16 @
     [0, ip6_nexthdr m ip6h] @ u16_bytes (to_u16 (ip6_data_len m ip6h))"

definition check_field6 :: "nat \<Rightarrow> mem \<Rightarrow> nat option" where
  "check_field6 ip6h m =
     (if ip6_nexthdr m ip6h = IPPROTO_TCP then Some (ip6_data ip6h + 16)
      else if ip6_nexthdr m ip6h = IPPROTO_UDP then Some (ip6_data ip6h + 6)
      else if ip6_nexthdr m ip6h = IPPROTO_ICMPV6 then Some (ip6_data ip6h + 2)
      else None)"

definition tcp_udp_checksum6 :: "nat \<Rightarrow> mem \<Rightarrow> u16 \<times> mem" where
  "tcp_udp_checksum6 ip6h m =
     (let t_pseudo_hdr6 = pseudo_hdr6 ip6h m;
          ori_sum = (case check_field6 ip6h m of None \<Rightarrow> 0 | Some a \<Rightarrow> rd16 m a);
          m1 = (case check_field6 ip6h m of None \<Rightarrow> m | Some a \<Rightarrow> wr16 a 0 m);
          s = csum_loop (bytes_at t_pseudo_hdr6) 0 36 0;
          sum2 = csum_loop m1 (ip6_data ip6h) (nat (ip6_data_len m1 ip6h)) s;
          sum3 = fold_carry sum2;
          m2 = (case check_field6 ip6h m1 of None \<Rightarrow> m1 | Some a \<Rightarrow> wr16 a ori_sum m1)
      in (complement16 sum3, m2))"

definition update_check6_at :: "nat \<Rightarrow> nat \<Rightarrow> mem \<Rightarrow> mem" where
  "update_check6_at off ip6h m =
     (let (c, m1) = tcp_udp_checksum6 ip6h m in wr16 (ip6_data ip6h + off) c m1)"

definition checksum_wrong6_at :: "nat \<Rightarrow> nat \<Rightarrow> mem \<Rightarrow> bool \<times> mem" where
  "checksum_wrong6_at off ip6h m =
     (let (c, m1) = tcp_udp_checksum6 ip6h m in (rd16 m (ip6_data ip6h + off) \<noteq> c, m1))"

definition icmp_update_check6 :: "nat \<Rightarrow> mem \<Rightarrow> mem" where
  "icmp_update_check6 = update_check6_at 2"

definition tcp_update_check6 :: "nat \<Rightarrow> mem \<Rightarrow> mem" where
  "tcp_update_check6 = update_check6_at 16"

definition udp_update_check6 :: "nat \<Rightarrow> mem \<Rightarrow> mem" where
  "udp_update_check6 = update_check6_at 6"

definition icmp_checksum_wrong6 :: "nat \<Rightarrow> mem \<Rightarrow> bool \<times> mem" where
  "icmp_checksum_wrong6 = checksum_wrong6_at 2"

definition tcp_checksum_wrong6 :: "nat \<Rightarrow> mem \<Rightarrow> bool \<times> mem" where
  "tcp_checksum_wrong6 = checksum_wrong6_at 16"

definition udp_checksum_wrong6 :: "nat \<Rightarrow> mem \<Rightarrow> bool \<times> mem" where
  "udp_checksum_wrong6 = checksum_wrong6_at 6"

subsection \<open>All checksums of a frame\<close>

definition update_check_sum_v4 :: "nat \<Rightarrow> mem \<Rightarrow> mem" where
  "update_check_sum_v4 p m =
     (let iph = eth_data m p;
          m1 = ip_update_check iph m
      in if ip_pkt_is_frag m1 p \<noteq> 0 then m1
         else if ip_protocol m1 iph = IPPROTO_ICMP then icmp_igmp_update_check iph m1
         else if ip_protocol m1 iph = IPPROTO_IGMP then icmp_igmp_update_check iph m1
         else if ip_protocol m1 iph = IPPROTO_TCP then tcp_update_check iph m1
         else if ip_protocol m1 iph = IPPROTO_UDP then udp_update_check iph m1
         else m1)"

definition update_check_sum_v6 :: "nat \<Rightarrow> mem \<Rightarrow> mem" where
  "update_check_sum_v6 p m =
     (let ip6h = eth_data m p
      in if ip_pkt_is_frag m p \<noteq> 0 then m
         else if ip6_nexthdr m ip6h = IPPROTO_TCP then tcp_update_check6 ip6h m
         else if ip6_nexthdr m ip6h = IPPROTO_UDP then udp_update_check6 ip6h m
         else if ip6_nexthdr m ip6h = IPPROTO_ICMPV6 then icmp_update_check6 ip6h m
         else m)"

definition update_check_sum :: "nat \<Rightarrow> mem \<Rightarrow> mem" where
  "update_check_sum p m =
     (if eth_type m p = ETH_P_IP then update_check_sum_v4 p m
      else if eth_type m p = ETH_P_IPV6 then update_check_sum_v6 p m
      else m)"

section \<open>Sums\<close>

lemma csum_loop_add: "csum_loop m a n s = s + csum_loop m a n 0"
proof (induction n arbitrary: a s rule: nat_induct2)
  case (step n)
  have "csum_loop m (a + 2) n (s + unat (rd16 m a)) = s + csum_loop m (a + 2) n (unat (rd16 m a))"
    using step.IH[of "a + 2" "s + unat (rd16 m a)"] step.IH[of "a + 2" "unat (rd16 m a)"] by linarith
  then show ?case by simp
qed auto

abbreviation words :: "mem \<Rightarrow> nat \<Rightarrow> nat \<Rightarrow> nat" where
  "words m a n \<equiv> csum_loop m a n 0"

lemma words_SucSuc: "words m a (Suc (Suc n)) = unat (rd16 m a) + words m (a + 2) n"
  by (simp only: csum_loop.simps add_0 csum_loop_add[of m "a + 2" n "unat (rd16 m a)"])

lemma words_cong:
  "(\<And>x. a \<le> x \<Longrightarrow> x < a + n \<Longrightarrow> m' x = m x) \<Longrightarrow> csum_loop m' a n s = csum_loop m a n s"
proof (induction n arbitrary: a s rule: nat_induct2)
  case (step n)
  have "rd16 m' a = rd16 m a" using step.prems by (intro rd16_cong) simp_all
  moreover have "csum_loop m' (a + 2) n s' = csum_loop m (a + 2) n s'" for s'
    by (rule step.IH) (use step.prems in simp)
  ultimately show ?case by simp
qed auto

text \<open>Storing a word at an even offset changes the sum by the difference.\<close>

lemma words_wr16:
  "even k \<Longrightarrow> k + 2 \<le> n \<Longrightarrow>
     words (wr16 (a + k) v m) a n + unat (rd16 m (a + k)) = words m a n + unat v"
proof (induction n arbitrary: a k rule: nat_induct2)
  case (step n)
  show ?case
  proof (cases "k = 0")
    case True
    have "words (wr16 a v m) (a + 2) n = words m (a + 2) n"
      by (rule words_cong) (simp add: wr16_other)
    with True show ?thesis by (simp add: words_SucSuc rd16_wr16_same del: csum_loop.simps)
  next
    case False
    with step.prems obtain j where j: "k = j + 2" "even j" "j + 2 \<le> n"
      by (metis add_2_eq_Suc' add_le_cancel_right dvd_add_right_iff even_Suc not_less_eq_eq
          numeral_2_eq_2 le_add_diff_inverse2 One_nat_def Suc_leI neq0_conv odd_one dvd_diffD1
          dvd_refl Suc_1 nat_less_le)
    have "rd16 (wr16 (a + k) v m) a = rd16 m a" by (rule rd16_wr16_other) (use j(1) in simp)
    moreover have "words (wr16 (a + 2 + j) v m) (a + 2) n + unat (rd16 m (a + 2 + j)) =
        words m (a + 2) n + unat v"
      by (rule step.IH) (use j in auto)
    moreover have "a + 2 + j = a + k" using j by simp
    ultimately show ?thesis by (simp only: words_SucSuc add_2_eq_Suc')
  qed
qed auto

section \<open>Folding\<close>

lemma fold_carry_step_mod: "(n mod 65536 + n div 65536) mod 65535 = n mod (65535 :: nat)"
proof -
  have e: "n = (n mod 65536 + n div 65536) + 65535 * (n div 65536)"
    using mult_div_mod_eq[of 65536 n] by linarith
  show ?thesis by (metis e mod_mult_self2)
qed

lemma fold_carry_props: "fold_carry n mod 65535 = n mod 65535 \<and> fold_carry n < 65536 \<and>
    (fold_carry n = 0 \<longleftrightarrow> n = 0)"
proof (induction n rule: fold_carry.induct)
  case (1 n)
  show ?case
  proof (cases "n div 2 ^ 16 \<noteq> 0")
    case True
    then have "fold_carry n = fold_carry (n mod 65536 + n div 65536)"
      by (subst fold_carry.simps) simp
    with 1[OF True] True show ?thesis by (auto simp: fold_carry_step_mod)
  next
    case False
    then have "fold_carry n = n" by (subst fold_carry.simps) simp
    with False show ?thesis by (simp add: div_eq_0_iff)
  qed
qed

lemma mod_65535_dvd:
  assumes "a mod 65535 = b mod (65535 :: nat)"
  shows "(65535 :: int) dvd int a - int b"
  unfolding mod_eq_dvd_iff[symmetric]
  using arg_cong[OF assms, of int] by (simp only: zmod_int of_nat_numeral)

lemma complement16_unat:
  assumes "n < 65536"
  shows "unat (complement16 n) = 65535 - n"
proof -
  have "uint (complement16 n) = (- int n - 1) mod 65536"
    unfolding complement16_def
    by (transfer) (simp add: take_bit_eq_mod not_int_def take_bit_not_take_bit)
  also have "\<dots> = (- int n - 1 + 65536) mod 65536" by (rule mod_add_self2[symmetric])
  also have "\<dots> = 65535 - int n" using assms by (subst mod_pos_pos_trivial) simp_all
  finally have "int (unat (complement16 n)) = int (65535 - n)" using assms by (simp add: of_nat_diff)
  then show ?thesis by (simp only: of_nat_eq_iff)
qed

text \<open>What a receiver computes: data plus its checksum folds to all ones.\<close>

lemma fold_carry_complement:
  "fold_carry (n + unat (complement16 (fold_carry n))) = 65535"
proof -
  let ?f = "fold_carry n" and ?g = "fold_carry (n + unat (complement16 (fold_carry n)))"
  have f: "?f mod 65535 = n mod 65535" "?f < 65536" using fold_carry_props[of n] by auto
  have c: "unat (complement16 ?f) = 65535 - ?f" by (rule complement16_unat[OF f(2)])
  have "(n + (65535 - ?f)) mod 65535 = (?f + (65535 - ?f)) mod 65535"
    using f(1) by (metis mod_add_left_eq)
  also have "\<dots> = 0" using f(2) by simp
  finally have z: "(n + unat (complement16 ?f)) mod 65535 = 0" by (simp only: c)
  have nz: "n + unat (complement16 ?f) \<noteq> 0"
    using c fold_carry_props[of n] by auto
  have "?g mod 65535 = 0" "?g < 65536" "?g \<noteq> 0"
    using fold_carry_props[of "n + unat (complement16 ?f)"] z nz by auto
  then obtain k where k: "?g = 65535 * k" by (auto simp: mod_eq_0_iff_dvd)
  with \<open>?g < 65536\<close> \<open>?g \<noteq> 0\<close> have "k = 1" by (cases k) auto
  with k show ?thesis by simp
qed

section \<open>Update, then verify\<close>

lemma ip_check_eq:
  assumes "0 \<le> ip_hdr_len m iph"
  shows "ip_check iph m = (complement16 (fold_carry
     (words (wr16 (iph + 10) 0 m) iph (nat (ip_hdr_len m iph)))), m)"
  by (simp add: ip_check_def Let_def csum_def wr16_wr16 wr16_restore ip_hdr_len_def wr16_other
      del: csum_loop.simps)
    (metis wr16_restore wr16_wr16)

lemma ip_update_check_spec:
  assumes "12 \<le> ip_hdr_len m iph"
  shows "\<exists>c. ip_update_check iph m = wr16 (iph + 10) c m \<and>
    ip_checksum_wrong iph (wr16 (iph + 10) c m) = (False, wr16 (iph + 10) c m) \<and>
    fold_carry (words (wr16 (iph + 10) c m) iph (nat (ip_hdr_len m iph))) = 65535"
proof -
  let ?W = "words (wr16 (iph + 10) 0 m) iph (nat (ip_hdr_len m iph))"
  let ?c = "complement16 (fold_carry ?W)" and ?m = "wr16 (iph + 10) (complement16 (fold_carry ?W)) m"
  have u: "ip_update_check iph m = ?m"
    using assms by (simp add: ip_update_check_def ip_check_eq)
  have h: "ip_hdr_len ?m iph = ip_hdr_len m iph" by (simp add: ip_hdr_len_def wr16_other)
  have "ip_check iph ?m = (?c, ?m)"
    using assms ip_check_eq[of ?m iph] h by (simp add: wr16_wr16)
  then have w: "ip_checksum_wrong iph ?m = (False, ?m)"
    by (simp add: ip_checksum_wrong_def rd16_wr16_same)
  have "words ?m iph (nat (ip_hdr_len m iph)) = ?W + unat ?c"
    using words_wr16[of 10 "nat (ip_hdr_len m iph)" iph ?c "wr16 (iph + 10) 0 m"] assms
    by (simp add: wr16_wr16 rd16_wr16_same)
  then have "fold_carry (words ?m iph (nat (ip_hdr_len m iph))) = 65535"
    using fold_carry_complement[of ?W] by simp
  with u w show ?thesis by blast
qed

text \<open>The transport checksum over IPv4, for a header of at least 20 bytes.\<close>

definition transport_sum :: "nat \<Rightarrow> mem \<Rightarrow> nat" where
  "transport_sum iph m = words (bytes_at (pseudo_hdr iph m)) 0 12 +
     words m (ip_data m iph) (nat (ip_data_len m iph))"

lemma pseudo_hdr_wr16:
  assumes "ip_data m iph \<le> a" and "20 \<le> ip_hdr_len m iph"
  shows "pseudo_hdr iph (wr16 a v m) = pseudo_hdr iph m"
proof -
  have a: "iph + 20 \<le> a" using assms by (simp add: ip_data_def)
  then have "rd_bytes (wr16 a v m) (iph + 12) 4 = rd_bytes m (iph + 12) 4"
    "rd_bytes (wr16 a v m) (iph + 16) 4 = rd_bytes m (iph + 16) 4"
    by (auto simp: rd_bytes_def wr16_other)
  then show ?thesis using ip_wr16[OF assms] by (simp add: pseudo_hdr_def)
qed

lemma tcp_udp_check_field_ge: "ip_data m iph \<le> tcp_udp_check_field iph m"
  by (simp add: tcp_udp_check_field_def)

lemma tcp_udp_check_field_cong:
  "ip_protocol m' iph = ip_protocol m iph \<Longrightarrow> ip_data m' iph = ip_data m iph \<Longrightarrow>
     tcp_udp_check_field iph m' = tcp_udp_check_field iph m"
  by (simp add: tcp_udp_check_field_def)

lemma tcp_udp_checksum_eq:
  assumes "20 \<le> ip_hdr_len m iph"
  shows "tcp_udp_checksum iph m =
    (complement16 (fold_carry (transport_sum iph (wr16 (tcp_udp_check_field iph m) 0 m))), m)"
proof -
  let ?f = "tcp_udp_check_field iph m"
  note i = ip_wr16[OF tcp_udp_check_field_ge assms, of 0]
  have "tcp_udp_check_field iph (wr16 ?f 0 m) = ?f"
    by (rule tcp_udp_check_field_cong) (rule i)+
  then show ?thesis
    unfolding tcp_udp_checksum_def Let_def transport_sum_def
      pseudo_hdr_wr16[OF tcp_udp_check_field_ge assms]
    by (subst csum_loop_add[of "wr16 ?f 0 m"]) (simp add: wr16_restore)
qed

lemma transport_update_spec:
  assumes "20 \<le> ip_hdr_len m iph"
  shows "\<exists>c m'. tcp_udp_checksum iph m = (c, m) \<and> m' = wr16 (tcp_udp_check_field iph m) c m \<and>
    tcp_udp_checksum iph m' = (c, m') \<and> tcp_udp_check_field iph m' = tcp_udp_check_field iph m \<and>
    ip_data m' iph = ip_data m iph \<and> rd16 m' (tcp_udp_check_field iph m) = c \<and>
    (int (tcp_udp_check_field iph m + 2) \<le> int (ip_data m iph) + ip_data_len m iph \<longrightarrow>
       fold_carry (transport_sum iph m') = 65535)"
proof -
  let ?f = "tcp_udp_check_field iph m"
  let ?m0 = "wr16 ?f 0 m"
  let ?c = "complement16 (fold_carry (transport_sum iph ?m0))"
  let ?m' = "wr16 ?f ?c m"
  note i = ip_wr16[OF tcp_udp_check_field_ge assms]
  have f: "tcp_udp_check_field iph (wr16 ?f v m) = ?f" for v
    by (rule tcp_udp_check_field_cong) (rule i)+
  have c: "tcp_udp_checksum iph m = (?c, m)" by (rule tcp_udp_checksum_eq[OF assms])
  have "20 \<le> ip_hdr_len ?m' iph" using i assms by simp
  then have c': "tcp_udp_checksum iph ?m' = (?c, ?m')"
    using tcp_udp_checksum_eq[of ?m' iph] by (simp only: f wr16_wr16)
  have "fold_carry (transport_sum iph ?m') = 65535"
    if "int (?f + 2) \<le> int (ip_data m iph) + ip_data_len m iph"
  proof -
    obtain k where k: "?f = ip_data m iph + k" "even k"
    proof (cases "ip_protocol m iph = IPPROTO_TCP")
      case True
      then show ?thesis using that[of 16] by (simp add: tcp_udp_check_field_def)
    next
      case False
      then show ?thesis using that[of 6] by (simp add: tcp_udp_check_field_def)
    qed
    have "k + 2 \<le> nat (ip_data_len m iph)" using that k by linarith
    from words_wr16[OF k(2) this, of "ip_data m iph" ?c ?m0]
    have "words ?m' (ip_data m iph) (nat (ip_data_len m iph)) =
        words ?m0 (ip_data m iph) (nat (ip_data_len m iph)) + unat ?c"
      by (simp add: k(1)[symmetric] wr16_wr16 rd16_wr16_same)
    then have "transport_sum iph ?m' = transport_sum iph ?m0 + unat ?c"
      using i pseudo_hdr_wr16[OF tcp_udp_check_field_ge assms] by (simp add: transport_sum_def)
    then show ?thesis using fold_carry_complement by simp
  qed
  with c c' f i show ?thesis by (intro exI[of _ ?c] exI[of _ ?m']) (simp add: rd16_wr16_same)
qed

lemma icmp_igmp_check_eq:
  assumes "20 \<le> ip_hdr_len m iph"
  shows "icmp_igmp_check iph m = (complement16 (fold_carry
     (words (wr16 (ip_data m iph + 2) 0 m) (ip_data m iph) (nat (ip_data_len m iph)))), m)"
  using ip_wr16[OF le_add1 assms, of 2 0]
  by (simp add: icmp_igmp_check_def Let_def csum_def wr16_restore)

lemma icmp_update_spec:
  assumes "20 \<le> ip_hdr_len m iph"
  shows "\<exists>c m'. icmp_igmp_update_check iph m = m' \<and> m' = wr16 (ip_data m iph + 2) c m \<and>
    icmp_igmp_checksum_wrong iph m' = (False, m') \<and>
    (4 \<le> ip_data_len m iph \<longrightarrow>
       fold_carry (words m' (ip_data m' iph) (nat (ip_data_len m' iph))) = 65535)"
proof -
  let ?f = "ip_data m iph + 2" and ?n = "nat (ip_data_len m iph)"
  let ?W = "words (wr16 ?f 0 m) (ip_data m iph) ?n"
  let ?c = "complement16 (fold_carry ?W)"
  let ?m' = "wr16 ?f ?c m"
  note i = ip_wr16[OF le_add1 assms, of 2]
  have u: "icmp_igmp_update_check iph m = ?m'"
    by (simp add: icmp_igmp_update_check_def icmp_igmp_check_eq[OF assms] Let_def)
  have "20 \<le> ip_hdr_len ?m' iph" using i assms by simp
  then have "icmp_igmp_check iph ?m' = (?c, ?m')"
    using icmp_igmp_check_eq[of ?m' iph] by (simp only: i wr16_wr16)
  then have w: "icmp_igmp_checksum_wrong iph ?m' = (False, ?m')"
    by (simp only: icmp_igmp_checksum_wrong_def Let_def i(4) rd16_wr16_same) simp
  have "fold_carry (words ?m' (ip_data m iph) ?n) = 65535" if "4 \<le> ip_data_len m iph"
  proof -
    have "2 + 2 \<le> ?n" using that by simp
    from words_wr16[OF _ this, of "ip_data m iph" ?c "wr16 ?f 0 m"]
    have "words ?m' (ip_data m iph) ?n = ?W + unat ?c"
      by (simp add: wr16_wr16 rd16_wr16_same)
    then show ?thesis using fold_carry_complement by simp
  qed
  then have r: "4 \<le> ip_data_len m iph \<longrightarrow>
      fold_carry (words ?m' (ip_data ?m' iph) (nat (ip_data_len ?m' iph))) = 65535"
    by (simp only: i) blast
  from u w r show ?thesis by blast
qed

text \<open>Writing into the payload keeps the header's checksum right.\<close>

lemma ip_checksum_frame:
  assumes "20 \<le> ip_hdr_len m iph" and "ip_data m iph \<le> a"
    and "ip_checksum_wrong iph m = (False, m)"
  shows "ip_checksum_wrong iph (wr16 a c m) = (False, wr16 a c m)"
proof -
  note i = ip_wr16[OF assms(2,1)]
  have n: "iph + nat (ip_hdr_len m iph) \<le> a" using assms(2) by (simp add: ip_data_def)
  have "words (wr16 (iph + 10) 0 (wr16 a c m)) iph (nat (ip_hdr_len m iph)) =
      words (wr16 (iph + 10) 0 m) iph (nat (ip_hdr_len m iph))"
    by (rule words_cong) (use n in \<open>auto simp: wr16_def\<close>)
  moreover have "0 \<le> ip_hdr_len m iph" using assms(1) by simp
  ultimately have "fst (ip_check iph (wr16 a c m)) = fst (ip_check iph m)"
      "snd (ip_check iph (wr16 a c m)) = wr16 a c m"
    by (simp_all add: ip_check_eq i)
  moreover have "rd16 (wr16 a c m) (iph + 10) = rd16 m (iph + 10)" by (rule i(6)) simp
  ultimately show ?thesis using assms(3)
    by (simp add: ip_checksum_wrong_def case_prod_beta)
qed

lemma tcp_update_valid:
  assumes "20 \<le> ip_hdr_len m iph" "ip_protocol m iph = IPPROTO_TCP"
  shows "\<exists>d. tcp_update_check iph m = wr16 (ip_data m iph + 16) d m \<and>
    tcp_checksum_wrong iph (wr16 (ip_data m iph + 16) d m) = (False, wr16 (ip_data m iph + 16) d m) \<and>
    (18 \<le> ip_data_len m iph \<longrightarrow> fold_carry (transport_sum iph (wr16 (ip_data m iph + 16) d m)) = 65535)"
proof -
  have cf: "tcp_udp_check_field iph m = ip_data m iph + 16" using assms(2) by (simp add: tcp_udp_check_field_def ipproto_defs)
  obtain d m' where d: "tcp_udp_checksum iph m = (d, m)" "m' = wr16 (ip_data m iph + 16) d m"
      "tcp_udp_checksum iph m' = (d, m')" "ip_data m' iph = ip_data m iph" "rd16 m' (ip_data m iph + 16) = d"
      "18 \<le> ip_data_len m iph \<Longrightarrow> fold_carry (transport_sum iph m') = 65535"
    using transport_update_spec[OF assms(1)] by (auto simp: cf)
  then have "tcp_update_check iph m = m'" "tcp_checksum_wrong iph m' = (False, m')"
    by (simp_all add: tcp_update_check_def tcp_checksum_wrong_def Let_def)
  with d show ?thesis by blast
qed

lemma udp_update_valid:
  assumes "20 \<le> ip_hdr_len m iph" "ip_protocol m iph = IPPROTO_UDP"
  shows "\<exists>d. udp_update_check iph m = wr16 (ip_data m iph + 6) d m \<and>
    udp_checksum_wrong iph (wr16 (ip_data m iph + 6) d m) = (False, wr16 (ip_data m iph + 6) d m) \<and>
    (8 \<le> ip_data_len m iph \<longrightarrow> fold_carry (transport_sum iph (wr16 (ip_data m iph + 6) d m)) = 65535)"
proof -
  have cf: "tcp_udp_check_field iph m = ip_data m iph + 6" using assms(2) by (simp add: tcp_udp_check_field_def ipproto_defs)
  obtain d m' where d: "tcp_udp_checksum iph m = (d, m)" "m' = wr16 (ip_data m iph + 6) d m"
      "tcp_udp_checksum iph m' = (d, m')" "ip_data m' iph = ip_data m iph" "rd16 m' (ip_data m iph + 6) = d"
      "8 \<le> ip_data_len m iph \<Longrightarrow> fold_carry (transport_sum iph m') = 65535"
    using transport_update_spec[OF assms(1)] by (auto simp: cf)
  then have "udp_update_check iph m = m'" "udp_checksum_wrong iph m' = (False, m')"
    by (simp_all add: udp_update_check_def udp_checksum_wrong_def Let_def)
  with d show ?thesis by blast
qed

text \<open>The same for ICMP and IGMP, whose checksum has no pseudo header.\<close>

lemma icmp_update_valid:
  assumes "20 \<le> ip_hdr_len m iph"
  shows "\<exists>d. icmp_igmp_update_check iph m = wr16 (ip_data m iph + 2) d m \<and>
    icmp_igmp_checksum_wrong iph (wr16 (ip_data m iph + 2) d m) = (False, wr16 (ip_data m iph + 2) d m) \<and>
    (4 \<le> ip_data_len m iph \<longrightarrow>
       fold_carry (words (wr16 (ip_data m iph + 2) d m) (ip_data m iph) (nat (ip_data_len m iph))) = 65535)"
proof -
  obtain d m' where d: "icmp_igmp_update_check iph m = m'" "m' = wr16 (ip_data m iph + 2) d m"
      "icmp_igmp_checksum_wrong iph m' = (False, m')"
      "4 \<le> ip_data_len m iph \<longrightarrow> fold_carry (words m' (ip_data m' iph) (nat (ip_data_len m' iph))) = 65535"
    using icmp_update_spec[OF assms] by blast
  have "ip_data m iph \<le> ip_data m iph + 2" by simp
  from ip_wr16(4,5)[OF this assms, of d] have i: "ip_data m' iph = ip_data m iph" "ip_data_len m' iph = ip_data_len m iph"
    unfolding d(2) by blast+
  from d(4)[unfolded i] d(1,3) show ?thesis unfolding d(2) by (intro exI[of _ d] conjI)
qed

lemma distinct_protos:
  "IPPROTO_ICMP \<noteq> IPPROTO_TCP" "IPPROTO_ICMP \<noteq> IPPROTO_UDP"
      "IPPROTO_IGMP \<noteq> IPPROTO_TCP" "IPPROTO_IGMP \<noteq> IPPROTO_UDP" "IPPROTO_TCP \<noteq> IPPROTO_UDP"
      "IPPROTO_TCP \<noteq> IPPROTO_ICMP" "IPPROTO_TCP \<noteq> IPPROTO_IGMP" "IPPROTO_UDP \<noteq> IPPROTO_ICMP"
      "IPPROTO_UDP \<noteq> IPPROTO_IGMP" "IPPROTO_UDP \<noteq> IPPROTO_TCP"
  by (simp_all add: ipproto_defs)

text \<open>Writing the header's checksum changes nothing else that is read from the frame.\<close>

lemma ip_check_field_frame:
  assumes "iph = eth_data m p"
  shows "eth_type (wr16 (iph + 10) c m) p = eth_type m p"
    and "eth_data (wr16 (iph + 10) c m) p = iph"
    and "ip_hdr_len (wr16 (iph + 10) c m) iph = ip_hdr_len m iph"
    and "ip_protocol (wr16 (iph + 10) c m) iph = ip_protocol m iph"
    and "ip_data (wr16 (iph + 10) c m) iph = ip_data m iph"
    and "ip_data_len (wr16 (iph + 10) c m) iph = ip_data_len m iph"
    and "ip_pkt_is_frag (wr16 (iph + 10) c m) p = ip_pkt_is_frag m p"
proof -
  have "eth_data m p \<le> iph + 10" using assms by simp
  note e = eth_wr16[OF this]
  show "eth_type (wr16 (iph + 10) c m) p = eth_type m p" "eth_data (wr16 (iph + 10) c m) p = iph"
    using e assms by auto
  show h: "ip_hdr_len (wr16 (iph + 10) c m) iph = ip_hdr_len m iph"
    "ip_protocol (wr16 (iph + 10) c m) iph = ip_protocol m iph"
    by (simp_all add: ip_hdr_len_def ip_protocol_def wr16_other)
  then show "ip_data (wr16 (iph + 10) c m) iph = ip_data m iph" by (simp add: ip_data_def)
  show "ip_data_len (wr16 (iph + 10) c m) iph = ip_data_len m iph"
    using h by (simp add: ip_data_len_def ip_pkt_len_def rd16_wr16_other)
  have "rd16 (wr16 (iph + 10) c m) (iph + 6) = rd16 m (iph + 6)"
    "ip6_nexthdr (wr16 (iph + 10) c m) iph = ip6_nexthdr m iph"
    by (simp_all add: rd16_wr16_other ip6_nexthdr_def wr16_other)
  then show "ip_pkt_is_frag (wr16 (iph + 10) c m) p = ip_pkt_is_frag m p"
    using e assms by (simp add: ip_pkt_is_frag_def)
qed

lemma ip_data_ge: "iph \<le> ip_data m iph"
  by (simp add: ip_data_def)

text \<open>The transport checksum over IPv6.\<close>

definition transport_sum6 :: "nat \<Rightarrow> mem \<Rightarrow> nat" where
  "transport_sum6 ip6h m = words (bytes_at (pseudo_hdr6 ip6h m)) 0 36 +
     words m (ip6_data ip6h) (nat (ip6_data_len m ip6h))"

lemma ip6_wr16:
  assumes "ip6_data ip6h \<le> a"
  shows "ip6_nexthdr (wr16 a v m) ip6h = ip6_nexthdr m ip6h"
    and "ip6_data_len (wr16 a v m) ip6h = ip6_data_len m ip6h"
    and "pseudo_hdr6 ip6h (wr16 a v m) = pseudo_hdr6 ip6h m"
    and "check_field6 ip6h (wr16 a v m) = check_field6 ip6h m"
proof -
  have a: "ip6h + 40 \<le> a" using assms by (simp add: ip6_data_def IPV6_HDR_LEN_def)
  then show n: "ip6_nexthdr (wr16 a v m) ip6h = ip6_nexthdr m ip6h"
    by (simp add: ip6_nexthdr_def wr16_other)
  from a show l: "ip6_data_len (wr16 a v m) ip6h = ip6_data_len m ip6h"
    by (simp add: ip6_data_len_def rd16_wr16_other)
  from a have "rd_bytes (wr16 a v m) (ip6h + 8) 16 = rd_bytes m (ip6h + 8) 16"
    "rd_bytes (wr16 a v m) (ip6h + 24) 16 = rd_bytes m (ip6h + 24) 16"
    by (auto simp: rd_bytes_def wr16_other)
  with n l show "pseudo_hdr6 ip6h (wr16 a v m) = pseudo_hdr6 ip6h m" by (simp add: pseudo_hdr6_def)
  from n show "check_field6 ip6h (wr16 a v m) = check_field6 ip6h m" by (simp add: check_field6_def)
qed

lemma check_field6_ge: "check_field6 ip6h m = Some f \<Longrightarrow> ip6_data ip6h \<le> f"
  by (auto simp: check_field6_def split: if_splits)

lemma tcp_udp_checksum6_eq:
  assumes "check_field6 ip6h m = Some f"
  shows "tcp_udp_checksum6 ip6h m =
    (complement16 (fold_carry (transport_sum6 ip6h (wr16 f 0 m))), m)"
proof -
  note i = ip6_wr16[OF check_field6_ge[OF assms], of 0 m]
  have "check_field6 ip6h (wr16 f 0 m) = Some f" using i(4) assms by simp
  then show ?thesis
    unfolding tcp_udp_checksum6_def Let_def transport_sum6_def assms option.case i(3)
    by (subst csum_loop_add[of "wr16 f 0 m"]) (simp add: wr16_restore)
qed

lemma update6_spec:
  assumes "check_field6 ip6h m = Some (ip6_data ip6h + off)" and "even off"
  shows "\<exists>c m'. update_check6_at off ip6h m = m' \<and> m' = wr16 (ip6_data ip6h + off) c m \<and>
    checksum_wrong6_at off ip6h m' = (False, m') \<and>
    (int off + 2 \<le> ip6_data_len m ip6h \<longrightarrow> fold_carry (transport_sum6 ip6h m') = 65535)"
proof -
  let ?f = "ip6_data ip6h + off"
  let ?m0 = "wr16 ?f 0 m"
  let ?c = "complement16 (fold_carry (transport_sum6 ip6h ?m0))"
  let ?m' = "wr16 ?f ?c m"
  note i = ip6_wr16[OF le_add1, of ip6h off]
  have u: "update_check6_at off ip6h m = ?m'"
    by (simp add: update_check6_at_def tcp_udp_checksum6_eq[OF assms(1)])
  have "check_field6 ip6h ?m' = Some ?f" using i(4) assms(1) by simp
  then have "tcp_udp_checksum6 ip6h ?m' = (?c, ?m')"
    using tcp_udp_checksum6_eq[of ip6h ?m'] by (simp only: wr16_wr16)
  then have w: "checksum_wrong6_at off ip6h ?m' = (False, ?m')"
    by (simp add: checksum_wrong6_at_def rd16_wr16_same)
  have "fold_carry (transport_sum6 ip6h ?m') = 65535" if "int off + 2 \<le> ip6_data_len m ip6h"
  proof -
    have "off + 2 \<le> nat (ip6_data_len m ip6h)" using that by simp
    from words_wr16[OF assms(2) this, of "ip6_data ip6h" ?c ?m0]
    have "words ?m' (ip6_data ip6h) (nat (ip6_data_len m ip6h)) =
        words ?m0 (ip6_data ip6h) (nat (ip6_data_len m ip6h)) + unat ?c"
      by (simp add: wr16_wr16 rd16_wr16_same)
    then have "transport_sum6 ip6h ?m' = transport_sum6 ip6h ?m0 + unat ?c"
      using i by (simp add: transport_sum6_def)
    then show ?thesis using fold_carry_complement by simp
  qed
  with u w show ?thesis by blast
qed

section \<open>Properties\<close>



text \<open>The same for IPv6, which has no header checksum: after \<open>update_check_sum\<close> the TCP,
  UDP or ICMPv6 checksum verifies, by the code and by a receiver's sum.\<close>

theorem update_check_sum_v6_valid:
  assumes "eth_type m p = ETH_P_IPV6" and "ip_pkt_is_frag m p = 0"
  defines "ip6h \<equiv> eth_data m p" and "m' \<equiv> update_check_sum p m"
  shows "(ip6_nexthdr m ip6h = IPPROTO_TCP \<longrightarrow> tcp_checksum_wrong6 ip6h m' = (False, m') \<and>
       (18 \<le> ip6_data_len m ip6h \<longrightarrow> fold_carry (transport_sum6 ip6h m') = 65535)) \<and>
    (ip6_nexthdr m ip6h = IPPROTO_UDP \<longrightarrow> udp_checksum_wrong6 ip6h m' = (False, m') \<and>
       (8 \<le> ip6_data_len m ip6h \<longrightarrow> fold_carry (transport_sum6 ip6h m') = 65535)) \<and>
    (ip6_nexthdr m ip6h = IPPROTO_ICMPV6 \<longrightarrow> icmp_checksum_wrong6 ip6h m' = (False, m') \<and>
       (4 \<le> ip6_data_len m ip6h \<longrightarrow> fold_carry (transport_sum6 ip6h m') = 65535))"
proof -
  have "ETH_P_IPV6 \<noteq> ETH_P_IP" by (simp add: eth_p_defs)
  then have m': "m' = (if ip6_nexthdr m ip6h = IPPROTO_TCP then update_check6_at 16 ip6h m
      else if ip6_nexthdr m ip6h = IPPROTO_UDP then update_check6_at 6 ip6h m
      else if ip6_nexthdr m ip6h = IPPROTO_ICMPV6 then update_check6_at 2 ip6h m else m)"
    using assms(1,2) by (simp add: m'_def ip6h_def update_check_sum_def update_check_sum_v6_def
        tcp_update_check6_def udp_update_check6_def icmp_update_check6_def)
  have d: "IPPROTO_TCP \<noteq> IPPROTO_UDP" "IPPROTO_TCP \<noteq> IPPROTO_ICMPV6" "IPPROTO_UDP \<noteq> IPPROTO_ICMPV6"
    by (simp_all add: ipproto_defs)
  have "tcp_checksum_wrong6 ip6h m' = (False, m') \<and>
       (18 \<le> ip6_data_len m ip6h \<longrightarrow> fold_carry (transport_sum6 ip6h m') = 65535)"
    if n: "ip6_nexthdr m ip6h = IPPROTO_TCP"
  proof -
    have "check_field6 ip6h m = Some (ip6_data ip6h + 16)" using n by (simp add: check_field6_def)
    from update6_spec[OF this] n m' show ?thesis by (auto simp: tcp_checksum_wrong6_def)
  qed
  moreover have "udp_checksum_wrong6 ip6h m' = (False, m') \<and>
       (8 \<le> ip6_data_len m ip6h \<longrightarrow> fold_carry (transport_sum6 ip6h m') = 65535)"
    if n: "ip6_nexthdr m ip6h = IPPROTO_UDP"
  proof -
    have "check_field6 ip6h m = Some (ip6_data ip6h + 6)" using n d by (simp add: check_field6_def)
    from update6_spec[OF this] n m' d show ?thesis by (auto simp: udp_checksum_wrong6_def)
  qed
  moreover have "icmp_checksum_wrong6 ip6h m' = (False, m') \<and>
       (4 \<le> ip6_data_len m ip6h \<longrightarrow> fold_carry (transport_sum6 ip6h m') = 65535)"
    if n: "ip6_nexthdr m ip6h = IPPROTO_ICMPV6"
  proof -
    have "check_field6 ip6h m = Some (ip6_data ip6h + 2)" using n d by (simp add: check_field6_def)
    from update6_spec[OF this] n m' d show ?thesis by (auto simp: icmp_checksum_wrong6_def)
  qed
  ultimately show ?thesis by blast
qed

lemma update_check_sum_v6_valid_witness:
  "udp_checksum_wrong6 14 (update_check_sum 0 frame6) = (False, update_check_sum 0 frame6) \<and>
   fold_carry (transport_sum6 14 (update_check_sum 0 frame6)) = 65535"
  using update_check_sum_v6_valid[of frame6 0] by (simp add: frame6_fields)

text \<open>The header check detects the change of any one 16-bit word of a header that was
  accepted, other than the first word, which holds the header length, unless the change
  is between \<open>0x0000\<close> and \<open>0xffff\<close>, which one's complement sums cannot tell apart.\<close>

theorem ip_checksum_detects_word_change:
  assumes "ip_checksum_wrong iph m = (False, m)" and "even k" and "2 \<le> k"
    and "int k + 2 \<le> ip_hdr_len m iph" and "12 \<le> ip_hdr_len m iph"
    and "w \<noteq> rd16 m (iph + k)" and "{w, rd16 m (iph + k)} \<noteq> {0, - 1}"
  shows "ip_checksum_wrong iph (wr16 (iph + k) w m) = (True, wr16 (iph + k) w m)"
proof -
  let ?m' = "wr16 (iph + k) w m" and ?n = "nat (ip_hdr_len m iph)"
  let ?W = "\<lambda>m. words (wr16 (iph + 10) 0 m) iph ?n"
  have h: "ip_hdr_len ?m' iph = ip_hdr_len m iph" using assms(3) by (simp add: ip_hdr_len_def wr16_other)
  have c: "ip_check iph m = (complement16 (fold_carry (?W m)), m)"
    "ip_check iph ?m' = (complement16 (fold_carry (?W ?m')), ?m')"
    using ip_check_eq[of m iph] ip_check_eq[of ?m' iph] assms(5) h by auto
  have ok: "rd16 m (iph + 10) = complement16 (fold_carry (?W m))"
    using assms(1) c(1) by (simp add: ip_checksum_wrong_def)
  have "rd16 ?m' (iph + 10) \<noteq> complement16 (fold_carry (?W ?m'))"
  proof (cases "k = 10")
    case True
    then show ?thesis using ok assms(6) by (simp add: wr16_wr16 rd16_wr16_same)
  next
    case False
    then have k: "k + 1 < 10 \<or> 11 < k" using assms(2) by presburger
    then have "wr16 (iph + 10) 0 ?m' = wr16 (iph + k) w (wr16 (iph + 10) 0 m)"
      by (auto simp: wr16_def fun_eq_iff)
    moreover have "rd16 (wr16 (iph + 10) 0 m) (iph + k) = rd16 m (iph + k)"
      by (rule rd16_wr16_other) (use k in auto)
    moreover have "k + 2 \<le> ?n" using assms(4) by simp
    ultimately have sum: "?W ?m' + unat (rd16 m (iph + k)) = ?W m + unat w"
      using words_wr16[OF assms(2), of ?n iph w "wr16 (iph + 10) 0 m"] by simp
    show ?thesis
    proof
      have l: "fold_carry (?W ?m') < 65536" "fold_carry (?W m) < 65536"
        using fold_carry_props by blast+
      assume "rd16 ?m' (iph + 10) = complement16 (fold_carry (?W ?m'))"
      moreover have "rd16 ?m' (iph + 10) = rd16 m (iph + 10)"
        by (rule rd16_wr16_other) (use k in auto)
      ultimately have "unat (complement16 (fold_carry (?W ?m'))) = unat (complement16 (fold_carry (?W m)))"
        using ok by simp
      then have "fold_carry (?W ?m') = fold_carry (?W m)"
        using l by (simp only: complement16_unat[OF l(1)] complement16_unat[OF l(2)])
      then have "?W ?m' mod 65535 = ?W m mod 65535"
        using fold_carry_props[of "?W m"] fold_carry_props[of "?W ?m'"] by metis
      then have "(65535 :: int) dvd int (?W ?m') - int (?W m)" by (rule mod_65535_dvd)
      moreover have "int (?W ?m') - int (?W m) = int (unat w) - int (unat (rd16 m (iph + k)))"
        using sum by linarith
      ultimately obtain j where j: "int (unat w) - int (unat (rd16 m (iph + k))) = 65535 * j"
        by (auto simp del: of_nat_unat)
      have b: "unat w < 65536" "unat (rd16 m (iph + k)) < 65536"
        using unat_bound[of w] unat_bound[of "rd16 m (iph + k)"] by simp_all
      have one: "unat (- 1 :: u16) = 65535"
        by (simp add: unsigned_minus_1_eq_mask mask_eq_exp_minus_1)
      from j b have "j < 2" "- 2 < j" by linarith+
      then have "j = 0 \<or> j = 1 \<or> j = -1" by presburger
      then consider "unat w = unat (rd16 m (iph + k))" | "unat w = 65535" "unat (rd16 m (iph + k)) = 0"
        | "unat w = 0" "unat (rd16 m (iph + k)) = 65535"
        using j b by (auto simp del: of_nat_unat)
      then show False
      proof cases
        case 1
        with assms(6) show False by (simp add: word_unat_eq_iff)
      next
        case 2
        then have "w = - 1" "rd16 m (iph + k) = 0" using one by (simp_all add: word_unat_eq_iff)
        with assms(7) show False by auto
      next
        case 3
        then have "rd16 m (iph + k) = - 1" "w = 0" using one by (simp_all add: word_unat_eq_iff)
        with assms(7) show False by auto
      qed
    qed
  qed
  then show ?thesis using c(2) by (simp add: ip_checksum_wrong_def)
qed

lemma ip_checksum_detects_word_change_witness:
  "ip_checksum_wrong 14 (wr16 (14 + 2) 31 (ip_update_check 14 frame4)) =
     (True, wr16 (14 + 2) 31 (ip_update_check 14 frame4))"
proof -
  let ?m = "ip_update_check 14 frame4"
  obtain c where c: "?m = wr16 24 c frame4" "ip_checksum_wrong 14 ?m = (False, ?m)"
    using ip_update_check_spec[of frame4 14] by (auto simp: frame4_fields)
  then have h: "ip_hdr_len ?m 14 = 20" "rd16 ?m 16 = rd16 frame4 16"
    using frame4_fields(4) by (simp_all add: ip_hdr_len_def wr16_other rd16_wr16_other)
  have "rd16 frame4 16 = 30" by code_simp
  moreover have "{31, 30 :: u16} \<noteq> {0, - 1}" by (simp add: doubleton_eq_iff)
  ultimately show ?thesis using h ip_checksum_detects_word_change[OF c(2), of 2 31] by simp
qed

end
