(* ===== verification/NetDesc.thy ===== *)
theory NetDesc
  imports NetHdr CLib
begin

text \<open>
  Names, addresses and one-line descriptions of packets: the printing half of
  \<open>libs/app_utils/src/net.c\<close>. A function that prints into \<open>info\<close> returns the string it
  leaves there; where the code leaves \<open>info\<close> as it was, the old contents are an argument.
  The packet is in the byte memory of \<open>NetHdr\<close>.
\<close>

section \<open>Addresses\<close>

definition str2int :: "string \<Rightarrow> int" where
  "str2int info =
     (if CHR ''x'' \<in> set info \<or> CHR ''X'' \<in> set info then long_to_int (strtol info 16)
      else long_to_int (strtol info 10))"

definition ip_n2str :: "mem \<Rightarrow> nat \<Rightarrow> string" where
  "ip_n2str m a = show_dec (unat (m a)) @ ''.'' @ show_dec (unat (m (a + 1))) @ ''.'' @
     show_dec (unat (m (a + 2))) @ ''.'' @ show_dec (unat (m (a + 3)))"

definition mac_n2str :: "mem \<Rightarrow> nat \<Rightarrow> string" where
  "mac_n2str m a = show_02x (m a) @ '' '' @ show_02x (m (a + 1)) @ '' '' @ show_02x (m (a + 2)) @
     '' '' @ show_02x (m (a + 3)) @ '' '' @ show_02x (m (a + 4)) @ '' '' @ show_02x (m (a + 5))"

text \<open>\<open>ip6_n2str\<close>: the first group, then the loop that appends the others.\<close>

fun ip6_groups :: "mem \<Rightarrow> nat \<Rightarrow> nat \<Rightarrow> string" where
  "ip6_groups m src 0 = []"
| "ip6_groups m src (Suc n) = '':'' @ show_02x (m src) @ show_02x (m (src + 1)) @ ip6_groups m (src + 2) n"

definition ip6_n2str :: "mem \<Rightarrow> nat \<Rightarrow> string" where
  "ip6_n2str m src = show_02x (m src) @ show_02x (m (src + 1)) @ ip6_groups m (src + 2) 7"

section \<open>Ethernet types\<close>

definition gat_eth_type :: "(string \<times> int) list" where
  "gat_eth_type =
     [(''IP'', 0x0800), (''ARP'', 0x0806), (''RARP'', 0x8035), (''IPV6'', 0x86DD),
      (''VLAN'', 0x8100), (''PPP_DISC'', 0x8863), (''PPP_SESS'', 0x8864),
      (''LOOP'', 0x0060), (''ECHO'', 0x0200)]"

fun find_index :: "('a \<Rightarrow> bool) \<Rightarrow> 'a list \<Rightarrow> nat \<Rightarrow> nat option" where
  "find_index P [] i = None"
| "find_index P (x # xs) i = (if P x then Some i else find_index P xs (i + 1))"

text \<open>The index, and the name printed.\<close>

definition get_eth_type_name :: "int \<Rightarrow> int \<times> string" where
  "get_eth_type_name ty =
     (case find_index (\<lambda>e. ty = snd e) gat_eth_type 0 of
        Some i \<Rightarrow> (int i, fst (gat_eth_type ! i))
      | None \<Rightarrow> (-1, ''0x'' @ show_04x ty))"

definition get_eth_type_value :: "string \<Rightarrow> int" where
  "get_eth_type_value name =
     (case find_index (\<lambda>e. fst e = name) gat_eth_type 0 of
        Some i \<Rightarrow> snd (gat_eth_type ! i)
      | None \<Rightarrow> str2int name)"

section \<open>Protocols\<close>

definition protocol_name_map :: "string list" where
  "protocol_name_map =
     [''HOPOPT'', ''ICMP'', ''IGMP'', ''GGP'', ''IP-ENCAP'', ''ST'', ''TCP'', ''CBT'',
      ''EGP'', ''IGP'', ''BBN-RCC-MON'', ''NVP-II'', ''PUP'', ''ARGUS'', ''EMCON'',
      ''XNET'', ''CHAOS'', ''UDP'', ''MUX'', ''DCN-MEAS'', ''HMP'', ''PRM'', ''XNS-IDP'',
      ''TRUNK-1'', ''TRUNK-2'', ''LEAF-1'', ''LEAF-2'', ''RDP'', ''IRTP'', ''ISO-TP4'',
      ''NETBLT'', ''MFE-NSP'', ''MERIT-INP'', ''DCCP'', ''3PC'', ''IDPR'', ''XTP'',
      ''DDP'', ''IDPR-CMTP'', ''TP++'', ''IL'', ''IPv6'', ''SDRP'', ''IPv6-Route'',
      ''IPv6-Frag'', ''IDRP'', ''RSVP'', ''GRE'', ''DSR'', ''BNA'', ''ESP/IPv6-Crypt'',
      ''AH/IPv6-Auth'', ''I-NLSP '', ''SWIPE'', ''NARP'', ''MOBILE'', ''TLSP'', ''SKIP'',
      ''IPv6-ICMP'', ''IPv6-NoNxt'', ''IPv6-Opts'', ''unknown'', ''CFTP'', ''unknown'',
      ''SAT-EXPAK'', ''KRYPTOLAN'', ''RVD'', ''IPPC'', ''unknown'', ''SAT-MON'', ''VISA'',
      ''IPCV'', ''CPNX'', ''CPHB'', ''WSN'', ''PVP'', ''BR-SAT-MON'', ''SUN-ND'',
      ''WB-MON'', ''WB-EXPAK'', ''ISO-IP'', ''VMTP'', ''SECURE-VMTP'', ''VINES'', ''TTP'',
      ''NSFNET-IGP'', ''DGP'', ''TCF'', ''EIGRP'', ''OSPFIGP'', ''Sprite-RPC'', ''LARP'',
      ''MTP'', ''AX.25'', ''IPIP'', ''MICP'', ''SCC-SP'', ''ETHERIP'', ''ENCAP'',
      ''unknown'', ''GMTP'', ''IFMP'', ''PNNI'', ''PIM'', ''ARIS'', ''SCPS'', ''QNX'',
      ''A/N'', ''IPComp'', ''SNP'', ''Compaq-Peer'', ''IPX-in-IP'', ''VRRP'', ''PGM '',
      ''unknown'', ''L2TP'', ''DDX'', ''IATP'', ''STP'', ''SRP'', ''UTI'', ''SMP'', ''SM'',
      ''PTP'', ''ISIS'', ''FIRE'', ''CRTP'', ''CRUDP'', ''SSCOPMCE'', ''IPLT'', ''SPS '',
      ''PIPE'', ''SCTP'', ''FC'', ''RSVP-E2E-IGNORE'', ''unknown'', ''UDPLite'',
      ''MPLS-in-IP'', ''manet'', ''HIP'', ''Shim6'', ''WESP'', ''ROHC'']"

text \<open>
  The comparison with \<open>ARRAY_SIZE\<close> is in \<open>size_t\<close>: a negative \<open>protocol\<close> is a large
  value there.
\<close>

definition get_protocol_name :: "int \<Rightarrow> string" where
  "get_protocol_name protocol =
     (if uint (word_of_int protocol :: u64) < int (length protocol_name_map)
      then protocol_name_map ! nat protocol
      else if protocol \<ge> 143 \<and> protocol \<le> 252 then ''Unassigned''
      else if protocol = 253 \<or> protocol = 254 then ''experiment''
      else ''Reserved'')"

section \<open>Describing a packet\<close>

definition get_src_addr :: "mem \<Rightarrow> nat \<Rightarrow> string" where
  "get_src_addr m p =
     (if eth_type m p = ETH_P_IP then ip_n2str m (eth_data m p + 12)
      else if eth_type m p = ETH_P_IPV6 then ip6_n2str m (eth_data m p + 8)
      else mac_n2str m (p + 6))"

definition get_dst_addr :: "mem \<Rightarrow> nat \<Rightarrow> string" where
  "get_dst_addr m p =
     (if eth_type m p = ETH_P_IP then ip_n2str m (eth_data m p + 16)
      else if eth_type m p = ETH_P_IPV6 then ip6_n2str m (eth_data m p + 24)
      else mac_n2str m p)"

definition get_proto_name :: "mem \<Rightarrow> nat \<Rightarrow> string" where
  "get_proto_name m p =
     (let info2 =
        (if eth_type m p = ETH_P_IP then get_protocol_name (uint (ip_protocol m (eth_data m p)))
         else if eth_type m p = ETH_P_IPV6 then get_protocol_name (uint (ip6_nexthdr m (eth_data m p)))
         else snd (get_eth_type_name (uint (eth_type m p))))
      in if eth_is_vlan m p then ''[VLAN] '' @ info2 else info2)"

text \<open>The flag byte of a TCP header, from \<open>cwr\<close>, its high bit, down to \<open>fin\<close>.\<close>

definition flag_text :: "mem \<Rightarrow> nat \<Rightarrow> nat \<Rightarrow> string \<Rightarrow> string" where
  "flag_text m tcp n s = (if bit (m (tcp + 13)) n then s else '''')"

definition tcp_desc :: "mem \<Rightarrow> nat \<Rightarrow> string" where
  "tcp_desc m tcp = ''port '' @ show_dec (unat (rd16 m tcp)) @ ''->'' @
     show_dec (unat (rd16 m (tcp + 2))) @ ''['' @
     flag_text m tcp 7 ''cwr '' @ flag_text m tcp 6 ''ece '' @ flag_text m tcp 5 ''urg '' @
     flag_text m tcp 4 ''ack '' @ flag_text m tcp 3 ''psh '' @ flag_text m tcp 2 ''rst '' @
     flag_text m tcp 1 ''syn '' @ flag_text m tcp 0 ''fin '' @ '']''"

definition udp_desc :: "mem \<Rightarrow> nat \<Rightarrow> string" where
  "udp_desc m udp = ''port '' @ show_dec (unat (rd16 m udp)) @ ''->'' @ show_dec (unat (rd16 m (udp + 2)))"

definition icmp_desc :: "mem \<Rightarrow> nat \<Rightarrow> u8 \<Rightarrow> u8 \<Rightarrow> string" where
  "icmp_desc m icmp req rep =
     (if m icmp = req \<and> m (icmp + 1) = 0 then ''ping request''
      else if m icmp = rep \<and> m (icmp + 1) = 0 then ''ping reply''
      else ''type '' @ show_dec (unat (m icmp)) @ '' code '' @ show_dec (unat (m (icmp + 1))))"

definition get_pkt_desc_info_v4 :: "string \<Rightarrow> mem \<Rightarrow> nat \<Rightarrow> string" where
  "get_pkt_desc_info_v4 info m p =
     (let iph = eth_data m p; d = ip_data m iph; proto = ip_protocol m iph
      in if proto = IPPROTO_ICMP then icmp_desc m d 8 0
         else if proto = IPPROTO_IGMP then ''IGMP''
         else if proto = IPPROTO_TCP then tcp_desc m d
         else if proto = IPPROTO_UDP then udp_desc m d
         else info)"

definition get_pkt_desc_info_v6 :: "string \<Rightarrow> mem \<Rightarrow> nat \<Rightarrow> string" where
  "get_pkt_desc_info_v6 info m p =
     (let ip6h = eth_data m p; d = ip6_data ip6h; proto = ip6_nexthdr m ip6h
      in if proto = IPPROTO_TCP then tcp_desc m d
         else if proto = IPPROTO_UDP then udp_desc m d
         else if proto = IPPROTO_ICMPV6 then icmp_desc m d 128 129
         else info)"

text \<open>The offsets of \<open>t_arp_hdr\<close> (4-byte addresses) and \<open>t_arp_hdr6\<close> (16-byte addresses).\<close>

definition arp_desc :: "mem \<Rightarrow> nat \<Rightarrow> string" where
  "arp_desc m a =
     (if rd16 m (a + 6) = 1 then
        (if m (a + 5) = 4 then
           ''who has '' @ ip_n2str m (a + 24) @ ''? tell '' @ ip_n2str m (a + 14)
         else if m (a + 5) = 16 then
           ''who has '' @ ip6_n2str m (a + 36) @ ''? tell '' @ ip6_n2str m (a + 14)
         else '''')
      else if rd16 m (a + 6) = 2 then
        (if m (a + 5) = 4 then ip_n2str m (a + 14) @ '' is at '' @ mac_n2str m (a + 8)
         else if m (a + 5) = 16 then ip6_n2str m (a + 14) @ '' is at '' @ mac_n2str m (a + 8)
         else '''')
      else '''')"

definition get_pkt_desc_info :: "mem \<Rightarrow> nat \<Rightarrow> string" where
  "get_pkt_desc_info m p =
     (let ty = eth_type m p; info = ''''
      in if ty = ETH_P_ARP then arp_desc m (eth_data m p)
         else if ty = ETH_P_RARP then ''rarp''
         else if ty = ETH_P_LOOP then ''Ethernet Loopback packet''
         else if ty = ETH_P_ECHO then ''Ethernet Echo packet''
         else if ty = ETH_P_PPP_DISC then ''PPPoE discovery messages''
         else if ty = ETH_P_PPP_SES then ''PPPoE session messages''
         else if ty \<noteq> ETH_P_IP \<and> ty \<noteq> ETH_P_IPV6 then ''eth type:0x'' @ show_04x (uint ty)
         else if ip_pkt_is_frag m p \<noteq> 0 then ''frag ''
         else if ty = ETH_P_IP then get_pkt_desc_info_v4 info m p
         else get_pkt_desc_info_v6 info m p)"

end
