(* ===== verification/NetAddr.thy ===== *)
theory NetAddr
  imports NetDesc
begin

text \<open>
  Reading addresses: \<open>ip_str2n\<close>, \<open>trim_addr\<close>, \<open>ip6_addr_uniform\<close>, \<open>ip6_addr_no_mh\<close> and
  \<open>ip6_str2n\<close> of \<open>libs/app_utils/src/net.c\<close>. \<open>inet_addr\<close> of the C library is a parameter:
  the four bytes it stores for a dotted address. \<open>None\<close> is an access outside a buffer or
  through a null pointer.
\<close>

section \<open>The code\<close>

definition ip_str2n :: "(string \<Rightarrow> u8 list) \<Rightarrow> nat \<Rightarrow> string \<Rightarrow> mem \<Rightarrow> mem" where
  "ip_str2n inet_addr field info m = wr_bytes field (inet_addr info) m"

definition is_addr_char :: "char \<Rightarrow> bool" where
  "is_addr_char c \<longleftrightarrow> c = CHR '':'' \<or> c = CHR ''.'' \<or> isxdigit c"

text \<open>\<open>trim_addr\<close> collects into 64 zeroed cells and copies the string.\<close>

definition trim_addr :: "string \<Rightarrow> string option" where
  "trim_addr input =
     (let tmp = filter is_addr_char input in if length tmp \<le> 63 then Some tmp else None)"

text \<open>\<open>strrchr(s, ':') + 1\<close>: what stands up to the last colon, and behind it.\<close>

fun split_last_colon :: "string \<Rightarrow> (string \<times> string) option" where
  "split_last_colon [] = None"
| "split_last_colon (c # s) =
     (case split_last_colon s of
        Some (pre, post) \<Rightarrow> Some (c # pre, post)
      | None \<Rightarrow> if c = CHR '':'' then Some ([c], s) else None)"

definition ip6_addr_uniform :: "(string \<Rightarrow> u8 list) \<Rightarrow> string \<Rightarrow> string option" where
  "ip6_addr_uniform inet_addr input =
     (if CHR ''.'' \<notin> set input then Some input
      else case split_last_colon input of
        None \<Rightarrow> None
      | Some (pre, ipv4_begin) \<Rightarrow>
          let v4 = inet_addr ipv4_begin
          in if length pre + 10 > 64 then None
             else Some (pre @ show_02x (v4 ! 0) @ show_02x (v4 ! 1) @ '':'' @
                        show_02x (v4 ! 2) @ show_02x (v4 ! 3)))"

text \<open>\<open>ip6_addr_no_mh\<close>: colons become NULs; the loop prints each part with \<open>%4s\<close> at
  offset \<open>4 * i\<close> of 64 cells until a part does not begin with a hexadecimal digit.\<close>

fun split_colon :: "string \<Rightarrow> string list" where
  "split_colon [] = [[]]"
| "split_colon (c # s) =
     (if c = CHR '':'' then [] # split_colon s
      else case split_colon s of [] \<Rightarrow> [[c]] | g # gs \<Rightarrow> (c # g) # gs)"

definition pad4 :: "string \<Rightarrow> string" where
  "pad4 g = replicate (4 - length g) (CHR '' '') @ g"

fun print_groups :: "string list \<Rightarrow> nat \<Rightarrow> string \<Rightarrow> string option" where
  "print_groups [] i dst = Some dst"
| "print_groups (g # gs) i dst =
     (if g \<noteq> [] \<and> isxdigit (hd g) then
        if i * 4 + length (pad4 g) + 1 > 64 then None
        else print_groups gs (i + 1) (take (i * 4) dst @ pad4 g)
      else Some dst)"

definition ip6_addr_no_mh :: "string \<Rightarrow> string option" where
  "ip6_addr_no_mh src = print_groups (split_colon src) 0 []"

text \<open>\<open>memcpy(buf + at, s, strlen(s))\<close> into the 33 cells of \<open>pure_digits\<close>.\<close>

definition copy_digits :: "nat \<Rightarrow> string \<Rightarrow> string \<Rightarrow> string option" where
  "copy_digits at s buf =
     (if at + length s \<le> length buf then Some (take at buf @ s @ drop (at + length s) buf) else None)"

definition ip6_str2n :: "(string \<Rightarrow> u8 list) \<Rightarrow> string \<Rightarrow> u8 list option" where
  "ip6_str2n inet_addr info = do {
     str_addr0 \<leftarrow> trim_addr info;
     str_addr \<leftarrow> ip6_addr_uniform inet_addr str_addr0;
     if length str_addr + 1 \<ge> 64 then None else do {
       (hdr, tail) \<leftarrow> (case strstr str_addr ''::'' of
             None \<Rightarrow> do { h \<leftarrow> ip6_addr_no_mh str_addr; Some (h, []) }
           | Some i \<Rightarrow> do {
               h \<leftarrow> ip6_addr_no_mh (take i str_addr);
               t \<leftarrow> ip6_addr_no_mh (drop (i + 2) str_addr);
               Some (h, t) });
       d1 \<leftarrow> copy_digits 0 hdr (replicate 32 (CHR ''0'') @ [NUL]);
       if length tail > 32 then None else do {
         d2 \<leftarrow> copy_digits (32 - length tail) tail d1;
         Some (map (\<lambda>i. word_of_int (strtol [d2 ! (2 * i), d2 ! (2 * i + 1)] 16)) [0..<16])
       }
     }
   }"

section \<open>Hexadecimal digits\<close>

lemma of_char_digit: "n < 16 \<Longrightarrow> of_char (digit_char n) = (if n < 10 then 48 + n else 87 + n :: nat)"
  by (simp add: digit_char_def)

lemma isxdigit_digit_char [simp]: "n < 16 \<Longrightarrow> isxdigit (digit_char n)"
  by (auto simp: isxdigit_def isdigit_def of_char_digit Let_def)

lemma not_xdigit [simp]: "\<not> isxdigit (CHR '':'')" "\<not> isxdigit (CHR ''.'')" "\<not> isxdigit NUL"
  by (simp_all add: isxdigit_def isdigit_def)

lemma digit_char_neq [simp]:
  "n < 16 \<Longrightarrow> digit_char n \<noteq> CHR '':''" "n < 16 \<Longrightarrow> digit_char n \<noteq> CHR ''.''"
  "n < 16 \<Longrightarrow> CHR ''.'' \<noteq> digit_char n"
  using isxdigit_digit_char[of n] not_xdigit by metis+

lemma nibble_bounds [simp]: "unat (b :: u8) div 16 < 16" "unat (b :: u8) mod 16 < 16"
  using unat_bound[of b] by auto

lemma strtol_pair: "strtol (show_02x b) 16 = uint b"
proof -
  have d: "digit_value (digit_char (unat b div 16)) = Some (unat b div 16)"
    "digit_value (digit_char (unat b mod 16)) = Some (unat b mod 16)"
    by (simp_all add: digit_value_char order_less_trans[of _ 16 36])
  have x: "digit_char (unat b mod 16) \<noteq> CHR ''x''" "digit_char (unat b mod 16) \<noteq> CHR ''X''"
    using isxdigit_digit_char[of "unat b mod 16"]
    by (auto simp: isxdigit_def isdigit_def simp del: isxdigit_digit_char)
  have s: "\<not> isspace (digit_char (unat b div 16))" "digit_char (unat b div 16) \<noteq> CHR ''-''"
    "digit_char (unat b div 16) \<noteq> CHR ''+''"
    using digit_not_space[OF d(1)] by auto
  have "read_digits 16 (show_02x b) 0 = unat b"
    using d by (simp add: show_02x_def)
  moreover have "drop_0x (show_02x b) = show_02x b" using x by (simp add: drop_0x_def show_02x_def)
  moreover have "uint b = int (unat b)" "unat b < 256" using unat_bound[of b] by simp_all
  then have "- 9223372036854775808 \<le> uint b" "uint b < 256" by linarith+
  ultimately show ?thesis using s
    by (simp add: strtol_def signed_digits_def show_02x_def Let_def)
qed


section \<open>Properties\<close>

lemma is_addr_char_digit [simp]: "n < 16 \<Longrightarrow> is_addr_char (digit_char n)" "is_addr_char (CHR '':'')"
  by (simp_all add: is_addr_char_def)

text \<open>One printed group, and the eight of them.\<close>

definition group_of :: "mem \<Rightarrow> nat \<Rightarrow> string" where
  "group_of m a = show_02x (m a) @ show_02x (m (a + 1))"

lemma group_of_props:
  "length (group_of m a) = 4" "CHR '':'' \<notin> set (group_of m a)" "CHR ''.'' \<notin> set (group_of m a)"
  "filter is_addr_char (group_of m a) = group_of m a" "isxdigit (hd (group_of m a))"
  "group_of m a \<noteq> []" "pad4 (group_of m a) = group_of m a"
  by (auto simp: group_of_def show_02x_def pad4_def digit_char_neq[symmetric])

fun join_groups :: "string list \<Rightarrow> string" where
  "join_groups [] = []"
| "join_groups [g] = g"
| "join_groups (g # gs) = g @ CHR '':'' # join_groups gs"

lemma ip6_groups_join:
  "ip6_groups m a n = concat (map (\<lambda>i. CHR '':'' # group_of m (a + 2 * i)) [0..<n])"
proof (induction n arbitrary: a)
  case (Suc n)
  have "map (\<lambda>i. CHR '':'' # group_of m (a + 2 * i)) [0..<Suc n] =
      (CHR '':'' # group_of m a) # map (\<lambda>i. CHR '':'' # group_of m (a + 2 + 2 * i)) [0..<n]"
    by (simp add: upt_rec[of 0 "Suc n"] map_Suc_upt[symmetric] comp_def del: upt_Suc)
  with Suc show ?case by (simp add: group_of_def)
qed simp

lemma join_groups_Cons:
  "join_groups (g # gs) = g @ concat (map (\<lambda>g. CHR '':'' # g) gs)"
  by (induction gs arbitrary: g) auto

lemma ip6_n2str_join:
  "ip6_n2str m a = join_groups (map (\<lambda>i. group_of m (a + 2 * i)) [0..<8])"
proof -
  have "map (\<lambda>i. group_of m (a + 2 * i)) [0..<8] =
      group_of m a # map (\<lambda>i. group_of m (a + 2 + 2 * i)) [0..<7]"
    by (simp add: upt_rec eval_nat_numeral)
  then show ?thesis
    by (simp only: join_groups_Cons ip6_n2str_def ip6_groups_join map_map comp_def)
      (simp add: group_of_def)
qed

lemma split_colon_group:
  "CHR '':'' \<notin> set g \<Longrightarrow> split_colon (g @ CHR '':'' # s) = g # split_colon s"
  "CHR '':'' \<notin> set g \<Longrightarrow> split_colon g = [g]"
  by (induction g) auto

lemma split_colon_join:
  "gs \<noteq> [] \<Longrightarrow> (\<And>g. g \<in> set gs \<Longrightarrow> CHR '':'' \<notin> set g) \<Longrightarrow> split_colon (join_groups gs) = gs"
  by (induction gs rule: join_groups.induct) (auto simp: split_colon_group)

lemma strstr_skip: "CHR '':'' \<notin> set g \<Longrightarrow>
    strstr (g @ s) ''::'' = None \<longleftrightarrow> strstr s ''::'' = None"
  by (induction g) auto

lemma strstr_join:
  "(\<And>g. g \<in> set gs \<Longrightarrow> CHR '':'' \<notin> set g \<and> g \<noteq> []) \<Longrightarrow> strstr (join_groups gs) ''::'' = None"
proof (induction gs rule: join_groups.induct)
  case (2 g)
  then show ?case using strstr_skip[of g "[]"] by simp
next
  case (3 g h gs)
  from 3(2)[of h] have "h \<noteq> []" "CHR '':'' \<notin> set h" by simp_all
  then obtain c r' where "h = c # r'" "c \<noteq> CHR '':''" by (cases h) auto
  then obtain r where "join_groups (h # gs) = c # r" "c \<noteq> CHR '':''"
    by (simp add: join_groups_Cons)
  with 3 show ?case using strstr_skip[of g "CHR '':'' # c # r"] by auto
qed simp

lemma join_groups_filter:
  "(\<And>g. g \<in> set gs \<Longrightarrow> filter is_addr_char g = g) \<Longrightarrow>
     filter is_addr_char (join_groups gs) = join_groups gs"
  by (induction gs rule: join_groups.induct) auto

lemma join_groups_no_dot:
  "(\<And>g. g \<in> set gs \<Longrightarrow> CHR ''.'' \<notin> set g) \<Longrightarrow> CHR ''.'' \<notin> set (join_groups gs)"
  by (induction gs rule: join_groups.induct) auto

lemma join_groups_length:
  "(\<And>g. g \<in> set gs \<Longrightarrow> length g = 4) \<Longrightarrow> length (join_groups gs) \<le> 5 * length gs"
  by (induction gs rule: join_groups.induct) auto

lemma print_groups_eq:
  "(\<And>g. g \<in> set gs \<Longrightarrow> length g = 4 \<and> pad4 g = g \<and> g \<noteq> [] \<and> isxdigit (hd g)) \<Longrightarrow>
   length dst = 4 * i \<Longrightarrow> 4 * (i + length gs) < 64 \<Longrightarrow>
   print_groups gs i dst = Some (dst @ concat gs)"
proof (induction gs arbitrary: i dst)
  case (Cons g gs)
  then have "print_groups gs (i + 1) (dst @ g) = Some ((dst @ g) @ concat gs)"
    by (intro Cons.IH) auto
  with Cons.prems show ?case by auto
qed simp

lemma nth_concat_pairs:
  assumes "i < n" "\<And>i. length (f i) = 2"
  shows "concat (map f [0..<n]) ! (2 * i) = f i ! 0 \<and> concat (map f [0..<n]) ! (2 * i + 1) = f i ! 1"
  using assms(1)
proof (induction n)
  case (Suc n)
  have l: "length (concat (map f [0..<n])) = 2 * n" by (induction n) (simp_all add: assms(2))
  show ?case
  proof (cases "i = n")
    case True
    with l show ?thesis by (simp add: nth_append)
  next
    case False
    with Suc.prems have "i < n" by simp
    with Suc.IH l show ?thesis by (simp add: nth_append)
  qed
qed simp

section \<open>The round trip\<close>

text \<open>C38: What \<open>ip6_n2str\<close> prints of an address, \<open>ip6_str2n\<close> reads back: whatever the sixteen bytes are, and whatever \<open>inet_addr\<close>
  would answer, it returns the same bytes and leaves no buffer on the way (the trimmed text, the eight groups of digits, the digits of
  all of them).\<close>

theorem ip6_print_parse_roundtrip:
  "ip6_str2n inet_addr (ip6_n2str m a) = Some (rd_bytes m a 16)"
proof -
  let ?gs = "map (\<lambda>i. group_of m (a + 2 * i)) [0..<8]"
  let ?s = "join_groups ?gs"
  have g: "length g = 4 \<and> pad4 g = g \<and> g \<noteq> [] \<and> isxdigit (hd g) \<and> CHR '':'' \<notin> set g \<and>
      CHR ''.'' \<notin> set g \<and> filter is_addr_char g = g" if "g \<in> set ?gs" for g
    using that group_of_props by auto
  have len: "length ?s \<le> 40" using join_groups_length[of ?gs] g by simp
  have "filter is_addr_char ?s = ?s" by (rule join_groups_filter) (use g in blast)
  with len have 1: "trim_addr ?s = Some ?s" by (simp only: trim_addr_def Let_def) simp
  have "CHR ''.'' \<notin> set ?s" by (rule join_groups_no_dot) (use g in blast)
  then have 2: "ip6_addr_uniform inet_addr ?s = Some ?s" by (simp add: ip6_addr_uniform_def)
  have 3: "strstr ?s ''::'' = None" by (rule strstr_join) (use g in blast)
  have 4: "split_colon ?s = ?gs" by (rule split_colon_join) (use g in auto)
  have "print_groups ?gs 0 [] = Some ([] @ concat ?gs)"
    by (rule print_groups_eq) (use g in auto)
  with 4 have 5: "ip6_addr_no_mh ?s = Some (concat ?gs)" by (simp add: ip6_addr_no_mh_def)
  have l: "length (concat ?gs) = 32" by (simp add: upt_rec group_of_def show_02x_def)
  have "drop 32 (replicate 32 (CHR ''0'') @ [NUL]) = [NUL]" by simp
  with l have 6: "copy_digits 0 (concat ?gs) (replicate 32 (CHR ''0'') @ [NUL]) = Some (concat ?gs @ [NUL])"
    by (simp add: copy_digits_def)
  have 7: "copy_digits 32 [] (concat ?gs @ [NUL]) = Some (concat ?gs @ [NUL])"
    using l by (simp add: copy_digits_def)
  have nth: "(concat ?gs @ [NUL]) ! (2 * i) = digit_char (unat (m (a + i)) div 16) \<and>
      (concat ?gs @ [NUL]) ! (2 * i + 1) = digit_char (unat (m (a + i)) mod 16)" if "i < 16" for i
  proof -
    have "concat ?gs = concat (map (\<lambda>i. show_02x (m (a + i))) [0..<16])"
      by (simp add: upt_rec group_of_def eval_nat_numeral)
    moreover have "length (concat (map (\<lambda>i. show_02x (m (a + i))) [0..<16])) = 32"
      by (simp add: upt_rec show_02x_def)
    ultimately show ?thesis
      using that nth_concat_pairs[of i 16 "\<lambda>i. show_02x (m (a + i))"]
      by (simp add: nth_append show_02x_def)
  qed
  have "map (\<lambda>i. word_of_int (strtol [(concat ?gs @ [NUL]) ! (2 * i), (concat ?gs @ [NUL]) ! (2 * i + 1)] 16))
      [0..<16] = rd_bytes m a 16"
    using nth strtol_pair by (auto simp: rd_bytes_def show_02x_def)
  with 1 2 3 5 6 7 len show ?thesis
    by (simp add: ip6_n2str_join ip6_str2n_def)
qed

end
