(* ===== verification/ConfigFile.thy ===== *)
theory ConfigFile
  imports CLib
begin

text \<open>
  The configuration file of \<open>libs/app_utils/src/config_file_ops.c\<close>. The three allocated
  arrays hold one string per row; a row has room for \<open>MAX_VAR_NAME_LEN\<close> or
  \<open>MAX_VAR_VALUE_LEN\<close> characters and the terminating NUL, and \<open>None\<close> as the value of an
  operation is a write beyond a row, a buffer or through a null pointer (\<open>fclose(NULL)\<close>
  included). Files are a map from paths to contents; what \<open>malloc\<close> returns and the
  outcomes of \<open>fopen\<close> for writing, \<open>fwrite\<close> and \<open>rename\<close> are arguments.
  Messages to the log are left out.
\<close>

section \<open>State\<close>

type_synonym rows = "nat \<Rightarrow> string"
type_synonym disk = "string \<rightharpoonup> string"

definition MAX_PATH_LEN :: nat where "MAX_PATH_LEN = 1024"
definition MAX_VAR_NUM :: nat where "MAX_VAR_NUM = 50"
definition MAX_VAR_NAME_LEN :: nat where "MAX_VAR_NAME_LEN = 128"
definition MAX_VAR_VALUE_LEN :: nat where "MAX_VAR_VALUE_LEN = MAX_PATH_LEN"
definition LINE_SIZE :: nat where "LINE_SIZE = 768"

lemmas config_sizes = MAX_PATH_LEN_def MAX_VAR_NUM_def MAX_VAR_NAME_LEN_def
  MAX_VAR_VALUE_LEN_def LINE_SIZE_def

record config_state =
  config_file_path :: string
  ga_variables :: "rows option"
  ga_values :: "rows option"
  ga_values_backup :: "rows option"
  g_var_num :: nat

text \<open>The outcomes of the calls that write: \<open>fopen\<close>, the characters each \<open>fwrite\<close> accepts,
  \<open>rename\<close>.\<close>

record file_io =
  open_ok :: bool
  fwrite_num :: "nat \<Rightarrow> nat"
  rename_ok :: bool

section \<open>The code\<close>

definition free_config :: "config_state \<Rightarrow> config_state" where
  "free_config st = st\<lparr>g_var_num := 0, ga_variables := None, ga_values := None,
     ga_values_backup := (if ga_values_backup st \<noteq> None then None else ga_values_backup st)\<rparr>"

text \<open>\<open>strrchr\<close> finds the last slash, which is overwritten with a NUL.\<close>

definition get_dir_path_of_file :: "string \<Rightarrow> string option" where
  "get_dir_path_of_file file =
     (if MAX_PATH_LEN \<le> length file \<or> CHR ''/'' \<notin> set file then None
      else Some (rev (tl (dropWhile (\<lambda>c. c \<noteq> CHR ''/'') (rev file)))))"

function remove_trailing_chars :: "string \<Rightarrow> char \<Rightarrow> string" where
  "remove_trailing_chars path c =
     (if path \<noteq> [] \<and> last path = c then remove_trailing_chars (butlast path) c else path)"
  by pat_completeness auto
termination by (relation "measure (length \<circ> fst)") auto

declare remove_trailing_chars.simps [simp del]

definition key_sep :: "char \<Rightarrow> bool" where
  "key_sep c \<longleftrightarrow> isspace c \<or> c = CHR ''=''"

text \<open>\<open>get_key\<close>: the key and the value of a line, \<open>None\<close> the return value \<open>-1\<close>.\<close>

definition get_key :: "string \<Rightarrow> (string \<times> string) option" where
  "get_key line =
     (case dropWhile isspace line of
        [] \<Rightarrow> None
      | c # rest \<Rightarrow>
          (case dropWhile (\<lambda>c. \<not> key_sep c) rest of
             [] \<Rightarrow> None
           | _ # rest2 \<Rightarrow>
               (case dropWhile key_sep rest2 of
                  [] \<Rightarrow> None
                | q # rest3 \<Rightarrow>
                    if q \<noteq> CHR 0x22 then None
                    else if CHR 0x22 \<notin> set rest3 then None
                    else Some (c # takeWhile (\<lambda>c. \<not> key_sep c) rest,
                               takeWhile (\<lambda>c. c \<noteq> CHR 0x22) rest3))))"

text \<open>A string copied into row \<open>i\<close> of an array whose rows take \<open>len\<close> characters.\<close>

definition store_row :: "nat \<Rightarrow> nat \<Rightarrow> string \<Rightarrow> rows option \<Rightarrow> rows option option" where
  "store_row len i s arr =
     (case arr of None \<Rightarrow> None
      | Some f \<Rightarrow> if i < MAX_VAR_NUM \<and> length s \<le> len then Some (Some (f(i := s))) else None)"

definition value_copy :: "rows \<Rightarrow> rows \<Rightarrow> nat \<Rightarrow> rows" where
  "value_copy d s var_num = (\<lambda>i. if i < var_num then s i else d i)"

text \<open>The body of the loop of \<open>parse_config_file\<close>, for the characters \<open>fgets\<close> read.\<close>

definition parse_line :: "string \<Rightarrow> config_state \<Rightarrow> config_state option" where
  "parse_line chunk st =
     (let line = cstr chunk
      in if length line > LINE_SIZE then Some st
         else let bufline = dropWhile isspace line
              in if bufline = [] then Some st
                 else if hd bufline = CHR ''#'' then Some st
                 else case get_key bufline of
                   None \<Rightarrow> Some st
                 | Some (variable, value) \<Rightarrow>
                     if g_var_num st \<ge> MAX_VAR_NUM then Some st
                     else if length variable > MAX_VAR_NAME_LEN then Some st
                     else if length value > MAX_VAR_VALUE_LEN then Some st
                     else do {
                       vars \<leftarrow> store_row MAX_VAR_NAME_LEN (g_var_num st) variable (ga_variables st);
                       vals \<leftarrow> store_row MAX_VAR_VALUE_LEN (g_var_num st)
                                 (remove_trailing_chars value (CHR ''/'')) (ga_values st);
                       Some (st\<lparr>ga_variables := vars, ga_values := vals,
                                g_var_num := g_var_num st + 1\<rparr>)
                     })"

function parse_loop :: "string \<Rightarrow> config_state \<Rightarrow> config_state option" where
  "parse_loop content st =
     (case fgets (LINE_SIZE + 2) content of
        None \<Rightarrow> Some st
      | Some (chunk, rest) \<Rightarrow> do { st1 \<leftarrow> parse_line chunk st; parse_loop rest st1 })"
  by pat_completeness auto
termination
  by (relation "measure (length \<circ> fst)") (auto dest!: fgets_shorter[rotated] simp: config_sizes)

declare parse_loop.simps [simp del]

text \<open>\<open>vars\<close>, \<open>vals\<close> and \<open>backup\<close> are what \<open>malloc\<close> returns for the three arrays.\<close>

definition parse_config_file ::
    "disk \<Rightarrow> rows option \<Rightarrow> rows option \<Rightarrow> rows option \<Rightarrow> string \<Rightarrow> bool \<Rightarrow> config_state \<Rightarrow>
     (nat \<times> config_state) option" where
  "parse_config_file fs vars vals backup path need_update st =
     (if MAX_PATH_LEN \<le> length path then None
      else let st1 = st\<lparr>config_file_path := path\<rparr>
           in case fs path of
                None \<Rightarrow> None
              | Some content \<Rightarrow>
                  let st2 = st1\<lparr>ga_variables := vars, ga_values := vals\<rparr>;
                      st3 = (if need_update then st2\<lparr>ga_values_backup := backup\<rparr> else st2)
                  in if ga_variables st3 = None \<or> ga_values st3 = None \<or>
                        (need_update \<and> ga_values_backup st3 = None)
                     then Some (g_var_num st3, st3)
                     else do {
                       st4 \<leftarrow> parse_loop content st3;
                       st5 \<leftarrow> (case (ga_values_backup st4, ga_values st4) of
                           (Some d, Some s) \<Rightarrow>
                             Some (st4\<lparr>ga_values_backup := Some (value_copy d s (g_var_num st4))\<rparr>)
                         | (Some d, None) \<Rightarrow> None
                         | (None, _) \<Rightarrow> Some st4);
                       Some (g_var_num st5, st5)
                     })"

text \<open>The search loop of \<open>get_config_var\<close> and of the two setters: the row, if any.\<close>

definition find_var :: "string \<Rightarrow> config_state \<Rightarrow> nat option option" where
  "find_var var_name st =
     (if g_var_num st = 0 then Some None
      else case ga_variables st of
        None \<Rightarrow> None
      | Some f \<Rightarrow> Some (List.find (\<lambda>i. strcaseeq (f i) var_name) [0..<g_var_num st]))"

text \<open>The returned pointer is the address of a row of \<open>ga_values\<close>: its index.\<close>

definition get_config_var :: "string \<Rightarrow> config_state \<Rightarrow> nat option option" where
  "get_config_var var_name st = find_var var_name st"

definition config_line :: "string \<Rightarrow> string \<Rightarrow> string" where
  "config_line var val = var @ ''='' @ [CHR 0x22] @ val @ [CHR 0x22, LF]"

fun write_rows ::
    "file_io \<Rightarrow> string \<Rightarrow> rows \<Rightarrow> rows \<Rightarrow> nat list \<Rightarrow> disk \<Rightarrow> (bool \<times> disk) option" where
  "write_rows io tmp vars vals [] fs = Some (True, fs)"
| "write_rows io tmp vars vals (i # js) fs =
     (let line = config_line (vars i) (vals i);
          fs1 = fs(tmp := Some (the (fs tmp) @ take (fwrite_num io i) line))
      in if LINE_SIZE + 2 \<le> length line then None
         else if fwrite_num io i < length line then Some (False, fs1)
         else write_rows io tmp vars vals js fs1)"

definition write_to_config_file :: "file_io \<Rightarrow> disk \<Rightarrow> config_state \<Rightarrow> (int \<times> disk) option" where
  "write_to_config_file io fs st =
     (let tmp = config_file_path st @ ''.tmp''
      in if MAX_PATH_LEN \<le> length tmp then None
         else if \<not> open_ok io then Some (-1, fs)
         else let values = (if ga_values_backup st \<noteq> None then ga_values_backup st else ga_values st)
              in do {
                (ok, fs1) \<leftarrow> (if g_var_num st = 0 then Some (True, fs(tmp := Some []))
                   else do {
                     vars \<leftarrow> ga_variables st;
                     vals \<leftarrow> values;
                     write_rows io tmp vars vals [0..<g_var_num st] (fs(tmp := Some []))
                   });
                if \<not> ok then Some (-1, fs1)
                else if rename_ok io
                     then Some (0, fs1(config_file_path st := fs1 tmp, tmp := None))
                     else Some (-1, fs1)
              })"

definition set_config_var ::
    "file_io \<Rightarrow> string \<Rightarrow> string \<Rightarrow> disk \<Rightarrow> config_state \<Rightarrow> (int \<times> disk \<times> config_state) option" where
  "set_config_var io var_name value fs st = do {
     found \<leftarrow> find_var var_name st;
     case found of
       None \<Rightarrow> Some (-1, fs, st)
     | Some i \<Rightarrow> do {
         vals \<leftarrow> ga_values st;
         let value_old = vals i;
         if ga_values_backup st = None then do {
           vals1 \<leftarrow> store_row MAX_VAR_VALUE_LEN i value (ga_values st);
           Some (0, fs, st\<lparr>ga_values := vals1\<rparr>)
         } else do {
           b1 \<leftarrow> store_row MAX_VAR_VALUE_LEN i value (ga_values_backup st);
           let st1 = st\<lparr>ga_values_backup := b1\<rparr>;
           (r, fs1) \<leftarrow> write_to_config_file io fs st1;
           if r \<noteq> 0 then do {
             b2 \<leftarrow> store_row MAX_VAR_VALUE_LEN i value_old (ga_values_backup st1);
             Some (-1, fs1, st1\<lparr>ga_values_backup := b2\<rparr>)
           } else do {
             vals1 \<leftarrow> store_row MAX_VAR_VALUE_LEN i value (ga_values st1);
             Some (0, fs1, st1\<lparr>ga_values := vals1\<rparr>)
           }
         }
       }
   }"

definition set_config_var2 :: "string \<Rightarrow> string \<Rightarrow> config_state \<Rightarrow> (int \<times> config_state) option" where
  "set_config_var2 var_name value st = do {
     found \<leftarrow> find_var var_name st;
     case found of
       None \<Rightarrow> Some (-1, st)
     | Some i \<Rightarrow> do {
         b1 \<leftarrow> store_row MAX_VAR_VALUE_LEN i value (ga_values_backup st);
         Some (0, st\<lparr>ga_values_backup := b1\<rparr>)
       }
   }"

text \<open>\<open>print_all_vars\<close>: the lines it prints after the count.\<close>

definition print_all_vars :: "config_state \<Rightarrow> string list option" where
  "print_all_vars st =
     (if g_var_num st = 0 then Some []
      else do {
        vars \<leftarrow> ga_variables st;
        vals \<leftarrow> ga_values st;
        Some (map (\<lambda>i. vars i @ '' = '' @ vals i @ [LF]) [0..<g_var_num st])
      })"

section \<open>The grammar of a line\<close>

definition key_value_line :: "string \<Rightarrow> string \<Rightarrow> string \<Rightarrow> bool" where
  "key_value_line line k v \<longleftrightarrow>
     (\<exists>ws sep rest. line = ws @ k @ sep @ [CHR 0x22] @ v @ [CHR 0x22] @ rest \<and>
        list_all isspace ws \<and> list_all key_sep sep \<and> sep \<noteq> [] \<and> CHR 0x22 \<notin> set v \<and>
        k \<noteq> [] \<and> \<not> isspace (hd k) \<and> list_all (\<lambda>c. \<not> key_sep c) (tl k))"

lemma quote_not_sep [simp]: "\<not> key_sep (CHR 0x22)" "\<not> isspace (CHR 0x22)"
  by (simp_all add: key_sep_def isspace_def)

lemma get_key_complete: "key_value_line line k v \<Longrightarrow> get_key line = Some (k, v)"
proof -
  assume "key_value_line line k v"
  then obtain ws sep rest where l: "line = ws @ k @ sep @ [CHR 0x22] @ v @ [CHR 0x22] @ rest"
    "list_all isspace ws" "list_all key_sep sep" "sep \<noteq> []" "CHR 0x22 \<notin> set v"
    "k \<noteq> []" "\<not> isspace (hd k)" "list_all (\<lambda>c. \<not> key_sep c) (tl k)"
    by (auto simp: key_value_line_def)
  obtain c k' where k: "k = c # k'" using l(6) by (cases k) auto
  obtain e sep' where sep: "sep = e # sep'" using l(4) by (cases sep) auto
  have "dropWhile isspace line = c # k' @ sep @ CHR 0x22 # v @ CHR 0x22 # rest"
    using l k by (simp add: dropWhile_append2 list_all_iff)
  moreover have "dropWhile (\<lambda>c. \<not> key_sep c) (k' @ e # x) = e # x" for x
    using l(3,8) k sep by (simp add: dropWhile_append2 list_all_iff)
  moreover have "takeWhile (\<lambda>c. \<not> key_sep c) (k' @ e # x) = k'" for x
    using l(3,8) k sep by (simp add: takeWhile_append2 list_all_iff)
  moreover have "dropWhile key_sep (sep' @ CHR 0x22 # x) = CHR 0x22 # x" for x
    using l(3) sep by (simp add: dropWhile_append2 list_all_iff)
  moreover have "takeWhile (\<lambda>c. c \<noteq> CHR 0x22) (v @ CHR 0x22 # rest) = v"
    using l(5) by (subst takeWhile_append2) auto
  ultimately show ?thesis using sep k by (simp add: get_key_def)
qed

lemma get_key_sound: "get_key line = Some (k, v) \<Longrightarrow> key_value_line line k v"
proof -
  assume g: "get_key line = Some (k, v)"
  then obtain c rest where 1: "dropWhile isspace line = c # rest"
    by (auto simp: get_key_def split: list.splits)
  with g obtain e rest2 where 2: "dropWhile (\<lambda>c. \<not> key_sep c) rest = e # rest2"
    by (auto simp: get_key_def split: list.splits)
  with g 1 obtain rest3 where 3: "dropWhile key_sep rest2 = CHR 0x22 # rest3" "CHR 0x22 \<in> set rest3"
    "k = c # takeWhile (\<lambda>c. \<not> key_sep c) rest" "v = takeWhile (\<lambda>c. c \<noteq> CHR 0x22) rest3"
    by (auto simp: get_key_def split: list.splits if_splits)
  obtain rest4 where 4: "dropWhile (\<lambda>c. c \<noteq> CHR 0x22) rest3 = CHR 0x22 # rest4"
    using 3(2) by (cases "dropWhile (\<lambda>c. c \<noteq> CHR 0x22) rest3")
      (auto simp: dropWhile_eq_Cons_conv dest: hd_dropWhile)
  have "line = takeWhile isspace line @ c # rest" using 1 takeWhile_dropWhile_id[of isspace line] by simp
  also have "rest = takeWhile (\<lambda>c. \<not> key_sep c) rest @ e # rest2"
    using 2 takeWhile_dropWhile_id[of "\<lambda>c. \<not> key_sep c" rest] by simp
  also have "rest2 = takeWhile key_sep rest2 @ CHR 0x22 # rest3"
    using 3(1) takeWhile_dropWhile_id[of key_sep rest2] by simp
  also have "rest3 = v @ CHR 0x22 # rest4"
    using 3(4) 4 takeWhile_dropWhile_id[of "\<lambda>c. c \<noteq> CHR 0x22" rest3] by simp
  finally have "line = takeWhile isspace line @ k @ (e # takeWhile key_sep rest2) @
      [CHR 0x22] @ v @ [CHR 0x22] @ rest4"
    using 3(3) by simp
  moreover have "key_sep e" using 2 hd_dropWhile[of "\<lambda>c. \<not> key_sep c" rest] by auto
  moreover have "\<not> isspace c" using 1 hd_dropWhile[of isspace line] by auto
  ultimately show ?thesis
    unfolding key_value_line_def using 3(3,4)
    by (intro exI[of _ "takeWhile isspace line"] exI[of _ "e # takeWhile key_sep rest2"]
        exI[of _ rest4]) (auto simp: list_all_iff dest: set_takeWhileD)
qed

lemma key_value_length: "key_value_line line k v \<Longrightarrow> length k + length v + 3 \<le> length line"
  unfolding key_value_line_def by (auto simp: Suc_le_eq)

lemma remove_trailing_chars_snoc [simp]:
  "remove_trailing_chars [] c = []"
  "remove_trailing_chars (p @ [x]) c = (if x = c then remove_trailing_chars p c else p @ [x])"
  by (subst remove_trailing_chars.simps; simp)+

lemma remove_trailing_chars_props:
  "length (remove_trailing_chars path c) \<le> length path"
  "set (remove_trailing_chars path c) \<subseteq> set path"
  "remove_trailing_chars path c = [] \<or> last (remove_trailing_chars path c) \<noteq> c"
  by (induction path rule: rev_induct) auto

lemma remove_trailing_chars_id: "path = [] \<or> last path \<noteq> c \<Longrightarrow> remove_trailing_chars path c = path"
  by (cases path rule: rev_cases) auto

section \<open>What parsing stores\<close>

text \<open>The text of a file as \<open>fgets\<close> cuts it, and the variable a piece defines, if any.\<close>

function chunks :: "string \<Rightarrow> string list" where
  "chunks content =
     (case fgets (LINE_SIZE + 2) content of None \<Rightarrow> [] | Some (chunk, rest) \<Rightarrow> chunk # chunks rest)"
  by pat_completeness auto
termination by (relation "measure length") (auto dest!: fgets_shorter[rotated] simp: config_sizes)

declare chunks.simps [simp del]

definition line_entry :: "string \<Rightarrow> (string \<times> string) option" where
  "line_entry chunk =
     (let line = cstr chunk; bufline = dropWhile isspace line
      in if length line > LINE_SIZE \<or> bufline = [] \<or> hd bufline = CHR ''#'' then None
         else case get_key bufline of
           None \<Rightarrow> None
         | Some (k, v) \<Rightarrow> if length k > MAX_VAR_NAME_LEN then None
             else Some (k, remove_trailing_chars v (CHR ''/'')))"

definition config_vars :: "config_state \<Rightarrow> (string \<times> string) list" where
  "config_vars st =
     (case (ga_variables st, ga_values st) of
        (Some f, Some g) \<Rightarrow> map (\<lambda>i. (f i, g i)) [0..<g_var_num st] | _ \<Rightarrow> [])"

definition entries_of :: "string \<Rightarrow> (string \<times> string) list" where
  "entries_of content = List.map_filter line_entry (chunks content)"

lemma config_vars_some:
  "ga_variables st = Some f \<Longrightarrow> ga_values st = Some g \<Longrightarrow>
     config_vars st = map (\<lambda>i. (f i, g i)) [0..<g_var_num st]"
  by (simp add: config_vars_def)

lemma line_entry_value: "get_key (dropWhile isspace line) = Some (k, v) \<Longrightarrow>
    length line \<le> LINE_SIZE \<Longrightarrow> length v \<le> MAX_VAR_VALUE_LEN"
  using key_value_length[OF get_key_sound, of "dropWhile isspace line" k v]
    length_dropWhile_le[of isspace line] by (simp add: config_sizes)

lemma parse_line_spec:
  assumes "ga_variables st = Some f" "ga_values st = Some g" "g_var_num st \<le> MAX_VAR_NUM"
  shows "\<exists>f' g'. parse_line chunk st = Some (st\<lparr>ga_variables := Some f', ga_values := Some g',
      g_var_num := length (take MAX_VAR_NUM (config_vars st @ (case line_entry chunk of None \<Rightarrow> [] | Some e \<Rightarrow> [e])))\<rparr>) \<and>
    map (\<lambda>i. (f' i, g' i)) [0..<g_var_num (the (parse_line chunk st))] =
      take MAX_VAR_NUM (config_vars st @ (case line_entry chunk of None \<Rightarrow> [] | Some e \<Rightarrow> [e]))"
proof (cases "line_entry chunk")
  case None
  then have "parse_line chunk st = Some st"
    by (auto simp: line_entry_def parse_line_def Let_def split: if_splits option.splits)
  with assms None show ?thesis by (intro exI[of _ f] exI[of _ g]) (simp add: config_vars_some)
next
  case (Some e)
  obtain k v where e: "get_key (dropWhile isspace (cstr chunk)) = Some (k, v)"
      "length (cstr chunk) \<le> LINE_SIZE" "dropWhile isspace (cstr chunk) \<noteq> []"
      "hd (dropWhile isspace (cstr chunk)) \<noteq> CHR ''#''"
      "length k \<le> MAX_VAR_NAME_LEN" "e = (k, remove_trailing_chars v (CHR ''/''))"
    using Some by (auto simp: line_entry_def Let_def split: if_splits option.splits)
  have v: "length v \<le> MAX_VAR_VALUE_LEN" by (rule line_entry_value[OF e(1,2)])
  let ?v = "remove_trailing_chars v (CHR ''/'')" and ?n = "g_var_num st"
  have v': "length ?v \<le> MAX_VAR_VALUE_LEN" using v remove_trailing_chars_props(1)[of v] by (meson le_trans)
  show ?thesis
  proof (cases "?n = MAX_VAR_NUM")
    case True
    with e have "parse_line chunk st = Some st" by (simp add: parse_line_def Let_def)
    with assms True Some show ?thesis by (intro exI[of _ f] exI[of _ g]) (simp add: config_vars_some)
  next
    case False
    with assms have n: "?n < MAX_VAR_NUM" by simp
    with e v v' assms have "parse_line chunk st = Some (st\<lparr>ga_variables := Some (f(?n := k)),
        ga_values := Some (g(?n := ?v)), g_var_num := ?n + 1\<rparr>)"
      by (simp add: parse_line_def Let_def store_row_def del: dropWhile_eq_Nil_conv)
    with assms n Some e(6) show ?thesis
      by (intro exI[of _ "f(?n := k)"] exI[of _ "g(?n := ?v)"]) (simp add: config_vars_some)
  qed
qed

lemma chunks_Nil [simp]: "chunks [] = []"
  by (simp add: chunks.simps fgets_def)

lemma chunks_step: "take_line 769 s = (c, r) \<Longrightarrow> s \<noteq> [] \<Longrightarrow> chunks s = c # chunks r"
  by (subst chunks.simps) (simp add: fgets_def LINE_SIZE_def)

lemma parse_loop_step:
  "take_line 769 s = (c, r) \<Longrightarrow> s \<noteq> [] \<Longrightarrow>
     parse_loop s st = do { st1 \<leftarrow> parse_line c st; parse_loop r st1 }"
  by (subst parse_loop.simps) (simp add: fgets_def LINE_SIZE_def)

lemma parse_loop_Nil [simp]: "parse_loop [] st = Some st"
  by (simp add: parse_loop.simps fgets_def)

lemma take_append_take: "take n (take n xs @ ys) = take n (xs @ ys)"
  by (simp add: take_append min_def)

lemma parse_loop_spec:
  assumes "ga_variables st = Some f" "ga_values st = Some g" "g_var_num st \<le> MAX_VAR_NUM"
  shows "\<exists>f' g' n. parse_loop content st = Some (st\<lparr>ga_variables := Some f', ga_values := Some g', g_var_num := n\<rparr>) \<and>
    map (\<lambda>i. (f' i, g' i)) [0..<n] = take MAX_VAR_NUM (config_vars st @ entries_of content) \<and> n \<le> MAX_VAR_NUM"
  using assms
proof (induction "length content" arbitrary: content st f g rule: less_induct)
  case less
  show ?case
  proof (cases "content = []")
    case True
    with less.prems show ?thesis
      by (intro exI[of _ f] exI[of _ g] exI[of _ "g_var_num st"])
        (simp add: entries_of_def config_vars_some map_filter_simps)
  next
    case False
    obtain c r where t: "take_line 769 content = (c, r)" by fastforce
    have l: "length r < length content"
      using fgets_shorter[of 770 content c r] t False by (simp add: fgets_def)
    let ?e = "case line_entry c of None \<Rightarrow> [] | Some e \<Rightarrow> [e]"
    obtain f1 g1 n1 where 1: "parse_line c st =
        Some (st\<lparr>ga_variables := Some f1, ga_values := Some g1, g_var_num := n1\<rparr>)"
      "n1 = length (take MAX_VAR_NUM (config_vars st @ ?e))"
      "map (\<lambda>i. (f1 i, g1 i)) [0..<n1] = take MAX_VAR_NUM (config_vars st @ ?e)"
      using parse_line_spec[OF less.prems, of c] by auto
    let ?st1 = "st\<lparr>ga_variables := Some f1, ga_values := Some g1, g_var_num := n1\<rparr>"
    have "n1 \<le> MAX_VAR_NUM" using 1(2) by simp
    then obtain f2 g2 n2 where 2: "parse_loop r ?st1 =
        Some (?st1\<lparr>ga_variables := Some f2, ga_values := Some g2, g_var_num := n2\<rparr>)"
      "map (\<lambda>i. (f2 i, g2 i)) [0..<n2] = take MAX_VAR_NUM (config_vars ?st1 @ entries_of r)"
      "n2 \<le> MAX_VAR_NUM"
      using less.hyps[OF l, of ?st1 f1 g1] by auto
    have "config_vars ?st1 = take MAX_VAR_NUM (config_vars st @ ?e)"
      using 1(3) by (simp add: config_vars_def)
    moreover have "entries_of content = ?e @ entries_of r"
      using chunks_step[OF t False] by (simp add: entries_of_def map_filter_simps split: option.split)
    ultimately have "take MAX_VAR_NUM (config_vars ?st1 @ entries_of r) =
        take MAX_VAR_NUM (config_vars st @ entries_of content)"
      by (simp only: take_append_take append_assoc)
    with 1(1) 2 parse_loop_step[OF t False, of st] show ?thesis
      by (intro exI[of _ f2, OF exI[of _ g2, OF exI[of _ n2]]]) simp
  qed
qed

section \<open>The entries a file can hold\<close>

definition entry_ok :: "string \<times> string \<Rightarrow> bool" where
  "entry_ok e = (case e of (k, v) \<Rightarrow>
     k \<noteq> [] \<and> \<not> isspace (hd k) \<and> hd k \<noteq> CHR ''#'' \<and> list_all (\<lambda>c. \<not> key_sep c) (tl k) \<and>
     length k \<le> MAX_VAR_NAME_LEN \<and> length v \<le> MAX_VAR_VALUE_LEN \<and>
     NUL \<notin> set k \<and> set v \<inter> {NUL, LF, CHR 0x22} = {} \<and> (v = [] \<or> last v \<noteq> CHR ''/''))"

lemma take_line_LF_last: "take_line n s = (l, r) \<Longrightarrow> LF \<notin> set (butlast l)"
  by (induction n s arbitrary: l r rule: take_line.induct) (auto split: if_splits prod.splits)

lemma LF_space [simp]: "isspace LF" "key_sep LF" "\<not> isspace NUL" "\<not> key_sep NUL"
  by (simp_all add: isspace_def key_sep_def)

lemma line_entry_ok:
  assumes "line_entry chunk = Some e" "LF \<notin> set (butlast chunk)"
  shows "entry_ok e"
proof -
  obtain k v where e: "get_key (dropWhile isspace (cstr chunk)) = Some (k, v)"
      "length (cstr chunk) \<le> LINE_SIZE" "hd (dropWhile isspace (cstr chunk)) \<noteq> CHR ''#''"
      "length k \<le> MAX_VAR_NAME_LEN" "e = (k, remove_trailing_chars v (CHR ''/''))"
    using assms(1) by (auto simp: line_entry_def Let_def split: if_splits option.splits)
  obtain ws sep rest where l: "dropWhile isspace (cstr chunk) =
        ws @ k @ sep @ [CHR 0x22] @ v @ [CHR 0x22] @ rest"
    "list_all isspace ws" "list_all key_sep sep" "sep \<noteq> []" "CHR 0x22 \<notin> set v"
    "k \<noteq> []" "\<not> isspace (hd k)" "list_all (\<lambda>c. \<not> key_sep c) (tl k)"
    using get_key_sound[OF e(1)] by (auto simp: key_value_line_def)
  have "ws = []"
    using l(1,2) hd_dropWhile[of isspace "cstr chunk"] by (cases ws) auto
  with l(1,6) e(3) have "hd k \<noteq> CHR ''#''" by simp
  moreover have c: "chunk = takeWhile isspace (cstr chunk) @
      (k @ sep @ [CHR 0x22] @ v @ [CHR 0x22] @ rest) @ dropWhile (\<lambda>c. c \<noteq> NUL) chunk"
    using takeWhile_dropWhile_id[of isspace "cstr chunk"] l(1) \<open>ws = []\<close>
      takeWhile_dropWhile_id[of "\<lambda>c. c \<noteq> NUL" chunk]
    by (metis append_assoc append_Nil cstr_def)
  have "set (k @ v) \<subseteq> set (dropWhile isspace (cstr chunk))" using l(1) by auto
  then have "NUL \<notin> set (k @ v)" by (auto simp: cstr_def dest!: set_dropWhileD set_takeWhileD)
  moreover have "LF \<notin> set v"
  proof -
    have "butlast chunk = takeWhile isspace (cstr chunk) @ k @ sep @ [CHR 0x22] @ v @
        butlast ([CHR 0x22] @ rest @ dropWhile (\<lambda>c. c \<noteq> NUL) chunk)"
      by (subst c) (simp add: butlast_append)
    with assms(2) show ?thesis by (metis Un_iff set_append)
  qed
  moreover have "length v \<le> MAX_VAR_VALUE_LEN" by (rule line_entry_value[OF e(1,2)])
  ultimately show ?thesis
    using l(5-8) e(4) remove_trailing_chars_props[of v "CHR ''/''"]
    unfolding e(5) entry_ok_def by auto
qed

lemma entries_of_ok: "list_all entry_ok (entries_of content)"
proof (induction content rule: chunks.induct)
  case (1 content)
  show ?case
  proof (cases "content = []")
    case True
    then show ?thesis by (simp add: entries_of_def map_filter_simps)
  next
    case False
    obtain c r where t: "take_line 769 content = (c, r)" by fastforce
    have "fgets (LINE_SIZE + 2) content = Some (c, r)" using t False by (simp add: fgets_def LINE_SIZE_def)
    then have "list_all entry_ok (entries_of r)" by (rule 1) simp
    then show ?thesis
      using chunks_step[OF t False] line_entry_ok[of c] take_line_LF_last[OF t]
      by (simp add: entries_of_def map_filter_simps split: option.split)
  qed
qed

section \<open>What is written is read back\<close>

definition config_text :: "(string \<times> string) list \<Rightarrow> string" where
  "config_text es = concat (map (\<lambda>(k, v). config_line k v) es)"

definition entry_fits :: "string \<times> string \<Rightarrow> bool" where
  "entry_fits e = (length (fst e) + length (snd e) + 4 \<le> LINE_SIZE)"

lemma line_entry_config_line:
  assumes "entry_ok (k, v)" "entry_fits (k, v)"
  shows "line_entry (config_line k v) = Some (k, v)"
proof -
  have n: "NUL \<notin> set (config_line k v)" using assms(1) by (auto simp: config_line_def entry_ok_def)
  then have c: "cstr (config_line k v) = config_line k v"
    by (simp add: cstr_def takeWhile_eq_all_conv) metis
  obtain x k' where k: "k = x # k'" using assms(1) by (cases k) (auto simp: entry_ok_def)
  then have d: "dropWhile isspace (config_line k v) = config_line k v" "hd (config_line k v) \<noteq> CHR ''#''"
    "config_line k v \<noteq> []"
    using assms(1) by (auto simp: config_line_def entry_ok_def)
  have "key_value_line (config_line k v) k v"
    unfolding key_value_line_def using assms(1)
    by (intro exI[of _ "[]"] exI[of _ "''=''"] exI[of _ "[LF]"])
      (auto simp: config_line_def entry_ok_def key_sep_def)
  then have "get_key (config_line k v) = Some (k, v)" by (rule get_key_complete)
  moreover have "length (config_line k v) \<le> LINE_SIZE"
    using assms(2) by (simp add: config_line_def entry_fits_def)
  ultimately show ?thesis
    using c d assms(1)
    by (simp add: line_entry_def remove_trailing_chars_id entry_ok_def Let_def
        del: dropWhile_eq_Nil_conv)
qed

lemma chunks_config_text:
  "list_all entry_ok es \<Longrightarrow> list_all entry_fits es \<Longrightarrow>
     chunks (config_text es) = map (\<lambda>(k, v). config_line k v) es"
proof (induction es)
  case (Cons e es)
  obtain k v where e: "e = (k, v)" by fastforce
  let ?l = "k @ ''='' @ [CHR 0x22] @ v @ [CHR 0x22]"
  have k: "LF \<notin> set k"
    using Cons.prems(1) e by (cases k) (auto simp: entry_ok_def list_all_iff)
  then have "LF \<notin> set ?l" "length ?l < 769"
    using Cons.prems e by (auto simp: entry_ok_def entry_fits_def LINE_SIZE_def)
  then have "take_line 769 (?l @ LF # config_text es) = (?l @ [LF], config_text es)"
    by (rule take_line_LF)
  from chunks_step[OF this] Cons e show ?case by (simp add: config_text_def config_line_def)
qed (simp add: config_text_def)

lemma entries_of_config_text:
  "list_all entry_ok es \<Longrightarrow> list_all entry_fits es \<Longrightarrow> entries_of (config_text es) = es"
  unfolding entries_of_def
  by (simp add: chunks_config_text)
    (induction es, auto simp: map_filter_simps line_entry_config_line)

section \<open>Writing the file\<close>

definition all_written :: "file_io \<Rightarrow> (string \<times> string) list \<Rightarrow> bool" where
  "all_written io es = list_all (\<lambda>i. length (config_line (fst (es ! i)) (snd (es ! i))) \<le> fwrite_num io i) [0..<length es]"

definition short_lines :: "(string \<times> string) list \<Rightarrow> bool" where
  "short_lines es = list_all (\<lambda>(k, v). length (config_line k v) < LINE_SIZE + 2) es"

lemma write_rows_spec:
  assumes "\<And>i. i \<in> set js \<Longrightarrow> length (config_line (vars i) (vals i)) < LINE_SIZE + 2"
  shows "\<exists>ok tx. write_rows io tmp vars vals js fs = Some (ok, fs(tmp := tx)) \<and>
    (ok \<longleftrightarrow> (\<forall>i \<in> set js. length (config_line (vars i) (vals i)) \<le> fwrite_num io i)) \<and>
    (ok \<longrightarrow> fs tmp = Some t \<longrightarrow> tx = Some (t @ config_text (map (\<lambda>i. (vars i, vals i)) js)))"
  using assms
proof (induction js arbitrary: fs t)
  case Nil
  show ?case by (intro exI[of _ True] exI[of _ "fs tmp"]) (simp add: config_text_def)
next
  case (Cons i js)
  let ?l = "config_line (vars i) (vals i)"
  have l: "length ?l < LINE_SIZE + 2" using Cons.prems by simp
  let ?fs1 = "fs(tmp \<mapsto> the (fs tmp) @ take (fwrite_num io i) ?l)"
  show ?case
  proof (cases "fwrite_num io i < length ?l")
    case True
    with l show ?thesis
      by (intro exI[of _ False] exI[of _ "?fs1 tmp"]) (simp add: Let_def fun_eq_iff)
  next
    case False
    have js: "length (config_line (vars j) (vals j)) < LINE_SIZE + 2" if "j \<in> set js" for j
      using Cons.prems that by simp
    obtain ok tx where r: "write_rows io tmp vars vals js ?fs1 = Some (ok, ?fs1(tmp := tx))"
      "ok \<longleftrightarrow> (\<forall>i \<in> set js. length (config_line (vars i) (vals i)) \<le> fwrite_num io i)"
      "ok \<longrightarrow> ?fs1 tmp = Some (t @ ?l) \<longrightarrow> tx = Some ((t @ ?l) @ config_text (map (\<lambda>i. (vars i, vals i)) js))"
      using Cons.IH[OF js, of ?fs1 "t @ ?l"] by blast
    with l False show ?thesis
      by (intro exI[of _ ok] exI[of _ tx]) (auto simp: Let_def config_text_def)
  qed
qed

lemma write_rows_overflow:
  assumes "i \<in> set js" "LINE_SIZE + 2 \<le> length (config_line (vars i) (vals i))"
    "\<And>j. j \<in> set js \<Longrightarrow> length (config_line (vars j) (vals j)) \<le> fwrite_num io j"
  shows "write_rows io tmp vars vals js fs = None"
  using assms by (induction js arbitrary: fs) (fastforce simp: Let_def)+

text \<open>The rows a state would write.\<close>

definition written_vars :: "config_state \<Rightarrow> (string \<times> string) list" where
  "written_vars st = config_vars (st\<lparr>ga_values :=
     (if ga_values_backup st \<noteq> None then ga_values_backup st else ga_values st)\<rparr>)"

lemma tmp_neq [simp]: "p @ ''.tmp'' \<noteq> p" "p \<noteq> p @ ''.tmp''"
  by simp_all

lemma write_to_config_file_spec:
  assumes "ga_variables st = Some f" "ga_values st = Some g" "short_lines (written_vars st)"
    and "length (config_file_path st) + 4 < MAX_PATH_LEN"
  shows "\<exists>r fs'. write_to_config_file io fs st = Some (r, fs') \<and>
    (r = 0 \<longleftrightarrow> open_ok io \<and> all_written io (written_vars st) \<and> rename_ok io) \<and>
    fs' (config_file_path st) =
      (if r = 0 then Some (config_text (written_vars st)) else fs (config_file_path st)) \<and>
    (\<forall>p. p \<noteq> config_file_path st \<longrightarrow> p \<noteq> config_file_path st @ ''.tmp'' \<longrightarrow> fs' p = fs p)"
proof -
  let ?tmp = "config_file_path st @ ''.tmp''" and ?n = "g_var_num st"
  obtain b where b: "(if ga_values_backup st \<noteq> None then ga_values_backup st else ga_values st) = Some b"
    using assms(2) by (cases "ga_values_backup st") auto
  have w: "written_vars st = map (\<lambda>i. (f i, b i)) [0..<?n]"
    using assms(1) b by (simp add: written_vars_def config_vars_def)
  have s: "length (config_line (f i) (b i)) < LINE_SIZE + 2" if "i \<in> set [0..<?n]" for i
    using assms(3) that by (auto simp: w short_lines_def list_all_iff)
  obtain ok tx where r: "write_rows io ?tmp f b [0..<?n] (fs(?tmp := Some [])) =
      Some (ok, (fs(?tmp := Some []))(?tmp := tx))"
    "ok \<longleftrightarrow> (\<forall>i \<in> set [0..<?n]. length (config_line (f i) (b i)) \<le> fwrite_num io i)"
    "ok \<longrightarrow> tx = Some (config_text (map (\<lambda>i. (f i, b i)) [0..<?n]))"
    using write_rows_spec[of "[0..<?n]" f b io ?tmp "fs(?tmp := Some [])" "[]"] s by auto
  have ok: "ok \<longleftrightarrow> all_written io (written_vars st)"
    using r(2) by (simp add: all_written_def w list_all_iff)
  let ?w = "if ?n = 0 then Some (True, fs(?tmp := Some []))
      else do { vars \<leftarrow> ga_variables st; vals \<leftarrow> (if ga_values_backup st \<noteq> None then ga_values_backup st else ga_values st);
        write_rows io ?tmp vars vals [0..<?n] (fs(?tmp := Some [])) }"
  have W: "?w = Some (ok, fs(?tmp := tx))" using r assms(1) b by auto
  have "write_to_config_file io fs st =
      (if \<not> open_ok io then Some (-1, fs)
       else if \<not> ok then Some (-1, fs(?tmp := tx))
       else if rename_ok io then Some (0, (fs(?tmp := tx))(config_file_path st := tx, ?tmp := None))
       else Some (-1, fs(?tmp := tx)))"
    using assms(4) by (simp only: write_to_config_file_def Let_def W) (simp add: MAX_PATH_LEN_def)
  with ok r(3) w show ?thesis by (cases "open_ok io"; cases ok; cases "rename_ok io") auto
qed

lemma find_var_some:
  "ga_variables st = Some f \<Longrightarrow>
     find_var name st = Some (List.find (\<lambda>i. strcaseeq (f i) name) [0..<g_var_num st])"
  by (simp add: find_var_def)

lemma find_upt_bound: "List.find P [0..<n] = Some i \<Longrightarrow> i < n"
  by (auto simp: find_Some_iff)

lemma map_upd_row:
  "i < n \<Longrightarrow> map (\<lambda>j. (f j, (g(i := v)) j)) [0..<n] = (map (\<lambda>j. (f j, g j)) [0..<n])[i := (f i, v)]"
  by (rule nth_equalityI) (auto simp: nth_list_update)

lemma parse_ready:
  assumes "fs path = Some content" "length path < MAX_PATH_LEN" "g_var_num st = 0" "ga_values_backup st = None"
  shows "\<exists>st'. parse_config_file fs (Some f) (Some g) (Some h) path need st = Some (g_var_num st', st') \<and>
    config_vars st' = take MAX_VAR_NUM (entries_of content) \<and>
    written_vars st' = config_vars st' \<and> g_var_num st' = length (config_vars st') \<and>
    config_file_path st' = path \<and> ga_variables st' \<noteq> None \<and> ga_values st' \<noteq> None \<and>
    (ga_values_backup st' \<noteq> None \<longleftrightarrow> need)"
proof -
  let ?st = "st\<lparr>config_file_path := path, ga_variables := Some f, ga_values := Some g\<rparr>"
  let ?st3 = "if need then ?st\<lparr>ga_values_backup := Some h\<rparr> else ?st"
  obtain f' g' n where r: "parse_loop content ?st3 =
      Some (?st3\<lparr>ga_variables := Some f', ga_values := Some g', g_var_num := n\<rparr>)"
    "map (\<lambda>i. (f' i, g' i)) [0..<n] = take MAX_VAR_NUM (config_vars ?st3 @ entries_of content)"
    using parse_loop_spec[of ?st3 f g content] assms(3) by (cases need) auto
  have "config_vars ?st3 = []" using assms(3) by (simp add: config_vars_def)
  moreover have "map (\<lambda>i. (f' i, if i < n then g' i else h i)) [0..<n] = map (\<lambda>i. (f' i, g' i)) [0..<n]"
    by simp
  moreover have "n = length (map (\<lambda>i. (f' i, g' i)) [0..<n])" by simp
  ultimately show ?thesis
    using r assms by (cases need) (simp_all add: parse_config_file_def Let_def config_vars_def
        written_vars_def value_copy_def)
qed

section \<open>Properties\<close>

text \<open>C34: \<open>get_key\<close> accepts exactly the lines of the form: blanks, a key of one non-blank
  character and then no blank and no equals sign, at least one blank or equals sign, a
  double quote, the value, a double quote, anything; and returns that key and value.\<close>

theorem get_key_grammar:
  "get_key line = Some (k, v) \<longleftrightarrow>
    (\<exists>ws sep rest. line = ws @ k @ sep @ [CHR 0x22] @ v @ [CHR 0x22] @ rest \<and>
      list_all isspace ws \<and> list_all key_sep sep \<and> sep \<noteq> [] \<and> CHR 0x22 \<notin> set v \<and>
      k \<noteq> [] \<and> \<not> isspace (hd k) \<and> list_all (\<lambda>c. \<not> key_sep c) (tl k))"
  by (rule iffI, rule get_key_sound[unfolded key_value_line_def],
      assumption, rule get_key_complete[unfolded key_value_line_def])

text \<open>C35: On a freshly freed state, with memory for its tables and a path below 1024 characters, \<open>parse_config_file\<close> stores the entries of the first fifty
  lines that define one, in order, with every name and value inside its row, and makes the
  backup agree; without the file it does not return, because it closes a null stream.\<close>

theorem parse_config_result:
  assumes "length path < MAX_PATH_LEN" and "g_var_num st = 0" and "ga_values_backup st = None"
  shows "case fs path of
      None \<Rightarrow> parse_config_file fs (Some f) (Some g) (Some h) path need st = None
    | Some content \<Rightarrow> \<exists>st'.
        parse_config_file fs (Some f) (Some g) (Some h) path need st = Some (g_var_num st', st') \<and>
        config_vars st' = take MAX_VAR_NUM (entries_of content) \<and>
        g_var_num st' = length (config_vars st') \<and> written_vars st' = config_vars st' \<and>
        list_all entry_ok (config_vars st') \<and> (ga_values_backup st' \<noteq> None \<longleftrightarrow> need)"
proof (cases "fs path")
  case None
  with assms(1) show ?thesis by (simp add: parse_config_file_def)
next
  case (Some content)
  have "list_all entry_ok (take MAX_VAR_NUM (entries_of content))"
    using entries_of_ok[of content] by (auto simp: list_all_iff dest: in_set_takeD)
  obtain st' where "parse_config_file fs (Some f) (Some g) (Some h) path need st = Some (g_var_num st', st')"
    "config_vars st' = take MAX_VAR_NUM (entries_of content)" "written_vars st' = config_vars st'"
    "g_var_num st' = length (config_vars st')" "ga_values_backup st' \<noteq> None \<longleftrightarrow> need"
    using parse_ready[where fs = fs and path = path, OF Some assms, of f g h need] by blast
  then show ?thesis unfolding Some option.case
    using \<open>list_all entry_ok (take MAX_VAR_NUM (entries_of content))\<close> by metis
qed

definition empty_config :: config_state where
  "empty_config = \<lparr>config_file_path = [], ga_variables = None, ga_values = None,
     ga_values_backup = None, g_var_num = 0\<rparr>"

lemma parse_config_result_witness:
  "\<exists>st'. parse_config_file (Map.empty(''c'' \<mapsto> ''a='' @ [CHR 0x22, CHR ''1'', CHR 0x22])) (Some (\<lambda>_. [])) (Some (\<lambda>_. []))
      (Some (\<lambda>_. [])) ''c'' True empty_config = Some (g_var_num st', st') \<and>
    config_vars st' = [(''a'', ''1'')]"
proof -
  let ?s = "''a='' @ [CHR 0x22, CHR ''1'', CHR 0x22]"
  have "chunks ?s = [?s]"
    using chunks_step[of ?s ?s "[]"] by (simp add: eval_nat_numeral)
  moreover have "line_entry ?s = Some (''a'', ''1'')"
    by code_simp
  ultimately have "entries_of ?s = [(''a'', ''1'')]" by (simp add: entries_of_def map_filter_simps)
  then show ?thesis
    using parse_config_result[of "''c''" empty_config "Map.empty(''c'' \<mapsto> ?s)" "\<lambda>_. []" "\<lambda>_. []" "\<lambda>_. []" True]
    by (auto simp: empty_config_def config_sizes)
qed

text \<open>C26: What \<open>write_to_config_file\<close> writes, \<open>parse_config_file\<close> reads back: after a
  successful write and \<open>free_config\<close>, parsing the file gives the same variables. This is for at most as many variables as the table
  has rows, whose backup agrees with the values, and for entries the format can hold: a name that is not empty, begins with neither
  a blank nor \<open>#\<close> and has no separator; a value without line feed and quote that does not end in \<open>/\<close>, which the parser takes for a
  continued line; neither with a zero byte or longer than its row, and the line of both no longer than the line buffer. Memory for the tables is
  there, and the path leaves room for the suffix of the temporary file.\<close>

theorem config_write_parse_roundtrip:
  assumes "ga_variables st = Some f" and "ga_values st = Some g" and "written_vars st = config_vars st"
    and "list_all entry_ok (config_vars st)" and "list_all entry_fits (config_vars st)"
    and "length (config_vars st) \<le> MAX_VAR_NUM" and "length (config_file_path st) + 4 < MAX_PATH_LEN"
    and "open_ok io" and "all_written io (config_vars st)" and "rename_ok io"
  shows "\<exists>fs' st'. write_to_config_file io fs st = Some (0, fs') \<and>
    parse_config_file fs' (Some f') (Some g') (Some h') (config_file_path st) need (free_config st) =
      Some (g_var_num st', st') \<and>
    config_vars st' = config_vars st"
proof -
  have "short_lines (written_vars st)"
    using assms(3,5) by (auto simp: short_lines_def list_all_iff entry_fits_def config_line_def)
  from write_to_config_file_spec[OF assms(1,2) this assms(7), of io fs] assms(3,8-10)
  obtain fs' where w: "write_to_config_file io fs st = Some (0, fs')"
      "fs' (config_file_path st) = Some (config_text (config_vars st))"
    by (metis (mono_tags, lifting))
  have "length (config_file_path st) < MAX_PATH_LEN" "g_var_num (free_config st) = 0"
    "ga_values_backup (free_config st) = None"
    using assms(7) by (simp_all add: free_config_def)
  from parse_ready[where fs = fs' and path = "config_file_path st", OF w(2) this, of f' g' h' need]
  obtain st' where "parse_config_file fs' (Some f') (Some g') (Some h') (config_file_path st) need
      (free_config st) = Some (g_var_num st', st')"
    "config_vars st' = take MAX_VAR_NUM (entries_of (config_text (config_vars st)))" by blast
  with w(1) entries_of_config_text[OF assms(4,5)] assms(6) show ?thesis by (metis take_all)
qed

definition one_var_config :: config_state where
  "one_var_config = \<lparr>config_file_path = ''c'', ga_variables = Some (\<lambda>_. ''a''),
     ga_values = Some (\<lambda>_. ''1''), ga_values_backup = Some (\<lambda>_. ''1''), g_var_num = 1\<rparr>"

lemma one_var_config_fields:
  "config_vars one_var_config = [(''a'', ''1'')]" "written_vars one_var_config = [(''a'', ''1'')]"
  "ga_variables one_var_config = Some (\<lambda>_. ''a'')" "ga_values one_var_config = Some (\<lambda>_. ''1'')"
  "ga_values_backup one_var_config = Some (\<lambda>_. ''1'')" "g_var_num one_var_config = 1"
  "config_file_path one_var_config = ''c''" "entry_ok (''a'', ''1'')" "entry_fits (''a'', ''1'')"
  by (simp_all add: one_var_config_def config_vars_def written_vars_def entry_ok_def entry_fits_def
      isspace_def config_sizes)

lemma config_write_parse_roundtrip_witness:
  "\<exists>fs' st'. write_to_config_file \<lparr>open_ok = True, fwrite_num = \<lambda>_. 6, rename_ok = True\<rparr>
      Map.empty one_var_config = Some (0, fs') \<and>
    parse_config_file fs' (Some (\<lambda>_. [])) (Some (\<lambda>_. [])) (Some (\<lambda>_. [])) ''c'' True
      (free_config one_var_config) = Some (g_var_num st', st') \<and>
    config_vars st' = [(''a'', ''1'')]"
  using config_write_parse_roundtrip[of one_var_config "\<lambda>_. ''a''" "\<lambda>_. ''1''"
      "\<lparr>open_ok = True, fwrite_num = \<lambda>_. 6, rename_ok = True\<rparr>" Map.empty "\<lambda>_. []" "\<lambda>_. []" "\<lambda>_. []" True]
  by (simp add: one_var_config_fields all_written_def config_line_def config_sizes)



text \<open>A value that fits its row can still be too long for the line buffer of
  \<open>write_to_config_file\<close>: with the file open and no failing write, setting it overflows the
  buffer.\<close>

theorem set_config_var_overflow:
  assumes "ga_variables st = Some f" and "ga_values st = Some g" and "ga_values_backup st \<noteq> None"
    and "find_var name st = Some (Some i)" and "i < MAX_VAR_NUM"
    and "length value \<le> MAX_VAR_VALUE_LEN" and "LINE_SIZE + 2 \<le> length (f i) + length value + 4"
    and "open_ok io" and "fwrite_num io = (\<lambda>_. n)" and "\<forall>j < g_var_num st. length (f j) + length (the (ga_values_backup st) j) + 4 \<le> n"
    and "length (f i) + length value + 4 \<le> n"
  shows "set_config_var io name value fs st = None"
proof -
  obtain b where b: "ga_values_backup st = Some b" using assms(3) by auto
  let ?b = "b(i := value)"
  have i: "i < g_var_num st" using assms(4) find_upt_bound by (auto simp: find_var_some[OF assms(1)])
  have "write_rows io tmp f ?b [0..<g_var_num st] fs' = None" for tmp fs'
    by (rule write_rows_overflow[of i]) (use assms(7,9-11) i b in \<open>auto simp: config_line_def\<close>)
  then have "write_to_config_file io fs (st\<lparr>ga_values_backup := Some ?b\<rparr>) = None"
    using assms(1,8) i by (simp add: write_to_config_file_def Let_def)
  then show ?thesis
    using assms b by (simp add: set_config_var_def store_row_def)
qed

lemma set_config_var_overflow_witness:
  "set_config_var \<lparr>open_ok = True, fwrite_num = \<lambda>_. 2000, rename_ok = True\<rparr> ''a''
     (replicate 1000 (CHR ''x'')) Map.empty one_var_config = None"
  by (rule set_config_var_overflow[of _ "\<lambda>_. ''a''" "\<lambda>_. ''1''" _ 0 _ _ 2000])
    (simp_all add: one_var_config_fields find_var_def strcaseeq_def config_sizes)

text \<open>Of a line that is too long only the first \<open>LINE_SIZE + 1\<close> characters are
  skipped: the rest of it is parsed as if the file began there.\<close>

theorem long_line_tail_parsed:
  assumes "length l = LINE_SIZE + 1" and "LF \<notin> set l" and "NUL \<notin> set l" and "fs path = Some rest"
  shows "parse_config_file (fs(path \<mapsto> l @ rest)) vars vals backup path need st =
    parse_config_file fs vars vals backup path need st"
proof -
  have "take_line 769 (l @ rest) = (l, rest)"
    using assms(1,2) by (intro take_line_full) (simp_all add: LINE_SIZE_def)
  moreover have "cstr l = l" using assms(3) by (simp add: cstr_def takeWhile_eq_all_conv) metis
  then have "parse_line l st' = Some st'" for st'
    using assms(1) by (simp add: parse_line_def Let_def)
  moreover have "l \<noteq> []" using assms(1) by auto
  ultimately have "parse_loop (l @ rest) st' = parse_loop rest st'" for st'
    using parse_loop_step[of "l @ rest" l rest st'] by simp
  with assms(4) show ?thesis by (simp add: parse_config_file_def Let_def)
qed

lemma long_line_tail_parsed_witness:
  "parse_config_file (Map.empty(''c'' \<mapsto> (CHR ''#'' # replicate 768 (CHR ''-'')) @ ''a=''))
      vars vals backup ''c'' need st =
    parse_config_file (Map.empty(''c'' \<mapsto> ''a='')) vars vals backup ''c'' need st"
  using long_line_tail_parsed[of "CHR ''#'' # replicate 768 (CHR ''-'')" "Map.empty(''c'' \<mapsto> ''a='')"
      "''c''" "''a=''" vars vals backup need st]
  by (simp add: LINE_SIZE_def)

end
