(* ===== verification/IoUtils.thy ===== *)
theory IoUtils
  imports CLib
begin

text \<open>
  The retry loops of \<open>libs/app_utils/src/io_utils.c\<close>. The kernel is a list of outcomes,
  one per system call: \<open>Done k\<close> takes at most \<open>k\<close> of the bytes offered, \<open>Fail e\<close> returns
  \<open>-1\<close> with \<open>errno = e\<close>. A loop that is still waiting when the list is used up has not
  returned: \<open>None\<close>. Byte counts are below \<open>2\<^sup>3\<^sup>1\<close>, as for every caller in the source.
\<close>

section \<open>The code\<close>

datatype errno = EINTR | EAGAIN | EWOULDBLOCK | EOther

datatype 'a outcome = Done 'a | Fail errno

definition try_again :: "errno \<Rightarrow> bool" where
  "try_again e \<longleftrightarrow> e = EINTR \<or> e = EAGAIN \<or> e = EWOULDBLOCK"

text \<open>\<open>write_reliable\<close>: the return value, the bytes that left, the outcomes not used.\<close>

fun write_reliable :: "char list \<Rightarrow> nat outcome list \<Rightarrow> (int \<times> char list \<times> nat outcome list) option" where
  "write_reliable buf [] = None"
| "write_reliable buf (Done k # os) = Some (int (min k (length buf)), take k buf, os)"
| "write_reliable buf (Fail e # os) =
     (if try_again e then write_reliable buf os else Some (-1, [], os))"

lemma write_reliable_shorter: "write_reliable buf os = Some (r, w, os') \<Longrightarrow> length os' < length os"
  by (induction buf os rule: write_reliable.induct) (auto split: if_splits)

text \<open>The loop of \<open>write_certain_bytes\<close> with \<open>finished\<close> bytes out; the result is the last
  return value and \<open>finished\<close>.\<close>

function write_loop ::
    "char list \<Rightarrow> nat \<Rightarrow> int \<Rightarrow> nat outcome list \<Rightarrow> (int \<times> nat \<times> char list \<times> nat outcome list) option" where
  "write_loop buf finished ret os =
     (if length buf - finished > 0 then
        case write_reliable (drop finished buf) os of
          None \<Rightarrow> None
        | Some (r, w, os1) \<Rightarrow>
            if r < 0 then Some (r, finished, w, os1)
            else map_option (\<lambda>(r2, f2, w2, os2). (r2, f2, w @ w2, os2))
                   (write_loop buf (finished + nat r) r os1)
      else Some (ret, finished, [], os))"
  by pat_completeness auto
termination by (relation "measure (\<lambda>(_, _, _, os). length os)") (auto dest: write_reliable_shorter)

declare write_loop.simps [simp del]

text \<open>The return value, \<open>*written\<close>, the bytes that left. \<open>ret\<close> is not initialised but read only
  when the loop ran.\<close>

definition write_certain_bytes ::
    "char list \<Rightarrow> nat outcome list \<Rightarrow> (int \<times> nat \<times> char list \<times> nat outcome list) option" where
  "write_certain_bytes buf os =
     map_option (\<lambda>(ret, finished, w, os1). (if length buf - finished = 0 then 0 else ret, finished, w, os1))
       (write_loop buf 0 0 os)"

text \<open>Reading: a call may return any bytes, at most as many as asked for; none is the end.\<close>

fun read_reliable :: "nat \<Rightarrow> char list outcome list \<Rightarrow> (int \<times> char list \<times> char list outcome list) option" where
  "read_reliable count [] = None"
| "read_reliable count (Done bs # os) =
     Some (int (length (take count bs)), take count bs,
       if count < length bs then Done (drop count bs) # os else os)"
| "read_reliable count (Fail e # os) =
     (if try_again e then read_reliable count os else Some (-1, [], os))"

fun pending :: "char list outcome list \<Rightarrow> nat" where
  "pending [] = 0"
| "pending (Done bs # os) = Suc (length bs) + pending os"
| "pending (Fail e # os) = Suc (pending os)"

lemma read_reliable_shorter: "0 < count \<Longrightarrow> read_reliable count os = Some (r, w, os') \<Longrightarrow> pending os' < pending os"
  by (induction count os rule: read_reliable.induct) (auto split: if_splits)

function read_loop ::
    "nat \<Rightarrow> nat \<Rightarrow> int \<Rightarrow> char list outcome list \<Rightarrow> (int \<times> nat \<times> char list \<times> char list outcome list) option" where
  "read_loop count finished ret os =
     (if count - finished > 0 then
        case read_reliable (count - finished) os of
          None \<Rightarrow> None
        | Some (r, w, os1) \<Rightarrow>
            if r \<le> 0 then Some (r, finished, w, os1)
            else map_option (\<lambda>(r2, f2, w2, os2). (r2, f2, w @ w2, os2))
                   (read_loop count (finished + nat r) r os1)
      else Some (ret, finished, [], os))"
  by pat_completeness auto
termination by (relation "measure (\<lambda>(_, _, _, os). pending os)") (auto dest: read_reliable_shorter[rotated])

declare read_loop.simps [simp del]

definition read_certain_bytes ::
    "nat \<Rightarrow> char list outcome list \<Rightarrow> (int \<times> nat \<times> char list \<times> char list outcome list) option" where
  "read_certain_bytes count os =
     map_option (\<lambda>(ret, finished, w, os1).
         (if count - finished = 0 then 0 else if ret < 0 then ret else -1, finished, w, os1))
       (read_loop count 0 0 os)"

text \<open>\<open>printf_to_fd\<close> of a formatted text: \<open>vsnprintf\<close> keeps 511 characters and returns the
  length of all.\<close>

definition printf_to_fd ::
    "string \<Rightarrow> nat outcome list \<Rightarrow> (int \<times> char list \<times> nat outcome list) option" where
  "printf_to_fd str os =
     (let buf = take 511 str @ [NUL]; len = length str
      in if len \<le> 511 then map_option (\<lambda>(r, _, w, os1). (r, w, os1)) (write_certain_bytes (take len buf) os)
         else if len = 512 then map_option (\<lambda>(r, _, w, os1). (r, w, os1)) (write_certain_bytes buf os)
         else None)"

text \<open>\<open>fd_read_or_write_able\<close>, from what \<open>select\<close> returned.\<close>

definition fd_read_or_write_able :: "int outcome \<Rightarrow> int" where
  "fd_read_or_write_able sel =
     (case sel of
        Fail e \<Rightarrow> if e = EINTR then 0 else -1
      | Done retval \<Rightarrow> if retval > 0 then 1 else 0)"

definition fd_readable :: "int outcome \<Rightarrow> int" where
  "fd_readable sel = fd_read_or_write_able sel"

definition fd_writeable :: "int outcome \<Rightarrow> int" where
  "fd_writeable sel = fd_read_or_write_able sel"

text \<open>\<open>set_fd_nonblock\<close>: \<open>getfl\<close> are the flags of the descriptor, if \<open>F_GETFL\<close> gives them, and \<open>setfl\<close> is what
  \<open>F_SETFL\<close> returns. The result and the flags to be set.\<close>

definition O_NONBLOCK :: u32 where "O_NONBLOCK = 0x800"

definition set_fd_nonblock :: "u32 option \<Rightarrow> int \<Rightarrow> int \<times> u32 option" where
  "set_fd_nonblock getfl setfl =
     (case getfl of None \<Rightarrow> (-1, None) | Some ret \<Rightarrow> (setfl, Some (or ret O_NONBLOCK)))"

section \<open>Lemmas\<close>

lemma write_reliable_spec:
  "write_reliable buf os = Some (r, w, os') \<Longrightarrow> (r = -1 \<and> w = []) \<or> (r = int (length w) \<and> w = take (length w) buf)"
  by (induction buf os rule: write_reliable.induct) (auto split: if_splits simp: min_def)

lemma write_loop_spec:
  "write_loop buf finished ret os = Some (r, f, w, os') \<Longrightarrow> finished \<le> length buf \<Longrightarrow>
     f \<le> length buf \<and> take f buf = take finished buf @ w \<and> (f < length buf \<longrightarrow> r = -1)"
proof (induction buf finished ret os arbitrary: r f w os' rule: write_loop.induct)
  case (1 buf finished ret os)
  show ?case
  proof (cases "finished < length buf")
    case False
    with 1(2,3) show ?thesis by (simp add: write_loop.simps)
  next
    case True
    then obtain r1 w1 os1 where w: "write_reliable (drop finished buf) os = Some (r1, w1, os1)"
      using 1(2) by (auto simp: write_loop.simps[of buf finished] split: option.splits)
    show ?thesis
    proof (cases "r1 < 0")
      case r1: True
      with write_reliable_spec[OF w] have "r1 = -1" "w1 = []" by auto
      with 1(2) True w show ?thesis by (auto simp: write_loop.simps[of buf finished])
    next
      case r1: False
      with write_reliable_spec[OF w] have r: "r1 = int (length w1)" "w1 = take (length w1) (drop finished buf)"
        by auto
      obtain r2 f2 w2 os2 where l: "write_loop buf (finished + nat r1) r1 os1 = Some (r2, f2, w2, os2)"
          "r = r2" "f = f2" "w = w1 @ w2"
        using 1(2) True w r1 by (auto simp: write_loop.simps[of buf finished])
      have le: "length w1 \<le> length buf - finished" using r(2) by (metis length_drop length_take min.cobounded1)
      then have "finished + nat r1 \<le> length buf" using r(1) True by simp
      with 1(1)[OF _ w refl refl _ l(1)] True r1 have "f2 \<le> length buf" "take f2 buf = take (finished + nat r1) buf @ w2"
        "f2 < length buf \<longrightarrow> r2 = -1" by auto
      moreover have "take (finished + nat r1) buf = take finished buf @ w1"
        using r by (simp add: take_add)
      ultimately show ?thesis using l by simp
    qed
  qed
qed

text \<open>The bytes a list of outcomes lets through, up to a failure that is not retried.\<close>

fun room :: "nat outcome list \<Rightarrow> nat" where
  "room [] = 0"
| "room (Done k # os) = k + room os"
| "room (Fail e # os) = (if try_again e then room os else 0)"

lemma write_loop_finishes:
  "finished \<le> length buf \<Longrightarrow> length buf - finished \<le> room os \<Longrightarrow>
     \<exists>r w os'. write_loop buf finished ret os = Some (r, length buf, w, os')"
proof (induction os arbitrary: finished ret rule: room.induct)
  case 1
  then show ?case by (simp add: write_loop.simps)
next
  case (2 k os)
  show ?case
  proof (cases "finished < length buf")
    case True
    let ?m = "min k (length buf - finished)"
    have "finished + ?m \<le> length buf" "length buf - (finished + ?m) \<le> room os" using 2(2,3) by auto
    from 2(1)[OF this, of "int ?m"] True show ?thesis
      by (auto simp: write_loop.simps[of buf finished])
  qed (use 2(2) in \<open>simp add: write_loop.simps[of buf "length buf"]\<close>)
next
  case (3 e os)
  show ?case
  proof (cases "finished < length buf")
    case True
    with 3(3) have "try_again e" "length buf - finished \<le> room os" by (auto split: if_splits)
    with 3(1)[OF this(1) 3(2) this(2), of ret] True show ?thesis
      by (simp add: write_loop.simps[of buf finished])
  qed (use 3(2) in \<open>simp add: write_loop.simps[of buf "length buf"]\<close>)
qed

section \<open>Reading\<close>

text \<open>The bytes that arrive before the end of the stream or a failure.\<close>

fun arriving :: "char list outcome list \<Rightarrow> char list" where
  "arriving [] = []"
| "arriving (Done bs # os) = (if bs = [] then [] else bs @ arriving os)"
| "arriving (Fail e # os) = (if try_again e then arriving os else [])"

lemma read_reliable_spec:
  "read_reliable count os = Some (r, w, os') \<Longrightarrow> 0 < count \<Longrightarrow>
     (r \<le> 0 \<and> w = [] \<and> arriving os = [] \<and> - 1 \<le> r) \<or>
     (r = int (length w) \<and> w \<noteq> [] \<and> length w \<le> count \<and> arriving os = w @ arriving os')"
  by (induction count os rule: read_reliable.induct) (auto split: if_splits)

lemma read_loop_spec:
  "read_loop count finished ret os = Some (r, f, w, os') \<Longrightarrow> finished \<le> count \<Longrightarrow>
     w = take (count - finished) (arriving os) \<and> f = finished + length w \<and> (f < count \<longrightarrow> r \<le> 0 \<and> -1 \<le> r)"
proof (induction count finished ret os arbitrary: r f w os' rule: read_loop.induct)
  case (1 count finished ret os)
  show ?case
  proof (cases "finished < count")
    case False
    with 1(2,3) show ?thesis by (simp add: read_loop.simps)
  next
    case True
    then obtain r1 w1 os1 where w: "read_reliable (count - finished) os = Some (r1, w1, os1)"
      using 1(2) by (auto simp: read_loop.simps[of count finished] split: option.splits)
    from read_reliable_spec[OF w] True
    consider "r1 \<le> 0" "w1 = []" "arriving os = []" "-1 \<le> r1"
      | "r1 = int (length w1)" "w1 \<noteq> []" "length w1 \<le> count - finished" "arriving os = w1 @ arriving os1" by auto
    then show ?thesis
    proof cases
      case 1
      with \<open>read_loop count finished ret os = _\<close> True w show ?thesis by (auto simp: read_loop.simps[of count finished])
    next
      case 2
      obtain r2 f2 w2 os2 where l: "read_loop count (finished + nat r1) r1 os1 = Some (r2, f2, w2, os2)"
          "r = r2" "f = f2" "w = w1 @ w2"
        using \<open>read_loop count finished ret os = _\<close> True w 2 by (auto simp: read_loop.simps[of count finished])
      have "\<not> r1 \<le> 0" "finished + nat r1 \<le> count" using 2 True by auto
      with "1.IH"[OF _ w refl refl _ l(1)] True have "w2 = take (count - (finished + nat r1)) (arriving os1)"
        "f2 = finished + nat r1 + length w2" "f2 < count \<longrightarrow> r2 \<le> 0 \<and> - 1 \<le> r2" by auto
      with l 2 show ?thesis by simp
    qed
  qed
qed

lemma write_certain_bytes_some:
  assumes "write_certain_bytes buf os = Some (r, n, w, os')"
  shows "w = take n buf \<and> n \<le> length buf \<and> r = (if n = length buf then 0 else -1)"
  using assms write_loop_spec[of buf 0 0 os _ n w os']
  by (auto simp: write_certain_bytes_def split: if_splits)

section \<open>Properties\<close>

text \<open>Whatever the kernel does, what \<open>write_certain_bytes\<close> has sent when it returns is a
  prefix of the buffer without a gap or a repetition, of the length it reports; it returns 0
  exactly when everything was sent and \<open>-1\<close> otherwise. When the calls before any fatal
  failure let enough bytes through it does return, with everything sent.\<close>

theorem write_certain_bytes_sends:
  "(\<forall>r n w os'. write_certain_bytes buf os = Some (r, n, w, os') \<longrightarrow>
      w = take n buf \<and> n \<le> length buf \<and> r = (if n = length buf then 0 else -1)) \<and>
   (length buf \<le> room os \<longrightarrow> (\<exists>os'. write_certain_bytes buf os = Some (0, length buf, buf, os')))"
proof -
  note s = write_certain_bytes_some[of buf os]
  have "\<exists>os'. write_certain_bytes buf os = Some (0, length buf, buf, os')" if "length buf \<le> room os"
  proof -
    have "\<exists>r w os'. write_loop buf 0 0 os = Some (r, length buf, w, os')"
      by (rule write_loop_finishes) (use that in simp_all)
    then obtain r w os' where "write_loop buf 0 0 os = Some (r, length buf, w, os')" by blast
    then have "write_certain_bytes buf os = Some (0, length buf, w, os')" by (simp add: write_certain_bytes_def)
    with s[OF this] show ?thesis by auto
  qed
  with s show ?thesis by blast
qed

lemma write_certain_bytes_sends_witness:
  "\<exists>os'. write_certain_bytes ''abc'' [Done 1, Fail EINTR, Done 0, Fail EAGAIN, Done 9] = Some (0, 3, ''abc'', os')"
  using write_certain_bytes_sends[of "''abc''" "[Done 1, Fail EINTR, Done 0, Fail EAGAIN, Done 9]"]
  by (simp add: try_again_def eval_nat_numeral)

text \<open>\<open>read_certain_bytes\<close> delivers the first \<open>count\<close> bytes that arrive, however they are cut
  into pieces; it returns 0 exactly when all \<open>count\<close> came and \<open>-1\<close> on an early end or
  failure, and then delivers what there was.\<close>

theorem read_certain_bytes_receives:
  assumes "read_certain_bytes count os = Some (r, n, w, os')"
  shows "w = take count (arriving os) \<and> n = length w \<and> r = (if count \<le> length (arriving os) then 0 else -1)"
proof -
  obtain r0 where l: "read_loop count 0 0 os = Some (r0, n, w, os')"
      "r = (if count - n = 0 then 0 else if r0 < 0 then r0 else -1)"
    using assms by (auto simp: read_certain_bytes_def)
  from read_loop_spec[OF l(1)] have "w = take count (arriving os)" "n = length w" "n < count \<longrightarrow> r0 \<le> 0 \<and> -1 \<le> r0"
    by auto
  with l(2) show ?thesis by (auto simp: min_def split: if_splits)
qed

lemma read_certain_bytes_receives_witness:
  "arriving [Done ''ab'', Fail EINTR, Done ''cd''] = ''abcd'' \<and>
   read_certain_bytes 3 [Done ''ab'', Fail EINTR, Done ''cd''] = Some (0, 3, ''abc'', [Done ''d''])"
proof -
  have "read_certain_bytes 3 [Done ''ab'', Fail EINTR, Done ''cd''] = Some (0, 3, ''abc'', [Done ''d''])"
    by (simp add: read_certain_bytes_def read_loop.simps try_again_def)
  from read_certain_bytes_receives[OF this] this show ?thesis by (simp add: try_again_def)
qed

text \<open>\<open>printf_to_fd\<close> sends the formatted text when it has at most 511 characters; of a text
  of 512 the last character goes out as a NUL, and a longer one is read past the end of the
  buffer.\<close>

theorem printf_to_fd_limit:
  assumes "length str \<le> room os"
  shows "(length str \<le> 511 \<longrightarrow> (\<exists>os'. printf_to_fd str os = Some (0, str, os'))) \<and>
    (length str = 512 \<longrightarrow> (\<exists>os'. printf_to_fd str os = Some (0, butlast str @ [NUL], os'))) \<and>
    (512 < length str \<longrightarrow> printf_to_fd str os = None)"
proof -
  have s: "\<exists>os'. write_certain_bytes buf os = Some (0, length buf, buf, os')" if "length buf = length str" for buf
  proof -
    have "\<exists>r w os'. write_loop buf 0 0 os = Some (r, length buf, w, os')"
      by (rule write_loop_finishes) (use that assms in simp_all)
    then obtain r w os' where "write_loop buf 0 0 os = Some (r, length buf, w, os')" by blast
    with write_loop_spec[OF this] show ?thesis by (auto simp: write_certain_bytes_def)
  qed
  have "length str = 512 \<Longrightarrow> take 511 str = butlast str" by (simp add: butlast_conv_take)
  then show ?thesis
    using s[of str] s[of "butlast str @ [NUL]"] by (auto simp: printf_to_fd_def Let_def)
qed

lemma printf_to_fd_limit_witness:
  "printf_to_fd (replicate 600 (CHR ''x'')) [Done 600] = None"
  using printf_to_fd_limit[of "replicate 600 (CHR ''x'')" "[Done 600]"] by simp

end
