(* ===== verification/SocketUtils.thy ===== *)
theory SocketUtils
  imports CLib IoUtils
begin

text \<open>
  The socket helpers of \<open>libs/app_utils/src/socket.c\<close>, for IPv4. An address is its 32-bit value and
  its port number; the conversions between host and network order take place where the fields
  are stored or read, so \<open>htons\<close> and \<open>ntohs\<close> leave a port number alone here. The
  results of the system calls are arguments; the calls made are listed in a trace. \<open>inet_addr\<close> is an
  argument.
\<close>

section \<open>Addresses\<close>

abbreviation AF_INET :: u16 where "AF_INET \<equiv> 2"

record sockaddr_in =
  sin_family :: u16
  sin_addr :: u32
  sin_port :: u16

text \<open>\<open>inet_ntoa\<close> prints the four bytes, the most significant first.\<close>

definition get_ipstr :: "sockaddr_in \<Rightarrow> string" where
  "get_ipstr a = (let b = (\<lambda>i. show_dec (unat (drop_bit (8 * i) (sin_addr a) AND 0xFF)))
     in b 3 @ ''.'' @ b 2 @ ''.'' @ b 1 @ ''.'' @ b 0)"

definition get_port :: "sockaddr_in \<Rightarrow> u16" where
  "get_port a = sin_port a"

definition sockaddr_equal :: "sockaddr_in \<Rightarrow> sockaddr_in \<Rightarrow> bool" where
  "sockaddr_equal a b \<longleftrightarrow> sin_family a = sin_family b \<and> sin_port a = sin_port b \<and> sin_addr a = sin_addr b"

definition make_sockaddr :: "u32 \<Rightarrow> u16 \<Rightarrow> sockaddr_in" where
  "make_sockaddr ip port = \<lparr>sin_family = AF_INET, sin_addr = ip, sin_port = port\<rparr>"

text \<open>\<open>resolve_sockaddr\<close>: \<open>inet_ntop\<close> stores nothing when the text does not fit its \<open>len\<close> cells.\<close>

definition resolve_sockaddr :: "sockaddr_in \<Rightarrow> nat \<Rightarrow> string option \<times> u16" where
  "resolve_sockaddr a len = (if length (get_ipstr a) < len then Some (get_ipstr a) else None, sin_port a)"

section \<open>Sockets\<close>

datatype sock_type = SOCK_STREAM | SOCK_DGRAM

datatype sock_opt = SO_RCVBUF int | SO_SNDBUF int | SO_REUSEADDR int | SO_SNDTIMEO int | SO_RCVTIMEO int

datatype sock_call = Socket sock_type | Setsockopt int sock_opt | Bind int sockaddr_in

definition set_useful_sock_opt :: "int \<Rightarrow> sock_call list" where
  "set_useful_sock_opt sockfd =
     [Setsockopt sockfd (SO_RCVBUF (256 * 1024)), Setsockopt sockfd (SO_SNDBUF (256 * 1024)),
      Setsockopt sockfd (SO_REUSEADDR 1)]"

definition set_socket_timeout :: "int \<Rightarrow> int \<Rightarrow> int \<Rightarrow> sock_call list" where
  "set_socket_timeout sockfd snd_secs rcv_secs =
     (if snd_secs \<noteq> -1 then [Setsockopt sockfd (SO_SNDTIMEO snd_secs)] else []) @
     (if rcv_secs \<noteq> -1 then [Setsockopt sockfd (SO_RCVTIMEO rcv_secs)] else [])"

text \<open>\<open>sock_ret\<close> and \<open>bind_ret\<close> are what \<open>socket\<close> and \<open>bind\<close> return. A socket that cannot be bound is
  not closed.\<close>

definition socket_init_2 :: "int \<Rightarrow> int \<Rightarrow> sock_type \<Rightarrow> sockaddr_in option \<Rightarrow> int \<times> sock_call list" where
  "socket_init_2 sock_ret bind_ret typ sock_addr =
     (if sock_ret < 0 then (-1, [Socket typ])
      else (case sock_addr of
              None \<Rightarrow> (sock_ret, [Socket typ])
            | Some a \<Rightarrow> (if bind_ret < 0 then -1 else sock_ret,
                [Socket typ] @ set_useful_sock_opt sock_ret @ [Bind sock_ret a])))"

definition socket_init ::
    "(string \<Rightarrow> u32) \<Rightarrow> int \<Rightarrow> int \<Rightarrow> sock_type \<Rightarrow> string option \<Rightarrow> u16 \<Rightarrow> int \<times> sock_call list" where
  "socket_init inet_addr sock_ret bind_ret typ ipstr port =
     (let ip = (case ipstr of None \<Rightarrow> 0 | Some s \<Rightarrow> if s \<noteq> ''0.0.0.0'' then inet_addr s else 0)
      in socket_init_2 sock_ret bind_ret typ (Some (make_sockaddr ip port)))"

definition udp_socket_init ::
    "(string \<Rightarrow> u32) \<Rightarrow> int \<Rightarrow> int \<Rightarrow> string option \<Rightarrow> u16 \<Rightarrow> int \<times> sock_call list" where
  "udp_socket_init inet_addr sock_ret bind_ret = socket_init inet_addr sock_ret bind_ret SOCK_DGRAM"

definition tcp_socket_init ::
    "(string \<Rightarrow> u32) \<Rightarrow> int \<Rightarrow> int \<Rightarrow> string option \<Rightarrow> u16 \<Rightarrow> int \<times> sock_call list" where
  "tcp_socket_init inet_addr sock_ret bind_ret = socket_init inet_addr sock_ret bind_ret SOCK_STREAM"

definition udp_socket_init_no_addr :: "int \<Rightarrow> int \<times> sock_call list" where
  "udp_socket_init_no_addr sock_ret = socket_init_2 sock_ret 0 SOCK_DGRAM None"

definition tcp_socket_init_no_addr :: "int \<Rightarrow> int \<times> sock_call list" where
  "tcp_socket_init_no_addr sock_ret = socket_init_2 sock_ret 0 SOCK_STREAM None"

text \<open>The result of \<open>recvfrom\<close> and \<open>sendto\<close>; an interrupted call is reported as no bytes.\<close>

definition udp_socket_recvfrom :: "int outcome \<Rightarrow> int" where
  "udp_socket_recvfrom r =
     (case r of Fail e \<Rightarrow> if e = EINTR then 0 else -1 | Done ret \<Rightarrow> ret)"

definition udp_socket_sendto :: "int outcome \<Rightarrow> int" where
  "udp_socket_sendto r =
     (case r of Fail e \<Rightarrow> if e = EINTR then 0 else -1 | Done ret \<Rightarrow> ret)"

section \<open>Raw sockets\<close>

text \<open>\<open>snprintf\<close> takes the name of the interface as its format: a percent sign is undefined behaviour, \<open>None\<close>. It keeps
  15 characters. \<open>sock_ret\<close> is what \<open>socket\<close> returns, \<open>if_index\<close> what \<open>SIOCGIFINDEX\<close> finds for a name; the
  message with which the program quits is on the left.\<close>

definition get_if_idx :: "int \<Rightarrow> (string \<Rightarrow> int option) \<Rightarrow> string \<Rightarrow> (string + int) option" where
  "get_if_idx sock_ret if_index if_name =
     (if CHR ''%'' \<in> set if_name then None
      else Some (case (if sock_ret < 0 then None else if_index (take 15 if_name)) of
        None \<Rightarrow> Inl ''get idx of interface failed''
      | Some ret \<Rightarrow> Inr ret))"

text \<open>\<open>fd\<close> and \<open>bind_ret\<close>: what \<open>socket\<close> and, for an interface, \<open>bind\<close> return.\<close>

definition create_l2_raw_socket ::
    "int \<Rightarrow> (string \<Rightarrow> int option) \<Rightarrow> int \<Rightarrow> (int \<Rightarrow> int) \<Rightarrow> string \<Rightarrow> (string + int) option" where
  "create_l2_raw_socket sock_ret if_index fd bind_ret if_name = do {
     r \<leftarrow> get_if_idx sock_ret if_index if_name;
     Some (case r of
         Inl msg \<Rightarrow> Inl msg
       | Inr sll_ifindex \<Rightarrow>
           if fd < 0 then Inl ''Create L2 socket failed''
           else if bind_ret sll_ifindex < 0 then Inl ''bind socket failed''
           else Inr fd) }"

lemma get_if_idx_Inr: "get_if_idx sock_ret if_index if_name = Some (Inr i) \<Longrightarrow> if_index (take 15 if_name) = Some i"
  by (auto simp: get_if_idx_def split: if_splits option.splits)

lemma l2_socket_bound:
  assumes "create_l2_raw_socket sock_ret if_index fd bind_ret if_name = Some (Inr r)"
  shows "r = fd \<and> 0 \<le> fd \<and> (\<exists>i. if_index (take 15 if_name) = Some i \<and> 0 \<le> bind_ret i)"
proof -
  obtain x where x: "get_if_idx sock_ret if_index if_name = Some x"
    using assms by (auto simp: create_l2_raw_socket_def bind_eq_Some_conv)
  with assms obtain i where "x = Inr i" by (cases x) (auto simp: create_l2_raw_socket_def)
  with assms x show ?thesis
    using get_if_idx_Inr[of sock_ret if_index if_name i] by (auto simp: create_l2_raw_socket_def split: if_splits)
qed

section \<open>Lemmas\<close>

lemma sockaddr_equal_eq: "sockaddr_equal a b \<longleftrightarrow> a = b"
  by (auto simp: sockaddr_equal_def)

lemma udp_results:
  "udp_socket_recvfrom (Done n) = n" "udp_socket_sendto (Done n) = n"
  by (simp_all add: udp_socket_recvfrom_def udp_socket_sendto_def)

end
