(* ===== verification/P2pServer.thy ===== *)
theory P2pServer
  imports Mm SocketUtils Getopt "HOL-Library.Multiset"
begin

text \<open>
  The rendezvous server \<open>simple_apps/p2p_server.c\<close>, on the list and buffer-manager models.
  A request lives in a buffer of the pool and is linked on \<open>all_reqs\<close>, oldest first, and
  on the hash line of its source user. The two local structures \<open>conn_req\<close> and \<open>reply\<close> of
  \<open>main_loop\<close> outlive an iteration and are part of the state. \<open>None\<close> is a run that leaves
  a buffer, follows a null pointer or does not return; a user name or password that is not
  terminated inside its 32 cells is such a run. Logging is left out; what the server sends
  is the result. Ports are in host order, as in \<open>SocketUtils\<close>.
\<close>

section \<open>State\<close>

datatype p2p_node = AllReqs | HashReqs nat | ReqList mm_ptr | ReqHash mm_ptr

record t_P2P_CONN_REQ =
  msg_id :: "char list"
  usr_src :: string
  usr_dst :: string
  pass_word :: string

record t_P2P_CONN_RPLY =
  rply_msg_id :: nat
  rply_usr_src :: string
  rply_usr_dst :: string
  usr_src_ip :: string
  usr_src_port :: u16
  usr_dst_ip :: string
  usr_dst_port :: u16

record t_conn_req =
  timestamp :: int
  req :: t_P2P_CONN_REQ
  sockaddr_src :: sockaddr_in

record p2p_state =
  req_links :: "p2p_node lheap"
  req_pool :: t_mm_manager
  conn_reqs :: "mm_ptr \<Rightarrow> t_conn_req"
  req_num :: int
  conn_req :: "char list"
  reply :: t_P2P_CONN_RPLY

definition MAX_REQ_NUM :: nat where "MAX_REQ_NUM = 256"
definition REQ_LIFE_TIME :: int where "REQ_LIFE_TIME = 30"
definition HASH_REQS :: nat where "HASH_REQS = 256"
definition gap :: int where "gap = 60"
definition MSG_P2P_CONN_RESP_DST_OFFLINE :: nat where "MSG_P2P_CONN_RESP_DST_OFFLINE = 102"
definition MSG_P2P_CONN_RESP_OK :: nat where "MSG_P2P_CONN_RESP_OK = 103"

section \<open>The code\<close>

definition req_equal :: "t_P2P_CONN_REQ \<Rightarrow> t_P2P_CONN_REQ \<Rightarrow> bool" where
  "req_equal r1 r2 \<longleftrightarrow>
     (if usr_src r1 \<noteq> usr_src r2 then False
      else if usr_dst r1 \<noteq> usr_dst r2 then False
      else True)"

definition req_match :: "t_P2P_CONN_REQ \<Rightarrow> t_P2P_CONN_REQ \<Rightarrow> bool" where
  "req_match r1 r2 \<longleftrightarrow>
     (if usr_src r1 \<noteq> usr_dst r2 then False
      else if usr_dst r1 \<noteq> usr_src r2 then False
      else if pass_word r1 \<noteq> pass_word r2 then False
      else True)"

text \<open>The product of the first two characters, which are signed; the \<open>int\<close> is converted to
  \<open>size_t\<close> for the remainder. Behind an empty name the product is 0 whatever follows.\<close>

definition char_at :: "string \<Rightarrow> nat \<Rightarrow> int" where
  "char_at s i = sint (of_char (if i < length s then s ! i else NUL) :: u8)"

definition hash_index :: "string \<Rightarrow> nat" where
  "hash_index usr_name = nat ((char_at usr_name 0 * char_at usr_name 1) mod int HASH_REQS)"

fun req_of_list :: "p2p_node \<Rightarrow> mm_ptr" where
  "req_of_list (ReqList p) = p"
| "req_of_list n = WildPtr"

fun req_of_hash :: "p2p_node \<Rightarrow> mm_ptr" where
  "req_of_hash (ReqHash p) = p"
| "req_of_hash n = WildPtr"

definition find_req :: "t_P2P_CONN_REQ \<Rightarrow> p2p_state \<Rightarrow> mm_ptr option" where
  "find_req r st =
     list_for_each (req_links st) (HashReqs (hash_index (usr_src r)))
       (\<lambda>pos ret. let pt_req = req_of_hash pos
                  in if req_equal (req (conn_reqs st pt_req)) r then (True, pt_req) else (False, ret))
       NullPtr"

definition find_match_req :: "t_P2P_CONN_REQ \<Rightarrow> p2p_state \<Rightarrow> mm_ptr option" where
  "find_match_req r st =
     list_for_each (req_links st) (HashReqs (hash_index (usr_dst r)))
       (\<lambda>pos ret. let pt_match_req = req_of_hash pos
                  in if req_match (req (conn_reqs st pt_match_req)) r then (True, pt_match_req)
                     else (False, ret))
       NullPtr"

definition req_expired :: "int \<Rightarrow> t_conn_req \<Rightarrow> bool" where
  "req_expired time_now r \<longleftrightarrow> time_now - timestamp r > REQ_LIFE_TIME"

definition delete_req :: "mm_ptr \<Rightarrow> p2p_state \<Rightarrow> p2p_state" where
  "delete_req p st =
     (let st1 = st\<lparr>req_links := list_del (ReqList p) (req_links st)\<rparr>;
          st2 = st1\<lparr>req_links := list_del (ReqHash p) (req_links st1)\<rparr>
      in st2\<lparr>req_num := req_num st2 - 1\<rparr>)"

definition release_req :: "mm_ptr \<Rightarrow> p2p_state \<Rightarrow> p2p_state option" where
  "release_req p st =
     (let st1 = delete_req p st
      in case p of
           Buf b \<Rightarrow> do { pool \<leftarrow> free_buffer b (req_pool st1); Some (st1\<lparr>req_pool := pool\<rparr>) }
         | _ \<Rightarrow> None)"

definition add_req :: "mm_ptr \<Rightarrow> p2p_state \<Rightarrow> p2p_state" where
  "add_req p st =
     (let idx = hash_index (usr_src (req (conn_reqs st p)));
          st1 = st\<lparr>req_links := list_add_tail (ReqList p) AllReqs (req_links st)\<rparr>;
          st2 = st1\<lparr>req_links := list_add_tail (ReqHash p) (HashReqs idx) (req_links st1)\<rparr>
      in st2\<lparr>req_num := req_num st2 + 1\<rparr>)"

definition release_oldest_req :: "p2p_state \<Rightarrow> p2p_state option" where
  "release_oldest_req st =
     (let pos = nxt (req_links st) AllReqs in release_req (req_of_list pos) st)"

subsection \<open>The datagram\<close>

text \<open>\<open>udp_socket_recvfrom\<close> may store 160 bytes, the size of a \<open>t_conn_req\<close>, into the 100 of
  \<open>conn_req\<close>; then the message number is converted in place.\<close>

definition recv_conn_req :: "char list \<Rightarrow> char list \<Rightarrow> char list option" where
  "recv_conn_req dgram buf =
     (let got = take 160 dgram
      in if length got > length buf then None
         else let b = got @ drop (length got) buf in Some (rev (take 4 b) @ drop 4 b))"

definition msg_field :: "nat \<Rightarrow> char list \<Rightarrow> string option" where
  "msg_field off buf =
     (let f = take 32 (drop off buf) in if NUL \<in> set f then Some (cstr f) else None)"

definition decode_req :: "char list \<Rightarrow> t_P2P_CONN_REQ option" where
  "decode_req buf = do {
     s \<leftarrow> msg_field 4 buf;
     d \<leftarrow> msg_field 36 buf;
     p \<leftarrow> msg_field 68 buf;
     Some \<lparr>msg_id = take 4 buf, usr_src = s, usr_dst = d, pass_word = p\<rparr>
   }"

subsection \<open>One iteration of \<open>main_loop\<close>\<close>

text \<open>The buffer for the request, unlinked: the one of an equal request, or a new one.\<close>

definition slot_for_req :: "t_P2P_CONN_REQ \<Rightarrow> p2p_state \<Rightarrow> (mm_ptr \<times> p2p_state) option" where
  "slot_for_req r st = do {
     pt_req \<leftarrow> find_req r st;
     if pt_req = NullPtr then do {
       st1 \<leftarrow> (if req_num st \<ge> int MAX_REQ_NUM then release_oldest_req st else Some st);
       (p, pool) \<leftarrow> alloc_buffer (req_pool st1);
       Some (p, st1\<lparr>req_pool := pool\<rparr>)
     } else Some (pt_req, delete_req pt_req st)
   }"

text \<open>From the search of the request to the last request released.\<close>

definition register_req ::
    "t_P2P_CONN_REQ \<Rightarrow> sockaddr_in \<Rightarrow> int \<Rightarrow> p2p_state \<Rightarrow> (mm_ptr \<times> mm_ptr \<times> p2p_state) option" where
  "register_req r addr time_now st = do {
     (pt_req, st2) \<leftarrow> slot_for_req r st;
     if pt_req = NullPtr \<or> pt_req = WildPtr then None
     else do {
       let st3 = st2\<lparr>conn_reqs := (conn_reqs st2)(pt_req :=
                   \<lparr>timestamp = time_now, req = r, sockaddr_src = addr\<rparr>)\<rparr>;
       let st4 = add_req pt_req st3;
       pt_req_to_find \<leftarrow> find_match_req r st4;
       if pt_req_to_find \<noteq> NullPtr then
         if timestamp (conn_reqs st4 pt_req) - timestamp (conn_reqs st4 pt_req_to_find) > gap then do {
           st5 \<leftarrow> release_req pt_req_to_find st4;
           Some (pt_req, NullPtr, st5)
         } else Some (pt_req, pt_req_to_find, st4)
       else Some (pt_req, NullPtr, st4)
     }
   }"

definition answer_req ::
    "t_P2P_CONN_REQ \<Rightarrow> sockaddr_in \<Rightarrow> mm_ptr \<Rightarrow> p2p_state \<Rightarrow> t_P2P_CONN_RPLY \<times> p2p_state" where
  "answer_req r addr pt_req_to_find st =
     (let re = (reply st)\<lparr>rply_msg_id := MSG_P2P_CONN_RESP_DST_OFFLINE,
                rply_usr_src := usr_src r, rply_usr_dst := usr_dst r,
                usr_src_ip := get_ipstr addr, usr_src_port := get_port addr\<rparr>;
          re2 = (if pt_req_to_find = NullPtr then re
                 else let a = sockaddr_src (conn_reqs st pt_req_to_find)
                      in re\<lparr>rply_msg_id := MSG_P2P_CONN_RESP_OK,
                            usr_dst_ip := get_ipstr a, usr_dst_port := get_port a\<rparr>)
      in (re2, st\<lparr>reply := re2\<rparr>))"

text \<open>What is sent for a datagram, to the sender; \<open>None\<close> inside is an iteration that sends nothing.\<close>

definition main_loop_step ::
    "char list \<Rightarrow> sockaddr_in \<Rightarrow> int \<Rightarrow> p2p_state \<Rightarrow> (t_P2P_CONN_RPLY option \<times> p2p_state) option" where
  "main_loop_step dgram addr time_now st =
     (if dgram = [] then Some (None, st)
      else do {
        buf \<leftarrow> recv_conn_req dgram (conn_req st);
        let st0 = st\<lparr>conn_req := buf\<rparr>;
        r \<leftarrow> decode_req buf;
        (_, pt_req_to_find, st1) \<leftarrow> register_req r addr time_now st0;
        let (re, st2) = answer_req r addr pt_req_to_find st1;
        Some (Some re, st2)
      })"

fun main_loop ::
    "(char list \<times> sockaddr_in \<times> int) list \<Rightarrow> p2p_state \<Rightarrow> (t_P2P_CONN_RPLY list \<times> p2p_state) option" where
  "main_loop [] st = Some ([], st)"
| "main_loop ((dgram, addr, time_now) # ds) st = do {
     (sent, st1) \<leftarrow> main_loop_step dgram addr time_now st;
     (rest, st2) \<leftarrow> main_loop ds st1;
     Some (case sent of None \<Rightarrow> rest | Some re \<Rightarrow> re # rest, st2)
   }"

text \<open>\<open>create_buffer_manager\<close> gets the size 160 of a \<open>t_conn_req\<close>; \<open>mgr\<close> and \<open>mem_ok\<close> are
  the outcomes of its two allocations. When one fails the handle is null and the first
  request is served through it: \<open>None\<close>.\<close>

definition init_internal_struct :: "t_mm_manager option \<Rightarrow> bool \<Rightarrow> p2p_state \<Rightarrow> p2p_state option" where
  "init_internal_struct mgr mem_ok st = do {
     pool \<leftarrow> create_buffer_manager mgr mem_ok 160 (int MAX_REQ_NUM);
     let st1 = st\<lparr>req_pool := pool\<rparr>;
     let st2 = st1\<lparr>req_links := INIT_LIST_HEAD AllReqs (req_links st1)\<rparr>;
     Some (st2\<lparr>req_links := fold (\<lambda>i. INIT_LIST_HEAD (HashReqs i)) [0..<HASH_REQS] (req_links st2)\<rparr>)
   }"

subsection \<open>Start\<close>

definition LONG_OPT_ID_IP :: nat where "LONG_OPT_ID_IP = 1001"
definition LONG_OPT_ID_PORT :: nat where "LONG_OPT_ID_PORT = 1002"

definition our_options :: "long_option list" where
  "our_options =
    [\<lparr>opt_name = ''ip'', opt_has_arg = required_argument, opt_val = LONG_OPT_ID_IP\<rparr>,
     \<lparr>opt_name = ''port'', opt_has_arg = required_argument, opt_val = LONG_OPT_ID_PORT\<rparr>]"

text \<open>The address and port to bind; the address has 40 cells. A wrong option ends the program.\<close>

fun parse_args :: "opt_event list \<Rightarrow> string \<times> u16 \<Rightarrow> (unit + string \<times> u16) option" where
  "parse_args [] (ip, port) = Some (Inr (ip, port))"
| "parse_args ((opt, optarg) # evs) (ip, port) =
     (if opt = opt_char (CHR ''i'') \<or> opt = LONG_OPT_ID_IP
      then (if length (the optarg) < 40 then parse_args evs (the optarg, port) else None)
      else if opt = opt_char (CHR ''p'') \<or> opt = LONG_OPT_ID_PORT
      then parse_args evs (ip, word_of_int (atoi (the optarg)))
      else Some (Inl ()))"

text \<open>\<open>main\<close> up to the loop: the socket, whose descriptor is not tested, and the state.\<close>

definition p2p_main ::
    "string list \<Rightarrow> (string \<Rightarrow> u32) \<Rightarrow> int \<Rightarrow> int \<Rightarrow> t_mm_manager option \<Rightarrow> bool \<Rightarrow> p2p_state \<Rightarrow>
      (unit + (int \<times> sock_call list) \<times> p2p_state) option" where
  "p2p_main argv inet_addr sock_ret bind_ret mgr mem_ok st = do {
     st1 \<leftarrow> init_internal_struct mgr mem_ok st;
     args \<leftarrow> parse_args (getopt_long ''i:p:'' our_options argv) (''0.0.0.0'', 8888);
     Some (case args of
       Inl () \<Rightarrow> Inl ()
     | Inr (ip, port) \<Rightarrow> Inr (udp_socket_init inet_addr sock_ret bind_ret (Some ip) port, st1))
   }"

section \<open>The lists of the server\<close>

fun p2p_shape :: "(mm_ptr \<Rightarrow> t_conn_req) \<Rightarrow> mm_ptr list \<Rightarrow> p2p_node \<Rightarrow> p2p_node list option" where
  "p2p_shape ent ps AllReqs = Some (map ReqList ps)"
| "p2p_shape ent ps (HashReqs l) =
     (if l < HASH_REQS
      then Some (map ReqHash (filter (\<lambda>p. hash_index (usr_src (req (ent p))) = l) ps)) else None)"
| "p2p_shape ent ps _ = None"

abbreviation p2p_lists :: "p2p_state \<Rightarrow> mm_ptr list \<Rightarrow> bool" where
  "p2p_lists st ps \<equiv> list_store is_list (req_links st) (p2p_shape (conn_reqs st) ps)"

lemma hash_index_bound [simp]: "hash_index u < HASH_REQS"
proof -
  have "0 \<le> (char_at u 0 * char_at u 1) mod 256" "(char_at u 0 * char_at u 1) mod 256 < 256" by simp_all
  then show ?thesis by (simp add: hash_index_def HASH_REQS_def)
qed

lemma p2p_shape_nodes:
  assumes "n \<in> nodes (p2p_shape ent ps)"
  shows "n \<in> {AllReqs} \<union> range HashReqs \<union> ReqList ` set ps \<union> ReqHash ` set ps"
proof -
  obtain q xs where "p2p_shape ent ps q = Some xs" "n \<in> set (q # xs)"
    using assms unfolding nodes_def by blast
  then show ?thesis by (cases q) (auto split: if_splits)
qed

lemma p2p_shape_cong:
  "(\<And>p. p \<in> set ps \<Longrightarrow> ent' p = ent p) \<Longrightarrow> p2p_shape ent' ps = p2p_shape ent ps"
  by (rule ext, rename_tac n, case_tac n) (auto cong: filter_cong)

lemma p2p_lists_add:
  assumes "p2p_lists st ps" and "p \<notin> set ps"
  shows "p2p_lists (add_req p st) (ps @ [p])"
proof -
  let ?ent = "conn_reqs st" and ?L = "p2p_shape (conn_reqs st) ps"
  let ?i = "hash_index (usr_src (req (?ent p)))"
  let ?hs = "map ReqHash (filter (\<lambda>p. hash_index (usr_src (req (?ent p))) = ?i) ps)"
  let ?L1 = "?L(AllReqs \<mapsto> map ReqList ps @ [ReqList p])"
  have n: "n \<notin> nodes ?L" if "n \<in> {ReqList p, ReqHash p}" for n
    using p2p_shape_nodes[of n ?ent ps] that assms(2) by auto
  have n1: "ReqHash p \<notin> nodes ?L1"
    using nodes_upd_subset[of ?L AllReqs "map ReqList ps @ [ReqList p]"] n by auto
  have s1: "list_store is_list (list_add_tail (ReqList p) AllReqs (req_links st)) ?L1"
    by (rule kernel_list.store_add_tail[OF assms(1)]) (use n in simp_all)
  have "list_store is_list (list_add_tail (ReqHash p) (HashReqs ?i)
      (list_add_tail (ReqList p) AllReqs (req_links st))) (?L1(HashReqs ?i \<mapsto> ?hs @ [ReqHash p]))"
    by (rule kernel_list.store_add_tail[OF s1]) (use n1 in simp_all)
  moreover have "?L1(HashReqs ?i \<mapsto> ?hs @ [ReqHash p]) = p2p_shape ?ent (ps @ [p])"
    by (rule ext, rename_tac n, case_tac n) auto
  ultimately show ?thesis by (simp add: add_req_def Let_def)
qed

lemma p2p_lists_del:
  assumes "p2p_lists st ps" and "p \<in> set ps"
  shows "p2p_lists (delete_req p st) (remove1 p ps)"
proof -
  let ?ent = "conn_reqs st" and ?L = "p2p_shape (conn_reqs st) ps"
  let ?i = "hash_index (usr_src (req (?ent p)))"
  let ?hs = "map ReqHash (filter (\<lambda>p. hash_index (usr_src (req (?ent p))) = ?i) ps)"
  let ?L1 = "?L(AllReqs \<mapsto> remove1 (ReqList p) (map ReqList ps))"
  have s1: "list_store is_list (list_del (ReqList p) (req_links st)) ?L1"
    by (rule kernel_list.store_del[OF assms(1)]) (use assms(2) in auto)
  have "list_store is_list (list_del (ReqHash p) (list_del (ReqList p) (req_links st)))
      (?L1(HashReqs ?i \<mapsto> remove1 (ReqHash p) ?hs))"
    by (rule kernel_list.store_del[OF s1]) (use assms(2) in auto)
  moreover have "?L1(HashReqs ?i \<mapsto> remove1 (ReqHash p) ?hs) = p2p_shape ?ent (remove1 p ps)"
    by (rule ext, rename_tac n, case_tac n)
      (auto simp: remove1_map_inj inj_def remove1_filter_in remove1_filter_out)
  ultimately show ?thesis by (simp add: delete_req_def Let_def)
qed

lemma p2p_hash_list:
  "p2p_lists st ps \<Longrightarrow> is_list (req_links st) (HashReqs (hash_index u))
     (map ReqHash (filter (\<lambda>p. hash_index (usr_src (req (conn_reqs st p))) = hash_index u) ps))"
  by (rule list_store_rep, assumption) simp

definition first_req :: "(t_conn_req \<Rightarrow> bool) \<Rightarrow> p2p_state \<Rightarrow> mm_ptr list \<Rightarrow> mm_ptr" where
  "first_req P st ps = (case List.find (\<lambda>p. P (conn_reqs st p)) ps of None \<Rightarrow> NullPtr | Some p \<Rightarrow> p)"

lemma find_req_eq:
  assumes "p2p_lists st ps"
  shows "find_req r st = Some (first_req (\<lambda>e. req_equal (req e) r) st ps)"
proof -
  have "List.find (\<lambda>p. req_equal (req (conn_reqs st p)) r)
      (filter (\<lambda>p. hash_index (usr_src (req (conn_reqs st p))) = hash_index (usr_src r)) ps) =
      List.find (\<lambda>p. req_equal (req (conn_reqs st p)) r) ps"
    by (rule find_filter) (auto simp: req_equal_def split: if_splits)
  then show ?thesis
    by (simp add: find_req_def list_for_each_eq[OF p2p_hash_list[OF assms]] fold_until_find find_map
        comp_def first_req_def Let_def cong: if_cong split: option.split)
qed

lemma find_match_req_eq:
  assumes "p2p_lists st ps"
  shows "find_match_req r st = Some (first_req (\<lambda>e. req_match (req e) r) st ps)"
proof -
  have "List.find (\<lambda>p. req_match (req (conn_reqs st p)) r)
      (filter (\<lambda>p. hash_index (usr_src (req (conn_reqs st p))) = hash_index (usr_dst r)) ps) =
      List.find (\<lambda>p. req_match (req (conn_reqs st p)) r) ps"
    by (rule find_filter) (auto simp: req_match_def split: if_splits)
  then show ?thesis
    by (simp add: find_match_req_def list_for_each_eq[OF p2p_hash_list[OF assms]] fold_until_find
        find_map comp_def first_req_def Let_def cong: if_cong split: option.split)
qed

section \<open>The invariant\<close>

abbreviation users :: "t_conn_req \<Rightarrow> string \<times> string" where
  "users e \<equiv> (usr_src (req e), usr_dst (req e))"

text \<open>\<open>ps\<close> are the linked requests, oldest first; \<open>xs\<close> is a buffer the loop holds unlinked.\<close>

definition p2p_core :: "p2p_state \<Rightarrow> mm_ptr list \<Rightarrow> mm_ptr list \<Rightarrow> bool" where
  "p2p_core st ps xs \<longleftrightarrow>
     p2p_lists st ps \<and> req_num st = int (length ps) \<and> distinct (map (users \<circ> conn_reqs st) ps) \<and>
     (\<exists>fs. mm_ok MAX_REQ_NUM (req_pool st) fs [] \<and>
        mset (ps @ xs @ map Buf fs) = mset (map Buf [0..<MAX_REQ_NUM]))"

lemma bufs_facts:
  assumes "mset ys = mset (map Buf [0..<n])"
  shows "distinct ys" and "set ys = Buf ` {..<n}" and "length ys = n"
proof -
  have "distinct (map Buf [0..<n])" by (simp add: distinct_map inj_on_def)
  then show "distinct ys" using mset_eq_imp_distinct_iff[OF assms] by simp
  show "set ys = Buf ` {..<n}" using mset_eq_setD[OF assms] by (simp add: lessThan_atLeast0)
  show "length ys = n" using mset_eq_length[OF assms] by simp
qed

lemma p2p_core_bufs:
  assumes "p2p_core st ps xs"
  shows "distinct (ps @ xs)" and "set (ps @ xs) \<subseteq> Buf ` {..<MAX_REQ_NUM}"
    and "length ps + length xs \<le> MAX_REQ_NUM"
proof -
  obtain fs where m: "mset (ps @ xs @ map Buf fs) = mset (map Buf [0..<MAX_REQ_NUM])"
    using assms unfolding p2p_core_def by blast
  show "distinct (ps @ xs)" using bufs_facts(1)[OF m] by auto
  show "set (ps @ xs) \<subseteq> Buf ` {..<MAX_REQ_NUM}" unfolding bufs_facts(2)[OF m, symmetric] by auto
  show "length ps + length xs \<le> MAX_REQ_NUM" using bufs_facts(3)[OF m] by simp
qed

lemma delete_req_sel [simp]:
  "req_pool (delete_req p st) = req_pool st" "conn_reqs (delete_req p st) = conn_reqs st"
  "req_num (delete_req p st) = req_num st - 1" "reply (delete_req p st) = reply st"
  "conn_req (delete_req p st) = conn_req st"
  by (simp_all add: delete_req_def Let_def)

lemma add_req_sel [simp]:
  "req_pool (add_req p st) = req_pool st" "conn_reqs (add_req p st) = conn_reqs st"
  "req_num (add_req p st) = req_num st + 1" "reply (add_req p st) = reply st"
  "conn_req (add_req p st) = conn_req st"
  by (simp_all add: add_req_def Let_def)

lemma p2p_core_delete:
  assumes "p2p_core st ps []" and "p \<in> set ps"
  shows "p2p_core (delete_req p st) (remove1 p ps) [p]"
proof -
  have d: "distinct (map (users \<circ> conn_reqs st) ps)" using assms(1) by (simp add: p2p_core_def)
  then have "distinct (map (users \<circ> conn_reqs st) (remove1 p ps))"
    by (auto simp: distinct_map intro: inj_on_subset)
  moreover have "Suc (length (remove1 p ps)) = length ps"
    using length_pos_if_in_set[OF assms(2)] assms(2) by (simp only: length_remove1 if_True Suc_pred One_nat_def)
  then have "int (length ps) - 1 = int (length (remove1 p ps))" by linarith
  moreover have "add_mset p (mset ps - {#p#}) = mset ps" using assms(2) by simp
  ultimately show ?thesis
    using assms p2p_lists_del[of st ps p] by (auto simp: p2p_core_def)
qed

lemma p2p_core_free:
  assumes "p2p_core st ps [Buf b]"
  shows "\<exists>pool. free_buffer b (req_pool st) = Some pool \<and> p2p_core (st\<lparr>req_pool := pool\<rparr>) ps []"
proof -
  obtain fs where f: "mm_ok MAX_REQ_NUM (req_pool st) fs []"
      "mset (ps @ [Buf b] @ map Buf fs) = mset (map Buf [0..<MAX_REQ_NUM])"
    using assms by (auto simp: p2p_core_def)
  have "b < MAX_REQ_NUM" "b \<notin> set fs" using bufs_facts[OF f(2)] by auto
  from mm_ok_free[OF f(1) this] obtain pool where
    "free_buffer b (req_pool st) = Some pool" "mm_ok MAX_REQ_NUM pool (fs @ [b]) []" by blast
  moreover have "mset (ps @ [] @ map Buf (fs @ [b])) = mset (map Buf [0..<MAX_REQ_NUM])"
    using f(2) by simp
  ultimately show ?thesis using assms unfolding p2p_core_def by auto
qed

lemma p2p_core_alloc:
  assumes "p2p_core st ps []" and "length ps < MAX_REQ_NUM"
  shows "\<exists>b pool. alloc_buffer (req_pool st) = Some (Buf b, pool) \<and>
    p2p_core (st\<lparr>req_pool := pool\<rparr>) ps [Buf b]"
proof -
  obtain fs where f: "mm_ok MAX_REQ_NUM (req_pool st) fs []"
      "mset (ps @ map Buf fs) = mset (map Buf [0..<MAX_REQ_NUM])"
    using assms(1) by (auto simp: p2p_core_def)
  then obtain b fs' where b: "fs = b # fs'" using assms(2) bufs_facts(3)[OF f(2)] by (cases fs) auto
  with f(1) obtain pool where "alloc_buffer (req_pool st) = Some (Buf b, pool)"
      "mm_ok MAX_REQ_NUM pool fs' []" using mm_ok_alloc_some by blast
  moreover have "mset (ps @ [Buf b] @ map Buf fs') = mset (map Buf [0..<MAX_REQ_NUM])"
    using f(2) b by simp
  ultimately show ?thesis using assms(1) unfolding p2p_core_def by auto
qed

lemma p2p_core_add:
  assumes "p2p_core st ps [p]" and "users e \<notin> (users \<circ> conn_reqs st) ` set ps"
  shows "p2p_core (add_req p (st\<lparr>conn_reqs := (conn_reqs st)(p := e)\<rparr>)) (ps @ [p]) []"
proof -
  let ?st = "st\<lparr>conn_reqs := (conn_reqs st)(p := e)\<rparr>"
  have p: "p \<notin> set ps" using p2p_core_bufs(1)[OF assms(1)] by simp
  then have "p2p_shape ((conn_reqs st)(p := e)) ps = p2p_shape (conn_reqs st) ps"
    by (intro p2p_shape_cong) auto
  then have "p2p_lists ?st ps" using assms(1) by (simp add: p2p_core_def)
  then have "p2p_lists (add_req p ?st) (ps @ [p])" using p by (rule p2p_lists_add)
  moreover have "distinct (map (users \<circ> conn_reqs ?st) (ps @ [p]))"
    using assms p by (auto simp: p2p_core_def distinct_map inj_on_def image_iff)
  ultimately show ?thesis using assms(1) by (auto simp: p2p_core_def)
qed

section \<open>The registry\<close>

text \<open>What the server is for, without pools and links: a list of the pending requests.\<close>

definition kept_reqs :: "t_P2P_CONN_REQ \<Rightarrow> t_conn_req list \<Rightarrow> t_conn_req list" where
  "kept_reqs r reg =
     (if \<exists>e \<in> set reg. req_equal (req e) r then filter (\<lambda>e. \<not> req_equal (req e) r) reg
      else if MAX_REQ_NUM \<le> length reg then tl reg else reg)"

definition registry_step ::
    "t_P2P_CONN_REQ \<Rightarrow> sockaddr_in \<Rightarrow> int \<Rightarrow> t_conn_req list \<Rightarrow> t_conn_req option \<times> t_conn_req list" where
  "registry_step r addr time_now reg =
     (let reg1 = kept_reqs r reg @ [\<lparr>timestamp = time_now, req = r, sockaddr_src = addr\<rparr>]
      in case List.find (\<lambda>e. req_match (req e) r) reg1 of
           None \<Rightarrow> (None, reg1)
         | Some e \<Rightarrow> if time_now - timestamp e > gap then (None, remove1 e reg1) else (Some e, reg1))"

definition registry :: "p2p_state \<Rightarrow> mm_ptr list \<Rightarrow> t_conn_req list" where
  "registry st ps = map (conn_reqs st) ps"

lemma req_equal_users: "req_equal r1 r2 \<longleftrightarrow> (usr_src r1, usr_dst r1) = (usr_src r2, usr_dst r2)"
  by (simp add: req_equal_def)

lemma first_req_registry:
  assumes "NullPtr \<notin> set ps"
  shows "first_req P st ps = NullPtr \<longleftrightarrow> (\<forall>e \<in> set (registry st ps). \<not> P e)"
    and "first_req P st ps \<noteq> NullPtr \<Longrightarrow> first_req P st ps \<in> set ps \<and> P (conn_reqs st (first_req P st ps)) \<and>
      List.find P (registry st ps) = Some (conn_reqs st (first_req P st ps))"
    and "first_req P st ps = NullPtr \<Longrightarrow> List.find P (registry st ps) = None"
  using assms unfolding first_req_def registry_def
  by (auto simp: find_map comp_def find_None_iff split: option.splits dest: find_SomeD)

lemma registry_delete:
  assumes "distinct (map (users \<circ> f) ps)" "p \<in> set ps"
  shows "map f (remove1 p ps) = filter (\<lambda>e. users e \<noteq> users (f p)) (map f ps)"
    and "map f (remove1 p ps) = remove1 (f p) (map f ps)"
proof -
  show "map f (remove1 p ps) = filter (\<lambda>e. users e \<noteq> users (f p)) (map f ps)"
    using assms
  proof (induction ps)
    case (Cons q ps)
    show ?case
    proof (cases "q = p")
      case True
      then have "users (f x) \<noteq> users (f p)" if "x \<in> set ps" for x
        using Cons.prems(1) that by (auto simp: image_iff)
      then have "filter (\<lambda>e. users e \<noteq> users (f p)) (map f ps) = map f ps"
        by (auto simp: filter_id_conv)
      with True show ?thesis by simp
    next
      case False
      then have "p \<in> set ps" using Cons.prems(2) by simp
      moreover have "users (f q) \<noteq> users (f p)"
        using Cons.prems(1) calculation by (auto simp: image_iff)
      ultimately show ?thesis using Cons False by auto
    qed
  qed simp
  show "map f (remove1 p ps) = remove1 (f p) (map f ps)"
    using assms
  proof (induction ps)
    case (Cons q ps)
    then have "q \<noteq> p \<Longrightarrow> f q \<noteq> f p" by (auto simp: image_iff)
    with Cons show ?case by (cases "q = p") auto
  qed simp
qed

lemma release_req_core:
  assumes "p2p_core st ps []" and "p \<in> set ps"
  shows "\<exists>st'. release_req p st = Some st' \<and> p2p_core st' (remove1 p ps) [] \<and>
    conn_reqs st' = conn_reqs st \<and> reply st' = reply st \<and> conn_req st' = conn_req st"
proof -
  obtain b where p: "p = Buf b" using p2p_core_bufs(2)[OF assms(1)] assms(2) by auto
  have "p2p_core (delete_req p st) (remove1 p ps) [Buf b]" using p2p_core_delete[OF assms] p by simp
  from p2p_core_free[OF this] obtain pool where
    "free_buffer b (req_pool (delete_req p st)) = Some pool"
    "p2p_core (delete_req p st\<lparr>req_pool := pool\<rparr>) (remove1 p ps) []" by auto
  with p show ?thesis by (simp add: release_req_def Let_def)
qed

lemma release_oldest_core:
  assumes "p2p_core st (p # ps) []"
  shows "\<exists>st'. release_oldest_req st = Some st' \<and> p2p_core st' ps [] \<and>
    conn_reqs st' = conn_reqs st \<and> reply st' = reply st \<and> conn_req st' = conn_req st"
proof -
  have "is_list (req_links st) AllReqs (map ReqList (p # ps))"
    using assms unfolding p2p_core_def by (blast intro: list_store_rep[where p = AllReqs, rotated] p2p_shape.simps(1))
  then have "nxt (req_links st) AllReqs = ReqList p" by (simp add: is_list_def)
  with release_req_core[OF assms, of p] show ?thesis by (simp add: release_oldest_req_def)
qed

lemma in_set_tlD: "x \<in> set (tl xs) \<Longrightarrow> x \<in> set xs"
  by (cases xs) auto

lemma slot_for_req_core:
  fixes r :: t_P2P_CONN_REQ
  assumes core: "p2p_core st ps []"
  defines "kept \<equiv> kept_reqs r (registry st ps)"
  shows "\<exists>b st2 ps2. slot_for_req r st = Some (Buf b, st2) \<and> p2p_core st2 ps2 [Buf b] \<and>
    registry st2 ps2 = kept \<and> reply st2 = reply st \<and> conn_req st2 = conn_req st"
proof -
  have L: "p2p_lists st ps" "req_num st = int (length ps)" "distinct (map (users \<circ> conn_reqs st) ps)"
    using core by (simp_all add: p2p_core_def)
  have null: "NullPtr \<notin> set ps" using p2p_core_bufs(2)[OF core] by auto
  let ?p = "first_req (\<lambda>e. req_equal (req e) r) st ps"
  note F = first_req_registry[OF null, of "\<lambda>e. req_equal (req e) r" st]
  show ?thesis
  proof (cases "?p = NullPtr")
    case False
    then have p: "?p \<in> set ps" "req_equal (req (conn_reqs st ?p)) r" using F(2) by auto
    then obtain b where b: "?p = Buf b" using p2p_core_bufs(2)[OF core] by auto
    have "registry st (remove1 ?p ps) = filter (\<lambda>e. users e \<noteq> users (conn_reqs st ?p)) (registry st ps)"
      unfolding registry_def by (rule registry_delete(1)[OF L(3) p(1)])
    also have "\<dots> = kept"
      using p False F(1) by (auto simp: kept_def kept_reqs_def req_equal_users intro!: filter_cong)
    finally have "registry (delete_req ?p st) (remove1 ?p ps) = kept" by (simp add: registry_def)
    moreover have "slot_for_req r st = Some (?p, delete_req ?p st)"
      using find_req_eq[OF L(1), of r] False by (simp add: slot_for_req_def)
    ultimately show ?thesis using p2p_core_delete[OF core p(1)] b by (metis delete_req_sel(4,5))
  next
    case True
    then have none: "\<not> (\<exists>e \<in> set (registry st ps). req_equal (req e) r)" using F(1) by simp
    have found: "find_req r st = Some NullPtr" using find_req_eq[OF L(1)] True by simp
    define st1 where "st1 = (if req_num st \<ge> int MAX_REQ_NUM then release_oldest_req st else Some st)"
    obtain s1 ps1 where s1: "st1 = Some s1" "p2p_core s1 ps1 []" "conn_reqs s1 = conn_reqs st"
        "reply s1 = reply st" "conn_req s1 = conn_req st" "registry st ps1 = kept" "length ps1 < MAX_REQ_NUM"
    proof (cases "MAX_REQ_NUM \<le> length ps")
      case True
      then obtain q qs where q: "ps = q # qs" by (cases ps) (auto simp: MAX_REQ_NUM_def)
      from release_oldest_core[of st q qs] core q obtain s1 where
        "release_oldest_req st = Some s1" "p2p_core s1 qs []" "conn_reqs s1 = conn_reqs st"
        "reply s1 = reply st" "conn_req s1 = conn_req st" by auto
      moreover have "length qs < MAX_REQ_NUM" using p2p_core_bufs(3)[OF core] q by simp
      moreover have "registry st qs = kept" using none True q by (simp add: kept_def kept_reqs_def registry_def)
      ultimately show ?thesis using that L(2) True by (simp add: st1_def)
    next
      case False
      then have "registry st ps = kept" using none by (simp add: kept_def kept_reqs_def registry_def)
      with that[of st ps] False core L(2) show ?thesis by (simp add: st1_def)
    qed
    from p2p_core_alloc[OF s1(2,7)] obtain b pool where
      "alloc_buffer (req_pool s1) = Some (Buf b, pool)" "p2p_core (s1\<lparr>req_pool := pool\<rparr>) ps1 [Buf b]" by blast
    moreover have "slot_for_req r st = do { s \<leftarrow> st1; (p, pool) \<leftarrow> alloc_buffer (req_pool s);
        Some (p, s\<lparr>req_pool := pool\<rparr>) }"
      unfolding slot_for_req_def st1_def found by simp
    ultimately show ?thesis using s1 by (auto simp: registry_def)
  qed
qed

lemma register_req_core:
  assumes core: "p2p_core st ps []"
  shows "\<exists>p q st' ps'. register_req r addr time_now st = Some (p, q, st') \<and> p2p_core st' ps' [] \<and>
    reply st' = reply st \<and> conn_req st' = conn_req st \<and>
    registry st' ps' = snd (registry_step r addr time_now (registry st ps)) \<and>
    (case fst (registry_step r addr time_now (registry st ps)) of
       None \<Rightarrow> q = NullPtr | Some e \<Rightarrow> q \<noteq> NullPtr \<and> conn_reqs st' q = e)"
proof -
  define kept where "kept = kept_reqs r (registry st ps)"
  let ?e = "\<lparr>timestamp = time_now, req = r, sockaddr_src = addr\<rparr>"
  from slot_for_req_core[OF core, of r] obtain b st2 ps2 where s2:
      "slot_for_req r st = Some (Buf b, st2)" "p2p_core st2 ps2 [Buf b]" "registry st2 ps2 = kept"
      "reply st2 = reply st" "conn_req st2 = conn_req st"
    unfolding kept_def by blast
  let ?st4 = "add_req (Buf b) (st2\<lparr>conn_reqs := (conn_reqs st2)(Buf b := ?e)\<rparr>)" and ?ps = "ps2 @ [Buf b]"
  have "\<not> req_equal (req e) r" if "e \<in> set kept" for e
    using that by (auto simp: kept_def kept_reqs_def split: if_splits dest: in_set_tlD)
  then have "users (conn_reqs st2 x) \<noteq> users ?e" if "x \<in> set ps2" for x
    using that s2(3) by (force simp: req_equal_users registry_def)
  then have "users ?e \<notin> (users \<circ> conn_reqs st2) ` set ps2" by force
  from p2p_core_add[OF s2(2) this] have core4: "p2p_core ?st4 ?ps []" .
  have "Buf b \<notin> set ps2" using p2p_core_bufs(1)[OF s2(2)] by simp
  then have reg: "registry ?st4 ?ps = kept @ [?e]"
    using s2(3) by (auto simp: registry_def)
  have null: "NullPtr \<notin> set ?ps" using p2p_core_bufs(2)[OF core4] by auto
  have L: "p2p_lists ?st4 ?ps" "distinct (map (users \<circ> conn_reqs ?st4) ?ps)"
    using core4 by (simp_all add: p2p_core_def)
  let ?q = "first_req (\<lambda>e. req_match (req e) r) ?st4 ?ps"
  note F = first_req_registry[OF null, of "\<lambda>e. req_match (req e) r" ?st4]
  have step: "registry_step r addr time_now (registry st ps) =
      (case List.find (\<lambda>e. req_match (req e) r) (registry ?st4 ?ps) of
         None \<Rightarrow> (None, registry ?st4 ?ps)
       | Some e \<Rightarrow> if time_now - timestamp e > gap then (None, remove1 e (registry ?st4 ?ps))
                  else (Some e, registry ?st4 ?ps))"
    unfolding registry_step_def kept_def[symmetric] Let_def reg ..
  have run: "register_req r addr time_now st =
      (if ?q \<noteq> NullPtr then
         if time_now - timestamp (conn_reqs ?st4 ?q) > gap
         then do { st5 \<leftarrow> release_req ?q ?st4; Some (Buf b, NullPtr, st5) }
         else Some (Buf b, ?q, ?st4)
       else Some (Buf b, NullPtr, ?st4))"
    using find_match_req_eq[OF L(1), of r] by (simp add: register_req_def s2(1) Let_def)
  show ?thesis
  proof (cases "?q = NullPtr")
    case True
    with run step F(3) core4 s2(4,5) show ?thesis by auto
  next
    case False
    note q = F(2)[OF False]
    show ?thesis
    proof (cases "time_now - timestamp (conn_reqs ?st4 ?q) > gap")
      case True
      from release_req_core[OF core4, of ?q] q obtain st5 where st5: "release_req ?q ?st4 = Some st5"
        "p2p_core st5 (remove1 ?q ?ps) []" "conn_reqs st5 = conn_reqs ?st4" "reply st5 = reply ?st4"
        "conn_req st5 = conn_req ?st4" by blast
      have "registry st5 (remove1 ?q ?ps) = remove1 (conn_reqs ?st4 ?q) (registry ?st4 ?ps)"
        unfolding registry_def st5(3) by (rule registry_delete(2)[OF L(2)]) (use q in blast)
      with run step False True q st5 s2(4,5) show ?thesis by auto
    next
      case F2: False
      with run step False q core4 s2(4,5) show ?thesis by auto
    qed
  qed
qed

section \<open>Iterations\<close>

lemma recv_length:
  assumes "recv_conn_req d buf = Some b"
  shows "length b = length buf"
proof -
  let ?got = "take 160 d"
  let ?c = "?got @ drop (length ?got) buf"
  have le: "length ?got \<le> length buf" and b: "b = rev (take 4 ?c) @ drop 4 ?c"
    using assms unfolding recv_conn_req_def Let_def by (metis not_le option.distinct(1), metis option.distinct(1) option.inject)
  have "length (rev (take 4 z) @ drop 4 z) = length z" for z :: "char list" by simp
  then have "length b = length ?c" unfolding b .
  also have "\<dots> = length buf" using le by (simp only: length_append length_drop)
  finally show ?thesis .
qed

lemma msg_field_tail:
  assumes "4 \<le> off" "drop 4 x = drop 4 y"
  shows "msg_field off x = msg_field off y"
proof -
  have "drop off z = drop (off - 4) (drop 4 z)" for z :: "char list" using assms(1) by simp
  then show ?thesis by (simp only: msg_field_def assms(2))
qed

definition decodes_as :: "char list \<Rightarrow> t_P2P_CONN_REQ \<Rightarrow> bool" where
  "decodes_as d r \<longleftrightarrow> length d = 100 \<and> decode_req d = Some (r\<lparr>msg_id := take 4 d\<rparr>) \<and> msg_id r = rev (take 4 d)"

lemma decode_swapped:
  assumes "drop 4 x = drop 4 y" "length x = length y" "decode_req x = Some r"
  shows "decode_req y = Some (r\<lparr>msg_id := take 4 y\<rparr>)"
proof -
  have "msg_field 4 y = msg_field 4 x" "msg_field 36 y = msg_field 36 x" "msg_field 68 y = msg_field 68 x"
    using assms(1,2) by (auto intro!: msg_field_tail)
  with assms(3) show ?thesis by (auto simp: decode_req_def bind_eq_Some_conv)
qed

lemma recv_whole: "length d = length buf \<Longrightarrow> length d \<le> 160 \<Longrightarrow>
    recv_conn_req d buf = Some (rev (take 4 d) @ drop 4 d)"
  by (simp add: recv_conn_req_def)

lemma decodes_as_recv:
  assumes "decodes_as d r" "length buf = 100"
  shows "\<exists>b. recv_conn_req d buf = Some b \<and> decode_req b = Some r"
proof -
  have d: "length d = 100" "decode_req d = Some (r\<lparr>msg_id := take 4 d\<rparr>)" "msg_id r = rev (take 4 d)"
    using assms(1) by (simp_all add: decodes_as_def)
  let ?b = "rev (take 4 d) @ drop 4 d"
  have "decode_req ?b = Some ((r\<lparr>msg_id := take 4 d\<rparr>)\<lparr>msg_id := take 4 ?b\<rparr>)"
    by (rule decode_swapped[OF _ _ d(2)]) (use d(1) in simp_all)
  moreover have "take 4 ?b = msg_id r" using d(1,3) by simp
  ultimately show ?thesis using recv_whole[of d buf] d(1) assms(2) by simp
qed

text \<open>What is meaningful in a reply: the peer's address only when there is one.\<close>

definition reply_says :: "t_P2P_CONN_RPLY \<Rightarrow> t_P2P_CONN_REQ \<Rightarrow> sockaddr_in \<Rightarrow> t_conn_req option \<Rightarrow> bool" where
  "reply_says re r addr found \<longleftrightarrow>
     rply_usr_src re = usr_src r \<and> rply_usr_dst re = usr_dst r \<and>
     usr_src_ip re = get_ipstr addr \<and> usr_src_port re = get_port addr \<and>
     (case found of
        None \<Rightarrow> rply_msg_id re = MSG_P2P_CONN_RESP_DST_OFFLINE
      | Some e \<Rightarrow> rply_msg_id re = MSG_P2P_CONN_RESP_OK \<and>
          usr_dst_ip re = get_ipstr (sockaddr_src e) \<and> usr_dst_port re = get_port (sockaddr_src e))"

text \<open>The whole reply; without a peer the address of the peer is the one of the reply before.\<close>

definition reply_for :: "t_P2P_CONN_RPLY \<Rightarrow> t_P2P_CONN_REQ \<Rightarrow> sockaddr_in \<Rightarrow> t_conn_req option \<Rightarrow> t_P2P_CONN_RPLY" where
  "reply_for prev r addr found =
     \<lparr>rply_msg_id = (if found = None then MSG_P2P_CONN_RESP_DST_OFFLINE else MSG_P2P_CONN_RESP_OK),
      rply_usr_src = usr_src r, rply_usr_dst = usr_dst r, usr_src_ip = get_ipstr addr, usr_src_port = get_port addr,
      usr_dst_ip = (case found of None \<Rightarrow> usr_dst_ip prev | Some e \<Rightarrow> get_ipstr (sockaddr_src e)),
      usr_dst_port = (case found of None \<Rightarrow> usr_dst_port prev | Some e \<Rightarrow> get_port (sockaddr_src e))\<rparr>"

fun replies :: "t_P2P_CONN_RPLY \<Rightarrow> ((t_P2P_CONN_REQ \<times> sockaddr_in \<times> int) \<times> t_conn_req option) list \<Rightarrow> t_P2P_CONN_RPLY list" where
  "replies prev [] = []"
| "replies prev (((r, addr, t), found) # xs) = (let re = reply_for prev r addr found in re # replies re xs)"

lemma reply_for_says: "reply_says (reply_for prev r addr found) r addr found"
  by (simp add: reply_for_def reply_says_def split: option.split)

lemma main_loop_step_core:
  assumes "p2p_core st ps []" and "d \<noteq> []" and "recv_conn_req d (conn_req st) = Some b"
    and "decode_req b = Some r"
  shows "\<exists>re st' ps'. main_loop_step d addr t st = Some (Some re, st') \<and> p2p_core st' ps' [] \<and>
    conn_req st' = b \<and> reply st' = re \<and>
    registry st' ps' = snd (registry_step r addr t (registry st ps)) \<and>
    re = reply_for (reply st) r addr (fst (registry_step r addr t (registry st ps))) \<and>
    reply_says re r addr (fst (registry_step r addr t (registry st ps))) \<and>
    (fst (registry_step r addr t (registry st ps)) = None \<longrightarrow>
       usr_dst_ip re = usr_dst_ip (reply st) \<and> usr_dst_port re = usr_dst_port (reply st))"
proof -
  let ?st0 = "st\<lparr>conn_req := b\<rparr>"
  have core: "p2p_core ?st0 ps []" using assms(1) by (simp add: p2p_core_def)
  have reg: "registry ?st0 ps = registry st ps" by (simp add: registry_def)
  from register_req_core[OF core, of r addr t] reg obtain p q st' ps' where
    r: "register_req r addr t ?st0 = Some (p, q, st')" "p2p_core st' ps' []" "reply st' = reply st"
       "conn_req st' = b" "registry st' ps' = snd (registry_step r addr t (registry st ps))"
       "case fst (registry_step r addr t (registry st ps)) of
          None \<Rightarrow> q = NullPtr | Some e \<Rightarrow> q \<noteq> NullPtr \<and> conn_reqs st' q = e" by auto
  obtain re st'' where a: "answer_req r addr q st' = (re, st'')" by fastforce
  then have st'': "st'' = st'\<lparr>reply := re\<rparr>" by (auto simp: answer_req_def Let_def)
  have "main_loop_step d addr t st = Some (Some re, st'')"
    using assms(2-4) r(1) a by (simp add: main_loop_step_def)
  moreover have "p2p_core st'' ps' []" using r(2) st'' by (simp add: p2p_core_def)
  moreover have "registry st'' ps' = registry st' ps'" using st'' by (simp add: registry_def)
  moreover have "re = reply_for (reply st) r addr (fst (registry_step r addr t (registry st ps)))"
    using a r(3,6) by (auto simp: answer_req_def Let_def reply_for_def split: option.splits)
  moreover from this have "reply_says re r addr (fst (registry_step r addr t (registry st ps))) \<and>
    (fst (registry_step r addr t (registry st ps)) = None \<longrightarrow>
       usr_dst_ip re = usr_dst_ip (reply st) \<and> usr_dst_port re = usr_dst_port (reply st))"
    using reply_for_says[of "reply st" r addr] by (simp add: reply_for_def)
  ultimately show ?thesis using r st'' by (intro exI[of _ re, OF exI[of _ st'', OF exI[of _ ps']]]) simp
qed

definition answers :: "t_P2P_CONN_RPLY \<Rightarrow> (t_P2P_CONN_REQ \<times> sockaddr_in \<times> int) \<times> t_conn_req option \<Rightarrow> bool" where
  "answers re x \<longleftrightarrow> reply_says re (fst (fst x)) (fst (snd (fst x))) (snd x)"

lemma answers_single: "answers re ((r, a, t), found) = reply_says re r a found"
  by (simp add: answers_def)

text \<open>The registry over a run.\<close>

fun registry_run ::
    "(t_P2P_CONN_REQ \<times> sockaddr_in \<times> int) list \<Rightarrow> t_conn_req list \<Rightarrow> t_conn_req option list \<times> t_conn_req list" where
  "registry_run [] reg = ([], reg)"
| "registry_run ((r, addr, t) # rs) reg =
     (let (found, reg1) = registry_step r addr t reg; (rest, reg2) = registry_run rs reg1
      in (found # rest, reg2))"

definition datagrams :: "(char list \<times> sockaddr_in \<times> int) list \<Rightarrow> (t_P2P_CONN_REQ \<times> sockaddr_in \<times> int) list \<Rightarrow> bool" where
  "datagrams ds rs \<longleftrightarrow> list_all2 (\<lambda>(d, a, t) (r, a', t'). decodes_as d r \<and> a = a' \<and> t = t') ds rs"

lemma replies_answer: "length xs = length (replies prev xs) \<and> list_all2 answers (replies prev xs) xs"
  by (induction prev xs rule: replies.induct) (simp_all add: Let_def answers_single reply_for_says)

lemma registry_run_length [simp]: "length (fst (registry_run rs reg)) = length rs"
  by (induction rs arbitrary: reg) (auto simp: Let_def case_prod_beta)

lemma main_loop_core:
  "p2p_core st ps [] \<Longrightarrow> length (conn_req st) = 100 \<Longrightarrow> datagrams ds rs \<Longrightarrow>
   \<exists>res st' ps'. main_loop ds st = Some (res, st') \<and> p2p_core st' ps' [] \<and> length (conn_req st') = 100 \<and>
     registry st' ps' = snd (registry_run rs (registry st ps)) \<and> length res = length rs \<and>
     res = replies (reply st) (zip rs (fst (registry_run rs (registry st ps)))) \<and>
     list_all2 answers res (zip rs (fst (registry_run rs (registry st ps))))"
proof (induction ds arbitrary: rs st ps)
  case Nil
  then have "rs = []" by (simp add: datagrams_def)
  with Nil show ?case by auto
next
  case (Cons x ds)
  obtain d a t where x: "x = (d, a, t)" by (metis prod_cases3)
  with Cons.prems(3) obtain r rs' where rs: "rs = (r, a, t) # rs'" "decodes_as d r" "datagrams ds rs'"
    by (auto simp: datagrams_def list_all2_Cons1)
  from decodes_as_recv[OF rs(2) Cons.prems(2)] obtain b where
    b: "recv_conn_req d (conn_req st) = Some b" "decode_req b = Some r" by blast
  have "d \<noteq> []" using rs(2) by (auto simp: decodes_as_def)
  from main_loop_step_core[OF Cons.prems(1) this b, of a t] obtain re st1 ps1 where
    1: "main_loop_step d a t st = Some (Some re, st1)" "p2p_core st1 ps1 []" "conn_req st1 = b" "reply st1 = re"
       "registry st1 ps1 = snd (registry_step r a t (registry st ps))"
       "re = reply_for (reply st) r a (fst (registry_step r a t (registry st ps)))" by blast
  have "length (conn_req st1) = 100" using recv_length[OF b(1)] Cons.prems(2) 1(3) by simp
  from Cons.IH[OF 1(2) this rs(3)] obtain res st' ps' where
    2: "main_loop ds st1 = Some (res, st')" "p2p_core st' ps' []" "length (conn_req st') = 100"
       "registry st' ps' = snd (registry_run rs' (registry st1 ps1))" "length res = length rs'"
       "res = replies re (zip rs' (fst (registry_run rs' (registry st1 ps1))))" unfolding 1(4) by blast
  have "main_loop (x # ds) st = Some (re # res, st')" using x 1(1) 2(1) by simp
  moreover have "re # res = replies (reply st) (zip rs (fst (registry_run rs (registry st ps))))"
    using 1(5,6) 2(6) rs(1) by (simp add: case_prod_beta Let_def)
  moreover from this have "list_all2 answers (re # res) (zip rs (fst (registry_run rs (registry st ps))))"
    using replies_answer by metis
  ultimately show ?case using 1(5) 2(2-5) rs(1)
    by (intro exI[of _ "re # res", OF exI[of _ st', OF exI[of _ ps']]]) (simp add: case_prod_beta Let_def)
qed

lemma registry_step_length: "length reg \<le> MAX_REQ_NUM \<Longrightarrow>
    length (snd (registry_step r a t reg)) \<le> MAX_REQ_NUM"
proof -
  assume l: "length reg \<le> MAX_REQ_NUM"
  have "length (kept_reqs r reg) < MAX_REQ_NUM"
  proof (cases "\<exists>e \<in> set reg. req_equal (req e) r")
    case True
    then have "length (filter (\<lambda>e. \<not> req_equal (req e) r) reg) < length reg"
      by (auto intro: length_filter_less)
    with True l show ?thesis by (simp add: kept_reqs_def)
  next
    case False
    with l show ?thesis by (auto simp: kept_reqs_def MAX_REQ_NUM_def)
  qed
  then show ?thesis
    by (auto simp: registry_step_def Let_def length_remove1 split: option.split)
qed

text \<open>After a request of two different users, its entry is the last, and the only one of theirs.\<close>

lemma kept_reqs_not_equal: "e \<in> set (kept_reqs r reg) \<Longrightarrow> \<not> req_equal (req e) r"
  by (auto simp: kept_reqs_def split: if_splits dest: in_set_tlD)

lemma registry_step_last:
  assumes "\<not> req_match r r"
  shows "\<exists>xs. snd (registry_step r a t reg) = xs @ [\<lparr>timestamp = t, req = r, sockaddr_src = a\<rparr>] \<and>
    (\<forall>e \<in> set xs. \<not> req_equal (req e) r)"
proof -
  let ?e = "\<lparr>timestamp = t, req = r, sockaddr_src = a\<rparr>" and ?k = "kept_reqs r reg"
  show ?thesis
  proof (cases "List.find (\<lambda>e. req_match (req e) r) (?k @ [?e])")
    case None
    then show ?thesis using kept_reqs_not_equal
      by (auto simp: registry_step_def Let_def)
  next
    case (Some e)
    then have "req_match (req e) r" "e \<in> set (?k @ [?e])" by (auto dest: find_SomeD)
    then have e: "e \<in> set ?k" using assms by auto
    then have "remove1 e (?k @ [?e]) = remove1 e ?k @ [?e]" by (simp add: remove1_append)
    moreover have "x \<in> set (remove1 e ?k) \<Longrightarrow> x \<in> set ?k" for x using set_remove1_subset[of e ?k] by blast
    ultimately show ?thesis using Some kept_reqs_not_equal
      by (auto simp: registry_step_def Let_def)
  qed
qed

lemma find_peer:
  assumes "reg = xs @ [e1]" and "\<And>e. e \<in> set xs \<Longrightarrow> \<not> req_equal (req e) (req e1)"
    and "usr_dst (req e1) = usr_src r2" "usr_dst r2 = usr_src (req e1)" "pass_word (req e1) = pass_word r2"
    and "usr_src (req e1) \<noteq> usr_src r2" and "req e2 = r2"
  shows "List.find (\<lambda>e. req_match (req e) r2) (kept_reqs r2 reg @ [e2]) = Some e1"
proof -
  have "\<not> req_equal (req e1) r2" using assms(6) by (simp add: req_equal_def)
  moreover have "xs = [] \<Longrightarrow> \<not> MAX_REQ_NUM \<le> length reg" using assms(1) by (simp add: MAX_REQ_NUM_def)
  ultimately have "\<exists>ys. kept_reqs r2 reg = ys @ [e1] \<and> set ys \<subseteq> set xs"
    unfolding kept_reqs_def assms(1)
    by (cases "\<exists>e \<in> set (xs @ [e1]). req_equal (req e) r2"; cases xs) (auto intro!: exI[of _ "filter _ _"])
  then obtain ys where k: "kept_reqs r2 reg = ys @ [e1]" "set ys \<subseteq> set xs" by blast
  have "\<not> req_match (req e) r2" if "e \<in> set ys" for e
    using assms(2)[of e] that k(2) assms(3,4) by (auto simp: req_match_def req_equal_def split: if_splits)
  moreover have "req_match (req e1) r2" using assms(3-5) by (simp add: req_match_def)
  ultimately have "List.find (\<lambda>e. req_match (req e) r2) (ys @ e1 # zs) = Some e1" for zs
    by (induction ys) auto
  with k(1) show ?thesis by simp
qed

section \<open>The initial state\<close>

lemma init_hash_reqs:
  "list_store is_list h (p2p_shape ent [] |` ({AllReqs} \<union> HashReqs ` {..<n})) \<Longrightarrow> n \<le> HASH_REQS \<Longrightarrow>
     m = HASH_REQS - n \<Longrightarrow>
     list_store is_list (fold (\<lambda>i. INIT_LIST_HEAD (HashReqs i)) [n..<HASH_REQS] h) (p2p_shape ent [])"
proof (induction m arbitrary: n h)
  case 0
  then have n: "n = HASH_REQS" by simp
  have "p2p_shape ent [] |` ({AllReqs} \<union> HashReqs ` {..<HASH_REQS}) = p2p_shape ent []"
    by (rule ext, rename_tac x, case_tac x) (auto simp: restrict_map_def)
  with 0 n show ?case by simp
next
  case (Suc m)
  let ?L = "p2p_shape ent [] |` ({AllReqs} \<union> HashReqs ` {..<n})"
  have n: "n < HASH_REQS" using Suc.prems by simp
  have "HashReqs n \<notin> nodes ?L"
    by (auto simp: nodes_def restrict_map_def split: if_splits)
  from kernel_list.store_init[OF Suc.prems(1) this]
  have "list_store is_list (INIT_LIST_HEAD (HashReqs n) h) (?L(HashReqs n \<mapsto> []))" .
  moreover have "?L(HashReqs n \<mapsto> []) = p2p_shape ent [] |` ({AllReqs} \<union> HashReqs ` {..<Suc n})"
    using n by (auto simp: fun_eq_iff restrict_map_def lessThan_Suc)
  ultimately have "list_store is_list (fold (\<lambda>i. INIT_LIST_HEAD (HashReqs i)) [Suc n..<HASH_REQS]
      (INIT_LIST_HEAD (HashReqs n) h)) (p2p_shape ent [])"
    using Suc.IH[of "INIT_LIST_HEAD (HashReqs n) h" "Suc n"] Suc.prems n by simp
  with n show ?case by (simp add: upt_conv_Cons)
qed

lemma init_internal_struct_core:
  assumes "buffer_num_free mgr = 0" and "req_num st = 0"
  shows "\<exists>st'. init_internal_struct (Some mgr) True st = Some st' \<and> p2p_core st' [] [] \<and>
    conn_req st' = conn_req st \<and> reply st' = reply st"
proof -
  obtain pool where pool: "create_buffer_manager (Some mgr) True 160 (int MAX_REQ_NUM) = Some pool"
    by (simp add: create_buffer_manager_def Let_def)
  have ok: "mm_ok MAX_REQ_NUM pool [0..<MAX_REQ_NUM] []"
    using create_buffer_manager_lists[OF pool] assms(1) by (auto simp: mm_ok_def MAX_REQ_NUM_def)
  have "list_store is_list (INIT_LIST_HEAD AllReqs (req_links st)) (Map.empty(AllReqs \<mapsto> []))"
    by (rule kernel_list.store_init[OF kernel_list.store_empty]) (simp add: nodes_def)
  moreover have "Map.empty(AllReqs \<mapsto> []) = p2p_shape (conn_reqs st) [] |` ({AllReqs} \<union> HashReqs ` {..<0})"
    by (auto simp: fun_eq_iff restrict_map_def)
  ultimately have "list_store is_list (fold (\<lambda>i. INIT_LIST_HEAD (HashReqs i)) [0..<HASH_REQS]
      (INIT_LIST_HEAD AllReqs (req_links st))) (p2p_shape (conn_reqs st) [])"
    using init_hash_reqs[of _ _ 0] by simp
  with ok pool assms(2) show ?thesis
    by (auto simp: init_internal_struct_def p2p_core_def intro!: exI[of _ "[0..<MAX_REQ_NUM]"])
qed

section \<open>Properties\<close>

text \<open>C12: Started on a pool whose counter happens to be zero, the server answers any
  sequence of complete datagrams, with names and a password that end within their 32 bytes, as the registry does, in order:
  every run returns, and each reply has the names of the request and the address of its sender, and with a matching request in the
  registry the number of success and the address of the peer. Without one it says that the peer is offline and repeats the
  address of the peer in the reply before, to whomever that went. No buffer is lost and at most 256 requests are kept.\<close>

theorem p2p_server_refines_registry:
  assumes "buffer_num_free mgr = 0" and "req_num st = 0" and "length (conn_req st) = 100"
    and "datagrams ds rs"
  shows "\<exists>st0 res st' ps'. init_internal_struct (Some mgr) True st = Some st0 \<and>
    main_loop ds st0 = Some (res, st') \<and> p2p_core st' ps' [] \<and>
    res = replies (reply st) (zip rs (fst (registry_run rs []))) \<and> length res = length rs \<and>
    registry st' ps' = snd (registry_run rs []) \<and> req_num st' = int (length ps') \<and> length ps' \<le> MAX_REQ_NUM"
proof -
  obtain st0 where st0: "init_internal_struct (Some mgr) True st = Some st0" "p2p_core st0 [] []"
      "length (conn_req st0) = 100" "reply st0 = reply st"
    using init_internal_struct_core[OF assms(1,2)] assms(3) by auto
  have "registry st0 [] = []" by (simp add: registry_def)
  with main_loop_core[OF st0(2,3) assms(4)] obtain res st' ps' where
    r: "main_loop ds st0 = Some (res, st')" "p2p_core st' ps' []" "length res = length rs"
      "res = replies (reply st) (zip rs (fst (registry_run rs [])))"
      "registry st' ps' = snd (registry_run rs [])" unfolding st0(4) by auto
  have "length ps' \<le> MAX_REQ_NUM" using p2p_core_bufs(3)[OF r(2)] by simp
  moreover have "req_num st' = int (length ps')" using r(2) by (simp add: p2p_core_def)
  ultimately show ?thesis using st0(1) r by blast
qed

definition pad32 :: "string \<Rightarrow> char list" where
  "pad32 s = s @ replicate (32 - length s) NUL"

definition datagram :: "string \<Rightarrow> string \<Rightarrow> string \<Rightarrow> char list" where
  "datagram s d p = [NUL, NUL, NUL, CHR ''e''] @ pad32 s @ pad32 d @ pad32 p"

definition idle_server :: p2p_state where
  "idle_server = \<lparr>req_links = \<lparr>nxt = \<lambda>n. n, prv = \<lambda>n. n\<rparr>, req_pool = stale_memory 0,
     conn_reqs = \<lambda>_. \<lparr>timestamp = 0, req = \<lparr>msg_id = [], usr_src = [], usr_dst = [], pass_word = []\<rparr>,
       sockaddr_src = \<lparr>sin_family = AF_INET, sin_addr = 0, sin_port = 0\<rparr>\<rparr>,
     req_num = 0, conn_req = replicate 100 NUL,
     reply = \<lparr>rply_msg_id = 0, rply_usr_src = [], rply_usr_dst = [], usr_src_ip = [], usr_src_port = 0,
       usr_dst_ip = [], usr_dst_port = 0\<rparr>\<rparr>"

abbreviation ab_req :: t_P2P_CONN_REQ where
  "ab_req \<equiv> \<lparr>msg_id = [CHR ''e'', NUL, NUL, NUL], usr_src = ''ann'', usr_dst = ''bob'', pass_word = ''pw''\<rparr>"

abbreviation ba_req :: t_P2P_CONN_REQ where
  "ba_req \<equiv> \<lparr>msg_id = [CHR ''e'', NUL, NUL, NUL], usr_src = ''bob'', usr_dst = ''ann'', pass_word = ''pw''\<rparr>"

lemma ab_datagrams:
  "decodes_as (datagram ''ann'' ''bob'' ''pw'') ab_req" "decodes_as (datagram ''bob'' ''ann'' ''pw'') ba_req"
  by code_simp+

lemma idle_server_fields:
  "req_num idle_server = 0" "length (conn_req idle_server) = 100" "buffer_num_free (stale_memory 0) = 0"
  by (simp_all add: idle_server_def stale_memory_def)

lemma p2p_server_refines_registry_witness:
  "\<exists>st0 re st'. init_internal_struct (Some (stale_memory 0)) True idle_server = Some st0 \<and>
    main_loop [(datagram ''ann'' ''bob'' ''pw'', \<lparr>sin_family = AF_INET, sin_addr = 1, sin_port = 2\<rparr>, 7)] st0 = Some ([re], st') \<and>
    rply_msg_id re = MSG_P2P_CONN_RESP_DST_OFFLINE"
proof -
  let ?a = "\<lparr>sin_family = AF_INET, sin_addr = 1, sin_port = 2\<rparr>"
  have d: "datagrams [(datagram ''ann'' ''bob'' ''pw'', ?a, 7)] [(ab_req, ?a, 7)]"
    using ab_datagrams by (simp add: datagrams_def)
  have "fst (registry_run [(ab_req, ?a, 7)] []) = [None]"
    by (simp add: registry_step_def kept_reqs_def req_match_def req_equal_def MAX_REQ_NUM_def Let_def)
  with p2p_server_refines_registry[OF idle_server_fields(3,1,2) d] show ?thesis
    by (auto simp: reply_for_def)
qed

text \<open>The answer to one request, in any reachable state. When there is no peer, the
  peer address of the packet sent is not cleared: it is what the last packet sent said,
  to whomever that was.\<close>

theorem p2p_answer_step:
  assumes "p2p_core st ps []" and "length (conn_req st) = 100" and "decodes_as d r"
  shows "\<exists>re st' ps'. main_loop_step d addr t st = Some (Some re, st') \<and> p2p_core st' ps' [] \<and>
    registry st' ps' = snd (registry_step r addr t (registry st ps)) \<and>
    reply_says re r addr (fst (registry_step r addr t (registry st ps))) \<and>
    (rply_msg_id re = MSG_P2P_CONN_RESP_DST_OFFLINE \<longrightarrow>
       usr_dst_ip re = usr_dst_ip (reply st) \<and> usr_dst_port re = usr_dst_port (reply st))"
proof -
  have d: "d \<noteq> []" using assms(3) by (auto simp: decodes_as_def)
  obtain b where b: "recv_conn_req d (conn_req st) = Some b" "decode_req b = Some r"
    using decodes_as_recv[OF assms(3,2)] by blast
  obtain re st' ps' where s: "main_loop_step d addr t st = Some (Some re, st')" "p2p_core st' ps' []"
    "registry st' ps' = snd (registry_step r addr t (registry st ps))"
    "reply_says re r addr (fst (registry_step r addr t (registry st ps)))"
    "fst (registry_step r addr t (registry st ps)) = None \<longrightarrow>
       usr_dst_ip re = usr_dst_ip (reply st) \<and> usr_dst_port re = usr_dst_port (reply st)"
    using main_loop_step_core[OF assms(1) d b, of addr t] by (elim exE conjE) (rule that; assumption)
  have "rply_msg_id re = MSG_P2P_CONN_RESP_DST_OFFLINE \<longrightarrow> fst (registry_step r addr t (registry st ps)) = None"
    using s(4) by (auto simp: reply_says_def MSG_P2P_CONN_RESP_DST_OFFLINE_def MSG_P2P_CONN_RESP_OK_def
        split: option.splits)
  with s show ?thesis by (intro exI[of _ re] exI[of _ st'] exI[of _ ps'] conjI) simp_all
qed

text \<open>Two users who ask for each other with the same password within 60 seconds meet:
  the second is sent the address the first request came from, whatever was registered
  before.\<close>

theorem p2p_rendezvous:
  assumes "p2p_core st ps []" and "length (conn_req st) = 100"
    and "decodes_as d1 r1" and "decodes_as d2 r2"
    and "usr_dst r1 = usr_src r2" and "usr_dst r2 = usr_src r1" and "pass_word r1 = pass_word r2"
    and "usr_src r1 \<noteq> usr_src r2" and "t2 - t1 \<le> gap"
  shows "\<exists>re1 re2 st'. main_loop [(d1, a1, t1), (d2, a2, t2)] st = Some ([re1, re2], st') \<and>
    rply_msg_id re2 = MSG_P2P_CONN_RESP_OK \<and> usr_dst_ip re2 = get_ipstr a1 \<and> usr_dst_port re2 = get_port a1"
proof -
  let ?e1 = "\<lparr>timestamp = t1, req = r1, sockaddr_src = a1\<rparr>" and ?e2 = "\<lparr>timestamp = t2, req = r2, sockaddr_src = a2\<rparr>"
  have "datagrams [(d1, a1, t1), (d2, a2, t2)] [(r1, a1, t1), (r2, a2, t2)]"
    using assms(3,4) by (simp add: datagrams_def)
  from main_loop_core[OF assms(1,2) this] obtain res st' where
    run: "main_loop [(d1, a1, t1), (d2, a2, t2)] st = Some (res, st')" "length res = 2"
      "list_all2 answers res (zip [(r1, a1, t1), (r2, a2, t2)]
         (fst (registry_run [(r1, a1, t1), (r2, a2, t2)] (registry st ps))))" by auto
  define reg where "reg = snd (registry_step r1 a1 t1 (registry st ps))"
  obtain xs where reg: "reg = xs @ [?e1]" "\<And>e. e \<in> set xs \<Longrightarrow> \<not> req_equal (req e) r1"
    using registry_step_last[of r1 a1 t1 "registry st ps"] assms(5,6,8)
    by (auto simp: reg_def req_match_def)
  have "List.find (\<lambda>e. req_match (req e) r2) (kept_reqs r2 reg @ [?e2]) = Some ?e1"
    by (rule find_peer[where xs = xs, OF reg(1)]) (use assms(5-8) reg(2) in simp_all)
  then have "fst (registry_step r2 a2 t2 reg) = Some ?e1"
    using assms(9) by (simp add: registry_step_def Let_def)
  then have "fst (registry_run [(r1, a1, t1), (r2, a2, t2)] (registry st ps)) =
      [fst (registry_step r1 a1 t1 (registry st ps)), Some ?e1]"
    by (simp add: reg_def case_prod_beta Let_def)
  with run show ?thesis
    by (auto simp: length_Suc_conv eval_nat_numeral answers_single reply_says_def)
qed

lemma p2p_states:
  "\<exists>st. p2p_core st [] [] \<and> length (conn_req st) = 100"
  using init_internal_struct_core[OF idle_server_fields(3,1)] idle_server_fields(2) by metis

lemma p2p_answer_step_witness:
  "\<exists>st re st'. main_loop_step (datagram ''ann'' ''bob'' ''pw'') \<lparr>sin_family = AF_INET, sin_addr = 1, sin_port = 2\<rparr> 7 st = Some (Some re, st') \<and>
    rply_msg_id re = MSG_P2P_CONN_RESP_DST_OFFLINE \<and> usr_dst_ip re = usr_dst_ip (reply st)"
proof -
  obtain st where st: "p2p_core st [] []" "length (conn_req st) = 100" using p2p_states by blast
  have "fst (registry_step ab_req \<lparr>sin_family = AF_INET, sin_addr = 1, sin_port = 2\<rparr> 7 (registry st [])) = None"
    by (simp add: registry_def registry_step_def kept_reqs_def req_match_def MAX_REQ_NUM_def Let_def)
  with p2p_answer_step[OF st ab_datagrams(1), of "\<lparr>sin_family = AF_INET, sin_addr = 1, sin_port = 2\<rparr>" 7] show ?thesis
    by (auto simp: reply_says_def)
qed

lemma p2p_rendezvous_witness:
  "\<exists>st re1 re2 st'. main_loop
      [(datagram ''ann'' ''bob'' ''pw'', \<lparr>sin_family = AF_INET, sin_addr = 0x0A000001, sin_port = 500\<rparr>, 7),
       (datagram ''bob'' ''ann'' ''pw'', \<lparr>sin_family = AF_INET, sin_addr = 0x0A000002, sin_port = 600\<rparr>, 9)] st = Some ([re1, re2], st') \<and>
    rply_msg_id re2 = MSG_P2P_CONN_RESP_OK \<and> usr_dst_port re2 = 500"
proof -
  obtain st where st: "p2p_core st [] []" "length (conn_req st) = 100" using p2p_states by blast
  from p2p_rendezvous[OF st ab_datagrams, where ?t1.0 = 7 and ?t2.0 = 9 and ?a1.0 = "\<lparr>sin_family = AF_INET, sin_addr = 0x0A000001, sin_port = 500\<rparr>"
      and ?a2.0 = "\<lparr>sin_family = AF_INET, sin_addr = 0x0A000002, sin_port = 600\<rparr>"]
  show ?thesis by (auto simp: gap_def get_port_def)
qed

text \<open>The size of a datagram is not checked against that of a request: one of more than
  100 bytes is written past the end of \<open>conn_req\<close>, and one of up to 4 bytes registers the
  users and the password of the previous datagram again, under the address of its own
  sender.\<close>

theorem p2p_datagram_size_unchecked:
  assumes "p2p_core st ps []" and "length (conn_req st) = 100" and "decode_req (conn_req st) = Some r"
    and "dgram \<noteq> []"
  shows "if 100 < length dgram then main_loop_step dgram addr t st = None
    else length dgram \<le> 4 \<longrightarrow>
      (\<exists>re st' ps' r'. main_loop_step dgram addr t st = Some (Some re, st') \<and> p2p_core st' ps' [] \<and>
         usr_src r' = usr_src r \<and> usr_dst r' = usr_dst r \<and> pass_word r' = pass_word r \<and>
         registry st' ps' = snd (registry_step r' addr t (registry st ps)))"
proof (cases "100 < length dgram")
  case True
  then show ?thesis using assms(2,4)
    by (simp add: main_loop_step_def recv_conn_req_def)
next
  case False
  show ?thesis
  proof (cases "length dgram \<le> 4")
    case True
    let ?b = "dgram @ drop (length dgram) (conn_req st)"
    let ?c = "rev (take 4 ?b) @ drop 4 ?b"
    have recv: "recv_conn_req dgram (conn_req st) = Some ?c"
      using assms(2) False by (simp add: recv_conn_req_def Let_def)
    have "drop 4 ?b = drop 4 (conn_req st)" using True by simp
    then have "decode_req ?c = Some (r\<lparr>msg_id := take 4 ?c\<rparr>)"
      using assms(2,3) False by (intro decode_swapped[OF _ _ assms(3)]) simp_all
    from main_loop_step_core[OF assms(1,4) recv this, of addr t] obtain re st' ps' where
      s: "main_loop_step dgram addr t st = Some (Some re, st')" "p2p_core st' ps' []"
      "registry st' ps' = snd (registry_step (r\<lparr>msg_id := take 4 ?c\<rparr>) addr t (registry st ps))"
      by (elim exE conjE) (rule that; assumption)
    have "\<exists>r'. usr_src r' = usr_src r \<and> usr_dst r' = usr_dst r \<and> pass_word r' = pass_word r \<and>
       registry st' ps' = snd (registry_step r' addr t (registry st ps))"
      by (rule exI[of _ "r\<lparr>msg_id := take 4 ?c\<rparr>"]) (use s(3) in simp)
    with s(1,2) False show ?thesis by auto
  qed (use False in simp)
qed

lemma p2p_datagram_size_unchecked_witness:
  "\<exists>st. main_loop_step (replicate 101 (CHR ''x'')) \<lparr>sin_family = AF_INET, sin_addr = 1, sin_port = 2\<rparr> 7 st = None \<and>
    (\<exists>re st'. main_loop_step ''x'' \<lparr>sin_family = AF_INET, sin_addr = 1, sin_port = 2\<rparr> 7 st = Some (Some re, st'))"
proof -
  obtain st where st: "p2p_core st [] []" "length (conn_req st) = 100" using p2p_states by blast
  obtain b where b: "recv_conn_req (datagram ''ann'' ''bob'' ''pw'') (conn_req st) = Some b" "decode_req b = Some ab_req"
    using decodes_as_recv[OF ab_datagrams(1) st(2)] by blast
  let ?st = "st\<lparr>conn_req := b\<rparr>"
  have c: "p2p_core ?st [] []" using st(1) by (simp add: p2p_core_def)
  have l: "length (conn_req ?st) = 100" using recv_length[OF b(1)] st(2) by simp
  have d: "decode_req (conn_req ?st) = Some ab_req" using b(2) by simp
  show ?thesis
    using p2p_datagram_size_unchecked[OF c l d, of "replicate 101 (CHR ''x'')" "\<lparr>sin_family = AF_INET, sin_addr = 1, sin_port = 2\<rparr>" 7]
      p2p_datagram_size_unchecked[OF c l d, of "''x''" "\<lparr>sin_family = AF_INET, sin_addr = 1, sin_port = 2\<rparr>" 7]
    by (intro exI[of _ ?st]) auto
qed

end
