(* ===== verification/P2pClient.thy ===== *)
theory P2pClient
  imports P2pServer
begin

text \<open>
  The client of the rendezvous server, \<open>simple_apps/p2p_client.c\<close>: it asks the server for the
  address of its peer until the peer is online, then exchanges heart beats with it and asks again
  when they stop. The program is a state machine driven by what its polls of the socket find, by the
  50 ms that pass when they find nothing, and by the timer; \<open>phase\<close> says where between two events it
  stands. What it sends is collected in \<open>outbox\<close>. \<open>None\<close> is an access outside a buffer, or an event
  that cannot occur in the phase. The last section puts two clients and the server together.
\<close>

section \<open>State\<close>

text \<open>\<open>WaitData n\<close> stands before the loop at \<open>WAIT_SOCK_DATA\<close> with \<open>sleep_cnt = n\<close>, \<open>LastCheck n\<close> before the
  test behind it, \<open>SleepNext n\<close> in the loop at \<open>SLEEP_FOR_NEXT\<close>, \<open>Running\<close> at the head of the loop of
  \<open>main_loop\<close>, \<open>Polling\<close> behind its call of \<open>p2p_conn_loop\<close>.\<close>

datatype phase = WaitData nat | LastCheck nat | SleepNext nat | Running | Polling

text \<open>\<open>conn_junk\<close> is what the stack held in \<open>conn_req\<close>, \<open>reply_buf\<close> the bytes of \<open>reply\<close>.\<close>

record p2p_client =
  server_ip :: string
  server_port :: u16
  client_src :: string
  client_dst :: string
  password :: string
  connected :: bool
  heart_beat_miss_cnt :: int
  heart_beat_data :: "char list"
  heart_beat_seq :: u32
  timer_cnt :: int
  sockaddr_server :: sockaddr_in
  sockaddr_peer :: sockaddr_in
  conn_junk :: "char list"
  reply_buf :: "char list"
  phase :: phase
  outbox :: "(sockaddr_in \<times> char list) list"

definition MSG_P2P_CONN_REQ :: nat where "MSG_P2P_CONN_REQ = 101"
definition TIMER_GAP_IN_SEC :: int where "TIMER_GAP_IN_SEC = 3"

section \<open>The code\<close>

definition addr_is_server :: "p2p_client \<Rightarrow> sockaddr_in \<Rightarrow> bool" where
  "addr_is_server c addr = sockaddr_equal addr (sockaddr_server c)"

definition addr_is_peer :: "p2p_client \<Rightarrow> sockaddr_in \<Rightarrow> bool" where
  "addr_is_peer c addr = sockaddr_equal addr (sockaddr_peer c)"

definition send_to_peer :: "char list \<Rightarrow> p2p_client \<Rightarrow> p2p_client" where
  "send_to_peer buf c = (if connected c then c\<lparr>outbox := outbox c @ [(sockaddr_peer c, buf)]\<rparr> else c)"

definition send_to_server :: "char list \<Rightarrow> p2p_client \<Rightarrow> p2p_client" where
  "send_to_server buf c = c\<lparr>outbox := outbox c @ [(sockaddr_server c, buf)]\<rparr>"

definition snd_heart_beat :: "p2p_client \<Rightarrow> p2p_client" where
  "snd_heart_beat c =
     (if connected c
      then (send_to_peer (heart_beat_data c) c)\<lparr>heart_beat_seq := heart_beat_seq c + 1\<rparr> else c)"

definition timer_proc :: "p2p_client \<Rightarrow> p2p_client" where
  "timer_proc c =
     (let c1 = snd_heart_beat c;
          c2 = (if \<not> connected c1 then c1
                else let miss = heart_beat_miss_cnt c1 + 1
                     in c1\<lparr>heart_beat_miss_cnt := miss, connected := (if miss \<ge> 5 then False else connected c1)\<rparr>);
          cnt = timer_cnt c2 + TIMER_GAP_IN_SEC
      in c2\<lparr>timer_cnt := (if cnt \<ge> 60 * 60 * 24 then 0 else cnt)\<rparr>)"

subsection \<open>The command line\<close>

definition LONG_OPT_ID_SERVER_IP :: nat where "LONG_OPT_ID_SERVER_IP = 1001"
definition LONG_OPT_ID_SERVER_PORT :: nat where "LONG_OPT_ID_SERVER_PORT = 1002"
definition LONG_OPT_ID_FROM :: nat where "LONG_OPT_ID_FROM = 1003"
definition LONG_OPT_ID_TO :: nat where "LONG_OPT_ID_TO = 1004"

definition our_options :: "long_option list" where
  "our_options =
    [\<lparr>opt_name = ''server-ip'', opt_has_arg = required_argument, opt_val = LONG_OPT_ID_SERVER_IP\<rparr>,
     \<lparr>opt_name = ''server-port'', opt_has_arg = required_argument, opt_val = LONG_OPT_ID_SERVER_PORT\<rparr>,
     \<lparr>opt_name = ''from'', opt_has_arg = required_argument, opt_val = LONG_OPT_ID_FROM\<rparr>,
     \<lparr>opt_name = ''to'', opt_has_arg = required_argument, opt_val = LONG_OPT_ID_TO\<rparr>]"

definition strcpy_into :: "nat \<Rightarrow> string \<Rightarrow> string option" where
  "strcpy_into n s = (if length s < n then Some s else None)"

text \<open>A left result is the usage and \<open>exit(1)\<close>. The test of the two users against NULL is of
  arrays, and never true.\<close>

fun parse_args :: "opt_event list \<Rightarrow> p2p_client \<Rightarrow> (unit + p2p_client) option" where
  "parse_args [] c = Some (Inr c)"
| "parse_args ((opt, optarg) # evs) c =
     (if opt = LONG_OPT_ID_SERVER_IP then
        Option.bind (strcpy_into 40 (the optarg)) (\<lambda>s. parse_args evs (c\<lparr>server_ip := s\<rparr>))
      else if opt = LONG_OPT_ID_SERVER_PORT then
        parse_args evs (c\<lparr>server_port := word_of_int (atoi (the optarg))\<rparr>)
      else if opt = LONG_OPT_ID_FROM then
        Option.bind (strcpy_into 32 (the optarg)) (\<lambda>s. parse_args evs (c\<lparr>client_src := s\<rparr>))
      else if opt = LONG_OPT_ID_TO then
        Option.bind (strcpy_into 32 (the optarg)) (\<lambda>s. parse_args evs (c\<lparr>client_dst := s\<rparr>))
      else Some (Inl ()))"

subsection \<open>Asking the server\<close>

text \<open>A field of \<open>n\<close> cells after \<open>strcpy\<close>, with the old contents behind the NUL.\<close>

definition strcpy_field :: "nat \<Rightarrow> string \<Rightarrow> char list \<Rightarrow> char list" where
  "strcpy_field n s old = s @ NUL # drop (length s + 1) (take n old)"

text \<open>\<open>conn_req\<close>: the message number is stored as it is, on a little-endian machine.\<close>

definition conn_req_bytes :: "p2p_client \<Rightarrow> char list" where
  "conn_req_bytes c =
     [char_of MSG_P2P_CONN_REQ, NUL, NUL, NUL] @
     strcpy_field 32 (client_src c) (drop 4 (conn_junk c)) @
     strcpy_field 32 (client_dst c) (drop 36 (conn_junk c)) @
     strcpy_field 32 (password c) (drop 68 (conn_junk c))"

text \<open>The head of the loop of \<open>p2p_conn_loop\<close>.\<close>

definition ask_server :: "p2p_client \<Rightarrow> p2p_client" where
  "ask_server c = (send_to_server (conn_req_bytes c) c)\<lparr>phase := WaitData 0\<rparr>"

text \<open>The loop at \<open>SLEEP_FOR_NEXT\<close>, entered with \<open>sleep_cnt = n\<close>.\<close>

definition sleep_for_next :: "nat \<Rightarrow> p2p_client \<Rightarrow> p2p_client" where
  "sleep_for_next n c = (if n < 100 then c\<lparr>phase := SleepNext n\<rparr> else ask_server c)"

text \<open>The packed reply has 152 bytes. A short datagram leaves the rest of \<open>reply\<close> as it was; \<open>ntohl\<close> is
  applied to the message number in place.\<close>

definition recv_reply :: "char list \<Rightarrow> char list \<Rightarrow> char list" where
  "recv_reply dgram buf = (let got = take 152 dgram in got @ drop (length got) buf)"

definition ntohl_msg_id :: "char list \<Rightarrow> char list" where
  "ntohl_msg_id buf = rev (take 4 buf) @ drop 4 buf"

definition le_value :: "char list \<Rightarrow> nat" where
  "le_value bs = foldr (\<lambda>c v. of_char c + 256 * v) bs 0"

text \<open>A datagram read at \<open>WAIT_SOCK_DATA\<close> with \<open>sleep_cnt = n\<close>; an empty one counts as a failure.\<close>

definition handle_reply ::
    "(string \<Rightarrow> u32) \<Rightarrow> nat \<Rightarrow> sockaddr_in \<Rightarrow> char list \<Rightarrow> p2p_client \<Rightarrow> p2p_client option" where
  "handle_reply inet_addr n addr dgram c =
     (let c1 = c\<lparr>reply_buf := recv_reply dgram (reply_buf c)\<rparr>
      in if dgram = [] then Some (sleep_for_next n c1)
         else if \<not> addr_is_server c1 addr then Some (c1\<lparr>phase := WaitData n\<rparr>)
         else let buf = ntohl_msg_id (reply_buf c1);
                  c2 = c1\<lparr>reply_buf := buf\<rparr>;
                  msg = le_value (take 4 buf)
              in if msg = MSG_P2P_CONN_RESP_OK then
                   let ip = take 40 (drop 110 buf)
                   in if NUL \<notin> set ip then None
                      else Some (c2\<lparr>sockaddr_peer := make_sockaddr (inet_addr (cstr ip))
                                      (of_nat (le_value (rev (take 2 (drop 150 buf))))),
                                    connected := True, phase := Polling\<rparr>)
                 else Some (sleep_for_next n c2))"

subsection \<open>Events\<close>

text \<open>What the program meets next: the timer; a poll of the socket that finds nothing, or the 50 ms
  of a sleep; a poll that finds a datagram; one that finds an error.\<close>

datatype p2p_event = Tick | Quiet | Datagram sockaddr_in "char list" | RecvError

definition wait_step :: "(string \<Rightarrow> u32) \<Rightarrow> nat \<Rightarrow> bool \<Rightarrow> p2p_event \<Rightarrow> p2p_client \<Rightarrow> p2p_client option" where
  "wait_step inet_addr n is_last ev c =
     (case ev of
        Quiet \<Rightarrow>
          if is_last then Some (ask_server c)
          else Some (c\<lparr>phase := (if n + 1 \<ge> 100 then LastCheck (n + 1) else WaitData (n + 1))\<rparr>)
      | Datagram addr dgram \<Rightarrow> handle_reply inet_addr n addr dgram c
      | _ \<Rightarrow> Some (sleep_for_next n c))"

definition poll_step :: "p2p_event \<Rightarrow> p2p_client \<Rightarrow> p2p_client" where
  "poll_step ev c =
     (let c1 = c\<lparr>phase := Running\<rparr>
      in case ev of
           Datagram addr dgram \<Rightarrow>
             if dgram = [] then c1\<lparr>connected := False\<rparr>
             else if addr_is_peer c1 addr then c1\<lparr>heart_beat_miss_cnt := 0\<rparr> else c1
         | RecvError \<Rightarrow> c1\<lparr>connected := False\<rparr>
         | _ \<Rightarrow> c1)"

definition client_step :: "(string \<Rightarrow> u32) \<Rightarrow> p2p_event \<Rightarrow> p2p_client \<Rightarrow> p2p_client option" where
  "client_step inet_addr ev c =
     (if ev = Tick then Some (timer_proc c)
      else (case phase c of
        WaitData n \<Rightarrow> wait_step inet_addr n False ev c
      | LastCheck n \<Rightarrow> wait_step inet_addr n True ev c
      | SleepNext n \<Rightarrow> if ev = Quiet then Some (sleep_for_next (n + 1) c) else None
      | Running \<Rightarrow>
          if \<not> connected c then wait_step inet_addr 0 False ev (ask_server c) else Some (poll_step ev c)
      | Polling \<Rightarrow> Some (poll_step ev c)))"

fun client_run :: "(string \<Rightarrow> u32) \<Rightarrow> p2p_event list \<Rightarrow> p2p_client \<Rightarrow> p2p_client option" where
  "client_run inet_addr [] c = Some c"
| "client_run inet_addr (ev # evs) c = Option.bind (client_step inet_addr ev c) (client_run inet_addr evs)"

text \<open>\<open>main\<close> up to \<open>main_loop\<close>; the text of the heart beat is printed into 64 cells. The socket and
  the timer are set up without a test that matters here.\<close>

definition client_init :: "char list \<Rightarrow> char list \<Rightarrow> p2p_client" where
  "client_init junk rbuf = \<lparr>server_ip = ''127.0.0.1'', server_port = 8888, client_src = [], client_dst = [],
     password = ''95555'', connected = False, heart_beat_miss_cnt = 0, heart_beat_data = replicate 64 NUL,
     heart_beat_seq = 0, timer_cnt = 0, sockaddr_server = \<lparr>sin_family = 0, sin_addr = 0, sin_port = 0\<rparr>,
     sockaddr_peer = \<lparr>sin_family = 0, sin_addr = 0, sin_port = 0\<rparr>, conn_junk = junk, reply_buf = rbuf,
     phase = Running, outbox = []\<rparr>"

definition client_main ::
    "(string \<Rightarrow> u32) \<Rightarrow> string list \<Rightarrow> p2p_client \<Rightarrow> (unit + p2p_client) option" where
  "client_main inet_addr words c = do {
     r \<leftarrow> parse_args (getopt_long '''' our_options words) c;
     (case r of
        Inl _ \<Rightarrow> Some (Inl ())
      | Inr c1 \<Rightarrow>
          let msg = ''heart beat: '' @ client_src c1 @ ''->'' @ client_dst c1
          in if 64 \<le> length msg then None
             else Some (Inr (c1\<lparr>heart_beat_data := strcpy_field 64 msg (heart_beat_data c1),
                    sockaddr_server := make_sockaddr (inet_addr (server_ip c1)) (server_port c1)\<rparr>)))
   }"

section \<open>The request\<close>

definition client_ok :: "p2p_client \<Rightarrow> bool" where
  "client_ok c \<longleftrightarrow> NUL \<notin> set (client_src c) \<and> NUL \<notin> set (client_dst c) \<and> NUL \<notin> set (password c) \<and>
     length (client_src c) < 32 \<and> length (client_dst c) < 32 \<and> length (password c) < 32 \<and>
     length (conn_junk c) = 100 \<and> length (reply_buf c) = 152"

text \<open>The number is sent in the order of the machine; the server converts what it receives.\<close>

definition request_of :: "p2p_client \<Rightarrow> t_P2P_CONN_REQ" where
  "request_of c = \<lparr>msg_id = [NUL, NUL, NUL, char_of MSG_P2P_CONN_REQ], usr_src = client_src c,
     usr_dst = client_dst c, pass_word = password c\<rparr>"

lemma length_strcpy_field: "length s < n \<Longrightarrow> n \<le> length old \<Longrightarrow> length (strcpy_field n s old) = n"
  by (simp add: strcpy_field_def)

lemma cstr_strcpy_field: "NUL \<notin> set s \<Longrightarrow> cstr (strcpy_field n s old) = s"
  by (simp add: strcpy_field_def cstr_append_NUL)

lemma NUL_strcpy_field: "NUL \<in> set (strcpy_field n s old)"
  by (simp add: strcpy_field_def)

lemma msg_field_at:
  assumes "buf = pre @ strcpy_field 32 s old @ post" "length pre = off" "length s < 32" "32 \<le> length old" "NUL \<notin> set s"
  shows "msg_field off buf = Some s"
  using assms by (simp add: msg_field_def length_strcpy_field cstr_strcpy_field NUL_strcpy_field)

lemma conn_req_decodes:
  assumes "client_ok c"
  shows "decodes_as (conn_req_bytes c) (request_of c)"
proof -
  note ok = assms[unfolded client_ok_def]
  let ?h = "[char_of MSG_P2P_CONN_REQ, NUL, NUL, NUL] :: char list"
  let ?f1 = "strcpy_field 32 (client_src c) (drop 4 (conn_junk c))"
  let ?f2 = "strcpy_field 32 (client_dst c) (drop 36 (conn_junk c))"
  let ?f3 = "strcpy_field 32 (password c) (drop 68 (conn_junk c))"
  have len: "length ?f1 = 32" "length ?f2 = 32" "length ?f3 = 32"
    using ok by (simp_all add: length_strcpy_field)
  have b: "conn_req_bytes c = ?h @ ?f1 @ ?f2 @ ?f3" by (simp add: conn_req_bytes_def)
  have "msg_field 4 (conn_req_bytes c) = Some (client_src c)"
    by (rule msg_field_at[where pre = ?h and old = "drop 4 (conn_junk c)" and post = "?f2 @ ?f3"]) (use ok in \<open>simp_all add: b\<close>)
  moreover have "msg_field 36 (conn_req_bytes c) = Some (client_dst c)"
    by (rule msg_field_at[where pre = "?h @ ?f1" and old = "drop 36 (conn_junk c)" and post = ?f3]) (use ok len in \<open>simp_all add: b\<close>)
  moreover have "msg_field 68 (conn_req_bytes c) = Some (password c)"
    by (rule msg_field_at[where pre = "?h @ ?f1 @ ?f2" and old = "drop 68 (conn_junk c)" and post = "[]"]) (use ok len in \<open>simp_all add: b\<close>)
  ultimately show ?thesis using len
    by (simp add: decodes_as_def decode_req_def request_of_def b)
qed

section \<open>The reply\<close>

text \<open>The packed reply as the server sends it, with its own old contents behind the strings.\<close>

definition be_bytes :: "nat \<Rightarrow> nat \<Rightarrow> char list" where
  "be_bytes n v = map (\<lambda>i. char_of (v div 256 ^ i)) (rev [0..<n])"

definition encode_reply :: "t_P2P_CONN_RPLY \<Rightarrow> char list \<Rightarrow> char list" where
  "encode_reply re old =
     be_bytes 4 (rply_msg_id re) @ strcpy_field 32 (rply_usr_src re) (drop 4 old) @
     strcpy_field 32 (rply_usr_dst re) (drop 36 old) @
     strcpy_field 40 (usr_src_ip re) (drop 68 old) @ be_bytes 2 (unat (usr_src_port re)) @
     strcpy_field 40 (usr_dst_ip re) (drop 110 old) @ be_bytes 2 (unat (usr_dst_port re))"

lemma le_value_be: "v < 256 ^ n \<Longrightarrow> le_value (rev (be_bytes n v)) = v"
proof -
  have "le_value (map (\<lambda>i. char_of (v div 256 ^ i)) [k..<k + m]) = v div 256 ^ k mod 256 ^ m" for k m
  proof (induction m arbitrary: k)
    case (Suc m)
    have "[k..<k + Suc m] = k # [Suc k..<Suc k + m]" by (simp add: upt_rec)
    then have "le_value (map (\<lambda>i. char_of (v div 256 ^ i)) [k..<k + Suc m]) =
        v div 256 ^ k mod 256 + 256 * (v div 256 ^ Suc k mod 256 ^ m)"
      using Suc.IH[of "Suc k"] by (simp add: le_value_def)
    also have "v div 256 ^ Suc k = v div 256 ^ k div 256" by (simp only: power_Suc2 div_mult2_eq)
    finally show ?case by (simp add: mod_mult2_eq add.commute)
  qed (simp add: le_value_def)
  from this[of 0 n] show "v < 256 ^ n \<Longrightarrow> ?thesis" by (simp add: be_bytes_def rev_map)
qed

lemma length_be_bytes [simp]: "length (be_bytes n v) = n"
  by (simp add: be_bytes_def)

definition reply_fits :: "t_P2P_CONN_RPLY \<Rightarrow> bool" where
  "reply_fits re \<longleftrightarrow> rply_msg_id re < 2 ^ 32 \<and> length (rply_usr_src re) < 32 \<and> length (rply_usr_dst re) < 32 \<and>
     length (usr_src_ip re) < 40 \<and> length (usr_dst_ip re) < 40 \<and> NUL \<notin> set (usr_dst_ip re)"

lemma encode_reply_parts:
  assumes "reply_fits re" "length old = 152"
  shows "length (encode_reply re old) = 152" "take 4 (encode_reply re old) = be_bytes 4 (rply_msg_id re)"
    "take 40 (drop 110 (encode_reply re old)) = strcpy_field 40 (usr_dst_ip re) (drop 110 old)"
    "take 2 (drop 150 (encode_reply re old)) = be_bytes 2 (unat (usr_dst_port re))"
proof -
  let ?f1 = "strcpy_field 32 (rply_usr_src re) (drop 4 old)" and ?f2 = "strcpy_field 32 (rply_usr_dst re) (drop 36 old)"
  let ?f3 = "strcpy_field 40 (usr_src_ip re) (drop 68 old)" and ?f4 = "strcpy_field 40 (usr_dst_ip re) (drop 110 old)"
  let ?h = "be_bytes 4 (rply_msg_id re)"
  let ?p1 = "be_bytes 2 (unat (usr_src_port re))" and ?p2 = "be_bytes 2 (unat (usr_dst_port re))"
  have len: "length ?f1 = 32" "length ?f2 = 32" "length ?f3 = 40" "length ?f4 = 40"
    using assms by (simp_all add: length_strcpy_field reply_fits_def)
  have e: "encode_reply re old = ?h @ ?f1 @ ?f2 @ ?f3 @ ?p1 @ ?f4 @ ?p2" by (simp add: encode_reply_def)
  show "length (encode_reply re old) = 152" "take 4 (encode_reply re old) = ?h"
    "take 40 (drop 110 (encode_reply re old)) = ?f4" "take 2 (drop 150 (encode_reply re old)) = ?p2"
    using len by (simp_all add: e)
qed

text \<open>What the client relies on in the 152 bytes of a reply.\<close>

definition wire_reply :: "t_P2P_CONN_RPLY \<Rightarrow> char list \<Rightarrow> bool" where
  "wire_reply re d \<longleftrightarrow> length d = 152 \<and> rply_msg_id re < 2 ^ 32 \<and> take 4 d = be_bytes 4 (rply_msg_id re) \<and>
     (rply_msg_id re = MSG_P2P_CONN_RESP_OK \<longrightarrow> NUL \<in> set (take 40 (drop 110 d)) \<and>
        cstr (take 40 (drop 110 d)) = usr_dst_ip re \<and> take 2 (drop 150 d) = be_bytes 2 (unat (usr_dst_port re)))"

lemma wire_encode_reply:
  assumes "reply_fits re" "length old = 152"
  shows "wire_reply re (encode_reply re old)"
  unfolding wire_reply_def encode_reply_parts[OF assms]
  using assms(1) by (simp add: reply_fits_def NUL_strcpy_field cstr_strcpy_field)

lemma wire_reply_exists:
  assumes "rply_msg_id re < 2 ^ 32" "rply_msg_id re = MSG_P2P_CONN_RESP_OK \<Longrightarrow> length (usr_dst_ip re) < 40 \<and> NUL \<notin> set (usr_dst_ip re)"
  shows "\<exists>d. wire_reply re d"
proof -
  let ?re = "re\<lparr>rply_usr_src := [], rply_usr_dst := [], usr_src_ip := [],
    usr_dst_ip := (if rply_msg_id re = MSG_P2P_CONN_RESP_OK then usr_dst_ip re else [])\<rparr>"
  have "wire_reply ?re (encode_reply ?re (replicate 152 NUL))"
    by (rule wire_encode_reply) (use assms in \<open>simp_all add: reply_fits_def\<close>)
  then have "wire_reply re (encode_reply ?re (replicate 152 NUL))" by (auto simp: wire_reply_def)
  then show ?thesis ..
qed

text \<open>A client that waits takes the peer's address from a positive reply of its server.\<close>

lemma handle_reply_wire:
  assumes "wire_reply re d" "length (reply_buf c) = 152"
  shows "\<exists>buf. length buf = 152 \<and> handle_reply inet_addr n (sockaddr_server c) d c = Some
    (if rply_msg_id re = MSG_P2P_CONN_RESP_OK
     then c\<lparr>reply_buf := buf, sockaddr_peer := make_sockaddr (inet_addr (usr_dst_ip re)) (usr_dst_port re),
            connected := True, phase := Polling\<rparr>
     else sleep_for_next n (c\<lparr>reply_buf := buf\<rparr>))"
proof -
  note w = assms(1)[unfolded wire_reply_def]
  define buf where "buf = ntohl_msg_id d"
  have d: "d \<noteq> []" and r: "recv_reply d (reply_buf c) = d" using w assms(2) by (auto simp: recv_reply_def)
  have b: "length buf = 152" "take 4 buf = rev (be_bytes 4 (rply_msg_id re))"
    "drop 110 buf = drop 110 d" "drop 150 buf = drop 150 d"
    using w by (simp_all add: buf_def ntohl_msg_id_def)
  have "le_value (rev (be_bytes 4 (rply_msg_id re))) = rply_msg_id re"
    using w by (intro le_value_be) simp
  then have msg: "le_value (take 4 buf) = rply_msg_id re" using b(2) by simp
  have port: "le_value (rev (be_bytes 2 (unat (usr_dst_port re)))) = unat (usr_dst_port re)"
    using unsigned_less[of "usr_dst_port re"] by (intro le_value_be) simp
  have "handle_reply inet_addr n (sockaddr_server c) d c =
    (if rply_msg_id re = MSG_P2P_CONN_RESP_OK then
       if NUL \<notin> set (take 40 (drop 110 buf)) then None
       else Some (c\<lparr>reply_buf := buf, sockaddr_peer := make_sockaddr (inet_addr (cstr (take 40 (drop 110 buf))))
              (of_nat (le_value (rev (take 2 (drop 150 buf))))), connected := True, phase := Polling\<rparr>)
     else Some (sleep_for_next n (c\<lparr>reply_buf := buf\<rparr>)))"
    using d by (simp add: handle_reply_def r addr_is_server_def sockaddr_equal_eq msg Let_def flip: buf_def)
  then show ?thesis using w b(1,3,4) port by (intro exI[of _ buf]) auto
qed

lemma connected_sleep: "n + k < 100 \<Longrightarrow> phase c = SleepNext n \<Longrightarrow>
    client_run inet_addr (replicate k Quiet) c = Some (c\<lparr>phase := SleepNext (n + k)\<rparr>)"
proof (induction k arbitrary: n c)
  case (Suc k)
  have "client_step inet_addr Quiet c = Some (c\<lparr>phase := SleepNext (n + 1)\<rparr>)"
    using Suc.prems by (simp add: client_step_def sleep_for_next_def)
  with Suc.IH[of "n + 1" "c\<lparr>phase := SleepNext (n + 1)\<rparr>"] Suc.prems show ?case by simp
qed simp

lemma client_run_append:
  "client_run inet_addr (es @ fs) c = Option.bind (client_run inet_addr es c) (client_run inet_addr fs)"
  by (induction es arbitrary: c) (auto split: Option.bind_split)

text \<open>After five seconds it asks again.\<close>

lemma sleep_and_ask:
  assumes "phase c = SleepNext 0"
  shows "client_run inet_addr (replicate 100 Quiet) c = Some (ask_server (c\<lparr>phase := SleepNext 99\<rparr>))"
proof -
  have "replicate 100 Quiet = replicate 99 Quiet @ [Quiet]" by (simp add: replicate_append_same flip: replicate_Suc)
  moreover have "client_step inet_addr Quiet (c\<lparr>phase := SleepNext 99\<rparr>) = Some (ask_server (c\<lparr>phase := SleepNext 99\<rparr>))"
    by (simp add: client_step_def sleep_for_next_def)
  ultimately show ?thesis using connected_sleep[of 0 99 c inet_addr] assms by (simp add: client_run_append)
qed

section \<open>Heart beats\<close>

lemma timer_proc_connected:
  assumes "connected c"
  shows "connected (timer_proc c) \<longleftrightarrow> heart_beat_miss_cnt c + 1 < 5"
    and "heart_beat_miss_cnt (timer_proc c) = heart_beat_miss_cnt c + 1"
    and "outbox (timer_proc c) = outbox c @ [(sockaddr_peer c, heart_beat_data c)]"
    and "sockaddr_peer (timer_proc c) = sockaddr_peer c" "heart_beat_data (timer_proc c) = heart_beat_data c"
    and "phase (timer_proc c) = phase c"
  using assms by (simp_all add: timer_proc_def snd_heart_beat_def send_to_peer_def Let_def)

lemma timer_proc_idle:
  assumes "\<not> connected c"
  shows "\<exists>cnt. timer_proc c = c\<lparr>timer_cnt := cnt\<rparr>"
  using assms by (simp add: timer_proc_def snd_heart_beat_def Let_def) blast

lemma ticks:
  assumes "connected c" "heart_beat_miss_cnt c + int k \<le> 5"
  shows "\<exists>c'. client_run inet_addr (replicate k Tick) c = Some c' \<and>
    (connected c' \<longleftrightarrow> k = 0 \<or> heart_beat_miss_cnt c + int k < 5) \<and>
    heart_beat_miss_cnt c' = heart_beat_miss_cnt c + int k \<and>
    outbox c' = outbox c @ replicate k (sockaddr_peer c, heart_beat_data c) \<and>
    sockaddr_peer c' = sockaddr_peer c \<and> heart_beat_data c' = heart_beat_data c \<and> phase c' = phase c"
  using assms
proof (induction k arbitrary: c)
  case (Suc k)
  note t = timer_proc_connected[OF Suc.prems(1)]
  have s: "client_step inet_addr Tick c = Some (timer_proc c)" by (simp add: client_step_def)
  show ?case
  proof (cases k)
    case 0
    with s t show ?thesis by simp
  next
    case k: (Suc k')
    with t(1) Suc.prems(2) have "connected (timer_proc c)" by simp
    from Suc.IH[OF this] t Suc.prems(2) s k show ?thesis by auto
  qed
qed simp

section \<open>Two clients and the server\<close>

lemma two_clients_registry:
  assumes "client_src ca = client_dst cb" "client_dst ca = client_src cb" "password ca = password cb"
    and "client_src ca \<noteq> client_src cb" "t2 - t1 \<le> gap" "t3 - t2 \<le> gap"
  shows "fst (registry_run [(request_of ca, aa, t1), (request_of cb, ab, t2), (request_of ca, aa, t3)] []) =
    [None, Some \<lparr>timestamp = t1, req = request_of ca, sockaddr_src = aa\<rparr>,
     Some \<lparr>timestamp = t2, req = request_of cb, sockaddr_src = ab\<rparr>]"
proof -
  let ?ra = "request_of ca" and ?rb = "request_of cb"
  let ?e1 = "\<lparr>timestamp = t1, req = ?ra, sockaddr_src = aa\<rparr>" and ?e2 = "\<lparr>timestamp = t2, req = ?rb, sockaddr_src = ab\<rparr>"
  have m: "\<not> req_match ?ra ?ra" "req_match ?ra ?rb" "req_match ?rb ?ra" "req_equal ?ra ?ra" "\<not> req_equal ?ra ?rb" "\<not> req_equal ?rb ?ra"
    using assms(1-4) by (auto simp: req_match_def req_equal_def request_of_def)
  have s1: "registry_step ?ra aa t1 [] = (None, [?e1])"
    using m(1) by (simp add: registry_step_def kept_reqs_def MAX_REQ_NUM_def)
  have s2: "registry_step ?rb ab t2 [?e1] = (Some ?e1, [?e1, ?e2])"
    using m assms(5) by (simp add: registry_step_def kept_reqs_def MAX_REQ_NUM_def)
  have s3: "fst (registry_step ?ra aa t3 [?e1, ?e2]) = Some ?e2"
    using m assms(6) by (simp add: registry_step_def kept_reqs_def)
  show ?thesis using s3 by (simp add: s1 s2 case_prod_beta)
qed

section \<open>Properties\<close>

text \<open>C13: Two clients that ask for each other meet through the server: the first is told that its peer is
  offline and asks again after a hundred sleeps of 50 ms, the second is connected at once, the first
  with its second request; each then has the address the other's requests came from.\<close>

theorem p2p_clients_meet:
  assumes "p2p_core st [] []" "length (conn_req st) = 100" "client_ok ca" "client_ok cb"
    and "client_src ca = client_dst cb" "client_dst ca = client_src cb" "password ca = password cb"
    and "client_src ca \<noteq> client_src cb" "phase ca = WaitData 0" "phase cb = WaitData 0"
    and "sin_family aa = AF_INET" "sin_family ab = AF_INET"
    and "inet_addr (get_ipstr aa) = sin_addr aa" "inet_addr (get_ipstr ab) = sin_addr ab"
    and "t2 - t1 \<le> gap" "t3 - t2 \<le> gap"
  shows "\<exists>r1 r2 r3 st'. main_loop [(conn_req_bytes ca, aa, t1), (conn_req_bytes cb, ab, t2), (conn_req_bytes ca, aa, t3)] st =
      Some ([r1, r2, r3], st') \<and>
    rply_msg_id r1 = MSG_P2P_CONN_RESP_DST_OFFLINE \<and> rply_msg_id r2 = MSG_P2P_CONN_RESP_OK \<and>
    rply_msg_id r3 = MSG_P2P_CONN_RESP_OK \<and> usr_dst_ip r2 = get_ipstr aa \<and> usr_dst_ip r3 = get_ipstr ab \<and>
    (\<forall>d1 d2 d3. wire_reply r1 d1 \<longrightarrow> wire_reply r2 d2 \<longrightarrow> wire_reply r3 d3 \<longrightarrow>
      (\<exists>ca1 ca2 cb1. client_run inet_addr (Datagram (sockaddr_server ca) d1 # replicate 100 Quiet) ca = Some ca1 \<and>
         outbox ca1 = outbox ca @ [(sockaddr_server ca, conn_req_bytes ca)] \<and>
         client_run inet_addr [Datagram (sockaddr_server ca) d3] ca1 = Some ca2 \<and> connected ca2 \<and> sockaddr_peer ca2 = ab \<and>
         client_run inet_addr [Datagram (sockaddr_server cb) d2] cb = Some cb1 \<and> connected cb1 \<and> sockaddr_peer cb1 = aa))"
proof -
  let ?ds = "[(conn_req_bytes ca, aa, t1), (conn_req_bytes cb, ab, t2), (conn_req_bytes ca, aa, t3)]"
  let ?rs = "[(request_of ca, aa, t1), (request_of cb, ab, t2), (request_of ca, aa, t3)]"
  have "datagrams ?ds ?rs" using conn_req_decodes[OF assms(3)] conn_req_decodes[OF assms(4)] by (simp add: datagrams_def)
  from main_loop_core[OF assms(1,2) this] obtain res st' where
    run: "main_loop ?ds st = Some (res, st')" "length res = 3" "list_all2 answers res (zip ?rs (fst (registry_run ?rs [])))"
    by (auto simp: registry_def)
  then obtain r1 r2 r3 where res: "res = [r1, r2, r3]" by (auto simp: length_Suc_conv eval_nat_numeral)
  have says: "rply_msg_id r1 = MSG_P2P_CONN_RESP_DST_OFFLINE" "rply_msg_id r2 = MSG_P2P_CONN_RESP_OK"
    "usr_dst_ip r2 = get_ipstr aa" "usr_dst_port r2 = sin_port aa" "rply_msg_id r3 = MSG_P2P_CONN_RESP_OK"
    "usr_dst_ip r3 = get_ipstr ab" "usr_dst_port r3 = sin_port ab"
    using run(3) unfolding res two_clients_registry[OF assms(5-8,15,16)]
    by (simp_all add: answers_single reply_says_def get_port_def)
  have addr: "make_sockaddr (inet_addr (get_ipstr aa)) (sin_port aa) = aa" "make_sockaddr (inet_addr (get_ipstr ab)) (sin_port ab) = ab"
    using assms(11-14) by (simp_all add: make_sockaddr_def)
  have ok: "length (reply_buf ca) = 152" "length (reply_buf cb) = 152" using assms(3,4) by (simp_all add: client_ok_def)
  have "\<exists>ca1 ca2 cb1. client_run inet_addr (Datagram (sockaddr_server ca) d1 # replicate 100 Quiet) ca = Some ca1 \<and>
         outbox ca1 = outbox ca @ [(sockaddr_server ca, conn_req_bytes ca)] \<and>
         client_run inet_addr [Datagram (sockaddr_server ca) d3] ca1 = Some ca2 \<and> connected ca2 \<and> sockaddr_peer ca2 = ab \<and>
         client_run inet_addr [Datagram (sockaddr_server cb) d2] cb = Some cb1 \<and> connected cb1 \<and> sockaddr_peer cb1 = aa"
    if w: "wire_reply r1 d1" "wire_reply r2 d2" "wire_reply r3 d3" for d1 d2 d3
  proof -
    have start: "client_step inet_addr (Datagram (sockaddr_server c) d) c = handle_reply inet_addr 0 (sockaddr_server c) d c"
      if "phase c = WaitData 0" for c d using that by (simp add: client_step_def wait_step_def)
    obtain b1 where b1: "length b1 = 152" "handle_reply inet_addr 0 (sockaddr_server ca) d1 ca = Some (sleep_for_next 0 (ca\<lparr>reply_buf := b1\<rparr>))"
      using handle_reply_wire[OF w(1) ok(1), of inet_addr 0] says(1)
      by (auto simp: MSG_P2P_CONN_RESP_OK_def MSG_P2P_CONN_RESP_DST_OFFLINE_def)
    let ?s = "ca\<lparr>reply_buf := b1, phase := SleepNext 0\<rparr>"
    let ?a = "ask_server (?s\<lparr>phase := SleepNext 99\<rparr>)"
    have r1: "client_run inet_addr (Datagram (sockaddr_server ca) d1 # replicate 100 Quiet) ca = Some ?a"
      using start[OF assms(9), of d1] b1(2) sleep_and_ask[of ?s inet_addr] by (simp add: sleep_for_next_def)
    have a: "phase ?a = WaitData 0" "sockaddr_server ?a = sockaddr_server ca" "length (reply_buf ?a) = 152"
      "outbox ?a = outbox ca @ [(sockaddr_server ca, conn_req_bytes ca)]"
      using b1(1) by (simp_all add: ask_server_def send_to_server_def conn_req_bytes_def)
    from handle_reply_wire[OF w(3) a(3), of inet_addr 0] says(5-7) addr(2) a(2) start[OF a(1), of d3]
    obtain ca2 where "client_run inet_addr [Datagram (sockaddr_server ca) d3] ?a = Some ca2" "connected ca2" "sockaddr_peer ca2 = ab"
      by auto
    moreover from handle_reply_wire[OF w(2) ok(2), of inet_addr 0] says(2-4) addr(1) start[OF assms(10), of d2]
    obtain cb1 where "client_run inet_addr [Datagram (sockaddr_server cb) d2] cb = Some cb1" "connected cb1" "sockaddr_peer cb1 = aa"
      by auto
    ultimately show ?thesis using r1 a(4) by blast
  qed
  with run(1) res says show ?thesis by blast
qed

definition a_client :: "string \<Rightarrow> string \<Rightarrow> p2p_client" where
  "a_client src dst = (client_init (replicate 100 NUL) (replicate 152 NUL))\<lparr>client_src := src, client_dst := dst,
     sockaddr_server := \<lparr>sin_family = AF_INET, sin_addr = 0x0A000009, sin_port = 8888\<rparr>, phase := WaitData 0\<rparr>"

definition ann_addr :: sockaddr_in where
  "ann_addr = \<lparr>sin_family = AF_INET, sin_addr = 0x0A000001, sin_port = 500\<rparr>"

definition bob_addr :: sockaddr_in where
  "bob_addr = \<lparr>sin_family = AF_INET, sin_addr = 0x0A000002, sin_port = 600\<rparr>"

lemma sample_addrs: "get_ipstr ann_addr = ''10.0.0.1''" "get_ipstr bob_addr = ''10.0.0.2''"
  unfolding ann_addr_def bob_addr_def by code_simp+

lemma a_client_ok: "client_ok (a_client ''ann'' ''bob'')" "client_ok (a_client ''bob'' ''ann'')"
  by (simp_all add: client_ok_def a_client_def client_init_def)

theorem p2p_clients_meet_witness:
  "\<exists>inet_addr st r1 r2 r3 st' d2 cb1. main_loop [(conn_req_bytes (a_client ''ann'' ''bob''), ann_addr, 7),
       (conn_req_bytes (a_client ''bob'' ''ann''), bob_addr, 9), (conn_req_bytes (a_client ''ann'' ''bob''), ann_addr, 12)] st =
       Some ([r1, r2, r3], st') \<and> wire_reply r2 d2 \<and>
     client_run inet_addr [Datagram (sockaddr_server (a_client ''bob'' ''ann'')) d2] (a_client ''bob'' ''ann'') = Some cb1 \<and>
     connected cb1 \<and> sockaddr_peer cb1 = ann_addr"
proof -
  let ?a = "a_client ''ann'' ''bob''" and ?b = "a_client ''bob'' ''ann''"
  let ?ds = "[(conn_req_bytes ?a, ann_addr, 7), (conn_req_bytes ?b, bob_addr, 9), (conn_req_bytes ?a, ann_addr, 12)]"
  let ?inet = "\<lambda>s. if s = ''10.0.0.1'' then 0x0A000001 else 0x0A000002 :: u32"
  obtain st where st: "p2p_core st [] []" "length (conn_req st) = 100" using p2p_states by blast
  have f: "client_src ?a = client_dst ?b" "client_dst ?a = client_src ?b" "password ?a = password ?b"
    "client_src ?a \<noteq> client_src ?b" "phase ?a = WaitData 0" "phase ?b = WaitData 0"
    by (simp_all add: a_client_def client_init_def)
  have g: "sin_family ann_addr = AF_INET" "sin_family bob_addr = AF_INET"
    "?inet (get_ipstr ann_addr) = sin_addr ann_addr" "?inet (get_ipstr bob_addr) = sin_addr bob_addr"
    unfolding sample_addrs by (simp_all add: ann_addr_def bob_addr_def)
  from p2p_clients_meet[OF st a_client_ok f g, of 9 7 12] obtain r1 r2 r3 st' where
    m: "main_loop ?ds st = Some ([r1, r2, r3], st')" "rply_msg_id r1 = MSG_P2P_CONN_RESP_DST_OFFLINE"
      "rply_msg_id r2 = MSG_P2P_CONN_RESP_OK" "rply_msg_id r3 = MSG_P2P_CONN_RESP_OK"
      "usr_dst_ip r2 = get_ipstr ann_addr" "usr_dst_ip r3 = get_ipstr bob_addr"
    and all: "\<And>d1 d2 d3. wire_reply r1 d1 \<Longrightarrow> wire_reply r2 d2 \<Longrightarrow> wire_reply r3 d3 \<Longrightarrow>
      \<exists>cb1. client_run ?inet [Datagram (sockaddr_server ?b) d2] ?b = Some cb1 \<and> connected cb1 \<and> sockaddr_peer cb1 = ann_addr"
    unfolding gap_def by simp blast
  have "rply_msg_id r1 < 2 ^ 32" "rply_msg_id r1 \<noteq> MSG_P2P_CONN_RESP_OK" "MSG_P2P_CONN_RESP_OK < 2 ^ 32"
    using m(2) by (simp_all add: MSG_P2P_CONN_RESP_OK_def MSG_P2P_CONN_RESP_DST_OFFLINE_def)
  then obtain d1 d2 d3 where d: "wire_reply r1 d1" "wire_reply r2 d2" "wire_reply r3 d3"
    using wire_reply_exists[of r1] wire_reply_exists[of r2] wire_reply_exists[of r3] m sample_addrs by auto
  from all[OF d] m(1) d(2) show ?thesis by blast
qed

text \<open>While it hears nothing from its peer, a connected client sends a heart beat at every tick of the
  timer, and gives the connection up with the one that brings the count of misses to five; a
  datagram from the peer sets the count to zero.\<close>

theorem p2p_heart_beat_timeout:
  assumes "connected c" "phase c = Running" "heart_beat_miss_cnt c + int k \<le> 5" "0 < k"
  shows "\<exists>c'. client_run inet_addr (replicate k Tick) c = Some c' \<and>
    (connected c' \<longleftrightarrow> heart_beat_miss_cnt c + int k < 5) \<and>
    outbox c' = outbox c @ replicate k (sockaddr_peer c, heart_beat_data c) \<and>
    (connected c' \<and> dgram \<noteq> [] \<longrightarrow>
       client_run inet_addr (replicate k Tick @ [Datagram (sockaddr_peer c) dgram]) c = Some (c'\<lparr>heart_beat_miss_cnt := 0\<rparr>))"
proof -
  from ticks[OF assms(1,3), of inet_addr] assms(4) obtain c' where
    c': "client_run inet_addr (replicate k Tick) c = Some c'" "connected c' \<longleftrightarrow> heart_beat_miss_cnt c + int k < 5"
      "outbox c' = outbox c @ replicate k (sockaddr_peer c, heart_beat_data c)" "sockaddr_peer c' = sockaddr_peer c"
      "phase c' = Running" using assms(2) by auto
  have "c'\<lparr>phase := Running\<rparr> = c'" using c'(5) by simp
  then have "client_step inet_addr (Datagram (sockaddr_peer c) dgram) c' = Some (c'\<lparr>heart_beat_miss_cnt := 0\<rparr>)"
    if "connected c'" "dgram \<noteq> []"
    using that c'(4,5) by (simp add: client_step_def poll_step_def addr_is_peer_def sockaddr_equal_eq Let_def)
  with c' show ?thesis by (auto simp: client_run_append)
qed

theorem p2p_heart_beat_timeout_witness:
  "\<exists>c'. client_run (\<lambda>_. 0) (replicate 2 Tick) ((a_client ''ann'' ''bob'')\<lparr>connected := True, heart_beat_miss_cnt := 3, phase := Running\<rparr>) = Some c' \<and>
     \<not> connected c' \<and> length (outbox c') = 2"
proof -
  let ?c = "(a_client ''ann'' ''bob'')\<lparr>connected := True, heart_beat_miss_cnt := 3, phase := Running\<rparr>"
  from p2p_heart_beat_timeout[of ?c 2 "\<lambda>_. 0" "[]"] obtain c' where
    "client_run (\<lambda>_. 0) (replicate 2 Tick) ?c = Some c'" "\<not> connected c'" "outbox c' = outbox ?c @ replicate 2 (sockaddr_peer ?c, heart_beat_data ?c)"
    by auto
  then show ?thesis by (intro exI[of _ c']) (simp add: a_client_def client_init_def)
qed

text \<open>The count of misses is not reset when the server answers: a client that lost its peer and is
  connected again gives the connection up with the next tick, unless the peer's heart beat comes
  first.\<close>

theorem p2p_reconnect_dropped:
  assumes "connected c" "phase c = Running" "heart_beat_miss_cnt c + int k = 5" "0 < k" "length (reply_buf c) = 152"
    and "wire_reply re d" "rply_msg_id re = MSG_P2P_CONN_RESP_OK"
  shows "\<exists>c1 c2. client_run inet_addr (replicate k Tick @ [Datagram (sockaddr_server c) d]) c = Some c1 \<and> connected c1 \<and>
    client_step inet_addr Tick c1 = Some c2 \<and> \<not> connected c2"
proof -
  have keep: "reply_buf (timer_proc x) = reply_buf x \<and> sockaddr_server (timer_proc x) = sockaddr_server x" for x
    by (simp add: timer_proc_def snd_heart_beat_def send_to_peer_def Let_def)
  have same: "client_run inet_addr (replicate n Tick) x = Some y \<Longrightarrow>
      reply_buf y = reply_buf x \<and> sockaddr_server y = sockaddr_server x" for n x y
    by (induction n arbitrary: x) (auto simp: client_step_def keep Option.bind_eq_Some_conv)
  from ticks[OF assms(1), of k inet_addr] assms(3,4) obtain c' where
    c': "client_run inet_addr (replicate k Tick) c = Some c'" "\<not> connected c'" "heart_beat_miss_cnt c' = 5" "phase c' = Running"
    using assms(2) by auto
  note s = same[OF c'(1)]
  let ?a = "ask_server c'"
  have a: "length (reply_buf ?a) = 152" "sockaddr_server ?a = sockaddr_server c" "heart_beat_miss_cnt ?a = 5"
    using s assms(5) c'(3) by (simp_all add: ask_server_def send_to_server_def)
  from handle_reply_wire[OF assms(6) a(1), of inet_addr 0] assms(7) a(2) obtain b where
    "handle_reply inet_addr 0 (sockaddr_server c) d ?a =
      Some (?a\<lparr>reply_buf := b, sockaddr_peer := make_sockaddr (inet_addr (usr_dst_ip re)) (usr_dst_port re),
        connected := True, phase := Polling\<rparr>)" (is "_ = Some ?c1") by auto
  then have "client_step inet_addr (Datagram (sockaddr_server c) d) c' = Some ?c1"
    using c'(2,4) by (simp add: client_step_def wait_step_def)
  then have "client_run inet_addr (replicate k Tick @ [Datagram (sockaddr_server c) d]) c = Some ?c1"
    using c'(1) by (simp add: client_run_append)
  moreover have "connected ?c1" by simp
  moreover have "\<not> connected (timer_proc ?c1)" using a(3) by (subst timer_proc_connected(1)) simp_all
  ultimately show ?thesis by (intro exI[of _ ?c1] exI[of _ "timer_proc ?c1"]) (simp add: client_step_def)
qed

definition ok_reply :: t_P2P_CONN_RPLY where
  "ok_reply = \<lparr>rply_msg_id = MSG_P2P_CONN_RESP_OK, rply_usr_src = ''ann'', rply_usr_dst = ''bob'', usr_src_ip = ''10.0.0.1'',
     usr_src_port = 500, usr_dst_ip = ''10.0.0.2'', usr_dst_port = 600\<rparr>"

theorem p2p_reconnect_dropped_witness:
  "\<exists>d c1 c2. client_run (\<lambda>_. 0x0A000002) (replicate 1 Tick @ [Datagram (sockaddr_server (a_client ''ann'' ''bob'')) d])
       ((a_client ''ann'' ''bob'')\<lparr>connected := True, heart_beat_miss_cnt := 4, phase := Running\<rparr>) = Some c1 \<and> connected c1 \<and>
     client_step (\<lambda>_. 0x0A000002) Tick c1 = Some c2 \<and> \<not> connected c2"
proof -
  let ?c = "(a_client ''ann'' ''bob'')\<lparr>connected := True, heart_beat_miss_cnt := 4, phase := Running\<rparr>"
  have "wire_reply ok_reply (encode_reply ok_reply (replicate 152 NUL))"
    by (rule wire_encode_reply) (simp_all add: ok_reply_def reply_fits_def MSG_P2P_CONN_RESP_OK_def)
  from p2p_reconnect_dropped[OF _ _ _ _ _ this, of ?c 1 "\<lambda>_. 0x0A000002"] show ?thesis
    by (auto simp: a_client_def client_init_def ok_reply_def)
qed

text \<open>The users are never missed: without \<open>--from\<close> and \<open>--to\<close> the client runs for two empty names.
  Names that the buffers for the users hold can overflow the one for the heart beat.\<close>

theorem p2p_client_users:
  assumes "length f < 32" "length t < 32"
  shows "(\<exists>c. client_main inet_addr [prog] (client_init junk rbuf) = Some (Inr c) \<and> client_src c = [] \<and> client_dst c = []) \<and>
    (client_main inet_addr [prog, ''--from='' @ f, ''--to='' @ t] (client_init junk rbuf) = None \<longleftrightarrow>
       50 \<le> length f + length t)"
proof -
  let ?pas = "[(our_options ! 2, Some f), (our_options ! 3, Some t)]"
  have "options_ok our_options" by (simp add: options_ok_def our_options_def)
  then have "getopt_long [] our_options (prog # map (\<lambda>(p, arg). long_word p arg) ?pas) = map (\<lambda>(p, arg). (opt_val p, arg)) ?pas"
    by (rule getopt_long_words) (simp add: our_options_def arg_fits_def)
  then have "getopt_long [] our_options [prog, ''--from='' @ f, ''--to='' @ t] = [(LONG_OPT_ID_FROM, Some f), (LONG_OPT_ID_TO, Some t)]"
    by (simp add: our_options_def long_word_def)
  then have "parse_args (getopt_long [] our_options [prog, ''--from='' @ f, ''--to='' @ t]) (client_init junk rbuf) =
      Some (Inr ((client_init junk rbuf)\<lparr>client_src := f, client_dst := t\<rparr>))"
    using assms by (simp add: strcpy_into_def LONG_OPT_ID_SERVER_IP_def LONG_OPT_ID_SERVER_PORT_def
        LONG_OPT_ID_FROM_def LONG_OPT_ID_TO_def)
  moreover have "getopt_long [] our_options [prog] = []" by (simp add: getopt_long_def)
  ultimately show ?thesis by (simp add: client_main_def client_init_def Let_def)
qed

theorem p2p_client_users_witness:
  "client_main (\<lambda>_. 0) [''p2p_client'', ''--from='' @ replicate 25 (CHR ''a''), ''--to='' @ replicate 25 (CHR ''b'')]
     (client_init (replicate 100 NUL) (replicate 152 NUL)) = None"
  using p2p_client_users[of "replicate 25 (CHR ''a'')" "replicate 25 (CHR ''b'')" "\<lambda>_. 0" "''p2p_client''"
    "replicate 100 NUL" "replicate 152 NUL"] by simp

end
