(* ===== verification/LogFile.thy ===== *)
theory LogFile
  imports CLib
begin

text \<open>
  The log file of \<open>libs/app_utils/src/log.c\<close>. Files are a map from names to contents;
  \<open>stamp\<close> is what \<open>strftime\<close> makes of the time of the call, for the name of a file and for
  the head of a line. The outcomes of \<open>open\<close>, \<open>fstat\<close> and \<open>write\<close> are arguments. \<open>Inl ()\<close> is
  \<open>exit(1)\<close>; \<open>None\<close> is an access outside a buffer.
\<close>

section \<open>State\<close>

record log_state =
  log_file_name :: string
  old_log_file_name :: string
  max_log_file_size :: int
  log_inited :: bool
  fd_log_file :: "string option"
  disk :: "string \<rightharpoonup> string"

record log_io =
  stat_ok :: bool
  open_ok :: bool
  written :: "nat option"

section \<open>The code\<close>

text \<open>The name buffer holds 32 characters more than the base name; a stamp has at most 31.\<close>

definition new_log_file_name :: "string \<Rightarrow> log_state \<Rightarrow> log_state option" where
  "new_log_file_name stamp st =
     (if 32 \<le> length stamp then None else Some (st\<lparr>log_file_name := old_log_file_name st @ stamp\<rparr>))"

text \<open>\<open>open\<close> with \<open>O_CREAT|O_WRONLY|O_APPEND|O_TRUNC\<close>.\<close>

definition open_log :: "log_io \<Rightarrow> log_state \<Rightarrow> (unit + unit) \<times> log_state" where
  "open_log io st =
     (if open_ok io
      then (Inr (), st\<lparr>fd_log_file := Some (log_file_name st), disk := (disk st)(log_file_name st \<mapsto> [])\<rparr>)
      else (Inl (), st\<lparr>fd_log_file := None\<rparr>))"

definition init_log :: "log_io \<Rightarrow> bool \<Rightarrow> string \<Rightarrow> string \<Rightarrow> int \<Rightarrow> log_state \<Rightarrow> ((unit + int) \<times> log_state) option" where
  "init_log io mem_ok stamp file_name file_size st =
     (if log_inited st then Some (Inr 0, st)
      else let st1 = st\<lparr>max_log_file_size := file_size\<rparr>
           in if \<not> mem_ok then Some (Inl (), st1)
              else do {
                st2 \<leftarrow> new_log_file_name stamp (st1\<lparr>old_log_file_name := file_name\<rparr>);
                case open_log io st2 of
                  (Inl _, st3) \<Rightarrow> Some (Inl (), st3)
                | (Inr _, st3) \<Rightarrow> Some (Inr 0, st3\<lparr>log_inited := True\<rparr>)
              })"

definition get_file_size :: "log_io \<Rightarrow> log_state \<Rightarrow> unit + nat" where
  "get_file_size io st =
     (if \<not> stat_ok io then Inl ()
      else case fd_log_file st of
        None \<Rightarrow> Inl ()
      | Some name \<Rightarrow> Inr (case disk st name of None \<Rightarrow> 0 | Some s \<Rightarrow> length s))"

definition close_file :: "log_state \<Rightarrow> log_state" where
  "close_file st = st\<lparr>fd_log_file := None\<rparr>"

definition append_log :: "log_io \<Rightarrow> string \<Rightarrow> log_state \<Rightarrow> (unit + int) \<times> log_state" where
  "append_log io buf st =
     (case (fd_log_file st, written io) of
        (Some name, Some k) \<Rightarrow>
          (Inr 0, st\<lparr>disk := (disk st)(name \<mapsto>
             (case disk st name of None \<Rightarrow> [] | Some s \<Rightarrow> s) @ take k buf)\<rparr>)
      | _ \<Rightarrow> (Inl (), st))"

definition write_file :: "log_io \<Rightarrow> string \<Rightarrow> string \<Rightarrow> log_state \<Rightarrow> ((unit + int) \<times> log_state) option" where
  "write_file io stamp buf st =
     (if \<not> log_inited st then Some (Inr (-1), st)
      else case get_file_size io st of
        Inl _ \<Rightarrow> Some (Inl (), st)
      | Inr file_size \<Rightarrow>
          if int file_size \<ge> max_log_file_size st then do {
            st1 \<leftarrow> new_log_file_name stamp (close_file st);
            case open_log io st1 of
              (Inl _, st2) \<Rightarrow> Some (Inl (), st2)
            | (Inr _, st2) \<Rightarrow> Some (append_log io buf st2)
          } else Some (append_log io buf st))"

text \<open>The line buffer has 288 cells. \<open>vsnprintf\<close> returns the length of the whole text, and the
  line feed and the NUL are stored behind it.\<close>

definition write_log :: "log_io \<Rightarrow> string \<Rightarrow> string \<Rightarrow> string \<Rightarrow> log_state \<Rightarrow> ((unit + int) \<times> log_state) option" where
  "write_log io file_stamp line_stamp msg st =
     (let len1 = length line_stamp; len2 = length msg
      in if len1 + len2 + 1 \<ge> 288 then None
         else write_file io file_stamp (line_stamp @ msg @ [LF]) st)"

section \<open>Lemmas\<close>

definition log_ok :: "log_state \<Rightarrow> bool" where
  "log_ok st \<longleftrightarrow> log_inited st \<and> fd_log_file st = Some (log_file_name st) \<and>
     (\<exists>s. disk st (log_file_name st) = Some s)"

definition content :: "log_state \<Rightarrow> string" where
  "content st = (case disk st (log_file_name st) of None \<Rightarrow> [] | Some s \<Rightarrow> s)"

fun write_logs :: "(string \<times> string \<times> string) list \<Rightarrow> log_state \<Rightarrow> log_state option" where
  "write_logs [] st = Some st"
| "write_logs ((fs, ls, msg) # ms) st =
     (case write_log \<lparr>stat_ok = True, open_ok = True, written = Some 288\<rparr> fs ls msg st of
        Some (Inr _, st1) \<Rightarrow> write_logs ms st1 | _ \<Rightarrow> None)"

lemma write_log_step:
  assumes "log_ok st" and "length ls + length msg + 1 < 288" and "length fs < 32"
  defines "io \<equiv> \<lparr>stat_ok = True, open_ok = True, written = Some 288\<rparr>"
  shows "\<exists>st'. write_log io fs ls msg st = Some (Inr 0, st') \<and> log_ok st' \<and>
    max_log_file_size st' = max_log_file_size st \<and> old_log_file_name st' = old_log_file_name st \<and>
    (if int (length (content st)) < max_log_file_size st
     then log_file_name st' = log_file_name st \<and> disk st' = (disk st)(log_file_name st \<mapsto> content st @ ls @ msg @ [LF])
     else log_file_name st' = old_log_file_name st @ fs \<and>
          disk st' = (disk st)(old_log_file_name st @ fs \<mapsto> ls @ msg @ [LF]))"
proof -
  obtain s where s: "disk st (log_file_name st) = Some s" using assms(1) by (auto simp: log_ok_def)
  have t: "take 288 (ls @ msg @ [LF]) = ls @ msg @ [LF]" using assms(2) by simp
  show ?thesis
    using assms(1-3) s t
    by (auto simp: write_log_def write_file_def get_file_size_def append_log_def open_log_def close_file_def
        new_log_file_name_def log_ok_def content_def io_def Let_def)
qed

section \<open>Properties\<close>

text \<open>What a sequence of lines makes of the current file and the files: a line goes behind what the current file
  holds as long as that is below the limit, and else becomes all there is of the file named after the time.\<close>

fun log_lines :: "int \<Rightarrow> string \<Rightarrow> (string \<times> string \<times> string) list \<Rightarrow>
    string \<times> (string \<rightharpoonup> string) \<Rightarrow> string \<times> (string \<rightharpoonup> string)" where
  "log_lines limit base [] (name, d) = (name, d)"
| "log_lines limit base ((fs, ls, msg) # ms) (name, d) =
     (case d name of
        None \<Rightarrow> (name, d)
      | Some old \<Rightarrow>
          if int (length old) < limit then log_lines limit base ms (name, d(name \<mapsto> old @ ls @ msg @ [LF]))
          else log_lines limit base ms (base @ fs, d(base @ fs \<mapsto> ls @ msg @ [LF])))"


definition fresh_log :: log_state where
  "fresh_log = \<lparr>log_file_name = ''a(1).log'', old_log_file_name = ''a'', max_log_file_size = 4,
     log_inited = True, fd_log_file = Some ''a(1).log'', disk = [''a(1).log'' \<mapsto> ''old'']\<rparr>"

lemma fresh_log_ok: "log_ok fresh_log" "content fresh_log = ''old''" "max_log_file_size fresh_log = 4"
  "old_log_file_name fresh_log = ''a''" "log_file_name fresh_log = ''a(1).log''" "ran (disk fresh_log) = {''old''}"
  by (simp_all add: fresh_log_def log_ok_def content_def)


text \<open>A rotation in the same second as the last one opens the same name again and truncates
  it: everything in the full file is lost. A text too long for the line buffer is not cut: the
  line feed is stored outside it.\<close>

theorem log_rotation_loses:
  assumes "log_ok st" and "max_log_file_size st \<le> int (length (content st))"
    and "log_file_name st = old_log_file_name st @ fs" and "length fs < 32"
  shows "(length ls + length msg + 1 < 288 \<longrightarrow>
      (\<exists>st'. write_log \<lparr>stat_ok = True, open_ok = True, written = Some 288\<rparr> fs ls msg st = Some (Inr 0, st') \<and>
         log_file_name st' = log_file_name st \<and> content st' = ls @ msg @ [LF])) \<and>
    (288 \<le> length ls + length msg + 1 \<longrightarrow> (\<forall>io. write_log io fs ls msg st = None))"
proof -
  have "\<exists>st'. write_log \<lparr>stat_ok = True, open_ok = True, written = Some 288\<rparr> fs ls msg st = Some (Inr 0, st') \<and>
         log_file_name st' = log_file_name st \<and> content st' = ls @ msg @ [LF]"
    if "length ls + length msg + 1 < 288"
  proof -
    from write_log_step[OF assms(1) that assms(4)] assms(2) obtain st' where
      "write_log \<lparr>stat_ok = True, open_ok = True, written = Some 288\<rparr> fs ls msg st = Some (Inr 0, st')"
      "log_file_name st' = old_log_file_name st @ fs"
      "disk st' = (disk st)(old_log_file_name st @ fs \<mapsto> ls @ msg @ [LF])" by auto
    with assms(3) show ?thesis by (auto simp: content_def)
  qed
  then show ?thesis by (simp add: write_log_def)
qed

lemma log_rotation_loses_witness:
  "\<exists>st'. write_log \<lparr>stat_ok = True, open_ok = True, written = Some 288\<rparr> ''(1).log'' ''[t]:'' ''x''
      (fresh_log\<lparr>max_log_file_size := 3\<rparr>) = Some (Inr 0, st') \<and> content st' = ''[t]:x'' @ [LF]"
proof -
  have "log_ok (fresh_log\<lparr>max_log_file_size := 3\<rparr>)" "content (fresh_log\<lparr>max_log_file_size := 3\<rparr>) = ''old''"
    using fresh_log_ok(1,2) by (simp_all add: log_ok_def content_def)
  with log_rotation_loses[of "fresh_log\<lparr>max_log_file_size := 3\<rparr>" "''(1).log''" "''[t]:''" "''x''"]
  show ?thesis by (auto simp: fresh_log_ok)
qed

end
