(* ===== verification/Telnetd.thy ===== *)
theory Telnetd
  imports StringUtils CLib
begin

text \<open>
  The debug shell over telnet of \<open>libs/app_utils/src/telnetd4dbg.c\<close>: the line editor with
  its history, the login, the command loop, and the two filters between the socket and the
  terminal. The bytes that arrive on the terminal are a list; when it is used up the
  50 ms wait of \<open>read_input\<close> runs out. What the shell writes to the terminal is collected in
  \<open>screen\<close>. \<open>None\<close> is an access outside a buffer, or a call that still waits for bytes.
\<close>

section \<open>The line editor\<close>

record telnetd =
  shell_buf :: "char list"
  shell_buf_cur_len :: nat
  histotry_cmds :: "string list"
  cur_histotry_cmds_roll_idx :: nat
  is_password :: bool
  is_login :: bool
  screen :: string

definition MAX_HISTORY_CMD_NUM :: nat where "MAX_HISTORY_CMD_NUM = 128"
definition DEBUG_SHELL_HINT :: string where "DEBUG_SHELL_HINT = ''[debug_shell]#''"

abbreviation BS :: char where "BS \<equiv> CHR 0x08"
abbreviation DEL :: char where "DEL \<equiv> CHR 0x7F"
abbreviation ESC :: char where "ESC \<equiv> CHR 0x1B"

definition put :: "string \<Rightarrow> telnetd \<Rightarrow> telnetd" where
  "put s st = st\<lparr>screen := screen st @ s\<rparr>"

text \<open>The list holds the first \<open>cur_histotry_cmds_num\<close> entries; an entry has 512 cells.\<close>

definition update_histotry_cmds :: "string \<Rightarrow> telnetd \<Rightarrow> telnetd option" where
  "update_histotry_cmds cmd st =
     (if 512 \<le> length cmd then None
      else let kept = (if length (histotry_cmds st) = MAX_HISTORY_CMD_NUM
                       then tl (histotry_cmds st) else histotry_cmds st);
               cmds = kept @ [cmd]
           in Some (st\<lparr>histotry_cmds := cmds, cur_histotry_cmds_roll_idx := length cmds\<rparr>))"

definition prompt :: "telnetd \<Rightarrow> string" where
  "prompt st = CR # (if \<not> is_login st then DEBUG_SHELL_HINT
     else if \<not> is_password st then ''login:'' else ''password:'')"

text \<open>The asterisks of a password come from a literal of 32 characters and its NUL.\<close>

definition refresh_shell_buf_display :: "telnetd \<Rightarrow> telnetd option" where
  "refresh_shell_buf_display st =
     (let st1 = put (prompt st) st
      in if \<not> is_password st1 then Some (put (take (shell_buf_cur_len st1) (shell_buf st1)) st1)
         else if shell_buf_cur_len st1 \<le> 33
              then Some (put (take (shell_buf_cur_len st1) (replicate 32 (CHR ''*'') @ [NUL])) st1)
              else None)"

definition back_input :: "nat \<Rightarrow> telnetd \<Rightarrow> telnetd option" where
  "back_input nr_back_step st =
     (let st1 = put (prompt st @ replicate (shell_buf_cur_len st) (CHR '' '')) st
      in refresh_shell_buf_display (st1\<lparr>shell_buf_cur_len := shell_buf_cur_len st1 - nr_back_step\<rparr>))"

text \<open>\<open>strcpy(shell_buf, name)\<close> and what the two history functions do after it.\<close>

definition show_history :: "telnetd \<Rightarrow> telnetd option" where
  "show_history st =
     (let name = histotry_cmds st ! cur_histotry_cmds_roll_idx st
      in if length (shell_buf st) \<le> length name then None
         else do {
           let st1 = st\<lparr>shell_buf := name @ NUL # drop (length name + 1) (shell_buf st)\<rparr>;
           st2 \<leftarrow> (if length name < shell_buf_cur_len st1
                   then back_input (shell_buf_cur_len st1 - length name) st1 else Some st1);
           refresh_shell_buf_display (st2\<lparr>shell_buf_cur_len := length name\<rparr>)
         })"

definition history_cmd_roll_prev :: "telnetd \<Rightarrow> telnetd option" where
  "history_cmd_roll_prev st =
     (if length (histotry_cmds st) > 0 \<and> cur_histotry_cmds_roll_idx st > 0
      then show_history (st\<lparr>cur_histotry_cmds_roll_idx := cur_histotry_cmds_roll_idx st - 1\<rparr>)
      else Some st)"

definition history_cmd_roll_next :: "telnetd \<Rightarrow> telnetd option" where
  "history_cmd_roll_next st =
     (if length (histotry_cmds st) > 0 \<and> cur_histotry_cmds_roll_idx st < length (histotry_cmds st) - 1
      then show_history (st\<lparr>cur_histotry_cmds_roll_idx := cur_histotry_cmds_roll_idx st + 1\<rparr>)
      else Some st)"

definition roll_history :: "char \<Rightarrow> char \<Rightarrow> telnetd \<Rightarrow> telnetd option" where
  "roll_history c1 c2 st =
     (if c1 = CHR 0x5B \<and> c2 = CHR 0x41 then history_cmd_roll_prev st
      else if c1 = CHR 0x5B \<and> c2 = CHR 0x42 then history_cmd_roll_next st
      else Some st)"

definition type_char :: "char \<Rightarrow> telnetd \<Rightarrow> telnetd option" where
  "type_char c st = do {
     buf \<leftarrow> store_at (shell_buf_cur_len st) c (shell_buf st);
     let st1 = st\<lparr>shell_buf := buf, shell_buf_cur_len := shell_buf_cur_len st + 1\<rparr>;
     Some (put [if is_password st then CHR ''*'' else c] st1)
   }"

text \<open>The tests of \<open>read_input\<close> on a byte, in their order.\<close>

datatype key = Ignore | Back | Escape | Enter | Printable

definition key_kind :: "char \<Rightarrow> nat \<Rightarrow> key" where
  "key_kind c cur_len =
     (if c = NUL \<or> c = LF then Ignore
      else if (c = BS \<or> c = DEL) \<and> cur_len > 0 then Back
      else if c = ESC then Escape
      else if c = CR then Enter
      else if c \<noteq> CHR '' '' \<and> \<not> isgraph c then Ignore
      else Printable)"

text \<open>\<open>read_input\<close>: the return value, and the bytes not read.\<close>

fun read_input :: "char list \<Rightarrow> telnetd \<Rightarrow> (int \<times> telnetd \<times> char list) option" where
  "read_input [] st = Some (0, st, [])"
| "read_input (c # s) st =
     (case key_kind c (shell_buf_cur_len st) of
        Ignore \<Rightarrow> read_input s st
      | Back \<Rightarrow> (case back_input 1 st of None \<Rightarrow> None | Some st1 \<Rightarrow> read_input s st1)
      | Escape \<Rightarrow>
          (case s of
             c1 # c2 # s' \<Rightarrow>
               (case roll_history c1 c2 st of None \<Rightarrow> None | Some st1 \<Rightarrow> read_input s' st1)
           | _ \<Rightarrow> None)
      | Enter \<Rightarrow>
          let st1 = put [LF] st
          in (case store_at (shell_buf_cur_len st1) NUL (shell_buf st1) of
                None \<Rightarrow> None | Some buf \<Rightarrow> Some (1, st1\<lparr>shell_buf := buf\<rparr>, s))
      | Printable \<Rightarrow> (case type_char c st of None \<Rightarrow> None | Some st1 \<Rightarrow> read_input s st1))"

lemma read_input_consumes:
  "read_input s st = Some (r, st', s') \<Longrightarrow> length s' + (if r = 1 then 1 else 0) \<le> length s"
proof (induction s st arbitrary: r st' s' rule: read_input.induct)
  case (2 c s st)
  then show ?case
    by (cases "key_kind c (shell_buf_cur_len st)")
      (fastforce split: option.splits list.splits simp: Let_def)+
qed simp

section \<open>Login and the command loop\<close>

text \<open>\<open>memcpy(name, shell_buf, 15)\<close> into 16 zeroed cells.\<close>

definition name15 :: "telnetd \<Rightarrow> string" where
  "name15 st = cstr (take 15 (shell_buf st) @ [NUL])"

function login_auth :: "char list \<Rightarrow> telnetd \<Rightarrow> (int \<times> telnetd \<times> char list) option" where
  "login_auth s st =
     (let st1 = put ''login:'' (st\<lparr>is_login := True, is_password := False\<rparr>)
      in case read_input s st1 of
           None \<Rightarrow> None
         | Some (r, st2, s2) \<Rightarrow>
             if r \<noteq> 1 then None
             else let user_name = name15 st2;
                      st3 = put ''password:'' (st2\<lparr>shell_buf_cur_len := 0\<rparr>)
                  in (case read_input s2 (st3\<lparr>is_password := True\<rparr>) of
                        None \<Rightarrow> None
                      | Some (r2, st4, s4) \<Rightarrow>
                          if r2 \<noteq> 1 then None
                          else let password = name15 st4;
                                   st5 = st4\<lparr>shell_buf_cur_len := 0\<rparr>
                               in if user_name = ''admin'' \<and> user_name = ''admin''
                                  then Some (0, put (''login success'' @ [LF]) st5, s4)
                                  else login_auth s4 (put (''username or password wrong'' @ [LF]) st5)))"
  by pat_completeness auto
termination
  by (relation "measure (length \<circ> fst)") (auto dest!: read_input_consumes)

declare login_auth.simps [simp del]

definition print_hint :: "telnetd \<Rightarrow> telnetd" where
  "print_hint st = put DEBUG_SHELL_HINT st"

text \<open>The loop of \<open>the_shell_thread_func\<close> after the login: the commands handed to
  \<open>proccess_cmd\<close>, whether the user quit, the bytes left. \<open>exec\<close> is what a command prints.\<close>

function shell_loop ::
    "(string \<Rightarrow> string) \<Rightarrow> char list \<Rightarrow> telnetd \<Rightarrow> (string list \<times> bool \<times> telnetd) option" where
  "shell_loop exec s st =
     (case read_input s st of
        None \<Rightarrow> None
      | Some (r, st1, s1) \<Rightarrow>
          if r \<noteq> 1 then Some ([], False, st1)
          else if shell_buf_cur_len st1 = 0 then shell_loop exec s1 (print_hint st1)
          else do {
            st2 \<leftarrow> update_histotry_cmds (cstr (shell_buf st1)) st1;
            let st3 = st2\<lparr>shell_buf_cur_len := 0\<rparr>;
            (_, written) \<leftarrow> str_trim_all (cstr (shell_buf st3));
            clean_cmd_line \<leftarrow> written;
            if clean_cmd_line = [] then shell_loop exec s1 (print_hint st3)
            else if clean_cmd_line = ''quit'' then Some ([], True, st3)
            else do {
              (cmds, quit, st4) \<leftarrow> shell_loop exec s1 (print_hint (put (exec clean_cmd_line @ [LF]) st3));
              Some (clean_cmd_line # cmds, quit, st4)
            }
          })"
  by pat_completeness auto
termination
  by (relation "measure (\<lambda>(_, s, _). length s)") (auto dest: read_input_consumes)

declare shell_loop.simps [simp del]

text \<open>The whole thread; a new thread starts with zeroed \<open>is_login\<close> and \<open>is_password\<close>.\<close>

definition print_intro :: "telnetd \<Rightarrow> telnetd" where
  "print_intro st = put ([LF] @ '' ****debug_shell started****'' @ [LF] @
     ''you can input var names to see var info'' @ [LF] @
     ''you can input d(addrress, len) to see memory contents'' @ [LF] @
     ''you can input xxx(1, 0x2, '' @ [CHR 0x22] @ ''abc'' @ [CHR 0x22] @ '') to execute function xxx'' @ [LF] @
     ''caution: every args's size of function xxx must == sizeof(long)'' @ [LF]) st"

definition the_shell_thread_func ::
    "(string \<Rightarrow> string) \<Rightarrow> char list \<Rightarrow> telnetd \<Rightarrow> (string list \<times> bool \<times> telnetd) option" where
  "the_shell_thread_func exec s st =
     (let st1 = print_intro (st\<lparr>histotry_cmds := [], shell_buf_cur_len := 0, is_login := False, is_password := False\<rparr>)
      in case login_auth s st1 of
           None \<Rightarrow> None
         | Some (ret, st2, s2) \<Rightarrow>
             if ret \<noteq> 0 then Some ([], True, st2)
             else shell_loop exec s2 (print_hint (st2\<lparr>is_password := False, is_login := False\<rparr>)))"

section \<open>Between socket and terminal\<close>

definition IAC :: char where "IAC = CHR 0xFF"
definition SB :: char where "SB = CHR 0xFA"
definition TELOPT_NAWS :: char where "TELOPT_NAWS = CHR 0x1F"

text \<open>\<open>remove_iacs\<close> on the 512 bytes of the buffer, from position \<open>i\<close>: the bytes kept.\<close>

function remove_iacs :: "char list \<Rightarrow> nat \<Rightarrow> nat \<Rightarrow> char list option" where
  "remove_iacs buf i len =
     (if i < len then
        if i < length buf then
          if buf ! i \<noteq> IAC then map_option (\<lambda>r. buf ! i # r) (remove_iacs buf (i + 1) len)
          else if i + 1 < length buf then
            if buf ! (i + 1) = SB then
              if i + 2 < length buf then
                if buf ! (i + 2) = TELOPT_NAWS then remove_iacs buf (i + 9) len
                else remove_iacs buf (i + 3) len
              else None
            else remove_iacs buf (i + 3) len
          else None
        else None
      else Some [])"
  by pat_completeness auto
termination by (relation "measure (\<lambda>(buf, i, len). len - i)") auto

declare remove_iacs.simps [simp del]

record pty_out =
  pty2sock_cache :: string
  pty2sock_cache_len :: nat

text \<open>
  \<open>trans_data_pty2sock\<close>: \<open>got\<close> is what \<open>read\<close> returns if it is called (\<open>None\<close> a failure),
  \<open>ready\<close> whether the socket can be written, \<open>room\<close> what \<open>write\<close> takes (\<open>None\<close> a failure). The
  result is the return value, the bytes sent and the new state. The write starts at the
  beginning of the cache, not at \<open>cur_snd_ptr\<close>.
\<close>

definition trans_data_pty2sock ::
    "string option \<Rightarrow> bool \<Rightarrow> nat option \<Rightarrow> pty_out \<Rightarrow> (int \<times> string \<times> pty_out) option" where
  "trans_data_pty2sock got ready room st =
     (let send = (\<lambda>st1.
        if \<not> ready then Some (0, [], st1)
        else case room of
          None \<Rightarrow> Some (-1, [], st1)
        | Some k \<Rightarrow>
            let n = min k (pty2sock_cache_len st1);
                sent = take n (pty2sock_cache st1)
            in if n = 0 then Some (-1, [], st1)
               else Some (0, sent, st1\<lparr>pty2sock_cache_len := pty2sock_cache_len st1 - n\<rparr>))
      in if pty2sock_cache_len st > 0 then send st
         else case got of
           None \<Rightarrow> Some (-1, [], st\<lparr>pty2sock_cache_len := 0\<rparr>)
         | Some bytes \<Rightarrow>
             if 256 \<le> length bytes then None
             else let (ret, out) = str_replace_substr (cstr (bytes @ [NUL])) [LF] [CR, LF]
                  in if 512 \<le> length out then None
                     else let st1 = st\<lparr>pty2sock_cache := out, pty2sock_cache_len := nat ret\<rparr>
                          in if ret = 0 then Some (0, [], st1) else send st1)"

section \<open>Sessions\<close>

text \<open>
  \<open>phase\<close> is where the shell thread is, with the bytes it has been given: still in
  \<open>login_auth\<close>, in the command loop, there waiting for the two bytes behind an escape, or ended. \<open>waiting\<close>: the
  serving thread waits in \<open>term_session\<close>. \<open>sent\<close> records what is written to
  which descriptor, \<open>open_fds\<close> the descriptors of the process, \<open>ori_fds\<close> the copies of 0, 1 and 2, \<open>std_to\<close> the terminal that
  0, 1 and 2 stand for, if they are redirected.
\<close>

datatype shell_phase = Login | Running | In_escape | Ended

record session =
  fd_conn :: int
  fd_pty_master :: int
  fd_pty_slave :: int
  shell_thread_should_exit :: bool
  shell_quit_occurred :: bool
  out_cache :: pty_out
  phase :: shell_phase
  waiting :: bool
  open_fds :: "int set"
  ori_fds :: "int list"
  std_to :: "int option"
  sent :: "(int \<times> string) list"

definition say :: "int \<Rightarrow> string \<Rightarrow> session \<Rightarrow> session" where
  "say fd s st = st\<lparr>sent := sent st @ [(fd, s)]\<rparr>"

text \<open>\<open>dups\<close>: what the three calls of \<open>dup\<close> return.\<close>

definition save_ori_io :: "int list \<Rightarrow> session \<Rightarrow> session" where
  "save_ori_io dups st = st\<lparr>ori_fds := dups, open_fds := open_fds st \<union> set dups\<rparr>"

definition restore_ori_io :: "session \<Rightarrow> session" where
  "restore_ori_io st = st\<lparr>std_to := None\<rparr>"

definition redirect_io :: "int \<Rightarrow> session \<Rightarrow> session" where
  "redirect_io fd st = st\<lparr>std_to := Some fd\<rparr>"

text \<open>\<open>term_session\<close> waits for ever when \<open>shell_quit_occurred\<close> does not come: the shell tests
  \<open>shell_thread_should_exit\<close> neither in its login nor while it waits for the rest of an escape sequence, and only the
  thread that waits feeds it. A command that is being run is taken to end.\<close>

definition term_session :: "session \<Rightarrow> session" where
  "term_session st =
     (if fd_conn st = 0 then st
      else let st1 = (restore_ori_io st)\<lparr>shell_thread_should_exit := True\<rparr>
        in if \<not> shell_quit_occurred st1 \<and> (phase st1 = Login \<or> phase st1 = In_escape) then st1\<lparr>waiting := True\<rparr>
           else st1\<lparr>phase := Ended,
                  open_fds := open_fds st1 - {fd_conn st1, fd_pty_slave st1, fd_pty_master st1},
                  fd_conn := 0, fd_pty_slave := 0, fd_pty_master := 0, shell_quit_occurred := False,
                  out_cache := (out_cache st1)\<lparr>pty2sock_cache_len := 0\<rparr>\<rparr>)"

definition snd_iac :: "int \<Rightarrow> char \<Rightarrow> char \<Rightarrow> session \<Rightarrow> session" where
  "snd_iac sockfd cmd opt st = say sockfd [IAC, cmd, opt] st"

text \<open>WILL 251, DO 253, DONT 254; ECHO 1, SGA 3, LFLOW 33. \<open>sv\<close> is the result of \<open>socketpair\<close>.\<close>

definition make_new_session :: "int \<Rightarrow> (int \<times> int) option \<Rightarrow> session \<Rightarrow> int \<times> session" where
  "make_new_session new_sock_fd sv st =
     (let st1 = snd_iac new_sock_fd (CHR 0xFE) (CHR 0x01) st;
          st2 = snd_iac new_sock_fd (CHR 0xFD) (CHR 0x21) st1;
          st3 = snd_iac new_sock_fd (CHR 0xFB) (CHR 0x01) st2;
          st4 = snd_iac new_sock_fd (CHR 0xFB) (CHR 0x03) st3
      in case sv of
           None \<Rightarrow> (-1, st4)
         | Some (m, sl) \<Rightarrow>
             (0, st4\<lparr>fd_conn := new_sock_fd, fd_pty_master := m, fd_pty_slave := sl,
                   shell_thread_should_exit := False, phase := Login,
                   open_fds := insert m (insert sl (open_fds st4))\<rparr>))"

text \<open>\<open>buf\<close> is the 512-byte buffer after the read, \<open>ret\<close> what the read returned.\<close>

definition trans_data_sock2pty :: "char list \<Rightarrow> int \<Rightarrow> session \<Rightarrow> session option" where
  "trans_data_sock2pty buf ret st =
     (if ret \<le> 0 then Some (term_session st)
      else do {
        bytes \<leftarrow> remove_iacs buf 0 (nat ret);
        Some (if 0 < length bytes then say (fd_pty_master st) bytes st else st)
      })"

text \<open>What \<open>select\<close> and the calls after it report in one iteration of \<open>misc_thread_func\<close>.\<close>

record ready =
  server_r :: bool
  accepted :: int
  sv_pair :: "(int \<times> int) option"
  conn_except :: bool
  conn_r :: bool
  conn_buf :: "char list"
  conn_ret :: int
  pty_r :: bool
  pty_got :: "string option"
  conn_w :: bool
  conn_room :: "nat option"

definition warn_session :: "session \<Rightarrow> session" where
  "warn_session st =
     (if fd_conn st > 0
      then say (fd_conn st) (''A new login happens, so we shutdown your session...'' @ [CR, LF]) st
      else st)"

text \<open>One iteration, which ends early when \<open>term_session\<close> does not return.\<close>

definition misc_thread_step :: "ready \<Rightarrow> session \<Rightarrow> session option" where
  "misc_thread_step r st =
     (if server_r r then
        if accepted r < 0 then Some st
        else let st1 = st\<lparr>open_fds := insert (accepted r) (open_fds st)\<rparr>;
                 st3 = term_session (warn_session st1)
          in if waiting st3 then Some st3
             else let (ret, st4) = make_new_session (accepted r) (sv_pair r) st3
               in Some (if ret \<noteq> 0 then st4\<lparr>open_fds := open_fds st4 - {accepted r}\<rparr> else st4)
      else if shell_quit_occurred st \<or> (fd_conn st > 0 \<and> conn_except r) then Some (term_session st)
      else do {
        st1 \<leftarrow> (if fd_conn st > 0 \<and> conn_r r then trans_data_sock2pty (conn_buf r) (conn_ret r) st else Some st);
        if waiting st1 then Some st1
        else if (fd_pty_master st1 > 0 \<and> pty_r r) \<or> pty2sock_cache_len (out_cache st1) > 0 then do {
          (ret, bytes, cache) \<leftarrow> trans_data_pty2sock (pty_got r) (conn_w r) (conn_room r) (out_cache st1);
          let st2 = say (fd_conn st1) bytes (st1\<lparr>out_cache := cache\<rparr>);
          Some (if ret \<noteq> 0 then term_session st2 else st2)
        } else Some st1
      })"

text \<open>The start of \<open>misc_thread_func\<close> in a process that has the descriptors \<open>fds\<close> open; \<open>srv\<close> is the listening socket.\<close>

definition misc_thread_start :: "int set \<Rightarrow> int list \<Rightarrow> int \<Rightarrow> session" where
  "misc_thread_start fds dups srv =
     (let st = \<lparr>fd_conn = 0, fd_pty_master = 0, fd_pty_slave = 0, shell_thread_should_exit = False,
            shell_quit_occurred = False, out_cache = \<lparr>pty2sock_cache = [], pty2sock_cache_len = 0\<rparr>, phase = Ended,
            waiting = False, open_fds = fds, ori_fds = [], std_to = None, sent = []\<rparr>;
          st1 = save_ori_io dups st
      in st1\<lparr>open_fds := insert srv (open_fds st1)\<rparr>)"

section \<open>Editing a line, abstractly\<close>

definition printable :: "char \<Rightarrow> bool" where
  "printable c \<longleftrightarrow> c = CHR '' '' \<or> isgraph c"

text \<open>The line, the place in the history, the bytes left; \<open>True\<close>: the line is complete.\<close>

fun edit :: "string list \<Rightarrow> char list \<Rightarrow> string \<Rightarrow> nat \<Rightarrow> (bool \<times> string \<times> nat \<times> char list) option" where
  "edit h [] l i = Some (False, l, i, [])"
| "edit h (c # s) l i =
     (case key_kind c (length l) of
        Ignore \<Rightarrow> edit h s l i
      | Back \<Rightarrow> edit h s (butlast l) i
      | Escape \<Rightarrow>
          (case s of
             c1 # c2 # s' \<Rightarrow>
               if c1 = CHR ''['' \<and> c2 = CHR ''A'' \<and> 0 < i \<and> 0 < length h then edit h s' (h ! (i - 1)) (i - 1)
               else if c1 = CHR ''['' \<and> c2 = CHR ''B'' \<and> i + 1 < length h then edit h s' (h ! (i + 1)) (i + 1)
               else edit h s' l i
           | _ \<Rightarrow> None)
      | Enter \<Rightarrow> if length l < 512 then Some (True, l, i, s) else None
      | Printable \<Rightarrow> if length l < 512 then edit h s (l @ [c]) i else None)"

definition line_of :: "telnetd \<Rightarrow> string" where
  "line_of st = take (shell_buf_cur_len st) (shell_buf st)"

definition edit_ok :: "telnetd \<Rightarrow> bool" where
  "edit_ok st \<longleftrightarrow> length (shell_buf st) = 512 \<and> shell_buf_cur_len st \<le> 512 \<and> list_all printable (line_of st) \<and>
     list_all (\<lambda>h. length h < 512 \<and> list_all printable h) (histotry_cmds st) \<and>
     length (histotry_cmds st) \<le> MAX_HISTORY_CMD_NUM \<and>
     (histotry_cmds st = [] \<or> cur_histotry_cmds_roll_idx st \<le> length (histotry_cmds st))"

text \<open>What moves in an edit, and what stays.\<close>

definition same_session :: "telnetd \<Rightarrow> telnetd \<Rightarrow> bool" where
  "same_session st st' \<longleftrightarrow> histotry_cmds st' = histotry_cmds st \<and> is_login st' = is_login st \<and>
     is_password st' = is_password st"

lemma put_sel [simp]:
  "shell_buf (put s st) = shell_buf st" "shell_buf_cur_len (put s st) = shell_buf_cur_len st"
  "histotry_cmds (put s st) = histotry_cmds st" "is_password (put s st) = is_password st"
  "cur_histotry_cmds_roll_idx (put s st) = cur_histotry_cmds_roll_idx st" "is_login (put s st) = is_login st"
  by (simp_all add: put_def)

lemma refresh_visible:
  "\<not> is_password st \<Longrightarrow> \<exists>sc. refresh_shell_buf_display st = Some (st\<lparr>screen := sc\<rparr>)"
  by (auto simp: refresh_shell_buf_display_def Let_def put_def)

lemma back_visible:
  "\<not> is_password st \<Longrightarrow>
     \<exists>sc. back_input n st = Some (st\<lparr>shell_buf_cur_len := shell_buf_cur_len st - n, screen := sc\<rparr>)"
  using refresh_visible[of "put x st\<lparr>shell_buf_cur_len := shell_buf_cur_len st - n\<rparr>" for x]
  by (auto simp: back_input_def Let_def put_def)

lemma show_history_visible:
  assumes "\<not> is_password st" "length (shell_buf st) = 512" "name = histotry_cmds st ! cur_histotry_cmds_roll_idx st"
    "length name < 512"
  shows "\<exists>sc. show_history st = Some (st\<lparr>shell_buf := name @ NUL # drop (length name + 1) (shell_buf st),
     shell_buf_cur_len := length name, screen := sc\<rparr>)"
proof -
  let ?st1 = "st\<lparr>shell_buf := name @ NUL # drop (length name + 1) (shell_buf st)\<rparr>"
  show ?thesis
  proof (cases "length name < shell_buf_cur_len st")
    case True
    obtain sc where "back_input (shell_buf_cur_len st - length name) ?st1 =
        Some (?st1\<lparr>shell_buf_cur_len := length name, screen := sc\<rparr>)"
      using back_visible[of ?st1 "shell_buf_cur_len st - length name"] assms(1) True by auto
    with True refresh_visible[of "?st1\<lparr>screen := sc, shell_buf_cur_len := length name\<rparr>"] assms
    show ?thesis by (auto simp: show_history_def Let_def)
  next
    case False
    with refresh_visible[of "?st1\<lparr>shell_buf_cur_len := length name\<rparr>"] assms
    show ?thesis by (auto simp: show_history_def Let_def)
  qed
qed

lemma type_char_eq:
  "length (shell_buf st) = 512 \<Longrightarrow> shell_buf_cur_len st \<le> 512 \<Longrightarrow>
   type_char c st = (if shell_buf_cur_len st < 512
     then Some (st\<lparr>shell_buf := ((shell_buf st)[shell_buf_cur_len st := c]), shell_buf_cur_len := shell_buf_cur_len st + 1,
            screen := screen st @ [if is_password st then CHR ''*'' else c]\<rparr>) else None)"
  by (simp add: type_char_def store_at_def put_def)

lemma take_update_Suc: "n < length xs \<Longrightarrow> take (Suc n) (xs[n := c]) = take n xs @ [c]"
  by (simp add: take_Suc_conv_app_nth)

lemma printable_key: "key_kind c n = Printable \<Longrightarrow> printable c"
  by (auto simp: key_kind_def printable_def split: if_splits)

lemma printable_no_NUL: "printable c \<Longrightarrow> c \<noteq> NUL"
  by (auto simp: printable_def isgraph_def)

lemma cstr_line: "list_all printable l \<Longrightarrow> cstr (l @ NUL # r) = l"
  by (rule cstr_append_NUL) (auto simp: list_all_iff dest: printable_no_NUL)

text \<open>What the editor does to the buffer, read off the abstract result \<open>ed\<close>.\<close>

definition reads_as ::
    "(int \<times> telnetd \<times> char list) option \<Rightarrow> telnetd \<Rightarrow> (bool \<times> string \<times> nat \<times> char list) option \<Rightarrow> bool" where
  "reads_as res st ed \<longleftrightarrow> (case ed of
      None \<Rightarrow> res = None
    | Some (full, l, i, rest) \<Rightarrow> \<exists>st'. res = Some (if full then 1 else 0, st', rest) \<and>
        edit_ok st' \<and> same_session st st' \<and> line_of st' = l \<and> cur_histotry_cmds_roll_idx st' = i \<and>
        (full \<longrightarrow> cstr (shell_buf st') = l \<and> length l < 512))"

lemma reads_as_from: "reads_as res st1 ed \<Longrightarrow> same_session st st1 \<Longrightarrow> reads_as res st ed"
  by (auto simp: reads_as_def same_session_def split: option.splits)

lemma edit_ok_lens:
  assumes "edit_ok st"
  shows "length (shell_buf st) = 512" "shell_buf_cur_len st \<le> 512" "length (line_of st) = shell_buf_cur_len st"
  using assms by (auto simp: edit_ok_def line_of_def)

lemma edit_ok_back:
  assumes "edit_ok st"
  shows "edit_ok (st\<lparr>shell_buf_cur_len := shell_buf_cur_len st - 1, screen := sc\<rparr>) \<and>
     line_of (st\<lparr>shell_buf_cur_len := shell_buf_cur_len st - 1, screen := sc\<rparr>) = butlast (line_of st)"
proof -
  have "line_of (st\<lparr>shell_buf_cur_len := shell_buf_cur_len st - 1, screen := sc\<rparr>) = butlast (line_of st)"
    using edit_ok_lens[OF assms] by (simp add: line_of_def butlast_take)
  with assms show ?thesis by (auto simp: edit_ok_def list_all_iff dest: in_set_butlastD)
qed

lemma type_char_visible:
  assumes "edit_ok st" "\<not> is_password st" "printable c" "shell_buf_cur_len st < 512"
  shows "\<exists>st1. type_char c st = Some st1 \<and> edit_ok st1 \<and> \<not> is_password st1 \<and> same_session st st1 \<and>
     line_of st1 = line_of st @ [c] \<and> cur_histotry_cmds_roll_idx st1 = cur_histotry_cmds_roll_idx st"
proof -
  let ?st1 = "st\<lparr>shell_buf := ((shell_buf st)[shell_buf_cur_len st := c]),
    shell_buf_cur_len := shell_buf_cur_len st + 1, screen := screen st @ [c]\<rparr>"
  note b = edit_ok_lens[OF assms(1)]
  have "type_char c st = Some ?st1" using type_char_eq[OF b(1,2)] assms by simp
  moreover have l: "line_of ?st1 = line_of st @ [c]"
    using assms(4) b by (simp add: line_of_def take_update_Suc)
  moreover have "edit_ok ?st1" using assms l by (simp add: edit_ok_def)
  ultimately show ?thesis using assms(2) by (simp add: same_session_def)
qed

text \<open>The history entry an escape sequence brings back, \<open>None\<close> if it does not.\<close>

definition rolled :: "string list \<Rightarrow> char \<Rightarrow> char \<Rightarrow> nat \<Rightarrow> nat option" where
  "rolled h c1 c2 i =
     (if c1 = CHR ''['' \<and> c2 = CHR ''A'' \<and> 0 < i \<and> 0 < length h then Some (i - 1)
      else if c1 = CHR ''['' \<and> c2 = CHR ''B'' \<and> i + 1 < length h then Some (i + 1) else None)"

lemma roll_history_visible:
  assumes "edit_ok st" "\<not> is_password st"
  shows "\<exists>st1. roll_history c1 c2 st = Some st1 \<and> edit_ok st1 \<and> \<not> is_password st1 \<and> same_session st st1 \<and>
    (case rolled (histotry_cmds st) c1 c2 (cur_histotry_cmds_roll_idx st) of
       None \<Rightarrow> line_of st1 = line_of st \<and> cur_histotry_cmds_roll_idx st1 = cur_histotry_cmds_roll_idx st
     | Some j \<Rightarrow> line_of st1 = histotry_cmds st ! j \<and> cur_histotry_cmds_roll_idx st1 = j)"
proof (cases "rolled (histotry_cmds st) c1 c2 (cur_histotry_cmds_roll_idx st)")
  case None
  then have "roll_history c1 c2 st = Some st"
    by (auto simp: roll_history_def history_cmd_roll_prev_def history_cmd_roll_next_def rolled_def split: if_splits)
  with None assms show ?thesis by (simp add: same_session_def)
next
  case (Some j)
  then have j: "j < length (histotry_cmds st)"
    using assms(1) by (auto simp: rolled_def edit_ok_def split: if_splits)
  from Some have r: "roll_history c1 c2 st = show_history (st\<lparr>cur_histotry_cmds_roll_idx := j\<rparr>)"
    by (auto simp: roll_history_def history_cmd_roll_prev_def history_cmd_roll_next_def rolled_def split: if_splits)
  let ?name = "histotry_cmds st ! j"
  note b = edit_ok_lens[OF assms(1)]
  have p: "length ?name < 512" "list_all printable ?name"
    using assms(1) j by (auto simp: edit_ok_def list_all_length)
  obtain sc where "show_history (st\<lparr>cur_histotry_cmds_roll_idx := j\<rparr>) =
      Some (st\<lparr>cur_histotry_cmds_roll_idx := j, shell_buf := ?name @ NUL # drop (length ?name + 1) (shell_buf st),
        shell_buf_cur_len := length ?name, screen := sc\<rparr>)"
    using show_history_visible[of "st\<lparr>cur_histotry_cmds_roll_idx := j\<rparr>" ?name] assms(2) b p by auto
  then show ?thesis using p b assms j r Some
    by (auto simp: edit_ok_def line_of_def same_session_def)
qed

lemma read_input_edit:
  assumes "edit_ok st" and "\<not> is_password st"
  shows "reads_as (read_input s st) st
    (edit (histotry_cmds st) s (line_of st) (cur_histotry_cmds_roll_idx st))"
  using assms
proof (induction s st rule: read_input.induct)
  case (1 st)
  then show ?case by (simp add: reads_as_def same_session_def)
next
  case (2 c s st)
  let ?n = "shell_buf_cur_len st"
  note b = edit_ok_lens[OF 2(5)]
  show ?case
  proof (cases "key_kind c ?n")
    case Ignore
    with 2(1)[OF Ignore 2(5,6)] b show ?thesis by simp
  next
    case Back
    obtain sc where sc: "back_input 1 st = Some (st\<lparr>shell_buf_cur_len := ?n - 1, screen := sc\<rparr>)"
      using back_visible[OF 2(6)] by blast
    from 2(2)[OF Back sc] edit_ok_back[OF 2(5), of sc] 2(6) sc Back b
    show ?thesis by (auto simp: same_session_def intro: reads_as_from)
  next
    case Escape
    show ?thesis
    proof (cases "\<exists>c1 c2 s'. s = c1 # c2 # s'")
      case False
      then show ?thesis using Escape b by (cases s; cases "tl s") (auto simp: reads_as_def)
    next
      case True
      then obtain c1 c2 s' where s: "s = c1 # c2 # s'" by blast
      from roll_history_visible[OF 2(5,6), of c1 c2] obtain st1 where
        st1: "roll_history c1 c2 st = Some st1" "edit_ok st1" "\<not> is_password st1" "same_session st st1" and
        roll: "case rolled (histotry_cmds st) c1 c2 (cur_histotry_cmds_roll_idx st) of
          None \<Rightarrow> line_of st1 = line_of st \<and> cur_histotry_cmds_roll_idx st1 = cur_histotry_cmds_roll_idx st
        | Some j \<Rightarrow> line_of st1 = histotry_cmds st ! j \<and> cur_histotry_cmds_roll_idx st1 = j" by blast
      have "edit (histotry_cmds st) (c # s) (line_of st) (cur_histotry_cmds_roll_idx st) =
          edit (histotry_cmds st1) s' (line_of st1) (cur_histotry_cmds_roll_idx st1)"
        using Escape b s roll st1(4) by (auto simp: same_session_def rolled_def split: if_splits)
      with 2(3)[OF Escape s refl st1(1-3)] st1(1,4) Escape s show ?thesis
        by (simp add: reads_as_from)
    qed
  next
    case Enter
    show ?thesis
    proof (cases "?n < 512")
      case True
      then have "(shell_buf st)[?n := NUL] = line_of st @ NUL # drop (Suc ?n) (shell_buf st)"
        using b by (simp add: line_of_def upd_conv_take_nth_drop)
      with True b Enter 2(5) show ?thesis
        by (auto simp: store_at_def edit_ok_def same_session_def reads_as_def line_of_def cstr_line Let_def)
    next
      case False
      with b Enter show ?thesis by (simp add: store_at_def Let_def reads_as_def)
    qed
  next
    case Printable
    show ?thesis
    proof (cases "?n < 512")
      case True
      from type_char_visible[OF 2(5,6) printable_key[OF Printable] True] obtain st1 where
        st1: "type_char c st = Some st1" "edit_ok st1" "\<not> is_password st1" "same_session st st1"
          "line_of st1 = line_of st @ [c]" "cur_histotry_cmds_roll_idx st1 = cur_histotry_cmds_roll_idx st" by blast
      have "edit (histotry_cmds st) (c # s) (line_of st) (cur_histotry_cmds_roll_idx st) =
          edit (histotry_cmds st1) s (line_of st1) (cur_histotry_cmds_roll_idx st1)"
        using Printable True b st1(4-6) by (simp add: same_session_def)
      with 2(4)[OF Printable st1(1-3)] st1(1,4) Printable show ?thesis
        by (simp add: reads_as_from)
    next
      case False
      with b Printable show ?thesis by (simp add: type_char_eq reads_as_def)
    qed
  qed
qed

section \<open>The shell, abstractly\<close>

definition remember :: "string list \<Rightarrow> string \<Rightarrow> string list" where
  "remember h l = (if length h = MAX_HISTORY_CMD_NUM then tl h else h) @ [l]"

lemma edit_consumes: "edit h s l i = Some (True, l', i', s') \<Longrightarrow> length s' < length s"
proof (induction h s l i rule: edit.induct)
  case (2 h c s l i)
  show ?case
  proof (cases "key_kind c (length l)")
    case Escape
    show ?thesis
    proof (cases "\<exists>c1 c2 t. s = c1 # c2 # t")
      case True
      then obtain c1 c2 t where s: "s = c1 # c2 # t" by blast
      from 2(7) Escape s 2(3,4,5)[OF Escape s refl] show ?thesis by (auto split: if_splits)
    next
      case False
      with 2(7) Escape show ?thesis by (cases s; cases "tl s") auto
    qed
  qed (use 2 in \<open>auto split: if_splits simp: less_SucI\<close>)
qed simp

text \<open>The commands run, whether the user quit, the history.\<close>

function abs_shell ::
    "string list \<Rightarrow> nat \<Rightarrow> char list \<Rightarrow> (string list \<times> bool \<times> string list) option" where
  "abs_shell h i s =
     (case edit h s [] i of
        None \<Rightarrow> None
      | Some (False, _) \<Rightarrow> Some ([], False, h)
      | Some (True, l, j, s') \<Rightarrow>
          if l = [] then abs_shell h j s'
          else let h' = remember h l; cmd = filter isgraph l
               in if cmd = [] then abs_shell h' (length h') s'
                  else if cmd = ''quit'' then Some ([], True, h')
                  else map_option (\<lambda>(cmds, r). (cmd # cmds, r)) (abs_shell h' (length h') s'))"
  by pat_completeness auto
termination by (relation "measure (\<lambda>(h, i, s). length s)") (auto dest: edit_consumes)

declare abs_shell.simps [simp del]

definition shell_ready :: "telnetd \<Rightarrow> bool" where
  "shell_ready st \<longleftrightarrow> edit_ok st \<and> shell_buf_cur_len st = 0 \<and> \<not> is_password st"

definition refines_shell ::
    "(string list \<times> bool \<times> telnetd) option \<Rightarrow> (string list \<times> bool \<times> string list) option \<Rightarrow> bool" where
  "refines_shell res ab \<longleftrightarrow> (case ab of
      None \<Rightarrow> res = None
    | Some (cmds, quit, h) \<Rightarrow> \<exists>st'. res = Some (cmds, quit, st') \<and> histotry_cmds st' = h \<and> edit_ok st')"

lemma refines_shell_cmd:
  assumes "refines_shell res ab"
  shows "refines_shell (do { (cmds, quit, st) \<leftarrow> res; Some (c # cmds, quit, st) })
    (map_option (\<lambda>(cmds, r). (c # cmds, r)) ab)"
  using assms by (auto simp: refines_shell_def split: option.splits)

lemma edit_ok_line: "shell_ready st \<Longrightarrow> line_of st = []"
  by (simp add: shell_ready_def line_of_def)

lemma in_set_tl: "x \<in> set (tl xs) \<Longrightarrow> x \<in> set xs"
  by (cases xs) auto

lemma update_history_remember:
  assumes "edit_ok st" "line_of st = l" "length l < 512"
  shows "update_histotry_cmds l st = Some (st\<lparr>histotry_cmds := remember (histotry_cmds st) l,
      cur_histotry_cmds_roll_idx := length (remember (histotry_cmds st) l)\<rparr>)"
    and "list_all printable l"
    and "list_all (\<lambda>h. length h < 512 \<and> list_all printable h) (remember (histotry_cmds st) l)"
    and "length (remember (histotry_cmds st) l) \<le> MAX_HISTORY_CMD_NUM"
proof -
  show "update_histotry_cmds l st = Some (st\<lparr>histotry_cmds := remember (histotry_cmds st) l,
      cur_histotry_cmds_roll_idx := length (remember (histotry_cmds st) l)\<rparr>)"
    using assms(3) by (simp add: update_histotry_cmds_def remember_def Let_def)
  show l: "list_all printable l" using assms(1,2) by (auto simp: edit_ok_def)
  show "list_all (\<lambda>h. length h < 512 \<and> list_all printable h) (remember (histotry_cmds st) l)"
    using assms(1,3) l by (auto simp: remember_def edit_ok_def list_all_iff dest!: in_set_tl)
  show "length (remember (histotry_cmds st) l) \<le> MAX_HISTORY_CMD_NUM"
    using assms(1) by (auto simp: remember_def edit_ok_def MAX_HISTORY_CMD_NUM_def)
qed

lemma shell_loop_edit:
  assumes "shell_ready st"
  shows "refines_shell (shell_loop exec s st)
    (abs_shell (histotry_cmds st) (cur_histotry_cmds_roll_idx st) s)"
  using assms
proof (induction s arbitrary: st rule: length_induct)
  case (1 s st)
  let ?h = "histotry_cmds st" and ?i = "cur_histotry_cmds_roll_idx st"
  have ok: "edit_ok st" "\<not> is_password st" using 1(2) by (simp_all add: shell_ready_def)
  note r = read_input_edit[OF ok, of s, unfolded edit_ok_line[OF 1(2)]]
  show ?case
  proof (cases "edit ?h s [] ?i")
    case None
    with r show ?thesis
      by (simp add: reads_as_def refines_shell_def abs_shell.simps[of ?h] shell_loop.simps[of exec s])
  next
    case (Some e)
    obtain full l j s' where e: "e = (full, l, j, s')" by (cases e)
    from r Some e obtain st1 where st1: "read_input s st = Some (if full then 1 else 0, st1, s')"
      "edit_ok st1" "same_session st st1" "line_of st1 = l" "cur_histotry_cmds_roll_idx st1 = j"
      "full \<longrightarrow> cstr (shell_buf st1) = l \<and> length l < 512" by (auto simp: reads_as_def)
    have h1: "histotry_cmds st1 = ?h" "\<not> is_password st1" using st1(3) ok by (simp_all add: same_session_def)
    have len: "shell_buf_cur_len st1 = length l" using edit_ok_lens(3)[OF st1(2)] st1(4) by simp
    show ?thesis
    proof (cases full)
      case False
      with st1 e Some h1 show ?thesis
        by (simp add: refines_shell_def abs_shell.simps[of ?h] shell_loop.simps[of exec s])
    next
      case True
      have short: "length s' < length s" using edit_consumes[of ?h s "[]" ?i l j s'] Some e True by simp
      note IH = 1(1)[rule_format, OF short]
      have l: "cstr (shell_buf st1) = l" "length l < 512" using st1(6) True by simp_all
      have ready: "shell_ready (put x st2) \<longleftrightarrow> shell_ready st2" for x st2
        by (simp add: shell_ready_def edit_ok_def line_of_def)
      show ?thesis
      proof (cases "l = []")
        case True
        then have "shell_ready st1" using st1(2) len h1 by (simp add: shell_ready_def)
        with IH[of "print_hint st1"] True st1 \<open>full\<close> len h1 Some e show ?thesis
          by (simp add: abs_shell.simps[of ?h] shell_loop.simps[of exec s] print_hint_def ready)
      next
        case False
        note up = update_history_remember[OF st1(2,4) l(2)]
        let ?h' = "remember ?h l" and ?cmd = "filter isgraph l"
        let ?st3 = "st1\<lparr>histotry_cmds := ?h', cur_histotry_cmds_roll_idx := length ?h', shell_buf_cur_len := 0\<rparr>"
        have r3: "shell_ready ?st3"
          using st1(2) up h1 by (simp add: shell_ready_def edit_ok_def line_of_def)
        have step: "shell_loop exec s st = (if ?cmd = [] then shell_loop exec s' (print_hint ?st3)
            else if ?cmd = ''quit'' then Some ([], True, ?st3)
            else do {
              (cmds, quit, st4) \<leftarrow> shell_loop exec s' (print_hint (put (exec ?cmd @ [LF]) ?st3));
              Some (?cmd # cmds, quit, st4)
            })"
          using st1(1) \<open>full\<close> len False up(1) l(1) h1(1) str_trim_all_len_def
          by (subst shell_loop.simps) (simp add: str_trim_all_graph Let_def)
        have ab: "abs_shell ?h ?i s = (if ?cmd = [] then abs_shell ?h' (length ?h') s'
            else if ?cmd = ''quit'' then Some ([], True, ?h')
            else map_option (\<lambda>(cmds, r). (?cmd # cmds, r)) (abs_shell ?h' (length ?h') s'))"
          using Some e \<open>full\<close> False by (subst abs_shell.simps) (simp add: Let_def)
        consider (blank) "?cmd = []" | (quit) "?cmd = ''quit''" | (run) "?cmd \<noteq> []" "?cmd \<noteq> ''quit''" by blast
        then show ?thesis
        proof cases
          case blank
          with IH[of "print_hint ?st3"] r3 step ab show ?thesis by (simp add: print_hint_def ready)
        next
          case quit
          with r3 step ab show ?thesis by (simp add: refines_shell_def shell_ready_def)
        next
          case run
          with refines_shell_cmd[OF IH[of "print_hint (put (exec ?cmd @ [LF]) ?st3)"], of ?cmd] r3 step ab
          show ?thesis by (simp add: print_hint_def ready)
        qed
      qed
    qed
  qed
qed

section \<open>Login\<close>

lemma key_kind_printable:
  assumes "printable c"
  shows "key_kind c n = Printable"
proof -
  have "\<not> printable NUL" "\<not> printable LF" "\<not> printable BS" "\<not> printable DEL" "\<not> printable ESC" "\<not> printable CR"
    by (simp_all add: printable_def isgraph_def)
  with assms have "c \<noteq> NUL" "c \<noteq> LF" "c \<noteq> BS" "c \<noteq> DEL" "c \<noteq> ESC" "c \<noteq> CR" by blast+
  with assms show ?thesis by (simp add: key_kind_def printable_def)
qed

text \<open>Plain characters and an Enter are read the same way in every mode.\<close>

lemma read_input_plain:
  assumes "length (shell_buf st) = 512" "shell_buf_cur_len st + length l < 512" "list_all printable l"
  shows "\<exists>st'. read_input (l @ CR # s) st = Some (1, st', s) \<and> length (shell_buf st') = 512 \<and>
     same_session st st' \<and> shell_buf_cur_len st' = shell_buf_cur_len st + length l \<and>
     take (shell_buf_cur_len st') (shell_buf st') = line_of st @ l \<and>
     shell_buf st' ! shell_buf_cur_len st' = NUL \<and>
     cur_histotry_cmds_roll_idx st' = cur_histotry_cmds_roll_idx st"
  using assms
proof (induction l arbitrary: st)
  case Nil
  have "key_kind CR n = Enter" for n by (simp add: key_kind_def)
  with Nil show ?case by (simp add: store_at_def Let_def same_session_def line_of_def)
next
  case (Cons c l)
  have k: "key_kind c n = Printable" for n
    using Cons.prems(3) by (simp add: key_kind_printable)
  let ?n = "shell_buf_cur_len st"
  let ?st1 = "st\<lparr>shell_buf := ((shell_buf st)[?n := c]), shell_buf_cur_len := ?n + 1,
     screen := screen st @ [if is_password st then CHR ''*'' else c]\<rparr>"
  have t: "type_char c st = Some ?st1" using type_char_eq[of st c] Cons.prems by simp
  have "line_of ?st1 = line_of st @ [c]" using Cons.prems by (simp add: line_of_def take_update_Suc)
  with Cons.IH[of ?st1] Cons.prems t k[of ?n] show ?case by (auto simp: same_session_def)
qed

lemma name15_line:
  assumes "take n (shell_buf st) = l" "shell_buf st ! n = NUL" "n < length (shell_buf st)"
    "length l = n" "list_all printable l"
  shows "name15 st = take 15 l"
proof (cases "n < 15")
  case True
  have "shell_buf st = l @ NUL # drop (Suc n) (shell_buf st)"
    using assms(1-3) by (metis id_take_nth_drop)
  then obtain r where "shell_buf st = l @ NUL # r" by blast
  with True assms(4,5) show ?thesis
    by (simp add: name15_def take_Cons' cstr_line)
next
  case False
  then have "take 15 (shell_buf st) = take 15 l" using assms(1) by (metis min.absorb1 not_less take_take)
  moreover have "list_all printable (take 15 l)" using assms(5) by (auto simp: list_all_iff dest: in_set_takeD)
  ultimately show ?thesis by (simp add: name15_def cstr_line)
qed

lemma login_round:
  assumes "length (shell_buf st) = 512" "shell_buf_cur_len st = 0"
    "list_all printable u" "length u < 512" "list_all printable p" "length p < 512"
  shows "\<exists>st'. login_auth (u @ CR # p @ CR # s) st =
      (if u = ''admin'' then Some (0, st', s) else login_auth s st') \<and>
      length (shell_buf st') = 512 \<and> shell_buf_cur_len st' = 0 \<and>
      histotry_cmds st' = histotry_cmds st \<and> cur_histotry_cmds_roll_idx st' = cur_histotry_cmds_roll_idx st"
proof -
  let ?st1 = "put ''login:'' (st\<lparr>is_login := True, is_password := False\<rparr>)"
  from read_input_plain[of ?st1 u "p @ CR # s"] assms obtain st2 where
    st2: "read_input (u @ CR # p @ CR # s) ?st1 = Some (1, st2, p @ CR # s)" "length (shell_buf st2) = 512"
      "same_session ?st1 st2" "shell_buf_cur_len st2 = length u" "take (length u) (shell_buf st2) = u"
      "shell_buf st2 ! length u = NUL" "cur_histotry_cmds_roll_idx st2 = cur_histotry_cmds_roll_idx st"
    by (auto simp: line_of_def)
  have n: "name15 st2 = take 15 u" using name15_line[OF st2(5,6)] st2(2) assms(3,4) by simp
  have a: "take 15 u = ''admin'' \<longleftrightarrow> u = ''admin''"
  proof
    assume t: "take 15 u = ''admin''"
    then have "length (take 15 u) = 5" by simp
    then have "length u < 15" by (simp add: min_def split: if_splits)
    with t show "u = ''admin''" by simp
  qed simp
  let ?st3 = "(put ''password:'' (st2\<lparr>shell_buf_cur_len := 0\<rparr>))\<lparr>is_password := True\<rparr>"
  from read_input_plain[of ?st3 p s] st2 assms obtain st4 where
    st4: "read_input (p @ CR # s) ?st3 = Some (1, st4, s)" "length (shell_buf st4) = 512" "same_session ?st3 st4"
      "cur_histotry_cmds_roll_idx st4 = cur_histotry_cmds_roll_idx st"
    by auto
  let ?st5 = "st4\<lparr>shell_buf_cur_len := 0\<rparr>"
  have "login_auth (u @ CR # p @ CR # s) st = (if u = ''admin''
      then Some (0, put (''login success'' @ [LF]) ?st5, s)
      else login_auth s (put (''username or password wrong'' @ [LF]) ?st5))"
    using st2(1) st4(1) by (subst login_auth.simps) (simp add: Let_def n a)
  moreover have "length (shell_buf ?st5) = 512" "shell_buf_cur_len ?st5 = 0"
      "histotry_cmds ?st5 = histotry_cmds st" "cur_histotry_cmds_roll_idx ?st5 = cur_histotry_cmds_roll_idx st"
    using st2(2,3) st4(2,3,4) assms(1,2) by (simp_all add: same_session_def)
  ultimately show ?thesis
    by (cases "u = ''admin''") (fastforce simp del: append.simps)+
qed

section \<open>Telnet options\<close>

text \<open>What a client sends: data bytes, options of three bytes, and window sizes of nine.\<close>

datatype telnet_item = Data char | Opt char char | Naws "char list"

fun item_ok :: "telnet_item \<Rightarrow> bool" where
  "item_ok (Data c) \<longleftrightarrow> c \<noteq> IAC"
| "item_ok (Opt c opt) \<longleftrightarrow> \<not> (c = SB \<and> opt = TELOPT_NAWS)"
| "item_ok (Naws v) \<longleftrightarrow> length v = 6"

fun item_bytes :: "telnet_item \<Rightarrow> char list" where
  "item_bytes (Data c) = [c]"
| "item_bytes (Opt c opt) = [IAC, c, opt]"
| "item_bytes (Naws v) = [IAC, SB, TELOPT_NAWS] @ v"

fun item_data :: "telnet_item \<Rightarrow> char list" where
  "item_data (Data c) = [c]"
| "item_data _ = []"

lemma remove_iacs_items:
  assumes "list_all item_ok items" "buf = pre @ concat (map item_bytes items) @ rest"
    "i = length pre" "len = length pre + length (concat (map item_bytes items))"
  shows "remove_iacs buf i len = Some (concat (map item_data items))"
  using assms
proof (induction items arbitrary: pre i)
  case Nil
  then show ?case by (simp add: remove_iacs.simps)
next
  case (Cons it items)
  let ?j = "i + length (item_bytes it)"
  have IH: "remove_iacs buf ?j len = Some (concat (map item_data items))"
    by (rule Cons.IH[of "pre @ item_bytes it"]) (use Cons.prems in auto)
  have nth: "buf ! (i + k) = item_bytes it ! k" if "k < length (item_bytes it)" for k
    using Cons.prems(2,3) that by (simp add: nth_append)
  have len: "i + length (item_bytes it) \<le> len" "len \<le> length buf"
    using Cons.prems by auto
  show ?case
  proof (cases it)
    case (Data c)
    with IH nth[of 0] len Cons.prems(1) show ?thesis by (simp add: remove_iacs.simps[of buf i])
  next
    case (Opt c opt)
    with IH nth[of 0] nth[of 1] nth[of 2] len Cons.prems(1) show ?thesis
      by (simp add: remove_iacs.simps[of buf i] numeral_eq_Suc)
  next
    case (Naws v)
    with IH nth[of 0] nth[of 1] nth[of 2] len Cons.prems(1) show ?thesis
      by (simp add: remove_iacs.simps[of buf i] numeral_eq_Suc)
  qed
qed

section \<open>Output\<close>

lemma pty_first:
  assumes "pty2sock_cache_len st = 0" "NUL \<notin> set b" "length b < 256" "b \<noteq> []"
    "length (replace_all [LF] [CR, LF] b) < 512"
  shows "trans_data_pty2sock (Some b) ready room st =
    trans_data_pty2sock got ready room \<lparr>pty2sock_cache = replace_all [LF] [CR, LF] b,
      pty2sock_cache_len = length (replace_all [LF] [CR, LF] b)\<rparr>"
proof -
  have "cstr (b @ [NUL]) = b" using assms(2) by (rule cstr_append_NUL)
  moreover have "str_replace_substr b [LF] [CR, LF] =
      (int (length (replace_all [LF] [CR, LF] b)), replace_all [LF] [CR, LF] b)"
    by (simp add: str_replace_substr_def replace_loop_eq Let_def)
  moreover have "replace_all [LF] [CR, LF] b \<noteq> []"
    using assms(4) by (subst replace_all.simps) (simp add: neq_Nil_conv)
  ultimately show ?thesis using assms(1,3,5)
    by (cases st) (simp add: trans_data_pty2sock_def Let_def)
qed

section \<open>Sessions, as reachable states\<close>

text \<open>\<open>base\<close>: what is open without a session. While the serving thread waits in \<open>term_session\<close> the session is still open, and
  so is the connection for which it was to make room, if there is one.\<close>

definition held :: "int set \<Rightarrow> session \<Rightarrow> bool" where
  "held base st \<longleftrightarrow>
     (if fd_conn st = 0
      then fd_pty_master st = 0 \<and> fd_pty_slave st = 0 \<and> open_fds st = base \<and> std_to st = None \<and> \<not> waiting st \<and>
        \<not> shell_quit_occurred st \<and> pty2sock_cache_len (out_cache st) = 0
      else fd_conn st > 0 \<and> fd_pty_master st > 0 \<and> fd_pty_slave st > 0 \<and>
        distinct [fd_conn st, fd_pty_master st, fd_pty_slave st] \<and>
        {fd_conn st, fd_pty_master st, fd_pty_slave st} \<inter> base = {} \<and> std_to st \<in> {None, Some (fd_pty_slave st)} \<and>
        (if waiting st
         then (phase st = Login \<or> phase st = In_escape) \<and> shell_thread_should_exit st \<and> \<not> shell_quit_occurred st \<and> std_to st = None \<and>
           (open_fds st = base \<union> {fd_conn st, fd_pty_master st, fd_pty_slave st} \<or>
            (\<exists>fd. fd \<notin> base \<union> {fd_conn st, fd_pty_master st, fd_pty_slave st} \<and>
              open_fds st = insert fd (base \<union> {fd_conn st, fd_pty_master st, fd_pty_slave st})))
         else open_fds st = base \<union> {fd_conn st, fd_pty_master st, fd_pty_slave st}))"

text \<open>New descriptors are positive and differ from the open ones and from each other.\<close>

definition fresh_fds :: "ready \<Rightarrow> session \<Rightarrow> bool" where
  "fresh_fds r st \<longleftrightarrow> accepted r < 0 \<or> (accepted r > 0 \<and> accepted r \<notin> open_fds st \<and>
     (case sv_pair r of None \<Rightarrow> True | Some (m, sl) \<Rightarrow> m > 0 \<and> sl > 0 \<and> m \<noteq> sl \<and>
        m \<notin> insert (accepted r) (open_fds st) \<and> sl \<notin> insert (accepted r) (open_fds st)))"

text \<open>The server's thread and the shell's thread in turn; while the one waits, the other gets no bytes.\<close>

inductive telnetd_step :: "session \<Rightarrow> session \<Rightarrow> bool" where
  misc: "\<not> waiting st \<Longrightarrow> fresh_fds r st \<Longrightarrow> misc_thread_step r st = Some st' \<Longrightarrow> telnetd_step st st'"
| login: "\<not> waiting st \<Longrightarrow> phase st = Login \<Longrightarrow> fd_conn st \<noteq> 0 \<Longrightarrow>
     telnetd_step st (redirect_io (fd_pty_slave st) (st\<lparr>phase := Running\<rparr>))"
| escape: "\<not> waiting st \<Longrightarrow> phase st = Running \<Longrightarrow> telnetd_step st (st\<lparr>phase := In_escape\<rparr>)"
| escaped: "\<not> waiting st \<Longrightarrow> phase st = In_escape \<Longrightarrow> telnetd_step st (st\<lparr>phase := Running\<rparr>)"
| quit: "\<not> waiting st \<Longrightarrow> phase st \<noteq> Ended \<Longrightarrow> fd_conn st \<noteq> 0 \<Longrightarrow>
     telnetd_step st (st\<lparr>phase := Ended, shell_quit_occurred := True\<rparr>)"

lemma held_say [simp]: "held base (say fd x st) = held base st"
  by (simp add: held_def say_def cong: if_cong)

lemma held_cache: "held base st \<Longrightarrow> fd_conn st \<noteq> 0 \<Longrightarrow> held base (st\<lparr>out_cache := c\<rparr>)"
  by (simp add: held_def cong: if_cong)

lemma held_open: "held base st \<Longrightarrow> \<not> waiting st \<Longrightarrow> fd_conn st \<noteq> 0 \<Longrightarrow>
  open_fds st = base \<union> {fd_conn st, fd_pty_master st, fd_pty_slave st} \<and>
  {fd_conn st, fd_pty_master st, fd_pty_slave st} \<inter> base = {}"
  by (simp add: held_def)

text \<open>A session that ends, with one more descriptor open or not.\<close>

lemma term_session_held:
  assumes "held base st" "\<not> waiting st" "extra \<inter> open_fds st = {}" "extra = {} \<or> (\<exists>fd. extra = {fd})"
  shows "let st' = term_session (st\<lparr>open_fds := extra \<union> open_fds st\<rparr>) in
    (waiting st' \<longrightarrow> held base st') \<and>
    (\<not> waiting st' \<longrightarrow> fd_conn st' = 0 \<and> open_fds st' = extra \<union> base \<and> held base (st'\<lparr>open_fds := base\<rparr>))"
proof (cases "fd_conn st = 0")
  case True
  with assms show ?thesis by (simp add: term_session_def held_def)
next
  case F: False
  let ?own = "{fd_conn st, fd_pty_master st, fd_pty_slave st}"
  have o: "open_fds st = base \<union> ?own" "?own \<inter> base = {}" using held_open[OF assms(1,2) F] by blast+
  show ?thesis
  proof (cases "\<not> shell_quit_occurred st \<and> (phase st = Login \<or> phase st = In_escape)")
    case True
    have "extra \<union> (base \<union> ?own) = base \<union> ?own \<or>
        (\<exists>fd. fd \<notin> base \<union> ?own \<and> extra \<union> (base \<union> ?own) = insert fd (base \<union> ?own))"
      using assms(3,4) unfolding o(1) by auto
    with True F assms(1,2) o show ?thesis
      by (simp add: term_session_def restore_ori_io_def held_def Let_def)
  next
    case False
    then have c: "(\<not> shell_quit_occurred st \<and> (phase st = Login \<or> phase st = In_escape)) = False" by blast
    have "extra \<union> (base \<union> ?own) - {fd_conn st, fd_pty_slave st, fd_pty_master st} = extra \<union> base"
      using assms(3) o by blast
    with F assms(2) o(1) c show ?thesis
      by (simp add: term_session_def restore_ori_io_def held_def Let_def del: de_Morgan_conj)
  qed
qed

lemma term_session_alone:
  assumes "held base st" "\<not> waiting st"
  shows "held base (term_session st)"
proof -
  have "st\<lparr>open_fds := {} \<union> open_fds st\<rparr> = st" by simp
  with term_session_held[OF assms, of "{}"] have
    t: "waiting (term_session st) \<longrightarrow> held base (term_session st)"
      "\<not> waiting (term_session st) \<longrightarrow> open_fds (term_session st) = base \<and> held base ((term_session st)\<lparr>open_fds := base\<rparr>)"
    by (simp_all add: Let_def)
  have "(term_session st)\<lparr>open_fds := open_fds (term_session st)\<rparr> = term_session st" by simp
  with t show ?thesis by (cases "waiting (term_session st)") metis+
qed

lemma make_new_session_held:
  assumes "held base (st\<lparr>open_fds := base\<rparr>)" "fd_conn st = 0" "fd > 0" "fd \<notin> base" "open_fds st = {fd} \<union> base"
    "\<And>m sl. sv = Some (m, sl) \<Longrightarrow> m > 0 \<and> sl > 0 \<and> m \<noteq> sl \<and> m \<notin> insert fd base \<and> sl \<notin> insert fd base"
    "make_new_session fd sv st = (ret, st')"
  shows "held base (if ret \<noteq> 0 then st'\<lparr>open_fds := open_fds st' - {fd}\<rparr> else st')"
proof (cases sv)
  case None
  have "(ret, st') = make_new_session fd sv st" using assms(7) by simp
  with None have "ret = -1" "fd_conn st' = fd_conn st" "fd_pty_master st' = fd_pty_master st"
      "fd_pty_slave st' = fd_pty_slave st" "open_fds st' = {fd} \<union> base" "waiting st' = waiting st" "std_to st' = std_to st"
      "shell_quit_occurred st' = shell_quit_occurred st" "out_cache st' = out_cache st"
    by (simp_all add: make_new_session_def snd_iac_def say_def Let_def assms(5))
  moreover have "{fd} \<union> base - {fd} = base" using assms(4) by blast
  ultimately show ?thesis using assms(1,2) by (simp add: held_def)
next
  case (Some p)
  obtain m sl where p: "p = (m, sl)" by (cases p)
  have d: "m > 0" "sl > 0" "m \<noteq> sl" "m \<notin> insert fd base" "sl \<notin> insert fd base" using assms(6) Some p by blast+
  have o: "insert m (insert sl ({fd} \<union> base)) = base \<union> {fd, m, sl}" by blast
  have "(ret, st') = make_new_session fd sv st" using assms(7) by simp
  with Some p o have "ret = 0" "fd_conn st' = fd" "fd_pty_master st' = m" "fd_pty_slave st' = sl"
      "open_fds st' = base \<union> {fd, m, sl}" "waiting st' = waiting st" "std_to st' = std_to st"
    by (simp_all add: make_new_session_def snd_iac_def say_def Let_def assms(5))
  with d assms(1-4) show ?thesis by (simp add: held_def)
qed

lemma trans_data_sock2pty_held:
  assumes "held base st" "\<not> waiting st" "trans_data_sock2pty buf ret st = Some st'"
  shows "held base st'"
proof (cases "ret \<le> 0")
  case True
  with assms(3) have "term_session st = st'" by (simp add: trans_data_sock2pty_def)
  with term_session_alone[OF assms(1,2)] show ?thesis by blast
next
  case False
  with assms(3) obtain bytes where
    "(if 0 < length bytes then say (fd_pty_master st) bytes st else st) = st'"
    by (cases "remove_iacs buf 0 (nat ret)") (simp_all add: trans_data_sock2pty_def)
  with assms(1) held_say show ?thesis by metis
qed

lemma warn_session_fields [simp]:
  "waiting (warn_session st) = waiting st" "open_fds (warn_session st) = open_fds st" "held base (warn_session st) = held base st"
  "(warn_session st)\<lparr>open_fds := fds\<rparr> = warn_session (st\<lparr>open_fds := fds\<rparr>)"
  by (simp_all add: warn_session_def say_def held_def cong: if_cong)

lemma misc_accept_held:
  assumes "held base st" "\<not> waiting st" "fresh_fds r st" "misc_thread_step r st = Some st'" "server_r r"
  shows "held base st'"
proof (cases "accepted r < 0")
  case True
  with assms show ?thesis by (simp add: misc_thread_step_def)
next
  case False
  let ?fd = "accepted r"
  have fd: "?fd > 0" "?fd \<notin> open_fds st" using assms(3) False by (simp_all add: fresh_fds_def)
  have sub: "base \<subseteq> open_fds st" using assms(1,2) by (auto simp: held_def split: if_splits)
  define y where "y = term_session (warn_session (st\<lparr>open_fds := insert ?fd (open_fds st)\<rparr>))"
  have "(waiting y \<longrightarrow> held base y) \<and>
      (\<not> waiting y \<longrightarrow> fd_conn y = 0 \<and> open_fds y = {?fd} \<union> base \<and> held base (y\<lparr>open_fds := base\<rparr>))"
    using term_session_held[of base "warn_session st" "{?fd}"] assms(1,2) fd(2) by (simp add: y_def Let_def)
  then have y: "waiting y \<Longrightarrow> held base y" "\<not> waiting y \<Longrightarrow> fd_conn y = 0" "\<not> waiting y \<Longrightarrow> open_fds y = {?fd} \<union> base"
    "\<not> waiting y \<Longrightarrow> held base (y\<lparr>open_fds := base\<rparr>)" by blast+
  show ?thesis
  proof (cases "waiting y")
    case True
    with assms(4,5) False y(1) show ?thesis by (simp add: misc_thread_step_def Let_def y_def)
  next
    case w: False
    obtain ret st4 where m: "make_new_session ?fd (sv_pair r) y = (ret, st4)"
      by (cases "make_new_session ?fd (sv_pair r) y")
    with assms(4,5) False w have st': "st' = (if ret \<noteq> 0 then st4\<lparr>open_fds := open_fds st4 - {?fd}\<rparr> else st4)"
      by (simp add: misc_thread_step_def Let_def y_def)
    have "ma > 0 \<and> sl > 0 \<and> ma \<noteq> sl \<and> ma \<notin> insert ?fd base \<and> sl \<notin> insert ?fd base"
      if "sv_pair r = Some (ma, sl)" for ma sl
      using assms(3) False that sub by (auto simp: fresh_fds_def)
    moreover have "?fd \<notin> base" using fd(2) sub by blast
    ultimately show ?thesis
      unfolding st' using make_new_session_held[OF y(4)[OF w] y(2)[OF w] fd(1) _ y(3)[OF w] _ m] by blast
  qed
qed

lemma misc_thread_step_held:
  assumes "held base st" "\<not> waiting st" "fresh_fds r st" "misc_thread_step r st = Some st'"
  shows "held base st'"
proof (cases "server_r r")
  case True
  with assms misc_accept_held show ?thesis by blast
next
  case nosrv: False
  show ?thesis
  proof (cases "shell_quit_occurred st \<or> (fd_conn st > 0 \<and> conn_except r)")
    case True
    with assms(4) nosrv have "term_session st = st'" by (simp add: misc_thread_step_def)
    with term_session_alone[OF assms(1,2)] show ?thesis by blast
  next
    case False
    let ?out = "\<lambda>st1. trans_data_pty2sock (pty_got r) (conn_w r) (conn_room r) (out_cache st1)"
    from assms(4) nosrv False obtain st1 where
      st1: "(if fd_conn st > 0 \<and> conn_r r then trans_data_sock2pty (conn_buf r) (conn_ret r) st else Some st) = Some st1"
      and rest: "(if waiting st1 then Some st1
        else if (fd_pty_master st1 > 0 \<and> pty_r r) \<or> pty2sock_cache_len (out_cache st1) > 0 then do {
          (ret, bytes, cache) \<leftarrow> ?out st1;
          let st2 = say (fd_conn st1) bytes (st1\<lparr>out_cache := cache\<rparr>);
          Some (if ret \<noteq> 0 then term_session st2 else st2)
        } else Some st1) = Some st'"
      by (auto simp: misc_thread_step_def Option.bind_eq_Some_conv split: if_splits)
    have h1: "held base st1"
      using st1 assms(1,2) trans_data_sock2pty_held by (auto split: if_splits)
    show ?thesis
    proof (cases "\<not> waiting st1 \<and> ((fd_pty_master st1 > 0 \<and> pty_r r) \<or> pty2sock_cache_len (out_cache st1) > 0)")
      case True
      with h1 have c: "fd_conn st1 \<noteq> 0" by (auto simp: held_def split: if_splits)
      from rest True obtain t where t: "?out st1 = Some t" by (cases "?out st1") auto
      obtain ret bytes cache where "t = (ret, bytes, cache)" by (cases t)
      with rest True t have r: "(if ret \<noteq> 0 then term_session (say (fd_conn st1) bytes (st1\<lparr>out_cache := cache\<rparr>))
          else say (fd_conn st1) bytes (st1\<lparr>out_cache := cache\<rparr>)) = st'"
        by (simp add: Let_def)
      have "held base (say (fd_conn st1) bytes (st1\<lparr>out_cache := cache\<rparr>))"
        using held_cache[OF h1 c] by simp
      moreover have "\<not> waiting (say (fd_conn st1) bytes (st1\<lparr>out_cache := cache\<rparr>))" using True by (simp add: say_def)
      ultimately show ?thesis using r term_session_alone by metis
    next
      case False
      with rest h1 show ?thesis by (auto split: if_splits)
    qed
  qed
qed

section \<open>Properties\<close>

definition fresh_shell :: telnetd where
  "fresh_shell = \<lparr>shell_buf = replicate 512 NUL, shell_buf_cur_len = 0, histotry_cmds = [],
     cur_histotry_cmds_roll_idx = 0, is_password = False, is_login = False, screen = []\<rparr>"

lemma fresh_shell_ready: "shell_ready fresh_shell"
  by (simp add: shell_ready_def fresh_shell_def edit_ok_def line_of_def)

lemmas shell_eval = abs_shell.simps key_kind_def isgraph_def remember_def MAX_HISTORY_CMD_NUM_def

text \<open>C11: The shell runs exactly the commands of an abstract editor and interpreter, on any bytes: a
  line is edited with backspace and the history keys, stored among the last 128 lines, stripped
  of everything but graphic characters and executed, until \<open>quit\<close>. Where the abstract one has
  no result the shell writes outside \<open>shell_buf\<close> or waits within an escape sequence.\<close>

theorem shell_loop_refines_editor:
  assumes "shell_ready st"
  shows "refines_shell (shell_loop exec s st) (abs_shell (histotry_cmds st) (cur_histotry_cmds_roll_idx st) s)"
  using assms by (rule shell_loop_edit)

lemma shell_loop_refines_editor_witness:
  "refines_shell (shell_loop (\<lambda>cmd. cmd) (''lx'' @ [BS] @ ''s'' @ [CR, ESC] @ ''[A'' @ [CR] @ ''quit'' @ [CR]) fresh_shell)
     (Some ([''ls'', ''ls''], True, [''ls'', ''ls'', ''quit'']))"
  using shell_loop_refines_editor[OF fresh_shell_ready, of "\<lambda>cmd. cmd" "''lx'' @ [BS] @ ''s'' @ [CR, ESC] @ ''[A'' @ [CR] @ ''quit'' @ [CR]"]
  by (simp add: shell_eval fresh_shell_def)

text \<open>The login accepts the user \<open>admin\<close> with any password: the thread goes on to run what is typed
  after it.\<close>

theorem login_ignores_password:
  assumes "length (shell_buf st) = 512" "list_all printable p" "length p < 512"
  shows "refines_shell (the_shell_thread_func exec (''admin'' @ CR # p @ CR # s) st)
    (abs_shell [] (cur_histotry_cmds_roll_idx st) s)"
proof -
  let ?st1 = "print_intro (st\<lparr>histotry_cmds := [], shell_buf_cur_len := 0, is_login := False, is_password := False\<rparr>)"
  have "length (shell_buf ?st1) = 512" "shell_buf_cur_len ?st1 = 0" "histotry_cmds ?st1 = []"
    "cur_histotry_cmds_roll_idx ?st1 = cur_histotry_cmds_roll_idx st" "list_all printable ''admin''"
    using assms(1) by (simp_all add: print_intro_def printable_def isgraph_def)
  with login_round[of ?st1 "''admin''" p s] assms obtain st2 where
    st2: "login_auth (''admin'' @ CR # p @ CR # s) ?st1 = Some (0, st2, s)" "length (shell_buf st2) = 512"
      "shell_buf_cur_len st2 = 0" "histotry_cmds st2 = []"
      "cur_histotry_cmds_roll_idx st2 = cur_histotry_cmds_roll_idx st" by auto
  let ?st3 = "print_hint (st2\<lparr>is_password := False, is_login := False\<rparr>)"
  have "shell_ready ?st3" using st2 by (simp add: shell_ready_def edit_ok_def line_of_def print_hint_def)
  from shell_loop_edit[OF this, of exec s] st2 show ?thesis
    by (simp add: the_shell_thread_func_def print_hint_def)
qed

lemma login_ignores_password_witness:
  "refines_shell (the_shell_thread_func (\<lambda>cmd. cmd) (''admin'' @ CR # ''wrong'' @ CR # ''reboot'' @ [CR]) fresh_shell)
     (Some ([''reboot''], False, [''reboot'']))"
  using login_ignores_password[of fresh_shell "''wrong''" "\<lambda>cmd. cmd" "''reboot'' @ [CR]"]
  by (simp add: shell_eval fresh_shell_def printable_def)

text \<open>\<open>remove_iacs\<close> keeps the data bytes of a stream that starts and ends between options, in their
  order, and nothing of the options.\<close>

theorem remove_iacs_roundtrip:
  assumes "list_all item_ok items"
  shows "remove_iacs (concat (map item_bytes items) @ rest) 0 (length (concat (map item_bytes items))) =
    Some (concat (map item_data items))"
  using remove_iacs_items[OF assms, of _ "[]"] by simp

lemma remove_iacs_roundtrip_witness:
  "remove_iacs ([CHR ''l'', IAC, CHR 0xFD, CHR 0x01, IAC, SB, TELOPT_NAWS, NUL, CHR ''P'', NUL, CHR 0x18, IAC, CHR 0xF0,
     CHR ''s''] @ replicate 498 NUL) 0 14 = Some ''ls''"
proof -
  let ?items = "[Data (CHR ''l''), Opt (CHR 0xFD) (CHR 0x01),
    Naws [NUL, CHR ''P'', NUL, CHR 0x18, IAC, CHR 0xF0], Data (CHR ''s'')]"
  have l: "length (concat (map item_bytes ?items)) = 14" by simp
  from remove_iacs_roundtrip[of ?items "replicate 498 NUL", unfolded l] show ?thesis by (simp add: IAC_def SB_def)
qed

text \<open>What the terminal prints reaches the socket with each line feed as CR LF when the socket takes
  it all. When it takes only \<open>k\<close> bytes, the next call sends the remaining number of bytes from
  the start of the cache again.\<close>

theorem pty_output:
  assumes "pty2sock_cache_len st = 0" "NUL \<notin> set b" "length b < 256" "b \<noteq> []"
    and "out = replace_all [LF] [CR, LF] b" "length out < 512" "0 < k" "k < length out" "length out \<le> room"
  shows "trans_data_pty2sock (Some b) True (Some room) st =
      Some (0, out, \<lparr>pty2sock_cache = out, pty2sock_cache_len = 0\<rparr>) \<and>
    (\<exists>st1. trans_data_pty2sock (Some b) True (Some k) st = Some (0, take k out, st1) \<and>
      trans_data_pty2sock got True (Some room) st1 =
        Some (0, take (length out - k) out, st1\<lparr>pty2sock_cache_len := 0\<rparr>))"
proof -
  note f = pty_first[OF assms(1-4) assms(6)[unfolded assms(5)], folded assms(5)]
  have ne: "length out > 0" "out \<noteq> []" using assms(7,8) by auto
  show ?thesis
    using f[of True "Some room" got] f[of True "Some k" got] ne assms(7-9)
    by (simp add: trans_data_pty2sock_def Let_def)
qed

lemma pty_output_witness:
  "trans_data_pty2sock (Some ''abc'') True (Some 9) \<lparr>pty2sock_cache = [], pty2sock_cache_len = 0\<rparr> =
      Some (0, ''abc'', \<lparr>pty2sock_cache = ''abc'', pty2sock_cache_len = 0\<rparr>) \<and>
   (\<exists>st1. trans_data_pty2sock (Some ''abc'') True (Some 2) \<lparr>pty2sock_cache = [], pty2sock_cache_len = 0\<rparr> =
      Some (0, ''ab'', st1) \<and>
      trans_data_pty2sock None True (Some 9) st1 = Some (0, ''a'', st1\<lparr>pty2sock_cache_len := 0\<rparr>))"
proof -
  have r: "replace_all [LF] [CR, LF] ''abc'' = ''abc''" by (simp add: replace_all.simps)
  show ?thesis
    using pty_output[of "\<lparr>pty2sock_cache = [], pty2sock_cache_len = 0\<rparr>" "''abc''" "''abc''" 2 9 None] by (simp add: r)
qed


definition idle_session :: session where
  "idle_session = misc_thread_start {0, 1, 2} [7, 8, 9] 3"

definition connect4 :: ready where
  "connect4 = \<lparr>server_r = True, accepted = 4, sv_pair = Some (5, 6), conn_except = False, conn_r = False,
     conn_buf = [], conn_ret = 0, pty_r = False, pty_got = None, conn_w = False, conn_room = None\<rparr>"

lemma connect4_step:
  "\<exists>st'. misc_thread_step connect4 idle_session = Some st' \<and> open_fds st' = {0, 1, 2, 7, 8, 9, 3, 4, 5, 6} \<and>
     fd_conn st' = 4 \<and> phase st' = Login \<and> \<not> shell_quit_occurred st' \<and> \<not> waiting st'"
  by (auto simp: misc_thread_step_def connect4_def idle_session_def misc_thread_start_def save_ori_io_def term_session_def
      warn_session_def make_new_session_def snd_iac_def say_def Let_def)


text \<open>A client that goes away, fails, or is replaced before its login is complete, or in the middle of an escape
  sequence, stops the server: the thread that serves the sockets waits for a shell that does not hear that it is to end, and
  nothing happens any more.\<close>

theorem telnetd_login_hangs:
  assumes "fd_conn st > 0" "phase st = Login \<or> phase st = In_escape" "\<not> shell_quit_occurred st"
    and "(server_r r \<and> accepted r \<ge> 0) \<or> (\<not> server_r r \<and> (conn_except r \<or> (conn_r r \<and> conn_ret r \<le> 0)))"
  shows "\<exists>st'. misc_thread_step r st = Some st' \<and> waiting st' \<and> fd_conn st' = fd_conn st \<and>
    open_fds st' = open_fds st \<union> (if server_r r then {accepted r} else {}) \<and> (\<forall>st2. \<not> telnetd_step st' st2)"
proof -
  have stuck: "\<not> telnetd_step st1 st2" if "waiting st1" for st1 st2
    using that by (auto elim: telnetd_step.cases)
  show ?thesis
    using assms(4)
  proof
    assume "server_r r \<and> accepted r \<ge> 0"
    with assms(1-3) stuck show ?thesis
      by (auto simp: misc_thread_step_def term_session_def restore_ori_io_def warn_session_def say_def Let_def)
  next
    assume "\<not> server_r r \<and> (conn_except r \<or> (conn_r r \<and> conn_ret r \<le> 0))"
    with assms(1-3) stuck show ?thesis
      by (auto simp: misc_thread_step_def term_session_def restore_ori_io_def trans_data_sock2pty_def Let_def)
  qed
qed

lemma telnetd_login_hangs_witness:
  "\<exists>st' st2. misc_thread_step connect4 idle_session = Some st' \<and> misc_thread_step (connect4\<lparr>accepted := 10\<rparr>) st' = Some st2 \<and>
     waiting st2 \<and> 10 \<in> open_fds st2"
proof -
  obtain st' where m: "misc_thread_step connect4 idle_session = Some st'" "fd_conn st' = 4" "phase st' = Login"
    "\<not> shell_quit_occurred st'" using connect4_step by blast
  from telnetd_login_hangs[of st' "connect4\<lparr>accepted := 10\<rparr>"] m show ?thesis by (auto simp: connect4_def)
qed

end
