(* ===== verification/Symbols.thy ===== *)
theory Symbols
  imports StringUtils CLib
begin

text \<open>
  The symbol table and the command interpreter of the debug shell,
  \<open>libs/app_utils/src/symbol_utils.c\<close>: the table read from the output of \<open>nm -S\<close>, the look-ups,
  the parser of function calls and assignments, and the memory dump. \<open>dlsym\<close>, \<open>dladdr\<close> and
  the functions called are arguments; the memory of the variables maps addresses to bytes,
  which are little-endian as on the x86 machines the source is written for.
\<close>

section \<open>The table\<close>

record t_symbol =
  sym_name :: string
  sym_addr :: u64
  sym_size :: u64

text \<open>\<open>find\<close> is the loop that returns the first match.\<close>

definition addr2symbol :: "t_symbol list \<Rightarrow> u64 \<Rightarrow> t_symbol option" where
  "addr2symbol tab addr = List.find (\<lambda>s. sym_addr s \<le> addr \<and> addr < sym_addr s + sym_size s) tab"

definition name2symbol :: "t_symbol list \<Rightarrow> string \<Rightarrow> t_symbol option" where
  "name2symbol tab name = List.find (\<lambda>s. sym_name s = name) tab"

text \<open>A null address is 0.\<close>

definition name2addr :: "(string \<Rightarrow> u64) \<Rightarrow> t_symbol list \<Rightarrow> string \<Rightarrow> u64" where
  "name2addr dlsym tab name = (case name2symbol tab name of Some s \<Rightarrow> sym_addr s | None \<Rightarrow> dlsym name)"

record dl_info =
  dli_fname :: string
  dli_sname :: "string option"
  dli_saddr :: u64

definition addr2symbol_info ::
    "(u64 \<Rightarrow> int \<times> dl_info) \<Rightarrow> string \<Rightarrow> t_symbol list \<Rightarrow> u64 \<Rightarrow> int \<times> dl_info" where
  "addr2symbol_info dladdr exe_file_path tab addr =
     (case addr2symbol tab addr of
        None \<Rightarrow> dladdr addr
      | Some s \<Rightarrow> (1, \<lparr>dli_fname = exe_file_path, dli_sname = Some (sym_name s), dli_saddr = sym_addr s\<rparr>))"

section \<open>Reading the table\<close>

text \<open>One line: the slot it writes to (a leading digit is enough for the address to be stored),
  and the symbol if all its four columns are there.\<close>

definition line_tokens :: "string \<Rightarrow> string list" where
  "line_tokens line = strtok_all (CHR '' '') (cstr (trim_new_line (line @ [NUL])))"

definition stores_addr :: "string list \<Rightarrow> bool" where
  "stores_addr toks \<longleftrightarrow> (case toks of [] \<Rightarrow> False | a # _ \<Rightarrow> isdigit (hd a))"

definition line_symbol :: "string list \<Rightarrow> t_symbol option" where
  "line_symbol toks =
     (case toks of
        a # sz # ty # nm # _ \<Rightarrow>
          if isdigit (hd a) \<and> isdigit (hd sz)
          then Some \<lparr>sym_name = nm, sym_addr = strtoul a 16, sym_size = strtoul sz 16\<rparr> else None
      | _ \<Rightarrow> None)"

text \<open>The loop over the file; the table has room for \<open>cap\<close> symbols, a name for 128 bytes. The code checks
  neither: \<open>None\<close> is not a result of its own but undefined behaviour, the address of a line stored behind the
  table or \<open>strcpy\<close> running out of the array of the name, after which nothing is known of the program.\<close>

function get_symbols :: "nat \<Rightarrow> string \<Rightarrow> t_symbol list \<Rightarrow> t_symbol list option" where
  "get_symbols cap file tab =
     (case fgets 256 file of
        None \<Rightarrow> Some tab
      | Some (line, rest) \<Rightarrow>
          let toks = line_tokens line
          in if stores_addr toks \<and> cap \<le> length tab then None
             else (case line_symbol toks of
                     None \<Rightarrow> get_symbols cap rest tab
                   | Some s \<Rightarrow> if 128 \<le> length (sym_name s) then None
                       else get_symbols cap rest (tab @ [s])))"
  by pat_completeness auto
termination
  by (relation "measure (\<lambda>(cap, file, tab). length file)") (auto dest: fgets_shorter[rotated])

declare get_symbols.simps [simp del]

text \<open>\<open>gen_symbol_tab\<close>: \<open>num\<close> is the result of \<open>nm -S | wc -l\<close>, \<open>nm\<close> the listing if it can be read.\<close>

definition gen_symbol_tab :: "nat option \<Rightarrow> bool \<Rightarrow> string option \<Rightarrow> t_symbol list option" where
  "gen_symbol_tab num alloc_ok nm =
     (case num of None \<Rightarrow> Some []
      | Some symb_num \<Rightarrow> if \<not> alloc_ok then Some []
          else (case nm of None \<Rightarrow> Some [] | Some file \<Rightarrow> get_symbols symb_num file []))"

section \<open>Function calls\<close>

datatype arg = Num u64 | Str string

definition MAX_ARG_NUM :: nat where "MAX_ARG_NUM = 8"

text \<open>\<open>parse_function_args\<close> from argument number \<open>arg_nr\<close>; the text ends at \<open>para_str_end\<close>.
  \<open>None\<close> is the return value -1. The rest of the text after an argument is skipped up to a comma.\<close>

function parse_args_from :: "nat \<Rightarrow> string \<Rightarrow> arg list option" where
  "parse_args_from arg_nr cur_arg =
     (let go_on = (\<lambda>a rest.
        case strchr (CHR '','') rest of
          None \<Rightarrow> Some [a]
        | Some (_, next_arg) \<Rightarrow>
            if arg_nr + 1 < MAX_ARG_NUM then map_option (\<lambda>as. a # as) (parse_args_from (arg_nr + 1) next_arg)
            else Some [a])
      in case cur_arg of
           [] \<Rightarrow> None
         | c # s \<Rightarrow>
             if isdigit c \<or> c = CHR ''-'' then go_on (Num (word_of_int (strtol cur_arg 0))) cur_arg
             else if c = CHR 0x22 then
               (case strchr (CHR 0x22) s of None \<Rightarrow> None
                | Some (str, rest) \<Rightarrow> go_on (Str str) rest)
             else None)"
  by pat_completeness auto
termination by (relation "measure (\<lambda>(n, s). MAX_ARG_NUM - n)") (auto simp: MAX_ARG_NUM_def)

declare parse_args_from.simps [simp del]

definition parse_function_args :: "string \<Rightarrow> arg list option" where
  "parse_function_args params = (if params = [] then Some [] else parse_args_from 0 params)"

text \<open>The left summand is what is printed when -1 is returned.\<close>

definition parse_func_call ::
    "(string \<Rightarrow> u64) \<Rightarrow> t_symbol list \<Rightarrow> string \<Rightarrow> (string + u64 \<times> arg list) option" where
  "parse_func_call dlsym tab buf =
     (case strchr (CHR ''('') buf of
        None \<Rightarrow> None
      | Some (func_name, para_str_begin) \<Rightarrow>
          let fun_addr = name2addr dlsym tab func_name
          in if fun_addr = 0 then Some (Inl (''unknown function '' @ func_name))
             else if func_name = ''exit'' \<or> func_name = ''abort''
             then Some (Inl (''wanna to exit the debug shell? please input quit'' @ [LF]))
             else (case strrchr (CHR '')'') para_str_begin of
                     None \<Rightarrow> Some (Inl ''invalid function call syntax'')
                   | Some (params, _) \<Rightarrow>
                       (case parse_function_args params of
                          None \<Rightarrow> Some (Inl ''invalid function call syntax'')
                        | Some args \<Rightarrow> Some (Inr (fun_addr, args)))))"

section \<open>Printing\<close>

text \<open>The values at their widths as hexadecimal and signed decimal.\<close>

definition show_value :: "nat \<Rightarrow> nat \<Rightarrow> string \<times> string" where
  "show_value sz v =
     (show_nat 16 v, show_int (if v < 2 ^ (8 * sz - 1) then int v else int v - 2 ^ (8 * sz)))"

definition return_line :: "string \<Rightarrow> nat \<Rightarrow> u64 \<Rightarrow> string" where
  "return_line label sz ret =
     (case show_value sz (unat ret mod 2 ^ (8 * sz)) of (hex, dec) \<Rightarrow>
        label @ '':0x'' @ pad_right 16 hex @ '' ('' @ dec @ '')'' @ [LF])"

text \<open>The called function gets the parsed arguments and, up to eight, what was on the stack.\<close>

type_synonym vmem = "u64 \<Rightarrow> u8"

definition return_report :: "u64 \<Rightarrow> string" where
  "return_report ret =
     [LF] @ ''[return value] :(ignore it if no return value)'' @ [LF] @
     return_line ''1 byte '' 1 ret @ return_line ''2 bytes'' 2 ret @
     return_line ''4 bytes'' 4 ret @ return_line ''8 bytes'' 8 ret"

definition do_call_func ::
    "(u64 \<Rightarrow> arg list \<Rightarrow> vmem \<Rightarrow> u64 \<times> string \<times> vmem) \<Rightarrow> arg list \<Rightarrow> u64 \<Rightarrow> arg list \<Rightarrow> vmem \<Rightarrow> string \<times> vmem" where
  "do_call_func call junk pfunc args m =
     (case call pfunc (args @ drop (length args) junk) m of (ret, out, m') \<Rightarrow> (out @ return_report ret, m'))"

definition exec_function ::
    "(u64 \<Rightarrow> arg list \<Rightarrow> vmem \<Rightarrow> u64 \<times> string \<times> vmem) \<Rightarrow> arg list \<Rightarrow> (string \<Rightarrow> u64) \<Rightarrow> t_symbol list \<Rightarrow>
      string \<Rightarrow> vmem \<Rightarrow> (string \<times> vmem) option" where
  "exec_function call junk dlsym tab buf m =
     (case parse_func_call dlsym tab buf of
        None \<Rightarrow> None
      | Some (Inl msg) \<Rightarrow> Some (msg, m)
      | Some (Inr (pfunc, args)) \<Rightarrow> Some (do_call_func call junk pfunc args m))"

section \<open>Variables\<close>

fun rd_le :: "nat \<Rightarrow> u64 \<Rightarrow> vmem \<Rightarrow> nat" where
  "rd_le 0 a m = 0"
| "rd_le (Suc n) a m = unat (m a) + 256 * rd_le n (a + 1) m"

fun wr_le :: "nat \<Rightarrow> u64 \<Rightarrow> nat \<Rightarrow> vmem \<Rightarrow> vmem" where
  "wr_le 0 a v m = m"
| "wr_le (Suc n) a v m = (wr_le n (a + 1) (v div 256) m)(a := of_nat (v mod 256))"

definition size_known :: "u64 \<Rightarrow> bool" where
  "size_known sz \<longleftrightarrow> sz = 1 \<or> sz = 2 \<or> sz = 4 \<or> sz = 8"

definition show_var_info :: "t_symbol list \<Rightarrow> string \<Rightarrow> vmem \<Rightarrow> string" where
  "show_var_info tab var_name m =
     (case name2symbol tab var_name of
        None \<Rightarrow> ''unknown var '' @ var_name
      | Some s \<Rightarrow>
          ''[var address] : '' @ (if sym_addr s = 0 then ''(nil)'' else ''0x'' @ show_nat 16 (unat (sym_addr s))) @ [LF] @
          ''[size] : '' @ show_dec (unat (sym_size s)) @ [LF] @ ''[value] :'' @
          (if size_known (sym_size s)
           then let sz = unat (sym_size s)
                in case show_value sz (rd_le sz (sym_addr s) m) of (hex, dec) \<Rightarrow>
                     ''0x'' @ hex @ '' ('' @ dec @ '')'' @ [LF]
           else ''variable size abnormal''))"

definition assign_var :: "t_symbol list \<Rightarrow> string \<Rightarrow> vmem \<Rightarrow> (string \<times> vmem) option" where
  "assign_var tab buf m =
     (case strchr (CHR ''='') buf of
        None \<Rightarrow> None
      | Some (var_name, para_str_begin) \<Rightarrow>
          (case name2symbol tab var_name of
             None \<Rightarrow> Some (''unknown var '' @ var_name, m)
           | Some s \<Rightarrow>
               if \<not> (case para_str_begin of [] \<Rightarrow> False
                     | c # _ \<Rightarrow> isdigit c \<or> c = CHR ''+'' \<or> c = CHR ''-'')
               then Some (''invalid variable assign syntax'', m)
               else if size_known (sym_size s)
               then let sz = unat (sym_size s);
                        v = nat (strtol para_str_begin 0 mod 2 ^ (8 * sz));
                        m' = wr_le sz (sym_addr s) v m
                    in Some (show_var_info tab var_name m', m')
               else Some (''variable size abnormal'', m)))"

section \<open>The memory dump\<close>

definition readable :: "u8 \<Rightarrow> char" where
  "readable b = (if 31 < b \<and> b < 127 then char_of (unat b) else CHR ''*'')"

text \<open>One line, of at most 16 bytes from \<open>cur_pos\<close>.\<close>

definition dump_line :: "u64 \<Rightarrow> u8 list \<Rightarrow> string" where
  "dump_line cur_pos bytes =
     pad_right 16 (show_nat 16 (unat cur_pos)) @ '': '' @
     concat (map (\<lambda>b. show_02x b @ '' '') bytes) @ replicate (3 * (16 - length bytes)) (CHR '' '') @ '': '' @
     map readable bytes @ replicate (16 - length bytes) (CHR '' '') @ [LF]"

definition bytes_from :: "vmem \<Rightarrow> u64 \<Rightarrow> nat \<Rightarrow> u8 list" where
  "bytes_from m a n = map (\<lambda>i. m (a + of_nat i)) [0..<n]"

text \<open>The command \<open>d\<close>.\<close>

function d_dump :: "vmem \<Rightarrow> u64 \<Rightarrow> int \<Rightarrow> string" where
  "d_dump m cur_pos len =
     (if 16 \<le> len then dump_line cur_pos (bytes_from m cur_pos 16) @ d_dump m (cur_pos + 16) (len - 16)
      else if 0 < len then dump_line cur_pos (bytes_from m cur_pos (nat len)) else [])"
  by pat_completeness auto
termination by (relation "measure (\<lambda>(m, a, len). nat len)") auto

declare d_dump.simps [simp del]

section \<open>Commands\<close>

definition proccess_cmd ::
    "(u64 \<Rightarrow> arg list \<Rightarrow> vmem \<Rightarrow> u64 \<times> string \<times> vmem) \<Rightarrow> arg list \<Rightarrow> (string \<Rightarrow> u64) \<Rightarrow> t_symbol list \<Rightarrow>
      string \<Rightarrow> vmem \<Rightarrow> (string \<times> vmem) option" where
  "proccess_cmd call junk dlsym tab cmd_line m =
     (if strchr (CHR ''('') cmd_line = None then
        if strchr (CHR ''='') cmd_line = None then Some (show_var_info tab cmd_line m, m)
        else assign_var tab cmd_line m
      else exec_function call junk dlsym tab cmd_line m)"

section \<open>Calls are parsed as they are written\<close>

fun show_arg :: "arg \<Rightarrow> string" where
  "show_arg (Num w) = show_int (sint w)"
| "show_arg (Str s) = CHR 0x22 # s @ [CHR 0x22]"

fun arg_ok :: "arg \<Rightarrow> bool" where
  "arg_ok (Num w) \<longleftrightarrow> True"
| "arg_ok (Str s) \<longleftrightarrow> CHR 0x22 \<notin> set s"

fun show_args :: "arg list \<Rightarrow> string" where
  "show_args [] = []"
| "show_args [a] = show_arg a"
| "show_args (a # b # as) = show_arg a @ CHR '','' # show_args (b # as)"

definition show_call :: "string \<Rightarrow> arg list \<Rightarrow> string" where
  "show_call f args = f @ CHR ''('' # show_args args @ [CHR '')'']"

lemma parse_arg:
  assumes "arg_ok a" "rest = [] \<or> hd rest = CHR '',''"
  shows "parse_args_from n (show_arg a @ rest) = (case rest of [] \<Rightarrow> Some [a]
    | _ # t \<Rightarrow> if n + 1 < MAX_ARG_NUM then map_option (\<lambda>as. a # as) (parse_args_from (n + 1) t) else Some [a])"
proof (cases a)
  case (Num w)
  obtain c s where cs: "show_int (sint w) = c # s" by (cases "show_int (sint w)") auto
  have c: "isdigit c \<or> c = CHR ''-''" using show_int_chars[of c "sint w"] cs by simp
  have no: "CHR '','' \<notin> set (show_int (sint w))"
    using show_int_chars[of "CHR '',''" "sint w"] by (auto simp: isdigit_def)
  have v: "strtol (show_int (sint w) @ rest) 0 = sint w"
    using assms(2) sint_range'[of w] by (intro strtol0_show_int) (auto simp: digit_value_def)
  have sc: "strchr (CHR '','') (show_int (sint w) @ rest) =
      (case rest of [] \<Rightarrow> None | _ # t \<Rightarrow> Some (show_int (sint w), t))"
    using assms(2) no strchr_append[OF no] by (cases rest) (auto simp: strchr_None)
  show ?thesis
    using c v sc cs Num by (subst parse_args_from.simps) (auto simp: Let_def split: list.splits)
next
  case (Str str)
  then have "CHR 0x22 \<notin> set str" using assms(1) by simp
  from strchr_append[OF this, of rest] Str assms(2) show ?thesis
    by (subst parse_args_from.simps) (auto simp: Let_def isdigit_def split: list.splits)
qed

lemma parse_args_take:
  assumes "list_all arg_ok (a # as)" "n < MAX_ARG_NUM"
  shows "parse_args_from n (show_args (a # as)) = Some (take (MAX_ARG_NUM - n) (a # as))"
  using assms
proof (induction as arbitrary: a n)
  case Nil
  with parse_arg[of a "[]" n] show ?case by (simp add: take_Cons')
next
  case (Cons b as)
  show ?case
  proof (cases "n + 1 < MAX_ARG_NUM")
    case True
    with Cons.IH[of b "n + 1"] Cons.prems parse_arg[of a "CHR '','' # show_args (b # as)" n] show ?thesis
      by (simp add: take_Cons')
  next
    case False
    with Cons.prems parse_arg[of a "CHR '','' # show_args (b # as)" n] show ?thesis
      by (simp add: take_Cons')
  qed
qed

lemma parse_function_args_show:
  assumes "list_all arg_ok args"
  shows "parse_function_args (show_args args) = Some (take MAX_ARG_NUM args)"
proof (cases args)
  case Nil
  then show ?thesis by (simp add: parse_function_args_def)
next
  case (Cons a as)
  have "show_arg x \<noteq> []" for x by (cases x) simp_all
  then have "show_args args \<noteq> []" using Cons by (cases as) simp_all
  with Cons assms parse_args_take[of a as 0] show ?thesis
    by (simp add: parse_function_args_def MAX_ARG_NUM_def)
qed

lemma parse_func_call_show:
  assumes "CHR ''('' \<notin> set f" "name2addr dlsym tab f \<noteq> 0" "f \<noteq> ''exit''" "f \<noteq> ''abort''" "list_all arg_ok args"
  shows "parse_func_call dlsym tab (show_call f args) = Some (Inr (name2addr dlsym tab f, take 8 args))"
proof -
  have "strchr (CHR ''('') (show_call f args) = Some (f, show_args args @ [CHR '')''])"
    using strchr_append[OF assms(1)] by (simp add: show_call_def)
  moreover have "strrchr (CHR '')'') (show_args args @ [CHR '')'']) = Some (show_args args, [])"
    by (rule strrchr_append) simp
  ultimately show ?thesis
    using assms(2-4) parse_function_args_show[OF assms(5)]
    by (simp add: parse_func_call_def Let_def MAX_ARG_NUM_def)
qed

section \<open>Listings of \<open>nm -S\<close>\<close>

text \<open>\<open>%0kx\<close>.\<close>

fun show_hex :: "nat \<Rightarrow> nat \<Rightarrow> string" where
  "show_hex 0 n = []"
| "show_hex (Suc k) n = digit_char (n div 16 ^ k mod 16) # show_hex k n"

datatype nm_line = Sized char t_symbol | Unsized u64 char string | Undef char string

fun nm_text :: "nm_line \<Rightarrow> string" where
  "nm_text (Sized ty s) = show_hex 16 (unat (sym_addr s)) @ CHR '' '' # show_hex 16 (unat (sym_size s)) @
     [CHR '' '', ty, CHR '' ''] @ sym_name s"
| "nm_text (Unsized a ty nm) = show_hex 16 (unat a) @ [CHR '' '', ty, CHR '' ''] @ nm"
| "nm_text (Undef ty nm) = replicate 17 (CHR '' '') @ [ty, CHR '' ''] @ nm"

definition name_ok :: "string \<Rightarrow> bool" where
  "name_ok nm \<longleftrightarrow> nm \<noteq> [] \<and> length nm < 128 \<and> list_all isgraph nm"

definition type_ok :: "char \<Rightarrow> bool" where
  "type_ok ty \<longleftrightarrow> isgraph ty \<and> \<not> isdigit ty"

fun nm_ok :: "nm_line \<Rightarrow> bool" where
  "nm_ok (Sized ty s) \<longleftrightarrow> type_ok ty \<and> name_ok (sym_name s)"
| "nm_ok (Unsized a ty nm) \<longleftrightarrow> type_ok ty \<and> name_ok nm"
| "nm_ok (Undef ty nm) \<longleftrightarrow> type_ok ty \<and> name_ok nm"

text \<open>What the parser takes for a number must start with a decimal digit.\<close>

definition low :: "u64 \<Rightarrow> bool" where
  "low a \<longleftrightarrow> unat a < 10 * 16 ^ 15"

fun nm_symbol :: "nm_line \<Rightarrow> t_symbol option" where
  "nm_symbol (Sized ty s) = (if low (sym_addr s) \<and> low (sym_size s) then Some s else None)"
| "nm_symbol _ = None"

lemma digit_char_graph: "n < 16 \<Longrightarrow> isgraph (digit_char n)"
  by (simp add: digit_char_def isgraph_def)

lemma show_hex_graph: "list_all isgraph (show_hex k n)"
  by (induction k) (simp_all add: digit_char_graph)

lemma length_show_hex [simp]: "length (show_hex k n) = k"
  by (induction k) simp_all

lemma read_show_hex: "read_digits 16 (show_hex k n) acc = acc * 16 ^ k + n mod 16 ^ k"
proof (induction k arbitrary: acc)
  case (Suc k)
  have d: "n div 16 ^ k mod 16 < 16" by simp
  have "n mod 16 ^ Suc k = n div 16 ^ k mod 16 * 16 ^ k + n mod 16 ^ k"
    by (metis div_mult_mod_eq mod_mult2_eq mult.commute power_Suc2)
  with Suc d show ?case by (simp add: digit_value_char algebra_simps)
qed simp

lemma show_hex16:
  "show_hex 16 n = digit_char (n div 16 ^ 15 mod 16) # show_hex 15 n"
  "show_hex 15 n = digit_char (n div 16 ^ 14 mod 16) # show_hex 14 n"
  using show_hex.simps(2)[of 15 n] show_hex.simps(2)[of 14 n] by (simp_all only: Suc_numeral add_num_simps)

lemma isdigit_digit_char: "n < 16 \<Longrightarrow> isdigit (digit_char n) \<longleftrightarrow> n < 10"
  by (auto simp: digit_char_def isdigit_def)

lemma hex16_head: "isdigit (hd (show_hex 16 (unat (a :: u64)))) \<longleftrightarrow> low a"
proof -
  have "unat a < 16 ^ 16" using unat_bound[of a] by simp
  then have d: "unat a div 16 ^ 15 < 16" by (simp add: div_less_iff_less_mult)
  then have "isdigit (hd (show_hex 16 (unat a))) \<longleftrightarrow> unat a div 16 ^ 15 < 10"
    by (simp only: show_hex16 list.sel mod_less isdigit_digit_char)
  also have "\<dots> \<longleftrightarrow> low a" unfolding low_def by (simp add: div_less_iff_less_mult)
  finally show ?thesis .
qed

lemma digit_char_plain:
  assumes "n < 16"
  shows "\<not> isspace (digit_char n)" "digit_char n \<noteq> CHR ''-''" "digit_char n \<noteq> CHR ''+''"
    "digit_char n \<noteq> CHR ''x''" "digit_char n \<noteq> CHR ''X''"
  using digit_value_char[of n] digit_not_space[of "digit_char n" n] assms
  by (auto simp: digit_value_def)

lemma strtoul_hex16: "strtoul (show_hex 16 (unat (a :: u64))) 16 = a"
proof -
  have u: "unat a < 2 ^ 64" using unat_bound[of a] by simp
  have v: "read_digits 16 (show_hex 16 (unat a)) 0 = unat a" using u by (simp only: read_show_hex) simp
  have d: "n mod 16 < 16" for n :: nat by simp
  have "signed_digits (show_hex 16 (unat a)) 16 = (False, unat a)"
    using v digit_char_plain[OF d, of "unat a div 16 ^ 15"] digit_char_plain[OF d, of "unat a div 16 ^ 14"]
    by (simp add: signed_digits_def drop_0x_def Let_def show_hex16 del: show_hex.simps)
  with u show ?thesis by (simp add: strtoul_def)
qed

lemma graph_not_blank:
  assumes "list_all isgraph w"
  shows "CHR '' '' \<notin> set w" "LF \<notin> set w" "CR \<notin> set w" "NUL \<notin> set w"
proof -
  have "\<not> isgraph (CHR '' '')" "\<not> isgraph LF" "\<not> isgraph CR" "\<not> isgraph NUL" by (simp_all add: isgraph_def)
  with assms show "CHR '' '' \<notin> set w" "LF \<notin> set w" "CR \<notin> set w" "NUL \<notin> set w"
    by (auto simp: list_all_iff)
qed

lemma strtok_token:
  "w \<noteq> [] \<Longrightarrow> CHR '' '' \<notin> set w \<Longrightarrow> strtok_all (CHR '' '') (w @ CHR '' '' # s) = w # strtok_all (CHR '' '') s"
  by (simp add: strtok_from_append)

lemma strtok_last: "w \<noteq> [] \<Longrightarrow> CHR '' '' \<notin> set w \<Longrightarrow> strtok_all (CHR '' '') w = [w]"
  using strtok_from_append[of "CHR '' ''" w "[]" "[]"] by simp

lemma strtok_blanks: "strtok_all c (replicate n c @ s) = strtok_all c s"
  by (induction n) simp_all

fun nm_tokens :: "nm_line \<Rightarrow> string list" where
  "nm_tokens (Sized ty s) = [show_hex 16 (unat (sym_addr s)), show_hex 16 (unat (sym_size s)), [ty], sym_name s]"
| "nm_tokens (Unsized a ty nm) = [show_hex 16 (unat a), [ty], nm]"
| "nm_tokens (Undef ty nm) = [[ty], nm]"

lemma hex_ne [simp]: "show_hex 16 n \<noteq> []"
  using length_show_hex[of 16 n] by (metis list.size(3) zero_neq_numeral)

lemma nm_text_shape:
  assumes "nm_ok l"
  shows "strtok_all (CHR '' '') (nm_text l) = nm_tokens l"
    and "LF \<notin> set (nm_text l)" "CR \<notin> set (nm_text l)" "NUL \<notin> set (nm_text l)"
    and "length (nm_text l) < 255" "nm_text l \<noteq> []"
proof -
  note hex = graph_not_blank[OF show_hex_graph]
  note tok = strtok_token[OF hex_ne hex(1)]
  have ty: "CHR '' '' \<noteq> ty \<and> LF \<noteq> ty \<and> CR \<noteq> ty \<and> NUL \<noteq> ty" if "type_ok ty" for ty
    using that graph_not_blank[of "[ty]"] by (simp add: type_ok_def)
  have nm: "CHR '' '' \<notin> set nm" "LF \<notin> set nm" "CR \<notin> set nm" "NUL \<notin> set nm" if "name_ok nm" for nm
    using that graph_not_blank[of nm] by (auto simp: name_ok_def)
  have nme: "nm \<noteq> []" if "name_ok nm" for nm using that by (simp add: name_ok_def)
  have t1: "strtok_all (CHR '' '') (ty # CHR '' '' # nm) = [[ty], nm]" if "type_ok ty" "name_ok nm" for ty nm
    using strtok_token[of "[ty]" nm] strtok_last[OF nme nm(1)] ty[OF that(1)] that by auto
  show "strtok_all (CHR '' '') (nm_text l) = nm_tokens l"
    using assms by (cases l) (auto simp: tok t1 strtok_blanks simp del: show_hex.simps strtok_from.simps replicate.simps)
  show "LF \<notin> set (nm_text l)" "CR \<notin> set (nm_text l)" "NUL \<notin> set (nm_text l)"
    using assms by (cases l; auto simp: hex dest: ty nm)+
  show "length (nm_text l) < 255" using assms by (cases l) (auto simp: name_ok_def)
  show "nm_text l \<noteq> []" by (cases l) simp_all
qed

lemma nm_text_last:
  assumes "nm_ok l"
  shows "last (nm_text l) \<noteq> LF" "last (nm_text l) \<noteq> CR"
  using nm_text_shape(2,3,6)[OF assms] last_in_set by metis+

lemma line_tokens_nm:
  assumes "nm_ok l"
  shows "line_tokens (nm_text l @ [LF]) = nm_tokens l"
proof -
  have "holds ((nm_text l @ [LF]) @ [NUL]) (nm_text l @ [LF])"
    using nm_text_shape(4)[OF assms] by (auto simp: holds_def)
  from trim_new_line_result[OF this] nm_text_last[OF assms] nm_text_shape(6)[OF assms]
  have "cstr (trim_new_line ((nm_text l @ [LF]) @ [NUL])) = nm_text l"
    by (cases "nm_text l" rule: rev_cases) auto
  with nm_text_shape(1)[OF assms] show ?thesis by (simp add: line_tokens_def)
qed

lemma nm_line_symbol:
  assumes "nm_ok l"
  shows "line_symbol (nm_tokens l) = nm_symbol l"
proof (cases l)
  case (Sized ty s)
  then show ?thesis
    by (cases s) (simp add: line_symbol_def hex16_head strtoul_hex16 del: show_hex.simps)
qed (simp_all add: line_symbol_def)

lemma get_symbols_line:
  assumes "nm_ok l" "length tab < cap"
  shows "get_symbols cap (nm_text l @ LF # rest) tab =
    (case nm_symbol l of None \<Rightarrow> get_symbols cap rest tab | Some s \<Rightarrow> get_symbols cap rest (tab @ [s]))"
proof -
  have "fgets 256 (nm_text l @ LF # rest) = Some (nm_text l @ [LF], rest)"
    using take_line_LF[of "nm_text l" 255 rest] nm_text_shape(2,5)[OF assms(1)] by (simp add: fgets_def)
  moreover have "length (sym_name s) < 128" if "nm_symbol l = Some s" for s
    using that assms(1) by (cases l) (auto simp: name_ok_def split: if_splits)
  ultimately show ?thesis
    using assms(2) line_tokens_nm[OF assms(1)] nm_line_symbol[OF assms(1)]
    by (subst get_symbols.simps) (auto simp: Let_def split: option.split dest: leD)
qed

lemma get_symbols_nm:
  assumes "list_all nm_ok ls" "length tab + length ls \<le> cap"
  shows "get_symbols cap (concat (map (\<lambda>l. nm_text l @ [LF]) ls)) tab = Some (tab @ List.map_filter nm_symbol ls)"
  using assms
proof (induction ls arbitrary: tab)
  case Nil
  then show ?case by (simp add: get_symbols.simps fgets_def map_filter_def)
next
  case (Cons l ls)
  then show ?case
    using get_symbols_line[of l tab cap "concat (map (\<lambda>l. nm_text l @ [LF]) ls)"]
    by (cases "nm_symbol l") (simp_all add: map_filter_def)
qed

section \<open>Memory\<close>

lemma wr_le_other: "(\<forall>k < n. x \<noteq> a + of_nat k) \<Longrightarrow> wr_le n a v m x = m x"
proof (induction n arbitrary: a v)
  case (Suc n)
  have "\<forall>k < n. x \<noteq> a + 1 + of_nat k"
  proof (intro allI impI)
    fix k assume "k < n"
    then have "x \<noteq> a + of_nat (Suc k)" using Suc.prems by blast
    then show "x \<noteq> a + 1 + of_nat k" by (simp add: algebra_simps)
  qed
  moreover have "x \<noteq> a" using Suc.prems by (auto dest: spec[of _ 0])
  ultimately show ?case using Suc.IH by simp
qed simp

lemma rd_le_cong: "(\<And>k. k < n \<Longrightarrow> m (a + of_nat k) = m' (a + of_nat k)) \<Longrightarrow> rd_le n a m = rd_le n a m'"
proof (induction n arbitrary: a)
  case (Suc n)
  have "m (a + 1 + of_nat k) = m' (a + 1 + of_nat k)" if "k < n" for k
    using Suc.prems[of "Suc k"] that by (simp add: algebra_simps)
  with Suc.IH[of "a + 1"] Suc.prems[of 0] show ?case by simp
qed simp

lemma rd_wr_le: "n \<le> 8 \<Longrightarrow> rd_le n a (wr_le n a v m) = v mod 256 ^ n"
proof (induction n arbitrary: a v)
  case (Suc n)
  have off: "a + 1 + of_nat k \<noteq> a" if "k < n" for k
  proof
    assume "a + 1 + of_nat k = a"
    then have "(of_nat (Suc k) :: u64) = 0" by (simp add: algebra_simps)
    moreover have "unat (of_nat (Suc k) :: u64) = Suc k"
      using that Suc.prems by (intro unat_of_nat_small) simp
    ultimately show False by simp
  qed
  have "rd_le n (a + 1) ((wr_le n (a + 1) (v div 256) m)(a := of_nat (v mod 256))) =
      rd_le n (a + 1) (wr_le n (a + 1) (v div 256) m)"
    by (rule rd_le_cong) (use off in simp)
  moreover have "v mod 256 ^ Suc n = v mod 256 + 256 * (v div 256 mod 256 ^ n)"
    by (simp add: mod_mult2_eq)
  moreover have "unat (of_nat (v mod 256) :: u8) = v mod 256" by (intro unat_of_nat_small) simp
  ultimately show ?case
    using Suc unfolding wr_le.simps rd_le.simps fun_upd_same by simp
qed simp

section \<open>Dumps\<close>

lemma length_show_nat: "n < b ^ k \<Longrightarrow> 0 < k \<Longrightarrow> 2 \<le> b \<Longrightarrow> length (show_nat b n) \<le> k"
proof (induction k arbitrary: n)
  case (Suc k)
  show ?case
  proof (cases "n < b")
    case True
    then show ?thesis by (simp add: show_nat.simps[of b n])
  next
    case False
    then have "k \<noteq> 0" using Suc.prems(1) by (cases k) auto
    moreover have "n div b < b ^ k"
      using Suc.prems(1,3) by (simp add: less_mult_imp_div_less mult.commute)
    ultimately show ?thesis using Suc False by (simp add: show_nat.simps[of b n])
  qed
qed simp

lemma length_hex_columns: "length (concat (map (\<lambda>b. show_02x b @ '' '') bytes)) = 3 * length bytes"
  by (induction bytes) (simp_all add: show_02x_def)

lemma length_pad: "length s \<le> n \<Longrightarrow> length (pad_right n s) = n"
  by (simp add: pad_right_def)

lemma length_addr: "length (pad_right 16 (show_nat 16 (unat (a :: u64)))) = 16"
proof (rule length_pad)
  have "unat a < 16 ^ 16" using unat_bound[of a] by simp
  then show "length (show_nat 16 (unat a)) \<le> 16" by (intro length_show_nat) simp_all
qed

lemma length_dump_line: "length bytes \<le> 16 \<Longrightarrow> length (dump_line a bytes) = 85"
  by (simp add: dump_line_def length_addr length_hex_columns)

text \<open>Reading a dump back: the hexadecimal columns of each line.\<close>

fun hex_columns :: "string \<Rightarrow> u8 list" where
  "hex_columns (h # l # _ # s) = (case (digit_value h, digit_value l) of
     (Some x, Some y) \<Rightarrow> of_nat (16 * x + y) # hex_columns s | _ \<Rightarrow> [])"
| "hex_columns _ = []"

definition undump_line :: "string \<Rightarrow> u8 list" where
  "undump_line l = hex_columns (take 48 (drop 18 l))"

function undump :: "string \<Rightarrow> u8 list" where
  "undump s = (if length s < 85 then [] else undump_line (take 85 s) @ undump (drop 85 s))"
  by pat_completeness auto
termination by (relation "measure length") auto

declare undump.simps [simp del]

lemma hex_columns_show:
  "hex_columns (concat (map (\<lambda>b. show_02x b @ '' '') bytes) @ replicate k (CHR '' '')) = bytes"
proof (induction bytes)
  case Nil
  have "digit_value (CHR '' '') = None" by (simp add: digit_value_def)
  then show ?case by (cases k rule: nat.exhaust; cases "k - 1"; cases "k - 2") auto
next
  case (Cons b bytes)
  have b: "unat b < 256" using unat_bound[of b] by simp
  then have "unat b div 16 < 36" "unat b mod 16 < 36" by simp_all
  moreover have "16 * (unat b div 16) + unat b mod 16 = unat b" by simp
  ultimately show ?case using Cons by (simp add: show_02x_def digit_value_char)
qed

lemma undump_dump_line:
  assumes "length bytes \<le> 16"
  shows "undump_line (dump_line a bytes) = bytes"
proof -
  let ?cols = "concat (map (\<lambda>b. show_02x b @ '' '') bytes) @ replicate (3 * (16 - length bytes)) (CHR '' '')"
  have "length ?cols = 48" using assms by (simp add: length_hex_columns)
  moreover have "drop 18 (dump_line a bytes) = ?cols @ '': '' @ map readable bytes @
      replicate (16 - length bytes) (CHR '' '') @ [LF]"
    using length_addr[of a] by (simp add: dump_line_def)
  ultimately show ?thesis
    using hex_columns_show by (simp add: undump_line_def)
qed

lemma undump_append: "length l = 85 \<Longrightarrow> undump (l @ s) = undump_line l @ undump s"
  by (subst undump.simps) simp

lemma bytes_from_append: "bytes_from m a (i + j) = bytes_from m a i @ bytes_from m (a + of_nat i) j"
  by (rule nth_equalityI) (auto simp: bytes_from_def nth_append add.assoc simp flip: of_nat_add)

lemma d_dump_facts:
  "undump (d_dump m a len) = bytes_from m a (nat len) \<and>
   length (d_dump m a len) = 85 * ((nat len + 15) div 16)"
proof (induction m a len rule: d_dump.induct)
  case (1 m a len)
  consider (full) "16 \<le> len" | (part) "0 < len" "len < 16" | (none) "len \<le> 0" by linarith
  then show ?case
  proof cases
    case full
    let ?l = "dump_line a (bytes_from m a 16)"
    have l: "length ?l = 85" by (rule length_dump_line) (simp add: bytes_from_def)
    have n: "nat len = 16 + nat (len - 16)" using full by simp
    have c: "(31 + x) div 16 = Suc ((x + 15) div 16)" for x :: nat by presburger
    have "undump ?l = undump_line ?l"
      using undump_append[OF l, of "[]"] by (simp add: undump.simps[of "[]"])
    moreover have "undump_line ?l = bytes_from m a 16"
      by (rule undump_dump_line) (simp add: bytes_from_def)
    ultimately show ?thesis
      using full 1(1)[OF full] l undump_append[OF l] n bytes_from_append[of m a 16 "nat (len - 16)"] c
      by (simp add: d_dump.simps[of m a len])
  next
    case part
    let ?l = "dump_line a (bytes_from m a (nat len))"
    have l: "length ?l = 85" by (rule length_dump_line) (use part in \<open>simp add: bytes_from_def\<close>)
    have "undump_line ?l = bytes_from m a (nat len)"
      by (rule undump_dump_line) (use part in \<open>simp add: bytes_from_def\<close>)
    moreover have "(nat len + 15) div 16 = 1" using part by linarith
    ultimately show ?thesis
      using part l undump_append[OF l, of "[]"] by (simp add: d_dump.simps[of m a len] undump.simps[of "[]"])
  next
    case none
    then show ?thesis by (simp add: d_dump.simps[of m a len] undump.simps bytes_from_def)
  qed
qed

section \<open>Properties\<close>

text \<open>A call written as \<open>f(a, b, ...)\<close>, numbers in decimal and strings in quotes, is executed with the
  function's address and these arguments; from the ninth on they are dropped.\<close>

theorem parse_func_call_roundtrip:
  assumes "CHR ''('' \<notin> set f" "name2addr dlsym tab f \<noteq> 0" "f \<noteq> ''exit''" "f \<noteq> ''abort''" "list_all arg_ok args"
  shows "parse_func_call dlsym tab (show_call f args) = Some (Inr (name2addr dlsym tab f, take 8 args))"
  using assms by (rule parse_func_call_show)

lemma parse_func_call_roundtrip_witness:
  "parse_func_call (\<lambda>f. if f = ''puts'' then 64 else 0) [] (''puts('' @ [CHR 0x22] @ ''a,b'' @ [CHR 0x22] @ '',-7)'') =
     Some (Inr (64, [Str ''a,b'', Num (- 7)]))"
proof -
  have "show_call ''puts'' [Str ''a,b'', Num (- 7)] = ''puts('' @ [CHR 0x22] @ ''a,b'' @ [CHR 0x22] @ '',-7)''"
    by (simp add: show_call_def show_int_def show_nat.simps digit_char_def char_of_def bit_0)
  with parse_func_call_roundtrip[of "''puts''" "\<lambda>f. if f = ''puts'' then 64 else 0" "[]" "[Str ''a,b'', Num (- 7)]"]
  show ?thesis by (simp add: name2addr_def name2symbol_def)
qed

text \<open>C36: For a listing of \<open>nm -S\<close> whose names are shorter than 128 characters (a longer one overruns its entry,
  which the code does not check), with memory for one slot per line, the table holds, in order, the sized symbols of the listing
  whose address and size start with a decimal digit, and nothing is stored behind it.\<close>

theorem gen_symbol_tab_listing:
  assumes "list_all nm_ok ls" "length ls \<le> symb_num"
  shows "gen_symbol_tab (Some symb_num) True (Some (concat (map (\<lambda>l. nm_text l @ [LF]) ls))) =
    Some (List.map_filter nm_symbol ls)"
  using get_symbols_nm[OF assms(1), of "[]"] assms(2) by (simp add: gen_symbol_tab_def)

lemma gen_symbol_tab_listing_witness:
  "gen_symbol_tab (Some 3) True (Some (concat (map (\<lambda>l. nm_text l @ [LF])
     [Undef (CHR ''U'') ''puts'', Sized (CHR ''T'') \<lparr>sym_name = ''main'', sym_addr = 0x401000, sym_size = 64\<rparr>,
      Sized (CHR ''t'') \<lparr>sym_name = ''vsyscall'', sym_addr = 0xffffffffff600000, sym_size = 64\<rparr>]))) =
   Some [\<lparr>sym_name = ''main'', sym_addr = 0x401000, sym_size = 64\<rparr>]"
proof -
  let ?ls = "[Undef (CHR ''U'') ''puts'', Sized (CHR ''T'') \<lparr>sym_name = ''main'', sym_addr = 0x401000, sym_size = 64\<rparr>,
    Sized (CHR ''t'') \<lparr>sym_name = ''vsyscall'', sym_addr = 0xffffffffff600000, sym_size = 64\<rparr>]"
  have "list_all nm_ok ?ls" by (simp add: type_ok_def name_ok_def isgraph_def isdigit_def)
  from gen_symbol_tab_listing[OF this, of 3] show ?thesis by (simp add: map_filter_def low_def)
qed

text \<open>An assignment stores the value at the variable's width, little-endian, and nothing else, and
  prints the variable after it.\<close>

theorem assign_var_stores:
  assumes "name2symbol tab v = Some s" "size_known (sym_size s)" "CHR ''='' \<notin> set v" "- (2 ^ 63) \<le> i" "i < 2 ^ 63"
  shows "\<exists>m'. assign_var tab (v @ CHR ''='' # show_int i) m = Some (show_var_info tab v m', m') \<and>
    rd_le (unat (sym_size s)) (sym_addr s) m' = nat (i mod 2 ^ (8 * unat (sym_size s))) \<and>
    (\<forall>x. (\<forall>k < unat (sym_size s). x \<noteq> sym_addr s + of_nat k) \<longrightarrow> m' x = m x)"
proof -
  let ?sz = "unat (sym_size s)"
  let ?v = "nat (i mod 2 ^ (8 * ?sz))"
  let ?m = "wr_le ?sz (sym_addr s) ?v m"
  have sz: "?sz \<le> 8" using assms(2) by (auto simp: size_known_def)
  obtain c r where c: "show_int i = c # r" by (cases "show_int i") auto
  then have lead: "isdigit c \<or> c = CHR ''+'' \<or> c = CHR ''-''" using show_int_chars[of c i] by auto
  have "strtol (c # r) 0 = i" using strtol0_show_int[of "[]" i] assms(4,5) c by simp
  then have "assign_var tab (v @ CHR ''='' # show_int i) m = Some (show_var_info tab v ?m, ?m)"
    using strchr_append[OF assms(3)] assms(1,2) lead c by (simp add: assign_var_def Let_def)
  moreover have "rd_le ?sz (sym_addr s) ?m = ?v"
  proof -
    have "(256 :: nat) ^ ?sz = 2 ^ (8 * ?sz)" by (simp add: power_mult)
    moreover have "?v < 2 ^ (8 * ?sz)" by (simp add: nat_less_iff)
    ultimately show ?thesis using rd_wr_le[OF sz] by simp
  qed
  moreover have "\<forall>x. (\<forall>k < ?sz. x \<noteq> sym_addr s + of_nat k) \<longrightarrow> ?m x = m x" using wr_le_other by blast
  ultimately show ?thesis by blast
qed

lemma assign_var_stores_witness:
  "\<exists>m'. assign_var [\<lparr>sym_name = ''cnt'', sym_addr = 100, sym_size = 2\<rparr>] ''cnt=-2'' (\<lambda>_. 7) =
      Some (show_var_info [\<lparr>sym_name = ''cnt'', sym_addr = 100, sym_size = 2\<rparr>] ''cnt'' m', m') \<and>
    rd_le 2 100 m' = 65534"
proof -
  have "show_int (- 2) = ''-2''" by (simp add: show_int_def show_nat.simps digit_char_def char_of_def bit_0)
  with assign_var_stores[of "[\<lparr>sym_name = ''cnt'', sym_addr = 100, sym_size = 2\<rparr>]" "''cnt''"
      "\<lparr>sym_name = ''cnt'', sym_addr = 100, sym_size = 2\<rparr>" "- 2" "\<lambda>_. 7"]
  show ?thesis by (auto simp: name2symbol_def size_known_def)
qed

text \<open>The dump shows every byte of the range: from its hexadecimal columns the bytes can be read
  back, and it has one line of 85 characters for each 16 bytes begun. A negative length shows
  nothing.\<close>

theorem d_dump_roundtrip:
  "undump (d_dump m a len) = bytes_from m a (nat len) \<and>
   length (d_dump m a len) = 85 * ((nat len + 15) div 16)"
  by (rule d_dump_facts)

end
