(* ===== verification/DebugShell.thy ===== *)
theory DebugShell
  imports Telnetd Symbols
begin

text \<open>
  The shell of \<open>telnetd4dbg.c\<close> and the interpreter of \<open>symbol_utils.c\<close> together: what becomes of a
  function call typed on the telnet connection.
\<close>

fun strip_arg :: "arg \<Rightarrow> arg" where
  "strip_arg (Num w) = Num w"
| "strip_arg (Str s) = Str (filter isgraph s)"

fun arg_typed :: "arg \<Rightarrow> bool" where
  "arg_typed (Num w) \<longleftrightarrow> True"
| "arg_typed (Str s) \<longleftrightarrow> CHR 0x22 \<notin> set s \<and> list_all printable s"

lemma digit_graph: "isdigit c \<Longrightarrow> isgraph c"
  by (simp add: isdigit_def isgraph_def Let_def)

lemma show_int_graph: "list_all isgraph (show_int i)"
proof -
  have "isgraph (CHR ''-'')" by (simp add: isgraph_def)
  then show ?thesis using show_int_chars[of _ i] digit_graph by (auto simp: list_all_iff)
qed

lemma graph_punctuation: "isgraph (CHR '','')" "isgraph (CHR ''('')" "isgraph (CHR '')'')" "isgraph (CHR 0x22)"
  by (simp_all add: isgraph_def)

lemma filter_show_arg: "filter isgraph (show_arg a) = show_arg (strip_arg a)"
  using show_int_graph by (cases a) (auto simp: graph_punctuation list_all_iff)

lemma filter_show_call:
  assumes "list_all isgraph f"
  shows "filter isgraph (show_call f args) = show_call f (map strip_arg args)"
proof -
  have "filter isgraph (show_args args) = show_args (map strip_arg args)"
    by (induction args rule: show_args.induct) (simp_all add: filter_show_arg graph_punctuation)
  moreover have "filter isgraph f = f" using assms by (simp add: list_all_iff)
  ultimately show ?thesis by (simp add: show_call_def graph_punctuation)
qed

lemma graph_printable: "list_all isgraph s \<Longrightarrow> list_all printable s"
  by (auto simp: list_all_iff printable_def)

lemma printable_show_call:
  assumes "list_all isgraph f" "list_all arg_typed args"
  shows "list_all printable (show_call f args)"
proof -
  have p: "printable (CHR '','')" "printable (CHR ''('')" "printable (CHR '')'')" "printable (CHR 0x22)"
    using graph_punctuation by (simp_all add: printable_def)
  have a: "list_all printable (show_arg a)" if "arg_typed a" for a
    using that graph_printable[OF show_int_graph] p by (cases a) simp_all
  have "list_all printable (show_args args)"
    using assms(2) by (induction args rule: show_args.induct) (simp_all add: a p)
  with graph_printable[OF assms(1)] p show ?thesis by (simp add: show_call_def)
qed

lemma edit_plain:
  "list_all printable l \<Longrightarrow> length (l0 @ l) < 512 \<Longrightarrow> edit h (l @ CR # s) l0 i = Some (True, l0 @ l, i, s)"
proof (induction l arbitrary: l0)
  case Nil
  have "key_kind CR n = Enter" for n by (simp add: key_kind_def)
  with Nil show ?case by simp
next
  case (Cons c l)
  then show ?case using key_kind_printable[of c] Cons.IH[of "l0 @ [c]"] by simp
qed

text \<open>A line that is typed is run, and what it prints is on the screen before the next prompt.\<close>

lemma shell_line_run:
  assumes "shell_ready st" "list_all printable l" "length l < 512" "filter isgraph l \<noteq> []" "filter isgraph l \<noteq> ''quit''"
  shows "\<exists>before st'. shell_loop exec (l @ [CR]) st = Some ([filter isgraph l], False, st') \<and>
    screen st' = before @ exec (filter isgraph l) @ [LF] @ DEBUG_SHELL_HINT"
proof -
  let ?h = "histotry_cmds st" and ?i = "cur_histotry_cmds_roll_idx st"
  have ok: "edit_ok st" "\<not> is_password st" using assms(1) by (simp_all add: shell_ready_def)
  have e: "edit ?h (l @ [CR]) [] ?i = Some (True, l, ?i, [])" using edit_plain[OF assms(2), of "[]" ?h "[]" ?i] assms(3) by simp
  have ne: "l \<noteq> []" using assms(4) by auto
  from read_input_edit[OF ok, of "l @ [CR]", unfolded edit_ok_line[OF assms(1)]] e obtain st1 where
    st1: "read_input (l @ [CR]) st = Some (1, st1, [])" "edit_ok st1" "line_of st1 = l" "cstr (shell_buf st1) = l"
    by (auto simp: reads_as_def)
  have len: "shell_buf_cur_len st1 = length l" using edit_ok_lens(3)[OF st1(2)] st1(3) by simp
  let ?st3 = "st1\<lparr>histotry_cmds := remember (histotry_cmds st1) l,
    cur_histotry_cmds_roll_idx := length (remember (histotry_cmds st1) l), shell_buf_cur_len := 0\<rparr>"
  let ?fin = "print_hint (put (exec (filter isgraph l) @ [LF]) ?st3)"
  have "shell_loop exec [] ?fin = Some ([], False, ?fin)" by (subst shell_loop.simps) simp
  then have "shell_loop exec (l @ [CR]) st = Some ([filter isgraph l], False, ?fin)"
    using st1 len ne assms(4,5) update_history_remember[OF st1(2,3) assms(3)] str_trim_all_len_def
    by (subst shell_loop.simps) (simp add: str_trim_all_graph Let_def)
  then show ?thesis by (auto simp: print_hint_def put_def)
qed

section \<open>Property\<close>

text \<open>C28: A call typed at the prompt, on a line of fewer than 512 characters, with numbers in decimal and strings in quotes that
  hold none, of a function that has an address and a name of graphic characters other than \<open>exit\<close> and \<open>abort\<close>, is made: the function of that name is called with the first
  eight of the arguments in their order, the numbers intact and the strings without their blanks, which the shell removes (for
  arguments that are missing it gets what was on the stack). What the function
  prints and its return value at four widths are on the screen before the next prompt.\<close>

theorem typed_call_arguments:
  assumes "shell_ready st" "list_all isgraph f" "CHR ''('' \<notin> set f" "f \<noteq> ''exit''" "f \<noteq> ''abort''"
    and "name2addr dlsym tab f \<noteq> 0" "list_all arg_typed args" "length (show_call f args) < 512"
    and "exec = (\<lambda>cmd. case proccess_cmd call junk dlsym tab cmd m of None \<Rightarrow> [] | Some (printed, _) \<Rightarrow> printed)"
    and "passed = take 8 (map strip_arg args)"
    and "call (name2addr dlsym tab f) (passed @ drop (length passed) junk) m = (ret, printed, m1)"
  shows "\<exists>cmd before st'. shell_loop exec (show_call f args @ [CR]) st = Some ([cmd], False, st') \<and>
    proccess_cmd call junk dlsym tab cmd m = Some (printed @ return_report ret, m1) \<and>
    screen st' = before @ printed @ return_report ret @ [LF] @ DEBUG_SHELL_HINT"
proof -
  let ?cmd = "show_call f (map strip_arg args)"
  have q: "CHR ''('' \<in> set ?cmd" by (simp add: show_call_def)
  then have "?cmd \<noteq> []" "?cmd \<noteq> ''quit''" by auto
  with shell_line_run[OF assms(1) printable_show_call[OF assms(2,7)] assms(8)] obtain before st' where
    sh: "shell_loop exec (show_call f args @ [CR]) st = Some ([?cmd], False, st')"
      "screen st' = before @ exec ?cmd @ [LF] @ DEBUG_SHELL_HINT"
    unfolding filter_show_call[OF assms(2)] by blast
  have "arg_ok (strip_arg a)" if "arg_typed a" for a using that by (cases a) auto
  then have "list_all arg_ok (map strip_arg args)" using assms(7) by (simp add: list_all_iff)
  from parse_func_call_show[OF assms(3,6,4,5) this] have "exec_function call junk dlsym tab ?cmd m = Some (printed @ return_report ret, m1)"
    using assms(10,11) by (simp add: exec_function_def do_call_func_def)
  moreover have "(strchr (CHR ''('') ?cmd = None) = False" using q by (simp add: strchr_None)
  ultimately have p: "proccess_cmd call junk dlsym tab ?cmd m = Some (printed @ return_report ret, m1)"
    unfolding proccess_cmd_def by (simp only: if_False)
  with sh assms(9) show ?thesis by auto
qed

text \<open>A function that stores the number of characters of its first argument at address 9.\<close>

definition store_len :: "u64 \<Rightarrow> arg list \<Rightarrow> vmem \<Rightarrow> u64 \<times> string \<times> vmem" where
  "store_len pfunc args m =
     (case args of Str s # Num k # _ \<Rightarrow> (k, s, m(9 := of_nat (length s))) | _ \<Rightarrow> (0, [], m))"

lemma typed_call_arguments_witness:
  "\<exists>exec cmd before st'. shell_loop exec (show_call ''puts'' [Str ''a b'', Num 5] @ [CR]) fresh_shell = Some ([cmd], False, st') \<and>
    proccess_cmd store_len [] (\<lambda>_. 64) [] cmd (\<lambda>_. 0) = Some (''ab'' @ return_report 5, (\<lambda>_. 0)(9 := 2)) \<and>
    screen st' = before @ ''ab'' @ return_report 5 @ [LF] @ DEBUG_SHELL_HINT"
proof -
  define exec where "exec = (\<lambda>cmd. case proccess_cmd store_len [] (\<lambda>_. 64) [] cmd (\<lambda>_. 0) of None \<Rightarrow> [] | Some (printed, _) \<Rightarrow> printed)"
  have f: "list_all isgraph ''puts''" "CHR ''('' \<notin> set ''puts''" "''puts'' \<noteq> ''exit''" "''puts'' \<noteq> ''abort''"
    "name2addr (\<lambda>_. 64) [] ''puts'' \<noteq> 0" "list_all arg_typed [Str ''a b'', Num 5]"
    "length (show_call ''puts'' [Str ''a b'', Num 5]) < 512"
    by (simp_all add: isgraph_def printable_def name2addr_def name2symbol_def show_call_def show_int_def show_nat.simps)
  have p: "[Str ''ab'', Num 5] = take 8 (map strip_arg [Str ''a b'', Num 5])" by (simp add: isgraph_def)
  have c: "store_len (name2addr (\<lambda>_. 64) [] ''puts'') ([Str ''ab'', Num 5] @ drop (length [Str ''ab'', Num 5]) []) (\<lambda>_. 0) =
      (5, ''ab'', (\<lambda>_. 0)(9 := 2))" by (simp add: store_len_def)
  show ?thesis using typed_call_arguments[OF fresh_shell_ready f exec_def p c] by blast
qed

end
