(* ===== verification/Sched.thy ===== *)
theory Sched
  imports CLib
begin

text \<open>
  The user-level task scheduler \<open>simple_apps/sched.c\<close>, in its x86-64 variant: the scheduler's choice
  of tasks, the saving and restoring of the registers on the tasks' stacks, and the example
  program. Tasks switch only where they call \<open>schedule\<close> or return, so the scheduler's state is
  passed explicitly. \<open>None\<close> is an access outside \<open>g_at_tasks\<close>.
\<close>

section \<open>Tasks\<close>

datatype task_state = STATE_INVALID | STATE_SLEEPING | STATE_RUNNING | STATE_FINISHED

record t_task =
  task_name :: string
  state :: task_state
  task_entry :: u64
  task_ret :: u64
  sp :: u64
  pc :: u64

definition MAX_TASK_NUM :: nat where "MAX_TASK_NUM = 10"
definition TASK_STACK_SIZE :: nat where "TASK_STACK_SIZE = 4096"

text \<open>The packed \<open>t_task\<close>: 64 bytes of name, five longs, the stack.\<close>

definition task_bytes :: nat where "task_bytes = 64 + 5 * 8 + TASK_STACK_SIZE"

text \<open>\<open>cur_task\<close> is the index of \<open>pt_cur_running_task\<close>; \<open>out\<close> collects what \<open>DBG_PRINT\<close> prints.\<close>

record sched =
  g_at_tasks :: "t_task list"
  g_task_cnt :: nat
  cur_task :: "nat option"
  out :: "string list"

definition set_task :: "nat \<Rightarrow> (t_task \<Rightarrow> t_task) \<Rightarrow> sched \<Rightarrow> sched" where
  "set_task i f s = s\<lparr>g_at_tasks := (g_at_tasks s)[i := f (g_at_tasks s ! i)]\<rparr>"

definition dbg_print :: "string \<Rightarrow> sched \<Rightarrow> sched" where
  "dbg_print msg s = s\<lparr>out := out s @ [msg]\<rparr>"

section \<open>The scheduler\<close>

text \<open>\<open>task_scheduler\<close>, entered with the return value of the finished task in \<open>rax\<close>. It runs the
  first sleeping task, or goes back to the main thread (\<open>None\<close>).\<close>

definition task_scheduler :: "u64 \<Rightarrow> sched \<Rightarrow> sched \<times> nat option" where
  "task_scheduler ret s =
     (let s1 = (case cur_task s of
                  None \<Rightarrow> s
                | Some c \<Rightarrow>
                    dbg_print (''task '' @ task_name (g_at_tasks s ! c) @ '' exit with code '' @ show_dec (unat ret))
                      (set_task c (\<lambda>t. t\<lparr>state := STATE_FINISHED, task_ret := ret\<rparr>) s))
      in case List.find (\<lambda>i. state (g_at_tasks s1 ! i) = STATE_SLEEPING) [0..<MAX_TASK_NUM] of
           Some i \<Rightarrow> (set_task i (\<lambda>t. t\<lparr>state := STATE_RUNNING\<rparr>) (s1\<lparr>cur_task := Some i\<rparr>), Some i)
         | None \<Rightarrow> (dbg_print ''==no task to run. so we exit'' (s1\<lparr>cur_task := Some (MAX_TASK_NUM - 1)\<rparr>), None))"

text \<open>The loop of \<open>schedule\<close>: \<open>i\<close> starts at the index after the current one, and only the step
  reduces it modulo the number of tasks. \<open>Some None\<close>: it is back at the current task.\<close>

function schedule_loop :: "t_task list \<Rightarrow> nat \<Rightarrow> nat \<Rightarrow> nat option option" where
  "schedule_loop tasks cur_task_idx i =
     (if i = cur_task_idx then Some None
      else if MAX_TASK_NUM \<le> i \<or> MAX_TASK_NUM \<le> cur_task_idx then None
      else if state (tasks ! i) = STATE_SLEEPING then Some (Some i)
      else schedule_loop tasks cur_task_idx ((i + 1) mod MAX_TASK_NUM))"
  by pat_completeness auto
termination
  by (relation "measure (\<lambda>(tasks, c, i). if i \<le> c then c - i else c + MAX_TASK_NUM - i)")
    (auto simp: MAX_TASK_NUM_def mod_Suc)

declare schedule_loop.simps [simp del]

text \<open>\<open>schedule\<close>; if it switches, the previous and the next task.\<close>

definition schedule :: "sched \<Rightarrow> (sched \<times> (nat \<times> nat) option) option" where
  "schedule s =
     (case cur_task s of
        None \<Rightarrow> None
      | Some c \<Rightarrow>
          (case schedule_loop (g_at_tasks s) c (c + 1) of
             None \<Rightarrow> None
           | Some None \<Rightarrow> Some (s, None)
           | Some (Some i) \<Rightarrow>
               let s1 = set_task c (\<lambda>t. t\<lparr>state := STATE_SLEEPING\<rparr>) s;
                   s2 = set_task i (\<lambda>t. t\<lparr>state := STATE_RUNNING\<rparr>) (s1\<lparr>cur_task := Some i\<rparr>)
               in Some (s2, Some (c, i))))"

section \<open>Registers and stacks\<close>

text \<open>The registers a task computes with, those included that the context switch does not touch:
  the general registers \<open>r8\<close> to \<open>r15\<close> and the floating point state (the \<open>x87\<close> stack, the \<open>xmm\<close>
  registers and \<open>mxcsr\<close>). The memory maps the address of an 8-byte cell to its contents.\<close>

record cpu =
  rflags :: u64
  rax :: u64
  rdi :: u64
  rsi :: u64
  rdx :: u64
  rcx :: u64
  rbx :: u64
  rbp :: u64
  rsp :: u64
  rip :: u64
  r8 :: u64
  r9 :: u64
  r10 :: u64
  r11 :: u64
  r12 :: u64
  r13 :: u64
  r14 :: u64
  r15 :: u64
  x87 :: "80 word list"
  xmm :: "128 word list"
  mxcsr :: u32

type_synonym cells = "u64 \<Rightarrow> u64"

definition push :: "u64 \<Rightarrow> cpu \<times> cells \<Rightarrow> cpu \<times> cells" where
  "push v = (\<lambda>(c, m). (c\<lparr>rsp := rsp c - 8\<rparr>, m(rsp c - 8 := v)))"

definition pop :: "(u64 \<Rightarrow> cpu \<Rightarrow> cpu) \<Rightarrow> cpu \<times> cells \<Rightarrow> cpu \<times> cells" where
  "pop set_reg = (\<lambda>(c, m). (set_reg (m (rsp c)) (c\<lparr>rsp := rsp c + 8\<rparr>), m))"

definition save_context :: "cpu \<times> cells \<Rightarrow> u64 \<times> cpu \<times> cells" where
  "save_context = (\<lambda>(c, m).
     let st = push (rbp c) (push (rbx c) (push (rcx c) (push (rdx c) (push (rsi c) (push (rdi c)
                (push (rax c) (push (rflags c) (c, m))))))))
     in (rsp (fst st), st))"

definition restore_context :: "u64 \<Rightarrow> cpu \<times> cells \<Rightarrow> cpu \<times> cells" where
  "restore_context saved_sp = (\<lambda>(c, m).
     pop (\<lambda>v c. c\<lparr>rflags := v\<rparr>) (pop (\<lambda>v c. c\<lparr>rax := v\<rparr>) (pop (\<lambda>v c. c\<lparr>rdi := v\<rparr>) (pop (\<lambda>v c. c\<lparr>rsi := v\<rparr>)
       (pop (\<lambda>v c. c\<lparr>rdx := v\<rparr>) (pop (\<lambda>v c. c\<lparr>rcx := v\<rparr>) (pop (\<lambda>v c. c\<lparr>rbx := v\<rparr>) (pop (\<lambda>v c. c\<lparr>rbp := v\<rparr>)
         (c\<lparr>rsp := saved_sp\<rparr>, m)))))))))"

text \<open>\<open>switch_context\<close>: save, store the stack pointer and the label behind the jump in the previous
  task, restore the next task and jump to its address.\<close>

definition switch_context :: "u64 \<Rightarrow> t_task \<Rightarrow> t_task \<Rightarrow> cpu \<times> cells \<Rightarrow> t_task \<times> cpu \<times> cells" where
  "switch_context label prev next_task st =
     (case save_context st of (prev_sp, st1) \<Rightarrow>
      case restore_context (sp next_task) st1 of (c, m) \<Rightarrow>
        (prev\<lparr>sp := prev_sp, pc := label\<rparr>, c\<lparr>rip := pc next_task\<rparr>, m))"

text \<open>\<open>create_task\<close>; \<open>base\<close> is the address of \<open>g_at_tasks\<close>, \<open>sched_addr\<close> that of \<open>task_scheduler\<close>. The
  name is copied by \<open>strncpy\<close> into 64 bytes.\<close>

definition stack_top :: "u64 \<Rightarrow> nat \<Rightarrow> u64" where
  "stack_top base idx = base + of_nat (task_bytes * (idx + 1))"

definition push_task_stack :: "u64 \<Rightarrow> u64 \<times> cells \<Rightarrow> u64 \<times> cells" where
  "push_task_stack v = (\<lambda>(p, m). (p - 8, m(p - 8 := v)))"

definition create_task ::
    "u64 \<Rightarrow> u64 \<Rightarrow> string \<Rightarrow> u64 \<Rightarrow> u64 \<Rightarrow> cells \<Rightarrow> sched \<Rightarrow> (sched \<times> cells) option" where
  "create_task base sched_addr name entry para m s =
     (if MAX_TASK_NUM \<le> g_task_cnt s then None
      else let i = g_task_cnt s; top = stack_top base i;
               (p, m') = push_task_stack top (push_task_stack 0 (push_task_stack 0 (push_task_stack 0
                 (push_task_stack 0 (push_task_stack para (push_task_stack 0 (push_task_stack 0
                   (push_task_stack sched_addr (top, m)))))))));
               s1 = set_task i (\<lambda>t. t\<lparr>task_name := take 64 name, task_entry := entry, state := STATE_SLEEPING,
                      pc := entry, sp := p\<rparr>) s
           in Some (s1\<lparr>g_task_cnt := i + 1\<rparr>, m'))"

section \<open>The example program\<close>

text \<open>
  What the tasks of the example do, up to their return: print, create a task, or give way.
  A task runs until it gives way or returns; \<open>code\<close> holds for every task what it has left to do
  and its return value.
\<close>

datatype act = Print string | Create string "act list" u64 | Yield

record prog =
  tasks :: sched
  code :: "nat \<Rightarrow> act list \<times> u64"

text \<open>One action of the running task; the flag tells that the main thread goes on. The stacks are
  left out here: where a task resumes is the rest of its actions.\<close>

definition add_task :: "string \<Rightarrow> sched \<Rightarrow> sched option" where
  "add_task name s = map_option fst (create_task 0 0 name 0 0 (\<lambda>_. 0) s)"

definition run_step :: "prog \<Rightarrow> (prog \<times> bool) option" where
  "run_step p =
     (case cur_task (tasks p) of
        None \<Rightarrow> None
      | Some c \<Rightarrow>
          (case code p c of
             ([], r) \<Rightarrow> (case task_scheduler r (tasks p) of (s, nxt) \<Rightarrow> Some (p\<lparr>tasks := s\<rparr>, nxt = None))
           | (Print msg # acts, r) \<Rightarrow>
               Some (p\<lparr>tasks := dbg_print msg (tasks p), code := (code p)(c := (acts, r))\<rparr>, False)
           | (Create name body r' # acts, r) \<Rightarrow>
               map_option (\<lambda>s. (p\<lparr>tasks := s, code := (code p)(c := (acts, r), g_task_cnt (tasks p) := (body, r'))\<rparr>, False))
                 (add_task name (tasks p))
           | (Yield # acts, r) \<Rightarrow>
               map_option (\<lambda>(s, _). (p\<lparr>tasks := s, code := (code p)(c := (acts, r))\<rparr>, False)) (schedule (tasks p))))"

fun run :: "nat \<Rightarrow> prog \<Rightarrow> (prog \<times> bool) option" where
  "run 0 p = Some (p, False)"
| "run (Suc n) p =
     (case run_step p of None \<Rightarrow> None | Some (p', done) \<Rightarrow> if done then Some (p', True) else run n p')"

definition no_task :: t_task where
  "no_task = \<lparr>task_name = [], state = STATE_INVALID, task_entry = 0, task_ret = 0, sp = 0, pc = 0\<rparr>"

definition idle :: sched where
  "idle = \<lparr>g_at_tasks = replicate MAX_TASK_NUM no_task, g_task_cnt = 0, cur_task = None, out = []\<rparr>"

text \<open>What the three user tasks share: the parameter printed and the first number.\<close>

definition count_task :: "nat \<Rightarrow> nat \<Rightarrow> act list" where
  "count_task para first =
     Print (''==enter, para='' @ show_dec para) #
     concat (map (\<lambda>i. [Print (''=='' @ show_dec i), Yield]) [first..<first + 3]) @ [Print ''==exit'']"

definition usr_task1 :: "act list" where "usr_task1 = count_task 1001 10"
definition usr_task2 :: "act list" where "usr_task2 = count_task 2001 20"
definition usr_task3 :: "act list" where "usr_task3 = count_task 3001 30"

definition father_of_all_task :: "act list" where
  "father_of_all_task =
     [Print ''==enter, para=1234'',
      Create ''usr_task1'' usr_task1 100, Create ''usr_task2'' usr_task2 200,
      Create ''usr_task3'' usr_task3 300, Print ''==exit'']"

text \<open>\<open>main\<close>: create the first task and enter \<open>task_scheduler\<close>.\<close>

definition start_sched :: "prog option" where
  "start_sched =
     map_option (\<lambda>s. \<lparr>tasks = fst (task_scheduler 0 s), code = (\<lambda>i. ([], 0))(0 := (father_of_all_task, 2015))\<rparr>)
       (add_task ''father_of_all_task'' (dbg_print ''hello'' idle))"

section \<open>The saved registers\<close>

text \<open>The eight cells below a stack pointer, and above one.\<close>

definition frame_at :: "u64 \<Rightarrow> u64 list" where
  "frame_at p = [p, p + 8, p + 16, p + 24, p + 32, p + 40, p + 48, p + 56]"

lemma save_context_sp: "save_context (c, m) = (p, c1, m1) \<Longrightarrow> p = rsp c - 64 \<and> c1 = c\<lparr>rsp := rsp c - 64\<rparr>"
  by (auto simp: save_context_def push_def Let_def)

lemma save_restore:
  assumes "save_context (c, m) = (p, c1, m1)" "\<forall>x \<in> set (frame_at p). m2 x = m1 x"
  shows "restore_context p (c2, m2) = (c2\<lparr>rflags := rflags c, rax := rax c, rdi := rdi c, rsi := rsi c, rdx := rdx c,
      rcx := rcx c, rbx := rbx c, rbp := rbp c, rsp := rsp c\<rparr>, m2)"
proof -
  have m1: "map m1 (frame_at p) = [rbp c, rbx c, rcx c, rdx c, rsi c, rdi c, rax c, rflags c]" and p: "p = rsp c - 64"
    using assms(1) by (auto simp: save_context_def push_def Let_def frame_at_def)
  moreover have "map m2 (frame_at p) = map m1 (frame_at p)" using assms(2) by simp
  ultimately have "map m2 (frame_at p) = [rbp c, rbx c, rcx c, rdx c, rsi c, rdi c, rax c, rflags c]" by simp
  then show ?thesis using p by (cases c2) (simp add: restore_context_def pop_def frame_at_def)
qed

lemma save_context_other:
  "save_context (c, m) = (p, c1, m1) \<Longrightarrow> x \<notin> set (frame_at p) \<Longrightarrow> m1 x = m x"
  by (auto simp: save_context_def push_def Let_def frame_at_def)

section \<open>The scheduler's invariant\<close>

definition sched_ok :: "sched \<Rightarrow> bool" where
  "sched_ok s \<longleftrightarrow> length (g_at_tasks s) = MAX_TASK_NUM \<and> g_task_cnt s \<le> MAX_TASK_NUM \<and>
     (\<forall>i < MAX_TASK_NUM. state (g_at_tasks s ! i) = STATE_INVALID \<longleftrightarrow> g_task_cnt s \<le> i) \<and>
     (\<forall>i < MAX_TASK_NUM. state (g_at_tasks s ! i) = STATE_RUNNING \<longleftrightarrow> cur_task s = Some i) \<and>
     (\<exists>c < MAX_TASK_NUM. cur_task s = Some c)"

inductive sched_step :: "sched \<Rightarrow> sched \<Rightarrow> bool" where
  yield: "schedule s = Some (s', sw) \<Longrightarrow> sched_step s s'"
| create: "create_task base addr name entry para m s = Some (s', m') \<Longrightarrow> sched_step s s'"
| finish: "task_scheduler ret s = (s', Some i) \<Longrightarrow> sched_step s s'"
| print: "sched_step s (dbg_print msg s)"

lemma set_task_simps [simp]:
  "g_task_cnt (set_task i f s) = g_task_cnt s" "cur_task (set_task i f s) = cur_task s"
  "length (g_at_tasks (set_task i f s)) = length (g_at_tasks s)"
  by (simp_all add: set_task_def)

lemma set_task_nth:
  "j < length (g_at_tasks s) \<Longrightarrow>
     g_at_tasks (set_task i f s) ! j = (if i = j then f (g_at_tasks s ! j) else g_at_tasks s ! j)"
  by (simp add: set_task_def nth_list_update)

lemma dbg_print_simps [simp]:
  "g_at_tasks (dbg_print msg s) = g_at_tasks s" "cur_task (dbg_print msg s) = cur_task s"
  "g_task_cnt (dbg_print msg s) = g_task_cnt s" "set_task i f (dbg_print msg s) = dbg_print msg (set_task i f s)"
  by (simp_all add: dbg_print_def set_task_def)

text \<open>The two runs of the loop: behind the wrap, and up to it.\<close>

abbreviation sleeps :: "t_task list \<Rightarrow> nat \<Rightarrow> bool" where
  "sleeps ts \<equiv> \<lambda>i. state (ts ! i) = STATE_SLEEPING"

lemma schedule_loop_low:
  assumes "i \<le> c" "c < MAX_TASK_NUM"
  shows "schedule_loop ts c i = Some (List.find (sleeps ts) [i..<c])"
  using assms
proof (induction "c - i" arbitrary: i)
  case 0
  then show ?case by (simp add: schedule_loop.simps)
next
  case (Suc n)
  then have "(i + 1) mod MAX_TASK_NUM = i + 1" by simp
  with Suc show ?case by (subst schedule_loop.simps) (auto simp: upt_conv_Cons)
qed

lemma schedule_loop_high:
  assumes "c < i" "i < MAX_TASK_NUM"
  shows "schedule_loop ts c i = Some (List.find (sleeps ts) ([i..<MAX_TASK_NUM] @ [0..<c]))"
  using assms
proof (induction "MAX_TASK_NUM - i" arbitrary: i)
  case (Suc n)
  show ?case
  proof (cases "i + 1 = MAX_TASK_NUM")
    case True
    with Suc.prems schedule_loop_low[of 0 c ts] show ?thesis
      by (subst schedule_loop.simps) (auto simp: upt_conv_Cons)
  next
    case False
    with Suc show ?thesis by (subst schedule_loop.simps) (simp add: upt_conv_Cons)
  qed
qed simp

text \<open>What \<open>schedule\<close> does away from the last index.\<close>

lemma schedule_eq:
  assumes "sched_ok s" "cur_task s = Some c" "c + 1 < MAX_TASK_NUM"
  shows "schedule s = Some (case List.find (sleeps (g_at_tasks s)) ([c + 1..<MAX_TASK_NUM] @ [0..<c]) of
      None \<Rightarrow> (s, None)
    | Some i \<Rightarrow> (set_task i (\<lambda>t. t\<lparr>state := STATE_RUNNING\<rparr>)
        ((set_task c (\<lambda>t. t\<lparr>state := STATE_SLEEPING\<rparr>) s)\<lparr>cur_task := Some i\<rparr>), Some (c, i)))"
  using assms(2) schedule_loop_high[of c "c + 1" "g_at_tasks s"] assms(3)
  by (simp add: schedule_def Let_def split: option.split)

lemma switched_state:
  assumes "sched_ok s" "cur_task s = Some c" "i < MAX_TASK_NUM" "sleeps (g_at_tasks s) i"
    and "s' = set_task i (\<lambda>t. t\<lparr>state := STATE_RUNNING\<rparr>)
      ((set_task c (\<lambda>t. t\<lparr>state := st\<rparr>) s)\<lparr>cur_task := Some i\<rparr>)"
    and "j < MAX_TASK_NUM" "st = STATE_SLEEPING \<or> st = STATE_FINISHED"
  shows "state (g_at_tasks s' ! j) =
    (if j = i then STATE_RUNNING else if j = c then st else state (g_at_tasks s ! j))"
proof -
  have "length (g_at_tasks s) = MAX_TASK_NUM" using assms(1) by (simp add: sched_ok_def)
  then show ?thesis using assms(5,6)
    by (simp add: set_task_def nth_list_update)
qed

lemma switched_ok:
  assumes "sched_ok s" "cur_task s = Some c" "i < MAX_TASK_NUM" "sleeps (g_at_tasks s) i"
    and "s' = set_task i (\<lambda>t. t\<lparr>state := STATE_RUNNING\<rparr>)
      ((set_task c (\<lambda>t. t\<lparr>state := st\<rparr>) s)\<lparr>cur_task := Some i\<rparr>)" "st = STATE_SLEEPING \<or> st = STATE_FINISHED"
  shows "sched_ok s'"
proof -
  note n = switched_state[OF assms(1-5) _ assms(6)]
  have c: "c < MAX_TASK_NUM" "state (g_at_tasks s ! c) = STATE_RUNNING" "c \<noteq> i"
    using assms(1,2,4) by (auto simp: sched_ok_def)
  have "g_task_cnt s' = g_task_cnt s" "cur_task s' = Some i" "length (g_at_tasks s') = MAX_TASK_NUM"
    using assms(1,5) by (simp_all add: sched_ok_def)
  moreover have "state (g_at_tasks s ! c) \<noteq> STATE_INVALID" "state (g_at_tasks s ! i) \<noteq> STATE_INVALID"
    using c(2) assms(4) by simp_all
  then have "\<not> g_task_cnt s \<le> c" "\<not> g_task_cnt s \<le> i"
    using assms(1,3) c(1) by (simp_all add: sched_ok_def)
  ultimately show ?thesis
    using assms(1-3,6) c n unfolding sched_ok_def by auto
qed

lemma sched_ok_print [simp]: "sched_ok (dbg_print msg s) = sched_ok s"
  by (simp add: sched_ok_def)

lemma find_sleeping:
  assumes "List.find (sleeps ts) is = Some i"
  shows "i \<in> set is \<and> sleeps ts i"
  using find_SomeD[OF assms] by simp

lemma schedule_ok:
  assumes "sched_ok s" "schedule s = Some (s', sw)"
  shows "sched_ok s'"
proof -
  obtain c where c: "cur_task s = Some c" "c < MAX_TASK_NUM" using assms(1) by (auto simp: sched_ok_def)
  show ?thesis
  proof (cases "c + 1 < MAX_TASK_NUM")
    case True
    show ?thesis
    proof (cases "List.find (sleeps (g_at_tasks s)) ([c + 1..<MAX_TASK_NUM] @ [0..<c])")
      case None
      with assms schedule_eq[OF assms(1) c(1) True] show ?thesis by simp
    next
      case (Some i)
      from find_sleeping[OF Some] c have "i < MAX_TASK_NUM" "sleeps (g_at_tasks s) i" by auto
      from switched_ok[OF assms(1) c(1) this, of s' STATE_SLEEPING] assms(2) Some schedule_eq[OF assms(1) c(1) True]
      show ?thesis by simp
    qed
  next
    case False
    with assms(2) c show ?thesis by (simp add: schedule_def schedule_loop.simps)
  qed
qed

lemma running_facts:
  assumes "sched_ok s" "cur_task s = Some c"
  shows "c < MAX_TASK_NUM" "state (g_at_tasks s ! c) = STATE_RUNNING" "c < g_task_cnt s"
proof -
  show c: "c < MAX_TASK_NUM" using assms by (auto simp: sched_ok_def)
  with assms show r: "state (g_at_tasks s ! c) = STATE_RUNNING" by (simp add: sched_ok_def)
  then have "state (g_at_tasks s ! c) \<noteq> STATE_INVALID" by simp
  with assms(1) c show "c < g_task_cnt s" by (simp add: sched_ok_def)
qed

lemma create_task_ok:
  assumes "sched_ok s" "create_task base addr name entry para m s = Some (s', m')"
  shows "sched_ok s' \<and> cur_task s' = cur_task s \<and> g_task_cnt s' = g_task_cnt s + 1"
proof -
  let ?n = "g_task_cnt s"
  have n: "?n < MAX_TASK_NUM" "length (g_at_tasks s) = MAX_TASK_NUM"
    using assms by (auto simp: create_task_def sched_ok_def split: if_splits)
  with assms(2) obtain f where f: "s' = (set_task ?n f s)\<lparr>g_task_cnt := ?n + 1\<rparr>"
    and fs: "\<And>t. state (f t) = STATE_SLEEPING"
    by (auto simp: create_task_def Let_def push_task_stack_def)
  have cur: "cur_task s \<noteq> Some ?n"
    using running_facts(3)[OF assms(1), of ?n] by auto
  have nth: "state (g_at_tasks s' ! i) = (if i = ?n then STATE_SLEEPING else state (g_at_tasks s ! i))"
    if "i < MAX_TASK_NUM" for i
    using f fs n(2) that by (simp add: set_task_def nth_list_update)
  have len: "length (g_at_tasks s') = MAX_TASK_NUM" "cur_task s' = cur_task s" "g_task_cnt s' = ?n + 1"
    using f n(2) by simp_all
  have "state (g_at_tasks s' ! i) = STATE_INVALID \<longleftrightarrow> ?n + 1 \<le> i" if "i < MAX_TASK_NUM" for i
    using nth[OF that] assms(1) that by (auto simp: sched_ok_def)
  moreover have "state (g_at_tasks s' ! i) = STATE_RUNNING \<longleftrightarrow> cur_task s = Some i" if "i < MAX_TASK_NUM" for i
    using nth[OF that] assms(1) that cur by (auto simp: sched_ok_def)
  moreover have "\<exists>c < MAX_TASK_NUM. cur_task s = Some c" using assms(1) by (simp add: sched_ok_def)
  ultimately show ?thesis using len n(1) by (simp add: sched_ok_def)
qed

lemma task_scheduler_ok:
  assumes "sched_ok s" "task_scheduler ret s = (s', Some i)"
  shows "sched_ok s'"
proof -
  obtain c where c: "cur_task s = Some c" "c < MAX_TASK_NUM" using assms(1) by (auto simp: sched_ok_def)
  let ?msg = "''task '' @ task_name (g_at_tasks s ! c) @ '' exit with code '' @ show_dec (unat ret)"
  let ?f = "\<lambda>t. t\<lparr>state := STATE_FINISHED, task_ret := ret\<rparr>"
  let ?s1 = "set_task c ?f s"
  have s': "List.find (sleeps (g_at_tasks ?s1)) [0..<MAX_TASK_NUM] = Some i"
      "s' = dbg_print ?msg (set_task i (\<lambda>t. t\<lparr>state := STATE_RUNNING\<rparr>) (?s1\<lparr>cur_task := Some i\<rparr>))"
    using assms(2) c(1)
    by (auto simp: task_scheduler_def Let_def dbg_print_def set_task_def split: option.splits)
  have len: "length (g_at_tasks s) = MAX_TASK_NUM" using assms(1) by (simp add: sched_ok_def)
  from find_sleeping[OF s'(1)] have i: "i < MAX_TASK_NUM" "sleeps (g_at_tasks ?s1) i" by auto
  then have "i \<noteq> c \<and> sleeps (g_at_tasks s) i" using len c(2) by (auto simp: set_task_nth split: if_splits)
  then have si: "sleeps (g_at_tasks s) i" by blast
  let ?t = "set_task i (\<lambda>t. t\<lparr>state := STATE_RUNNING\<rparr>) ((set_task c (\<lambda>t. t\<lparr>state := STATE_FINISHED\<rparr>) s)\<lparr>cur_task := Some i\<rparr>)"
  have "sched_ok ?t" by (rule switched_ok[OF assms(1) c(1) i(1) si refl]) simp
  moreover have "state (g_at_tasks s' ! j) = state (g_at_tasks ?t ! j)" if "j < MAX_TASK_NUM" for j
    using s'(2) len that by (simp add: set_task_nth)
  moreover have "length (g_at_tasks s') = MAX_TASK_NUM" "cur_task s' = cur_task ?t" "g_task_cnt s' = g_task_cnt ?t"
    using s'(2) len by simp_all
  ultimately show ?thesis by (simp add: sched_ok_def)
qed

section \<open>Taking turns\<close>

text \<open>\<open>n\<close> calls of \<open>schedule\<close>, one after the other.\<close>

fun yields :: "nat \<Rightarrow> sched \<Rightarrow> sched option" where
  "yields 0 s = Some s"
| "yields (Suc n) s = (case schedule s of None \<Rightarrow> None | Some (s', _) \<Rightarrow> yields n s')"

definition live :: "sched \<Rightarrow> nat list" where
  "live s = filter (\<lambda>i. state (g_at_tasks s ! i) \<in> {STATE_SLEEPING, STATE_RUNNING}) [0..<MAX_TASK_NUM]"

lemma find_filter_hd: "List.find P xs = (case filter P xs of [] \<Rightarrow> None | x # _ \<Rightarrow> Some x)"
  by (induction xs) auto

text \<open>One call moves to the next live task, in cyclic order.\<close>

lemma schedule_next:
  assumes "sched_ok s" "cur_task s = Some (live s ! k)" "k < length (live s)" "g_task_cnt s < MAX_TASK_NUM"
  shows "\<exists>s' sw. schedule s = Some (s', sw) \<and> sched_ok s' \<and> live s' = live s \<and> g_task_cnt s' = g_task_cnt s \<and>
    cur_task s' = Some (live s ! ((k + 1) mod length (live s)))"
proof -
  define c where "c = live s ! k"
  let ?P = "\<lambda>i. state (g_at_tasks s ! i) \<in> {STATE_SLEEPING, STATE_RUNNING}"
  let ?A = "filter ?P [0..<c]" and ?B = "filter ?P [c + 1..<MAX_TASK_NUM]"
  have c: "cur_task s = Some c" "c < MAX_TASK_NUM" "state (g_at_tasks s ! c) = STATE_RUNNING"
    using assms(2) running_facts[OF assms(1,2)] by (simp_all add: c_def)
  have "c < g_task_cnt s" by (rule running_facts(3)[OF assms(1) c(1)])
  then have c9: "c + 1 < MAX_TASK_NUM" using assms(4) by simp
  have split: "[0..<MAX_TASK_NUM] = [0..<c] @ c # [c + 1..<MAX_TASK_NUM]"
    using c(2) upt_add_eq_append[of 0 c "MAX_TASK_NUM - c"] by (simp add: upt_conv_Cons)
  then have ls: "live s = ?A @ c # ?B" using c(3) by (simp add: live_def)
  have "distinct (live s)" by (simp add: live_def)
  moreover have "live s ! length ?A = c" "length ?A < length (live s)" by (simp_all only: ls nth_append_length) simp
  ultimately have k: "k = length ?A"
    using nth_eq_iff_index_eq[of "live s" k "length ?A"] assms(3) by (metis c_def)
  have eq: "sleeps (g_at_tasks s) i \<longleftrightarrow> ?P i" if "i \<noteq> c" "i < MAX_TASK_NUM" for i
    using that assms(1) c(1) by (auto simp: sched_ok_def)
  have "filter (sleeps (g_at_tasks s)) is = filter ?P is" if "set is \<subseteq> {i. i \<noteq> c \<and> i < MAX_TASK_NUM}" for "is"
    by (intro filter_cong[OF refl] eq) (use that in auto)
  then have "filter (sleeps (g_at_tasks s)) ([c + 1..<MAX_TASK_NUM] @ [0..<c]) = ?B @ ?A"
    using c(2) by (simp only: filter_append) (auto simp: subset_iff)
  then have find: "List.find (sleeps (g_at_tasks s)) ([c + 1..<MAX_TASK_NUM] @ [0..<c]) =
      (case ?B @ ?A of [] \<Rightarrow> None | x # _ \<Rightarrow> Some x)"
    by (simp only: find_filter_hd)
  show ?thesis
  proof (cases "?B @ ?A")
    case Nil
    with find schedule_eq[OF assms(1) c(1) c9] ls assms(1) c(1) k show ?thesis by auto
  next
    case (Cons i rest)
    let ?s' = "set_task i (\<lambda>t. t\<lparr>state := STATE_RUNNING\<rparr>)
        ((set_task c (\<lambda>t. t\<lparr>state := STATE_SLEEPING\<rparr>) s)\<lparr>cur_task := Some i\<rparr>)"
    have sch: "schedule s = Some (?s', Some (c, i))" using find Cons schedule_eq[OF assms(1) c(1) c9] by simp
    have "i \<in> set (?B @ ?A)" using Cons by simp
    then have i: "i < MAX_TASK_NUM" "i \<noteq> c" using c(2) by auto
    have "?P i" using \<open>i \<in> set (?B @ ?A)\<close> by (simp only: set_append set_filter) blast
    then have si: "sleeps (g_at_tasks s) i" using eq[OF i(2,1)] by blast
    have pj: "?P j \<longleftrightarrow> state (g_at_tasks ?s' ! j) \<in> {STATE_SLEEPING, STATE_RUNNING}" if "j < MAX_TASK_NUM" for j
      using switched_state[OF assms(1) c(1) i(1) si refl that] si c(3) by auto
    have "live ?s' = live s" unfolding live_def by (intro filter_cong[OF refl] pj[symmetric]) simp
    moreover have "live s ! ((k + 1) mod length (live s)) = i"
    proof (cases ?B)
      case Nil
      with Cons ls k show ?thesis by (simp add: nth_append)
    next
      case (Cons b bs)
      with \<open>?B @ ?A = i # rest\<close> ls k show ?thesis by (simp add: nth_append)
    qed
    moreover have "sched_ok ?s'" by (rule schedule_ok[OF assms(1) sch])
    ultimately show ?thesis using sch by simp
  qed
qed

lemma yields_turn:
  assumes "sched_ok s" "cur_task s = Some (live s ! k)" "k < length (live s)" "g_task_cnt s < MAX_TASK_NUM"
  shows "\<exists>s'. yields n s = Some s' \<and> sched_ok s' \<and> live s' = live s \<and>
    cur_task s' = Some (live s ! ((k + n) mod length (live s)))"
  using assms
proof (induction n arbitrary: s k)
  case 0
  then show ?case by simp
next
  case (Suc n)
  from schedule_next[OF Suc.prems] obtain s1 sw where s1: "schedule s = Some (s1, sw)" "sched_ok s1"
    "live s1 = live s" "g_task_cnt s1 = g_task_cnt s" "cur_task s1 = Some (live s ! ((k + 1) mod length (live s)))"
    by blast
  have "(k + 1) mod length (live s) < length (live s)" using Suc.prems(3) by (intro mod_less_divisor) linarith
  with Suc.IH[of s1 "(k + 1) mod length (live s)"] s1 Suc.prems(4) show ?case
    by (simp add: mod_simps)
qed

section \<open>Properties\<close>

text \<open>In every reachable state exactly the current task is running, the array has its ten slots, and
  just the slots handed out by \<open>create_task\<close> are in use.\<close>

theorem sched_reachable_ok:
  assumes "sched_step\<^sup>*\<^sup>* s s'" "sched_ok s"
  shows "sched_ok s'"
  using assms
proof (induction rule: rtranclp_induct)
  case (step y z)
  have ok: "sched_ok y" by (rule step.IH[OF step(4)])
  from step(2) show ?case
  proof cases
    case (yield sw)
    then show ?thesis by (rule schedule_ok[OF ok])
  next
    case (create base addr name entry para m m')
    with create_task_ok[OF ok] show ?thesis by blast
  next
    case (finish ret i)
    then show ?thesis by (rule task_scheduler_ok[OF ok])
  next
    case (print msg)
    with ok show ?thesis by simp
  qed
qed

definition two_tasks :: sched where
  "two_tasks = \<lparr>g_at_tasks = no_task\<lparr>state := STATE_RUNNING\<rparr> # no_task\<lparr>state := STATE_SLEEPING\<rparr> # replicate 8 no_task,
     g_task_cnt = 2, cur_task = Some 0, out = []\<rparr>"

lemma two_tasks_ok: "sched_ok two_tasks"
  by (simp add: sched_ok_def two_tasks_def no_task_def MAX_TASK_NUM_def numeral_eq_Suc All_less_Suc)

lemma sched_reachable_ok_witness:
  "\<exists>s' sw. schedule two_tasks = Some (s', sw) \<and> sched_ok s' \<and> cur_task s' = Some 1"
proof -
  obtain s' sw where s: "schedule two_tasks = Some (s', sw)" "cur_task s' = Some 1"
    by (simp add: schedule_def two_tasks_def no_task_def schedule_loop.simps MAX_TASK_NUM_def set_task_def Let_def)
  from s(1) have "sched_step\<^sup>*\<^sup>* two_tasks s'" by (intro r_into_rtranclp sched_step.yield)
  from sched_reachable_ok[OF this two_tasks_ok] s show ?thesis by blast
qed

text \<open>C20: Tasks take turns: with at most nine tasks, every live one is the running one within as many calls
  of \<open>schedule\<close> as there are other live tasks.\<close>

theorem schedule_round_robin:
  assumes "sched_ok s" "g_task_cnt s < MAX_TASK_NUM" "j \<in> set (live s)"
  shows "\<exists>n < length (live s). \<exists>s'. yields n s = Some s' \<and> cur_task s' = Some j \<and> live s' = live s"
proof -
  obtain c where c: "cur_task s = Some c" using assms(1) by (auto simp: sched_ok_def)
  from running_facts(1,2)[OF assms(1) c] have "c \<in> set (live s)" by (simp add: live_def)
  then obtain k where k: "k < length (live s)" "live s ! k = c" by (auto simp: in_set_conv_nth)
  obtain l where l: "l < length (live s)" "live s ! l = j" using assms(3) by (auto simp: in_set_conv_nth)
  let ?N = "length (live s)"
  define n where "n = (l + ?N - k) mod ?N"
  have "(k + n) mod ?N = (k + (l + ?N - k)) mod ?N" by (simp add: n_def mod_simps)
  also have "\<dots> = l" using k(1) l(1) by simp
  finally have "(k + n) mod ?N = l" .
  moreover have "n < ?N" using k(1) by (auto simp: n_def intro!: mod_less_divisor)
  ultimately show ?thesis using yields_turn[OF assms(1) _ k(1) assms(2), of n] c k(2) l(2) by auto
qed

lemma schedule_round_robin_witness:
  "\<exists>n < 2. \<exists>s'. yields n two_tasks = Some s' \<and> cur_task s' = Some 1"
proof -
  have l: "live two_tasks = [0, 1]"
    by (simp add: live_def two_tasks_def no_task_def MAX_TASK_NUM_def upt_rec numeral_eq_Suc)
  have "g_task_cnt two_tasks < MAX_TASK_NUM" "1 \<in> set (live two_tasks)"
    by (simp_all add: l) (simp add: two_tasks_def MAX_TASK_NUM_def)
  from schedule_round_robin[OF two_tasks_ok this] l show ?thesis by (auto simp: numeral_2_eq_2)
qed

text \<open>The tenth task may not give way: the search starts behind the array. Nor can an eleventh be
  created.\<close>

theorem schedule_last_slot:
  assumes "cur_task s = Some (MAX_TASK_NUM - 1)" "g_task_cnt s = MAX_TASK_NUM"
  shows "schedule s = None \<and> create_task base addr name entry para m s = None"
  using assms by (simp add: schedule_def schedule_loop.simps create_task_def MAX_TASK_NUM_def)

lemma schedule_last_slot_witness:
  "schedule \<lparr>g_at_tasks = replicate 9 (no_task\<lparr>state := STATE_SLEEPING\<rparr>) @ [no_task\<lparr>state := STATE_RUNNING\<rparr>],
     g_task_cnt = 10, cur_task = Some 9, out = []\<rparr> = None"
  using schedule_last_slot[of "\<lparr>g_at_tasks = replicate 9 (no_task\<lparr>state := STATE_SLEEPING\<rparr>) @
    [no_task\<lparr>state := STATE_RUNNING\<rparr>], g_task_cnt = 10, cur_task = Some 9, out = []\<rparr>"]
  by (simp add: MAX_TASK_NUM_def)

text \<open>C21: A task that was switched out resumes behind its call, with the frame that was saved for it
  popped, once some other task is switched out in its favour: \<open>rflags\<close>, \<open>rax\<close>, \<open>rdi\<close>, \<open>rsi\<close>, \<open>rdx\<close>, \<open>rcx\<close>, \<open>rbx\<close>,
  \<open>rbp\<close> and the stack pointer have the values they had, provided the eight saved cells were left alone meanwhile and the other
  task saves its own elsewhere. All other registers, \<open>r8\<close> to \<open>r15\<close> and the floating point state, keep what the other task
  had in them; no cell but the eight of the other task's frame changes, and that task will resume behind its own call.\<close>

theorem switch_context_resumes:
  assumes "switch_context label a b (c, m) = (a', c1, m1)"
    and "\<forall>x \<in> set (frame_at (sp a')). m2 x = m1 x" "\<forall>x \<in> set (frame_at (rsp c2 - 64)). x \<notin> set (frame_at (sp a'))"
  shows "\<exists>b' m3. switch_context label2 b2 a' (c2, m2) = (b', c2\<lparr>rflags := rflags c, rax := rax c, rdi := rdi c, rsi := rsi c, rdx := rdx c,
      rcx := rcx c, rbx := rbx c, rbp := rbp c, rsp := rsp c, rip := label\<rparr>, m3) \<and>
    sp b' = rsp c2 - 64 \<and> pc b' = label2 \<and> (\<forall>x. x \<notin> set (frame_at (sp b')) \<longrightarrow> m3 x = m2 x)"
proof -
  obtain p d ms where s1: "save_context (c, m) = (p, d, ms)" by (cases "save_context (c, m)")
  have a': "sp a' = p" "pc a' = label" "m1 = ms"
    using assms(1) s1 by (auto simp: switch_context_def restore_context_def pop_def split: prod.splits)
  obtain q d2 m3 where s2: "save_context (c2, m2) = (q, d2, m3)" by (cases "save_context (c2, m2)")
  have q: "q = rsp c2 - 64" and d2: "d2 = c2\<lparr>rsp := rsp c2 - 64\<rparr>" using save_context_sp[OF s2] by simp_all
  have "m3 x = ms x" if "x \<in> set (frame_at p)" for x
    using that assms(2,3) a' q save_context_other[OF s2, of x] by auto
  then have "restore_context p (d2, m3) = (d2\<lparr>rflags := rflags c, rax := rax c, rdi := rdi c, rsi := rsi c, rdx := rdx c,
      rcx := rcx c, rbx := rbx c, rbp := rbp c, rsp := rsp c\<rparr>, m3)" using save_restore[OF s1] by blast
  with s2 a' q d2 save_context_other[OF s2] show ?thesis by (simp add: switch_context_def)
qed

definition blank_cpu :: cpu where
  "blank_cpu = \<lparr>rflags = 2, rax = 0, rdi = 0, rsi = 0, rdx = 0, rcx = 0, rbx = 0, rbp = 0, rsp = 0, rip = 0,
     r8 = 0, r9 = 0, r10 = 0, r11 = 0, r12 = 0, r13 = 0, r14 = 0, r15 = 0,
     x87 = replicate 8 0, xmm = replicate 16 0, mxcsr = 8064\<rparr>"

lemma switch_context_resumes_witness:
  "\<exists>a' c1 m1 b' m3. switch_context 500 no_task (no_task\<lparr>sp := 3000\<rparr>) (blank_cpu\<lparr>rsp := 1000, rbx := 77\<rparr>, \<lambda>_. 0) = (a', c1, m1) \<and>
     switch_context 600 no_task a' (blank_cpu\<lparr>rsp := 2000\<rparr>, m1) = (b', blank_cpu\<lparr>rsp := 1000, rbx := 77, rip := 500\<rparr>, m3)"
proof -
  let ?c = "blank_cpu\<lparr>rsp := 1000, rbx := 77\<rparr>"
  obtain a' c1 m1 where s: "switch_context 500 no_task (no_task\<lparr>sp := 3000\<rparr>) (?c, \<lambda>_. 0) = (a', c1, m1)"
    by (cases "switch_context 500 no_task (no_task\<lparr>sp := 3000\<rparr>) (?c, \<lambda>_. 0)")
  then have "sp a' = 936"
    by (auto simp: switch_context_def save_context_def push_def Let_def split: prod.splits)
  then have "\<forall>x \<in> set (frame_at (rsp (blank_cpu\<lparr>rsp := 2000\<rparr>) - 64)). x \<notin> set (frame_at (sp a'))"
    by (simp add: frame_at_def)
  from switch_context_resumes[OF s _ this, of m1 600 no_task] s show ?thesis by auto
qed

text \<open>A new task starts at its entry with its parameter in \<open>rdi\<close> and an own stack, on top of which is
  the address of \<open>task_scheduler\<close>: its return enters the scheduler.\<close>

theorem create_task_starts:
  assumes "create_task base sched_addr name entry para m s = Some (s', m')" "g_task_cnt s < length (g_at_tasks s)"
    and "i = g_task_cnt s"
  shows "\<exists>p c1 m1. switch_context label prev (g_at_tasks s' ! i) (c, m') = (p, c1, m1) \<and> rip c1 = entry \<and>
    ((\<forall>x \<in> set (frame_at (rsp c - 64)). x \<notin> set (frame_at (stack_top base i - 72)) \<and> x \<noteq> stack_top base i - 8) \<longrightarrow>
      rdi c1 = para \<and> rsp c1 = stack_top base i - 8 \<and> m1 (rsp c1) = sched_addr)"
proof -
  let ?top = "stack_top base i" and ?t = "g_at_tasks s' ! i"
  have t: "sp ?t = ?top - 72" "pc ?t = entry" "m' (?top - 8) = sched_addr"
      "map m' (frame_at (?top - 72)) = [?top, 0, 0, 0, 0, para, 0, 0]"
    using assms by (auto simp: create_task_def push_task_stack_def frame_at_def set_task_nth Let_def split: if_splits)
  obtain p d m1 where sv: "save_context (c, m') = (p, d, m1)" by (cases "save_context (c, m')")
  have p: "p = rsp c - 64" using save_context_sp[OF sv] by simp
  let ?r = "restore_context (?top - 72) (d, m1)"
  have r: "snd ?r = m1" "rsp (fst ?r) = ?top - 8" "rdi (fst ?r) = m1 (?top - 72 + 40)"
    by (simp_all add: restore_context_def pop_def)
  have "rdi (fst ?r) = para \<and> m1 (?top - 8) = sched_addr"
    if d: "\<forall>x \<in> set (frame_at p). x \<notin> set (frame_at (?top - 72)) \<and> x \<noteq> ?top - 8"
  proof -
    have "m1 x = m' x" if "x \<in> set (frame_at (?top - 72)) \<or> x = ?top - 8" for x
      using save_context_other[OF sv, of x] d that by blast
    then show ?thesis using r t(3,4) by (simp add: frame_at_def)
  qed
  with sv t r p show ?thesis by (auto simp: switch_context_def split: prod.split)
qed

lemma create_task_starts_witness:
  "\<exists>s' m'. create_task 4096 700 ''t'' 800 9 (\<lambda>_. 0) two_tasks = Some (s', m') \<and>
     rip (fst (snd (switch_context 1 no_task (g_at_tasks s' ! 2) (blank_cpu\<lparr>rsp := 1000\<rparr>, m')))) = 800"
proof -
  obtain s' m' where s: "create_task 4096 700 ''t'' 800 9 (\<lambda>_. 0) two_tasks = Some (s', m')"
    by (simp add: create_task_def two_tasks_def MAX_TASK_NUM_def push_task_stack_def Let_def)
  have n: "g_task_cnt two_tasks < length (g_at_tasks two_tasks)" "2 = g_task_cnt two_tasks"
    by (simp_all add: two_tasks_def)
  from create_task_starts[OF s n, of 1 no_task "blank_cpu\<lparr>rsp := 1000\<rparr>"]
  have "rip (fst (snd (switch_context 1 no_task (g_at_tasks s' ! 2) (blank_cpu\<lparr>rsp := 1000\<rparr>, m')))) = 800"
    by (elim exE conjE) simp
  with s show ?thesis by blast
qed

lemma run_numeral: "run (numeral k) p =
  (case run_step p of None \<Rightarrow> None | Some (p', done) \<Rightarrow> if done then Some (p', True) else run (pred_numeral k) p')"
  by (simp add: numeral_eq_Suc)

lemma ten_slots: "replicate 10 x = [x, x, x, x, x, x, x, x, x, x]" "[0..<10] = [0, 1, 2, 3, 4, 5, 6, 7, 8, 9 :: nat]"
  by (simp add: numeral_eq_Suc) (simp add: upt_rec)

lemmas start_eval = start_sched_def add_task_def create_task_def idle_def set_task_def dbg_print_def no_task_def
  push_task_stack_def task_scheduler_def MAX_TASK_NUM_def ten_slots Let_def

lemmas run_eval = run_numeral run_step_def schedule_def schedule_loop.simps father_of_all_task_def usr_task1_def usr_task2_def usr_task3_def count_task_def
  upt_rec show_nat.simps digit_char_def char_of_def bit_0

text \<open>The example ends in the main thread with its four tasks finished, and prints: the tasks
  alternate, each as often as it gives way.\<close>

theorem example_program_output:
  "\<exists>p q. start_sched = Some p \<and> run 40 p = Some (q, True) \<and>
     map state (take 5 (g_at_tasks (tasks q))) =
       [STATE_FINISHED, STATE_FINISHED, STATE_FINISHED, STATE_FINISHED, STATE_INVALID] \<and>
     out (tasks q) = [''hello'', ''==enter, para=1234'', ''==exit'', ''task father_of_all_task exit with code 2015'',
       ''==enter, para=1001'', ''==10'', ''==enter, para=2001'', ''==20'', ''==enter, para=3001'', ''==30'',
       ''==11'', ''==21'', ''==31'', ''==12'', ''==22'', ''==32'',
       ''==exit'', ''task usr_task1 exit with code 100'', ''==exit'', ''task usr_task2 exit with code 200'',
       ''==exit'', ''task usr_task3 exit with code 300'', ''==no task to run. so we exit'']"
  by (simp add: start_eval run_eval)

text \<open>At its entry a task's stack pointer is off the 16-byte alignment that the calling convention
  prescribes (8 modulo 16) for every second task, wherever the array lies: \<open>t_task\<close> is 4200 bytes.\<close>

lemma task_stack_misaligned:
  "even (unat (stack_top base i div 8)) \<longleftrightarrow> odd (unat (stack_top base (i + 1) div 8))" if "i < 10" "base < 2 ^ 63" "base mod 8 = 0"
proof -
  have b: "unat base < 2 ^ 63" using that(2) by (simp add: word_less_nat_alt)
  have b8: "unat base mod 8 = 0" 
    using arg_cong[OF that(3), of unat] by (simp add: unat_mod_distrib)
  have t: "unat (stack_top base j) = unat base + 4200 * (j + 1)" if "j \<le> 10" for j
  proof -
    have "unat (of_nat (task_bytes * (j + 1)) :: u64) = task_bytes * (j + 1)"
      using that by (intro unat_of_nat_small) (simp add: task_bytes_def TASK_STACK_SIZE_def)
    moreover have "unat base + task_bytes * (j + 1) < 2 ^ 64"
      using b that by (simp add: task_bytes_def TASK_STACK_SIZE_def)
    ultimately show ?thesis
      by (simp add: stack_top_def unat_word_ariths task_bytes_def TASK_STACK_SIZE_def)
  qed
  obtain q where q: "unat base = 8 * q" using b8 by (auto simp: mod_eq_0_iff_dvd)
  have e: "unat base + 4200 * k = 8 * (q + 525 * k)" for k using q by simp
  have d: "(unat base + 4200 * (i + 1 + 1)) div 8 = (unat base + 4200 * (i + 1)) div 8 + 525" by (simp only: e) simp
  have v: "unat (stack_top base j div 8) = unat (stack_top base j) div 8" for j by (simp only: unat_div_distrib) simp
  have "unat (stack_top base i) = unat base + 4200 * (i + 1)" by (rule t) (use that(1) in simp)
  moreover have "unat (stack_top base (i + 1)) = unat base + 4200 * (i + 1 + 1)" by (rule t) (use that(1) in simp)
  ultimately have "unat (stack_top base (i + 1) div 8) = unat (stack_top base i div 8) + 525"
    by (simp only: v d)
  then show ?thesis by simp
qed

end
