(* ===== verification/Guard.thy ===== *)
theory Guard
  imports ConfigFile Getopt
begin

text \<open>
  The process guard \<open>simple_apps/guard.c\<close>: the list of processes read from the configuration
  file, the pass over the list that looks for processes that went down, their restart, and the
  exit. The kernel's part is what \<open>fork\<close>, \<open>waitpid\<close> and \<open>kill\<close> do with the children of the
  guard; signals other than SIGKILL are only logged, and a child goes down whenever it likes.
  \<open>None\<close> is an access outside a buffer or through a null pointer; a left summand is the message
  with which the guard quits.
\<close>

section \<open>The process list\<close>

definition INVALID_PID :: int where "INVALID_PID = -1"
definition RESTORE_MODE_MACHINE :: nat where "RESTORE_MODE_MACHINE = 0"
definition RESTORE_MODE_PROCESS :: nat where "RESTORE_MODE_PROCESS = 1"
definition MAX_PROCESS_NUM :: int where "MAX_PROCESS_NUM = 128"
definition MAX_ARGS_LEN :: nat where "MAX_ARGS_LEN = 128"

record t_process_item =
  bin_path :: string
  proc_args :: string
  argv :: "string list"
  restore_mode :: nat
  pid :: int

text \<open>A variable's value; a missing variable is a null pointer.\<close>

definition config_value :: "string \<Rightarrow> config_state \<Rightarrow> string option" where
  "config_value var st = do {
     found \<leftarrow> get_config_var var st;
     i \<leftarrow> found;
     vals \<leftarrow> ga_values st;
     Some (vals i)
   }"

text \<open>\<open>strncpy\<close> of a value that fills its buffer leaves it without a NUL. The argument vector has
  room for fourteen arguments after the path.\<close>

definition init_one_process :: "nat \<Rightarrow> config_state \<Rightarrow> (string + t_process_item) option" where
  "init_one_process idx st = do {
     path \<leftarrow> config_value (''bin_path_'' @ show_dec idx) st;
     args \<leftarrow> config_value (''args_'' @ show_dec idx) st;
     if MAX_PATH_LEN \<le> length path \<or> MAX_ARGS_LEN \<le> length args then None
     else do {
       let vec = path # take 14 (strtok_all (CHR '' '') args);
       mode \<leftarrow> config_value (''restore_mode_'' @ show_dec idx) st;
       let item = \<lparr>bin_path = path, proc_args = args, argv = vec, restore_mode = RESTORE_MODE_MACHINE, pid = INVALID_PID\<rparr>;
       if mode = ''machine'' then Some (Inr item)
       else if mode = ''process'' then Some (Inr (item\<lparr>restore_mode := RESTORE_MODE_PROCESS\<rparr>))
       else Some (Inl ''invalid restore mode'')
     }
   }"

fun init_processes :: "nat list \<Rightarrow> config_state \<Rightarrow> (string + t_process_item list) option" where
  "init_processes [] st = Some (Inr [])"
| "init_processes (i # is) st =
     (case init_one_process i st of
        None \<Rightarrow> None
      | Some (Inl msg) \<Rightarrow> Some (Inl msg)
      | Some (Inr item) \<Rightarrow>
          (case init_processes is st of
             None \<Rightarrow> None
           | Some (Inl msg) \<Rightarrow> Some (Inl msg)
           | Some (Inr items) \<Rightarrow> Some (Inr (item # items))))"

definition init_process_list ::
    "disk \<Rightarrow> rows option \<Rightarrow> rows option \<Rightarrow> string \<Rightarrow> config_state \<Rightarrow> (string + t_process_item list \<times> config_state) option" where
  "init_process_list fs vars vals config_path st = do {
     (n, st1) \<leftarrow> parse_config_file fs vars vals None config_path False st;
     if n < 1 then Some (Inl ''parse cfg file abnormoal'')
     else do {
       num \<leftarrow> config_value ''process_num'' st1;
       let process_num = atoi num;
       if process_num < 0 \<or> process_num > MAX_PROCESS_NUM then Some (Inl ''invalid process_num'')
       else do {
         r \<leftarrow> init_processes [0..<nat process_num] st1;
         case r of Inl msg \<Rightarrow> Some (Inl msg) | Inr items \<Rightarrow> Some (Inr (items, free_config st1))
       }
     }
   }"

section \<open>The kernel's part\<close>

text \<open>A stopped child is reported once by \<open>WUNTRACED\<close>; a zombie until it is reaped.\<close>

datatype kid = Alive | Stopped bool | Zombie

datatype event = Fork int | Exec string "string list" | Kill int nat | System string | Exit int

abbreviation SIGINT :: nat where "SIGINT \<equiv> 2"
abbreviation SIGKILL :: nat where "SIGKILL \<equiv> 9"

record kernel =
  kids :: "(int \<times> kid) list"
  next_pid :: int
  fork_fails :: "nat \<Rightarrow> bool"
  forks :: nat
  events :: "event list"

definition log_event :: "event \<Rightarrow> kernel \<Rightarrow> kernel" where
  "log_event e k = k\<lparr>events := events k @ [e]\<rparr>"

definition changed :: "kid \<Rightarrow> bool" where
  "changed s \<longleftrightarrow> s = Zombie \<or> s = Stopped False"

text \<open>Reporting a child: a zombie is gone, a stopped one is marked.\<close>

definition report :: "int \<Rightarrow> kernel \<Rightarrow> kernel" where
  "report p k = k\<lparr>kids := map (\<lambda>(q, s). if q = p \<and> s = Stopped False then (q, Stopped True) else (q, s))
     (filter (\<lambda>(q, s). \<not> (q = p \<and> s = Zombie)) (kids k))\<rparr>"

text \<open>\<open>waitpid(p, &status, WNOHANG | WUNTRACED)\<close>; -1 asks for any child.\<close>

definition waitpid :: "int \<Rightarrow> kernel \<Rightarrow> int \<times> kernel" where
  "waitpid p k =
     (if p = -1 then
        if kids k = [] then (-1, k)
        else (case List.find (\<lambda>(q, s). changed s) (kids k) of
                None \<Rightarrow> (0, k)
              | Some (q, s) \<Rightarrow> (q, report q k))
      else (case map_of (kids k) p of
              None \<Rightarrow> (-1, k)
            | Some s \<Rightarrow> if changed s then (p, report p k) else (0, k)))"

definition kill_sig :: "int \<Rightarrow> nat \<Rightarrow> kernel \<Rightarrow> kernel" where
  "kill_sig p sig k =
     (let k1 = log_event (Kill p sig) k
      in if sig = SIGKILL then k1\<lparr>kids := map (\<lambda>(q, s). if q = p \<or> p = -1 then (q, Zombie) else (q, s)) (kids k1)\<rparr>
         else k1)"

definition fork_child :: "kernel \<Rightarrow> int \<times> kernel" where
  "fork_child k =
     (if fork_fails k (forks k) then (-1, k\<lparr>forks := forks k + 1\<rparr>)
      else (next_pid k, (log_event (Fork (next_pid k)) k)\<lparr>kids := kids k @ [(next_pid k, Alive)],
              next_pid := next_pid k + 1, forks := forks k + 1\<rparr>))"

section \<open>Supervision\<close>

definition kill_process :: "int \<Rightarrow> kernel \<Rightarrow> kernel" where
  "kill_process p k = kill_sig p SIGKILL (kill_sig p SIGINT (kill_sig p SIGINT k))"

text \<open>The child executes the program with the argument vector.\<close>

definition start_process :: "t_process_item \<Rightarrow> kernel \<Rightarrow> t_process_item \<times> kernel" where
  "start_process item k =
     (case fork_child k of (p, k1) \<Rightarrow>
        if p < 0 then (item, k1)
        else (item\<lparr>pid := p\<rparr>, log_event (Exec (bin_path item) (argv item)) k1))"

definition process_exited :: "t_process_item \<Rightarrow> kernel \<Rightarrow> bool \<times> kernel" where
  "process_exited item k =
     (case waitpid (pid item) k of (p, k1) \<Rightarrow>
        if p = -1 then (False, k1)
        else if p = 0 then (False, k1)
        else if p = pid item then (True, k1)
        else (False, k1))"

fun kill_process_list :: "t_process_item list \<Rightarrow> kernel \<Rightarrow> t_process_item list \<times> kernel" where
  "kill_process_list [] k = ([], k)"
| "kill_process_list (item # items) k =
     (let (item1, k1) = (if pid item \<noteq> INVALID_PID
                         then (item\<lparr>pid := INVALID_PID\<rparr>, kill_process (pid item) k) else (item, k));
          (items1, k2) = kill_process_list items k1
      in (item1 # items1, k2))"

definition restart_system :: "t_process_item list \<Rightarrow> kernel \<Rightarrow> t_process_item list \<times> kernel" where
  "restart_system items k =
     (case kill_process_list items k of (items1, k1) \<Rightarrow> (items1, log_event (System ''reboot'') k1))"

text \<open>\<open>restart_process\<close> of entry \<open>i\<close>; the flag tells that the guard has ended.\<close>

definition restart_process :: "nat \<Rightarrow> t_process_item list \<Rightarrow> kernel \<Rightarrow> t_process_item list \<times> kernel \<times> bool" where
  "restart_process i items k =
     (let item = items ! i;
          (items1, k1) = (if pid item \<noteq> INVALID_PID
                          then (items[i := item\<lparr>pid := INVALID_PID\<rparr>], kill_process (pid item) k) else (items, k))
      in if restore_mode item = RESTORE_MODE_MACHINE
         then (case restart_system items1 k1 of (items2, k2) \<Rightarrow> (items2, log_event (Exit 1) k2, True))
         else (case start_process (items1 ! i) k1 of (item2, k2) \<Rightarrow> (items1[i := item2], k2, False)))"

fun start_from :: "nat list \<Rightarrow> t_process_item list \<Rightarrow> kernel \<Rightarrow> t_process_item list \<times> kernel" where
  "start_from [] items k = (items, k)"
| "start_from (i # is) items k =
     (case start_process (items ! i) k of (item, k1) \<Rightarrow> start_from is (items[i := item]) k1)"

definition start_process_list :: "t_process_item list \<Rightarrow> kernel \<Rightarrow> t_process_item list \<times> kernel" where
  "start_process_list items k = start_from [0..<length items] items k"

text \<open>One pass of the loop of \<open>main\<close>, every five seconds.\<close>

fun guard_from :: "nat list \<Rightarrow> t_process_item list \<Rightarrow> kernel \<Rightarrow> t_process_item list \<times> kernel \<times> bool" where
  "guard_from [] items k = (items, k, False)"
| "guard_from (i # is) items k =
     (case process_exited (items ! i) k of (down, k1) \<Rightarrow>
        if down then (case restart_process i items k1 of (items1, k2, over) \<Rightarrow>
          if over then (items1, k2, True) else guard_from is items1 k2)
        else guard_from is items k1)"

definition guard_pass :: "t_process_item list \<Rightarrow> kernel \<Rightarrow> t_process_item list \<times> kernel \<times> bool" where
  "guard_pass items k = guard_from [0..<length items] items k"

text \<open>The children that go down while the guard sleeps.\<close>

definition die :: "int list \<Rightarrow> kernel \<Rightarrow> kernel" where
  "die ps k = k\<lparr>kids := map (\<lambda>(q, s). if q \<in> set ps then (q, Zombie) else (q, s)) (kids k)\<rparr>"

text \<open>The end of \<open>main\<close> after SIGINT; \<open>dying\<close>: the children that go down in the two seconds after the SIGINT that the
  guard sends to its process group.\<close>

fun guard_quit :: "t_process_item list \<Rightarrow> kernel \<Rightarrow> kernel" where
  "guard_quit [] k = k"
| "guard_quit (item # items) k =
     (case process_exited item k of (down, k1) \<Rightarrow>
        guard_quit items (if down then k1 else kill_sig (pid item) SIGKILL k1))"

definition main_quit :: "int list \<Rightarrow> t_process_item list \<Rightarrow> kernel \<Rightarrow> kernel" where
  "main_quit dying items k = guard_quit items (die dying (log_event (Kill 0 SIGINT) (log_event (Kill 0 SIGINT) k)))"

section \<open>The whole program\<close>

record guard_args =
  daemonize_process :: bool
  redirect_std_io :: bool
  use_dft_config_file :: bool
  guard_config_path :: string

definition guard_args_init :: guard_args where
  "guard_args_init = \<lparr>daemonize_process = False, redirect_std_io = False, use_dft_config_file = True,
     guard_config_path = []\<rparr>"

text \<open>A wrong option is only reported.\<close>

fun parse_args :: "opt_event list \<Rightarrow> guard_args \<Rightarrow> guard_args option" where
  "parse_args [] a = Some a"
| "parse_args ((opt, optarg) # evs) a =
     (if opt = opt_char (CHR ''d'') then parse_args evs (a\<lparr>daemonize_process := True\<rparr>)
      else if opt = opt_char (CHR ''r'') then parse_args evs (a\<lparr>redirect_std_io := True\<rparr>)
      else if opt = opt_char (CHR ''c'') then
        (if length (the optarg) < MAX_PATH_LEN
         then parse_args evs (a\<lparr>use_dft_config_file := False, guard_config_path := the optarg\<rparr>) else None)
      else parse_args evs a)"

text \<open>\<open>main\<close> up to the label \<open>restart\<close>; \<open>daemonize\<close>, the log and the PID file apart.\<close>

definition guard_start ::
    "string list \<Rightarrow> disk \<Rightarrow> rows option \<Rightarrow> rows option \<Rightarrow> config_state \<Rightarrow> kernel \<Rightarrow>
      (string + t_process_item list \<times> kernel) option" where
  "guard_start words fs vars vals st k = do {
     a \<leftarrow> parse_args (getopt ''drc:'' words) guard_args_init;
     let path = (if use_dft_config_file a then ''guard.conf'' else guard_config_path a);
     r \<leftarrow> init_process_list fs vars vals path st;
     Some (case r of Inl msg \<Rightarrow> Inl msg | Inr (items, st1) \<Rightarrow> Inr (start_process_list items k))
   }"

text \<open>\<open>main\<close> from there: each element is what \<open>g_need_exit\<close> is at \<open>restart\<close> and who dies in the sleep of
  the round, five seconds after the pass or two seconds at the end. The flag tells that the guard has ended.\<close>

fun guard_main :: "(bool \<times> int list) list \<Rightarrow> t_process_item list \<Rightarrow> kernel \<Rightarrow> t_process_item list \<times> kernel \<times> bool" where
  "guard_main [] items k = (items, k, False)"
| "guard_main ((g_need_exit, dying) # rounds) items k =
     (if g_need_exit then (items, main_quit dying items k, True)
      else (case guard_pass items k of (items1, k1, over) \<Rightarrow>
        if over then (items1, k1, True) else guard_main rounds items1 (die dying k1)))"

section \<open>A pass restores every process\<close>

definition guard_ok :: "t_process_item list \<Rightarrow> kernel \<Rightarrow> bool" where
  "guard_ok items k \<longleftrightarrow> distinct (map pid items) \<and> distinct (map fst (kids k)) \<and>
     (\<forall>q \<in> fst ` set (kids k). 0 < q \<and> q < next_pid k) \<and> 0 < next_pid k \<and>
     (\<forall>x \<in> set items. \<exists>s. map_of (kids k) (pid x) = Some s \<and> s \<noteq> Stopped True)"

lemma map_of_report:
  assumes "distinct (map fst (kids k))"
  shows "map_of (kids (report p k)) q =
    (if q = p then (case map_of (kids k) p of Some Zombie \<Rightarrow> None | Some (Stopped False) \<Rightarrow> Some (Stopped True) | r \<Rightarrow> r)
     else map_of (kids k) q)"
proof -
  have "map_of (map (\<lambda>(q, s). if q = p \<and> s = Stopped False then (q, Stopped True) else (q, s))
      (filter (\<lambda>(q, s). \<not> (q = p \<and> s = Zombie)) l)) q =
    (if q = p then (case map_of l p of Some Zombie \<Rightarrow> None | Some (Stopped False) \<Rightarrow> Some (Stopped True) | r \<Rightarrow> r)
     else map_of l q)" if "distinct (map fst l)" for l
    using that
  proof (induction l)
    case (Cons e l)
    obtain r s where e: "e = (r, s)" by (cases e)
    from Cons.prems e have n: "map_of l r = None" by (simp add: map_of_eq_None_iff)
    from Cons e n show ?case by (cases s) (auto split: bool.splits)
  qed simp
  then show ?thesis using assms by (simp add: report_def)
qed

lemma report_fields [simp]:
  "next_pid (report p k) = next_pid k" "fork_fails (report p k) = fork_fails k" "forks (report p k) = forks k"
  by (simp_all add: report_def)

lemma report_kids:
  "fst ` set (kids (report p k)) \<subseteq> fst ` set (kids k)"
  "distinct (map fst (kids k)) \<Longrightarrow> distinct (map fst (kids (report p k)))"
proof -
  have m: "map fst (kids (report p k)) = map fst (filter (\<lambda>(q, s). \<not> (q = p \<and> s = Zombie)) (kids k))"
    by (auto simp: report_def)
  then have "fst ` set (kids (report p k)) = fst ` set (filter (\<lambda>(q, s). \<not> (q = p \<and> s = Zombie)) (kids k))"
    by (metis set_map)
  then show "fst ` set (kids (report p k)) \<subseteq> fst ` set (kids k)" by auto
  show "distinct (map fst (kids k)) \<Longrightarrow> distinct (map fst (kids (report p k)))"
    unfolding m by (rule distinct_map_filter)
qed

abbreviation kid :: "kernel \<Rightarrow> int \<Rightarrow> kid option" where "kid k p \<equiv> map_of (kids k) p"

lemma map_of_zombies:
  "map_of (map (\<lambda>(q, s). if P q then (q, Zombie) else (q, s)) l) q =
     (if P q then map_option (\<lambda>_. Zombie) (map_of l q) else map_of l q)"
proof (induction l)
  case (Cons e l)
  then show ?case by (cases e) auto
qed simp

lemma kid_kill:
  "kid (kill_sig p sig k) q = (if sig = SIGKILL \<and> (q = p \<or> p = -1) then map_option (\<lambda>_. Zombie) (kid k q) else kid k q)"
  using map_of_zombies[of "\<lambda>q. q = p" "kids k" q] map_of_zombies[of "\<lambda>_. True" "kids k" q]
  by (cases "p = -1"; cases "q = p") (simp_all add: kill_sig_def log_event_def Let_def)

lemma kill_fields [simp]:
  "next_pid (kill_sig p sig k) = next_pid k" "fork_fails (kill_sig p sig k) = fork_fails k"
  "map fst (kids (kill_sig p sig k)) = map fst (kids k)"
  by (auto simp: kill_sig_def log_event_def Let_def)

lemma kid_kill_process:
  "kid (kill_process p k) q = (if q = p \<or> p = -1 then map_option (\<lambda>_. Zombie) (kid k q) else kid k q)"
  by (simp add: kill_process_def kid_kill)

lemma kill_process_fields [simp]:
  "next_pid (kill_process p k) = next_pid k" "fork_fails (kill_process p k) = fork_fails k"
  "map fst (kids (kill_process p k)) = map fst (kids k)"
  by (simp_all add: kill_process_def)

lemma start_process_alive:
  assumes "\<not> fork_fails k (forks k)" "0 < next_pid k"
  shows "\<exists>k1. start_process item k = (item\<lparr>pid := next_pid k\<rparr>, k1) \<and> kids k1 = kids k @ [(next_pid k, Alive)] \<and>
    next_pid k1 = next_pid k + 1 \<and> fork_fails k1 = fork_fails k"
  using assms by (simp add: start_process_def fork_child_def log_event_def)

lemma guard_ok_kids: "guard_ok items k \<Longrightarrow> q \<in> fst ` set (kids k) \<Longrightarrow> 0 < q \<and> q < next_pid k"
  unfolding guard_ok_def by blast

lemma guard_ok_item:
  "guard_ok items k \<Longrightarrow> x \<in> set items \<Longrightarrow> \<exists>s. kid k (pid x) = Some s \<and> s \<noteq> Stopped True"
  unfolding guard_ok_def by blast

lemma guard_ok_pid:
  assumes "guard_ok items k" "x \<in> set items"
  shows "pid x < next_pid k" "0 < pid x"
proof -
  obtain s where "(pid x, s) \<in> set (kids k)" using guard_ok_item[OF assms] by (auto dest: map_of_SomeD)
  then have "pid x \<in> fst ` set (kids k)" by force
  from guard_ok_kids[OF assms(1) this] show "pid x < next_pid k" "0 < pid x" by simp_all
qed

text \<open>Everything known of the children is in \<open>guard_ok\<close>; a restarted entry gets a fresh child.\<close>

lemma guard_ok_restarted:
  assumes "guard_ok items k" "i < length items" "kids k1 = kids k' @ [(next_pid k, Alive)]" "next_pid k1 = next_pid k + 1"
    and "fst ` set (kids k') \<subseteq> fst ` set (kids k)" "distinct (map fst (kids k'))"
    and "\<And>q. q \<noteq> pid (items ! i) \<Longrightarrow> kid k' q = kid k q" "pid item = next_pid k"
  shows "guard_ok (items[i := item]) k1 \<and> kid k1 (next_pid k) = Some Alive \<and>
    (\<forall>j < length items. j \<noteq> i \<longrightarrow> kid k1 (pid (items ! j)) = kid k (pid (items ! j)))"
proof -
  have old: "0 < q \<and> q < next_pid k" if "q \<in> fst ` set (kids k')" for q
    using guard_ok_kids[OF assms(1)] assms(5) that by blast
  have "next_pid k \<notin> fst ` set (kids k')" using old[of "next_pid k"] by blast
  then have new: "kid k' (next_pid k) = None" by (simp add: map_of_eq_None_iff)
  note pids = guard_ok_pid[OF assms(1)]
  have other: "kid k1 (pid (items ! j)) = kid k (pid (items ! j))" if "j < length items" "j \<noteq> i" for j
  proof -
    have "pid (items ! j) \<noteq> pid (items ! i)"
      using assms(1,2) that nth_eq_iff_index_eq[of "map pid items" j i] by (simp add: guard_ok_def)
    with assms(7) pids(1)[of "items ! j"] that show ?thesis by (auto simp: assms(3) map_add_def split: option.split)
  qed
  have self: "kid k1 (next_pid k) = Some Alive" using new by (simp add: assms(3) map_add_def)
  have "distinct (map pid (items[i := item]))"
  proof -
    have "map pid (items[i := item]) = (map pid items)[i := next_pid k]" by (simp add: map_update assms(8))
    moreover have "next_pid k \<notin> set (map pid items)" using pids(1) by force
    ultimately show ?thesis using assms(1) by (simp add: guard_ok_def distinct_list_update)
  qed
  moreover have "distinct (map fst (kids k1))" using assms(6) old by (auto simp: assms(3))
  moreover have "\<forall>q \<in> fst ` set (kids k1). 0 < q \<and> q < next_pid k1" "0 < next_pid k1"
    using old assms(1) by (auto simp: assms(3,4) guard_ok_def dest: old[OF imageI])
  moreover have "\<exists>s. kid k1 (pid x) = Some s \<and> s \<noteq> Stopped True" if "x \<in> set (items[i := item])" for x
  proof -
    from that obtain j where j: "j < length items" "x = items[i := item] ! j" by (auto simp: in_set_conv_nth)
    show ?thesis
    proof (cases "j = i")
      case True
      with j assms(8) self show ?thesis by simp
    next
      case False
      with j other[of j] guard_ok_item[OF assms(1), of "items ! j"] show ?thesis by simp
    qed
  qed
  ultimately show ?thesis using self other by (simp add: guard_ok_def)
qed

definition restores :: "t_process_item list \<Rightarrow> kernel \<Rightarrow> nat \<Rightarrow> t_process_item list \<Rightarrow> kernel \<Rightarrow> bool" where
  "restores items k i items' k' \<longleftrightarrow> guard_ok items' k' \<and> length items' = length items \<and> fork_fails k' = fork_fails k \<and>
     (\<forall>j < length items. j \<noteq> i \<longrightarrow> items' ! j = items ! j \<and> kid k' (pid (items ! j)) = kid k (pid (items ! j))) \<and>
     kid k' (pid (items' ! i)) = Some Alive \<and> items' ! i = (items ! i)\<lparr>pid := pid (items' ! i)\<rparr> \<and>
     (kid k (pid (items ! i)) = Some Alive \<longrightarrow> pid (items' ! i) = pid (items ! i))"

lemma guard_step:
  assumes "guard_ok items k" "i < length items" "restore_mode (items ! i) = RESTORE_MODE_PROCESS" "\<And>n. \<not> fork_fails k n"
  shows "\<exists>items' k'. guard_from (i # is) items k = guard_from is items' k' \<and> restores items k i items' k'"
proof -
  let ?item = "items ! i"
  have "?item \<in> set items" using assms(2) by simp
  from guard_ok_item[OF assms(1) this] obtain s where s: "kid k (pid ?item) = Some s" "s \<noteq> Stopped True" by blast
  from guard_ok_pid[OF assms(1) \<open>?item \<in> set items\<close>] have p: "0 < pid ?item" "pid ?item < next_pid k" "0 < next_pid k"
    by linarith+
  show ?thesis
  proof (cases "changed s")
    case False
    then have "s = Alive" using s(2) by (cases s) (auto simp: changed_def)
    moreover have "process_exited ?item k = (False, k)"
      using False s p by (simp add: process_exited_def waitpid_def)
    ultimately show ?thesis using assms(1) s by (intro exI[of _ items] exI[of _ k]) (simp add: restores_def)
  next
    case True
    let ?k1 = "report (pid ?item) k" and ?item1 = "?item\<lparr>pid := INVALID_PID\<rparr>"
    let ?k2 = "kill_process (pid ?item) ?k1"
    have down: "process_exited ?item k = (True, ?k1)"
      using True s p by (simp add: process_exited_def waitpid_def)
    obtain k3 where k3: "start_process ?item1 ?k2 = (?item1\<lparr>pid := next_pid k\<rparr>, k3)"
      "kids k3 = kids ?k2 @ [(next_pid k, Alive)]" "next_pid k3 = next_pid k + 1" "fork_fails k3 = fork_fails k"
      using start_process_alive[of ?k2 ?item1] assms(4) p(3) by auto
    have dk: "distinct (map fst (kids k))" using assms(1) by (simp add: guard_ok_def)
    have f: "fst ` set (kids ?k2) \<subseteq> fst ` set (kids k)" "distinct (map fst (kids ?k2))"
      using report_kids(1)[of "pid ?item" k] report_kids(2)[OF dk] kill_process_fields(3)[of "pid ?item" ?k1]
      by (metis set_map, simp)
    have "kid ?k2 q = kid k q" if "q \<noteq> pid ?item" for q
      using that p by (simp add: kid_kill_process map_of_report[OF dk])
    from guard_ok_restarted[OF assms(1,2) k3(2,3) f this, of "?item\<lparr>pid := next_pid k\<rparr>"]
    have g: "guard_ok (items[i := ?item\<lparr>pid := next_pid k\<rparr>]) k3" "kid k3 (next_pid k) = Some Alive"
      "\<forall>j < length items. j \<noteq> i \<longrightarrow> kid k3 (pid (items ! j)) = kid k (pid (items ! j))" by simp_all
    have "restart_process i items ?k1 = (items[i := ?item\<lparr>pid := next_pid k\<rparr>], k3, False)"
      using assms(2,3) p k3(1)
      by (simp add: restart_process_def INVALID_PID_def RESTORE_MODE_MACHINE_def RESTORE_MODE_PROCESS_def Let_def)
    then have "guard_from (i # is) items k = guard_from is (items[i := ?item\<lparr>pid := next_pid k\<rparr>]) k3"
      using down by simp
    moreover have "restores items k i (items[i := ?item\<lparr>pid := next_pid k\<rparr>]) k3"
      using g k3(4) assms(2) s True by (auto simp: restores_def changed_def)
    ultimately show ?thesis by blast
  qed
qed

lemma guard_from_restores:
  assumes "guard_ok items k" "\<And>n. \<not> fork_fails k n" "set is \<subseteq> {..<length items}" "distinct is"
    and "\<And>i. i \<in> set is \<Longrightarrow> restore_mode (items ! i) = RESTORE_MODE_PROCESS"
  shows "\<exists>items' k'. guard_from is items k = (items', k', False) \<and> guard_ok items' k' \<and> length items' = length items \<and>
    (\<forall>i < length items. items' ! i = (items ! i)\<lparr>pid := pid (items' ! i)\<rparr> \<and>
       (i \<in> set is \<longrightarrow> kid k' (pid (items' ! i)) = Some Alive) \<and>
       (i \<notin> set is \<longrightarrow> kid k' (pid (items' ! i)) = kid k (pid (items ! i)) \<and> items' ! i = items ! i) \<and>
       (kid k (pid (items ! i)) = Some Alive \<longrightarrow> pid (items' ! i) = pid (items ! i)))"
  using assms
proof (induction "is" arbitrary: items k)
  case Nil
  then show ?case by simp
next
  case (Cons i "is")
  have i: "i < length items" "restore_mode (items ! i) = RESTORE_MODE_PROCESS" "i \<notin> set is"
    using Cons.prems(3-5) by auto
  from guard_step[OF Cons.prems(1) i(1,2) Cons.prems(2), of "is"] obtain items1 k1 where
    1: "guard_from (i # is) items k = guard_from is items1 k1" and r: "restores items k i items1 k1" by blast
  have len: "length items1 = length items" using r by (simp add: restores_def)
  have keep: "items1 ! j = items ! j" "kid k1 (pid (items ! j)) = kid k (pid (items ! j))" if "j < length items" "j \<noteq> i" for j
    using r that by (simp_all add: restores_def)
  have self: "kid k1 (pid (items1 ! i)) = Some Alive" "items1 ! i = (items ! i)\<lparr>pid := pid (items1 ! i)\<rparr>"
    "kid k (pid (items ! i)) = Some Alive \<longrightarrow> pid (items1 ! i) = pid (items ! i)"
    using r by (simp_all add: restores_def)
  have "restore_mode (items1 ! j) = RESTORE_MODE_PROCESS" if "j \<in> set is" for j
  proof -
    have "j < length items" "j \<noteq> i" using Cons.prems(3) that i(3) by auto
    with keep(1) Cons.prems(5) that show ?thesis by simp
  qed
  with Cons.IH[of items1 k1] r Cons.prems(2-4) len obtain items' k' where
    2: "guard_from is items1 k1 = (items', k', False)" "guard_ok items' k'" "length items' = length items"
    "\<forall>j < length items. items' ! j = (items1 ! j)\<lparr>pid := pid (items' ! j)\<rparr> \<and>
       (j \<in> set is \<longrightarrow> kid k' (pid (items' ! j)) = Some Alive) \<and>
       (j \<notin> set is \<longrightarrow> kid k' (pid (items' ! j)) = kid k1 (pid (items1 ! j)) \<and> items' ! j = items1 ! j) \<and>
       (kid k1 (pid (items1 ! j)) = Some Alive \<longrightarrow> pid (items' ! j) = pid (items1 ! j))"
    by (auto simp: restores_def)
  have all: "items' ! j = (items ! j)\<lparr>pid := pid (items' ! j)\<rparr> \<and>
       (j \<in> set (i # is) \<longrightarrow> kid k' (pid (items' ! j)) = Some Alive) \<and>
       (j \<notin> set (i # is) \<longrightarrow> kid k' (pid (items' ! j)) = kid k (pid (items ! j)) \<and> items' ! j = items ! j) \<and>
       (kid k (pid (items ! j)) = Some Alive \<longrightarrow> pid (items' ! j) = pid (items ! j))" if "j < length items" for j
  proof (cases "j = i")
    case True
    with 2(4) that i(3) self show ?thesis by auto
  next
    case False
    with 2(4) that keep[OF that False] show ?thesis by auto
  qed
  have "guard_from (i # is) items k = (items', k', False)" using 1 2(1) by (rule trans)
  with 2(2,3) all show ?case by blast
qed

section \<open>All passes\<close>

lemma start_process_fork_fails [simp]: "fork_fails (snd (start_process x k)) = fork_fails k"
  by (simp add: start_process_def fork_child_def log_event_def split: prod.splits)

lemma process_exited_fork_fails [simp]: "fork_fails (snd (process_exited x k)) = fork_fails k"
proof -
  have "snd (process_exited x k) = snd (waitpid (pid x) k)"
    by (simp add: process_exited_def split: prod.splits)
  moreover have "fork_fails (snd (waitpid p k)) = fork_fails k" for p
    by (auto simp: waitpid_def split: prod.splits option.splits)
  ultimately show ?thesis by simp
qed

lemma kill_process_list_fork_fails [simp]: "fork_fails (snd (kill_process_list items k)) = fork_fails k"
  by (induction items k rule: kill_process_list.induct) (auto simp: Let_def split: prod.splits if_splits)

lemma restart_process_fork_fails [simp]: "fork_fails (fst (snd (restart_process i items k))) = fork_fails k"
proof -
  have "fork_fails (snd (restart_system its k1)) = fork_fails k1" for its k1
    using kill_process_list_fork_fails[of its k1]
    by (cases "kill_process_list its k1") (simp add: restart_system_def log_event_def)
  then have r: "restart_system its k1 = (its2, k2) \<Longrightarrow> fork_fails k2 = fork_fails k1" for its k1 its2 k2
    by (metis snd_conv)
  have s: "start_process x k1 = (x2, k2) \<Longrightarrow> fork_fails k2 = fork_fails k1" for x k1 x2 k2
    using start_process_fork_fails[of x k1] by simp
  show ?thesis by (auto simp: restart_process_def Let_def log_event_def dest!: r s split: prod.splits if_splits)
qed

lemma guard_from_fork_fails: "guard_from is items k = (items', k', over) \<Longrightarrow> fork_fails k' = fork_fails k"
proof (induction "is" arbitrary: items k)
  case (Cons i "is")
  have e: "process_exited x k = (d, k1) \<Longrightarrow> fork_fails k1 = fork_fails k" for x d k1
    using process_exited_fork_fails[of x k] by simp
  have r: "restart_process j its k1 = (its2, k2, ov) \<Longrightarrow> fork_fails k2 = fork_fails k1" for j its k1 its2 k2 ov
    using restart_process_fork_fails[of j its k1] by simp
  from Cons.prems show ?case by (auto dest!: e r Cons.IH split: prod.splits if_splits)
qed simp

lemma kid_die: "kid (die ps k) q = (if q \<in> set ps then map_option (\<lambda>_. Zombie) (kid k q) else kid k q)"
  using map_of_zombies[of "\<lambda>q. q \<in> set ps" "kids k" q] by (simp add: die_def)

lemma die_fields [simp]:
  "next_pid (die ps k) = next_pid k" "fork_fails (die ps k) = fork_fails k" "map fst (kids (die ps k)) = map fst (kids k)"
  by (auto simp: die_def)

lemma guard_ok_die: "guard_ok items k \<Longrightarrow> guard_ok items (die ps k)"
proof -
  assume ok: "guard_ok items k"
  have f: "fst ` set (kids (die ps k)) = fst ` set (kids k)" by (metis die_fields(3) set_map)
  have "\<exists>s. kid (die ps k) (pid x) = Some s \<and> s \<noteq> Stopped True" if "x \<in> set items" for x
    using guard_ok_item[OF ok that] by (auto simp: kid_die)
  with ok show ?thesis unfolding guard_ok_def f by simp
qed

lemma guard_pass_ok:
  assumes "guard_ok items k" "\<And>n. \<not> fork_fails k n" "\<And>x. x \<in> set items \<Longrightarrow> restore_mode x = RESTORE_MODE_PROCESS"
  shows "\<exists>items' k'. guard_pass items k = (items', k', False) \<and> guard_ok items' k' \<and> length items' = length items \<and>
    fork_fails k' = fork_fails k \<and>
    (\<forall>i < length items. items' ! i = (items ! i)\<lparr>pid := pid (items' ! i)\<rparr> \<and> kid k' (pid (items' ! i)) = Some Alive \<and>
       (kid k (pid (items ! i)) = Some Alive \<longrightarrow> pid (items' ! i) = pid (items ! i)))"
proof -
  have "set [0..<length items] \<subseteq> {..<length items}" "distinct [0..<length items]"
    "\<And>i. i \<in> set [0..<length items] \<Longrightarrow> restore_mode (items ! i) = RESTORE_MODE_PROCESS"
    using assms(3) by auto
  from guard_from_restores[OF assms(1,2) this] obtain items' k' where
    g: "guard_from [0..<length items] items k = (items', k', False)" "guard_ok items' k'" "length items' = length items"
      "\<forall>i < length items. items' ! i = (items ! i)\<lparr>pid := pid (items' ! i)\<rparr> \<and> kid k' (pid (items' ! i)) = Some Alive \<and>
       (kid k (pid (items ! i)) = Some Alive \<longrightarrow> pid (items' ! i) = pid (items ! i))" by auto
  with guard_from_fork_fails[OF g(1)] show ?thesis unfolding guard_pass_def by blast
qed

text \<open>The configured part of an entry.\<close>

definition same_process :: "t_process_item \<Rightarrow> t_process_item \<Rightarrow> bool" where
  "same_process x y \<longleftrightarrow> bin_path y = bin_path x \<and> proc_args y = proc_args x \<and> argv y = argv x \<and>
     restore_mode y = restore_mode x"

lemma same_process_refl: "same_process x x"
  by (simp add: same_process_def)

lemma same_process_trans: "same_process x y \<Longrightarrow> same_process y z \<Longrightarrow> same_process x z"
  by (simp add: same_process_def)

lemma same_process_pid: "y = x\<lparr>pid := p\<rparr> \<Longrightarrow> same_process x y"
  by (simp add: same_process_def)

lemma same_process_mode:
  assumes "list_all2 same_process items items'" "\<And>x. x \<in> set items \<Longrightarrow> restore_mode x = m" "y \<in> set items'"
  shows "restore_mode y = m"
  using assms by (induction rule: list_all2_induct) (auto simp: same_process_def)

lemma guard_main_ok:
  assumes "guard_ok items k" "\<And>n. \<not> fork_fails k n" "\<And>x. x \<in> set items \<Longrightarrow> restore_mode x = RESTORE_MODE_PROCESS"
    and "\<forall>r \<in> set rounds. \<not> fst r"
  shows "\<exists>items' k'. guard_main rounds items k = (items', k', False) \<and> guard_ok items' k' \<and>
    fork_fails k' = fork_fails k \<and> list_all2 same_process items items'"
  using assms
proof (induction rounds arbitrary: items k)
  case Nil
  then show ?case by (auto simp: list_all2_same same_process_refl)
next
  case (Cons r rounds)
  obtain dying where r: "r = (False, dying)" using Cons.prems(4) by (cases r) auto
  from guard_pass_ok[OF Cons.prems(1-3)] obtain items1 k1 where
    p: "guard_pass items k = (items1, k1, False)" "guard_ok items1 k1" "fork_fails k1 = fork_fails k"
      "length items1 = length items" "\<forall>i < length items. items1 ! i = (items ! i)\<lparr>pid := pid (items1 ! i)\<rparr>" by blast
  have same: "list_all2 same_process items items1"
    unfolding list_all2_conv_all_nth using p(4,5) same_process_pid by metis
  note m = same_process_mode[OF same Cons.prems(3)]
  have ff: "\<not> fork_fails (die dying k1) n" for n using p(3) Cons.prems(2) by simp
  have rest: "\<forall>r \<in> set rounds. \<not> fst r" using Cons.prems(4) by simp
  from Cons.IH[OF guard_ok_die[OF p(2), of dying] ff m rest] p(3) obtain items' k' where
    g: "guard_main rounds items1 (die dying k1) = (items', k', False)" "guard_ok items' k'"
      "fork_fails k' = fork_fails k" "list_all2 same_process items1 items'" by auto
  from list_all2_trans[OF _ same g(4)] same_process_trans have "list_all2 same_process items items'" by blast
  with g p(1) r show ?case by auto
qed

text \<open>The state while the entries are started one after the other.\<close>

definition started :: "nat \<Rightarrow> t_process_item list \<Rightarrow> kernel \<Rightarrow> bool" where
  "started j items k \<longleftrightarrow> distinct (map fst (kids k)) \<and> (\<forall>q \<in> fst ` set (kids k). 0 < q \<and> q < next_pid k) \<and>
     0 < next_pid k \<and> (\<forall>i < j. kid k (pid (items ! i)) = Some Alive) \<and>
     inj_on (\<lambda>i. pid (items ! i)) {..<j}"

lemma started_step:
  assumes "started j items k" "j < length items" "\<And>n. \<not> fork_fails k n"
  shows "\<exists>k1. start_process (items ! j) k = ((items ! j)\<lparr>pid := next_pid k\<rparr>, k1) \<and> fork_fails k1 = fork_fails k \<and>
    started (Suc j) (items[j := (items ! j)\<lparr>pid := next_pid k\<rparr>]) k1"
proof -
  note s = assms(1)[unfolded started_def]
  then have "0 < next_pid k" by simp
  from start_process_alive[OF assms(3) this, of "items ! j"] obtain k1 where
    k1: "start_process (items ! j) k = ((items ! j)\<lparr>pid := next_pid k\<rparr>, k1)"
      "kids k1 = kids k @ [(next_pid k, Alive)]" "next_pid k1 = next_pid k + 1" "fork_fails k1 = fork_fails k"
    by blast
  let ?items = "items[j := (items ! j)\<lparr>pid := next_pid k\<rparr>]"
  have fresh: "next_pid k \<notin> fst ` set (kids k)" using s by auto
  have old: "pid (?items ! i) = pid (items ! i) \<and> pid (items ! i) \<in> fst ` set (kids k)" if "i < j" for i
  proof -
    have "kid k (pid (items ! i)) = Some Alive" using s that by blast
    then show ?thesis using that by (force dest: map_of_SomeD)
  qed
  have new: "pid (?items ! j) = next_pid k" using assms(2) by simp
  have "kid k1 (pid (?items ! i)) = Some Alive" if "i < Suc j" for i
  proof (cases "i = j")
    case True
    have "kid k (next_pid k) = None" using fresh by (simp add: map_of_eq_None_iff)
    with True new k1(2) show ?thesis by (simp add: map_add_def)
  next
    case False
    with that have "i < j" by simp
    then have "kid k (pid (items ! i)) = Some Alive" "pid (?items ! i) = pid (items ! i)" using s old by blast+
    moreover have "pid (items ! i) \<noteq> next_pid k" using old[OF \<open>i < j\<close>] fresh by metis
    ultimately show ?thesis using k1(2) by (simp add: map_add_def)
  qed
  moreover have "inj_on (\<lambda>i. pid (?items ! i)) {..<Suc j}"
  proof -
    have "inj_on (\<lambda>i. pid (?items ! i)) {..<j}" using s old by (auto simp: inj_on_def)
    moreover have "pid (?items ! j) \<notin> (\<lambda>i. pid (?items ! i)) ` {..<j}" using old new fresh by auto
    ultimately show ?thesis by (simp add: lessThan_Suc)
  qed
  moreover have "distinct (map fst (kids k1))" using s fresh k1(2) by auto
  moreover have "\<forall>q \<in> fst ` set (kids k1). 0 < q \<and> q < next_pid k1" using s k1(2,3) by fastforce
  ultimately have "started (Suc j) ?items k1" using s k1(3) unfolding started_def by simp
  with k1(1,4) show ?thesis by blast
qed

lemma start_from_ok:
  "started j items k \<Longrightarrow> j \<le> length items \<Longrightarrow> (\<And>n. \<not> fork_fails k n) \<Longrightarrow>
   \<exists>items' k'. start_from [j..<length items] items k = (items', k') \<and> started (length items) items' k' \<and>
     fork_fails k' = fork_fails k \<and> list_all2 same_process items items'"
proof (induction "length items - j" arbitrary: j items k)
  case 0
  then show ?case by (auto simp: list_all2_same same_process_refl)
next
  case (Suc n)
  then have j: "j < length items" by simp
  from started_step[OF Suc.prems(1) j Suc.prems(3)] obtain k1 where
    s: "start_process (items ! j) k = ((items ! j)\<lparr>pid := next_pid k\<rparr>, k1)" "fork_fails k1 = fork_fails k"
      "started (Suc j) (items[j := (items ! j)\<lparr>pid := next_pid k\<rparr>]) k1" by blast
  let ?items = "items[j := (items ! j)\<lparr>pid := next_pid k\<rparr>]"
  have one: "list_all2 same_process items ?items"
    using j by (simp add: list_all2_conv_all_nth nth_list_update same_process_def)
  have ff: "\<not> fork_fails k1 m" for m using s(2) Suc.prems(3) by simp
  obtain items' k' where r: "start_from [Suc j..<length items] ?items k1 = (items', k')"
      "started (length items) items' k'" "fork_fails k' = fork_fails k1" "list_all2 same_process ?items items'"
  proof -
    have n: "n = length ?items - Suc j" "Suc j \<le> length ?items" using Suc.hyps(2) j by simp_all
    from Suc.hyps(1)[OF n(1) s(3) n(2) ff] that show thesis by auto
  qed
  have "start_from [j..<length items] items k = (items', k')" using j s(1) r(1) by (simp add: upt_rec[of j])
  moreover have "list_all2 same_process items items'"
    using list_all2_trans[OF _ one r(4)] same_process_trans by blast
  ultimately show ?case using r(2,3) s(2) by auto
qed

lemma start_process_list_ok:
  assumes "kids k = []" "0 < next_pid k" "\<And>n. \<not> fork_fails k n"
  shows "\<exists>items' k'. start_process_list items k = (items', k') \<and> guard_ok items' k' \<and>
    fork_fails k' = fork_fails k \<and> list_all2 same_process items items'"
proof -
  have "started 0 items k" using assms(1,2) by (simp add: started_def)
  from start_from_ok[OF this _ assms(3)] obtain items' k' where
    s: "start_process_list items k = (items', k')" "started (length items) items' k'" "fork_fails k' = fork_fails k"
      "list_all2 same_process items items'" unfolding start_process_list_def by auto
  have len: "length items' = length items" using s(4) by (simp add: list_all2_lengthD)
  have "distinct (map pid items')"
    using s(2) len unfolding started_def by (auto simp: distinct_conv_nth inj_on_def)
  moreover have "\<exists>t. kid k' (pid x) = Some t \<and> t \<noteq> Stopped True" if "x \<in> set items'" for x
  proof -
    from that obtain i where "i < length items" "x = items' ! i" using len by (auto simp: in_set_conv_nth)
    then have "kid k' (pid x) = Some Alive" using s(2) unfolding started_def by blast
    then show ?thesis by simp
  qed
  ultimately have "guard_ok items' k'" using s(2) unfolding started_def guard_ok_def by blast
  with s show ?thesis by blast
qed

section \<open>The variables of the configuration\<close>

lemma config_value_index:
  assumes "config_value name st = Some v"
  shows "\<exists>i < g_var_num st. get_config_var name st = Some (Some i) \<and>
    (\<exists>f. ga_variables st = Some f \<and> map tolower (f i) = map tolower name)"
proof -
  from assms obtain i g where i: "get_config_var name st = Some (Some i)" "ga_values st = Some g"
    by (auto simp: config_value_def Option.bind_eq_Some_conv)
  then have "g_var_num st \<noteq> 0" by (auto simp: get_config_var_def find_var_def split: if_splits)
  with i(1) obtain f where f: "ga_variables st = Some f"
      "List.find (\<lambda>i. strcaseeq (f i) name) [0..<g_var_num st] = Some i"
    by (auto simp: get_config_var_def find_var_def split: option.splits)
  with find_SomeD[OF f(2)] i(1) show ?thesis by (auto simp: strcaseeq_def)
qed

lemma config_values_bound:
  assumes "\<forall>n \<in> set ns. config_value n st \<noteq> None" "distinct (map (map tolower) ns)"
  shows "length ns \<le> g_var_num st"
proof -
  let ?idx = "\<lambda>n. the (the (get_config_var n st))"
  have i: "?idx n < g_var_num st \<and> (\<exists>f. ga_variables st = Some f \<and> map tolower (f (?idx n)) = map tolower n)"
    if "n \<in> set ns" for n
    using config_value_index[of n st] assms(1) that by fastforce
  have "distinct (map ?idx ns)"
    unfolding distinct_map
  proof (intro conjI inj_onI)
    show "distinct ns" using assms(2) by (simp add: distinct_map)
  next
    fix a b assume ab: "a \<in> set ns" "b \<in> set ns" "?idx a = ?idx b"
    with i[OF ab(1)] i[OF ab(2)] have "map tolower a = map tolower b" by auto
    with assms(2) ab(1,2) show "a = b" unfolding distinct_map by (auto dest: inj_onD)
  qed
  moreover have "set (map ?idx ns) \<subseteq> {..<g_var_num st}" using i by auto
  ultimately show ?thesis using length_distinct_bound by fastforce
qed

definition process_vars :: "nat \<Rightarrow> string list" where
  "process_vars i = [''bin_path_'' @ show_dec i, ''args_'' @ show_dec i, ''restore_mode_'' @ show_dec i]"

lemma show_dec_inj:
  assumes "show_dec a = show_dec b"
  shows "a = b"
proof -
  have "read_digits 10 (show_dec n) 0 = n" for n by (rule read_show_nat) simp_all
  with assms show ?thesis by metis
qed

lemma tolower_lower: "of_char c < (65 :: nat) \<or> (90 :: nat) < of_char c \<Longrightarrow> tolower c = c"
  by (auto simp: tolower_def Let_def)

lemma tolower_show_dec: "map tolower (show_dec n) = show_dec n"
proof -
  have "tolower c = c" if "c \<in> set (show_dec n)" for c
    using show_dec_chars[OF that] by (intro tolower_lower) (auto simp: isdigit_def Let_def)
  then show ?thesis by (simp add: map_idI)
qed

lemma process_names_lower:
  "map tolower ''bin_path_'' = ''bin_path_''" "map tolower ''args_'' = ''args_''"
  "map tolower ''restore_mode_'' = ''restore_mode_''" "map tolower ''process_num'' = ''process_num''"
  by (simp_all add: tolower_lower)

lemma process_vars_lower: "v \<in> set (process_vars i) \<Longrightarrow> map tolower v = v"
  unfolding process_vars_def set_simps insert_iff empty_iff
  by (elim disjE; hypsubst?) (simp_all only: map_append process_names_lower tolower_show_dec)

lemma process_vars_distinct: "distinct (''process_num'' # concat (map process_vars [0..<n]))"
proof (induction n)
  case (Suc n)
  have "v \<notin> set (process_vars i)" if "v \<in> set (process_vars n)" "i < n" for v i
    using that show_dec_inj[of n i] by (auto simp: process_vars_def)
  moreover have "distinct (process_vars n)" "''process_num'' \<notin> set (process_vars n)"
    by (simp_all add: process_vars_def)
  ultimately show ?case using Suc by auto
qed simp

lemma init_one_process_vars:
  assumes "init_one_process i st = Some (Inr item)"
  shows "(\<forall>v \<in> set (process_vars i). config_value v st \<noteq> None) \<and>
    config_value (''bin_path_'' @ show_dec i) st = Some (bin_path item) \<and> pid item = INVALID_PID \<and>
    length (argv item) \<le> 15 \<and> hd (argv item) = bin_path item"
  using assms by (auto simp: init_one_process_def process_vars_def Option.bind_eq_Some_conv Let_def split: if_splits)

lemma init_processes_vars:
  assumes "init_processes is st = Some (Inr items)"
  shows "length items = length is \<and>
    (\<forall>k < length is. init_one_process (is ! k) st = Some (Inr (items ! k)))"
  using assms
proof (induction "is" arbitrary: items)
  case (Cons i "is")
  then obtain item items' where "init_one_process i st = Some (Inr item)" "init_processes is st = Some (Inr items')"
    "items = item # items'" by (auto split: option.splits sum.splits)
  with Cons.IH[of items'] show ?case by (auto simp: nth_Cons')
qed simp

lemma parse_config_bound:
  assumes "parse_config_file fs vars vals b path False st = Some (n, st1)" "g_var_num st = 0" "ga_values_backup st = None"
  shows "g_var_num st1 \<le> MAX_VAR_NUM"
proof -
  have path: "length path < MAX_PATH_LEN" using assms(1) by (auto simp: parse_config_file_def split: if_splits)
  obtain content where c: "fs path = Some content"
    using assms(1) path by (auto simp: parse_config_file_def Let_def split: option.splits)
  show ?thesis
  proof (cases "vars = None \<or> vals = None")
    case True
    with assms path c show ?thesis by (auto simp: parse_config_file_def Let_def)
  next
    case False
    then obtain f g where fg: "vars = Some f" "vals = Some g" by (cases vars; cases vals) auto
    have "parse_config_file fs vars vals b path False st = parse_config_file fs vars vals (Some (\<lambda>_. [])) path False st"
      using c by (simp add: parse_config_file_def Let_def)
    with parse_ready[where fs = fs and need = False and h = "\<lambda>_. []", OF c path assms(2,3), of f g] assms(1) fg
    show ?thesis by auto
  qed
qed

text \<open>Where the arrays are there, a value is looked up in the list of variables.\<close>

lemma config_value_vars:
  assumes "ga_variables st = Some f" "ga_values st = Some g"
  shows "config_value name st = map_option snd (List.find (\<lambda>(k, v). strcaseeq k name) (config_vars st))"
proof -
  have "List.find (\<lambda>(k, v). strcaseeq k name) (config_vars st) =
      map_option (\<lambda>i. (f i, g i)) (List.find (\<lambda>i. strcaseeq (f i) name) [0..<g_var_num st])"
    by (simp add: config_vars_def assms find_map comp_def)
  then show ?thesis
    using find_var_some[OF assms(1), of name]
    by (cases "List.find (\<lambda>i. strcaseeq (f i) name) [0..<g_var_num st]")
      (simp_all add: config_value_def get_config_var_def assms(2))
qed

lemma init_process_list_text:
  assumes "fs path = Some (config_text es)" "list_all entry_ok es" "list_all entry_fits es" "length es \<le> MAX_VAR_NUM"
    and "length path < MAX_PATH_LEN" "g_var_num st = 0" "ga_values_backup st = None" "es \<noteq> []"
  shows "\<exists>st1 f g. parse_config_file fs (Some f0) (Some g0) None path False st = Some (length es, st1) \<and>
    config_vars st1 = es \<and> ga_variables st1 = Some f \<and> ga_values st1 = Some g"
proof -
  have p: "parse_config_file fs (Some f0) (Some g0) None path False st =
      parse_config_file fs (Some f0) (Some g0) (Some (\<lambda>_. [])) path False st"
    using assms(1) by (simp add: parse_config_file_def Let_def)
  from parse_ready[where fs = fs and path = path, OF assms(1,5-7), of f0 g0 "\<lambda>_. []" False] entries_of_config_text[OF assms(2,3)] assms(4)
  show ?thesis unfolding p by fastforce
qed

section \<open>Properties\<close>

text \<open>C22: The guard keeps every process running: started on a machine where no \<open>fork\<close> fails, with no
  process that asks for a restart of the machine, then after any number of passes, whichever
  children go down in between, one more pass leaves every configured process with a live child, and
  leaves a child alone that was alive.\<close>

theorem guard_keeps_running:
  assumes "kids k = []" "0 < next_pid k" "\<And>n. \<not> fork_fails k n"
    and "\<And>x. x \<in> set items \<Longrightarrow> restore_mode x = RESTORE_MODE_PROCESS" "\<forall>r \<in> set rounds. \<not> fst r"
    and "start_process_list items k = (items0, k0)"
  shows "\<exists>items1 k1 items2 k2. guard_main rounds items0 k0 = (items1, k1, False) \<and>
    guard_pass items1 k1 = (items2, k2, False) \<and> list_all2 same_process items items1 \<and>
    (\<forall>i < length items. items2 ! i = (items1 ! i)\<lparr>pid := pid (items2 ! i)\<rparr> \<and>
       kid k2 (pid (items2 ! i)) = Some Alive \<and>
       (kid k1 (pid (items1 ! i)) = Some Alive \<longrightarrow> pid (items2 ! i) = pid (items1 ! i)))"
proof -
  from start_process_list_ok[OF assms(1-3), of items] assms(6) have
    s: "guard_ok items0 k0" "fork_fails k0 = fork_fails k" "list_all2 same_process items items0" by auto
  have ff: "\<not> fork_fails k0 n" for n using s(2) assms(3) by simp
  from guard_main_ok[OF s(1) ff same_process_mode[OF s(3) assms(4)] assms(5)] obtain items1 k1 where
    g: "guard_main rounds items0 k0 = (items1, k1, False)" "guard_ok items1 k1" "fork_fails k1 = fork_fails k0"
      "list_all2 same_process items0 items1" by blast
  have same: "list_all2 same_process items items1"
    using list_all2_trans[OF _ s(3) g(4)] same_process_trans by blast
  then have len: "length items1 = length items" by (simp add: list_all2_lengthD)
  have ff1: "\<not> fork_fails k1 n" for n using g(3) ff by simp
  from guard_pass_ok[OF g(2) ff1 same_process_mode[OF same assms(4)]] g(1) same len show ?thesis by auto
qed

definition proc :: "int \<Rightarrow> t_process_item" where
  "proc p = \<lparr>bin_path = ''/bin/p'', proc_args = [], argv = [''/bin/p''], restore_mode = RESTORE_MODE_PROCESS, pid = p\<rparr>"

definition kernel_with :: "(int \<times> kid) list \<Rightarrow> kernel" where
  "kernel_with l = \<lparr>kids = l, next_pid = 100, fork_fails = (\<lambda>_. False), forks = 0, events = []\<rparr>"

lemma guard_keeps_running_witness:
  "\<exists>items1 k1 items2 k2.
     guard_main [(False, [100]), (False, [])] (fst (start_process_list [proc (-1), proc (-1)] (kernel_with [])))
       (snd (start_process_list [proc (-1), proc (-1)] (kernel_with []))) = (items1, k1, False) \<and>
     guard_pass items1 k1 = (items2, k2, False) \<and> kid k2 (pid (items2 ! 0)) = Some Alive"
proof -
  let ?items = "[proc (-1), proc (-1)]" and ?k = "kernel_with []"
  have "\<not> fork_fails ?k n" for n by (simp add: kernel_with_def)
  moreover have "restore_mode x = RESTORE_MODE_PROCESS" if "x \<in> set ?items" for x using that by (auto simp: proc_def)
  ultimately show ?thesis
    using guard_keeps_running[of ?k ?items "[(False, [100]), (False, [])]" "fst (start_process_list ?items ?k)"
        "snd (start_process_list ?items ?k)"]
    by (auto simp: kernel_with_def)
qed

text \<open>An entry whose \<open>fork\<close> failed is never started again, and its wait for child -1 takes the exit
  of another entry's child away: that one is not restarted either, in no later pass. When the guard
  quits, SIGKILL is sent to process -1, that is to every process.\<close>

theorem guard_failed_fork:
  assumes "pid p = INVALID_PID" "pid q = r" "r > 0" "kids k = [(r, Zombie)]"
  shows "\<exists>k'. guard_pass [p, q] k = ([p, q], k', False) \<and> kids k' = [] \<and>
    guard_pass [p, q] k' = ([p, q], k', False) \<and> Kill (-1) SIGKILL \<in> set (events (main_quit dying [p, q] k'))"
proof -
  let ?k' = "report r k"
  have e: "kids ?k' = []" using assms(4) by (simp add: report_def)
  have w: "process_exited p k = (False, ?k')"
    using assms by (simp add: process_exited_def waitpid_def INVALID_PID_def changed_def)
  have n: "process_exited x k1 = (False, k1)" if "kids k1 = []" for x k1
    using that by (simp add: process_exited_def waitpid_def)
  have "guard_pass [p, q] k = ([p, q], ?k', False)" "guard_pass [p, q] ?k' = ([p, q], ?k', False)"
    using w n[OF e] by (simp_all add: guard_pass_def upt_rec)
  moreover have "Kill (-1) SIGKILL \<in> set (events (main_quit dying [p, q] ?k'))"
    using assms(1) e n by (simp add: main_quit_def die_def kill_sig_def log_event_def INVALID_PID_def Let_def)
  ultimately show ?thesis using e by blast
qed

lemma guard_failed_fork_witness:
  "\<exists>k'. guard_pass [proc (-1), proc 8] (kernel_with [(8, Zombie)]) = ([proc (-1), proc 8], k', False) \<and> kids k' = []"
  using guard_failed_fork[of "proc (-1)" "proc 8" 8 "kernel_with [(8, Zombie)]"]
  by (auto simp: proc_def kernel_with_def INVALID_PID_def)

text \<open>The configuration can describe sixteen processes at most, not the 128 the guard checks for: with
  more the value of a variable is missing and the guard reads through a null pointer. What is read
  has the configured path in front of its arguments and no process yet.\<close>

theorem guard_process_limit:
  assumes "init_process_list fs vars vals path st = Some (Inr (items, st'))" "g_var_num st = 0" "ga_values_backup st = None"
  shows "length items \<le> 16 \<and> (\<forall>x \<in> set items. pid x = INVALID_PID \<and> hd (argv x) = bin_path x \<and> length (argv x) \<le> 15)"
proof -
  from assms(1) obtain n st1 num r where p: "parse_config_file fs vars vals None path False st = Some (n, st1)"
    and num: "config_value ''process_num'' st1 = Some num"
    and r: "init_processes [0..<nat (atoi num)] st1 = Some r"
    and "(case r of Inl msg \<Rightarrow> Some (Inl msg) | Inr items \<Rightarrow> Some (Inr (items, free_config st1))) = Some (Inr (items, st'))"
    by (auto simp: init_process_list_def Option.bind_eq_Some_conv Let_def split: if_splits)
  then have items: "init_processes [0..<nat (atoi num)] st1 = Some (Inr items)" by (cases r) auto
  let ?n = "nat (atoi num)"
  let ?ns = "''process_num'' # concat (map process_vars [0..<?n])"
  note one = init_processes_vars[OF items]
  have each: "init_one_process i st1 = Some (Inr (items ! i))" if "i < ?n" for i using one that by auto
  have "\<forall>v \<in> set ?ns. config_value v st1 \<noteq> None"
    using num init_one_process_vars[OF each] by auto
  moreover have "distinct (map (map tolower) ?ns)"
  proof -
    have "map tolower v = v" if "v \<in> set ?ns" for v
      using that process_vars_lower process_names_lower(4) by auto
    then have "map (map tolower) ?ns = ?ns" by (rule map_idI)
    then show ?thesis using process_vars_distinct by metis
  qed
  ultimately have "length ?ns \<le> g_var_num st1" by (rule config_values_bound)
  also have "\<dots> \<le> MAX_VAR_NUM" by (rule parse_config_bound[OF p assms(2,3)])
  finally have "3 * ?n + 1 \<le> 50"
    by (simp add: length_concat process_vars_def comp_def sum_list_triv MAX_VAR_NUM_def)
  moreover have "\<forall>x \<in> set items. pid x = INVALID_PID \<and> hd (argv x) = bin_path x \<and> length (argv x) \<le> 15"
    using one init_one_process_vars[OF each] by (auto simp: in_set_conv_nth)
  ultimately show ?thesis using one by simp
qed

definition sample_vars :: "(string \<times> string) list" where
  "sample_vars = [(''process_num'', ''1''), (''bin_path_0'', ''/bin/a''), (''args_0'', ''-x 1''), (''restore_mode_0'', ''process'')]"

lemma sample_vars_ok:
  "list_all entry_ok sample_vars" "list_all entry_fits sample_vars" "length sample_vars \<le> MAX_VAR_NUM"
proof -
  show "list_all entry_ok sample_vars" by code_simp
  show "list_all entry_fits sample_vars" "length sample_vars \<le> MAX_VAR_NUM"
    by (simp_all add: sample_vars_def entry_fits_def config_sizes)
qed

lemma sample_guard_list:
  "\<exists>x st'. init_process_list (Map.empty(''c'' \<mapsto> config_text sample_vars)) (Some (\<lambda>_. [])) (Some (\<lambda>_. [])) ''c'' empty_config =
      Some (Inr ([x], st')) \<and> argv x = [''/bin/a'', ''-x'', ''1''] \<and> restore_mode x = RESTORE_MODE_PROCESS"
proof -
  have "(Map.empty(''c'' \<mapsto> config_text sample_vars)) ''c'' = Some (config_text sample_vars)" by simp
  moreover have "length ''c'' < MAX_PATH_LEN" "g_var_num empty_config = 0" "ga_values_backup empty_config = None"
    "sample_vars \<noteq> []" by (simp_all add: empty_config_def config_sizes sample_vars_def)
  ultimately obtain st1 f g where p: "parse_config_file (Map.empty(''c'' \<mapsto> config_text sample_vars)) (Some (\<lambda>_. []))
      (Some (\<lambda>_. [])) None ''c'' False empty_config = Some (length sample_vars, st1)"
    "config_vars st1 = sample_vars" "ga_variables st1 = Some f" "ga_values st1 = Some g"
    using init_process_list_text[where fs = "Map.empty(''c'' \<mapsto> config_text sample_vars)" and path = "''c''", OF _ sample_vars_ok]
    by blast
  have v: "config_value ''process_num'' st1 = Some ''1''" "config_value (''bin_path_'' @ show_dec 0) st1 = Some ''/bin/a''"
    "config_value (''args_'' @ show_dec 0) st1 = Some ''-x 1''" "config_value (''restore_mode_'' @ show_dec 0) st1 = Some ''process''"
    unfolding config_value_vars[OF p(3,4)] p(2) by code_simp+
  have a: "atoi ''1'' = 1" by code_simp
  obtain x where x: "init_one_process 0 st1 = Some (Inr x)" "argv x = [''/bin/a'', ''-x'', ''1'']"
    "restore_mode x = RESTORE_MODE_PROCESS"
    using v(2-4) by (simp add: init_one_process_def config_sizes MAX_ARGS_LEN_def Let_def)
  have "init_process_list (Map.empty(''c'' \<mapsto> config_text sample_vars)) (Some (\<lambda>_. [])) (Some (\<lambda>_. [])) ''c'' empty_config =
      Some (Inr ([x], free_config st1))"
    using p(1) v(1) a x(1) by (simp add: init_process_list_def MAX_PROCESS_NUM_def sample_vars_def upt_rec)
  with x(2,3) show ?thesis by blast
qed

lemma guard_process_limit_witness:
  "\<exists>x st'. init_process_list (Map.empty(''c'' \<mapsto> config_text sample_vars)) (Some (\<lambda>_. [])) (Some (\<lambda>_. [])) ''c'' empty_config =
      Some (Inr ([x], st')) \<and> argv x = [''/bin/a'', ''-x'', ''1''] \<and> pid x = INVALID_PID"
proof -
  from sample_guard_list obtain x st' where x: "init_process_list (Map.empty(''c'' \<mapsto> config_text sample_vars)) (Some (\<lambda>_. []))
      (Some (\<lambda>_. [])) ''c'' empty_config = Some (Inr ([x], st'))" "argv x = [''/bin/a'', ''-x'', ''1'']" by blast
  from guard_process_limit[OF x(1)] x show ?thesis by (auto simp: empty_config_def)
qed

end
