(* ===== verification/TapWriter.thy ===== *)
theory TapWriter
  imports Getopt "HOL-Library.Signed_Division"
begin

text \<open>
  The packet sender \<open>misc/tap_writer.c\<close>: its command line, the preparation of the tap interface,
  the loading of a dump file, and the paced sending loop with its counters. What \<open>getopt_long\<close>
  makes of the command line is \<open>Getopt\<close>; the records of the dump, the clock readings, the values
  read from \<open>need_stop\<close> and the results of \<open>write\<close> are lists of inputs. \<open>None\<close> is a division by
  zero, an access outside a buffer, or a loop that still waits for its next input.
\<close>

section \<open>State\<close>

definition MAX_PACKET_NUM :: nat where "MAX_PACKET_NUM = 128"
definition MAX_ETH_DATA_LEN :: nat where "MAX_ETH_DATA_LEN = 8192"
definition MAX_ETH_PKT_LEN :: nat where "MAX_ETH_PKT_LEN = MAX_ETH_DATA_LEN + 14"

text \<open>The bytes from \<open>dst_mac\<close> on that were copied; \<open>data\<close> has 8192 words of four bytes.\<close>

record t_ether_packet =
  pkt_len :: u32
  pkt_data :: "u8 list"

text \<open>The loaded packets are the first \<open>g_pkts_num\<close> of \<open>gat_pkts\<close>; \<open>commands\<close> are those given to
  \<open>system\<close>, \<open>screen_out\<close> is what is printed.\<close>

record tap_writer =
  enable_max_speed :: bool
  input_file :: "string option"
  tap_name :: "char list"
  add_tap_to_ovs_br :: "string option"
  burst_num :: int
  snd_interval :: int
  frequency :: int
  gat_pkts :: "t_ether_packet list"
  commands :: "string list"
  screen_out :: string

definition tap_init :: tap_writer where
  "tap_init = \<lparr>enable_max_speed = False, input_file = None, tap_name = replicate 64 NUL,
     add_tap_to_ovs_br = None, burst_num = 0, snd_interval = 1000000, frequency = 1,
     gat_pkts = [], commands = [], screen_out = []\<rparr>"

definition tap_print :: "string \<Rightarrow> tap_writer \<Rightarrow> tap_writer" where
  "tap_print msg w = w\<lparr>screen_out := screen_out w @ msg\<rparr>"

text \<open>The string in a buffer that must end inside it; a text printed into a buffer of \<open>n\<close> cells.\<close>

definition buffer_string :: "char list \<Rightarrow> string option" where
  "buffer_string buf = (if NUL \<in> set buf then Some (cstr buf) else None)"

definition sprintf_into :: "nat \<Rightarrow> string \<Rightarrow> string option" where
  "sprintf_into n msg = (if length msg < n then Some msg else None)"

definition strncpy :: "nat \<Rightarrow> string \<Rightarrow> char list" where
  "strncpy n src = take n (src @ replicate n NUL)"

definition show_lu :: "int \<Rightarrow> string" where
  "show_lu i = show_dec (unat (word_of_int i :: u64))"

section \<open>The command line\<close>

definition ENABLE_MAX_SPEED :: nat where "ENABLE_MAX_SPEED = 1000"
definition INPUT_FILE :: nat where "INPUT_FILE = 1001"
definition BURST_NUM :: nat where "BURST_NUM = 1002"
definition INTERVAL :: nat where "INTERVAL = 1003"
definition FREQUENCY :: nat where "FREQUENCY = 1004"
definition TAP_NAME :: nat where "TAP_NAME = 1005"
definition ADD_TAP_TO_OVS_BR :: nat where "ADD_TAP_TO_OVS_BR = 1006"

lemmas tap_option_ids = ENABLE_MAX_SPEED_def INPUT_FILE_def BURST_NUM_def INTERVAL_def
  FREQUENCY_def TAP_NAME_def ADD_TAP_TO_OVS_BR_def

definition my_options :: "long_option list" where
  "my_options =
    [\<lparr>opt_name = ''input-file'', opt_has_arg = required_argument, opt_val = INPUT_FILE\<rparr>,
     \<lparr>opt_name = ''enable-max-speed'', opt_has_arg = no_argument, opt_val = ENABLE_MAX_SPEED\<rparr>,
     \<lparr>opt_name = ''burst-num'', opt_has_arg = required_argument, opt_val = BURST_NUM\<rparr>,
     \<lparr>opt_name = ''interval'', opt_has_arg = required_argument, opt_val = INTERVAL\<rparr>,
     \<lparr>opt_name = ''frequency'', opt_has_arg = required_argument, opt_val = FREQUENCY\<rparr>,
     \<lparr>opt_name = ''tap-name'', opt_has_arg = required_argument, opt_val = TAP_NAME\<rparr>,
     \<lparr>opt_name = ''add-tap-to-ovs-br'', opt_has_arg = required_argument, opt_val = ADD_TAP_TO_OVS_BR\<rparr>]"

definition opt_remark :: "(string \<times> string) list" where
  "opt_remark =
    [(''(-f or -F for short)'', ''specify tcpdump file''),
     (''(-m or -M for short)'', ''send packet with max speed''),
     ('''', ''how many times to send each packet. If not specified, always sending until press CTRL+C''),
     (''(-i or -I for short)'', ''how long to delay (in us) between two sending''),
     ('''', ''how many times to send each packet in one second''),
     ('''', ''name of the new created tap interface. if not provided, use tapx. x is a dynamic number''),
     ('''', ''if provided, new created tap interface will be added to the given ovs bridge'')]"

definition print_usage :: string where
  "print_usage =
     ''tap_writer(v1.0.2) '' @ [LF] @ ''Usage example:'' @ [LF] @
     ''  ./tap_writer --input-file=my.pcap --enable-max-speed --frequency=3 --burst-num=5'' @ [LF] @
     [LF, LF] @ ''options:'' @ [LF] @
     concat (map (\<lambda>(p, r1, r2).
       ''--'' @ opt_name p @ '' '' @ r1 @ '' :  '' @
       (if opt_has_arg p = no_argument then ''no argument'' else '''') @ [LF] @
       ''      '' @ r2 @ [LF, LF]) (zip my_options opt_remark))"

definition LINE_HDR :: string where "LINE_HDR = replicate 8 (CHR '' '')"

definition report_working_paras :: "tap_writer \<Rightarrow> string option" where
  "report_working_paras w = do {
     name \<leftarrow> buffer_string (tap_name w);
     Some ([LF] @ ''[working paras]'' @ [LF] @
       (if enable_max_speed w then LINE_HDR @ ''SPEED: MAX_SPEED'' @ [LF]
        else LINE_HDR @ ''SPEED: interval='' @ show_lu (snd_interval w sdiv 1000000) @ ''s '' @
          show_lu (snd_interval w smod 1000000) @ ''us <==> (frequency='' @ show_lu (frequency w) @ '')'' @ [LF]) @
       (if burst_num w > 0 then LINE_HDR @ ''MODE: burst '' @ show_int (burst_num w) @ '' times'' @ [LF]
        else LINE_HDR @ ''MODE: continue'' @ [LF]) @
       (if name \<noteq> [] then LINE_HDR @ ''tap interface name: '' @ name @ [LF]
        else LINE_HDR @ ''tap interface name: not provided, use tapx instead, x is a dynamic number'' @ [LF]) @
       (case add_tap_to_ovs_br w of
          Some br \<Rightarrow> LINE_HDR @ ''add tap to ovs bridge: yes (bridge name '' @ br @ '')'' @ [LF]
        | None \<Rightarrow> LINE_HDR @ ''add tap to ovs bridge: no'' @ [LF]))
   }"

definition check_args :: "tap_writer \<Rightarrow> (int \<times> tap_writer) option" where
  "check_args w =
     (if input_file w = None
      then Some (-1, tap_print print_usage (tap_print (''you must provide a input pcap file'' @ [LF]) w))
      else if \<not> enable_max_speed w \<and> (snd_interval w \<le> 0 \<or> frequency w \<le> 0)
      then Some (-1, tap_print print_usage (tap_print (''interval or pps must larger than 0'' @ [LF]) w))
      else map_option (\<lambda>msg. (0, tap_print msg w)) (report_working_paras w))"

text \<open>The body of the loop over the options. A missing argument cannot happen: \<open>getopt_long\<close>
  returns \<open>?\<close> then.\<close>

definition parse_opt :: "opt_event \<Rightarrow> tap_writer \<Rightarrow> tap_writer option" where
  "parse_opt ev w = (case ev of (opt, optarg) \<Rightarrow>
     if opt = opt_char (CHR ''f'') \<or> opt = opt_char (CHR ''F'') \<or> opt = INPUT_FILE
       then Some (w\<lparr>input_file := optarg\<rparr>)
     else if opt = opt_char (CHR ''i'') \<or> opt = opt_char (CHR ''I'') \<or> opt = INTERVAL
       then (let v = strtol (the optarg) 0 in
         if v = 0 then None else Some (w\<lparr>snd_interval := v, frequency := 1000000 sdiv v\<rparr>))
     else if opt = BURST_NUM then Some (w\<lparr>burst_num := long_to_int (strtol (the optarg) 0)\<rparr>)
     else if opt = FREQUENCY
       then (let v = strtol (the optarg) 0 in
         if v = 0 then None else Some (w\<lparr>frequency := v, snd_interval := 1000000 sdiv v\<rparr>))
     else if opt = opt_char (CHR ''m'') \<or> opt = opt_char (CHR ''M'') \<or> opt = ENABLE_MAX_SPEED
       then Some (w\<lparr>enable_max_speed := True\<rparr>)
     else if opt = TAP_NAME then Some (w\<lparr>tap_name := strncpy 64 (the optarg)\<rparr>)
     else if opt = ADD_TAP_TO_OVS_BR then Some (w\<lparr>add_tap_to_ovs_br := optarg\<rparr>)
     else Some (tap_print print_usage w))"

fun parse_opts :: "opt_event list \<Rightarrow> tap_writer \<Rightarrow> tap_writer option" where
  "parse_opts [] w = Some w"
| "parse_opts (ev # evs) w = Option.bind (parse_opt ev w) (parse_opts evs)"

definition parse_and_check_args :: "string list \<Rightarrow> tap_writer \<Rightarrow> (int \<times> tap_writer) option" where
  "parse_and_check_args argv w =
     Option.bind (parse_opts (getopt_long ''mMi:I:f:F:'' my_options argv) w) check_args"

section \<open>The tap interface\<close>

definition run_system :: "string \<Rightarrow> tap_writer \<Rightarrow> tap_writer" where
  "run_system cmd w = w\<lparr>commands := commands w @ [cmd]\<rparr>"

definition start_up_tap_if :: "string \<Rightarrow> tap_writer \<Rightarrow> tap_writer option" where
  "start_up_tap_if tap w = do {
     cmd \<leftarrow> sprintf_into 128 (''ifconfig '' @ tap @ '' up'');
     Some (run_system cmd w)
   }"

definition add_tap_if_to_ovs_br :: "string \<Rightarrow> string \<Rightarrow> tap_writer \<Rightarrow> tap_writer option" where
  "add_tap_if_to_ovs_br br tap w = do {
     cmd1 \<leftarrow> sprintf_into 128 (''ovs-vsctl  del-port '' @ br @ '' '' @ tap);
     cmd2 \<leftarrow> sprintf_into 128 (''ovs-vsctl  add-port '' @ br @ '' '' @ tap);
     Some (run_system cmd2 (run_system cmd1 w))
   }"

definition report_tap_info :: "string \<Rightarrow> tap_writer \<Rightarrow> string" where
  "report_tap_info name w = [LF] @ ''[actual tap info]'' @ [LF] @ LINE_HDR @ ''name: '' @ name @ [LF] @
     (case add_tap_to_ovs_br w of
        Some br \<Rightarrow> LINE_HDR @ ''added to ovs bridge: yes (bridge name '' @ br @ '')'' @ [LF]
      | None \<Rightarrow> LINE_HDR @ ''added to ovs bridge: no'' @ [LF])"

text \<open>\<open>open\<close> of the tun device succeeds or not; \<open>TUNSETIFF\<close> fails or tells the name of the
  interface. An interface name has 16 cells.\<close>

definition prepare_tap_if ::
    "bool \<Rightarrow> (string \<Rightarrow> string option) \<Rightarrow> tap_writer \<Rightarrow> (bool \<times> tap_writer) option" where
  "prepare_tap_if open_ok tunsetiff w =
     (if \<not> open_ok then Some (False, w)
      else do {
        given \<leftarrow> buffer_string (tap_name w);
        let name = (if given = [] then ''tapsmb%d'' else given);
        ifr_name \<leftarrow> sprintf_into 16 name;
        let w1 = w\<lparr>tap_name := strncpy 64 name\<rparr>;
        (case tunsetiff ifr_name of
           None \<Rightarrow> Some (False, w1)
         | Some actual \<Rightarrow> do {
             let w2 = w1\<lparr>tap_name := strncpy 64 actual\<rparr>;
             w3 \<leftarrow> start_up_tap_if actual w2;
             w4 \<leftarrow> (case add_tap_to_ovs_br w of None \<Rightarrow> Some w3 | Some br \<Rightarrow> add_tap_if_to_ovs_br br actual w3);
             Some (True, tap_print (report_tap_info actual w4) w4)
           })
      })"

section \<open>Loading the dump\<close>

definition report_pkt_load_info :: "bool \<Rightarrow> tap_writer \<Rightarrow> string" where
  "report_pkt_load_info not_loaded_all w = [LF] @ ''[packet load info]'' @ [LF] @
     LINE_HDR @ show_dec (length (gat_pkts w)) @ '' packets loaded'' @ [LF] @
     (if not_loaded_all then LINE_HDR @ ''dump file has many packets, but we only load first '' @
        show_dec MAX_PACKET_NUM @ '' packets'' @ [LF] else [])"

text \<open>\<open>pcap_next_ex\<close> returns 1 with the bytes of a record, -2 behind the last one, -1 for a
  damaged one (\<open>end_code\<close>); the loop keeps the result in an unsigned variable. The second result
  tells that a record was too long.\<close>

fun load_loop :: "u32 \<Rightarrow> u8 list list \<Rightarrow> tap_writer \<Rightarrow> u32 \<times> bool \<times> tap_writer" where
  "load_loop end_code [] w = (end_code, False, w)"
| "load_loop end_code (pkt # pkts) w =
     (if \<not> length (gat_pkts w) < MAX_PACKET_NUM then (1, False, w)
      else if MAX_ETH_PKT_LEN \<le> length pkt
      then (1, True, tap_print (''packet '' @ show_dec (length (gat_pkts w) + 1) @
              '' length abnormal '' @ show_dec (length pkt) @ [LF]) w)
      else load_loop end_code pkts
             (w\<lparr>gat_pkts := gat_pkts w @ [\<lparr>pkt_len = of_nat (length pkt), pkt_data = pkt\<rparr>]\<rparr>))"

text \<open>\<open>None\<close> as the dump: the file cannot be opened, for the reason \<open>errbuf\<close>.\<close>

definition load_from_dump_file ::
    "string \<Rightarrow> string + (u8 list list \<times> u32) \<Rightarrow> tap_writer \<Rightarrow> int \<times> tap_writer" where
  "load_from_dump_file file_path dump w =
     (case dump of
        Inl errbuf \<Rightarrow>
          (-1, tap_print (''Error: open file '' @ file_path @ '' failed,  '' @ errbuf @ [LF]) w)
      | Inr (pkts, end_code) \<Rightarrow>
          (case load_loop end_code pkts w of
             (got_pkt, True, w1) \<Rightarrow> (0, w1)
           | (got_pkt, False, w1) \<Rightarrow>
               (0, tap_print (report_pkt_load_info
                     (got_pkt \<noteq> 0 \<and> length (gat_pkts w1) = MAX_PACKET_NUM) w1) w1)))"

section \<open>Sending\<close>

record timeval =
  tv_sec :: int
  tv_usec :: int

definition time_a_smaller_than_b :: "timeval \<Rightarrow> timeval \<Rightarrow> bool" where
  "time_a_smaller_than_b a b \<longleftrightarrow>
     (if tv_sec a < tv_sec b then True
      else if tv_sec a > tv_sec b then False
      else tv_usec a < tv_usec b)"

definition time_a_between_b2 :: "timeval \<Rightarrow> timeval \<Rightarrow> timeval" where
  "time_a_between_b2 a b =
     (let b' = (if tv_usec b < tv_usec a then b\<lparr>tv_usec := tv_usec b + 1000000, tv_sec := tv_sec b - 1\<rparr> else b)
      in \<lparr>tv_sec = tv_sec b' - tv_sec a, tv_usec = tv_usec b' - tv_usec a\<rparr>)"

record t_pkt_stat =
  send_total :: u64
  send_fail :: u64
  rcv_total :: u64
  send_total_bytes :: u64
  send_fail_bytes :: u64
  rcv_total_bytes :: u64

text \<open>\<open>bursts\<close> collects what was offered to \<open>write\<close>, one element per round, with \<open>cur_tv\<close>;
  \<open>write_rets\<close> are the results the kernel has still to give.\<close>

record sender =
  gt_pkt_stat :: t_pkt_stat
  send_times_cnt :: u64
  first_snd_tv :: timeval
  last_snd_tv :: timeval
  write_rets :: "int list"
  bursts :: "(timeval \<times> u8 list list) list"

definition count_sent :: "t_ether_packet \<Rightarrow> int \<Rightarrow> t_pkt_stat \<Rightarrow> t_pkt_stat" where
  "count_sent pkt ret st =
     (if ret \<noteq> int (unat (pkt_len pkt))
      then st\<lparr>send_fail := send_fail st + 1, send_fail_bytes := send_fail_bytes st + ucast (pkt_len pkt)\<rparr>
      else st\<lparr>send_total := send_total st + 1, send_total_bytes := send_total_bytes st + ucast (pkt_len pkt)\<rparr>)"

fun write_packets :: "t_ether_packet list \<Rightarrow> sender \<Rightarrow> sender option" where
  "write_packets [] s = Some s"
| "write_packets (pkt # pkts) s =
     (case write_rets s of
        [] \<Rightarrow> None
      | ret # rets \<Rightarrow>
          write_packets pkts (s\<lparr>gt_pkt_stat := count_sent pkt ret (gt_pkt_stat s), write_rets := rets\<rparr>))"

text \<open>From the label \<open>SND_PKT\<close> to the test of \<open>burst_num\<close>, which is the second result.\<close>

definition snd_pkt_round :: "tap_writer \<Rightarrow> timeval \<Rightarrow> sender \<Rightarrow> (sender \<times> bool) option" where
  "snd_pkt_round w cur_tv s = do {
     let s1 = s\<lparr>first_snd_tv := (if tv_sec (first_snd_tv s) = 0 then cur_tv else first_snd_tv s),
                last_snd_tv := cur_tv,
                bursts := bursts s @ [(cur_tv, map pkt_data (gat_pkts w))]\<rparr>;
     s2 \<leftarrow> write_packets (gat_pkts w) s1;
     let s3 = s2\<lparr>send_times_cnt := send_times_cnt s2 + 1\<rparr>;
     Some (s3, burst_num w > 0 \<and> word_of_int (burst_num w) \<le> send_times_cnt s3)
   }"

definition next_due :: "int \<Rightarrow> timeval \<Rightarrow> timeval" where
  "next_due interval tv =
     (let usec = tv_usec tv + interval
      in \<lparr>tv_sec = tv_sec tv + usec sdiv 1000000, tv_usec = usec smod 1000000\<rparr>)"

text \<open>The inner loop: the reading that ends it, and what is left of the two inputs.\<close>

fun wait_due :: "timeval \<Rightarrow> timeval list \<Rightarrow> bool list \<Rightarrow> (timeval \<times> timeval list \<times> bool list) option" where
  "wait_due next_snd_tv (cur_tv # clock) (need_stop # stops) =
     (if \<not> need_stop \<and> time_a_smaller_than_b cur_tv next_snd_tv
      then wait_due next_snd_tv clock stops else Some (cur_tv, clock, stops))"
| "wait_due next_snd_tv _ _ = None"

lemma wait_due_shorter: "wait_due nxt clock stops = Some (c, clock', stops') \<Longrightarrow> length clock' < length clock"
  by (induction nxt clock stops rule: wait_due.induct) (auto split: if_splits)

text \<open>The reading with which a round starts, unless the wait was stopped.\<close>

definition round_start ::
    "tap_writer \<Rightarrow> timeval \<Rightarrow> timeval list \<Rightarrow> bool list \<Rightarrow> (bool \<times> timeval \<times> timeval list \<times> bool list) option" where
  "round_start w next_snd_tv clock stops =
     (if enable_max_speed w
      then (case clock of [] \<Rightarrow> None | cur_tv # clock' \<Rightarrow> Some (False, cur_tv, clock', stops))
      else (case wait_due next_snd_tv clock stops of
              Some (cur_tv, clock', need_stop # stops') \<Rightarrow> Some (need_stop, cur_tv, clock', stops')
            | _ \<Rightarrow> None))"

lemma round_start_shorter:
  "round_start w nxt clock stops = Some (b, c, clock', stops') \<Longrightarrow> length clock' < length clock"
  by (auto simp: round_start_def split: if_splits list.splits option.splits dest: wait_due_shorter)

function send_loop ::
    "tap_writer \<Rightarrow> timeval \<Rightarrow> timeval list \<Rightarrow> bool list \<Rightarrow> sender \<Rightarrow> sender option" where
  "send_loop w next_snd_tv clock stops s =
     (case stops of
        [] \<Rightarrow> None
      | need_stop # stops1 \<Rightarrow>
          if need_stop then Some s
          else (case round_start w next_snd_tv clock stops1 of
             None \<Rightarrow> None
           | Some (stopped, cur_tv, clock', stops') \<Rightarrow>
               if stopped then Some s
               else (case snd_pkt_round w cur_tv s of
                  None \<Rightarrow> None
                | Some (s', done) \<Rightarrow>
                    if done then Some s'
                    else send_loop w
                      (if enable_max_speed w then next_snd_tv else next_due (snd_interval w) next_snd_tv)
                      clock' stops' s')))"
  by pat_completeness auto
termination
  by (relation "measure (\<lambda>(_, _, clock, _, _). length clock)") (auto dest: round_start_shorter)

declare send_loop.simps [simp del]

text \<open>\<open>None\<close>: the elapsed time is zero, and the rate divides by it.\<close>

definition report_snd_summary :: "sender \<Rightarrow> string option" where
  "report_snd_summary s =
     (let tmp = time_a_between_b2 (first_snd_tv s) (last_snd_tv s);
          usecs = word_of_int (tv_sec tmp * 1000000 + tv_usec tmp) :: u64;
          st = gt_pkt_stat s
      in if usecs = 0 then None
         else Some ([LF] @ ''[packet send summary]'' @ [LF] @
           LINE_HDR @ ''time: '' @ show_lu (tv_sec tmp) @ '' sec '' @ show_lu (tv_usec tmp) @ '' us'' @ [LF] @
           LINE_HDR @ ''succ traffic : '' @ show_dec (unat (send_total st)) @ '' packets '' @
             show_dec (unat (send_total_bytes st)) @ '' bytes'' @ [LF] @
           LINE_HDR @ ''succ performence : pps '' @ show_dec (unat (send_total st * 1000000 div usecs)) @
             ''; bps '' @ show_dec (unat (send_total_bytes st * 1000000 div usecs)) @ [LF, LF] @
           (if send_fail st \<noteq> 0 then LINE_HDR @ ''fail traffic : '' @ show_dec (unat (send_fail st)) @
              '' packets '' @ show_dec (unat (send_fail_bytes st)) @ '' bytes'' @ [LF] else [])))"

definition sender_init :: "int list \<Rightarrow> sender" where
  "sender_init rets = \<lparr>gt_pkt_stat = \<lparr>send_total = 0, send_fail = 0, rcv_total = 0, send_total_bytes = 0,
       send_fail_bytes = 0, rcv_total_bytes = 0\<rparr>, send_times_cnt = 0,
     first_snd_tv = \<lparr>tv_sec = 0, tv_usec = 0\<rparr>, last_snd_tv = \<lparr>tv_sec = 0, tv_usec = 0\<rparr>,
     write_rets = rets, bursts = []\<rparr>"

text \<open>The sending thread, from the first clock reading: the state when its loop has ended, and the
  summary, if that is printed at all.\<close>

definition send_pkt ::
    "tap_writer \<Rightarrow> timeval list \<Rightarrow> bool list \<Rightarrow> int list \<Rightarrow> (sender \<times> string option) option" where
  "send_pkt w clock stops rets =
     (case clock of
        [] \<Rightarrow> None
      | start # clock' \<Rightarrow>
          map_option (\<lambda>s. (s, report_snd_summary s)) (send_loop w start clock' stops (sender_init rets)))"

text \<open>\<open>main\<close> until the thread has ended: the commands run and what was printed besides the
  progress line.\<close>

definition tap_main ::
    "string list \<Rightarrow> bool \<Rightarrow> (string \<Rightarrow> string option) \<Rightarrow> string + (u8 list list \<times> u32) \<Rightarrow>
      timeval list \<Rightarrow> bool list \<Rightarrow> int list \<Rightarrow> (tap_writer \<times> sender option) option" where
  "tap_main argv open_ok tunsetiff dump clock stops rets = do {
     (ret, w1) \<leftarrow> parse_and_check_args argv tap_init;
     if ret \<noteq> 0 then Some (w1, None)
     else do {
       (tap_ok, w2) \<leftarrow> prepare_tap_if open_ok tunsetiff w1;
       if \<not> tap_ok then Some (w2, None)
       else (case load_from_dump_file (the (input_file w2)) dump w2 of (loaded, w3) \<Rightarrow>
         if loaded < 0 then Some (w3, None)
         else do {
           (s, summary) \<leftarrow> send_pkt w3 clock stops rets;
           msg \<leftarrow> summary;
           Some (tap_print msg w3, Some s)
         })
     }
   }"

section \<open>Time in microseconds\<close>

definition tv_us :: "timeval \<Rightarrow> int" where
  "tv_us tv = tv_sec tv * 1000000 + tv_usec tv"

definition tv_ok :: "timeval \<Rightarrow> bool" where
  "tv_ok tv \<longleftrightarrow> 0 \<le> tv_usec tv \<and> tv_usec tv < 1000000"

lemma smaller_us: "tv_ok a \<Longrightarrow> tv_ok b \<Longrightarrow> time_a_smaller_than_b a b \<longleftrightarrow> tv_us a < tv_us b"
  by (auto simp: time_a_smaller_than_b_def tv_ok_def tv_us_def)

lemma between_us:
  "tv_ok a \<Longrightarrow> tv_ok b \<Longrightarrow>
     tv_us (time_a_between_b2 a b) = tv_us b - tv_us a \<and> tv_ok (time_a_between_b2 a b)"
  by (auto simp: time_a_between_b2_def tv_ok_def tv_us_def Let_def)

lemma next_due_us:
  assumes "tv_ok tv" "0 \<le> interval"
  shows "tv_ok (next_due interval tv)" and "tv_us (next_due interval tv) = tv_us tv + interval"
proof -
  let ?u = "tv_usec tv + interval"
  have u: "0 \<le> ?u" using assms by (simp add: tv_ok_def)
  then have "?u sdiv 1000000 = ?u div 1000000" "?u smod 1000000 = ?u mod 1000000"
    by (simp_all add: signed_divide_int_def signed_modulo_int_def minus_mult_div_eq_mod mult.commute sgn_if)
  then show "tv_ok (next_due interval tv)" "tv_us (next_due interval tv) = tv_us tv + interval"
    by (simp_all add: next_due_def tv_ok_def tv_us_def Let_def)
qed

text \<open>The readings a sender paced by \<open>iv\<close> picks: the first that is due, and from there on.\<close>

fun paced :: "int \<Rightarrow> int \<Rightarrow> timeval list \<Rightarrow> timeval list" where
  "paced due iv [] = []"
| "paced due iv (c # cs) = (if tv_us c < due then paced due iv cs else c # paced (due + iv) iv cs)"

lemma paced_not_early: "i < length (paced due iv cs) \<Longrightarrow> due + int i * iv \<le> tv_us (paced due iv cs ! i)"
proof (induction due iv cs arbitrary: i rule: paced.induct)
  case (2 due iv c cs)
  show ?case
  proof (cases "tv_us c < due")
    case True
    with 2 show ?thesis by simp
  next
    case False
    with 2 show ?thesis by (cases i) (auto simp: algebra_simps)
  qed
qed simp

lemma paced_subset: "set (paced due iv cs) \<subseteq> set cs"
  by (induction due iv cs rule: paced.induct) auto

lemma length_paced: "length (paced due iv cs) \<le> length cs"
  by (induction due iv cs rule: paced.induct) auto

section \<open>Rounds\<close>

definition attempts :: "t_pkt_stat \<Rightarrow> u64" where
  "attempts st = send_total st + send_fail st"

definition attempted_bytes :: "t_pkt_stat \<Rightarrow> u64" where
  "attempted_bytes st = send_total_bytes st + send_fail_bytes st"

definition load_bytes :: "t_ether_packet list \<Rightarrow> u64" where
  "load_bytes pkts = (\<Sum>p \<leftarrow> pkts. ucast (pkt_len p))"

lemma write_packets_facts:
  "write_packets pkts s = Some s' \<Longrightarrow>
     bursts s' = bursts s \<and> send_times_cnt s' = send_times_cnt s \<and>
     first_snd_tv s' = first_snd_tv s \<and> last_snd_tv s' = last_snd_tv s \<and>
     length (write_rets s) = length (write_rets s') + length pkts \<and>
     attempts (gt_pkt_stat s') = attempts (gt_pkt_stat s) + of_nat (length pkts) \<and>
     attempted_bytes (gt_pkt_stat s') = attempted_bytes (gt_pkt_stat s) + load_bytes pkts"
proof (induction pkts s rule: write_packets.induct)
  case (2 pkt pkts s)
  have "attempts (count_sent pkt r st) = attempts st + 1"
    "attempted_bytes (count_sent pkt r st) = attempted_bytes st + ucast (pkt_len pkt)" for r st
    by (simp_all add: count_sent_def attempts_def attempted_bytes_def)
  with 2 show ?case by (auto simp: load_bytes_def split: list.splits)
qed (simp add: load_bytes_def)

lemma write_packets_total: "length pkts \<le> length (write_rets s) \<Longrightarrow> \<exists>s'. write_packets pkts s = Some s'"
  by (induction pkts s rule: write_packets.induct) (auto split: list.splits)

text \<open>The state between two rounds of a sender that started with \<open>sender_init\<close>.\<close>

definition sender_ok :: "tap_writer \<Rightarrow> sender \<Rightarrow> bool" where
  "sender_ok w s \<longleftrightarrow>
     send_times_cnt s = of_nat (length (bursts s)) \<and>
     attempts (gt_pkt_stat s) = of_nat (length (bursts s) * length (gat_pkts w)) \<and>
     attempted_bytes (gt_pkt_stat s) = of_nat (length (bursts s)) * load_bytes (gat_pkts w) \<and>
     (bursts s = [] \<longrightarrow> first_snd_tv s = \<lparr>tv_sec = 0, tv_usec = 0\<rparr> \<and> last_snd_tv s = \<lparr>tv_sec = 0, tv_usec = 0\<rparr>) \<and>
     (length (bursts s) = 1 \<longrightarrow> first_snd_tv s = last_snd_tv s)"

lemma sender_ok_init: "sender_ok w (sender_init rets)" "bursts (sender_init rets) = []"
  by (simp_all add: sender_ok_def sender_init_def attempts_def attempted_bytes_def)

lemma snd_pkt_round_facts:
  assumes "snd_pkt_round w c s = Some (s', done)" "sender_ok w s"
  shows "sender_ok w s'"
    and "bursts s' = bursts s @ [(c, map pkt_data (gat_pkts w))]"
    and "length (write_rets s) = length (write_rets s') + length (gat_pkts w)"
    and "done \<longleftrightarrow> 0 < burst_num w \<and> word_of_int (burst_num w) \<le> (of_nat (length (bursts s')) :: u64)"
proof -
  let ?s1 = "s\<lparr>first_snd_tv := (if tv_sec (first_snd_tv s) = 0 then c else first_snd_tv s),
    last_snd_tv := c, bursts := bursts s @ [(c, map pkt_data (gat_pkts w))]\<rparr>"
  obtain s2 where w: "write_packets (gat_pkts w) ?s1 = Some s2" and
    s': "s' = s2\<lparr>send_times_cnt := send_times_cnt s2 + 1\<rparr>" and
    d: "done \<longleftrightarrow> 0 < burst_num w \<and> word_of_int (burst_num w) \<le> send_times_cnt s'"
    using assms(1) by (auto simp: snd_pkt_round_def Option.bind_eq_Some_conv Let_def)
  note f = write_packets_facts[OF w]
  show ok: "sender_ok w s'" using f assms(2) s'
    by (auto simp: sender_ok_def algebra_simps)
  show "bursts s' = bursts s @ [(c, map pkt_data (gat_pkts w))]" using f s' by simp
  show "length (write_rets s) = length (write_rets s') + length (gat_pkts w)" using f s' by simp
  show "done \<longleftrightarrow> 0 < burst_num w \<and> word_of_int (burst_num w) \<le> (of_nat (length (bursts s')) :: u64)"
    using d ok by (simp add: sender_ok_def)
qed

text \<open>The ways in which one iteration can go.\<close>

lemma send_loopE:
  assumes "send_loop w nxt clock stops s = Some s'"
  obtains (stop) "hd stops" "s' = s"
  | (wait_stopped) stops1 c clock' stops' where "stops = False # stops1"
      "round_start w nxt clock stops1 = Some (True, c, clock', stops')" "s' = s"
  | (finished) stops1 c clock' stops' where "stops = False # stops1"
      "round_start w nxt clock stops1 = Some (False, c, clock', stops')" "snd_pkt_round w c s = Some (s', True)"
  | (again) stops1 c clock' stops' s1 where "stops = False # stops1"
      "round_start w nxt clock stops1 = Some (False, c, clock', stops')" "snd_pkt_round w c s = Some (s1, False)"
      "send_loop w (if enable_max_speed w then nxt else next_due (snd_interval w) nxt) clock' stops' s1 = Some s'"
proof -
  note unfolded = assms[unfolded send_loop.simps[of w nxt clock stops s]]
  show thesis
  proof (cases stops)
    case Nil
    with unfolded show thesis by simp
  next
    case stops: (Cons b stops1)
    show thesis
    proof (cases "b \<or> round_start w nxt clock stops1 = None")
      case True
      with unfolded stops stop show thesis by (auto split: if_splits)
    next
      case False
      then obtain sd c clock' stops' where r: "round_start w nxt clock stops1 = Some (sd, c, clock', stops')" "\<not> b"
        by auto
      show thesis
      proof (cases "sd \<or> snd_pkt_round w c s = None")
        case True
        with unfolded stops r wait_stopped[of stops1 c clock' stops'] show thesis
          by (auto split: if_splits)
      next
        case False
        then obtain s1 d where "snd_pkt_round w c s = Some (s1, d)" "\<not> sd" by auto
        with unfolded stops r finished[of stops1 c clock' stops'] again[of stops1 c clock' stops' s1] show thesis
          by (cases d) simp_all
      qed
    qed
  qed
qed

text \<open>What holds of a sender after any number of rounds.\<close>

lemma send_loop_ok:
  "send_loop w nxt clock stops s = Some s' \<Longrightarrow> sender_ok w s \<Longrightarrow> sender_ok w s'"
proof (induction "length clock" arbitrary: nxt clock stops s rule: less_induct)
  case less
  from less.prems(1) show ?case
  proof (cases rule: send_loopE)
    case (again stops1 c clock' stops' s1)
    with less.hyps[OF round_start_shorter[OF again(2)] again(4)] less.prems(2) show ?thesis
      by (blast intro: snd_pkt_round_facts(1))
  qed (use less.prems(2) in \<open>auto intro: snd_pkt_round_facts(1)\<close>)
qed

text \<open>The times the summary is computed from are those of the first and the last burst, as long as no clock
  reading has zero seconds, the mark of a time not set yet.\<close>

definition timed :: "sender \<Rightarrow> bool" where
  "timed s \<longleftrightarrow> (\<forall>x \<in> set (bursts s). 0 < tv_sec (fst x)) \<and>
     (if bursts s = [] then tv_sec (first_snd_tv s) = 0
      else first_snd_tv s = fst (hd (bursts s)) \<and> last_snd_tv s = fst (last (bursts s)))"

lemma round_timed:
  assumes "snd_pkt_round w c s = Some (s', done)" "timed s" "0 < tv_sec c"
  shows "timed s'"
proof -
  let ?s1 = "s\<lparr>first_snd_tv := (if tv_sec (first_snd_tv s) = 0 then c else first_snd_tv s),
    last_snd_tv := c, bursts := bursts s @ [(c, map pkt_data (gat_pkts w))]\<rparr>"
  obtain s2 where w: "write_packets (gat_pkts w) ?s1 = Some s2" and s': "s' = s2\<lparr>send_times_cnt := send_times_cnt s2 + 1\<rparr>"
    using assms(1) by (auto simp: snd_pkt_round_def Option.bind_eq_Some_conv Let_def)
  have "timed ?s1" using assms(2,3) by (cases "bursts s") (auto simp: timed_def)
  with write_packets_facts[OF w] s' show ?thesis by (auto simp: timed_def)
qed

lemma wait_due_mem:
  "wait_due nxt clock stops = Some (c, clock', stops') \<Longrightarrow> c \<in> set clock \<and> set clock' \<subseteq> set clock"
  by (induction nxt clock stops rule: wait_due.induct) (auto split: if_splits)

lemma round_start_mem:
  "round_start w nxt clock stops = Some (b, c, clock', stops') \<Longrightarrow> c \<in> set clock \<and> set clock' \<subseteq> set clock"
  by (auto simp: round_start_def split: if_splits list.splits option.splits
      dest: wait_due_mem[THEN conjunct1] wait_due_mem[THEN conjunct2, THEN subsetD])

lemma send_loop_timed:
  "send_loop w nxt clock stops s = Some s' \<Longrightarrow> timed s \<Longrightarrow> \<forall>c \<in> set clock. 0 < tv_sec c \<Longrightarrow> timed s'"
proof (induction "length clock" arbitrary: nxt clock stops s rule: less_induct)
  case less
  from less.prems(1) show ?case
  proof (cases rule: send_loopE)
    case (finished stops1 c clock' stops')
    with round_timed[OF finished(3) less.prems(2)] round_start_mem[OF finished(2)] less.prems(3) show ?thesis by blast
  next
    case (again stops1 c clock' stops' s1)
    have "timed s1" "\<forall>c \<in> set clock'. 0 < tv_sec c"
      using round_timed[OF again(3) less.prems(2)] round_start_mem[OF again(2)] less.prems(3) by blast+
    with less.hyps[OF round_start_shorter[OF again(2)] again(4)] show ?thesis by blast
  qed (use less.prems(2) in simp_all)
qed

lemma if_None_eq_None: "(if b then None else Some x) = None \<longleftrightarrow> b"
  by simp

lemma summary_None:
  assumes "tv_ok (first_snd_tv s)" "tv_ok (last_snd_tv s)"
    "\<bar>tv_us (last_snd_tv s) - tv_us (first_snd_tv s)\<bar> < 2 ^ 63"
  shows "report_snd_summary s = None \<longleftrightarrow> tv_us (first_snd_tv s) = tv_us (last_snd_tv s)"
proof -
  define d where "d = tv_us (last_snd_tv s) - tv_us (first_snd_tv s)"
  have "(word_of_int d :: u64) = 0 \<longleftrightarrow> 2 ^ 64 dvd d" by (simp add: word_of_int_eq_0_iff)
  moreover have "d = 0" if "(2 ^ 64 :: int) dvd d"
  proof (rule ccontr)
    assume "d \<noteq> 0"
    with that have "(2 ^ 64 :: int) \<le> \<bar>d\<bar>" by (metis dvd_abs_iff zdvd_imp_le zero_less_abs_iff)
    with assms(3) show False by (simp add: d_def)
  qed
  ultimately have w: "(word_of_int d :: u64) = 0 \<longleftrightarrow> d = 0" by auto
  have "tv_us (time_a_between_b2 (first_snd_tv s) (last_snd_tv s)) = d"
    using between_us[OF assms(1,2)] by (simp add: d_def)
  then have "tv_sec (time_a_between_b2 (first_snd_tv s) (last_snd_tv s)) * 1000000 +
      tv_usec (time_a_between_b2 (first_snd_tv s) (last_snd_tv s)) = d" by (simp only: tv_us_def)
  then have "report_snd_summary s = None \<longleftrightarrow> (word_of_int d :: u64) = 0"
    unfolding report_snd_summary_def Let_def by (simp only: if_None_eq_None)
  with w show ?thesis by (auto simp: d_def)
qed

text \<open>The waiting loop stops at the first reading that is due.\<close>

lemma wait_due_paced:
  "wait_due nxt clock stops = Some (c, clock', False # stops') \<Longrightarrow> sorted stops \<Longrightarrow>
   tv_ok nxt \<Longrightarrow> \<forall>c \<in> set clock. tv_ok c \<Longrightarrow>
     paced (tv_us nxt) iv clock = c # paced (tv_us nxt + iv) iv clock' \<and> sorted (False # stops') \<and>
     set clock' \<subseteq> set clock"
proof (induction nxt clock stops rule: wait_due.induct)
  case (1 nxt c0 clock b stops)
  show ?case
  proof (cases "\<not> b \<and> time_a_smaller_than_b c0 nxt")
    case True
    with 1 show ?thesis by (auto simp: smaller_us)
  next
    case False
    with "1.prems"(1) have e: "c = c0" "clock' = clock" "stops = False # stops'" by auto
    with "1.prems"(2) have "\<not> b" by auto
    with False e "1.prems" show ?thesis by (auto simp: smaller_us)
  qed
qed auto

lemma send_loop_paced:
  "send_loop w nxt clock stops s = Some s' \<Longrightarrow> \<not> enable_max_speed w \<Longrightarrow> 0 \<le> snd_interval w \<Longrightarrow>
   sorted stops \<Longrightarrow> tv_ok nxt \<Longrightarrow> \<forall>c \<in> set clock. tv_ok c \<Longrightarrow> sender_ok w s \<Longrightarrow>
     \<exists>k. bursts s' = bursts s @ map (\<lambda>c. (c, map pkt_data (gat_pkts w)))
       (take k (paced (tv_us nxt) (snd_interval w) clock))"
proof (induction "length clock" arbitrary: nxt clock stops s rule: less_induct)
  case less
  from less.prems(1) show ?case
  proof (cases rule: send_loopE)
    case (finished stops1 c clock' stops')
    from finished(2) less.prems(2) have "wait_due nxt clock stops1 = Some (c, clock', False # stops')"
      by (auto simp: round_start_def split: option.splits list.splits)
    with wait_due_paced[OF this, of "snd_interval w"] less.prems finished(1)
    have "paced (tv_us nxt) (snd_interval w) clock = c # paced (tv_us nxt + snd_interval w) (snd_interval w) clock'"
      by simp
    with snd_pkt_round_facts(2)[OF finished(3)] less.prems(7) show ?thesis
      by (intro exI[of _ "Suc 0"]) simp
  next
    case (again stops1 c clock' stops' s1)
    from again(2) less.prems(2) have "wait_due nxt clock stops1 = Some (c, clock', False # stops')"
      by (auto simp: round_start_def split: option.splits list.splits)
    with wait_due_paced[OF this, of "snd_interval w"] less.prems again(1)
    have p: "paced (tv_us nxt) (snd_interval w) clock = c # paced (tv_us nxt + snd_interval w) (snd_interval w) clock'"
      and s: "sorted stops'" and "set clock' \<subseteq> set clock" by simp_all
    then have ok: "\<forall>c \<in> set clock'. tv_ok c" using less.prems(6) by blast
    note nd = next_due_us[OF less.prems(5,3)]
    from again(4) less.prems(2)
    have "send_loop w (next_due (snd_interval w) nxt) clock' stops' s1 = Some s'" by simp
    from less.hyps[OF round_start_shorter[OF again(2)] this less.prems(2,3) s nd(1) ok
        snd_pkt_round_facts(1)[OF again(3) less.prems(7)]]
    obtain k where "bursts s' = bursts s1 @ map (\<lambda>c. (c, map pkt_data (gat_pkts w)))
        (take k (paced (tv_us nxt + snd_interval w) (snd_interval w) clock'))"
      using nd(2) by auto
    with p snd_pkt_round_facts(2)[OF again(3) less.prems(7)] show ?thesis
      by (intro exI[of _ "Suc k"]) simp
  qed (auto intro: exI[of _ 0])
qed

text \<open>Enough readings, enough results of \<open>write\<close> and no stop: the bursts asked for are sent.\<close>

lemma wait_due_total:
  "\<forall>b \<in> set stops. \<not> b \<Longrightarrow> length clock < length stops \<Longrightarrow> tv_ok nxt \<Longrightarrow> \<forall>c \<in> set clock. tv_ok c \<Longrightarrow>
   paced (tv_us nxt) iv clock \<noteq> [] \<Longrightarrow>
     \<exists>c clock' stops'. wait_due nxt clock stops = Some (c, clock', False # stops') \<and>
       length clock + length stops' + 1 = length stops + length clock' \<and> set stops' \<subseteq> {False}"
proof (induction nxt clock stops rule: wait_due.induct)
  case (1 nxt c0 clock b stops)
  show ?case
  proof (cases "time_a_smaller_than_b c0 nxt")
    case True
    with 1 show ?thesis by (auto simp: smaller_us)
  next
    case False
    obtain b2 stops2 where "stops = b2 # stops2" using "1.prems"(2) by (cases stops) auto
    with False "1.prems" show ?thesis by auto
  qed
qed auto

lemma sorted_no_stop: "set stops \<subseteq> {False} \<Longrightarrow> sorted stops"
  by (induction stops) auto

lemma snd_pkt_round_total:
  assumes "length (gat_pkts w) \<le> length (write_rets s)"
  shows "\<exists>s' d. snd_pkt_round w c s = Some (s', d)"
proof -
  let ?s1 = "s\<lparr>first_snd_tv := (if tv_sec (first_snd_tv s) = 0 then c else first_snd_tv s),
    last_snd_tv := c, bursts := bursts s @ [(c, map pkt_data (gat_pkts w))]\<rparr>"
  obtain s2 where "write_packets (gat_pkts w) ?s1 = Some s2"
    using write_packets_total[of "gat_pkts w" ?s1] assms by auto
  then show ?thesis by (simp add: snd_pkt_round_def Let_def)
qed

lemma burst_reached:
  assumes "0 < burst_num w" "burst_num w < 2 ^ 31" "n < 2 ^ 64"
  shows "word_of_int (burst_num w) \<le> (of_nat n :: u64) \<longleftrightarrow> nat (burst_num w) \<le> n"
proof -
  have "unat (word_of_int (burst_num w) :: u64) = nat (burst_num w)"
    using assms by (simp add: unat_eq_nat_uint uint_word_of_int_eq take_bit_int_eq_self)
  moreover have "unat (of_nat n :: u64) = n" using assms(3) by (simp add: unat_of_nat_small)
  ultimately show ?thesis by (simp add: word_le_nat_alt)
qed

lemma send_loop_step:
  assumes "round_start w nxt clock stops1 = Some (False, c, clock', stops')" "snd_pkt_round w c s = Some (s1, d)"
  shows "send_loop w nxt clock (False # stops1) s = (if d then Some s1
    else send_loop w (if enable_max_speed w then nxt else next_due (snd_interval w) nxt) clock' stops' s1)"
  using assms by (subst send_loop.simps) simp

lemma send_loop_total:
  "\<not> enable_max_speed w \<Longrightarrow> 0 \<le> snd_interval w \<Longrightarrow> 0 < burst_num w \<Longrightarrow> burst_num w < 2 ^ 31 \<Longrightarrow>
   set stops \<subseteq> {False} \<Longrightarrow> 3 * length clock < length stops \<Longrightarrow> tv_ok nxt \<Longrightarrow> \<forall>c \<in> set clock. tv_ok c \<Longrightarrow>
   sender_ok w s \<Longrightarrow> length (bursts s) < nat (burst_num w) \<Longrightarrow>
   (nat (burst_num w) - length (bursts s)) * length (gat_pkts w) \<le> length (write_rets s) \<Longrightarrow>
   nat (burst_num w) - length (bursts s) \<le> length (paced (tv_us nxt) (snd_interval w) clock) \<Longrightarrow>
     \<exists>s'. send_loop w nxt clock stops s = Some s' \<and> length (bursts s') = nat (burst_num w)"
proof (induction "length clock" arbitrary: nxt clock stops s rule: less_induct)
  case less
  let ?B = "nat (burst_num w)" and ?n = "length (bursts s)"
  obtain stops1 where stops: "stops = False # stops1" using less.prems(5,6) by (cases stops) auto
  have ne: "paced (tv_us nxt) (snd_interval w) clock \<noteq> []" using less.prems(10,12) by auto
  then have "length clock < length stops1" using stops less.prems(6) by (cases clock) auto
  with ne obtain c clock' stops' where wd: "wait_due nxt clock stops1 = Some (c, clock', False # stops')"
    and len: "length clock + length stops' + 1 = length stops1 + length clock'" "set stops' \<subseteq> {False}"
    using wait_due_total[of stops1 clock nxt "snd_interval w"] less.prems(5,7,8) stops by auto
  have start: "round_start w nxt clock stops1 = Some (False, c, clock', stops')"
    using less.prems(1) wd by (simp add: round_start_def)
  have "sorted stops1" using less.prems(5) stops by (intro sorted_no_stop) auto
  from wait_due_paced[OF wd this less.prems(7,8), of "snd_interval w"]
  have p: "paced (tv_us nxt) (snd_interval w) clock = c # paced (tv_us nxt + snd_interval w) (snd_interval w) clock'"
    and sub: "set clock' \<subseteq> set clock" by simp_all
  have "length (gat_pkts w) \<le> (?B - ?n) * length (gat_pkts w)"
    using less.prems(10) by (cases "?B - ?n") auto
  then have "length (gat_pkts w) \<le> length (write_rets s)" using less.prems(11) by (rule order_trans)
  then obtain s1 d where round: "snd_pkt_round w c s = Some (s1, d)" using snd_pkt_round_total by blast
  note f = snd_pkt_round_facts[OF round less.prems(9)]
  have n1: "length (bursts s1) = Suc ?n" using f(2) by simp
  have d: "d \<longleftrightarrow> ?B \<le> Suc ?n"
    using f(4) n1 burst_reached[OF less.prems(3,4), of "Suc ?n"] less.prems(3,4,10) by simp
  show ?case
  proof (cases d)
    case True
    then have "send_loop w nxt clock stops s = Some s1" unfolding stops using send_loop_step[OF start round] by simp
    with True d n1 less.prems(10) show ?thesis by auto
  next
    case False
    note nd = next_due_us[OF less.prems(7,2)]
    have unf: "send_loop w nxt clock stops s = send_loop w (next_due (snd_interval w) nxt) clock' stops' s1"
      using False less.prems(1) unfolding stops by (simp add: send_loop_step[OF start round])
    have shorter: "length clock' < length clock" using start by (rule round_start_shorter)
    have rets: "(?B - length (bursts s1)) * length (gat_pkts w) \<le> length (write_rets s1)"
      using less.prems(11) f(3) n1 by (simp add: diff_mult_distrib)
    from less.hyps[OF shorter less.prems(1-4) len(2) _ nd(1) _ f(1) _ rets]
      False d n1 p nd(2) sub less.prems(8,10,12) shorter len(1) stops less.prems(6)
    show ?thesis unfolding unf by fastforce
  qed
qed

section \<open>Arguments\<close>

text \<open>Interval and frequency always belong together.\<close>

definition speed_ok :: "tap_writer \<Rightarrow> bool" where
  "speed_ok w \<longleftrightarrow> (frequency w = 1000000 sdiv snd_interval w \<and> snd_interval w \<noteq> 0) \<or>
     (snd_interval w = 1000000 sdiv frequency w \<and> frequency w \<noteq> 0)"

lemma parse_opt_speed: "parse_opt ev w = Some w' \<Longrightarrow> speed_ok w \<Longrightarrow> speed_ok w'"
  by (auto simp: parse_opt_def speed_ok_def tap_print_def Let_def split: prod.splits if_splits)

lemma parse_opts_speed: "parse_opts evs w = Some w' \<Longrightarrow> speed_ok w \<Longrightarrow> speed_ok w'"
  by (induction evs arbitrary: w) (auto simp: Option.bind_eq_Some_conv dest: parse_opt_speed)

lemma sdiv_pos: "0 < b \<Longrightarrow> 0 \<le> a \<Longrightarrow> (a :: int) sdiv b = a div b"
  by (simp add: signed_divide_int_def sgn_if)

lemma check_args_keeps:
  "check_args w = Some (r, w') \<Longrightarrow> snd_interval w' = snd_interval w \<and> frequency w' = frequency w \<and>
     enable_max_speed w' = enable_max_speed w \<and> (r = 0 \<longleftrightarrow> input_file w \<noteq> None \<and>
       (enable_max_speed w \<or> 0 < snd_interval w \<and> 0 < frequency w))"
  by (auto simp: check_args_def tap_print_def split: if_splits)

lemma my_options_ok: "options_ok my_options"
  by (simp add: options_ok_def my_options_def)

lemma strtol0_show_dec: "v < 2 ^ 63 \<Longrightarrow> strtol (show_dec v) 0 = int v"
  using strtol0_show_int[of "[]" "int v"] by (simp add: show_int_def)

lemma input_and_interval:
  assumes "v < 2 ^ 63"
  shows "parse_opts (getopt_long ''mMi:I:f:F:'' my_options [prog, ''--input-file='' @ f, ''--interval='' @ show_dec v]) w =
    (if v = 0 then None
     else Some (w\<lparr>input_file := Some f, snd_interval := int v, frequency := 1000000 sdiv int v\<rparr>))"
proof -
  let ?pas = "[(my_options ! 0, Some f), (my_options ! 3, Some (show_dec v))]"
  have "getopt_long ''mMi:I:f:F:'' my_options (prog # map (\<lambda>(p, arg). long_word p arg) ?pas) =
      map (\<lambda>(p, arg). (opt_val p, arg)) ?pas"
    by (rule getopt_long_words[OF my_options_ok]) (simp add: my_options_def arg_fits_def)
  moreover have "map (\<lambda>(p, arg). long_word p arg) ?pas = [''--input-file='' @ f, ''--interval='' @ show_dec v]"
    by (simp add: my_options_def long_word_def)
  moreover have "map (\<lambda>(p, arg). (opt_val p, arg)) ?pas = [(INPUT_FILE, Some f), (INTERVAL, Some (show_dec v))]"
    by (simp add: my_options_def)
  ultimately show ?thesis
    using assms by (simp add: parse_opt_def tap_option_ids opt_char_def strtol0_show_dec Let_def)
qed

section \<open>Loading\<close>

definition packet_of :: "u8 list \<Rightarrow> t_ether_packet" where
  "packet_of pkt = \<lparr>pkt_len = of_nat (length pkt), pkt_data = pkt\<rparr>"

lemma load_loop_fits:
  "\<forall>p \<in> set pkts. length p < MAX_ETH_PKT_LEN \<Longrightarrow> length (gat_pkts w) \<le> MAX_PACKET_NUM \<Longrightarrow>
   load_loop code pkts w =
     (if length (gat_pkts w) + length pkts \<le> MAX_PACKET_NUM then code else 1, False,
      w\<lparr>gat_pkts := gat_pkts w @ map packet_of (take (MAX_PACKET_NUM - length (gat_pkts w)) pkts)\<rparr>)"
proof (induction code pkts w rule: load_loop.induct)
  case (2 code pkt pkts w)
  then show ?case
    by (cases "length (gat_pkts w) < MAX_PACKET_NUM") (simp_all add: packet_of_def take_Cons' Suc_diff_Suc)
qed simp

lemma load_loop_long:
  "\<forall>p \<in> set pre. length p < MAX_ETH_PKT_LEN \<Longrightarrow> MAX_ETH_PKT_LEN \<le> length pkt \<Longrightarrow>
   length (gat_pkts w) + length pre < MAX_PACKET_NUM \<Longrightarrow>
   \<exists>msg. load_loop code (pre @ pkt # post) w =
     (1, True, tap_print msg (w\<lparr>gat_pkts := gat_pkts w @ map packet_of pre\<rparr>))"
proof (induction pre arbitrary: w)
  case (Cons p pre)
  then show ?case using Cons.IH[of "w\<lparr>gat_pkts := gat_pkts w @ [packet_of p]\<rparr>"]
    by (simp add: packet_of_def)
qed (auto simp: tap_print_def)

section \<open>Properties\<close>

text \<open>C24: The sender never runs ahead of its interval: as long as it is stopped only once, it sends the
  loaded packets unchanged at the clock readings an ideal sender of that interval picks, burst i not
  before i intervals after the start, and its counters account for every packet offered.\<close>

theorem tap_sender_paced:
  assumes "send_pkt w (start # clock) stops rets = Some (s, r)" "\<not> enable_max_speed w" "0 \<le> snd_interval w"
    and "sorted stops" "\<forall>c \<in> set (start # clock). tv_ok c"
  shows "(\<exists>k. bursts s = map (\<lambda>c. (c, map pkt_data (gat_pkts w)))
        (take k (paced (tv_us start) (snd_interval w) clock))) \<and>
    (\<forall>i < length (bursts s). tv_us start + int i * snd_interval w \<le> tv_us (fst (bursts s ! i))) \<and>
    attempts (gt_pkt_stat s) = of_nat (length (bursts s) * length (gat_pkts w)) \<and>
    attempted_bytes (gt_pkt_stat s) = of_nat (length (bursts s)) * load_bytes (gat_pkts w)"
proof -
  from assms(1) have l: "send_loop w start clock stops (sender_init rets) = Some s"
    by (auto simp: send_pkt_def)
  obtain k where k: "bursts s = map (\<lambda>c. (c, map pkt_data (gat_pkts w)))
      (take k (paced (tv_us start) (snd_interval w) clock))"
    using send_loop_paced[OF l assms(2-4) _ _ sender_ok_init(1)] assms(5) sender_ok_init(2) by auto
  then have "\<forall>i < length (bursts s). tv_us start + int i * snd_interval w \<le> tv_us (fst (bursts s ! i))"
    by (auto intro: paced_not_early)
  with k send_loop_ok[OF l sender_ok_init(1)] show ?thesis by (auto simp: sender_ok_def)
qed

definition sample_tap :: tap_writer where
  "sample_tap = tap_init\<lparr>snd_interval := 1000, burst_num := 2, gat_pkts := [packet_of [1, 2, 3]]\<rparr>"

definition sample_clock :: "timeval list" where
  "sample_clock = map (\<lambda>u. \<lparr>tv_sec = 7, tv_usec = u\<rparr>) [0, 5, 700, 1002]"

theorem tap_sender_paced_witness:
  "\<exists>s r. send_pkt sample_tap sample_clock (replicate 9 False) [3, -1] = Some (s, r) \<and>
     (\<forall>i < length (bursts s). 7000000 + int i * 1000 \<le> tv_us (fst (bursts s ! i))) \<and>
     attempts (gt_pkt_stat s) = of_nat (length (bursts s))"
proof -
  have "send_pkt sample_tap sample_clock (replicate 9 False) [3, -1] \<noteq> None" by code_simp
  then obtain s r where sr: "send_pkt sample_tap sample_clock (replicate 9 False) [3, -1] = Some (s, r)"
    by auto
  then have "send_pkt sample_tap (\<lparr>tv_sec = 7, tv_usec = 0\<rparr> #
      map (\<lambda>u. \<lparr>tv_sec = 7, tv_usec = u\<rparr>) [5, 700, 1002]) (replicate 9 False) [3, -1] = Some (s, r)"
    by (simp add: sample_clock_def)
  from tap_sender_paced[OF this] sr show ?thesis
    by (auto simp: sample_tap_def tap_init_def tv_ok_def tv_us_def)
qed

text \<open>C25: A sender that keeps an interval (not at maximum speed) and is asked for a number of bursts sends them all and ends, whatever \<open>write\<close> returns, given
  enough clock readings and no stop: the bursts are those the ideal sender picks first, each of the loaded packets
  unchanged. It then prints its summary if some microseconds lie between the first burst and the last one;
  otherwise, and so always after a single burst, the summary dies of a division by zero. The clock
  is taken to show a time after the first second of 1970 and before the year 200000.\<close>

theorem tap_burst_completes:
  assumes "\<not> enable_max_speed w" "0 \<le> snd_interval w" "0 < burst_num w" "burst_num w < 2 ^ 31"
    and "\<forall>c \<in> set (start # clock). tv_ok c \<and> 0 < tv_sec c \<and> tv_sec c < 2 ^ 42" "set stops \<subseteq> {False}" "3 * length clock < length stops"
    and "nat (burst_num w) * length (gat_pkts w) \<le> length rets"
    and "nat (burst_num w) \<le> length (paced (tv_us start) (snd_interval w) clock)"
    and "ts = take (nat (burst_num w)) (paced (tv_us start) (snd_interval w) clock)"
  shows "\<exists>s r. send_pkt w (start # clock) stops rets = Some (s, r) \<and>
    bursts s = map (\<lambda>c. (c, map pkt_data (gat_pkts w))) ts \<and> (r = None \<longleftrightarrow> tv_us (hd ts) = tv_us (last ts))"
proof -
  have "write_rets (sender_init rets) = rets" by (simp add: sender_init_def)
  then obtain s where s: "send_loop w start clock stops (sender_init rets) = Some s"
      "length (bursts s) = nat (burst_num w)"
    using send_loop_total[OF assms(1-4,6,7) _ _ sender_ok_init(1), of start rets] assms(3,5,8,9) sender_ok_init(2)
    by auto
  obtain k where "bursts s = map (\<lambda>c. (c, map pkt_data (gat_pkts w)))
      (take k (paced (tv_us start) (snd_interval w) clock))"
    using send_loop_paced[OF s(1) assms(1,2) sorted_no_stop[OF assms(6)] _ _ sender_ok_init(1)] assms(5)
      sender_ok_init(2) by auto
  with s(2) assms(9,10) have b: "bursts s = map (\<lambda>c. (c, map pkt_data (gat_pkts w))) ts" and ne: "ts \<noteq> []"
    using assms(3) by (auto simp: min_def split: if_splits)
  have "timed (sender_init rets)" by (simp add: timed_def sender_init_def)
  from send_loop_timed[OF s(1) this] assms(5) have "timed s" by auto
  then have fl: "first_snd_tv s = hd ts" "last_snd_tv s = last ts"
    using ne by (simp_all add: timed_def b hd_map last_map)
  have "set ts \<subseteq> set clock" using paced_subset set_take_subset assms(10) by fast
  moreover have "hd ts \<in> set ts" "last ts \<in> set ts" using ne by simp_all
  ultimately have "hd ts \<in> set clock" "last ts \<in> set clock" by blast+
  with assms(5) have ok: "tv_ok (hd ts)" "tv_ok (last ts)" "0 < tv_sec (hd ts)" "tv_sec (hd ts) < 2 ^ 42"
    "0 < tv_sec (last ts)" "tv_sec (last ts) < 2 ^ 42" by auto
  then have "\<bar>tv_us (last ts) - tv_us (hd ts)\<bar> < 2 ^ 63"
    unfolding tv_us_def tv_ok_def by (elim conjE) (simp add: abs_less_iff)
  with ok have "report_snd_summary s = None \<longleftrightarrow> tv_us (hd ts) = tv_us (last ts)" using summary_None[of s] fl by simp
  with s(1) b show ?thesis by (auto simp: send_pkt_def)
qed

theorem tap_burst_completes_witness:
  "\<exists>s r. send_pkt sample_tap sample_clock (replicate 10 False) [3, -1] = Some (s, r) \<and>
     map fst (bursts s) = [\<lparr>tv_sec = 7, tv_usec = 5\<rparr>, \<lparr>tv_sec = 7, tv_usec = 1002\<rparr>] \<and> r \<noteq> None"
  using tap_burst_completes[of sample_tap "\<lparr>tv_sec = 7, tv_usec = 0\<rparr>"
    "map (\<lambda>u. \<lparr>tv_sec = 7, tv_usec = u\<rparr>) [5, 700, 1002]" "replicate 10 False" "[3, -1]"]
  by (auto simp add: sample_tap_def sample_clock_def tap_init_def tv_ok_def tv_us_def)

text \<open>With a single burst there is no elapsed time, and the summary divides by it: whatever the
  clock and \<open>write\<close> return, the program ends with a division by zero.\<close>

theorem tap_single_burst_no_summary:
  assumes "send_pkt w clock stops rets = Some (s, r)" "length (bursts s) \<le> 1"
  shows "r = None"
proof -
  obtain start clock' where l: "send_loop w start clock' stops (sender_init rets) = Some s"
    and r: "r = report_snd_summary s"
    using assms(1) by (auto simp: send_pkt_def split: list.splits)
  have "first_snd_tv s = last_snd_tv s"
  proof (cases "bursts s = []")
    case True
    then show ?thesis using send_loop_ok[OF l sender_ok_init(1)] by (simp add: sender_ok_def)
  next
    case False
    with assms(2) have "length (bursts s) = 1" by (cases "bursts s") auto
    then show ?thesis using send_loop_ok[OF l sender_ok_init(1)] by (simp add: sender_ok_def)
  qed
  then show ?thesis by (simp add: r report_snd_summary_def time_a_between_b2_def Let_def)
qed

theorem tap_single_burst_no_summary_witness:
  "\<exists>s. send_pkt (sample_tap\<lparr>burst_num := 1\<rparr>) sample_clock (replicate 9 False) [3] = Some (s, None) \<and>
     length (bursts s) = 1"
proof -
  let ?run = "send_pkt (sample_tap\<lparr>burst_num := 1\<rparr>) sample_clock (replicate 9 False) [3]"
  have "case ?run of None \<Rightarrow> False | Some (s, r) \<Rightarrow> length (bursts s) = 1" by code_simp
  then obtain s r where "?run = Some (s, r)" "length (bursts s) = 1" by (auto split: option.splits)
  with tap_single_burst_no_summary[of "sample_tap\<lparr>burst_num := 1\<rparr>" sample_clock "replicate 9 False" "[3]" s r]
  show ?thesis by simp
qed

text \<open>A command line that is accepted, without maximum speed, has an interval of at least a
  microsecond and at most a second, and one of interval and frequency is computed from the other.\<close>

theorem tap_args_accepted:
  assumes "parse_and_check_args argv tap_init = Some (0, w)" "\<not> enable_max_speed w"
  shows "1 \<le> snd_interval w \<and> snd_interval w \<le> 1000000 \<and> 1 \<le> frequency w \<and> frequency w \<le> 1000000 \<and>
    (frequency w = 1000000 div snd_interval w \<or> snd_interval w = 1000000 div frequency w)"
proof -
  obtain w0 where w0: "parse_opts (getopt_long ''mMi:I:f:F:'' my_options argv) tap_init = Some w0"
      "check_args w0 = Some (0, w)"
    using assms(1) by (auto simp: parse_and_check_args_def Option.bind_eq_Some_conv)
  have "speed_ok tap_init" by (simp add: speed_ok_def tap_init_def signed_divide_int_def)
  from parse_opts_speed[OF w0(1) this] check_args_keeps[OF w0(2)] assms(2)
  have *: "speed_ok w" "0 < snd_interval w" "0 < frequency w" by (auto simp: speed_ok_def)
  have le: "1000000 div x \<le> 1000000" if "0 < x" for x :: int
    using that zdiv_mono2[of 1000000 1 x] by simp
  have pos: "0 < a \<Longrightarrow> 0 < 1000000 div a \<Longrightarrow> a \<le> 1000000" for a :: int
    by (rule ccontr) (simp add: not_le div_pos_pos_trivial)
  from * show ?thesis using le pos by (auto simp: speed_ok_def sdiv_pos)
qed

theorem tap_args_accepted_witness:
  "\<exists>w. parse_and_check_args [''tap_writer'', ''-f'', ''a.pcap'', ''--frequency=300''] tap_init = Some (0, w) \<and>
     snd_interval w \<le> 1000000"
proof -
  let ?r = "parse_and_check_args [''tap_writer'', ''-f'', ''a.pcap'', ''--frequency=300''] tap_init"
  have "case ?r of None \<Rightarrow> False | Some (ret, w) \<Rightarrow> ret = 0 \<and> \<not> enable_max_speed w" by code_simp
  then obtain w where "?r = Some (0, w)" "\<not> enable_max_speed w" by (auto split: option.splits if_splits)
  with tap_args_accepted[OF this] show ?thesis by auto
qed

text \<open>An interval on the command line: zero divides by zero before the arguments are checked, more
  than a second is refused because the frequency rounds to zero, anything else is taken.\<close>

theorem tap_interval_option:
  assumes "v < 2 ^ 63"
  shows "(case parse_and_check_args [prog, ''--input-file='' @ f, ''--interval='' @ show_dec v] tap_init of
      None \<Rightarrow> v = 0
    | Some (ret, w) \<Rightarrow> 0 < v \<and> (ret = 0 \<longleftrightarrow> v \<le> 1000000) \<and> (ret \<noteq> 0 \<longrightarrow> ret = -1) \<and>
        snd_interval w = int v \<and> frequency w = 1000000 div int v \<and> (ret = 0 \<longrightarrow> input_file w = Some f))"
proof -
  have "0 < 1000000 div int v \<longleftrightarrow> v \<le> 1000000" if "v \<noteq> 0"
    using that pos_imp_zdiv_pos_iff[of "int v" 1000000] by simp
  then show ?thesis
    using input_and_interval[OF assms, of prog f tap_init]
    by (auto simp: parse_and_check_args_def check_args_def report_working_paras_def buffer_string_def
        tap_init_def tap_print_def sdiv_pos)
qed

theorem tap_interval_option_witness:
  "parse_and_check_args [''tap_writer'', ''--input-file=a'', ''--interval=0''] tap_init = None"
proof -
  have "show_dec 0 = ''0''" by (simp add: show_nat.simps digit_char_def char_of_def bit_0)
  then show ?thesis using tap_interval_option[where v = 0 and prog = "''tap_writer''" and f = "''a''"] by (simp split: option.splits)
qed

text \<open>Loading takes the packets of the dump unchanged, at most 128 of them. A file of exactly 128 is
  already reported as one that has more.\<close>

theorem tap_load_takes_packets:
  assumes "gat_pkts w = []" "\<forall>p \<in> set pkts. length p < MAX_ETH_PKT_LEN" "code \<noteq> 0"
  shows "\<exists>w'. load_from_dump_file path (Inr (pkts, code)) w =
      (0, tap_print (report_pkt_load_info (128 \<le> length pkts) w') w') \<and>
    gat_pkts w' = map packet_of (take 128 pkts) \<and> snd_interval w' = snd_interval w \<and>
    burst_num w' = burst_num w"
proof -
  have "load_loop code pkts w = (if length pkts \<le> 128 then code else 1, False,
      w\<lparr>gat_pkts := map packet_of (take 128 pkts)\<rparr>)"
    using load_loop_fits[OF assms(2), of w code] assms(1) by (simp add: MAX_PACKET_NUM_def)
  then show ?thesis using assms(3)
    by (auto simp: load_from_dump_file_def MAX_PACKET_NUM_def min_def)
qed

theorem tap_load_takes_packets_witness:
  "\<exists>w'. load_from_dump_file ''a'' (Inr (replicate 128 [1], -2)) tap_init =
      (0, tap_print (report_pkt_load_info True w') w') \<and> gat_pkts w' = replicate 128 (packet_of [1])"
  using tap_load_takes_packets[of tap_init "replicate 128 [1]" "-2" "''a''"]
  by (auto simp: tap_init_def MAX_ETH_PKT_LEN_def MAX_ETH_DATA_LEN_def)

end
