(* ===== verification/AudioModem.thy ===== *)
theory AudioModem
  imports Complex_Main Getopt
begin

text \<open>
  The file transfer over sound of \<open>apps/data_in_audio\<close>: the modulator, the Goertzel detector and the
  demodulator, the framing of \<open>server_mode\<close> and \<open>client_mode\<close>, and the loops of \<open>audio_io.c\<close> over what
  the sound device returns. A \<open>double\<close> is a real number here, so rounding in floating point is
  left out; the truncation to 16-bit samples is not. A device is the list of what its next calls
  return; \<open>None\<close> is a call that still waits when the list is used up.
\<close>

section \<open>Modulation\<close>

definition SAMPLE_RATE :: nat where "SAMPLE_RATE = 44100"
definition FREQ_MARK :: nat where "FREQ_MARK = 2100"
definition FREQ_SPACE :: nat where "FREQ_SPACE = 1200"
definition FREQ_PREAMBLE :: nat where "FREQ_PREAMBLE = FREQ_MARK"
definition BAUD_RATE :: nat where "BAUD_RATE = 100"
definition samples_per_bit :: nat where "samples_per_bit = SAMPLE_RATE div BAUD_RATE"

text \<open>The conversion of a \<open>double\<close> to an integer type cuts the fraction off.\<close>

definition cut :: "real \<Rightarrow> int" where
  "cut x = (if 0 \<le> x then \<lfloor>x\<rfloor> else \<lceil>x\<rceil>)"

definition phase_inc :: "nat \<Rightarrow> real" where
  "phase_inc freq = 2 * pi * real freq / real SAMPLE_RATE"

definition next_phase :: "nat \<Rightarrow> real \<Rightarrow> real" where
  "next_phase freq ph = (let p = ph + phase_inc freq in if p \<ge> 2 * pi then p - 2 * pi else p)"

text \<open>The samples and the phase after them.\<close>

fun generate_tone :: "nat \<Rightarrow> nat \<Rightarrow> real \<Rightarrow> int list \<times> real" where
  "generate_tone freq 0 ph = ([], ph)"
| "generate_tone freq (Suc n) ph =
     (let p = next_phase freq ph; (buf, ph') = generate_tone freq n p
      in (cut (32767 * sin p) # buf, ph'))"

fun generate_tones :: "nat list \<Rightarrow> real \<Rightarrow> int list \<times> real" where
  "generate_tones [] ph = ([], ph)"
| "generate_tones (f # fs) ph =
     (let (buf, p) = generate_tone f samples_per_bit ph; (bufs, p') = generate_tones fs p in (buf @ bufs, p'))"

text \<open>A start bit, the data bits from the lowest, ten stop bits.\<close>

definition bit_freq :: "bool \<Rightarrow> nat" where
  "bit_freq b = (if b then FREQ_MARK else FREQ_SPACE)"

definition byte_freqs :: "u8 \<Rightarrow> nat list" where
  "byte_freqs b = FREQ_SPACE # map (\<lambda>i. bit_freq (bit b i)) [0..<8] @ replicate 10 FREQ_MARK"

definition modulate_byte :: "u8 \<Rightarrow> real \<Rightarrow> int list \<times> real" where
  "modulate_byte b ph = generate_tones (byte_freqs b) ph"

section \<open>Detection\<close>

definition goertzel_coeff :: "nat \<Rightarrow> real" where
  "goertzel_coeff freq = 2 * cos (2 * pi * real freq / real SAMPLE_RATE)"

fun goertzel_loop :: "real \<Rightarrow> int list \<Rightarrow> real \<Rightarrow> real \<Rightarrow> real \<times> real" where
  "goertzel_loop coeff [] s_prev s_prev2 = (s_prev, s_prev2)"
| "goertzel_loop coeff (x # xs) s_prev s_prev2 =
     goertzel_loop coeff xs (real_of_int x + coeff * s_prev - s_prev2) s_prev"

definition goertzel_magnitude :: "int list \<Rightarrow> nat \<Rightarrow> real" where
  "goertzel_magnitude samples target_freq =
     (let coeff = goertzel_coeff target_freq; (s_prev, s_prev2) = goertzel_loop coeff samples 0 0
      in s_prev2 * s_prev2 + s_prev * s_prev - coeff * s_prev * s_prev2)"

section \<open>The device\<close>

text \<open>What the next call returns: frames, \<open>-EPIPE\<close>, another error.\<close>

datatype 'a pcm = Frames 'a | Xrun | PcmError

text \<open>\<open>audio_record\<close> with \<open>n\<close> frames to go: whether it succeeded, and the frames.\<close>

function audio_record :: "nat \<Rightarrow> int list pcm list \<Rightarrow> (bool \<times> int list \<times> int list pcm list) option" where
  "audio_record n dev =
     (if n = 0 then Some (True, [], dev)
      else (case dev of
        [] \<Rightarrow> None
      | PcmError # dev' \<Rightarrow> Some (False, [], dev')
      | Xrun # dev' \<Rightarrow> audio_record n dev'
      | Frames xs # dev' \<Rightarrow>
          if n < length xs then Some (True, take n xs, Frames (drop n xs) # dev')
          else map_option (\<lambda>(ok, ys, d). (ok, xs @ ys, d)) (audio_record (n - length xs) dev')))"
  by pat_completeness auto
termination by (relation "measure (\<lambda>(n, dev). length dev)") auto

declare audio_record.simps [simp del]

text \<open>\<open>audio_play\<close>: how many frames a call takes, and the frames played.\<close>

function audio_play :: "int list \<Rightarrow> nat pcm list \<Rightarrow> (bool \<times> int list \<times> nat pcm list) option" where
  "audio_play buf dev =
     (if buf = [] then Some (True, [], dev)
      else (case dev of
        [] \<Rightarrow> None
      | PcmError # dev' \<Rightarrow> Some (False, [], dev')
      | Xrun # dev' \<Rightarrow> audio_play buf dev'
      | Frames k # dev' \<Rightarrow> map_option (\<lambda>(ok, ys, d). (ok, take k buf @ ys, d)) (audio_play (drop k buf) dev')))"
  by pat_completeness auto
termination by (relation "measure (\<lambda>(buf, dev). length dev)") auto

declare audio_play.simps [simp del]

text \<open>The samples a device has still to give, and what is left to read of it.\<close>

fun device_size :: "int list pcm list \<Rightarrow> nat" where
  "device_size [] = 0"
| "device_size (Frames xs # dev) = Suc (length xs) + device_size dev"
| "device_size (p # dev) = Suc (device_size dev)"

lemma audio_record_eqs:
  "audio_record 0 dev = Some (True, [], dev)"
  "0 < n \<Longrightarrow> audio_record n [] = None"
  "0 < n \<Longrightarrow> audio_record n (PcmError # dev) = Some (False, [], dev)"
  "0 < n \<Longrightarrow> audio_record n (Xrun # dev) = audio_record n dev"
  "0 < n \<Longrightarrow> audio_record n (Frames xs # dev) =
     (if n < length xs then Some (True, take n xs, Frames (drop n xs) # dev)
      else map_option (\<lambda>(ok, ys, d). (ok, xs @ ys, d)) (audio_record (n - length xs) dev))"
  by (subst audio_record.simps, simp)+

lemma audio_record_shorter:
  "audio_record n dev = Some (ok, xs, dev') \<Longrightarrow> 0 < n \<Longrightarrow> device_size dev' < device_size dev"
proof (induction dev arbitrary: n xs)
  case (Cons p dev)
  show ?case
  proof (cases p)
    case (Frames ys)
    show ?thesis
    proof (cases "n \<le> length ys")
      case True
      with Cons.prems Frames show ?thesis by (cases "n = length ys") (auto simp: audio_record_eqs)
    next
      case False
      with Cons.prems Frames obtain zs where "audio_record (n - length ys) dev = Some (ok, zs, dev')"
        by (auto simp: audio_record_eqs)
      from Cons.IH[OF this] False Frames show ?thesis by simp
    qed
  qed (use Cons in \<open>auto simp: audio_record_eqs intro: less_SucI\<close>)
qed (simp add: audio_record_eqs)

section \<open>Demodulation\<close>

function wait_for_preamble :: "int list pcm list \<Rightarrow> (bool \<times> int list pcm list) option" where
  "wait_for_preamble dev =
     (case audio_record (SAMPLE_RATE div 10) dev of
        None \<Rightarrow> None
      | Some (ok, buffer, dev') \<Rightarrow>
          if \<not> ok then Some (False, dev')
          else if goertzel_magnitude buffer FREQ_PREAMBLE > 10 ^ 12 then Some (True, dev')
          else wait_for_preamble dev')"
  by pat_completeness auto
termination
  by (relation "measure device_size") (auto simp: SAMPLE_RATE_def intro: audio_record_shorter)

declare wait_for_preamble.simps [simp del]

definition check_size :: nat where "check_size = samples_per_bit div 2"

definition start_bit_seen :: "int list \<Rightarrow> bool" where
  "start_bit_seen buffer \<longleftrightarrow>
     goertzel_magnitude buffer FREQ_SPACE > 2 * 10 ^ 8 \<and>
     goertzel_magnitude buffer FREQ_SPACE > goertzel_magnitude buffer FREQ_MARK * 2"

function wait_start_bit :: "int list pcm list \<Rightarrow> (bool \<times> int list pcm list) option" where
  "wait_start_bit dev =
     (case audio_record check_size dev of
        None \<Rightarrow> None
      | Some (ok, buffer, dev') \<Rightarrow>
          if \<not> ok then Some (False, dev')
          else if start_bit_seen buffer then Some (True, dev') else wait_start_bit dev')"
  by pat_completeness auto
termination
  by (relation "measure device_size")
    (auto simp: check_size_def samples_per_bit_def SAMPLE_RATE_def BAUD_RATE_def intro: audio_record_shorter)

declare wait_start_bit.simps [simp del]

definition bit_seen :: "int list \<Rightarrow> bool" where
  "bit_seen buffer \<longleftrightarrow> goertzel_magnitude buffer FREQ_MARK > goertzel_magnitude buffer FREQ_SPACE"

text \<open>The data bits from \<open>i\<close> on; \<open>None\<close> inside is the return of -1.\<close>

fun data_bits :: "nat list \<Rightarrow> u8 \<Rightarrow> int list pcm list \<Rightarrow> (u8 option \<times> int list pcm list) option" where
  "data_bits [] byte dev = Some (Some byte, dev)"
| "data_bits (i # is) byte dev =
     (case audio_record samples_per_bit dev of
        None \<Rightarrow> None
      | Some (ok, buffer, dev') \<Rightarrow>
          if \<not> ok then Some (None, dev')
          else data_bits is (if bit_seen buffer then byte OR push_bit i 1 else byte) dev')"

definition demodulate_byte :: "int list pcm list \<Rightarrow> (u8 option \<times> int list pcm list) option" where
  "demodulate_byte dev =
     (case wait_start_bit dev of
        None \<Rightarrow> None
      | Some (False, dev1) \<Rightarrow> Some (None, dev1)
      | Some (True, dev1) \<Rightarrow>
          (case audio_record (samples_per_bit - check_size) dev1 of
             None \<Rightarrow> None
           | Some (_, _, dev2) \<Rightarrow> data_bits [0..<8] 0 dev2))"

lemma wait_start_bit_shorter: "wait_start_bit dev = Some (ok, dev') \<Longrightarrow> device_size dev' < device_size dev"
proof (induction dev rule: wait_start_bit.induct)
  case (1 dev)
  have *: "0 < check_size" by (simp add: check_size_def samples_per_bit_def SAMPLE_RATE_def BAUD_RATE_def)
  from "1.prems" obtain ok1 buffer d where d: "audio_record check_size dev = Some (ok1, buffer, d)"
    by (auto simp: wait_start_bit.simps[of dev] split: option.splits)
  note less = audio_record_shorter[OF d *]
  show ?case
    using wait_start_bit.simps[of dev] "1.prems" d less "1.IH"[OF d refl refl] by (auto split: if_splits)
qed

lemma audio_record_le: "audio_record n dev = Some (ok, xs, dev') \<Longrightarrow> device_size dev' \<le> device_size dev"
  using audio_record_shorter[of n dev] by (cases "n = 0") (auto simp: audio_record_eqs intro: less_imp_le)

lemma data_bits_le: "data_bits is byte dev = Some (r, dev') \<Longrightarrow> device_size dev' \<le> device_size dev"
proof (induction "is" arbitrary: byte dev)
  case (Cons i "is")
  then obtain ok buffer d where d: "audio_record samples_per_bit dev = Some (ok, buffer, d)"
    by (auto split: option.splits)
  with Cons audio_record_le[OF d] show ?case by (auto split: if_splits intro: order_trans)
qed simp

lemma demodulate_byte_shorter: "demodulate_byte dev = Some (r, dev') \<Longrightarrow> device_size dev' < device_size dev"
  unfolding demodulate_byte_def
  by (auto split: option.splits bool.splits dest!: wait_start_bit_shorter audio_record_le data_bits_le)

section \<open>The server\<close>

definition SYNC_WORD :: u16 where "SYNC_WORD = 0xAA55"

definition sync_hi :: u8 where "sync_hi = ucast (drop_bit 8 SYNC_WORD AND 0xFF)"
definition sync_lo :: u8 where "sync_lo = ucast (SYNC_WORD AND 0xFF)"

text \<open>A failed \<open>audio_play\<close> of the preamble, the sync word or the size is passed over.\<close>

fun play_preamble :: "nat \<Rightarrow> real \<Rightarrow> nat pcm list \<Rightarrow> (int list \<times> real \<times> nat pcm list) option" where
  "play_preamble 0 ph dev = Some ([], ph, dev)"
| "play_preamble (Suc i) ph dev =
     (let (buf, p) = generate_tone FREQ_PREAMBLE SAMPLE_RATE ph
      in do { (ok, ys, d) \<leftarrow> audio_play buf dev;
              (zs, p', d') \<leftarrow> play_preamble i p d;
              Some (ys @ zs, p', d') })"

fun play_bytes :: "u8 list \<Rightarrow> real \<Rightarrow> nat pcm list \<Rightarrow> (int list \<times> real \<times> nat pcm list) option" where
  "play_bytes [] ph dev = Some ([], ph, dev)"
| "play_bytes (b # bs) ph dev =
     (let (buf, p) = modulate_byte b ph
      in do { (ok, ys, d) \<leftarrow> audio_play buf dev;
              (zs, p', d') \<leftarrow> play_bytes bs p d;
              Some (ys @ zs, p', d') })"

text \<open>The data stop at the first failure; the number is \<open>sent\<close>.\<close>

fun send_data :: "u8 list \<Rightarrow> real \<Rightarrow> nat pcm list \<Rightarrow> (int list \<times> nat \<times> nat pcm list) option" where
  "send_data [] ph dev = Some ([], 0, dev)"
| "send_data (b # bs) ph dev =
     (let (buf, p) = modulate_byte b ph
      in do { (ok, ys, d) \<leftarrow> audio_play buf dev;
              if \<not> ok then Some (ys, 0, d)
              else do { (zs, sent, d') \<leftarrow> send_data bs p d; Some (ys @ zs, Suc sent, d') } })"

definition size_bytes :: "u32 \<Rightarrow> u8 list" where
  "size_bytes fsize = map (\<lambda>i. ucast (drop_bit (24 - 8 * i) fsize AND 0xFF)) [0..<4]"

text \<open>\<open>None\<close> as a file: \<open>fopen\<close> failed. The result: what was played, and \<open>sent\<close>.\<close>

definition server_mode :: "u8 list option \<Rightarrow> bool \<Rightarrow> nat pcm list \<Rightarrow> (int list \<times> nat) option" where
  "server_mode f init dev =
     (case f of
        None \<Rightarrow> Some ([], 0)
      | Some content \<Rightarrow>
          if \<not> init then Some ([], 0)
          else do {
            (xs, ph, d1) \<leftarrow> play_preamble 5 0 dev;
            (ys, ph, d2) \<leftarrow> play_bytes [sync_hi, sync_lo] ph d1;
            (zs, ph, d3) \<leftarrow> play_bytes (size_bytes (of_nat (length content))) ph d2;
            (ds, sent, d4) \<leftarrow> send_data content ph d3;
            Some (xs @ ys @ zs @ ds, sent) })"

section \<open>The client\<close>

function sync_loop :: "int list pcm list \<Rightarrow> int list pcm list option" where
  "sync_loop dev =
     (case demodulate_byte dev of
        None \<Rightarrow> None
      | Some (None, d) \<Rightarrow> Some d
      | Some (Some b1, d) \<Rightarrow>
          if b1 = sync_hi then
            (case demodulate_byte d of
               None \<Rightarrow> None
             | Some (None, d') \<Rightarrow> Some d'
             | Some (Some b2, d') \<Rightarrow> if b2 = sync_lo then Some d' else sync_loop d')
          else sync_loop d)"
  by pat_completeness auto
termination
  by (relation "measure device_size") (auto dest!: demodulate_byte_shorter)

declare sync_loop.simps [simp del]

text \<open>At most \<open>n\<close> bytes, and whether all were received.\<close>

fun receive_bytes :: "nat \<Rightarrow> int list pcm list \<Rightarrow> (u8 list \<times> bool \<times> int list pcm list) option" where
  "receive_bytes 0 dev = Some ([], True, dev)"
| "receive_bytes (Suc n) dev =
     (case demodulate_byte dev of
        None \<Rightarrow> None
      | Some (None, d) \<Rightarrow> Some ([], False, d)
      | Some (Some b, d) \<Rightarrow> map_option (\<lambda>(bs, ok, d'). (b # bs, ok, d')) (receive_bytes n d))"

definition size_of_bytes :: "u8 list \<Rightarrow> u32" where
  "size_of_bytes bs = foldl (\<lambda>fsize b. push_bit 8 fsize OR ucast b) 0 bs"

text \<open>What the file holds in the end; \<open>None\<close> inside: it could not be opened.\<close>

definition client_mode :: "bool \<Rightarrow> bool \<Rightarrow> int list pcm list \<Rightarrow> (u8 list option \<times> int list pcm list) option" where
  "client_mode opened init dev =
     (if \<not> opened then Some (None, dev)
      else if \<not> init then Some (Some [], dev)
      else (case wait_for_preamble dev of
        None \<Rightarrow> None
      | Some (False, d1) \<Rightarrow> Some (Some [], d1)
      | Some (True, d1) \<Rightarrow>
          do { d2 \<leftarrow> sync_loop d1;
               (size, ok, d3) \<leftarrow> receive_bytes 4 d2;
               if \<not> ok then Some (Some [], d3)
               else do { (bs, ok, d4) \<leftarrow> receive_bytes (unat (size_of_bytes size)) d3;
                         Some (Some bs, d4) } }))"

section \<open>The command line\<close>

datatype audio_run = Usage | Server string | Client string

fun audio_options :: "opt_event list \<Rightarrow> string option \<Rightarrow> string option \<Rightarrow> audio_run" where
  "audio_options [] mode filename =
     (case (mode, filename) of
        (Some m, Some f) \<Rightarrow> if m = ''server'' then Server f else if m = ''client'' then Client f else Usage
      | _ \<Rightarrow> Usage)"
| "audio_options ((opt, arg) # es) mode filename =
     (if opt = opt_char CHR ''m'' then audio_options es arg filename
      else if opt = opt_char CHR ''f'' then audio_options es mode arg
      else Usage)"

definition audio_main :: "string list \<Rightarrow> audio_run" where
  "audio_main args = audio_options (getopt ''m:f:'' args) None None"

section \<open>The detector measures one frequency\<close>

text \<open>The discrete Fourier sum at \<open>f\<close>; \<open>turn f\<close> is the rotation by one sample.\<close>

definition turn :: "nat \<Rightarrow> complex" where
  "turn f = cis (- phase_inc f)"

definition dft :: "int list \<Rightarrow> nat \<Rightarrow> complex" where
  "dft xs f = (\<Sum>k<length xs. of_int (xs ! k) * turn f ^ k)"

lemma dft_Nil [simp]: "dft [] f = 0"
  by (simp add: dft_def)

lemma dft_Cons: "dft (x # xs) f = of_int x + turn f * dft xs f"
  by (simp add: dft_def sum.lessThan_Suc_shift sum_distrib_left mult.left_commute del: sum.lessThan_Suc)

lemma dft_append: "dft (xs @ ys) f = dft xs f + turn f ^ length xs * dft ys f"
  by (induction xs) (simp_all add: dft_Cons distrib_left add.assoc mult.assoc)

lemma turn_inverse: "cis (phase_inc f) * (turn f * a) = a"
  by (simp add: turn_def cis_mult flip: mult.assoc)

lemma goertzel_coeff_turn: "complex_of_real (goertzel_coeff f) = cis (phase_inc f) + turn f"
  by (simp add: goertzel_coeff_def phase_inc_def turn_def complex_eq_iff)

lemma norm_turn [simp]: "norm (turn f) = 1"
  by (simp add: turn_def)

text \<open>The loop of the detector, as a recursion on complex numbers.\<close>

lemma goertzel_loop_complex:
  assumes "goertzel_loop (goertzel_coeff f) xs s s2 = (a, b)"
  shows "of_real a - turn f * of_real b =
    cis (phase_inc f) ^ length xs * (of_real s - turn f * of_real s2 + turn f * dft xs f)"
  using assms
proof (induction xs arbitrary: s s2)
  case (Cons x xs)
  let ?u = "cis (phase_inc f)" and ?z = "turn f"
  let ?s = "real_of_int x + goertzel_coeff f * s - s2"
  have "of_real ?s - ?z * of_real s + ?z * dft xs f = ?u * (of_real s - ?z * of_real s2 + ?z * dft (x # xs) f)"
    by (simp add: goertzel_coeff_turn dft_Cons distrib_left distrib_right right_diff_distrib turn_inverse)
  with Cons.IH[of ?s s] Cons.prems show ?case by (simp add: mult.assoc mult.left_commute)
qed simp

lemma norm_rotated: "(norm (of_real a - turn f * of_real b))\<^sup>2 = b * b + a * a - goertzel_coeff f * a * b"
proof -
  let ?w = "phase_inc f"
  have "(norm (of_real a - turn f * of_real b))\<^sup>2 = (a - cos ?w * b)\<^sup>2 + (sin ?w * b)\<^sup>2"
    by (simp add: cmod_power2 turn_def)
  also have "\<dots> = a * a - 2 * cos ?w * a * b + ((sin ?w)\<^sup>2 + (cos ?w)\<^sup>2) * (b * b)"
    unfolding power2_eq_square by algebra
  finally show ?thesis
    unfolding sin_cos_squared_add by (simp add: goertzel_coeff_def phase_inc_def)
qed

lemma goertzel_dft: "goertzel_magnitude xs f = (norm (dft xs f))\<^sup>2"
proof -
  obtain a b where ab: "goertzel_loop (goertzel_coeff f) xs 0 0 = (a, b)" by fastforce
  have "norm (of_real a - turn f * of_real b) = norm (dft xs f)"
    using goertzel_loop_complex[OF ab] by (simp add: norm_mult norm_power)
  with norm_rotated[of a f b] show ?thesis by (simp add: goertzel_magnitude_def ab)
qed

end
