(* ===== verification/AudioLink.thy ===== *)
theory AudioLink
  imports AudioModem
begin

text \<open>
  The sound link from end to end: what the detector of \<open>AudioModem\<close> measures in a window of the
  modulated wave, wherever the window lies, and from it that the client receives what the server
  plays. The wave is described by the frequency of each sample; neighbouring tones join in phase.
\<close>

section \<open>Waves\<close>

fun wave :: "nat list \<Rightarrow> real \<Rightarrow> real list" where
  "wave [] ph = []"
| "wave (f # fs) ph = sin (ph + phase_inc f) # wave fs (ph + phase_inc f)"

text \<open>A sample is off the wave by the fraction \<open>cut\<close> drops.\<close>

definition near :: "int \<Rightarrow> real \<Rightarrow> bool" where
  "near x y \<longleftrightarrow> \<bar>real_of_int x - 32767 * y\<bar> \<le> 1"

definition is_wave :: "nat list \<Rightarrow> int list \<Rightarrow> bool" where
  "is_wave fs xs \<longleftrightarrow> (\<exists>ph. list_all2 near xs (wave fs ph))"

lemma length_wave [simp]: "length (wave fs ph) = length fs"
  by (induction fs arbitrary: ph) auto

lemma wave_append: "wave (fs @ gs) ph = wave fs ph @ wave gs (ph + sum_list (map phase_inc fs))"
  by (induction fs arbitrary: ph) (auto simp: add.assoc)

lemma near_cut: "near (cut (32767 * y)) y"
  unfolding near_def cut_def by (auto simp: abs_le_iff) linarith+

lemma is_wave_length: "is_wave fs xs \<Longrightarrow> length xs = length fs"
  by (auto simp: is_wave_def dest: list_all2_lengthD)

lemma is_wave_append:
  assumes "is_wave (fs @ gs) xs"
  shows "is_wave fs (take (length fs) xs)" "is_wave gs (drop (length fs) xs)"
proof -
  obtain ph where ph: "list_all2 near xs (wave fs ph @ wave gs (ph + sum_list (map phase_inc fs)))"
    using assms by (auto simp: is_wave_def wave_append)
  then show "is_wave fs (take (length fs) xs)"
    using list_all2_takeI[OF ph, of "length fs"] by (auto simp: is_wave_def)
  from ph show "is_wave gs (drop (length fs) xs)"
    using list_all2_dropI[OF ph, of "length fs"] by (auto simp: is_wave_def)
qed

text \<open>What a piece of the code plays from one phase to the next, up to full turns.\<close>

definition plays :: "nat list \<Rightarrow> real \<Rightarrow> int list \<Rightarrow> real \<Rightarrow> bool" where
  "plays fs ph xs ph' \<longleftrightarrow>
     (\<forall>q. cis q = cis ph \<longrightarrow> list_all2 near xs (wave fs q) \<and> cis ph' = cis (q + sum_list (map phase_inc fs)))"

lemma plays_Nil: "plays [] ph [] ph"
  by (simp add: plays_def)

lemma plays_append:
  assumes "plays fs a xs b" "plays gs b ys c"
  shows "plays (fs @ gs) a (xs @ ys) c"
  unfolding plays_def
proof (intro allI impI)
  fix q assume "cis q = cis a"
  with assms(1) have x: "list_all2 near xs (wave fs q)" "cis (q + sum_list (map phase_inc fs)) = cis b"
    unfolding plays_def by metis+
  with assms(2) have "list_all2 near ys (wave gs (q + sum_list (map phase_inc fs)))"
    "cis c = cis (q + sum_list (map phase_inc fs) + sum_list (map phase_inc gs))"
    unfolding plays_def by blast+
  with x show "list_all2 near (xs @ ys) (wave (fs @ gs) q) \<and> cis c = cis (q + sum_list (map phase_inc (fs @ gs)))"
    by (simp add: wave_append list_all2_appendI add.assoc)
qed

lemma plays_is_wave: "plays fs a xs b \<Longrightarrow> is_wave fs xs"
  by (auto simp: plays_def is_wave_def)

lemma next_phase_turn: "cis q = cis ph \<Longrightarrow> cis (next_phase f ph) = cis (q + phase_inc f)"
proof -
  assume q: "cis q = cis ph"
  have "cis (x - 2 * pi) = cis x" for x by (simp add: complex_eq_iff cos_diff sin_diff)
  then have "cis (next_phase f ph) = cis (ph + phase_inc f)" by (simp add: next_phase_def Let_def)
  with q show ?thesis by (simp flip: cis_mult)
qed

lemma plays_one: "plays [f] ph [cut (32767 * sin (next_phase f ph))] (next_phase f ph)"
  unfolding plays_def
proof (intro allI impI)
  fix q assume "cis q = cis ph"
  from next_phase_turn[OF this, of f] have t: "cis (next_phase f ph) = cis (q + phase_inc f)" .
  then have "sin (q + phase_inc f) = sin (next_phase f ph)" by (simp add: complex_eq_iff)
  with t show "list_all2 near [cut (32767 * sin (next_phase f ph))] (wave [f] q) \<and>
      cis (next_phase f ph) = cis (q + sum_list (map phase_inc [f]))"
    by (simp add: near_cut)
qed

lemma generate_tone_plays: "generate_tone f n ph = (xs, ph') \<Longrightarrow> plays (replicate n f) ph xs ph'"
proof (induction n arbitrary: ph xs)
  case (Suc n)
  then obtain ys where ys: "generate_tone f n (next_phase f ph) = (ys, ph')"
    "xs = cut (32767 * sin (next_phase f ph)) # ys" by (auto simp: Let_def split: prod.splits)
  from plays_append[OF plays_one Suc.IH[OF ys(1)]] ys(2) show ?case by simp
qed (simp add: plays_Nil)

definition tones :: "nat list \<Rightarrow> nat list" where
  "tones fs = concat (map (replicate samples_per_bit) fs)"

lemma generate_tones_plays: "generate_tones fs ph = (xs, ph') \<Longrightarrow> plays (tones fs) ph xs ph'"
proof (induction fs arbitrary: ph xs)
  case (Cons f fs)
  then obtain b p bs where b: "generate_tone f samples_per_bit ph = (b, p)" "generate_tones fs p = (bs, ph')" "xs = b @ bs"
    by (auto split: prod.splits)
  from plays_append[OF generate_tone_plays[OF b(1)] Cons.IH[OF b(2)]] b(3) show ?case by (simp add: tones_def)
qed (simp add: plays_Nil tones_def)

section \<open>The sums in a window\<close>

primrec rdft :: "real list \<Rightarrow> nat \<Rightarrow> complex" where
  "rdft [] f = 0"
| "rdft (y # ys) f = of_real y + turn f * rdft ys f"

lemma dft_near: "list_all2 near xs ys \<Longrightarrow> norm (dft xs f - 32767 * rdft ys f) \<le> real (length xs)"
proof (induction rule: list_all2_induct)
  case (Cons x xs y ys)
  have eq: "dft (x # xs) f - 32767 * rdft (y # ys) f =
      of_real (real_of_int x - 32767 * y) + turn f * (dft xs f - 32767 * rdft ys f)"
    by (simp add: dft_Cons algebra_simps)
  have "norm (complex_of_real (real_of_int x - 32767 * y)) \<le> 1"
    using Cons(1) by (simp only: norm_of_real near_def)
  moreover have "norm (turn f * (dft xs f - 32767 * rdft ys f)) \<le> real (length xs)"
    using Cons(3) by (simp add: norm_mult)
  ultimately show ?case unfolding eq by (intro order_trans[OF norm_triangle_ineq]) simp
qed simp

lemma rdft_append: "rdft (xs @ ys) f = rdft xs f + turn f ^ length xs * rdft ys f"
  by (induction xs) (simp_all add: distrib_left add.assoc mult.assoc)

definition geo :: "real \<Rightarrow> nat \<Rightarrow> complex" where
  "geo a n = (\<Sum>k<n. cis (a * real k))"

lemma geo_0 [simp]: "geo a 0 = 0" and geo_zero [simp]: "geo 0 n = of_nat n"
  by (simp_all add: geo_def)

lemma geo_last: "geo a (Suc n) = geo a n + cis (a * real n)"
  by (simp add: geo_def)

lemma geo_first: "geo a (Suc n) = 1 + cis a * geo a n"
  by (simp add: geo_def sum.lessThan_Suc_shift sum_distrib_left cis_mult distrib_left add.commute del: sum.lessThan_Suc)

lemma sin_cis: "2 * \<i> * complex_of_real (sin x) = cis x - cis (- x)"
  by (simp add: complex_eq_iff)

lemma rdft_tone:
  "2 * \<i> * rdft (wave (replicate n g) ph) f =
     cis (ph + phase_inc g) * geo (phase_inc g - phase_inc f) n -
     cis (- (ph + phase_inc g)) * geo (- (phase_inc g + phase_inc f)) n"
proof (induction n arbitrary: ph)
  case (Suc n)
  let ?g = "phase_inc g" and ?f = "phase_inc f"
  have "2 * \<i> * rdft (wave (replicate (Suc n) g) ph) f =
      2 * \<i> * complex_of_real (sin (ph + ?g)) + turn f * (2 * \<i> * rdft (wave (replicate n g) (ph + ?g)) f)"
    by (simp add: algebra_simps)
  also have "\<dots> = cis (ph + ?g) * (1 + cis (?g - ?f) * geo (?g - ?f) n) -
      cis (- (ph + ?g)) * (1 + cis (- (?g + ?f)) * geo (- (?g + ?f)) n)"
  proof -
    have c: "turn f * cis (ph + ?g + ?g) = cis (ph + ?g) * cis (?g - ?f)"
      "turn f * cis (- (ph + ?g + ?g)) = cis (- (ph + ?g)) * cis (- (?g + ?f))"
      by (simp_all add: turn_def cis_mult algebra_simps)
    show ?thesis unfolding sin_cis Suc.IH
      by (simp only: right_diff_distrib distrib_left mult_1_right mult.assoc[symmetric] c)
        (simp add: algebra_simps)
  qed
  finally show ?case by (simp only: geo_first)
qed simp

lemma geo_half: "2 * sin (a / 2) * Re (geo a n) = sin (a / 2) + sin (real n * a - a / 2)"
proof (induction n)
  case (Suc n)
  have "2 * sin (a / 2) * cos (a * real n) = sin (real (Suc n) * a - a / 2) - sin (real n * a - a / 2)"
    using sin_add[of "a * real n" "a / 2"] sin_diff[of "a * real n" "a / 2"]
    by (simp add: algebra_simps add_divide_distrib diff_divide_distrib)
  with Suc show ?case by (simp add: geo_last distrib_left)
qed simp

lemma geo_closed: "(1 - cis a) * geo a n = 1 - cis (a * real n)"
  by (induction n) (simp_all add: geo_last distrib_left left_diff_distrib cis_mult distrib_right)

lemma norm_one_cis: "norm (1 - cis a) = 2 * \<bar>sin (a / 2)\<bar>"
proof -
  have "(norm (1 - cis a))\<^sup>2 = (2 * \<bar>sin (a / 2)\<bar>)\<^sup>2"
    using cos_double_sin[of "a / 2"]
    by (simp add: cmod_power2 power_mult_distrib power2_diff sin_squared_eq)
  then show ?thesis by (rule power2_eq_imp_eq) simp_all
qed

lemma norm_geo:
  assumes "1 \<le> c * \<bar>sin (a / 2)\<bar>" "0 < c"
  shows "norm (geo a n) \<le> c"
proof -
  have "2 * \<bar>sin (a / 2)\<bar> * norm (geo a n) = norm (1 - cis (a * real n))"
    by (simp only: norm_one_cis[symmetric] norm_mult[symmetric] geo_closed)
  also have "\<dots> \<le> 2" using norm_triangle_ineq4[of 1 "cis (a * real n)"] by simp
  finally have "\<bar>sin (a / 2)\<bar> * norm (geo a n) \<le> 1" by simp
  moreover have "norm (geo a n) \<le> c * \<bar>sin (a / 2)\<bar> * norm (geo a n)"
    using assms(1) by (intro mult_le_cancel_right1[THEN iffD2]) auto
  ultimately show ?thesis using assms(2)
    by (smt (verit) mult.assoc mult_left_le mult_left_mono mult.right_neutral)
qed

lemma Re_geo:
  assumes "1 \<le> c * \<bar>sin (a / 2)\<bar>" "0 < c"
  shows "\<bar>Re (geo a n) - 1 / 2\<bar> \<le> c / 2"
proof -
  have "2 * sin (a / 2) * (Re (geo a n) - 1 / 2) = sin (real n * a - a / 2)"
    using geo_half[of a n] by (simp add: algebra_simps)
  then have "2 * \<bar>sin (a / 2)\<bar> * \<bar>Re (geo a n) - 1 / 2\<bar> \<le> 1"
    by (metis abs_mult abs_numeral abs_sin_le_one)
  moreover have "\<bar>Re (geo a n) - 1 / 2\<bar> \<le> c * \<bar>sin (a / 2)\<bar> * \<bar>Re (geo a n) - 1 / 2\<bar>"
    using assms(1) by (intro mult_le_cancel_right1[THEN iffD2]) auto
  moreover have "c * (2 * \<bar>sin (a / 2)\<bar> * \<bar>Re (geo a n) - 1 / 2\<bar>) \<le> c * 1"
    using calculation(1) assms(2) by (intro mult_left_mono) auto
  ultimately show ?thesis by (simp add: mult.assoc)
qed

section \<open>The two tones\<close>

lemma sin_bounds:
  assumes "0 \<le> (x::real)"
  shows "sin x \<le> x - x ^ 3 / 6 + x ^ 5 / 120" "x - x ^ 3 / 6 - x ^ 5 / 120 \<le> sin x"
proof -
  have five: "{..<5} = {0, 1, 2, 3, 4 :: nat}" by auto
  have fact: "fact 3 = (6 :: real)" "fact 5 = (120 :: real)" by (simp_all add: fact_numeral)
  have "(\<Sum>m<5. sin_coeff m * x ^ m) = x - x ^ 3 / 6"
    unfolding five by (simp add: sin_coeff_def fact)
  moreover have "inverse (fact 5) * \<bar>x\<bar> ^ 5 = x ^ 5 / 120"
    using assms unfolding fact by simp
  ultimately have "\<bar>sin x - (x - x ^ 3 / 6)\<bar> \<le> x ^ 5 / 120"
    using Maclaurin_sin_bound[of x 5] by (simp only:)
  then show "sin x \<le> x - x ^ 3 / 6 + x ^ 5 / 120" "x - x ^ 3 / 6 - x ^ 5 / 120 \<le> sin x"
    by linarith+
qed

lemma pi_ge: "31 / 10 \<le> pi"
proof (rule ccontr)
  assume "\<not> 31 / 10 \<le> pi"
  then have "sin (pi / 6) \<le> sin (31 / 60)"
    using pi_ge_two by (intro sin_monotone_2pi_le) auto
  moreover have "sin (31 / 60) < (1 / 2 :: real)"
    using sin_bounds(1)[of "31 / 60"] by (simp add: power_numeral_reduce)
  ultimately show False by (simp add: sin_30)
qed

lemma sin_fraction:
  assumes "0 \<le> c" "c \<le> 1 / 2"
  shows "c * (31 / 10) - (c * (31 / 10)) ^ 3 / 6 - (c * (31 / 10)) ^ 5 / 120 \<le> sin (c * pi)"
proof -
  have "c * (31 / 10) \<le> c * pi" using assms(1) pi_ge by (rule mult_left_mono[rotated])
  moreover have "c * pi \<le> 1 / 2 * pi" by (rule mult_right_mono[OF assms(2)]) simp
  moreover have "0 \<le> c * (31 / 10)" using assms by simp
  moreover have "- (pi / 2) \<le> 0" by simp
  ultimately have "sin (c * (31 / 10)) \<le> sin (c * pi)"
    by (intro sin_monotone_2pi_le) linarith+
  moreover have "c * (31 / 10) - (c * (31 / 10)) ^ 3 / 6 - (c * (31 / 10)) ^ 5 / 120 \<le> sin (c * (31 / 10))"
    by (rule sin_bounds(2)) (rule \<open>0 \<le> c * (31 / 10)\<close>)
  ultimately show ?thesis by linarith
qed

lemma phase_incs:
  "phase_inc FREQ_MARK = 2 / 21 * pi" "phase_inc FREQ_SPACE = 8 / 147 * pi"
  by (simp_all add: phase_inc_def FREQ_MARK_def FREQ_SPACE_def SAMPLE_RATE_def)

lemma sine_facts:
  "1 \<le> 317 / 20 * sin (1 / 49 * pi)" "1 \<le> 109 / 25 * sin (11 / 147 * pi)"
  "1 \<le> 597 / 100 * sin (8 / 147 * pi)" "1 \<le> 69 / 20 * sin (2 / 21 * pi)"
  using sin_fraction[of "1 / 49"] sin_fraction[of "11 / 147"] sin_fraction[of "8 / 147"] sin_fraction[of "2 / 21"]
  by (simp_all add: power_numeral_reduce)

definition other :: "nat \<Rightarrow> nat" where
  "other f = (if f = FREQ_MARK then FREQ_SPACE else FREQ_MARK)"

definition own_leak :: "nat \<Rightarrow> real" where
  "own_leak f = (if f = FREQ_MARK then 69 / 20 else 597 / 100)"

lemma leak_facts:
  assumes "f \<in> {FREQ_MARK, FREQ_SPACE}"
  shows "1 \<le> own_leak f * \<bar>sin (- (phase_inc f + phase_inc f) / 2)\<bar>"
    "1 \<le> 317 / 20 * \<bar>sin ((phase_inc (other f) - phase_inc f) / 2)\<bar>"
    "1 \<le> 317 / 20 * \<bar>sin ((phase_inc f - phase_inc (other f)) / 2)\<bar>"
    "1 \<le> 109 / 25 * \<bar>sin (- (phase_inc (other f) + phase_inc f) / 2)\<bar>"
proof -
  have ne: "FREQ_MARK \<noteq> FREQ_SPACE" by (simp add: FREQ_MARK_def FREQ_SPACE_def)
  have d: "(2 / 21 * pi - 8 / 147 * pi) / 2 = 1 / 49 * pi" "(8 / 147 * pi - 2 / 21 * pi) / 2 = - (1 / 49 * pi)"
    "- (8 / 147 * pi + 2 / 21 * pi) / 2 = - (11 / 147 * pi)" "- (2 / 21 * pi + 8 / 147 * pi) / 2 = - (11 / 147 * pi)"
    "- (2 / 21 * pi + 2 / 21 * pi) / 2 = - (2 / 21 * pi)" "- (8 / 147 * pi + 8 / 147 * pi) / 2 = - (8 / 147 * pi)"
    by simp_all
  have s: "1 \<le> 317 / 20 * \<bar>sin (1 / 49 * pi)\<bar>" "1 \<le> 109 / 25 * \<bar>sin (11 / 147 * pi)\<bar>"
    "1 \<le> 597 / 100 * \<bar>sin (8 / 147 * pi)\<bar>" "1 \<le> 69 / 20 * \<bar>sin (2 / 21 * pi)\<bar>"
    using sine_facts by linarith+
  show "1 \<le> own_leak f * \<bar>sin (- (phase_inc f + phase_inc f) / 2)\<bar>"
    using assms s(3,4) ne by (auto simp only: own_leak_def phase_incs d sin_minus abs_minus_cancel split: if_splits)
  show "1 \<le> 317 / 20 * \<bar>sin ((phase_inc (other f) - phase_inc f) / 2)\<bar>"
    "1 \<le> 317 / 20 * \<bar>sin ((phase_inc f - phase_inc (other f)) / 2)\<bar>"
    "1 \<le> 109 / 25 * \<bar>sin (- (phase_inc (other f) + phase_inc f) / 2)\<bar>"
    using assms s(1,2) ne
    by (auto simp only: other_def phase_incs d sin_minus abs_minus_cancel split: if_splits)
qed

section \<open>What the detector measures in a window of two tones\<close>

definition level :: "int list \<Rightarrow> nat \<Rightarrow> real" where
  "level xs f = norm (dft xs f) * (2 / 32767)"

lemma magnitude_level: "goertzel_magnitude xs f = (level xs f * (32767 / 2))\<^sup>2"
  by (simp add: goertzel_dft level_def)

lemma level_nonneg [simp]: "0 \<le> level xs f"
  by (simp add: level_def)

definition tone :: "nat \<Rightarrow> nat \<Rightarrow> real \<Rightarrow> nat \<Rightarrow> complex" where
  "tone n g ph f = 2 * \<i> * rdft (wave (replicate n g) ph) f"

lemma level_wave:
  assumes "list_all2 near xs (wave fs ph)"
  shows "\<bar>level xs f - norm (2 * \<i> * rdft (wave fs ph) f)\<bar> \<le> real (length fs) * (2 / 32767)"
proof -
  have "\<bar>norm (dft xs f) - norm (32767 * rdft (wave fs ph) f)\<bar> \<le> real (length fs)"
    using dft_near[OF assms, of f] list_all2_lengthD[OF assms]
    by (intro order_trans[OF norm_triangle_ineq3]) simp
  then have "\<bar>norm (dft xs f) - 32767 * norm (rdft (wave fs ph) f)\<bar> * (2 / 32767) \<le> real (length fs) * (2 / 32767)"
    by (intro mult_right_mono) (simp_all add: norm_mult)
  moreover have "level xs f - norm (2 * \<i> * rdft (wave fs ph) f) =
      (norm (dft xs f) - 32767 * norm (rdft (wave fs ph) f)) * (2 / 32767)"
    by (simp add: level_def norm_mult left_diff_distrib)
  ultimately show ?thesis by (simp only: abs_mult)
qed

abbreviation both :: "nat set" where
  "both \<equiv> {FREQ_MARK, FREQ_SPACE}"

lemma other_simps [simp]:
  "other FREQ_MARK = FREQ_SPACE" "other FREQ_SPACE = FREQ_MARK"
  "f \<in> both \<Longrightarrow> other (other f) = f" "f \<in> both \<Longrightarrow> other f \<in> both" "FREQ_MARK \<noteq> FREQ_SPACE" "FREQ_SPACE \<noteq> FREQ_MARK"
  by (auto simp: other_def FREQ_MARK_def FREQ_SPACE_def)

lemma in_both: "FREQ_MARK \<in> both" "FREQ_SPACE \<in> both"
  by simp_all

lemma tone_own:
  assumes "f \<in> both"
  shows "norm (tone n f ph f - cis (ph + phase_inc f) * of_nat n) \<le> own_leak f"
proof -
  have "0 < own_leak f" by (simp add: own_leak_def)
  with norm_geo[of "own_leak f" "- (phase_inc f + phase_inc f)" n] leak_facts(1)[OF assms] show ?thesis
    by (simp add: tone_def rdft_tone norm_mult)
qed

lemma tone_other:
  assumes "f \<in> both"
  shows "norm (tone n (other f) ph f -
    cis (ph + phase_inc (other f)) * geo (phase_inc (other f) - phase_inc f) n) \<le> 109 / 25"
  using norm_geo[of "109 / 25" "- (phase_inc (other f) + phase_inc f)" n] leak_facts(4)[OF assms]
  by (simp add: tone_def rdft_tone norm_mult)

lemma norm_tone_other:
  assumes "f \<in> both"
  shows "norm (tone n (other f) ph f) \<le> 317 / 20 + 109 / 25"
proof -
  have "norm (cis (ph + phase_inc (other f)) * geo (phase_inc (other f) - phase_inc f) n) \<le> 317 / 20"
    using norm_geo[of "317 / 20" "phase_inc (other f) - phase_inc f" n] leak_facts(2)[OF assms]
    by (simp add: norm_mult)
  with tone_other[OF assms, of n ph] show ?thesis
    by (smt (verit) norm_triangle_sub)
qed

lemma norm_tone_own:
  assumes "f \<in> both"
  shows "\<bar>norm (tone n f ph f) - real n\<bar> \<le> own_leak f"
proof -
  have "norm (cis (ph + phase_inc f) * of_nat n :: complex) = real n" by (simp add: norm_mult)
  with tone_own[OF assms, of n ph] show ?thesis
    using norm_triangle_ineq3[of "tone n f ph f" "cis (ph + phase_inc f) * of_nat n"] by linarith
qed

lemma cis_cis: "cis x * (cis y * z) = cis (x + y) * z"
  by (simp add: cis_mult mult.assoc[symmetric])

lemma turn_cis: "turn f ^ n * (cis x * z) = cis (x - real n * phase_inc f) * z"
  by (simp add: turn_def Complex.DeMoivre cis_cis)

lemma two_tones:
  "2 * \<i> * rdft (wave (replicate a g @ replicate b h) ph) f =
     tone a g ph f + turn f ^ a * tone b h (ph + real a * phase_inc g) f"
  by (simp add: tone_def wave_append rdft_append sum_list_replicate algebra_simps)

definition leak :: "nat \<Rightarrow> real" where
  "leak f = own_leak f + 317 / 20 + 109 / 25"

lemma window_level:
  assumes "is_wave (replicate a g @ replicate b (other g)) xs" "g \<in> both"
  shows "\<bar>level xs g - real a\<bar> \<le> leak g + real (a + b) * (2 / 32767)"
    "\<bar>level xs (other g) - real b\<bar> \<le> leak (other g) + real (a + b) * (2 / 32767)"
proof -
  let ?fs = "replicate a g @ replicate b (other g)"
  obtain ph where ph: "list_all2 near xs (wave ?fs ph)" using assms(1) by (auto simp: is_wave_def)
  have o: "other g \<in> both" "other (other g) = g" using assms(2) by auto
  let ?p = "ph + real a * phase_inc g"
  have tri: "\<bar>norm (x + turn f ^ n * y) - norm x\<bar> \<le> norm y" "\<bar>norm (x + turn f ^ n * y) - norm y\<bar> \<le> norm x" for x y f n
    using norm_triangle_ineq3[of "x + turn f ^ n * y" x] norm_triangle_ineq3[of "x + turn f ^ n * y" "turn f ^ n * y"]
    by (simp_all add: norm_mult norm_power)
  show "\<bar>level xs g - real a\<bar> \<le> leak g + real (a + b) * (2 / 32767)"
    using level_wave[OF ph, of g] tri(1)[of "tone a g ph g" g a "tone b (other g) ?p g"]
      norm_tone_own[OF assms(2), of a ph] norm_tone_other[OF assms(2), of b ?p]
    unfolding two_tones leak_def length_append length_replicate by linarith
  show "\<bar>level xs (other g) - real b\<bar> \<le> leak (other g) + real (a + b) * (2 / 32767)"
    using level_wave[OF ph, of "other g"] tri(2)[of "tone a g ph (other g)" "other g" a "tone b (other g) ?p (other g)"]
      norm_tone_own[OF o(1), of b ?p] norm_tone_other[OF o(1), of a ph]
    unfolding two_tones leak_def o(2) length_append length_replicate by linarith
qed

lemma geo_reverse: "cis d * geo d n = cis (d * real n) * geo (- d) n"
proof (induction n)
  case (Suc n)
  have "cis d * geo d (Suc n) = cis d + cis d * (cis (d * real n) * geo (- d) n)"
    by (simp add: geo_first distrib_left Suc)
  also have "\<dots> = cis (d * real (Suc n)) * (geo (- d) n + cis (- d * real n))"
    by (simp add: distrib_left cis_cis cis_mult)
  finally show ?case by (simp only: geo_last)
qed simp

text \<open>The two tones of a window join in phase, so most of the leak is at a right angle to the tone
  itself.\<close>

lemma joined_first:
  assumes "f \<in> both"
  obtains L where "\<bar>Re L + 1 / 2\<bar> \<le> 317 / 40"
    "\<bar>norm (2 * \<i> * rdft (wave (replicate a f @ replicate b (other f)) ph) f) - norm (of_nat a + L)\<bar> \<le> own_leak f + 109 / 25"
proof
  let ?f = "phase_inc f" and ?o = "phase_inc (other f)" and ?p = "ph + real a * phase_inc f"
  let ?d = "?o - ?f"
  let ?L = "geo ?d (Suc b) - 1"
  show "\<bar>Re ?L + 1 / 2\<bar> \<le> 317 / 40"
    using Re_geo[of "317 / 20" ?d "Suc b"] leak_facts(2)[OF assms] by (simp add: algebra_simps)
  have "turn f ^ a * (cis (?p + ?o) * geo ?d b) = cis (ph + ?f) * (cis ?d * geo ?d b)"
    by (simp only: turn_cis cis_cis) (simp add: algebra_simps)
  then have main: "cis (ph + ?f) * (of_nat a + ?L) = cis (ph + ?f) * of_nat a + turn f ^ a * (cis (?p + ?o) * geo ?d b)"
    by (simp only: geo_first distrib_left add_diff_cancel_left')
  have "norm (2 * \<i> * rdft (wave (replicate a f @ replicate b (other f)) ph) f - cis (ph + ?f) * (of_nat a + ?L)) \<le>
      norm (tone a f ph f - cis (ph + ?f) * of_nat a) + norm (turn f ^ a * (tone b (other f) ?p f - cis (?p + ?o) * geo ?d b))"
    unfolding main two_tones by (rule order_trans[OF eq_refl norm_triangle_ineq]) (simp add: algebra_simps)
  also have "\<dots> \<le> own_leak f + 109 / 25"
    using tone_own[OF assms, of a ph] tone_other[OF assms, of b ?p] by (simp add: norm_mult norm_power)
  finally show "\<bar>norm (2 * \<i> * rdft (wave (replicate a f @ replicate b (other f)) ph) f) - norm (of_nat a + ?L)\<bar> \<le> own_leak f + 109 / 25"
    using norm_triangle_ineq3[of "2 * \<i> * rdft (wave (replicate a f @ replicate b (other f)) ph) f" "cis (ph + ?f) * (of_nat a + ?L)"]
    by (simp add: norm_mult)
qed

lemma joined_second:
  assumes "f \<in> both"
  obtains L where "\<bar>Re L - 1 / 2\<bar> \<le> 317 / 40" "norm L \<le> 317 / 20"
    "\<bar>norm (2 * \<i> * rdft (wave (replicate a (other f) @ replicate b f) ph) f) - norm (of_nat b + L)\<bar> \<le> own_leak f + 109 / 25"
proof
  let ?f = "phase_inc f" and ?o = "phase_inc (other f)" and ?p = "ph + real a * phase_inc (other f)"
  let ?d = "?o - ?f"
  let ?L = "geo (- ?d) a" and ?u = "cis (ph + ?f) * cis (?d * real a)"
  show "\<bar>Re ?L - 1 / 2\<bar> \<le> 317 / 40" "norm ?L \<le> 317 / 20"
    using Re_geo[of "317 / 20" "- ?d" a] norm_geo[of "317 / 20" "- ?d" a] leak_facts(3)[OF assms] by simp_all
  have "cis (ph + ?o) * geo ?d a = cis (ph + ?f) * (cis ?d * geo ?d a)"
    by (simp add: cis_cis)
  then have "cis (ph + ?o) * geo ?d a = ?u * ?L" by (simp only: geo_reverse mult.assoc)
  moreover have "turn f ^ a * (cis (?p + ?f) * of_nat b) = ?u * of_nat b"
    by (simp only: turn_cis cis_mult) (simp add: algebra_simps)
  ultimately have main: "?u * (of_nat b + ?L) = cis (ph + ?o) * geo ?d a + turn f ^ a * (cis (?p + ?f) * of_nat b)"
    by (simp only: distrib_left add.commute)
  have "norm (2 * \<i> * rdft (wave (replicate a (other f) @ replicate b f) ph) f - ?u * (of_nat b + ?L)) \<le>
      norm (tone a (other f) ph f - cis (ph + ?o) * geo ?d a) + norm (turn f ^ a * (tone b f ?p f - cis (?p + ?f) * of_nat b))"
    unfolding main two_tones by (rule order_trans[OF eq_refl norm_triangle_ineq]) (simp add: algebra_simps)
  also have "\<dots> \<le> own_leak f + 109 / 25"
    using tone_own[OF assms, of b ?p] tone_other[OF assms, of a ph] by (simp add: norm_mult norm_power)
  finally show "\<bar>norm (2 * \<i> * rdft (wave (replicate a (other f) @ replicate b f) ph) f) - norm (of_nat b + ?L)\<bar> \<le> own_leak f + 109 / 25"
    using norm_triangle_ineq3[of "2 * \<i> * rdft (wave (replicate a (other f) @ replicate b f) ph) f" "?u * (of_nat b + ?L)"]
    by (simp add: norm_mult)
qed


section \<open>What the demodulator decides\<close>

lemma start_bit_levels:
  "start_bit_seen xs \<Longrightarrow> 14142 / 10000 * level xs FREQ_MARK < level xs FREQ_SPACE"
  "\<not> start_bit_seen xs \<Longrightarrow> level xs FREQ_SPACE \<le> 1 \<or> level xs FREQ_SPACE \<le> 14143 / 10000 * level xs FREQ_MARK"
proof -
  let ?s = "level xs FREQ_SPACE" and ?m = "level xs FREQ_MARK" and ?c = "32767 / 2 :: real"
  have root2: "(14142 / 10000)\<^sup>2 \<le> (2::real)" "2 \<le> (14143 / 10000 :: real)\<^sup>2"
    by (simp_all add: power2_eq_square)
  have sq: "(?s * ?c)\<^sup>2 > (?m * ?c)\<^sup>2 * 2 \<longleftrightarrow> ?m\<^sup>2 * 2 < ?s\<^sup>2"
  proof -
    have cancel: "x * k * 2 < y * k \<longleftrightarrow> x * 2 < y" if "0 < k" for x y k :: real
      using mult_less_cancel_right_pos[OF that, of "x * 2" y] by (simp add: mult.commute mult.left_commute mult.assoc)
    show ?thesis unfolding power_mult_distrib by (rule cancel) simp
  qed
  {
    assume "start_bit_seen xs"
    then have less: "2 * ?m\<^sup>2 < ?s\<^sup>2" unfolding start_bit_seen_def magnitude_level sq by simp
    have "(14142 / 10000 * ?m)\<^sup>2 = (14142 / 10000)\<^sup>2 * ?m\<^sup>2" by (rule power_mult_distrib)
    also have "\<dots> \<le> 2 * ?m\<^sup>2" by (rule mult_right_mono[OF root2(1)]) simp
    also note less
    finally show "14142 / 10000 * ?m < ?s" by (rule power_less_imp_less_base) simp
  next
    assume "\<not> start_bit_seen xs"
    then consider "(?s * ?c)\<^sup>2 \<le> 2 * 10 ^ 8" | "?s\<^sup>2 \<le> ?m\<^sup>2 * 2"
      unfolding start_bit_seen_def magnitude_level sq by linarith
    then show "?s \<le> 1 \<or> ?s \<le> 14143 / 10000 * ?m"
    proof cases
      case 1
      have "2 * 10 ^ 8 \<le> 1\<^sup>2 * ?c\<^sup>2" by (simp add: power2_eq_square)
      from order_trans[OF 1 this] have "?s\<^sup>2 * ?c\<^sup>2 \<le> 1\<^sup>2 * ?c\<^sup>2" unfolding power_mult_distrib .
      then have "?s\<^sup>2 \<le> 1\<^sup>2" 
        by (rule mult_right_le_imp_le[of _ "?c\<^sup>2"]) (rule zero_less_power, simp)
      then have "?s \<le> 1" by (rule power2_le_imp_le) simp
      then show ?thesis ..
    next
      case 2
      then have "?s\<^sup>2 \<le> 2 * ?m\<^sup>2" by simp
      also have "\<dots> \<le> (14143 / 10000)\<^sup>2 * ?m\<^sup>2" by (rule mult_right_mono[OF root2(2)]) simp
      also have "\<dots> = (14143 / 10000 * ?m)\<^sup>2" by (rule power_mult_distrib[symmetric])
      finally have "?s \<le> 14143 / 10000 * ?m" by (rule power2_le_imp_le) simp
      then show ?thesis ..
    qed
  }
qed

lemma bit_seen_levels: "bit_seen xs \<longleftrightarrow> level xs FREQ_SPACE < level xs FREQ_MARK"
proof -
  have "bit_seen xs \<longleftrightarrow> (level xs FREQ_SPACE * (32767 / 2))\<^sup>2 < (level xs FREQ_MARK * (32767 / 2))\<^sup>2"
    by (simp add: bit_seen_def magnitude_level)
  also have "\<dots> \<longleftrightarrow> level xs FREQ_SPACE < level xs FREQ_MARK"
    by (auto intro: power_strict_mono dest!: power_less_imp_less_base)
  finally show ?thesis .
qed

text \<open>A data window with at most 158 samples of a neighbouring bit.\<close>

lemma bit_seen_window:
  assumes "is_wave (replicate a g @ replicate b h) xs" "g \<in> both" "h \<in> both" "a + b = samples_per_bit"
  shows "a \<le> 158 \<Longrightarrow> bit_seen xs \<longleftrightarrow> h = FREQ_MARK" "b \<le> 158 \<Longrightarrow> bit_seen xs \<longleftrightarrow> g = FREQ_MARK"
proof -
  have n: "a + b = 441" using assms(4) by (simp add: samples_per_bit_def SAMPLE_RATE_def BAUD_RATE_def)
  have l: "leak FREQ_MARK \<le> 27" "leak FREQ_SPACE \<le> 27" by (simp_all add: leak_def own_leak_def)
  have pure: "bit_seen xs \<longleftrightarrow> g = FREQ_MARK" if "h = g"
  proof -
    have "is_wave (replicate 441 g @ replicate 0 (other g)) xs"
      using assms(1) n unfolding that by (simp flip: replicate_add)
    from window_level[OF this assms(2)] l assms(2) show ?thesis
      by (auto simp: bit_seen_levels)
  qed
  have mixed: "(a \<le> 158 \<longrightarrow> (bit_seen xs \<longleftrightarrow> h = FREQ_MARK)) \<and> (b \<le> 158 \<longrightarrow> (bit_seen xs \<longleftrightarrow> g = FREQ_MARK))" if "h \<noteq> g"
  proof -
    have h: "h = other g" using that assms(2,3) by auto
    have "real a + real b = 441" using n by linarith
    with window_level[OF assms(1)[unfolded h] assms(2)] l assms(2) show ?thesis
      unfolding h by (auto simp: bit_seen_levels)
  qed
  show "a \<le> 158 \<Longrightarrow> bit_seen xs \<longleftrightarrow> h = FREQ_MARK" "b \<le> 158 \<Longrightarrow> bit_seen xs \<longleftrightarrow> g = FREQ_MARK"
    using pure mixed by (cases "h = g"; simp)+
qed

lemma check_size_val: "check_size = 220" and samples_per_bit_val: "samples_per_bit = 441"
  by (simp_all add: check_size_def samples_per_bit_def SAMPLE_RATE_def BAUD_RATE_def)

lemma start_window_levels:
  assumes "a + b = 220"
  shows "is_wave (replicate a FREQ_MARK @ replicate b FREQ_SPACE) xs \<Longrightarrow>
      \<bar>level xs FREQ_MARK - real a\<bar> \<le> 592 / 25 \<and> \<bar>level xs FREQ_SPACE - real b\<bar> \<le> 131 / 5"
    and "is_wave (replicate b FREQ_SPACE @ replicate a FREQ_MARK) xs \<Longrightarrow>
      \<bar>level xs FREQ_MARK - real a\<bar> \<le> 592 / 25 \<and> \<bar>level xs FREQ_SPACE - real b\<bar> \<le> 131 / 5"
proof -
  have l: "leak FREQ_MARK = 2366 / 100" "leak FREQ_SPACE = 2618 / 100" by (simp_all add: leak_def own_leak_def)
  have n: "real (a + b) * (2 / 32767) \<le> 2 / 100" "real (b + a) * (2 / 32767) \<le> 2 / 100" using assms by (simp_all add: add.commute)
  show "\<bar>level xs FREQ_MARK - real a\<bar> \<le> 592 / 25 \<and> \<bar>level xs FREQ_SPACE - real b\<bar> \<le> 131 / 5"
    if "is_wave (replicate a FREQ_MARK @ replicate b FREQ_SPACE) xs"
    using window_level[where g = FREQ_MARK, unfolded other_simps, OF that in_both(1)] n(1)
    unfolding l by (intro conjI) linarith+
  show "\<bar>level xs FREQ_MARK - real a\<bar> \<le> 592 / 25 \<and> \<bar>level xs FREQ_SPACE - real b\<bar> \<le> 131 / 5"
    if "is_wave (replicate b FREQ_SPACE @ replicate a FREQ_MARK) xs"
    using window_level[where g = FREQ_SPACE, unfolded other_simps, OF that in_both(2)] n(2)
    unfolding l by (intro conjI) linarith+
qed

text \<open>The window in which the start bit begins after \<open>r\<close> samples.\<close>

lemma start_window_missed:
  assumes "is_wave (replicate r FREQ_MARK @ replicate (220 - r) FREQ_SPACE) xs" "\<not> start_bit_seen xs" "r \<le> 220"
  shows "62 \<le> r"
proof -
  have "real (220 - r) = 220 - real r" using assms(3) by simp
  with start_window_levels(1)[OF _ assms(1)] assms(3) start_bit_levels(2)[OF assms(2)]
  have "\<bar>level xs FREQ_MARK - real r\<bar> \<le> 592 / 25" "\<bar>level xs FREQ_SPACE - (220 - real r)\<bar> \<le> 131 / 5"
    "level xs FREQ_SPACE \<le> 1 \<or> level xs FREQ_SPACE \<le> 14143 / 10000 * level xs FREQ_MARK"
    by simp_all
  then have "61 < real r" by (elim disjE) linarith+
  then show ?thesis by linarith
qed

text \<open>It is taken for a start bit only when at most half of it is stop bit; this needs the joined phases.\<close>

lemma start_window_seen:
  assumes "is_wave (replicate r FREQ_MARK @ replicate (220 - r) FREQ_SPACE) xs" "start_bit_seen xs" "r \<le> 220"
  shows "r \<le> 109"
proof (rule ccontr)
  assume "\<not> r \<le> 109"
  then have r: "110 \<le> real r" by simp
  define b where "b = 220 - r"
  have b: "real b = 220 - real r" "r + b = 220" using assms(3) by (simp_all add: b_def)
  let ?fs = "replicate r FREQ_MARK @ replicate b FREQ_SPACE"
  obtain ph where ph: "list_all2 near xs (wave ?fs ph)"
    using assms(1) by (auto simp: is_wave_def b_def)
  have len: "real (length ?fs) * (2 / 32767) \<le> 2 / 100" using b(2) by simp
  have "list_all2 near xs (wave ?fs ph)" by (rule ph)
  note m_lv = level_wave[OF ph, of FREQ_MARK] and s_lv = level_wave[OF ph, of FREQ_SPACE]
  have own: "own_leak FREQ_MARK = 69 / 20" "own_leak FREQ_SPACE = 597 / 100" by (simp_all add: own_leak_def)
  obtain L where L: "\<bar>Re L + 1 / 2\<bar> \<le> 317 / 40"
    "\<bar>norm (2 * \<i> * rdft (wave ?fs ph) FREQ_MARK) - norm (of_nat r + L)\<bar> \<le> own_leak FREQ_MARK + 109 / 25"
    using joined_first[of FREQ_MARK r b ph] by auto
  have "real r + Re L \<le> norm (of_nat r + L)" using complex_Re_le_cmod[of "of_nat r + L"] by simp
  with L m_lv len have m: "real r - 813 / 50 \<le> level xs FREQ_MARK" unfolding own by linarith
  obtain L' where L': "\<bar>Re L' - 1 / 2\<bar> \<le> 317 / 40" "norm L' \<le> 317 / 20"
    "\<bar>norm (2 * \<i> * rdft (wave ?fs ph) FREQ_SPACE) - norm (of_nat b + L')\<bar> \<le> own_leak FREQ_SPACE + 109 / 25"
    using joined_second[of FREQ_SPACE r b ph] by auto
  have crude: "norm (of_nat b + L') \<le> real b + 317 / 20"
    using norm_triangle_ineq[of "of_nat b" L'] L'(2) by simp
  have sharp: "norm (of_nat b + L') \<le> real b + 19 / 2" if "108 \<le> real b"
  proof (rule power2_le_imp_le)
    have "\<bar>Re L'\<bar> \<le> 337 / 40" using L'(1) by linarith
    then have "(Re (of_nat b + L'))\<^sup>2 \<le> (real b + 337 / 40)\<^sup>2"
      by (intro abs_le_square_iff[THEN iffD1]) simp
    moreover have "(Im (of_nat b + L'))\<^sup>2 \<le> (317 / 20)\<^sup>2"
      using abs_Im_le_cmod[of L'] L'(2) by (intro abs_le_square_iff[THEN iffD1]) simp
    moreover have "(real b + 337 / 40)\<^sup>2 + (317 / 20)\<^sup>2 \<le> (real b + 19 / 2)\<^sup>2"
      using that by (simp add: power2_sum power2_eq_square[of "337 / 40"] power2_eq_square[of "317 / 20"] power2_eq_square[of "19 / 2"])
    ultimately show "(norm (of_nat b + L'))\<^sup>2 \<le> (real b + 19 / 2)\<^sup>2"
      unfolding cmod_power2 by linarith
  qed simp
  note s = start_bit_levels(1)[OF assms(2)]
  show False
  proof (cases "108 \<le> real b")
    case True
    with sharp L'(3) s_lv len own(2) m s b(1) r show False by linarith
  next
    case False
    with crude L'(3) s_lv len own(2) m s b(1) r show False by linarith
  qed
qed

text \<open>Its complement: after a start bit read that early, what is left of a last data bit is not taken
  for a start bit.\<close>

lemma rest_not_seen:
  assumes "is_wave (replicate r FREQ_SPACE @ replicate (220 - r) FREQ_MARK) xs" "r \<le> 109"
  shows "\<not> start_bit_seen xs"
proof
  assume "start_bit_seen xs"
  note s = start_bit_levels(1)[OF this]
  define b where "b = 220 - r"
  have b: "real b = 220 - real r" "r + b = 220" using assms(2) by (simp_all add: b_def)
  let ?fs = "replicate r FREQ_SPACE @ replicate b FREQ_MARK"
  obtain ph where ph: "list_all2 near xs (wave ?fs ph)"
    using assms(1) by (auto simp: is_wave_def b_def)
  have len: "real (length ?fs) * (2 / 32767) \<le> 2 / 100" using b(2) by simp
  have own: "own_leak FREQ_MARK = 69 / 20" by (simp add: own_leak_def)
  obtain L where L: "\<bar>Re L - 1 / 2\<bar> \<le> 317 / 40"
    "\<bar>norm (2 * \<i> * rdft (wave ?fs ph) FREQ_MARK) - norm (of_nat b + L)\<bar> \<le> own_leak FREQ_MARK + 109 / 25"
    using joined_second[of FREQ_MARK r b ph] by auto
  have "real b + Re L \<le> norm (of_nat b + L)" using complex_Re_le_cmod[of "of_nat b + L"] by simp
  with L level_wave[OF ph, of FREQ_MARK] len have "real b - 61 / 4 - 1 / 100 \<le> level xs FREQ_MARK"
    unfolding own by linarith
  moreover have "level xs FREQ_SPACE \<le> real r + 131 / 5"
  proof -
    have "b + r = 220" using b(2) by simp
    from start_window_levels(2)[OF this, of xs] assms(1)
    have "\<bar>level xs FREQ_SPACE - real r\<bar> \<le> 131 / 5" unfolding b_def by blast
    then show ?thesis by linarith
  qed
  moreover have "real r \<le> 109" using assms(2) by simp
  ultimately show False using s b(1) by linarith
qed


section \<open>A device that carries the wave\<close>

text \<open>The samples a device without errors has still to give.\<close>

fun flow :: "int list pcm list \<Rightarrow> int list option" where
  "flow [] = Some []"
| "flow (Frames xs # dev) = map_option ((@) xs) (flow dev)"
| "flow (Xrun # dev) = None"
| "flow (PcmError # dev) = None"

lemma audio_record_flow:
  assumes "flow dev = Some xs" "n \<le> length xs"
  shows "\<exists>dev'. audio_record n dev = Some (True, take n xs, dev') \<and> flow dev' = Some (drop n xs)"
  using assms
proof (induction dev arbitrary: n xs)
  case (Cons p dev)
  then obtain ys zs where p: "p = Frames ys" "flow dev = Some zs" "xs = ys @ zs"
    by (cases p) auto
  show ?case
  proof (cases "n < length ys")
    case True
    with p show ?thesis by (cases "n = 0") (auto simp: audio_record_eqs)
  next
    case False
    moreover have "n - length ys \<le> length zs" using Cons.prems p by simp
    from Cons.IH[OF p(2) this] obtain d where "audio_record (n - length ys) dev = Some (True, take (n - length ys) zs, d)"
      "flow d = Some (drop (n - length ys) zs)" by blast
    ultimately show ?thesis using p by (cases "n = 0") (auto simp: audio_record_eqs)
  qed
qed (auto simp: audio_record_eqs)

definition carries :: "int list pcm list \<Rightarrow> nat list \<Rightarrow> bool" where
  "carries dev fs \<longleftrightarrow> (\<exists>xs. flow dev = Some xs \<and> is_wave fs xs)"

lemma audio_record_carries:
  assumes "carries dev (fs @ gs)" "length fs = n"
  obtains xs dev' where "audio_record n dev = Some (True, xs, dev')" "is_wave fs xs" "carries dev' gs"
proof -
  obtain xs where xs: "flow dev = Some xs" "is_wave (fs @ gs) xs" using assms(1) by (auto simp: carries_def)
  with is_wave_length[OF xs(2)] assms(2) have "n \<le> length xs" by simp
  from audio_record_flow[OF xs(1) this] is_wave_append[OF xs(2)] assms(2) that show thesis
    by (auto simp: carries_def)
qed

text \<open>A bit of 441 samples, and the samples of a byte.\<close>

definition bit_wave :: "nat \<Rightarrow> nat list" where
  "bit_wave f = replicate 441 f"

lemma tones_eq: "tones fs = concat (map bit_wave fs)"
  by (simp add: tones_def bit_wave_def[abs_def] samples_per_bit_val)

lemma bit_wave_split: "n \<le> 441 \<Longrightarrow> bit_wave f = replicate n f @ replicate (441 - n) f"
  by (simp add: bit_wave_def flip: replicate_add)

lemma bit_freq_simps [simp]:
  "bit_freq b = FREQ_MARK \<longleftrightarrow> b" "bit_freq True = FREQ_MARK" "bit_freq False = FREQ_SPACE"
  by (auto simp: bit_freq_def)

lemma bit_freq_both: "bit_freq b \<in> both"
  by (simp add: bit_freq_def)

definition set_bits_from :: "u8 \<Rightarrow> nat list \<Rightarrow> u8 \<Rightarrow> u8" where
  "set_bits_from y is b = foldl (\<lambda>y i. if bit b i then y OR push_bit i 1 else y) y is"

text \<open>The windows lie \<open>r\<close> samples before their bits, or \<open>l\<close> samples behind.\<close>

lemma data_bits_early:
  assumes "carries dev (replicate r f @ concat (map (\<lambda>i. bit_wave (bit_freq (bit b i))) is) @ rest)" "f \<in> both" "r \<le> 158"
  shows "\<exists>dev'. data_bits is y dev = Some (Some (set_bits_from y is b), dev') \<and>
    carries dev' (replicate r (if is = [] then f else bit_freq (bit b (last is))) @ rest)"
  using assms(1,2)
proof (induction "is" arbitrary: dev y f)
  case (Cons i "is")
  let ?g = "bit_freq (bit b i)" and ?bits = "concat (map (\<lambda>i. bit_wave (bit_freq (bit b i))) is) @ rest"
  have "carries dev ((replicate r f @ replicate (441 - r) ?g) @ replicate r ?g @ ?bits)"
    using Cons.prems(1) bit_wave_split[of "441 - r" ?g] assms(3) by simp
  then obtain xs d where xs: "audio_record samples_per_bit dev = Some (True, xs, d)"
    "is_wave (replicate r f @ replicate (441 - r) ?g) xs" "carries d (replicate r ?g @ ?bits)"
    by (rule audio_record_carries[where n = samples_per_bit]) (use assms(3) in \<open>simp_all add: samples_per_bit_val\<close>)
  have "bit_seen xs \<longleftrightarrow> bit b i"
    using bit_seen_window(1)[OF xs(2) Cons.prems(2) bit_freq_both] assms(3) by (simp add: samples_per_bit_val)
  with xs Cons.IH[OF xs(3) bit_freq_both, of "if bit b i then y OR push_bit i 1 else y"] show ?case
    by (auto simp: set_bits_from_def)
qed (auto simp: set_bits_from_def)

lemma data_bits_late:
  assumes "carries dev (drop l (concat (map (\<lambda>i. bit_wave (bit_freq (bit b i))) is) @ replicate (441 + m) FREQ_MARK @ rest))"
    "l \<le> 158"
  shows "\<exists>dev'. data_bits is y dev = Some (Some (set_bits_from y is b), dev') \<and>
    carries dev' (replicate (441 - l + m) FREQ_MARK @ rest)"
  using assms(1)
proof (induction "is" arbitrary: dev y)
  case Nil
  have e: "441 + m - l = 441 - l + m" "l - (441 + m) = 0" using assms(2) by simp_all
  have "drop l (replicate (441 + m) FREQ_MARK @ rest) = replicate (441 - l + m) FREQ_MARK @ rest"
    by (simp only: drop_append drop_replicate length_replicate e drop_0)
  with Nil show ?case by (simp add: set_bits_from_def)
next
  case (Cons i "is")
  let ?g = "bit_freq (bit b i)" and ?bits = "concat (map (\<lambda>i. bit_wave (bit_freq (bit b i))) is) @ replicate (441 + m) FREQ_MARK @ rest"
  obtain h where "h \<in> both" "take l ?bits = replicate l h"
  proof (cases "is")
    case Nil
    then show ?thesis using assms(2) by (intro that[OF in_both(1)]) simp
  next
    case (Cons j js)
    then show ?thesis using assms(2) by (intro that[OF bit_freq_both[of "bit b j"]]) (simp add: bit_wave_def)
  qed
  then have h: "h \<in> both" "?bits = replicate l h @ drop l ?bits" by (metis append_take_drop_id)+
  have "drop l (bit_wave ?g @ ?bits) = (replicate (441 - l) ?g @ replicate l h) @ drop l ?bits"
    using assms(2) h(2) by (simp add: bit_wave_def)
  with Cons.prems have "carries dev ((replicate (441 - l) ?g @ replicate l h) @ drop l ?bits)" by simp
  then obtain xs d where xs: "audio_record samples_per_bit dev = Some (True, xs, d)"
    "is_wave (replicate (441 - l) ?g @ replicate l h) xs" "carries d (drop l ?bits)"
    by (rule audio_record_carries[where n = samples_per_bit]) (use assms(2) in \<open>simp_all add: samples_per_bit_val\<close>)
  have "bit_seen xs \<longleftrightarrow> bit b i"
    using bit_seen_window(2)[OF xs(2) bit_freq_both h(1)] assms(2) by (simp add: samples_per_bit_val)
  with xs Cons.IH[OF xs(3), of "if bit b i then y OR push_bit i 1 else y"] show ?case
    by (auto simp: set_bits_from_def)
qed

lemma bit_set_bits_from:
  "n < 8 \<Longrightarrow> bit (set_bits_from y is b) n \<longleftrightarrow> bit y n \<or> n \<in> set is \<and> bit b n"
proof (induction "is" arbitrary: y)
  case (Cons i "is")
  have "set_bits_from y (i # is) b = set_bits_from (if bit b i then y OR push_bit i 1 else y) is b"
    by (simp add: set_bits_from_def)
  with Cons show ?case by (auto simp: bit_simps)
qed (simp add: set_bits_from_def)

lemma set_all_bits: "set_bits_from 0 [0..<8] b = b"
  by (rule bit_word_eqI) (simp add: bit_set_bits_from)


section \<open>A byte, wherever it begins\<close>

definition byte_wave :: "u8 \<Rightarrow> nat list" where
  "byte_wave b = tones (byte_freqs b)"

lemma byte_wave_eq:
  "byte_wave b = bit_wave FREQ_SPACE @ concat (map (\<lambda>i. bit_wave (bit_freq (bit b i))) [0..<8]) @ replicate 4410 FREQ_MARK"
proof -
  have "concat (map bit_wave (replicate n f)) = replicate (441 * n) f" for n f
    by (induction n) (simp_all add: bit_wave_def replicate_add[symmetric])
  then show ?thesis by (simp add: byte_wave_def byte_freqs_def tones_eq comp_def)
qed

lemma wait_start_bit_record:
  assumes "carries dev (fs @ gs)" "length fs = 220"
  obtains xs dev' where "is_wave fs xs" "carries dev' gs"
    "wait_start_bit dev = (if start_bit_seen xs then Some (True, dev') else wait_start_bit dev')"
proof -
  obtain xs d where "audio_record 220 dev = Some (True, xs, d)" "is_wave fs xs" "carries d gs"
    by (rule audio_record_carries[OF assms])
  then show thesis by (intro that) (simp_all add: wait_start_bit.simps[of dev] check_size_val)
qed

text \<open>The rest of the start bit behind the window in which it was noticed.\<close>

lemma wait_start_bit_wave:
  assumes "carries dev (replicate r FREQ_SPACE @ replicate m FREQ_MARK @ bit_wave FREQ_SPACE @ rest)"
    "r \<le> 109" "r = 0 \<or> 220 \<le> r + m"
  shows "\<exists>dev' n. wait_start_bit dev = Some (True, dev') \<and> 63 \<le> n \<and> n \<le> 330 \<and> carries dev' (replicate n FREQ_SPACE @ rest)"
  using assms
proof (induction m arbitrary: r dev rule: less_induct)
  case (less m)
  show ?case
  proof (cases "220 \<le> r + m")
    case True
    let ?k = "220 - r"
    have m: "replicate m FREQ_MARK = replicate ?k FREQ_MARK @ replicate (m - ?k) FREQ_MARK"
      using True less.prems(2) by (subst replicate_add[symmetric]) simp
    have "carries dev ((replicate r FREQ_SPACE @ replicate ?k FREQ_MARK) @ replicate (m - ?k) FREQ_MARK @ bit_wave FREQ_SPACE @ rest)"
      using less.prems(1) m by simp
    then obtain xs d where d: "is_wave (replicate r FREQ_SPACE @ replicate ?k FREQ_MARK) xs"
      "carries d (replicate (m - ?k) FREQ_MARK @ bit_wave FREQ_SPACE @ rest)"
      "wait_start_bit dev = (if start_bit_seen xs then Some (True, d) else wait_start_bit d)"
      by (rule wait_start_bit_record) (use less.prems(2) in simp)
    have "m - ?k < m" using True less.prems(2) by simp
    from less.IH[OF this, of d 0] d rest_not_seen[OF d(1) less.prems(2)] show ?thesis by simp
  next
    case False
    then have r: "r = 0" "m < 220" using less.prems(3) by auto
    have "carries dev ((replicate m FREQ_MARK @ replicate (220 - m) FREQ_SPACE) @ replicate (221 + m) FREQ_SPACE @ rest)"
      using less.prems(1) r bit_wave_split[of "220 - m" FREQ_SPACE] by simp
    then obtain xs d where d: "is_wave (replicate m FREQ_MARK @ replicate (220 - m) FREQ_SPACE) xs"
      "carries d (replicate (221 + m) FREQ_SPACE @ rest)"
      "wait_start_bit dev = (if start_bit_seen xs then Some (True, d) else wait_start_bit d)"
      by (rule wait_start_bit_record) (use r in simp)
    show ?thesis
    proof (cases "start_bit_seen xs")
      case True
      from start_window_seen[OF d(1) True] r have "m \<le> 109" by simp
      with True d show ?thesis by (intro exI[of _ d] exI[of _ "221 + m"]) simp
    next
      case False
      from start_window_missed[OF d(1) False] r have m: "62 \<le> m" by simp
      have e: "221 + m = 220 + (1 + m)" by simp
      have "carries d (replicate 220 FREQ_SPACE @ replicate (1 + m) FREQ_SPACE @ rest)"
        using d(2) unfolding e replicate_add append_assoc .
      then obtain ys e where e: "is_wave (replicate 220 FREQ_SPACE) ys" "carries e (replicate (1 + m) FREQ_SPACE @ rest)"
        "wait_start_bit d = (if start_bit_seen ys then Some (True, e) else wait_start_bit e)"
        by (rule wait_start_bit_record) simp
      have "start_bit_seen ys" using start_window_missed[of 0 ys] e(1) by auto
      with False d(3) e m r show ?thesis by (intro exI[of _ e] exI[of _ "1 + m"]) simp
    qed
  qed
qed

lemma demodulate_byte_wave:
  assumes "carries dev (replicate r FREQ_SPACE @ replicate m FREQ_MARK @ byte_wave b @ rest)"
    "r \<le> 109" "r = 0 \<or> 220 \<le> r + m"
  shows "\<exists>dev' r' m'. demodulate_byte dev = Some (Some b, dev') \<and> r' \<le> 109 \<and> 220 \<le> m' \<and>
    carries dev' (replicate r' FREQ_SPACE @ replicate m' FREQ_MARK @ rest)"
proof -
  let ?bits = "concat (map (\<lambda>i. bit_wave (bit_freq (bit b i))) [0..<8])"
  let ?tl = "?bits @ replicate 4410 FREQ_MARK @ rest"
  obtain d n where d: "wait_start_bit dev = Some (True, d)" "63 \<le> n" "n \<le> 330" "carries d (replicate n FREQ_SPACE @ ?tl)"
    using wait_start_bit_wave[OF _ assms(2,3), of dev ?tl] assms(1) by (auto simp: byte_wave_eq)
  have skip: "samples_per_bit - check_size = 221" by (simp add: samples_per_bit_val check_size_val)
  show ?thesis
  proof (cases "221 \<le> n")
    case True
    have "replicate n FREQ_SPACE = replicate 221 FREQ_SPACE @ replicate (n - 221) FREQ_SPACE"
      using True by (subst replicate_add[symmetric]) simp
    with d(4) have "carries d (replicate 221 FREQ_SPACE @ replicate (n - 221) FREQ_SPACE @ ?tl)" by simp
    then obtain xs e where e: "audio_record 221 d = Some (True, xs, e)" "carries e (replicate (n - 221) FREQ_SPACE @ ?tl)"
      by (rule audio_record_carries) simp_all
    let ?r = "n - 221"
    have "?r \<le> 158" "?r \<le> 109" using d(3) by simp_all
    with data_bits_early[OF e(2) in_both(2), of 0] obtain e' where e': "data_bits [0..<8] 0 e = Some (Some b, e')"
      "carries e' (replicate ?r (bit_freq (bit b 7)) @ replicate 4410 FREQ_MARK @ rest)"
      by (auto simp: set_all_bits)
    have dem: "demodulate_byte dev = Some (Some b, e')" by (simp add: demodulate_byte_def d(1) skip e(1) e'(1))
    show ?thesis
    proof (cases "bit b 7")
      case True
      with e'(2) have "carries e' (replicate 0 FREQ_SPACE @ replicate (?r + 4410) FREQ_MARK @ rest)"
        by (simp add: replicate_add)
      moreover have "220 \<le> ?r + 4410" by simp
      ultimately show ?thesis using dem by (metis le0)
    next
      case False
      with e'(2) have "carries e' (replicate ?r FREQ_SPACE @ replicate 4410 FREQ_MARK @ rest)" by simp
      moreover have "(220::nat) \<le> 4410" by simp
      ultimately show ?thesis using dem \<open>?r \<le> 109\<close> by blast
    qed
  next
    case False
    let ?l = "221 - n"
    have l: "?l \<le> 158" using d(2) by simp
    have "carries d ((replicate n FREQ_SPACE @ take ?l ?tl) @ drop ?l ?tl)"
      using d(4) by (simp only: append_assoc append_take_drop_id)
    moreover have "length (replicate n FREQ_SPACE @ take ?l ?tl) = 221" using False by (simp add: min_def) arith
    ultimately obtain xs e where e: "audio_record 221 d = Some (True, xs, e)" "carries e (drop ?l ?tl)"
      by (rule audio_record_carries)
    have "carries e (drop ?l (?bits @ replicate (441 + 3969) FREQ_MARK @ rest))" using e(2) by simp
    from data_bits_late[OF this l, of 0] obtain e' where e': "data_bits [0..<8] 0 e = Some (Some b, e')"
      "carries e' (replicate 0 FREQ_SPACE @ replicate (441 - ?l + 3969) FREQ_MARK @ rest)"
      by (auto simp: set_all_bits)
    have "demodulate_byte dev = Some (Some b, e')" by (simp add: demodulate_byte_def d(1) skip e(1) e'(1))
    moreover have "220 \<le> 441 - ?l + 3969" by simp
    ultimately show ?thesis using e'(2) by (metis le0)
  qed
qed

lemma receive_bytes_wave:
  assumes "carries dev (replicate r FREQ_SPACE @ replicate m FREQ_MARK @ concat (map byte_wave bs) @ rest)"
    "r \<le> 109" "r = 0 \<or> 220 \<le> r + m"
  shows "\<exists>dev' r' m'. receive_bytes (length bs) dev = Some (bs, True, dev') \<and> r' \<le> 109 \<and> (r' = 0 \<or> 220 \<le> r' + m') \<and>
    carries dev' (replicate r' FREQ_SPACE @ replicate m' FREQ_MARK @ rest)"
  using assms
proof (induction bs arbitrary: dev r m)
  case (Cons b bs)
  from demodulate_byte_wave[of dev r m b "concat (map byte_wave bs) @ rest"] Cons.prems
  obtain d r' m' where d: "demodulate_byte dev = Some (Some b, d)" "r' \<le> 109" "220 \<le> m'"
    "carries d (replicate r' FREQ_SPACE @ replicate m' FREQ_MARK @ concat (map byte_wave bs) @ rest)"
    by auto
  from Cons.IH[OF d(4,2)] d(3) obtain e r2 m2 where "receive_bytes (length bs) d = Some (bs, True, e)" "r2 \<le> 109"
    "r2 = 0 \<or> 220 \<le> r2 + m2" "carries e (replicate r2 FREQ_SPACE @ replicate m2 FREQ_MARK @ rest)" by auto
  with d(1) show ?case by auto
qed auto


section \<open>The client\<close>

lemma sync_loop_wave:
  assumes "carries dev (replicate m FREQ_MARK @ byte_wave sync_hi @ byte_wave sync_lo @ rest)"
  shows "\<exists>dev' r' m'. sync_loop dev = Some dev' \<and> r' \<le> 109 \<and> (r' = 0 \<or> 220 \<le> r' + m') \<and>
    carries dev' (replicate r' FREQ_SPACE @ replicate m' FREQ_MARK @ rest)"
proof -
  from demodulate_byte_wave[of dev 0 m sync_hi "byte_wave sync_lo @ rest"] assms
  obtain d r1 m1 where d: "demodulate_byte dev = Some (Some sync_hi, d)" "r1 \<le> 109" "220 \<le> m1"
    "carries d (replicate r1 FREQ_SPACE @ replicate m1 FREQ_MARK @ byte_wave sync_lo @ rest)" by auto
  from demodulate_byte_wave[OF d(4,2)] d(3)
  obtain e r2 m2 where "demodulate_byte d = Some (Some sync_lo, e)" "r2 \<le> 109" "220 \<le> m2"
    "carries e (replicate r2 FREQ_SPACE @ replicate m2 FREQ_MARK @ rest)" by auto
  note e = this
  have "sync_loop dev = Some e" using d(1) e(1) by (simp add: sync_loop.simps[of dev])
  moreover have "r2 = 0 \<or> 220 \<le> r2 + m2" using e(3) by simp
  ultimately show ?thesis using e(2,4) by blast
qed

lemma dft_zeros: "dft (replicate n 0) f = 0"
  by (simp add: dft_def)

lemma preamble_seen:
  assumes "is_wave (replicate 4410 FREQ_MARK) xs"
  shows "10 ^ 12 < goertzel_magnitude xs FREQ_PREAMBLE"
proof -
  have "is_wave (replicate 4410 FREQ_MARK @ replicate 0 (other FREQ_MARK)) xs" using assms by simp
  from window_level(1)[OF this in_both(1)] have "\<bar>level xs FREQ_MARK - 4410\<bar> \<le> 30"
    by (simp add: leak_def own_leak_def)
  then have "4380 \<le> level xs FREQ_MARK" by linarith
  then have "(10 ^ 6 :: real) < level xs FREQ_MARK * (32767 / 2)" by simp
  then have "((10 ^ 6 :: real))\<^sup>2 < (level xs FREQ_MARK * (32767 / 2))\<^sup>2"
    by (rule power_strict_mono) simp_all
  then show ?thesis unfolding FREQ_PREAMBLE_def magnitude_level by simp
qed

lemma wait_for_preamble_step:
  assumes "flow dev = Some (xs @ ys)" "length xs = 4410"
  obtains d where "flow d = Some ys"
    "wait_for_preamble dev = (if goertzel_magnitude xs FREQ_PREAMBLE > 10 ^ 12 then Some (True, d) else wait_for_preamble d)"
proof -
  have n: "SAMPLE_RATE div 10 = 4410" by (simp add: SAMPLE_RATE_def)
  from audio_record_flow[OF assms(1), of 4410] assms(2)
  obtain d where "audio_record 4410 dev = Some (True, xs, d)" "flow d = Some ys" by auto
  then show thesis by (intro that) (simp_all add: wait_for_preamble.simps[of dev] n)
qed

text \<open>Silence of any length, then the preamble.\<close>

lemma wait_for_preamble_wave:
  assumes "flow dev = Some (replicate z 0 @ xs)" "is_wave (replicate m FREQ_MARK @ rest) xs" "8820 \<le> m"
  shows "\<exists>dev' m'. wait_for_preamble dev = Some (True, dev') \<and> carries dev' (replicate m' FREQ_MARK @ rest)"
  using assms(1)
proof (induction z arbitrary: dev rule: less_induct)
  case (less z)
  show ?case
  proof (cases "4410 \<le> z")
    case True
    have "replicate z (0::int) = replicate 4410 0 @ replicate (z - 4410) 0"
      using True by (subst replicate_add[symmetric]) simp
    then have "flow dev = Some (replicate 4410 0 @ replicate (z - 4410) 0 @ xs)" using less.prems by simp
    then obtain d where d: "flow d = Some (replicate (z - 4410) 0 @ xs)"
      "wait_for_preamble dev = (if goertzel_magnitude (replicate 4410 0) FREQ_PREAMBLE > 10 ^ 12 then Some (True, d) else wait_for_preamble d)"
      by (rule wait_for_preamble_step) simp
    have "wait_for_preamble dev = wait_for_preamble d" using d(2) by (simp add: goertzel_dft dft_zeros)
    moreover have "z - 4410 < z" using True by simp
    ultimately show ?thesis using less.IH[OF _ d(1)] by simp
  next
    case False
    define k where "k = 4410 - z"
    have k: "k \<le> 4410" "z + k = 4410" using False by (simp_all add: k_def)
    have split: "replicate m FREQ_MARK = replicate k FREQ_MARK @ replicate 4410 FREQ_MARK @ replicate (m - k - 4410) FREQ_MARK"
    proof -
      have "m = k + (4410 + (m - k - 4410))" using k(1) assms(3) by simp
      then show ?thesis by (metis replicate_add)
    qed
    let ?x1 = "take k xs" and ?x2 = "take 4410 (drop k xs)" and ?x3 = "drop 4410 (drop k xs)"
    have w: "is_wave (replicate k FREQ_MARK @ replicate 4410 FREQ_MARK @ replicate (m - k - 4410) FREQ_MARK @ rest) xs"
      using assms(2) unfolding split by simp
    from is_wave_append(2)[OF w]
    have w2: "is_wave (replicate 4410 FREQ_MARK @ replicate (m - k - 4410) FREQ_MARK @ rest) (drop k xs)" by simp
    from is_wave_append[OF w2]
    have w3: "is_wave (replicate 4410 FREQ_MARK) ?x2" "is_wave (replicate (m - k - 4410) FREQ_MARK @ rest) ?x3" by simp_all
    have len: "length ?x1 = k" "length ?x2 = 4410"
      using is_wave_length[OF w] is_wave_length[OF w3(1)] by simp_all
    have "flow dev = Some ((replicate z 0 @ ?x1) @ drop k xs)" using less.prems by simp
    then obtain d where d: "flow d = Some (drop k xs)"
      "wait_for_preamble dev = (if goertzel_magnitude (replicate z 0 @ ?x1) FREQ_PREAMBLE > 10 ^ 12 then Some (True, d) else wait_for_preamble d)"
      by (rule wait_for_preamble_step) (use len(1) k(2) in simp)
    have "flow d = Some (?x2 @ ?x3)" using d(1) by (simp only: append_take_drop_id)
    then obtain e where e: "flow e = Some ?x3"
      "wait_for_preamble d = (if goertzel_magnitude ?x2 FREQ_PREAMBLE > 10 ^ 12 then Some (True, e) else wait_for_preamble e)"
      by (rule wait_for_preamble_step) (rule len(2))
    have "carries d (replicate (4410 + (m - k - 4410)) FREQ_MARK @ rest)"
      using d(1) w2 by (auto simp only: carries_def replicate_add append_assoc)
    moreover have "carries e (replicate (m - k - 4410) FREQ_MARK @ rest)"
      using e(1) w3(2) by (auto simp: carries_def)
    moreover have "wait_for_preamble d = Some (True, e)" using e(2) preamble_seen[OF w3(1)] by simp
    ultimately show ?thesis using d(2) by (auto split: if_splits)
  qed
qed

lemma size_bytes_roundtrip: "size_of_bytes (size_bytes n) = n"
proof (rule bit_word_eqI)
  fix i assume i: "i < LENGTH(32)"
  let ?b = "\<lambda>k. ucast (drop_bit k n AND 0xFF) :: u8"
  have bytes: "size_bytes n = [?b 24, ?b 16, ?b 8, ?b 0]" by (simp add: size_bytes_def upt_conv_Cons)
  have b: "bit (ucast (?b k) :: u32) j \<longleftrightarrow> j < 8 \<and> bit n (k + j)" for k j
  proof -
    have "bit (0xFF :: u32) j \<longleftrightarrow> j < 8" if "j < 32" for j
      using that bit_mask_iff[of 8 j, where 'a = "32 word"] by (simp add: mask_eq_exp_minus_1)
    then show ?thesis by (auto simp: bit_simps)
  qed
  have "bit (size_of_bytes (size_bytes n)) i \<longleftrightarrow>
      24 \<le> i \<and> i - 24 < 8 \<and> bit n i \<or> 16 \<le> i \<and> i - 16 < 8 \<and> bit n i \<or> 8 \<le> i \<and> i - 8 < 8 \<and> bit n i \<or> i < 8 \<and> bit n i"
    unfolding bytes size_of_bytes_def foldl.simps push_bit_or push_bit_push_bit bit_or_iff bit_push_bit_iff b
    using i by auto
  also have "\<dots> \<longleftrightarrow> bit n i" using i by (cases "bit n i") auto
  finally show "bit (size_of_bytes (size_bytes n)) i = bit n i" .
qed

text \<open>The frequencies of all samples the server plays.\<close>

definition signal :: "u8 list \<Rightarrow> nat list" where
  "signal content = replicate 220500 FREQ_MARK @
     concat (map byte_wave ([sync_hi, sync_lo] @ size_bytes (of_nat (length content)) @ content))"

lemma client_mode_wave:
  assumes "flow inp = Some (replicate z 0 @ drop j xs)" "is_wave (signal content) xs" "j \<le> 211680" "length content < 2 ^ 32"
  shows "\<exists>dev. client_mode True True inp = Some (Some content, dev)"
proof -
  let ?size = "size_bytes (of_nat (length content))"
  let ?rest = "concat (map byte_wave ?size) @ concat (map byte_wave content)"
  have "replicate 220500 FREQ_MARK = replicate j FREQ_MARK @ replicate (220500 - j) FREQ_MARK"
    using assms(3) by (subst replicate_add[symmetric]) simp
  then have "signal content = replicate j FREQ_MARK @ replicate (220500 - j) FREQ_MARK @ byte_wave sync_hi @ byte_wave sync_lo @ ?rest"
    by (simp only: signal_def append_assoc map_append concat_append list.map concat.simps append_Nil2)
  with is_wave_append(2)[of "replicate j FREQ_MARK"] assms(2)
  have w: "is_wave (replicate (220500 - j) FREQ_MARK @ byte_wave sync_hi @ byte_wave sync_lo @ ?rest) (drop j xs)" by simp
  have "8820 \<le> 220500 - j" using assms(3) by simp
  from wait_for_preamble_wave[OF assms(1) w this] obtain d1 m where d1: "wait_for_preamble inp = Some (True, d1)"
    "carries d1 (replicate m FREQ_MARK @ byte_wave sync_hi @ byte_wave sync_lo @ ?rest)" by auto
  from sync_loop_wave[OF d1(2)] obtain d2 r2 m2 where d2: "sync_loop d1 = Some d2" "r2 \<le> 109" "r2 = 0 \<or> 220 \<le> r2 + m2"
    "carries d2 (replicate r2 FREQ_SPACE @ replicate m2 FREQ_MARK @ ?rest)" by auto
  from receive_bytes_wave[OF d2(4,2,3)] obtain d3 r3 m3 where d3: "receive_bytes 4 d2 = Some (?size, True, d3)"
    "r3 \<le> 109" "r3 = 0 \<or> 220 \<le> r3 + m3" "carries d3 (replicate r3 FREQ_SPACE @ replicate m3 FREQ_MARK @ concat (map byte_wave content) @ [])"
    by (auto simp: size_bytes_def)
  from receive_bytes_wave[OF d3(4,2,3)] obtain d4 where d4: "receive_bytes (length content) d3 = Some (content, True, d4)" by auto
  have "unat (size_of_bytes ?size) = length content"
    using assms(4) by (simp add: size_bytes_roundtrip unat_of_nat)
  with d1(1) d2(1) d3(1) d4 show ?thesis by (simp add: client_mode_def)
qed


section \<open>The server\<close>

text \<open>A playback device without errors, and how many of its calls take a frame or more.\<close>

definition faultless :: "'a pcm list \<Rightarrow> bool" where
  "faultless dev \<longleftrightarrow> PcmError \<notin> set dev"

fun calls :: "nat pcm list \<Rightarrow> nat" where
  "calls [] = 0"
| "calls (Frames k # dev) = (if k = 0 then 0 else 1) + calls dev"
| "calls (p # dev) = calls dev"

lemma faultless_Cons [simp]: "faultless (p # dev) \<longleftrightarrow> p \<noteq> PcmError \<and> faultless dev"
  by (auto simp: faultless_def)

lemma audio_play_eqs:
  "audio_play [] dev = Some (True, [], dev)"
  "buf \<noteq> [] \<Longrightarrow> audio_play buf (Xrun # dev) = audio_play buf dev"
  "buf \<noteq> [] \<Longrightarrow> audio_play buf (Frames k # dev) =
     map_option (\<lambda>(ok, ys, d). (ok, take k buf @ ys, d)) (audio_play (drop k buf) dev)"
  by (subst audio_play.simps, simp)+

lemma audio_play_all:
  assumes "faultless dev" "length buf \<le> calls dev"
  shows "\<exists>dev'. audio_play buf dev = Some (True, buf, dev') \<and> faultless dev' \<and> calls dev \<le> calls dev' + length buf"
  using assms
proof (induction dev arbitrary: buf)
  case (Cons p dev)
  show ?case
  proof (cases "buf = []")
    case False
    show ?thesis
    proof (cases p)
      case (Frames k)
      have "faultless dev" "length (drop k buf) \<le> calls dev"
        using Cons.prems Frames by (auto split: if_splits)
      from Cons.IH[OF this] obtain d where "audio_play (drop k buf) dev = Some (True, drop k buf, d)"
        "faultless d" "calls dev \<le> calls d + length (drop k buf)" by auto
      moreover have "(if k = 0 then 0 else 1) + length (drop k buf) \<le> length buf" using False by (cases buf) auto
      ultimately show ?thesis using Frames False by (auto simp: audio_play_eqs split: if_splits)
    qed (use Cons False in \<open>auto simp: audio_play_eqs\<close>)
  qed (use Cons.prems in \<open>simp add: audio_play_eqs\<close>)
qed (auto simp: audio_play_eqs)

lemma plays_length: "plays fs ph xs ph' \<Longrightarrow> length xs = length fs"
  by (rule is_wave_length[OF plays_is_wave])

lemma modulate_byte_plays: "modulate_byte b ph = (xs, ph') \<Longrightarrow> plays (byte_wave b) ph xs ph'"
  by (simp add: modulate_byte_def byte_wave_def generate_tones_plays)

lemma length_byte_wave: "length (byte_wave b) = 8379"
  by (simp add: byte_wave_eq bit_wave_def length_concat comp_def sum_list_triv)

lemma play_preamble_wave:
  assumes "faultless dev" "n * 44100 \<le> calls dev"
  shows "\<exists>xs ph' dev'. play_preamble n ph dev = Some (xs, ph', dev') \<and> plays (replicate (n * 44100) FREQ_MARK) ph xs ph' \<and>
    faultless dev' \<and> calls dev \<le> calls dev' + n * 44100"
  using assms
proof (induction n arbitrary: ph dev)
  case (Suc n)
  obtain buf p where b: "generate_tone FREQ_PREAMBLE SAMPLE_RATE ph = (buf, p)" by fastforce
  then have pl: "plays (replicate 44100 FREQ_MARK) ph buf p"
    using generate_tone_plays by (fastforce simp: FREQ_PREAMBLE_def SAMPLE_RATE_def)
  with audio_play_all[OF Suc.prems(1), of buf] Suc.prems(2) plays_length[OF pl]
  obtain d where d: "audio_play buf dev = Some (True, buf, d)" "faultless d" "calls dev \<le> calls d + 44100" by auto
  from Suc.IH[OF d(2)] d(3) Suc.prems(2) obtain ys p' d' where y: "play_preamble n p d = Some (ys, p', d')"
    "plays (replicate (n * 44100) FREQ_MARK) p ys p'" "faultless d'" "calls d \<le> calls d' + n * 44100" by fastforce
  from plays_append[OF pl y(2)] have "plays (replicate (Suc n * 44100) FREQ_MARK) ph (buf @ ys) p'"
    by (simp add: replicate_add)
  with b d(1,3) y show ?case by auto
qed (simp add: plays_Nil)

lemma play_bytes_wave:
  assumes "faultless dev" "8379 * length bs \<le> calls dev"
  shows "\<exists>xs ph' dev'. play_bytes bs ph dev = Some (xs, ph', dev') \<and> plays (concat (map byte_wave bs)) ph xs ph' \<and>
    faultless dev' \<and> calls dev \<le> calls dev' + 8379 * length bs"
  using assms
proof (induction bs arbitrary: ph dev)
  case (Cons b bs)
  obtain buf p where b: "modulate_byte b ph = (buf, p)" by fastforce
  note pl = modulate_byte_plays[OF b]
  with audio_play_all[OF Cons.prems(1), of buf] Cons.prems(2) plays_length[OF pl]
  obtain d where d: "audio_play buf dev = Some (True, buf, d)" "faultless d" "calls dev \<le> calls d + 8379"
    by (auto simp: length_byte_wave)
  from Cons.IH[OF d(2)] d(3) Cons.prems(2) obtain ys p' d' where y: "play_bytes bs p d = Some (ys, p', d')"
    "plays (concat (map byte_wave bs)) p ys p'" "faultless d'" "calls d \<le> calls d' + 8379 * length bs" by fastforce
  from plays_append[OF pl y(2)] b d(1,3) y show ?case by auto
qed (simp add: plays_Nil)

lemma send_data_wave:
  assumes "faultless dev" "8379 * length bs \<le> calls dev"
  shows "\<exists>xs ph' dev'. send_data bs ph dev = Some (xs, length bs, dev') \<and> plays (concat (map byte_wave bs)) ph xs ph'"
  using assms
proof (induction bs arbitrary: ph dev)
  case (Cons b bs)
  obtain buf p where b: "modulate_byte b ph = (buf, p)" by fastforce
  note pl = modulate_byte_plays[OF b]
  with audio_play_all[OF Cons.prems(1), of buf] Cons.prems(2) plays_length[OF pl]
  obtain d where d: "audio_play buf dev = Some (True, buf, d)" "faultless d" "calls dev \<le> calls d + 8379"
    by (auto simp: length_byte_wave)
  from Cons.IH[OF d(2)] d(3) Cons.prems(2) obtain ys p' d' where y: "send_data bs p d = Some (ys, length bs, d')"
    "plays (concat (map byte_wave bs)) p ys p'" by fastforce
  from plays_append[OF pl y(2)] b d(1) y show ?case by auto
qed (auto intro: plays_Nil)

text \<open>Each preamble second and each byte is given to the device as a whole.\<close>

lemma server_mode_wave:
  assumes "faultless out" "220500 + 8379 * (6 + length content) \<le> calls out"
  shows "\<exists>xs. server_mode (Some content) True out = Some (xs, length content) \<and> is_wave (signal content) xs"
proof -
  let ?size = "size_bytes (of_nat (length content))"
  have l: "length ?size = 4" by (simp add: size_bytes_def)
  obtain xs p1 d1 where 1: "play_preamble 5 0 out = Some (xs, p1, d1)" "plays (replicate 220500 FREQ_MARK) 0 xs p1"
    "faultless d1" "calls out \<le> calls d1 + 220500"
    using play_preamble_wave[OF assms(1), of 5 0] assms(2) by auto
  obtain ys p2 d2 where 2: "play_bytes [sync_hi, sync_lo] p1 d1 = Some (ys, p2, d2)"
    "plays (concat (map byte_wave [sync_hi, sync_lo])) p1 ys p2" "faultless d2" "calls d1 \<le> calls d2 + 16758"
    using play_bytes_wave[OF 1(3), of "[sync_hi, sync_lo]" p1] 1(4) assms(2) by auto
  obtain zs p3 d3 where 3: "play_bytes ?size p2 d2 = Some (zs, p3, d3)"
    "plays (concat (map byte_wave ?size)) p2 zs p3" "faultless d3" "calls d2 \<le> calls d3 + 33516"
    using play_bytes_wave[OF 2(3), of ?size p2] l 1(4) 2(4) assms(2) by auto
  obtain ds p4 d4 where 4: "send_data content p3 d3 = Some (ds, length content, d4)"
    "plays (concat (map byte_wave content)) p3 ds p4"
    using send_data_wave[OF 3(3), of content p3] 1(4) 2(4) 3(4) assms(2) by auto
  have "plays (signal content) 0 (xs @ ys @ zs @ ds) p4"
    using plays_append[OF 1(2) plays_append[OF 2(2) plays_append[OF 3(2) 4(2)]]] by (simp add: signal_def)
  then show ?thesis using 1(1) 2(1) 3(1) 4(1) by (auto simp: server_mode_def plays_is_wave)
qed

section \<open>Properties\<close>

text \<open>C14: The detector computes what it is meant to: on every list of samples and at every
  frequency, the loop of \<open>goertzel_magnitude\<close> returns the squared magnitude of the discrete Fourier
  sum of the samples at that frequency.\<close>

theorem goertzel_is_dft:
  "goertzel_magnitude samples freq =
     (norm (\<Sum>k<length samples. of_int (samples ! k) * cis (- (2 * pi * real freq / 44100) * real k)))\<^sup>2"
proof -
  have "turn freq ^ k = cis (- (2 * pi * real freq / 44100) * real k)" for k
    by (simp add: turn_def phase_inc_def SAMPLE_RATE_def Complex.DeMoivre mult.commute)
  then show ?thesis by (simp add: goertzel_dft dft_def)
qed

text \<open>C15: A byte is received whatever the alignment: after stop bit tone of any length and phase, in
  frames of any size, \<open>demodulate_byte\<close> returns the byte that \<open>modulate_byte\<close> was given, although its
  windows lie up to 109 samples before or 158 samples behind the bits.\<close>

theorem demodulate_byte_any_alignment:
  assumes "generate_tone FREQ_MARK m ph = (xs, ph1)" "modulate_byte b ph1 = (ys, ph2)" "flow dev = Some (xs @ ys)"
  shows "\<exists>dev'. demodulate_byte dev = Some (Some b, dev')"
proof -
  have "plays (replicate m FREQ_MARK @ byte_wave b) ph (xs @ ys) ph2"
    by (rule plays_append[OF generate_tone_plays[OF assms(1)] modulate_byte_plays[OF assms(2)]])
  with assms(3) have "carries dev (replicate 0 FREQ_SPACE @ replicate m FREQ_MARK @ byte_wave b @ [])"
    by (auto simp: carries_def plays_is_wave)
  from demodulate_byte_wave[OF this] show ?thesis by auto
qed

theorem demodulate_byte_any_alignment_witness:
  "\<exists>dev'. demodulate_byte [Frames (fst (generate_tone FREQ_MARK 100 1) @
     fst (modulate_byte 0x41 (snd (generate_tone FREQ_MARK 100 1))))] = Some (Some 0x41, dev')"
  by (rule demodulate_byte_any_alignment[OF prod.collapse[symmetric] prod.collapse[symmetric]]) simp

text \<open>C1: The file arrives: a server whose playback does not fail plays, for a file below four
  gigabytes, a signal from which a client creates the same file; the client may start at any time
  before or during the preamble as long as a fifth of a second of it is left, and its device may
  hand over the samples in any pieces.\<close>

theorem audio_file_received:
  assumes "faultless out" "220500 + 8379 * (6 + length content) \<le> calls out" "length content < 2 ^ 32"
  shows "\<exists>xs. server_mode (Some content) True out = Some (xs, length content) \<and>
    (\<forall>inp z j. j \<le> 211680 \<longrightarrow> flow inp = Some (replicate z 0 @ drop j xs) \<longrightarrow>
      (\<exists>dev. client_mode True True inp = Some (Some content, dev)))"
proof -
  obtain xs where xs: "server_mode (Some content) True out = Some (xs, length content)" "is_wave (signal content) xs"
    using server_mode_wave[OF assms(1,2)] by auto
  from client_mode_wave[OF _ xs(2) _ assms(3)] xs(1) show ?thesis by blast
qed

lemma calls_replicate: "faultless (replicate n (Frames 1))" "calls (replicate n (Frames 1)) = n"
  by (auto simp: faultless_def) (induction n; simp)

theorem audio_file_received_witness:
  "\<exists>xs dev. server_mode (Some [0x68, 0x69]) True (replicate 300000 (Frames 1)) = Some (xs, 2) \<and>
     client_mode True True [Frames (replicate 5000 0), Frames xs] = Some (Some [0x68, 0x69], dev)"
proof -
  have len: "220500 + 8379 * (6 + length [0x68, 0x69 :: u8]) \<le> calls (replicate 300000 (Frames 1))"
    and two: "length [0x68, 0x69 :: u8] = 2" unfolding calls_replicate by simp_all
  have "length [0x68, 0x69 :: u8] < 2 ^ 32" by simp
  from audio_file_received[OF calls_replicate(1) len this, unfolded two]
  obtain xs where xs: "server_mode (Some [0x68, 0x69]) True (replicate 300000 (Frames 1)) = Some (xs, 2)"
    "\<forall>inp z j. j \<le> 211680 \<longrightarrow> flow inp = Some (replicate z 0 @ drop j xs) \<longrightarrow>
      (\<exists>dev. client_mode True True inp = Some (Some [0x68, 0x69], dev))" by blast
  have "flow [Frames (replicate 5000 0), Frames xs] = Some (replicate 5000 0 @ drop 0 xs)" by simp
  with xs(2) have "\<exists>dev. client_mode True True [Frames (replicate 5000 0), Frames xs] = Some (Some [0x68, 0x69], dev)"
    by blast
  with xs(1) show ?thesis by blast
qed

end
