(* ===== verification/CharDev.thy ===== *)
theory CharDev
  imports Prelude
begin

text \<open>
  \<open>misc/kernel_dev_frm/kernel_dev_frm.c\<close>: the file operations of its misc device, and loading and
  unloading, and the kernel thread with its work queue, tasklet and timer. A task and an open file are
  numbers. \<open>None\<close> is an access outside the module's memory, through a null pointer, or to a list that was corrupted.
\<close>

definition EBUSY :: int where "EBUSY = 16"
definition ENOMEM :: int where "ENOMEM = 12"
definition EINTR :: int where "EINTR = 4"
definition EFAULT :: int where "EFAULT = 14"
definition EAGAIN :: int where "EAGAIN = 11"

section \<open>The module's data\<close>

text \<open>\<open>shm\<close> is the number of the first of two pages, \<open>pf_data\<close> the files that have a \<open>per_file_data\<close>.\<close>

record mod_data =
  condition_ok :: bool
  the_owner :: "nat option"
  shm :: "nat option"
  pf_data :: "nat set"
  file_data :: "u8 list"
  registered :: bool
  the_thread :: bool

definition the_mod_data :: mod_data where
  "the_mod_data = \<lparr>condition_ok = False, the_owner = None, shm = None, pf_data = {},
     file_data = replicate 32 0, registered = False, the_thread = False\<rparr>"

text \<open>\<open>pages\<close> is what \<open>__get_free_pages\<close> returns.\<close>

definition init_mod_data :: "nat option \<Rightarrow> mod_data \<Rightarrow> int \<times> mod_data" where
  "init_mod_data pages m =
     (let m1 = m\<lparr>shm := pages\<rparr>
      in if pages = None then (- ENOMEM, m1) else (0, m1\<lparr>the_owner := None\<rparr>))"

definition deinit_mod_data :: "mod_data \<Rightarrow> mod_data" where
  "deinit_mod_data m = m\<lparr>shm := None, the_owner := None\<rparr>"

section \<open>File operations\<close>

definition the_open :: "nat \<Rightarrow> bool \<Rightarrow> nat \<Rightarrow> mod_data \<Rightarrow> int \<times> mod_data" where
  "the_open current kmalloc_ok f m =
     (if the_owner m \<noteq> None then (- EBUSY, m)
      else if \<not> kmalloc_ok then (- ENOMEM, m)
      else (0, m\<lparr>pf_data := insert f (pf_data m), the_owner := Some current\<rparr>))"

definition the_release :: "nat \<Rightarrow> mod_data \<Rightarrow> int \<times> mod_data" where
  "the_release f m = (0, m\<lparr>pf_data := pf_data m - {f}, the_owner := None\<rparr>)"

text \<open>\<open>woken\<close>: something wakes the task that sleeps while \<open>condition_ok\<close> is not set; \<open>pending\<close>: it has a
  signal. \<open>None\<close>: it sleeps on.\<close>

definition the_write :: "bool \<Rightarrow> bool \<Rightarrow> int \<Rightarrow> mod_data \<Rightarrow> int option" where
  "the_write woken pending count m =
     (if \<not> condition_ok m \<and> \<not> woken then None
      else Some (if pending then - EINTR else count))"

text \<open>What is returned, the bytes copied, and the new position.\<close>

definition the_read :: "bool \<Rightarrow> u64 \<Rightarrow> u64 \<Rightarrow> mod_data \<Rightarrow> (int \<times> u8 list \<times> u64) option" where
  "the_read copy_ok count pos m =
     (let data_left = 32 - pos; csize = (if count < data_left then count else data_left)
      in if data_left = 0 then Some (0, [], pos)
         else if csize \<noteq> 0 \<and> length (file_data m) < unat pos + unat csize then None
         else if \<not> copy_ok then Some (- EFAULT, [], pos)
         else Some (sint csize, take (unat csize) (drop (unat pos) (file_data m)), pos + csize))"

text \<open>The pages that are mapped; addresses are those of pages.\<close>

definition the_mmap :: "bool \<Rightarrow> nat \<Rightarrow> nat \<Rightarrow> mod_data \<Rightarrow> (int \<times> nat list) option" where
  "the_mmap remap_ok vm_start vm_end m =
     (case shm m of
        None \<Rightarrow> None
      | Some pfn \<Rightarrow> Some (if \<not> remap_ok then (- EAGAIN, []) else (0, [pfn..<pfn + (vm_end - vm_start)])))"

section \<open>The kernel thread\<close>

text \<open>\<open>the_workq\<close>: the pointer is not null; \<open>work_queued\<close>, \<open>tasklet_scheduled\<close>: the item waits to be run;
  \<open>my_tasklet\<close>, \<open>my_hrtimer\<close>: set up.\<close>

record misc_things =
  the_workq :: bool
  work_queued :: bool
  my_tasklet :: bool
  tasklet_scheduled :: bool
  my_hrtimer :: bool
  cnt :: u64

definition gt_the_misc_thing :: misc_things where
  "gt_the_misc_thing = \<lparr>the_workq = False, work_queued = False, my_tasklet = False, tasklet_scheduled = False,
     my_hrtimer = False, cnt = 0\<rparr>"

definition my_hrtimer_func :: "misc_things \<Rightarrow> misc_things" where
  "my_hrtimer_func w = w\<lparr>cnt := cnt w + 1\<rparr>"

definition init_hrtimer :: "misc_things \<Rightarrow> misc_things" where
  "init_hrtimer w = w\<lparr>my_hrtimer := True\<rparr>"

definition deinit_hrtimer :: "misc_things \<Rightarrow> misc_things" where
  "deinit_hrtimer w = w\<lparr>my_hrtimer := False\<rparr>"

text \<open>\<open>workq_ok\<close>: \<open>alloc_workqueue\<close> succeeds. \<open>destroy_workqueue\<close> and \<open>tasklet_kill\<close> wait for what is queued.\<close>

definition init_work_q :: "bool \<Rightarrow> misc_things \<Rightarrow> misc_things" where
  "init_work_q workq_ok w = w\<lparr>the_workq := workq_ok\<rparr>"

definition deinit_work_q :: "misc_things \<Rightarrow> misc_things option" where
  "deinit_work_q w = (if the_workq w then Some (w\<lparr>the_workq := False, work_queued := False\<rparr>) else None)"

definition init_tasklet :: "misc_things \<Rightarrow> misc_things" where
  "init_tasklet w = w\<lparr>my_tasklet := True, tasklet_scheduled := False\<rparr>"

definition deinit_tasklet :: "misc_things \<Rightarrow> misc_things" where
  "deinit_tasklet w = w\<lparr>my_tasklet := False, tasklet_scheduled := False\<rparr>"

text \<open>What the kernel runs while the thread sleeps.\<close>

datatype misc_event = Work_runs | Tasklet_runs | Timer_fires

fun misc_event_step :: "misc_event \<Rightarrow> misc_things \<Rightarrow> misc_things" where
  "misc_event_step Work_runs w = w\<lparr>work_queued := False\<rparr>"
| "misc_event_step Tasklet_runs w = w\<lparr>tasklet_scheduled := False\<rparr>"
| "misc_event_step Timer_fires w = (if my_hrtimer w then my_hrtimer_func w else w)"

text \<open>One turn of the loop before its sleep: \<open>INIT_WORK\<close> resets the links of the item.\<close>

definition the_thread_turn :: "misc_things \<Rightarrow> misc_things option" where
  "the_thread_turn w =
     (if work_queued w \<or> \<not> the_workq w \<or> \<not> my_tasklet w then None
      else Some (w\<lparr>work_queued := True, tasklet_scheduled := True\<rparr>))"

text \<open>\<open>turns\<close>: the events of each turn until the thread is told to stop.\<close>

fun the_thread_loop :: "misc_event list list \<Rightarrow> misc_things \<Rightarrow> misc_things option" where
  "the_thread_loop [] w = Some w"
| "the_thread_loop (evs # turns) w = do {
     w1 \<leftarrow> the_thread_turn w;
     the_thread_loop turns (fold misc_event_step evs w1) }"

definition the_thread_func :: "bool \<Rightarrow> misc_event list list \<Rightarrow> misc_things \<Rightarrow> misc_things option" where
  "the_thread_func workq_ok turns w = do {
     w1 \<leftarrow> the_thread_loop turns (init_hrtimer (init_tasklet (init_work_q workq_ok w)));
     deinit_work_q (deinit_tasklet (deinit_hrtimer w1)) }"

section \<open>Loading and unloading\<close>

definition start_the_thread :: "mod_data \<Rightarrow> mod_data" where
  "start_the_thread m = m\<lparr>the_thread := True\<rparr>"

definition the_init :: "nat option \<Rightarrow> int \<Rightarrow> mod_data \<Rightarrow> int \<times> mod_data" where
  "the_init pages misc_ret m =
     (let (err, m1) = init_mod_data pages m
      in if err \<noteq> 0 then (err, m1)
         else if misc_ret \<noteq> 0 then (misc_ret, m1)
         else (0, start_the_thread (m1\<lparr>registered := True\<rparr>)))"

definition the_exit :: "mod_data \<Rightarrow> mod_data" where
  "the_exit m = deinit_mod_data (m\<lparr>the_thread := False, registered := False\<rparr>)"

section \<open>The device and its users\<close>

text \<open>The kernel calls \<open>the_release\<close> once for a file that was opened, and reads only through such a file.
  The position of \<open>read\<close> belongs to the file; \<open>pread\<close> gives its own. \<open>got\<close>: what was read since the last
  opening, in order; \<open>reads\<close>: position, count and bytes of every call that returned bytes. \<open>copy_ok\<close>: the whole
  of the user's buffer can be written.\<close>

record users =
  dev :: mod_data
  open_pos :: "nat \<rightharpoonup> u64"
  got :: "u8 list"
  reads :: "(u64 \<times> u64 \<times> u8 list) list"

datatype user_call = Open nat bool nat | Close nat | Read nat u64 bool | Pread nat u64 u64 bool

fun user_step :: "user_call \<Rightarrow> users \<Rightarrow> users option" where
  "user_step (Open t ok f) u =
     (if open_pos u f \<noteq> None then Some u
      else let (ret, m) = the_open t ok f (dev u)
           in Some (if ret = 0 then u\<lparr>dev := m, open_pos := (open_pos u)(f \<mapsto> 0), got := []\<rparr> else u\<lparr>dev := m\<rparr>))"
| "user_step (Close f) u =
     (if open_pos u f = None then Some u
      else Some (u\<lparr>dev := snd (the_release f (dev u)), open_pos := (open_pos u)(f := None)\<rparr>))"
| "user_step (Read f n copy_ok) u =
     (case open_pos u f of
        None \<Rightarrow> Some u
      | Some pos \<Rightarrow> do {
          (ret, bs, pos1) \<leftarrow> the_read copy_ok n pos (dev u);
          Some (if ret < 0 then u
                else u\<lparr>open_pos := (open_pos u)(f \<mapsto> pos1), got := got u @ bs, reads := reads u @ [(pos, n, bs)]\<rparr>) })"
| "user_step (Pread f n pos copy_ok) u =
     (if open_pos u f = None then Some u
      else do {
        (ret, bs, _) \<leftarrow> the_read copy_ok n pos (dev u);
        Some (if ret < 0 then u else u\<lparr>reads := reads u @ [(pos, n, bs)]\<rparr>) })"

fun user_run :: "user_call list \<Rightarrow> users \<Rightarrow> users option" where
  "user_run [] u = Some u"
| "user_run (c # cs) u = do { u \<leftarrow> user_step c u; user_run cs u }"

lemma user_run_append: "user_run (cs @ cs') u = do { u \<leftarrow> user_run cs u; user_run cs' u }"
  by (induction cs arbitrary: u) (auto split: Option.bind_split)

text \<open>A \<open>pread\<close> through an open file at a position behind its 32 bytes.\<close>

fun stray :: "user_call \<Rightarrow> users \<Rightarrow> bool" where
  "stray (Pread f n pos copy_ok) u \<longleftrightarrow> open_pos u f \<noteq> None \<and> 32 < pos \<and> 0 < n"
| "stray _ u \<longleftrightarrow> False"

definition users_ok :: "u8 list \<Rightarrow> users \<Rightarrow> bool" where
  "users_ok bs u \<longleftrightarrow> file_data (dev u) = bs \<and> pf_data (dev u) = dom (open_pos u) \<and>
     (case the_owner (dev u) of
        None \<Rightarrow> dom (open_pos u) = {}
      | Some t \<Rightarrow> \<exists>f pos. open_pos u = [f \<mapsto> pos] \<and> pos \<le> 32 \<and> got u = take (unat pos) bs) \<and>
     (\<forall>(pos, n, xs) \<in> set (reads u). xs = take (unat n) (drop (unat pos) bs))"

lemma the_read_behind:
  assumes "length (file_data m) = 32" "32 < pos" "0 < n"
  shows "the_read copy_ok n pos m = None"
proof -
  have "32 - pos \<noteq> 0" "pos \<noteq> 32" "32 < unat pos" using assms(2) by (auto simp: word_less_nat_alt)
  then show ?thesis using assms(1,3) by (auto simp: the_read_def Let_def)
qed

lemma the_read_nothing:
  assumes "32 < pos"
  shows "the_read copy_ok 0 pos m = Some (if copy_ok then 0 else - EFAULT, [], pos)"
proof -
  have "32 - pos \<noteq> 0" using assms by auto
  then have "0 < 32 - pos" by (simp add: word_gt_0)
  with \<open>32 - pos \<noteq> 0\<close> show ?thesis by (simp add: the_read_def Let_def)
qed

lemma the_read_fault:
  assumes "length (file_data m) = 32" "pos \<le> 32"
  shows "the_read False n pos m = Some (if pos = 32 then 0 else - EFAULT, [], pos)"
proof -
  have "unat pos + unat (if n < 32 - pos then n else 32 - pos) \<le> 32"
    using assms(2) by (auto simp: word_less_nat_alt unat_sub word_le_nat_alt)
  then show ?thesis using assms(1) by (auto simp: the_read_def Let_def)
qed

lemma the_read_inside:
  assumes "length (file_data m) = 32" "pos \<le> 32"
  shows "\<exists>ret bs pos1. the_read True n pos m = Some (ret, bs, pos1) \<and> 0 \<le> ret \<and> pos1 \<le> 32 \<and>
    unat pos1 = min 32 (unat pos + unat n) \<and> take (unat pos) (file_data m) @ bs = take (unat pos1) (file_data m) \<and>
    bs = take (unat n) (drop (unat pos) (file_data m))"
proof (cases "pos = 32")
  case True
  with assms show ?thesis by (simp add: the_read_def)
next
  case False
  with assms(2) have "pos < 32" by simp
  then have p: "unat pos < 32" "unat (32 - pos) = 32 - unat pos"
    by (simp_all add: word_less_nat_alt unat_sub_if' word_le_nat_alt)
  let ?c = "if n < 32 - pos then n else 32 - pos"
  have c: "unat ?c = min (unat n) (32 - unat pos)" using p by (auto simp: word_less_nat_alt min_def)
  have sum: "unat (pos + ?c) = unat pos + unat ?c" using p c by (simp add: unat_word_ariths)
  have "the_read True n pos m = Some (sint ?c, take (unat ?c) (drop (unat pos) (file_data m)), pos + ?c)"
    using assms p c False by (auto simp: the_read_def Let_def)
  moreover have "pos + ?c \<le> 32" using sum c p by (simp add: word_le_nat_alt)
  moreover have "0 \<le> sint ?c"
  proof -
    define w where "w = ?c"
    have "unat w \<le> 32" using c p by (simp add: w_def)
    then have "int (unat w) \<le> 32" by linarith
    then have "uint w < 2 ^ 63" by simp
    moreover have "- (2 ^ 63) \<le> uint w" by (rule order_trans[OF _ uint_ge_0]) simp
    ultimately have "sint w = uint w"
      unfolding sint_uint by (intro signed_take_bit_int_eq_self) simp_all
    then show ?thesis unfolding w_def by simp
  qed
  moreover have "take (unat ?c) (drop (unat pos) (file_data m)) = take (unat n) (drop (unat pos) (file_data m))"
    using c assms(1) by (auto simp: min_def)
  ultimately show ?thesis using sum c p by (auto simp: take_add min_def)
qed

lemma user_step_ok:
  assumes "users_ok bs u" "length bs = 32" "\<not> stray c u"
  shows "\<exists>u'. user_step c u = Some u' \<and> users_ok bs u'"
proof (cases c)
  case (Open t ok f)
  with assms(1) show ?thesis
    by (cases "the_owner (dev u)")
      (auto simp: users_ok_def the_open_def EBUSY_def ENOMEM_def intro!: exI[of _ f] exI[of _ "0 :: u64"] split: if_splits)
next
  case (Close f)
  with assms(1) show ?thesis
    by (cases "the_owner (dev u)") (auto simp: users_ok_def the_release_def split: if_splits)
next
  case (Read f n copy_ok)
  show ?thesis
  proof (cases "open_pos u f")
    case None
    with Read assms(1) show ?thesis by auto
  next
    case (Some pos)
    with assms(1) obtain t where t: "the_owner (dev u) = Some t" "open_pos u = [f \<mapsto> pos]" "pos \<le> 32"
      "got u = take (unat pos) bs" "file_data (dev u) = bs" "pf_data (dev u) = {f}"
      "\<forall>(pos, n, xs) \<in> set (reads u). xs = take (unat n) (drop (unat pos) bs)"
      by (cases "the_owner (dev u)") (auto simp: users_ok_def split: if_splits)
    show ?thesis
    proof (cases copy_ok)
      case True
      from the_read_inside[of "dev u" pos n] t(3,5) assms(2) obtain ret xs pos1 where
        "the_read True n pos (dev u) = Some (ret, xs, pos1)" "0 \<le> ret" "pos1 \<le> 32"
        "take (unat pos) bs @ xs = take (unat pos1) bs" "xs = take (unat n) (drop (unat pos) bs)" by auto
      with t Read True show ?thesis by (auto simp: users_ok_def intro!: exI[of _ f] exI[of _ pos1])
    next
      case False
      with the_read_fault[of "dev u" pos n] t assms(2) Read show ?thesis
        by (auto simp: users_ok_def EFAULT_def intro!: exI[of _ f] exI[of _ pos])
    qed
  qed
next
  case (Pread f n pos copy_ok)
  show ?thesis
  proof (cases "open_pos u f = None")
    case True
    with Pread assms(1) show ?thesis by auto
  next
    case False
    have b: "file_data (dev u) = bs" using assms(1) by (simp add: users_ok_def)
    show ?thesis
    proof (cases "pos \<le> 32")
      case True
      from the_read_inside[of "dev u" pos n] the_read_fault[of "dev u" pos n] True b assms(2) obtain ret xs pos1 where
        "the_read copy_ok n pos (dev u) = Some (ret, xs, pos1)" "0 \<le> ret \<longrightarrow> xs = take (unat n) (drop (unat pos) bs)"
        by (cases copy_ok) (auto simp: EFAULT_def split: if_splits)
      with Pread False assms(1) show ?thesis by (auto simp: users_ok_def split: option.splits)
    next
      case behind: False
      then have "n = 0" "32 < pos" using assms(3) Pread False by (auto simp: not_le word_gt_0)
      with the_read_nothing[of pos copy_ok "dev u"] Pread False assms(1) show ?thesis
        by (auto simp: users_ok_def EFAULT_def split: option.splits)
    qed
  qed
qed

lemma user_step_stray: "users_ok bs u \<Longrightarrow> length bs = 32 \<Longrightarrow> stray c u \<Longrightarrow> user_step c u = None"
  using the_read_behind by (cases c) (auto simp: users_ok_def)

lemma user_run_ok:
  "users_ok bs u \<Longrightarrow> length bs = 32 \<Longrightarrow> \<exists>cs1 u1. user_run cs1 u = Some u1 \<and> users_ok bs u1 \<and>
     (cs1 = cs \<or> (\<exists>c cs2. cs = cs1 @ c # cs2 \<and> stray c u1 \<and> user_run cs u = None))"
proof (induction cs arbitrary: u)
  case Nil
  then show ?case by (auto intro: exI[of _ "[]"])
next
  case (Cons c cs)
  show ?case
  proof (cases "stray c u")
    case True
    with user_step_stray[OF Cons.prems] Cons.prems(1) show ?thesis
      by (intro exI[of _ "[]"] exI[of _ u]) auto
  next
    case False
    from user_step_ok[OF Cons.prems False] obtain u1 where u1: "user_step c u = Some u1" "users_ok bs u1" by blast
    from Cons.IH[OF u1(2) Cons.prems(2)] obtain cs1 u2 where
      "user_run cs1 u1 = Some u2" "users_ok bs u2"
      "cs1 = cs \<or> (\<exists>c cs2. cs = cs1 @ c # cs2 \<and> stray c u2 \<and> user_run cs u1 = None)" by blast
    with u1(1) show ?thesis by (intro exI[of _ "c # cs1"] exI[of _ u2]) auto
  qed
qed

definition set_up :: "misc_things \<Rightarrow> bool" where
  "set_up w \<longleftrightarrow> the_workq w \<and> my_tasklet w \<and> my_hrtimer w"

lemma events_keep:
  "set_up w \<Longrightarrow> set_up (fold misc_event_step evs w) \<and>
     cnt (fold misc_event_step evs w) = cnt w + of_nat (count_list evs Timer_fires) \<and>
     (Work_runs \<in> set evs \<or> \<not> work_queued w \<longrightarrow> \<not> work_queued (fold misc_event_step evs w)) \<and>
     (Work_runs \<notin> set evs \<longrightarrow> work_queued (fold misc_event_step evs w) = work_queued w)"
proof (induction evs arbitrary: w)
  case (Cons e evs)
  have "set_up (misc_event_step e w)" using Cons.prems by (cases e) (simp_all add: set_up_def my_hrtimer_func_def)
  from Cons.IH[OF this] Cons.prems show ?case by (cases e) (auto simp: set_up_def my_hrtimer_func_def)
qed simp

lemma thread_loop_works:
  "set_up w \<Longrightarrow> \<not> work_queued w \<Longrightarrow> list_all (\<lambda>evs. Work_runs \<in> set evs) turns \<Longrightarrow>
     \<exists>w'. the_thread_loop turns w = Some w' \<and> set_up w' \<and> cnt w' = cnt w + of_nat (count_list (concat turns) Timer_fires)"
proof (induction turns arbitrary: w)
  case (Cons evs turns)
  let ?w = "w\<lparr>work_queued := True, tasklet_scheduled := True\<rparr>"
  have "set_up ?w" using Cons.prems(1) by (simp add: set_up_def)
  note k = events_keep[OF this, of evs]
  have "the_thread_turn w = Some ?w" using Cons.prems(1,2) by (simp add: the_thread_turn_def set_up_def)
  with Cons.IH[of "fold misc_event_step evs ?w"] k Cons.prems(3) show ?case by (auto simp: add.assoc)
qed simp

lemma thread_loop_stuck:
  "set_up w \<Longrightarrow> \<not> work_queued w \<Longrightarrow> list_all (\<lambda>evs. Work_runs \<in> set evs) before \<Longrightarrow> Work_runs \<notin> set evs \<Longrightarrow>
     the_thread_loop (before @ evs # evs' # turns) w = None"
proof (induction before arbitrary: w)
  case Nil
  let ?w = "w\<lparr>work_queued := True, tasklet_scheduled := True\<rparr>"
  have "set_up ?w" using Nil(1) by (simp add: set_up_def)
  note k = events_keep[OF this, of evs]
  have "the_thread_turn w = Some ?w" using Nil(1,2) by (simp add: the_thread_turn_def set_up_def)
  with k Nil(4) show ?case by (simp add: the_thread_turn_def)
next
  case (Cons a before)
  let ?w = "w\<lparr>work_queued := True, tasklet_scheduled := True\<rparr>"
  have "set_up ?w" using Cons.prems(1) by (simp add: set_up_def)
  note k = events_keep[OF this, of a]
  have "the_thread_turn w = Some ?w" using Cons.prems(1,2) by (simp add: the_thread_turn_def set_up_def)
  with Cons.IH[of "fold misc_event_step a ?w"] k Cons.prems(3,4) show ?case by simp
qed

section \<open>Properties\<close>

text \<open>C33: Tasks open, close, read (\<open>read\<close> and \<open>pread\<close>, with buffers that can be written or not) in whatever order and
  with whatever sizes. At every moment at most one file is open, exactly when the module has an owner, and only open files have their
  data; what the file in use has read since it was opened is, in order, the beginning of the module's 32 bytes (whatever they
  are) up to its position, and every call that returned bytes returned those at its position, as many as asked for as far as there
  are any. This ends only with a \<open>pread\<close> of some bytes at a position behind the 32, which the module does not check and
  which reads the memory behind them.\<close>

theorem chardev_one_reader:
  assumes "the_init pages 0 (the_mod_data\<lparr>file_data := bs\<rparr>) = (0, m)" "length bs = 32"
    and "u0 = \<lparr>dev = m, open_pos = Map.empty, got = [], reads = []\<rparr>"
  shows "\<exists>cs1 u. user_run cs1 u0 = Some u \<and>
    (cs1 = cs \<or> (\<exists>f n pos copy_ok cs2. cs = cs1 @ Pread f n pos copy_ok # cs2 \<and> open_pos u f \<noteq> None \<and> 32 < pos \<and> 0 < n \<and>
      user_run cs u0 = None)) \<and>
    file_data (dev u) = bs \<and> pf_data (dev u) = dom (open_pos u) \<and>
    (case the_owner (dev u) of
       None \<Rightarrow> dom (open_pos u) = {}
     | Some t \<Rightarrow> \<exists>f pos. open_pos u = [f \<mapsto> pos] \<and> pos \<le> 32 \<and> got u = take (unat pos) bs) \<and>
    (\<forall>(pos, n, xs) \<in> set (reads u). xs = take (unat n) (drop (unat pos) bs))"
proof -
  from assms(1) have "file_data m = bs \<and> the_owner m = None \<and> pf_data m = {}"
    by (auto simp: the_init_def init_mod_data_def Let_def the_mod_data_def start_the_thread_def ENOMEM_def split: if_splits)
  then have "users_ok bs u0" by (simp add: users_ok_def assms(3))
  from user_run_ok[OF this assms(2), of cs] obtain cs1 u where u: "user_run cs1 u0 = Some u" "users_ok bs u"
    "cs1 = cs \<or> (\<exists>c cs2. cs = cs1 @ c # cs2 \<and> stray c u \<and> user_run cs u0 = None)" by blast
  moreover have "\<exists>f n pos copy_ok. c = Pread f n pos copy_ok \<and> open_pos u f \<noteq> None \<and> 32 < pos \<and> 0 < n" if "stray c u" for c
    using that by (cases c) auto
  ultimately show ?thesis unfolding users_ok_def by blast
qed

text \<open>But the position is not checked: a read at a position behind the file, as \<open>pread\<close> allows, has a
  wrapped count left and copies kernel memory behind the 32 bytes; a mapping of more than two pages
  shows the pages behind the shared ones; and when the device cannot be registered its pages stay allocated.\<close>

theorem chardev_unchecked:
  assumes "length (file_data m) = 32" "32 < pos" "0 < n" "shm m = Some pfn" "vm_start + 2 < vm_end" "misc_ret \<noteq> 0"
  shows "the_read copy_ok n pos m = None \<and>
    (\<exists>pages. the_mmap True vm_start vm_end m = Some (0, pages) \<and> pfn + 2 \<in> set pages) \<and>
    the_init (Some p) misc_ret the_mod_data = (misc_ret, the_mod_data\<lparr>shm := Some p\<rparr>)"
proof -
  have "32 - pos \<noteq> 0" "pos \<noteq> 32" using assms(2) by auto
  moreover have "32 < unat pos" using assms(2) by (simp add: word_less_nat_alt)
  ultimately have "the_read copy_ok n pos m = None"
    using assms(1,3) by (auto simp: the_read_def Let_def)
  then show ?thesis using assms(4-6)
    by (simp add: the_mmap_def the_init_def init_mod_data_def the_mod_data_def Let_def)
qed

text \<open>When the work queue is there and the queued work runs within each second, the thread ends, has taken
  down what it set up, and has counted every timer interrupt. Without the work queue its first turn fails,
  and so does the turn after one in which the queued work has not run: the item is initialised while it waits.\<close>

theorem chardev_thread:
  assumes "list_all (\<lambda>evs. Work_runs \<in> set evs) turns"
  shows "the_thread_func True turns gt_the_misc_thing =
      Some (gt_the_misc_thing\<lparr>cnt := of_nat (count_list (concat turns) Timer_fires)\<rparr>) \<and>
    the_thread_func False turns gt_the_misc_thing = None \<and>
    (Work_runs \<notin> set evs \<longrightarrow> the_thread_func True (turns @ evs # evs' # rest) gt_the_misc_thing = None)"
proof (intro conjI impI)
  let ?w = "init_hrtimer (init_tasklet (init_work_q True gt_the_misc_thing))"
  have w: "set_up ?w" "\<not> work_queued ?w" "cnt ?w = 0"
    by (simp_all add: set_up_def init_hrtimer_def init_tasklet_def init_work_q_def gt_the_misc_thing_def)
  from thread_loop_works[OF w(1,2) assms] w(3) obtain w' where w': "the_thread_loop turns ?w = Some w'" "set_up w'"
    "cnt w' = of_nat (count_list (concat turns) Timer_fires)" by auto
  then show "the_thread_func True turns gt_the_misc_thing =
      Some (gt_the_misc_thing\<lparr>cnt := of_nat (count_list (concat turns) Timer_fires)\<rparr>)"
    by (simp add: the_thread_func_def deinit_work_q_def deinit_tasklet_def deinit_hrtimer_def set_up_def gt_the_misc_thing_def)
  show "the_thread_func False turns gt_the_misc_thing = None"
    by (cases turns) (simp_all add: the_thread_func_def the_thread_turn_def deinit_work_q_def deinit_tasklet_def
      deinit_hrtimer_def init_hrtimer_def init_tasklet_def init_work_q_def)
  show "the_thread_func True (turns @ evs # evs' # rest) gt_the_misc_thing = None" if "Work_runs \<notin> set evs"
    using thread_loop_stuck[OF w(1,2) assms that] by (simp add: the_thread_func_def)
qed

theorem chardev_thread_witness:
  "the_thread_func True [[Timer_fires, Work_runs, Timer_fires]] gt_the_misc_thing = Some (gt_the_misc_thing\<lparr>cnt := 2\<rparr>)"
  using chardev_thread[of "[[Timer_fires, Work_runs, Timer_fires]]" "[]"] by simp

theorem chardev_one_reader_witness:
  "\<exists>u. user_run [Open 1 True 7, Read 7 20 True, Open 2 True 8, Pread 7 4 30 True, Read 7 20 True]
      \<lparr>dev = snd (the_init (Some 5) 0 (the_mod_data\<lparr>file_data := map of_nat [0..<32]\<rparr>)), open_pos = Map.empty, got = [], reads = []\<rparr> = Some u \<and>
    (\<forall>(pos, n, xs) \<in> set (reads u). xs = take (unat n) (drop (unat pos) (map of_nat [0..<32])))"
proof -
  define u0 where "u0 = \<lparr>dev = snd (the_init (Some 5) 0 (the_mod_data\<lparr>file_data := map of_nat [0..<32]\<rparr>)),
    open_pos = Map.empty, got = [], reads = []\<rparr>"
  let ?cs = "[Open 1 True 7, Read 7 20 True, Open 2 True 8, Pread 7 4 30 True, Read 7 20 True]"
  have i: "the_init (Some 5) 0 (the_mod_data\<lparr>file_data := map of_nat [0..<32]\<rparr>) =
      (0, snd (the_init (Some 5) 0 (the_mod_data\<lparr>file_data := map of_nat [0..<32]\<rparr>)))"
    by (simp add: the_init_def init_mod_data_def Let_def)
  have n: "pos = 30" if "?cs = cs1 @ Pread f n pos copy_ok # cs2" for cs1 f n pos copy_ok cs2
  proof -
    from that have "Pread f n pos copy_ok \<in> set ?cs" by (simp only: set_append list.set) blast
    then show ?thesis by simp
  qed
  have l: "length (map of_nat [0..<32] :: u8 list) = 32" by simp
  from chardev_one_reader[OF i l u0_def, of ?cs] obtain cs1 u where "user_run cs1 u0 = Some u"
    "cs1 = ?cs \<or> (\<exists>f n pos copy_ok cs2. ?cs = cs1 @ Pread f n pos copy_ok # cs2 \<and> 32 < pos)"
    "\<forall>(pos, n, xs) \<in> set (reads u). xs = take (unat n) (drop (unat pos) (map of_nat [0..<32]))" by blast
  moreover have "\<not> (32 :: u64) < 30" by simp
  ultimately show ?thesis unfolding u0_def using n by blast
qed

theorem chardev_unchecked_witness:
  "the_read True 1 33 (the_mod_data\<lparr>shm := Some 5\<rparr>) = None"
  using chardev_unchecked[of "the_mod_data\<lparr>shm := Some 5\<rparr>" 33 1 5 0 3 "- 12" True 5] by (simp add: the_mod_data_def)

end
