(* ===== verification/Debug.thy ===== *)
theory Debug
  imports CLib
begin

text \<open>
  \<open>api/debug.h\<close>: what the macros print, as a text. The macros that end with \<open>QUIT\<close> print the same and leave the program;
  \<open>file\<close>, \<open>line\<close> and \<open>func\<close> are the place of the call, \<open>errtext\<close> is \<open>strerror(errno)\<close>.
\<close>

section \<open>Debug output\<close>

definition pure_file_name :: "string \<Rightarrow> string" where
  "pure_file_name path =
     (if CHR ''/'' \<in> set path then rev (takeWhile (\<lambda>c. c \<noteq> CHR ''/'') (rev path)) else path)"

definition DBG_PRINT :: "string \<Rightarrow> nat \<Rightarrow> string \<Rightarrow> string \<Rightarrow> string" where
  "DBG_PRINT file line func msg =
     ''DBG:'' @ file @ ''('' @ show_dec line @ '')-'' @ func @ '':'' @ [LF] @ msg @ [LF]"

definition DBG_PRINT_S :: "string \<Rightarrow> nat \<Rightarrow> string \<Rightarrow> string \<Rightarrow> string" where
  "DBG_PRINT_S file line func msg = DBG_PRINT (pure_file_name file) line func msg"

definition ERR_DBG_PRINT :: "string \<Rightarrow> nat \<Rightarrow> string \<Rightarrow> string \<Rightarrow> string \<Rightarrow> string" where
  "ERR_DBG_PRINT file line func msg errtext =
     ''ERR_DBG:'' @ file @ ''('' @ show_dec line @ '')-'' @ func @ '':'' @ [LF] @ msg @ '': '' @ errtext @ [LF]"

end
