(* ===== verification/DiskMonitor.thy ===== *)
theory DiskMonitor
  imports StringUtils CLib Getopt
begin

text \<open>
  \<open>simple_apps/disk_monitor.c\<close>: deletes the oldest log files while the file system has less free space
  than a threshold. The directory is the list of its entries, the oldest first, with the blocks each
  occupies; the pipeline of \<open>ls\<close>, \<open>grep\<close> and \<open>sed\<close> is written out. \<open>can\<close>: the entries \<open>unlink\<close> can remove.
  \<open>None\<close>: a loop that does not end, or a file name that overflows the 128 cells it is trimmed into.
\<close>

section \<open>The file system\<close>

record fs =
  files :: "(string \<times> nat) list"
  f_bavail :: nat
  f_bsize :: nat

definition unlink_file :: "(string \<Rightarrow> bool) \<Rightarrow> string \<Rightarrow> fs \<Rightarrow> fs" where
  "unlink_file can name d =
     (case map_of (files d) name of
        None \<Rightarrow> d
      | Some blocks \<Rightarrow> if can name then d\<lparr>files := filter (\<lambda>e. fst e \<noteq> name) (files d), f_bavail := f_bavail d + blocks\<rparr> else d)"

text \<open>In megabytes.\<close>

definition fs_free_space :: "fs \<Rightarrow> u64" where
  "fs_free_space d = of_nat (f_bavail d) * of_nat (f_bsize d) div (1024 * 1024)"

section \<open>Deleting\<close>

text \<open>\<open>ls\<close> leaves out names that begin with a dot; in the pattern of \<open>grep\<close> the dot is any character.\<close>

definition listed :: "string \<Rightarrow> bool" where
  "listed name \<longleftrightarrow> name \<noteq> [] \<and> hd name \<noteq> CHR ''.'' \<and> strstr (tl name) ''log'' \<noteq> None"

definition get_the_oldest_file :: "fs \<Rightarrow> string" where
  "get_the_oldest_file d =
     (case find (listed \<circ> fst) (files d) of None \<Rightarrow> [] | Some (name, _) \<Rightarrow> ''.//'' @ name @ [LF])"

text \<open>The path the program made, as a name in the directory.\<close>

definition name_in_dir :: "string \<Rightarrow> string" where
  "name_in_dir path = drop 3 path"

definition delete_the_oldest_file :: "(string \<Rightarrow> bool) \<Rightarrow> bool \<Rightarrow> fs \<Rightarrow> (int \<times> fs) option" where
  "delete_the_oldest_file can fopen_ok d =
     (if \<not> fopen_ok then Some (1, d)
      else case fgets 1024 (get_the_oldest_file d) of
        None \<Rightarrow> Some (0, d)
      | Some (line, _) \<Rightarrow> do {
          (len, trimed_line) \<leftarrow> str_trim (replicate (length line + 1) NUL) line;
          if len \<le> 0 then Some (0, d)
          else if 128 \<le> length (the trimed_line) then None
          else Some (0, unlink_file can (name_in_dir (the trimed_line)) d) })"

section \<open>The monitor\<close>

definition space_under_water_level :: "u64 \<Rightarrow> fs \<Rightarrow> bool" where
  "space_under_water_level g_fs_space_threshold d \<longleftrightarrow>
     fs_free_space d > 0 \<and> fs_free_space d < g_fs_space_threshold"

partial_function (option) cleanup :: "(string \<Rightarrow> bool) \<Rightarrow> bool \<Rightarrow> u64 \<Rightarrow> fs \<Rightarrow> fs option" where
  "cleanup can fopen_ok level d =
     (if \<not> space_under_water_level level d then Some d
      else do { (_, d') \<leftarrow> delete_the_oldest_file can fopen_ok d; cleanup can fopen_ok level d' })"

text \<open>One turn of the loop in \<open>main\<close>, after its second of sleep; \<open>sleep_cnt\<close> has 64 bits.\<close>

definition monitor_turn :: "(string \<Rightarrow> bool) \<Rightarrow> bool \<Rightarrow> u64 \<Rightarrow> u64 \<times> fs \<Rightarrow> (u64 \<times> fs) option" where
  "monitor_turn can fopen_ok level = (\<lambda>(sleep_cnt, d).
     if (sleep_cnt + 1) mod 10 \<noteq> 0 then Some (sleep_cnt + 1, d)
     else map_option (Pair (sleep_cnt + 1)) (cleanup can fopen_ok level d))"

text \<open>The threshold and the test value.\<close>

definition disk_arg :: "opt_event \<Rightarrow> u64 \<times> u64 \<Rightarrow> u64 \<times> u64" where
  "disk_arg ev = (\<lambda>(level, test). case ev of (opt, optarg) \<Rightarrow>
     if opt = of_char (CHR ''n'') then (word_of_int (atoi (the optarg)), test)
     else if opt = of_char (CHR ''t'') then (level, word_of_int (atoi (the optarg)))
     else (level, test))"

definition disk_parse_args :: "string list \<Rightarrow> u64 \<times> u64" where
  "disk_parse_args argv = fold disk_arg (getopt ''n:t:'' argv) (500, 0)"

definition monitor_level :: "string list \<Rightarrow> fs \<Rightarrow> u64" where
  "monitor_level argv d =
     (case disk_parse_args argv of (level, test) \<Rightarrow> if test \<noteq> 0 then fs_free_space d - test else level)"

definition monitor_sig_handler :: "nat \<Rightarrow> bool \<Rightarrow> bool" where
  "monitor_sig_handler signo NeedExit = (if signo = 2 then True else NeedExit)"

text \<open>The loop: for each turn the signals that arrive and what other programs do to the file system while it
  sleeps. SIGINT is the only signal \<open>main\<close> registers a handler for. The state and whether the program has ended.\<close>

fun monitor_loop ::
    "(string \<Rightarrow> bool) \<Rightarrow> bool \<Rightarrow> u64 \<Rightarrow> (nat list \<times> (fs \<Rightarrow> fs)) list \<Rightarrow> bool \<Rightarrow> u64 \<times> fs \<Rightarrow> (fs \<times> run_end) option" where
  "monitor_loop can fopen_ok level [] NeedExit s = Some (snd s, if NeedExit then Ended else Goes_on)"
| "monitor_loop can fopen_ok level ((signos, others) # turns) NeedExit (sleep_cnt, d) =
     (if NeedExit then Some (d, Ended)
      else case List.find (sig_ends {2}) signos of
        Some signo \<Rightarrow> Some (others d, Killed_by signo)
      | None \<Rightarrow> do {
          s \<leftarrow> monitor_turn can fopen_ok level (sleep_cnt, others d);
          monitor_loop can fopen_ok level turns (fold monitor_sig_handler signos NeedExit) s })"

definition disk_monitor_main ::
    "(string \<Rightarrow> bool) \<Rightarrow> bool \<Rightarrow> string list \<Rightarrow> fs \<Rightarrow> (nat list \<times> (fs \<Rightarrow> fs)) list \<Rightarrow> (fs \<times> run_end) option" where
  "disk_monitor_main can fopen_ok argv d turns = monitor_loop can fopen_ok (monitor_level argv d) turns False (0, d)"

section \<open>The oldest logs\<close>

definition logs :: "fs \<Rightarrow> (string \<times> nat) list" where
  "logs d = filter (listed \<circ> fst) (files d)"

definition without :: "string \<times> nat \<Rightarrow> fs \<Rightarrow> fs" where
  "without e d = d\<lparr>files := remove1 e (files d), f_bavail := f_bavail d + snd e\<rparr>"

text \<open>The directory without its \<open>k\<close> oldest logs.\<close>

definition after :: "nat \<Rightarrow> fs \<Rightarrow> fs" where
  "after k d = fold without (take k (logs d)) d"

definition plain_names :: "fs \<Rightarrow> bool" where
  "plain_names d \<longleftrightarrow> distinct (map fst (files d)) \<and>
     (\<forall>e \<in> set (logs d). length (fst e) < 120 \<and> (\<forall>c \<in> set (fst e). isgraph c))"

lemma find_logs: "find (listed \<circ> fst) (files d) = (case logs d of [] \<Rightarrow> None | e # _ \<Rightarrow> Some e)"
proof -
  have "find P xs = (case filter P xs of [] \<Rightarrow> None | e # _ \<Rightarrow> Some e)" for P and xs :: "(string \<times> nat) list"
    by (induction xs) auto
  then show ?thesis by (simp add: logs_def)
qed

lemma graph_facts: "isgraph c \<Longrightarrow> c \<noteq> LF \<and> c \<noteq> NUL" "isgraph (CHR ''.'')" "isgraph (CHR ''/'')" "\<not> isgraph LF"
  by (auto simp: isgraph_def)

lemma trim_path:
  assumes "\<forall>c \<in> set name. isgraph c"
  shows "\<exists>n>0. str_trim (replicate (length (''.//'' @ name @ [LF]) + 1) NUL) (''.//'' @ name @ [LF]) = Some (n, Some (''.//'' @ name))"
proof -
  let ?s = "''.//'' @ name @ [LF]"
  have p: "\<forall>c \<in> set (''.//'' @ name). isgraph c" using assms graph_facts(2,3) by auto
  have "rstrip (''.//'' @ name) = ''.//'' @ name"
  proof (cases name rule: rev_cases)
    case (snoc xs c)
    with p show ?thesis using rstrip_snoc[of "''.//'' @ xs" c] by simp
  qed (simp add: rstrip_def graph_facts)
  then have r: "rstrip ?s = ''.//'' @ name"
    unfolding append_assoc[symmetric] rstrip_snoc by (simp add: graph_facts)
  have nul: "NUL \<notin> set ?s" using assms graph_facts(1) by auto
  let ?t = "''.//'' @ name"
  have "dropWhile (\<lambda>c. \<not> isgraph c) ?t = ?t" "\<exists>c \<in> set ?s. isgraph c"
    using graph_facts(2) by simp_all
  with str_trim_spec[OF nul, of "replicate (length ?s + 1) NUL"]
  have "str_trim (replicate (length ?s + 1) NUL) ?s = Some (int (length ?t), Some ?t)"
    unfolding r by (simp only: length_replicate if_True HOL.simp_thms)
  then show ?thesis by (intro exI[of _ "int (length ?t)"]) simp
qed

lemma distinct_map_remove1: "distinct (map f xs) \<Longrightarrow> distinct (map f (remove1 e xs))"
  by (induction xs) (auto dest: set_remove1_subset[THEN subsetD])

lemma remove1_by_name: "distinct (map fst xs) \<Longrightarrow> e \<in> set xs \<Longrightarrow> filter (\<lambda>x. fst x \<noteq> fst e) xs = remove1 e xs"
proof (induction xs)
  case (Cons x xs)
  show ?case
  proof (cases "x = e")
    case True
    with Cons.prems(1) have "\<forall>y \<in> set xs. fst y \<noteq> fst e" by (metis distinct.simps(2) image_eqI list.set_map list.simps(9))
    with True show ?thesis by (simp add: filter_id_conv)
  next
    case False
    with Cons.prems have "e \<in> set xs" "fst x \<noteq> fst e" by (auto simp: image_iff)
    with False Cons show ?thesis by simp
  qed
qed simp

lemma delete_the_oldest:
  assumes "plain_names d" "logs d = e # es"
  shows "delete_the_oldest_file can True d = Some (0, if can (fst e) then without e d else d)"
proof -
  obtain name n where e: "e = (name, n)" by (cases e)
  have "e \<in> set (logs d)" using assms(2) by simp
  then have n: "length name < 120" "\<forall>c \<in> set name. isgraph c" "e \<in> set (files d)"
    using assms(1) by (auto simp: plain_names_def e logs_def)
  have old: "get_the_oldest_file d = (''.//'' @ name) @ LF # []"
    by (simp add: get_the_oldest_file_def find_logs assms(2) e)
  have "LF \<notin> set (''.//'' @ name)" using n(2) graph_facts(1) by auto
  from take_line_LF[OF this, of 1023 "[]"] n(1) old have f: "fgets 1024 (get_the_oldest_file d) = Some (''.//'' @ name @ [LF], [])"
    by (simp add: fgets_def)
  from trim_path[OF n(2)] obtain k where
    "str_trim (replicate (length (''.//'' @ name @ [LF]) + 1) NUL) (''.//'' @ name @ [LF]) = Some (k, Some (''.//'' @ name))" "0 < k"
    by auto
  moreover have "unlink_file can name d = (if can name then without e d else d)"
    using assms(1) n(3) remove1_by_name[of "files d" e] by (simp add: unlink_file_def plain_names_def e without_def)
  ultimately show ?thesis using n(1) by (simp add: delete_the_oldest_file_def f name_in_dir_def e)
qed

lemma logs_without: "logs d = e # es \<Longrightarrow> logs (without e d) = es"
  by (simp add: logs_def without_def filter_remove1)

lemma plain_without: "plain_names d \<Longrightarrow> plain_names (without e d)"
  by (auto simp: plain_names_def without_def logs_def distinct_map_remove1 dest: set_remove1_subset[THEN subsetD])

lemma after_Suc: "logs d = e # es \<Longrightarrow> after (Suc k) d = after k (without e d)"
  by (simp add: after_def logs_without)

lemma cleanup_deletes:
  assumes "plain_names d" "k \<le> length (logs d)" "\<forall>e \<in> set (take k (logs d)). can (fst e)"
    "\<forall>j<k. space_under_water_level level (after j d)" "\<not> space_under_water_level level (after k d)"
  shows "cleanup can True level d = Some (after k d)"
  using assms
proof (induction k arbitrary: d)
  case 0
  then show ?case by (subst cleanup.simps) (simp add: after_def)
next
  case (Suc k)
  from Suc.prems(2) obtain e es where e: "logs d = e # es" by (cases "logs d") auto
  have "space_under_water_level level d" using Suc.prems(4) by (auto simp: after_def)
  moreover have "cleanup can True level (without e d) = Some (after k (without e d))"
  proof (rule Suc.IH)
    show "\<forall>j<k. space_under_water_level level (after j (without e d))"
      using Suc.prems(4) after_Suc[OF e] by (metis Suc_less_eq)
  qed (use Suc.prems e in \<open>simp_all add: plain_without logs_without flip: after_Suc[OF e]\<close>)
  ultimately show ?case
    using Suc.prems(3) delete_the_oldest[OF Suc.prems(1) e] e by (subst cleanup.simps) (simp add: after_Suc)
qed

text \<open>A turn that changes nothing is repeated for ever.\<close>

lemma cleanup_spins:
  assumes "space_under_water_level level d" "delete_the_oldest_file can fopen_ok d = Some (ret, d)"
  shows "cleanup can fopen_ok level d = None"
proof -
  have "can0 = can \<and> fopen0 = fopen_ok \<and> level0 = level \<longrightarrow> d0 \<noteq> d"
    if "cleanup can0 fopen0 level0 d0 = Some r" for can0 fopen0 level0 d0 r
    using that
  proof (rule cleanup.raw_induct[rotated])
    fix cl can0 fopen0 level0 d0 r
    assume ih: "\<And>can0 fopen0 level0 d0 r. cl can0 fopen0 level0 d0 = Some r \<Longrightarrow>
        can0 = can \<and> fopen0 = fopen_ok \<and> level0 = level \<longrightarrow> d0 \<noteq> d"
      and step: "(if \<not> space_under_water_level level0 d0 then Some d0
        else Option.bind (delete_the_oldest_file can0 fopen0 d0) (\<lambda>(_, d'). cl can0 fopen0 level0 d')) = Some r"
    show "can0 = can \<and> fopen0 = fopen_ok \<and> level0 = level \<longrightarrow> d0 \<noteq> d"
      using step ih[of can fopen_ok level d r] assms by auto
  qed
  then show ?thesis by (cases "cleanup can fopen_ok level d") blast+
qed

lemma after_facts:
  "k \<le> length (logs d) \<Longrightarrow> logs (after k d) = drop k (logs d) \<and>
     filter (\<lambda>e. \<not> listed (fst e)) (files (after k d)) = filter (\<lambda>e. \<not> listed (fst e)) (files d)"
proof (induction k arbitrary: d)
  case (Suc k)
  then obtain e es where e: "logs d = e # es" by (cases "logs d") auto
  then have "e \<in> set (logs d)" by simp
  then have "listed (fst e)" by (simp add: logs_def)
  then have "filter (\<lambda>e. \<not> listed (fst e)) (files (without e d)) = filter (\<lambda>e. \<not> listed (fst e)) (files d)"
    by (simp add: without_def filter_remove1 remove1_idem)
  with Suc.IH[of "without e d"] Suc.prems e show ?case by (simp add: after_Suc logs_without)
qed (simp add: after_def)

lemma monitor_sig_handler_fold: "fold monitor_sig_handler signos x \<longleftrightarrow> x \<or> 2 \<in> set signos"
  by (induction signos arbitrary: x) (auto simp: monitor_sig_handler_def)

section \<open>Properties\<close>

text \<open>When the logs can be removed and enough of them free the space, the cleaning ends: it has removed the
  oldest logs, as few as suffice, and no other file.\<close>

theorem disk_cleanup_oldest:
  assumes "plain_names d" "k \<le> length (logs d)" "\<forall>e \<in> set (take k (logs d)). can (fst e)"
    "\<forall>j<k. space_under_water_level level (after j d)" "\<not> space_under_water_level level (after k d)"
  shows "\<exists>d'. cleanup can True level d = Some d' \<and> logs d' = drop k (logs d) \<and> \<not> space_under_water_level level d' \<and>
    filter (\<lambda>e. \<not> listed (fst e)) (files d') = filter (\<lambda>e. \<not> listed (fst e)) (files d)"
  using cleanup_deletes[OF assms] after_facts[OF assms(2)] assms(5) by auto

text \<open>Otherwise it does not end: with no log left, when its work file cannot be opened, or when the oldest
  match cannot be unlinked (a directory, say), it repeats the same step for ever, and a disk with less
  than a megabyte left is taken for one that needs no cleaning.\<close>

theorem disk_cleanup_spins:
  assumes "plain_names d"
  shows "(space_under_water_level level d \<and> (logs d = [] \<or> \<not> fopen_ok \<or> \<not> can (fst (hd (logs d)))) \<longrightarrow>
      cleanup can fopen_ok level d = None) \<and>
    (fs_free_space d = 0 \<longrightarrow> cleanup can fopen_ok level d = Some d)"
proof -
  have "\<exists>ret. delete_the_oldest_file can fopen_ok d = Some (ret, d)"
    if "logs d = [] \<or> \<not> fopen_ok \<or> \<not> can (fst (hd (logs d)))"
  proof (cases "fopen_ok \<and> logs d \<noteq> []")
    case True
    then obtain e es where "logs d = e # es" by (cases "logs d") auto
    with that True delete_the_oldest[OF assms this, of can] show ?thesis by auto
  next
    case False
    then show ?thesis by (auto simp: delete_the_oldest_file_def get_the_oldest_file_def find_logs fgets_def)
  qed
  then have "space_under_water_level level d \<and> (logs d = [] \<or> \<not> fopen_ok \<or> \<not> can (fst (hd (logs d)))) \<longrightarrow>
      cleanup can fopen_ok level d = None"
    using cleanup_spins by blast
  moreover have "fs_free_space d = 0 \<longrightarrow> cleanup can fopen_ok level d = Some d"
    by (subst cleanup.simps) (simp add: space_under_water_level_def)
  ultimately show ?thesis by blast
qed

lemma monitor_loop_quiet:
  "\<forall>r \<in> set xs. 2 \<notin> set (fst r) \<and> (\<forall>signo \<in> set (fst r). \<not> sig_ends {2} signo) \<Longrightarrow> c + length xs < 10 \<Longrightarrow>
     monitor_loop can fopen_ok level (xs @ ys) False (of_nat c, d) =
     monitor_loop can fopen_ok level ys False (of_nat (c + length xs), fold (\<lambda>r d. snd r d) xs d)"
proof (induction xs arbitrary: c d)
  case (Cons r xs)
  obtain signos others where r: "r = (signos, others)" by (cases r)
  have "unat (of_nat (Suc c) :: u64) = Suc c" by (rule unat_of_nat_small) (use Cons.prems(2) in simp)
  then have "unat ((of_nat (Suc c) :: u64) mod 10) = Suc c" using Cons.prems(2) by (simp add: unat_mod del: of_nat_Suc)
  then have "unat ((of_nat c + 1 :: u64) mod 10) \<noteq> 0" by (simp add: add.commute)
  then have "(of_nat c + 1 :: u64) mod 10 \<noteq> 0" by (metis unat_0)
  then have t: "monitor_turn can fopen_ok level (of_nat c, others d) = Some (of_nat (Suc c), others d)"
    by (simp add: monitor_turn_def add.commute)
  have s: "fold monitor_sig_handler signos False = False"
    using Cons.prems(1) by (auto simp: r monitor_sig_handler_fold)
  have f: "List.find (sig_ends {2}) signos = None" using Cons.prems(1) by (auto simp: r find_None_iff)
  show ?case using Cons.IH[of "Suc c" "others d"] Cons.prems by (simp add: r t s f)
qed simp

text \<open>C31: Let files be logs when their name does not begin with a dot and has \<open>log\<close> behind some other character,
  as the pattern of the program has it. In the ten seconds of ten turns of the loop other programs may do what they like,
  and then there are so many logs with names of fewer than 120 printing characters, the oldest of which can be removed, that without the
  oldest \<open>k\<close> of them, and not without fewer, the free space reaches the level of the command line, being at least
  one megabyte all the time (with less the monitor cleans nothing). The
  monitor, whose work file can be opened, then has removed just these logs and no other file, and the free space has reached the level. It
  ends when SIGINT came in the last turn and goes on otherwise, if there was no SIGINT before and no signal that ends the program at once.\<close>

theorem disk_monitor_cleans:
  assumes "length xs = 9" "\<forall>r \<in> set xs. 2 \<notin> set (fst r)"
    "\<forall>r \<in> set (xs @ [(signos, others)]). \<forall>signo \<in> set (fst r). \<not> sig_ends {2} signo"
    "now = others (fold (\<lambda>r d. snd r d) xs d)" "level = monitor_level argv d"
    "plain_names now" "k \<le> length (logs now)" "\<forall>e \<in> set (take k (logs now)). can (fst e)"
    "\<forall>j<k. 0 < fs_free_space (after j now) \<and> fs_free_space (after j now) < level" "level \<le> fs_free_space (after k now)"
  shows "\<exists>d'. disk_monitor_main can True argv d (xs @ [(signos, others)]) =
      Some (d', if 2 \<in> set signos then Ended else Goes_on) \<and>
    logs d' = drop k (logs now) \<and> level \<le> fs_free_space d' \<and>
    filter (\<lambda>e. \<not> listed (fst e)) (files d') = filter (\<lambda>e. \<not> listed (fst e)) (files now)"
proof -
  have u: "\<forall>j<k. space_under_water_level level (after j now)" "\<not> space_under_water_level level (after k now)"
    using assms(9,10) by (auto simp: space_under_water_level_def)
  let ?d = "after k now"
  have d': "cleanup can True level now = Some ?d" by (rule cleanup_deletes[OF assms(6-8) u])
  have "\<forall>r \<in> set xs. 2 \<notin> set (fst r) \<and> (\<forall>signo \<in> set (fst r). \<not> sig_ends {2} signo)" using assms(2,3) by auto
  from monitor_loop_quiet[OF this, of 0 can True level "[(signos, others)]" d] assms(1)
  have "monitor_loop can True level (xs @ [(signos, others)]) False (0, d) =
      monitor_loop can True level [(signos, others)] False (9, fold (\<lambda>r d. snd r d) xs d)" by simp
  also have "\<dots> = Some (?d, if 2 \<in> set signos then Ended else Goes_on)"
  proof -
    have "List.find (sig_ends {2}) signos = None" using assms(3) by (auto simp: find_None_iff)
    then show ?thesis using d' assms(4) by (simp add: monitor_turn_def monitor_sig_handler_fold)
  qed
  finally show ?thesis using after_facts[OF assms(7)] assms(5,10) by (simp add: disk_monitor_main_def)
qed

section \<open>An example\<close>

text \<open>Megabyte blocks, two of them free; the second entry is not a log, but matches.\<close>

definition demo_fs :: fs where
  "demo_fs = \<lparr>files = [(''a.log'', 3), (''data'', 5), (''catalog'', 4)], f_bavail = 2, f_bsize = 1048576\<rparr>"

lemma demo_listed: "listed ''a.log''" "listed ''catalog''" "\<not> listed ''data''"
  by (simp_all add: listed_def)

lemma demo_facts:
  "plain_names demo_fs" "logs demo_fs = [(''a.log'', 3), (''catalog'', 4)]"
  "space_under_water_level 5 demo_fs" "\<not> space_under_water_level 5 (after 1 demo_fs)"
  by (auto simp: plain_names_def logs_def demo_fs_def demo_listed isgraph_def space_under_water_level_def fs_free_space_def
      after_def without_def)

theorem disk_cleanup_oldest_witness:
  "\<exists>d. cleanup (\<lambda>_. True) True 5 demo_fs = Some d \<and> logs d = [(''catalog'', 4)]"
proof -
  have "\<forall>j<1. space_under_water_level 5 (after j demo_fs)" using demo_facts(3) by (simp add: after_def)
  from disk_cleanup_oldest[of demo_fs 1 "\<lambda>_. True", OF demo_facts(1) _ _ this demo_facts(4)] show ?thesis
    by (auto simp: demo_facts(2))
qed

theorem disk_monitor_cleans_witness:
  "\<exists>d. disk_monitor_main (\<lambda>_. True) True [''disk_monitor'', ''-n'', ''5''] (demo_fs\<lparr>f_bavail := 9\<rparr>)
      (replicate 9 ([17], \<lambda>d. d) @ [([2], \<lambda>d. d\<lparr>f_bavail := 2\<rparr>)]) = Some (d, Ended) \<and> logs d = [(''catalog'', 4)]"
proof -
  have g: "getopt ''n:t:'' [''disk_monitor'', ''-n'', ''5''] = [(of_char (CHR ''n''), Some ''5'')]" by code_simp
  have a: "atoi ''5'' = 5" by code_simp
  have l: "5 = monitor_level [''disk_monitor'', ''-n'', ''5''] (demo_fs\<lparr>f_bavail := 9\<rparr>)"
    by (simp add: monitor_level_def disk_parse_args_def disk_arg_def g a)
  have "fold (\<lambda>r d. snd r d) (replicate n ([17], \<lambda>d. d)) e = e" for n and e :: fs by (induction n) auto
  then have now: "demo_fs = (\<lambda>d. d\<lparr>f_bavail := 2\<rparr>) (fold (\<lambda>r d. snd r d) (replicate 9 ([17], \<lambda>d. d)) (demo_fs\<lparr>f_bavail := 9\<rparr>))"
    by (simp add: demo_fs_def)
  have w: "\<forall>j<1. 0 < fs_free_space (after j demo_fs) \<and> fs_free_space (after j demo_fs) < 5"
    using demo_facts(3) by (simp add: after_def space_under_water_level_def)
  have v: "5 \<le> fs_free_space (after 1 demo_fs)"
    by (simp add: after_def without_def demo_facts(2) fs_free_space_def) (simp add: demo_fs_def)
  have s: "length (replicate 9 ([17 :: nat], \<lambda>d :: fs. d)) = 9" "\<forall>r \<in> set (replicate 9 ([17 :: nat], \<lambda>d :: fs. d)). 2 \<notin> set (fst r)"
      "\<forall>r \<in> set (replicate 9 ([17 :: nat], \<lambda>d :: fs. d) @ [([2], \<lambda>d. d\<lparr>f_bavail := 2\<rparr>)]). \<forall>signo \<in> set (fst r). \<not> sig_ends {2} signo"
    by (simp_all add: sig_ends_def)
  note c = disk_monitor_cleans[where xs = "replicate 9 ([17 :: nat], \<lambda>d :: fs. d)" and now = demo_fs and k = 1 and level = 5 and
      others = "\<lambda>d. d\<lparr>f_bavail := 2\<rparr>" and d = "demo_fs\<lparr>f_bavail := 9\<rparr>" and argv = "[''disk_monitor'', ''-n'', ''5'']" and
      can = "\<lambda>_. True" and signos = "[2]"]
  from c[OF s now l demo_facts(1) _ _ w v] show ?thesis
    by (auto simp: demo_facts(2))
qed

theorem disk_cleanup_spins_witness:
  "cleanup (\<lambda>name. name \<noteq> ''a.log'') True 5 demo_fs = None"
  using disk_cleanup_spins[OF demo_facts(1), of 5 True "\<lambda>name. name \<noteq> ''a.log''"] by (simp add: demo_facts)

end
