(* ===== verification/DropPackets.thy ===== *)
theory DropPackets
  imports Prelude
begin

text \<open>
  \<open>misc/drop_packets/drop_packets.c\<close>: a module that takes every packet of one network device and counts
  what it drops per processor. Of the device the model has the flag \<open>IFF_DISABLE_NETPOLL\<close>, the count of
  references and whether the handler is registered. \<open>nr_cpus\<close> and \<open>netpoll\<close> (\<open>CONFIG_NETPOLL\<close>) are the
  kernel's configuration. \<open>None\<close>: the structure is used after it was freed, or a wrong index.
\<close>

definition ENODEV :: int where "ENODEV = 19"
definition ENOMEM :: int where "ENOMEM = 12"
definition EBUSY :: int where "EBUSY = 16"

section \<open>State\<close>

record netif_info =
  dsb_np_bit_orig :: bool
  pkt_drop_cnt :: "u64 list"
  byte_drop_cnt :: "u64 list"

record drop_mod =
  netif :: "netif_info option"
  dev_no_netpoll :: bool
  dev_refs :: int
  handler :: bool
  freed_skbs :: nat

text \<open>The device before the module is loaded.\<close>

definition plain_dev :: "bool \<Rightarrow> int \<Rightarrow> drop_mod" where
  "plain_dev flag refs = \<lparr>netif = None, dev_no_netpoll = flag, dev_refs = refs, handler = False, freed_skbs = 0\<rparr>"

section \<open>Operations\<close>

text \<open>\<open>exists\<close>: a device of the name is found; it then has a reference more.\<close>

definition get_netif_info :: "nat \<Rightarrow> bool \<Rightarrow> drop_mod \<Rightarrow> int \<times> drop_mod" where
  "get_netif_info nr_cpus dev_exists s =
     (if \<not> dev_exists then (- ENODEV, s)
      else (0, s\<lparr>dev_refs := dev_refs s + 1,
        netif := Some \<lparr>dsb_np_bit_orig = dev_no_netpoll s, pkt_drop_cnt = replicate nr_cpus 0, byte_drop_cnt = replicate nr_cpus 0\<rparr>\<rparr>))"

text \<open>\<open>seen\<close>: the handler's data is not yet reset when the packet arrives. Its processor and length.\<close>

definition drop_packet :: "bool \<Rightarrow> nat \<Rightarrow> u32 \<Rightarrow> drop_mod \<Rightarrow> drop_mod option" where
  "drop_packet seen this_cpu len s =
     (if seen then
        (case netif s of
           None \<Rightarrow> None
         | Some n \<Rightarrow>
             if length (pkt_drop_cnt n) \<le> this_cpu then None
             else Some (s\<lparr>netif := Some (n\<lparr>pkt_drop_cnt := (pkt_drop_cnt n)[this_cpu := pkt_drop_cnt n ! this_cpu + 1],
                 byte_drop_cnt := (byte_drop_cnt n)[this_cpu := byte_drop_cnt n ! this_cpu + ucast len]\<rparr>),
               freed_skbs := freed_skbs s + 1\<rparr>))
      else Some (s\<lparr>freed_skbs := freed_skbs s + 1\<rparr>))"

definition netif_drop_packets_disable :: "drop_mod \<Rightarrow> drop_mod option" where
  "netif_drop_packets_disable s =
     (case netif s of
        None \<Rightarrow> None
      | Some n \<Rightarrow> Some (s\<lparr>dev_no_netpoll := (dsb_np_bit_orig n \<and> dev_no_netpoll s), handler := False,
          dev_refs := dev_refs s - 1, netif := None\<rparr>))"

text \<open>\<open>reg_ret\<close> is what the registration of the handler returns; \<open>npinfo\<close>: netpoll is set up on the device.\<close>

definition netif_drop_packets_enable :: "bool \<Rightarrow> int \<Rightarrow> bool \<Rightarrow> drop_mod \<Rightarrow> (int \<times> drop_mod) option" where
  "netif_drop_packets_enable netpoll reg_ret npinfo s =
     (if reg_ret \<noteq> 0 then Some (reg_ret, s)
      else let s1 = s\<lparr>handler := True\<rparr>
      in if \<not> netpoll then Some (0, s1)
      else let s2 = s1\<lparr>dev_no_netpoll := True\<rparr>
      in if npinfo then map_option (Pair (- EBUSY)) (netif_drop_packets_disable s2) else Some (0, s2))"

text \<open>\<open>kmalloc\<close> gives the structure with any contents.\<close>

definition the_init ::
    "nat \<Rightarrow> bool \<Rightarrow> netif_info option \<Rightarrow> bool \<Rightarrow> int \<Rightarrow> bool \<Rightarrow> drop_mod \<Rightarrow> (int \<times> drop_mod) option" where
  "the_init nr_cpus netpoll mem dev_exists reg_ret npinfo s =
     (if mem = None then Some (- ENOMEM, s)
      else let (err, s1) = get_netif_info nr_cpus dev_exists (s\<lparr>netif := mem\<rparr>)
           in if err \<noteq> 0 then Some (err, s1) else netif_drop_packets_enable netpoll reg_ret npinfo s1)"

definition the_exit :: "drop_mod \<Rightarrow> drop_mod option" where
  "the_exit s = netif_drop_packets_disable s"

section \<open>Packets\<close>

text \<open>The packets the device gets while the handler is registered: processor and length.\<close>

fun drop_all :: "(nat \<times> u32) list \<Rightarrow> drop_mod \<Rightarrow> drop_mod option" where
  "drop_all [] s = Some s"
| "drop_all ((c, len) # ps) s = do { s \<leftarrow> drop_packet True c len s; drop_all ps s }"

definition counted :: "nat \<Rightarrow> (nat \<times> u32) list \<Rightarrow> netif_info \<Rightarrow> bool" where
  "counted nr_cpus ps n \<longleftrightarrow> length (pkt_drop_cnt n) = nr_cpus \<and> length (byte_drop_cnt n) = nr_cpus \<and>
     (\<forall>c<nr_cpus. pkt_drop_cnt n ! c = of_nat (length (filter (\<lambda>p. fst p = c) ps)) \<and>
        byte_drop_cnt n ! c = (\<Sum>p\<leftarrow>filter (\<lambda>p. fst p = c) ps. ucast (snd p)))"

lemma drop_all_counts:
  assumes "netif s = Some n" "counted nr_cpus qs n" "\<forall>(c, _) \<in> set ps. c < nr_cpus"
  shows "\<exists>n'. drop_all ps s = Some (s\<lparr>netif := Some n', freed_skbs := freed_skbs s + length ps\<rparr>) \<and>
    counted nr_cpus (qs @ ps) n' \<and> dsb_np_bit_orig n' = dsb_np_bit_orig n"
  using assms
proof (induction ps arbitrary: s n qs)
  case Nil
  then have "s = s\<lparr>netif := Some n\<rparr>" by (cases s) simp
  with Nil show ?case by (intro exI[of _ n]) simp_all
next
  case (Cons p ps)
  obtain c len where p: "p = (c, len)" by (cases p)
  let ?n1 = "n\<lparr>pkt_drop_cnt := (pkt_drop_cnt n)[c := pkt_drop_cnt n ! c + 1],
    byte_drop_cnt := (byte_drop_cnt n)[c := byte_drop_cnt n ! c + ucast len]\<rparr>"
  let ?s1 = "s\<lparr>netif := Some ?n1, freed_skbs := freed_skbs s + 1\<rparr>"
  have c: "c < nr_cpus" "c < length (pkt_drop_cnt n)" using Cons.prems(2,3) by (auto simp: p counted_def)
  have "drop_packet True c len s = Some ?s1" using Cons.prems(1) c(2) by (simp add: drop_packet_def)
  moreover have "counted nr_cpus (qs @ [p]) ?n1"
    using Cons.prems(2) c by (auto simp: counted_def p nth_list_update add.commute)
  with Cons.IH[of ?s1 ?n1 "qs @ [p]"] Cons.prems(3) obtain n' where
    "drop_all ps ?s1 = Some (?s1\<lparr>netif := Some n', freed_skbs := freed_skbs ?s1 + length ps\<rparr>)"
    "counted nr_cpus ((qs @ [p]) @ ps) n'" "dsb_np_bit_orig n' = dsb_np_bit_orig ?n1" by auto
  ultimately show ?case by (auto simp: p)
qed

section \<open>Properties\<close>

text \<open>Once loaded, the module drops every packet: each is freed exactly once and counted, with its length,
  on its processor; unloading then gives the device back as it was.\<close>

theorem drop_packets_counts:
  assumes "the_init nr_cpus netpoll mem dev_exists reg_ret npinfo (plain_dev flag refs) = Some (0, s)"
    "\<forall>(c, _) \<in> set ps. c < nr_cpus"
  shows "\<exists>s' n. drop_all ps s = Some s' \<and> freed_skbs s' = length ps \<and> netif s' = Some n \<and>
    (\<forall>c<nr_cpus. pkt_drop_cnt n ! c = of_nat (length (filter (\<lambda>p. fst p = c) ps)) \<and>
       byte_drop_cnt n ! c = (\<Sum>p\<leftarrow>filter (\<lambda>p. fst p = c) ps. ucast (snd p))) \<and>
    the_exit s' = Some ((plain_dev flag refs)\<lparr>freed_skbs := length ps\<rparr>)"
proof -
  let ?n = "\<lparr>dsb_np_bit_orig = flag, pkt_drop_cnt = replicate nr_cpus 0, byte_drop_cnt = replicate nr_cpus 0\<rparr> :: netif_info"
  from assms(1) have s: "s = \<lparr>netif = Some ?n, dev_no_netpoll = (flag \<or> netpoll), dev_refs = refs + 1, handler = True, freed_skbs = 0\<rparr>"
    by (auto simp: the_init_def get_netif_info_def netif_drop_packets_enable_def netif_drop_packets_disable_def
        plain_dev_def ENOMEM_def ENODEV_def EBUSY_def Let_def split: if_splits)
  have "counted nr_cpus [] ?n" by (simp add: counted_def)
  from drop_all_counts[OF _ this assms(2), of s] obtain n where
    "drop_all ps s = Some (s\<lparr>netif := Some n, freed_skbs := freed_skbs s + length ps\<rparr>)"
    "counted nr_cpus ps n" "dsb_np_bit_orig n = flag" by (auto simp: s)
  then show ?thesis
    by (auto simp: counted_def s the_exit_def netif_drop_packets_disable_def plain_dev_def)
qed

text \<open>When loading fails after the structure was allocated, only the case that netpoll is in use cleans up:
  without the device the structure is leaked, and when the handler cannot be registered the structure and
  a reference to the device.\<close>

theorem drop_packets_init_leaks:
  assumes "mem \<noteq> None" "reg_ret \<noteq> 0"
  shows "the_init nr_cpus netpoll mem False reg_ret npinfo (plain_dev flag refs) = Some (- ENODEV, (plain_dev flag refs)\<lparr>netif := mem\<rparr>) \<and>
    (\<exists>s. the_init nr_cpus netpoll mem True reg_ret npinfo (plain_dev flag refs) = Some (reg_ret, s) \<and>
      netif s \<noteq> None \<and> dev_refs s = refs + 1) \<and>
    the_init nr_cpus True mem True 0 True (plain_dev flag refs) = Some (- EBUSY, plain_dev flag refs)"
  using assms
  by (auto simp: the_init_def get_netif_info_def netif_drop_packets_enable_def netif_drop_packets_disable_def plain_dev_def
      ENODEV_def Let_def)

definition demo_mem :: netif_info where
  "demo_mem = \<lparr>dsb_np_bit_orig = True, pkt_drop_cnt = [7, 7], byte_drop_cnt = [7, 7]\<rparr>"

lemma drop_packets_demo:
  "the_init 2 True (Some demo_mem) True 0 False (plain_dev False 3) =
    Some (0, \<lparr>netif = Some \<lparr>dsb_np_bit_orig = False, pkt_drop_cnt = [0, 0], byte_drop_cnt = [0, 0]\<rparr>,
      dev_no_netpoll = True, dev_refs = 4, handler = True, freed_skbs = 0\<rparr>)"
  by (simp add: the_init_def get_netif_info_def netif_drop_packets_enable_def plain_dev_def Let_def numeral_2_eq_2)

theorem drop_packets_counts_witness:
  "\<exists>s n. drop_all [(1, 60), (0, 40), (1, 9)] \<lparr>netif = Some \<lparr>dsb_np_bit_orig = False, pkt_drop_cnt = [0, 0], byte_drop_cnt = [0, 0]\<rparr>,
      dev_no_netpoll = True, dev_refs = 4, handler = True, freed_skbs = 0\<rparr> = Some s \<and> netif s = Some n \<and>
    pkt_drop_cnt n ! 1 = 2 \<and> byte_drop_cnt n ! 1 = 69"
  using drop_packets_counts[OF drop_packets_demo, of "[(1, 60), (0, 40), (1, 9)]"] by auto

theorem drop_packets_init_leaks_witness:
  "\<exists>s. the_init 2 True (Some demo_mem) True (- 16) False (plain_dev False 3) = Some (- 16, s) \<and> dev_refs s = 4"
  using drop_packets_init_leaks[of "Some demo_mem" "- 16" 2 True False False 3] by auto

end
