(* ===== verification/Fucai.thy ===== *)
theory Fucai
  imports Prelude
begin

text \<open>
  \<open>simple_apps/fucai_3d.c\<close>: counts the combinations of three digits by how many of them are equal and
  by their sum.
\<close>

definition TOTAL_HEZHI_NR :: nat where "TOTAL_HEZHI_NR = 28"

record t_cmb_stat =
  zusan_cnt :: int
  zuliu_cnt :: int
  hezhi_cnt :: "int list"

definition gt_cmb_stat :: t_cmb_stat where
  "gt_cmb_stat = \<lparr>zusan_cnt = 0, zuliu_cnt = 0, hezhi_cnt = replicate TOTAL_HEZHI_NR 0\<rparr>"

definition same_pair_cnt :: "nat \<Rightarrow> nat \<Rightarrow> nat \<Rightarrow> nat" where
  "same_pair_cnt i j k =
     (let ret = (if i = j then 1 else 0);
          ret = (if i = k then ret + 1 else ret)
      in if j = k then ret + 1 else ret)"

definition cmb_is_zusan :: "nat \<Rightarrow> nat \<Rightarrow> nat \<Rightarrow> bool" where
  "cmb_is_zusan i j k \<longleftrightarrow> same_pair_cnt i j k = 1"

definition cmb_is_zuliu :: "nat \<Rightarrow> nat \<Rightarrow> nat \<Rightarrow> bool" where
  "cmb_is_zuliu i j k \<longleftrightarrow> same_pair_cnt i j k = 0"

definition hezhi_of_cmb :: "nat \<Rightarrow> nat \<Rightarrow> nat \<Rightarrow> nat" where
  "hezhi_of_cmb i j k = i + j + k"

definition parse_single_cmb :: "nat \<times> nat \<times> nat \<Rightarrow> t_cmb_stat \<Rightarrow> t_cmb_stat" where
  "parse_single_cmb = (\<lambda>(i, j, k) s.
     let s = (if cmb_is_zusan i j k then s\<lparr>zusan_cnt := zusan_cnt s + 1\<rparr> else s);
         s = (if cmb_is_zuliu i j k then s\<lparr>zuliu_cnt := zuliu_cnt s + 1\<rparr> else s);
         h = hezhi_of_cmb i j k
     in s\<lparr>hezhi_cnt := (hezhi_cnt s)[h := hezhi_cnt s ! h + 1]\<rparr>)"

text \<open>The three nested loops, in their order.\<close>

definition combinations :: "(nat \<times> nat \<times> nat) list" where
  "combinations = [(i, j, k). i \<leftarrow> [0..<10], j \<leftarrow> [0..<10], k \<leftarrow> [0..<10]]"

definition collect_stat :: "t_cmb_stat \<Rightarrow> t_cmb_stat" where
  "collect_stat s = fold parse_single_cmb combinations s"

section \<open>What is counted\<close>

definition count_if :: "(nat \<times> nat \<times> nat \<Rightarrow> bool) \<Rightarrow> (nat \<times> nat \<times> nat) list \<Rightarrow> int" where
  "count_if P cs = int (length (filter P cs))"

lemma fold_parse_cmb:
  "length (hezhi_cnt s) = 28 \<Longrightarrow> \<forall>(i, j, k) \<in> set cs. i + j + k < 28 \<Longrightarrow>
     zusan_cnt (fold parse_single_cmb cs s) = zusan_cnt s + count_if (\<lambda>(i, j, k). cmb_is_zusan i j k) cs \<and>
     zuliu_cnt (fold parse_single_cmb cs s) = zuliu_cnt s + count_if (\<lambda>(i, j, k). cmb_is_zuliu i j k) cs \<and>
     length (hezhi_cnt (fold parse_single_cmb cs s)) = 28 \<and>
     (\<forall>h<28. hezhi_cnt (fold parse_single_cmb cs s) ! h = hezhi_cnt s ! h + count_if (\<lambda>(i, j, k). i + j + k = h) cs)"
proof (induction cs arbitrary: s)
  case (Cons c cs)
  obtain i j k where c: "c = (i, j, k)" by (cases c)
  with Cons.prems Cons.IH[of "parse_single_cmb c s"] show ?case
    by (auto simp: count_if_def parse_single_cmb_def hezhi_of_cmb_def Let_def nth_list_update)
qed (simp add: count_if_def)

lemma gt_cmb_stat_zero: "zusan_cnt gt_cmb_stat = 0" "zuliu_cnt gt_cmb_stat = 0" "h < 28 \<Longrightarrow> hezhi_cnt gt_cmb_stat ! h = 0"
  unfolding gt_cmb_stat_def TOTAL_HEZHI_NR_def by (simp_all only: t_cmb_stat.simps nth_replicate)

lemma set_combinations: "set combinations = {0..<10} \<times> {0..<10} \<times> {0..<10}"
  by (auto simp: combinations_def)

lemma distinct_combinations: "distinct combinations"
proof -
  have "combinations = List.product [0..<10] (List.product [0..<10] [0..<10])"
    by (simp add: combinations_def product_concat_map map_concat comp_def)
  show ?thesis unfolding \<open>combinations = _\<close> by (intro distinct_product distinct_upt)
qed

lemma count_concat: "count_if P (concat (map f xs)) = (\<Sum>x\<leftarrow>xs. count_if P (f x))"
  by (induction xs) (simp_all add: count_if_def)

lemma count_combinations:
  "count_if P combinations = (\<Sum>i\<leftarrow>[0..<10]. \<Sum>j\<leftarrow>[0..<10]. int (card {k. k < 10 \<and> P (i, j, k)}))"
proof -
  have "length (filter P (map (\<lambda>k. (i, j, k)) [0..<10])) = card {k. k < 10 \<and> P (i, j, k)}" for i j
  proof -
    have "length (filter P (map (\<lambda>k. (i, j, k)) [0..<10])) = length (filter (\<lambda>k. P (i, j, k)) [0..<10])"
      by (simp only: filter_map length_map comp_def)
    also have "\<dots> = card (set (filter (\<lambda>k. P (i, j, k)) [0..<10]))"
      by (intro distinct_card[symmetric] distinct_filter distinct_upt)
    also have "set (filter (\<lambda>k. P (i, j, k)) [0..<10]) = {k. k < 10 \<and> P (i, j, k)}"
      unfolding set_filter set_upt by auto
    finally show ?thesis .
  qed
  then show ?thesis by (simp only: combinations_def count_concat) (simp only: count_if_def)
qed

lemma zusan_row: "i < 10 \<Longrightarrow> j < 10 \<Longrightarrow> card {k. k < 10 \<and> cmb_is_zusan i j k} = (if i = j then 9 else 2)"
proof -
  assume "i < 10" "j < 10"
  then have "{k. k < 10 \<and> cmb_is_zusan i j k} = (if i = j then {..<10} - {i} else {i, j})"
    by (auto simp: cmb_is_zusan_def same_pair_cnt_def)
  with \<open>i < 10\<close> show ?thesis by simp
qed

lemma zuliu_row: "i < 10 \<Longrightarrow> j < 10 \<Longrightarrow> card {k. k < 10 \<and> cmb_is_zuliu i j k} = (if i = j then 0 else 8)"
proof -
  assume "i < 10" "j < 10"
  then have "{k. k < 10 \<and> cmb_is_zuliu i j k} = (if i = j then {} else {..<10} - {i, j})"
    by (auto simp: cmb_is_zuliu_def same_pair_cnt_def)
  with \<open>i < 10\<close> \<open>j < 10\<close> show ?thesis by (simp add: card_Diff_subset)
qed

lemma zusan_number: "count_if (\<lambda>(i, j, k). cmb_is_zusan i j k) combinations = 270"
  by (simp add: count_combinations zusan_row upt_rec)

lemma zuliu_number: "count_if (\<lambda>(i, j, k). cmb_is_zuliu i j k) combinations = 720"
  by (simp add: count_combinations zuliu_row upt_rec)

text \<open>Of the thousand combinations 270 have exactly two equal digits and 720 none; the entry of a sum is the
  number of combinations with this sum, and no index leaves the array.\<close>

theorem fucai_counts:
  "zusan_cnt (collect_stat gt_cmb_stat) = 270 \<and> zuliu_cnt (collect_stat gt_cmb_stat) = 720 \<and>
   length (hezhi_cnt (collect_stat gt_cmb_stat)) = TOTAL_HEZHI_NR \<and>
   (\<forall>h<TOTAL_HEZHI_NR. hezhi_cnt (collect_stat gt_cmb_stat) ! h =
     int (card {(i, j, k). i < 10 \<and> j < 10 \<and> k < 10 \<and> i + j + k = h}))"
proof -
  have "count_if (\<lambda>(i, j, k). i + j + k = h) combinations = int (card {(i, j, k). i < 10 \<and> j < 10 \<and> k < 10 \<and> i + j + k = h})" for h
  proof -
    have d: "distinct (filter (\<lambda>(i, j, k). i + j + k = h) combinations)" by (simp add: distinct_combinations)
    have "set (filter (\<lambda>(i, j, k). i + j + k = h) combinations) = {(i, j, k). i < 10 \<and> j < 10 \<and> k < 10 \<and> i + j + k = h}"
      by (auto simp: set_combinations)
    with distinct_card[OF d] show ?thesis by (simp only: count_if_def)
  qed
  moreover have len: "length (hezhi_cnt gt_cmb_stat) = 28" "\<forall>(i, j, k) \<in> set combinations. i + j + k < 28"
    unfolding set_combinations by (auto simp: gt_cmb_stat_def TOTAL_HEZHI_NR_def)
  note f = fold_parse_cmb[OF len, folded collect_stat_def]
  have "zusan_cnt (collect_stat gt_cmb_stat) = zusan_cnt gt_cmb_stat + 270" "zuliu_cnt (collect_stat gt_cmb_stat) = zuliu_cnt gt_cmb_stat + 720"
    using f unfolding zusan_number zuliu_number by blast+
  moreover have "length (hezhi_cnt (collect_stat gt_cmb_stat)) = 28"
    "hezhi_cnt (collect_stat gt_cmb_stat) ! h = hezhi_cnt gt_cmb_stat ! h + count_if (\<lambda>(i, j, k). i + j + k = h) combinations" if "h < 28" for h
    using f that by blast+
  ultimately show ?thesis unfolding TOTAL_HEZHI_NR_def using gt_cmb_stat_zero f by (intro conjI allI impI) simp_all
qed

theorem fucai_counts_witness:
  "hezhi_cnt (collect_stat gt_cmb_stat) ! 1 = int (card {(i, j, k). i < 10 \<and> j < 10 \<and> k < 10 \<and> i + j + k = (1 :: nat)})"
  using fucai_counts unfolding TOTAL_HEZHI_NR_def by (elim conjE allE[of _ 1]) linarith

end
