(* ===== verification/SysUtils.thy ===== *)
theory SysUtils
  imports CLib
begin

text \<open>
  \<open>src/misc_utils.c\<close>, \<open>src/sys_utils.c\<close> and \<open>src/daemon.c\<close>: sleeping, the program's own path, waiting
  for a file, creating threads, and turning a process into a daemon. What the kernel returns is an argument.
\<close>

section \<open>misc_utils.c\<close>

text \<open>Times in nanoseconds. A call of \<open>nanosleep\<close> sleeps all of its time, is interrupted after a part of it, or
  is refused; it then stores no remaining time. \<open>None\<close>: still sleeping. Returned is the time slept.\<close>

datatype nap = Whole | Part nat | Refused

fun nano_sleep :: "nat \<Rightarrow> nap list \<Rightarrow> nat option" where
  "nano_sleep remain [] = (if remain = 0 then Some 0 else None)"
| "nano_sleep remain (nap # naps) =
     (if remain = 0 then Some 0
      else case nap of
        Whole \<Rightarrow> Some remain
      | Part t \<Rightarrow> map_option (\<lambda>s. min t remain + s) (nano_sleep (remain - t) naps)
      | Refused \<Rightarrow> Some 0)"

text \<open>\<open>readlink\<close> stores at most \<open>buf_len\<close> characters and no NUL; \<open>link\<close> is the target, when there is one.\<close>

definition get_self_path :: "string option \<Rightarrow> nat \<Rightarrow> int \<times> string option" where
  "get_self_path link buf_len =
     (case link of
        None \<Rightarrow> (-1, None)
      | Some path \<Rightarrow>
          let ret = length (take buf_len path)
          in if ret \<ge> buf_len then (-1, None) else (int ret, Some (take ret path)))"

text \<open>The loop that cuts the path after its last slash.\<close>

fun cut_to_slash :: "string \<Rightarrow> nat \<Rightarrow> nat" where
  "cut_to_slash path 0 = 0"
| "cut_to_slash path (Suc n) = (if path ! n \<noteq> CHR ''/'' then cut_to_slash path n else Suc n)"

definition get_self_dir :: "string option \<Rightarrow> nat \<Rightarrow> int \<times> string option" where
  "get_self_dir link buf_len =
     (case get_self_path link 1024 of
        (path_len, self_path) \<Rightarrow>
          if path_len \<le> 0 then (-1, None)
          else let n = cut_to_slash (the self_path) (nat path_len)
               in if n \<le> 0 then (-1, None)
                  else if buf_len \<le> n then (-1, None)
                  else (int n, Some (take n (the self_path))))"

text \<open>The directory the process changes to, if any; \<open>chdir_ret\<close> is what \<open>chdir\<close> returns.\<close>

definition set_workdir_to_self_path :: "string option \<Rightarrow> int \<Rightarrow> int \<times> string option" where
  "set_workdir_to_self_path link chdir_ret =
     (case get_self_dir link 1024 of
        (n, dir) \<Rightarrow> if n \<le> 0 then (-1, None) else (chdir_ret, if chdir_ret = 0 then dir else None))"

text \<open>What the file contains afterwards.\<close>

definition genPIDfile :: "bool \<Rightarrow> int \<Rightarrow> int \<times> string option" where
  "genPIDfile fopen_ok pid = (if \<not> fopen_ok then (-1, None) else (0, Some (show_int pid @ [LF])))"

definition file_exists :: "int \<Rightarrow> bool" where
  "file_exists stat_ret \<longleftrightarrow> stat_ret = 0"

text \<open>\<open>stats\<close>: what \<open>stat\<close> returns each time. Returned are the result and the seconds slept.\<close>

fun wait_for_file_exists :: "int \<Rightarrow> int list \<Rightarrow> (int \<times> nat) option" where
  "wait_for_file_exists sec [] = None"
| "wait_for_file_exists sec (r # stats) =
     (if file_exists r then Some (1, 0)
      else if sec \<le> 0 then Some (0, 0)
      else map_option (\<lambda>(ret, n). (ret, Suc n)) (wait_for_file_exists (sec - 1) stats))"

section \<open>sys_utils.c\<close>

definition make_cpu_set :: "int \<Rightarrow> int \<Rightarrow> int set" where
  "make_cpu_set cpu_idx_begin cpu_idx_end = {cpu_idx_begin..cpu_idx_end}"

text \<open>The attributes of a thread to be created. A new attribute object says that the scheduling is
  inherited from the creating thread.\<close>

datatype policy = SCHED_OTHER | SCHED_FIFO | SCHED_RR

record attr =
  affinity :: "int set option"
  policy :: policy
  priority :: int
  inherit :: bool

definition pthread_attr_init :: attr where
  "pthread_attr_init = \<lparr>affinity = None, policy = SCHED_OTHER, priority = 0, inherit = True\<rparr>"

record thread =
  cpus :: "int set"
  sched :: "policy \<times> int"

definition pthread_create :: "attr \<Rightarrow> thread \<Rightarrow> thread" where
  "pthread_create a creator =
     \<lparr>cpus = (case affinity a of None \<Rightarrow> cpus creator | Some s \<Rightarrow> s),
      sched = (if inherit a then sched creator else (policy a, priority a))\<rparr>"

text \<open>\<open>rets\<close> are the results of the calls, in their order: initialisation, affinity, policy,
  parameter, creation.\<close>

definition create_thread_full ::
    "int \<times> int \<times> int \<times> int \<times> int \<Rightarrow> int \<Rightarrow> int \<Rightarrow> policy \<Rightarrow> int \<Rightarrow> thread \<Rightarrow> int \<times> thread option" where
  "create_thread_full rets cpu_idx_begin cpu_idx_end pol sched_priority creator =
     (case rets of (init, aff, setpol, setparam, create) \<Rightarrow>
        if init \<noteq> 0 then (-1, None)
        else let bind = cpu_idx_begin \<ge> 0 \<and> cpu_idx_end \<ge> 0;
                 a = (if bind then pthread_attr_init\<lparr>affinity := Some (make_cpu_set cpu_idx_begin cpu_idx_end)\<rparr>
                      else pthread_attr_init)
        in if bind \<and> aff \<noteq> 0 then (-1, None)
        else if setpol \<noteq> 0 then (-1, None)
        else let a = a\<lparr>policy := pol, priority := (if pol \<noteq> SCHED_FIFO \<and> pol \<noteq> SCHED_RR then 0 else sched_priority)\<rparr>
        in if setparam \<noteq> 0 then (-1, None)
        else if create \<noteq> 0 then (-1, None)
        else (0, Some (pthread_create a creator)))"

definition get_cpu_freq :: "u64 \<Rightarrow> u64 \<Rightarrow> u64" where
  "get_cpu_freq t1 t2 = (t2 - t1) div 1000000 * 1000000"

section \<open>daemon.c\<close>

text \<open>A descriptor refers to a file, by its name. \<open>leader\<close>: the process leads its session and could get a
  terminal; \<open>ignored\<close>: signals that are ignored, 1 is \<open>SIGHUP\<close> and the real-time signals are 34 to 64.\<close>

record process =
  fds :: "int \<rightharpoonup> string"
  umask :: nat
  leader :: bool
  ignored :: "int set"
  log_name :: "string option"

definition signal_config :: "process \<Rightarrow> process" where
  "signal_config p = p\<lparr>ignored := ignored p \<union> {1} \<union> {34..64}\<rparr>"

text \<open>\<open>rlim_max\<close>: the limit \<open>getrlimit\<close> stores, \<open>None\<close> when it fails or is infinite. \<open>close_from\<close> is the loop.\<close>

definition close_from :: "int \<Rightarrow> int \<Rightarrow> process \<Rightarrow> process" where
  "close_from a b p = p\<lparr>fds := fds p |` {i. \<not> (a \<le> i \<and> i < b)}\<rparr>"

text \<open>The lowest free descriptor, as \<open>open\<close> and \<open>dup\<close> choose it.\<close>

definition lowest_free :: "process \<Rightarrow> int" where
  "lowest_free p = (if fds p 0 = None then 0 else if fds p 1 = None then 1 else if fds p 2 = None then 2 else 3)"

definition new_fd :: "string \<Rightarrow> process \<Rightarrow> process" where
  "new_fd file p = p\<lparr>fds := (fds p)(lowest_free p \<mapsto> file)\<rparr>"

text \<open>The process that is left after both forks, the second one in the new session; \<open>None\<close> when a fork, or \<open>setsid\<close>, fails.\<close>

definition daemonize :: "bool \<Rightarrow> bool \<Rightarrow> bool \<Rightarrow> int option \<Rightarrow> bool \<Rightarrow> string option \<Rightarrow> process \<Rightarrow> process option" where
  "daemonize fork1_ok setsid_ok fork2_ok rlim_max redirect_std_io log_id p =
     (let p = p\<lparr>umask := 0\<rparr>
      in if \<not> fork1_ok then None
      else if \<not> setsid_ok then None
      else let p = signal_config (p\<lparr>leader := True\<rparr>)
      in if \<not> fork2_ok then None
      else let p = p\<lparr>leader := False\<rparr>;
               p = close_from 3 (case rlim_max of None \<Rightarrow> 1024 | Some n \<Rightarrow> n) p;
               p = (if redirect_std_io
                    then (new_fd ''/dev/null'' \<circ> new_fd ''/dev/null'' \<circ> new_fd ''/dev/null'') (close_from 0 3 p) else p)
      in Some (if log_id \<noteq> None then p\<lparr>log_name := log_id\<rparr> else p))"

section \<open>Properties\<close>

text \<open>However often the sleep is interrupted, \<open>nano_sleep\<close> returns, once it is left alone, and then all of the
  time was slept; it never returns earlier.\<close>

theorem nano_sleep_whole:
  assumes "Refused \<notin> set naps"
  shows "(Whole \<in> set naps \<longrightarrow> nano_sleep remain naps = Some remain) \<and>
    (\<forall>slept. nano_sleep remain naps = Some slept \<longrightarrow> slept = remain)"
  using assms
proof (induction naps arbitrary: remain)
  case (Cons n ns)
  show ?case
  proof (cases n)
    case (Part t)
    have "nano_sleep (remain - t) ns = None \<and> Whole \<notin> set ns \<or> nano_sleep (remain - t) ns = Some (remain - t)"
      using Cons.IH[of "remain - t"] Cons.prems by (cases "nano_sleep (remain - t) ns") auto
    then show ?thesis by (auto simp: Part min_def)
  qed (use Cons.prems in auto)
qed simp

lemma cut_to_slash_spec:
  "n \<le> length path \<Longrightarrow> cut_to_slash path n = length (dropWhile (\<lambda>c. c \<noteq> CHR ''/'') (rev (take n path)))"
  by (induction path n rule: cut_to_slash.induct) (auto simp: take_Suc_conv_app_nth)

text \<open>\<open>get_self_dir\<close> is the path up to and with its last slash, and fails exactly when there is none, when
  it does not fit, or when the path has 1024 characters or more.\<close>

theorem get_self_dir_spec:
  "get_self_dir (Some path) buf_len =
     (let dir = rev (dropWhile (\<lambda>c. c \<noteq> CHR ''/'') (rev path))
      in if 1024 \<le> length path \<or> dir = [] \<or> buf_len \<le> length dir then (-1, None) else (int (length dir), Some dir))"
proof (cases "length path < 1024 \<and> path \<noteq> []")
  case True
  let ?dir = "rev (dropWhile (\<lambda>c. c \<noteq> CHR ''/'') (rev path))"
  have "cut_to_slash path (length path) = length ?dir" by (simp add: cut_to_slash_spec)
  moreover have "take (length ?dir) path = ?dir"
    by (metis append_eq_conv_conj rev_append rev_rev_ident takeWhile_dropWhile_id)
  ultimately show ?thesis using True by (auto simp: get_self_dir_def get_self_path_def Let_def min_def)
qed (auto simp: get_self_dir_def get_self_path_def Let_def min_def)

text \<open>A thread is bound to its processors, but whatever policy and priority are asked for, it runs with those
  of its creator: the attributes still say that they are inherited.\<close>

theorem create_thread_full_inherits:
  "create_thread_full rets b e pol prio creator = (ret, t) \<Longrightarrow>
     (ret = 0 \<longleftrightarrow> t \<noteq> None) \<and> (\<forall>th. t = Some th \<longrightarrow> sched th = sched creator \<and>
       cpus th = (if 0 \<le> b \<and> 0 \<le> e then {b..e} else cpus creator))"
  by (auto simp: create_thread_full_def pthread_create_def pthread_attr_init_def make_cpu_set_def Let_def split: if_splits prod.splits)

text \<open>A daemon leads no session, ignores the hang-up, and has its standard descriptors on the null device and no
  other one below the limit.\<close>

theorem daemonize_detaches:
  assumes "daemonize f1 ss f2 rlim_max True log_id p = Some d"
  shows "\<not> leader d \<and> 1 \<in> ignored d \<and> umask d = 0 \<and> (\<forall>i \<in> {0, 1, 2}. fds d i = Some ''/dev/null'') \<and>
    (\<forall>i. 3 \<le> i \<longrightarrow> i < (case rlim_max of None \<Rightarrow> 1024 | Some n \<Rightarrow> n) \<longrightarrow> fds d i = None)"
  using assms
  by (auto simp: daemonize_def signal_config_def close_from_def new_fd_def lowest_free_def restrict_map_def Let_def split: if_splits)

theorem nano_sleep_whole_witness: "nano_sleep 10 [Part 3, Part 4, Whole] = Some 10"
  using nano_sleep_whole[of "[Part 3, Part 4, Whole]" 10] by simp

theorem create_thread_full_inherits_witness:
  "\<exists>th. create_thread_full (0, 0, 0, 0, 0) 2 2 SCHED_FIFO 30 \<lparr>cpus = {0..3}, sched = (SCHED_OTHER, 0)\<rparr> = (0, Some th) \<and>
    sched th = (SCHED_OTHER, 0)"
proof -
  obtain th where th: "create_thread_full (0, 0, 0, 0, 0) 2 2 SCHED_FIFO 30 \<lparr>cpus = {0..3}, sched = (SCHED_OTHER, 0)\<rparr> = (0, Some th)"
    by (simp add: create_thread_full_def Let_def)
  with create_thread_full_inherits[OF th] show ?thesis by simp
qed

theorem daemonize_detaches_witness:
  "\<exists>d. daemonize True True True (Some 64) True None
      \<lparr>fds = [0 \<mapsto> ''tty'', 2 \<mapsto> ''tty'', 7 \<mapsto> ''f''], umask = 18, leader = True, ignored = {}, log_name = None\<rparr> = Some d \<and>
    fds d 7 = None \<and> fds d 2 = Some ''/dev/null''"
proof -
  obtain d where d: "daemonize True True True (Some 64) True None
      \<lparr>fds = [0 \<mapsto> ''tty'', 2 \<mapsto> ''tty'', 7 \<mapsto> ''f''], umask = 18, leader = True, ignored = {}, log_name = None\<rparr> = Some d"
    by (simp add: daemonize_def Let_def)
  with daemonize_detaches[OF d] show ?thesis by simp
qed

end
