(* ===== verification/GuardLaunch.thy ===== *)
theory GuardLaunch
  imports Guard SysUtils
begin

text \<open>
  \<open>main\<close> of \<open>simple_apps/guard.c\<close> from the command line to its end: \<open>daemonize\<close> of \<open>daemon.c\<close>, the signal
  handler, the PID file of \<open>misc_utils.c\<close>, and \<open>guard_start\<close> and \<open>guard_main\<close> of \<open>Guard\<close>. The log is left out.
\<close>

section \<open>The program\<close>

definition sig_handler :: "nat \<Rightarrow> bool \<Rightarrow> bool" where
  "sig_handler signo g_need_exit = (if signo = SIGINT then True else g_need_exit)"

text \<open>What the system calls of \<open>daemonize\<close>, \<open>sigaction\<close> and \<open>fopen\<close> of the PID file return, and the PID.\<close>

record launch_env =
  fork1_ok :: bool
  setsid_ok :: bool
  fork2_ok :: bool
  rlim_max :: "int option"
  sigaction_ok :: bool
  pid_file_ok :: bool
  guard_pid :: int

text \<open>Up to the label \<open>restart\<close>: the process, the PID file, the list and the kernel, or the message with which the guard
  ends. \<open>None\<close> is a configuration path that is too long, or as in \<open>guard_start\<close>.\<close>

definition guard_launch ::
    "launch_env \<Rightarrow> string list \<Rightarrow> disk \<Rightarrow> rows option \<Rightarrow> rows option \<Rightarrow> config_state \<Rightarrow> process \<Rightarrow> kernel \<Rightarrow>
      (string + process \<times> string option \<times> t_process_item list \<times> kernel) option" where
  "guard_launch e words fs vars vals st p k = do {
     a \<leftarrow> parse_args (getopt ''drc:'' words) guard_args_init;
     case (if daemonize_process a
           then daemonize (fork1_ok e) (setsid_ok e) (fork2_ok e) (rlim_max e) (redirect_std_io a) (Some ''iGuard'') p
           else Some p) of
       None \<Rightarrow> Some (Inl ''daemonize'')
     | Some p1 \<Rightarrow>
         if \<not> sigaction_ok e then Some (Inl ''register_sighandler failed'')
         else do {
           r \<leftarrow> guard_start words fs vars vals st k;
           Some (case r of
               Inl msg \<Rightarrow> Inl msg
             | Inr (items, k1) \<Rightarrow> Inr (p1, snd (genPIDfile (pid_file_ok e) (guard_pid e)), items, k1)) } }"

text \<open>The signals that arrive in each round; SIGINT sets \<open>g_need_exit\<close>, which stays set, and a signal whose default
  action ends the guard ends it in the sleep of that round. The rounds that pass, and that signal.\<close>

fun exit_flags :: "int set \<Rightarrow> bool \<Rightarrow> (nat list \<times> int list) list \<Rightarrow> (bool \<times> int list) list \<times> nat option" where
  "exit_flags caught g [] = ([], None)"
| "exit_flags caught g ((signos, dying) # rounds) =
     (case List.find (sig_ends caught) signos of
        Some signo \<Rightarrow> (if g then [] else [(g, dying)], Some signo)
      | None \<Rightarrow> (case exit_flags caught (fold sig_handler signos g) rounds of (rs, e) \<Rightarrow> ((g, dying) # rs, e)))"

definition guard_program ::
    "launch_env \<Rightarrow> string list \<Rightarrow> disk \<Rightarrow> rows option \<Rightarrow> rows option \<Rightarrow> config_state \<Rightarrow> (nat list \<times> int list) list \<Rightarrow>
      process \<Rightarrow> kernel \<Rightarrow> (string + process \<times> string option \<times> t_process_item list \<times> kernel \<times> run_end) option" where
  "guard_program e words fs vars vals st rounds p k = do {
     r \<leftarrow> guard_launch e words fs vars vals st p k;
     Some (case r of
         Inl msg \<Rightarrow> Inl msg
       | Inr (p1, pid_file, items, k1) \<Rightarrow>
           (case exit_flags (insert 2 (ignored p1)) False rounds of (rs, killed) \<Rightarrow>
            case guard_main rs items k1 of (items2, k2, over) \<Rightarrow>
              Inr (p1, pid_file, items2, k2,
                if over then Ended else case killed of None \<Rightarrow> Goes_on | Some signo \<Rightarrow> Killed_by signo))) }"

section \<open>Lemmas\<close>

lemma handler_fold: "fold sig_handler signos g \<longleftrightarrow> g \<or> SIGINT \<in> set signos"
  by (induction signos arbitrary: g) (auto simp: sig_handler_def)

lemma find_none: "\<forall>x \<in> set xs. \<not> P x \<Longrightarrow> List.find P xs = None"
  by (simp add: find_None_iff)

lemma exit_flags_quiet:
  "\<forall>r \<in> set xs. SIGINT \<notin> set (fst r) \<and> (\<forall>signo \<in> set (fst r). \<not> sig_ends caught signo) \<Longrightarrow>
     exit_flags caught False (xs @ ys) =
       (map (\<lambda>r. (False, snd r)) xs @ fst (exit_flags caught False ys), snd (exit_flags caught False ys))"
  by (induction xs) (auto simp: handler_fold find_none split: prod.split)

lemma guard_main_append:
  "guard_main rs items k = (items1, k1, False) \<Longrightarrow> guard_main (rs @ qs) items k = guard_main qs items1 k1"
  by (induction rs arbitrary: items k) (auto split: if_splits prod.splits)

lemma guard_launch_Inr:
  assumes "guard_launch e words fs vars vals st p k = Some (Inr (p1, pid_file, items, k1))"
  shows "\<exists>a. parse_args (getopt ''drc:'' words) guard_args_init = Some a \<and>
    (if daemonize_process a
     then daemonize (fork1_ok e) (setsid_ok e) (fork2_ok e) (rlim_max e) (redirect_std_io a) (Some ''iGuard'') p
     else Some p) = Some p1 \<and>
    guard_start words fs vars vals st k = Some (Inr (items, k1)) \<and>
    pid_file = snd (genPIDfile (pid_file_ok e) (guard_pid e))"
proof -
  obtain a where a: "parse_args (getopt ''drc:'' words) guard_args_init = Some a"
    using assms by (auto simp: guard_launch_def bind_eq_Some_conv)
  let ?d = "if daemonize_process a
     then daemonize (fork1_ok e) (setsid_ok e) (fork2_ok e) (rlim_max e) (redirect_std_io a) (Some ''iGuard'') p
     else Some p"
  obtain p2 where p2: "?d = Some p2" using assms a by (cases ?d) (simp_all add: guard_launch_def)
  have ok: "sigaction_ok e" using assms a p2 by (cases "sigaction_ok e") (simp_all add: guard_launch_def)
  obtain r where r: "guard_start words fs vars vals st k = Some r"
    using assms a p2 ok by (cases "guard_start words fs vars vals st k") (simp_all add: guard_launch_def)
  show ?thesis using assms a p2 ok r by (cases r) (auto simp: guard_launch_def)
qed

lemma guard_start_Inr:
  assumes "guard_start words fs vars vals st k = Some (Inr (items, k1))"
  shows "\<exists>listed. (items, k1) = start_process_list listed k"
proof -
  obtain path r where r: "init_process_list fs vars vals path st = Some r"
    "(case r of Inl msg \<Rightarrow> Inl msg | Inr (items, st1) \<Rightarrow> Inr (start_process_list items k)) = Inr (items, k1)"
    using assms by (auto simp: guard_start_def Let_def bind_eq_Some_conv)
  then show ?thesis by (cases r) (auto split: prod.splits intro: exI sym)
qed

lemma daemonize_keeps:
  "daemonize f1 ss f2 rlim redirect log_id p = Some d \<Longrightarrow> \<not> leader d \<and> 1 \<in> ignored d \<and> umask d = 0"
  by (auto simp: daemonize_def signal_config_def close_from_def new_fd_def Let_def split: if_splits)

section \<open>The end of the program\<close>

text \<open>What becomes of a child at the end: a child that stopped since the last pass counts as exited.\<close>

fun quit_state :: "kid option \<Rightarrow> kid option" where
  "quit_state None = None"
| "quit_state (Some Alive) = Some Zombie"
| "quit_state (Some (Stopped False)) = Some (Stopped True)"
| "quit_state (Some (Stopped True)) = Some Zombie"
| "quit_state (Some Zombie) = None"

definition quit_one :: "t_process_item \<Rightarrow> kernel \<Rightarrow> kernel" where
  "quit_one item k =
     (case process_exited item k of (down, k1) \<Rightarrow> if down then k1 else kill_sig (pid item) SIGKILL k1)"

lemma quit_one_kid:
  assumes "0 < pid x" "distinct (map fst (kids k))"
  shows "kid (quit_one x k) q = (if q = pid x then quit_state (kid k q) else kid k q) \<and>
    distinct (map fst (kids (quit_one x k)))"
proof -
  have p: "pid x \<noteq> -1" "pid x \<noteq> 0" using assms(1) by auto
  define r where "r = kid k (pid x)"
  have one: "quit_one x k = (if r = Some Zombie \<or> r = Some (Stopped False) then report (pid x) k else kill_sig (pid x) SIGKILL k)"
    using p by (simp add: quit_one_def process_exited_def waitpid_def changed_def r_def split: option.split)
  have "kid (report (pid x) k) q = (if q = pid x then quit_state (kid k q) else kid k q)"
    if "r = Some Zombie \<or> r = Some (Stopped False)"
    using that unfolding map_of_report[OF assms(2)] r_def by (elim disjE) simp_all
  moreover have "kid (kill_sig (pid x) SIGKILL k) q = (if q = pid x then quit_state (kid k q) else kid k q)"
    if "\<not> (r = Some Zombie \<or> r = Some (Stopped False))"
    using that p unfolding kid_kill r_def by (cases "kid k (pid x)" rule: quit_state.cases) simp_all
  moreover have "distinct (map fst (kids (quit_one x k)))"
    using report_kids(2)[OF assms(2)] assms(2) by (simp add: one)
  ultimately show ?thesis unfolding one by (cases "r = Some Zombie \<or> r = Some (Stopped False)") simp_all
qed

lemma guard_quit_kid:
  "\<forall>x \<in> set items. 0 < pid x \<Longrightarrow> distinct (map pid items) \<Longrightarrow> distinct (map fst (kids k)) \<Longrightarrow>
     kid (guard_quit items k) q = (if q \<in> pid ` set items then quit_state (kid k q) else kid k q)"
proof (induction items arbitrary: k)
  case (Cons x items)
  have step: "guard_quit (x # items) k = guard_quit items (quit_one x k)"
    by (simp add: quit_one_def split: prod.split)
  from quit_one_kid[of x k] Cons.prems
  have one: "kid (quit_one x k) q = (if q = pid x then quit_state (kid k q) else kid k q)"
    "distinct (map fst (kids (quit_one x k)))" for q by auto
  from Cons.IH[OF _ _ one(2)] Cons.prems show ?case unfolding step by (auto simp: one(1))
qed simp

lemma last_pass:
  assumes "guard_ok items k" "\<And>n. \<not> fork_fails k n" "\<And>x. x \<in> set items \<Longrightarrow> restore_mode x = RESTORE_MODE_PROCESS"
    "\<forall>r \<in> set rounds. \<not> fst r"
  shows "\<exists>items1 k1. guard_main (rounds @ [(False, dying)]) items k = (items1, die dying k1, False) \<and>
    guard_ok items1 (die dying k1) \<and> list_all2 same_process items items1 \<and> (\<forall>x \<in> set items1. kid k1 (pid x) = Some Alive)"
proof -
  from guard_main_ok[OF assms] obtain items0 k0 where
    g: "guard_main rounds items k = (items0, k0, False)" "guard_ok items0 k0" "fork_fails k0 = fork_fails k"
      "list_all2 same_process items items0" by blast
  have ff: "\<not> fork_fails k0 n" for n using g(3) assms(2) by simp
  from guard_pass_ok[OF g(2) ff same_process_mode[OF g(4) assms(3)]] obtain items1 k1 where
    p: "guard_pass items0 k0 = (items1, k1, False)" "guard_ok items1 k1" "length items1 = length items0"
      "\<forall>i < length items0. items1 ! i = (items0 ! i)\<lparr>pid := pid (items1 ! i)\<rparr> \<and> kid k1 (pid (items1 ! i)) = Some Alive" by blast
  have "list_all2 same_process items0 items1"
    unfolding list_all2_conv_all_nth using p(3,4) same_process_pid by metis
  from list_all2_trans[OF _ g(4) this] same_process_trans have "list_all2 same_process items items1" by blast
  moreover have "kid k1 (pid x) = Some Alive" if "x \<in> set items1" for x
    using that p(3,4) by (metis in_set_conv_nth)
  ultimately show ?thesis using guard_main_append[OF g(1), of "[(False, dying)]"] guard_ok_die[OF p(2)] p(1) by auto
qed

text \<open>No guarded child is left alive; one that is stopped counts as exited and survives.\<close>

lemma main_quit_kid:
  assumes "guard_ok items k" "x \<in> set items"
  shows "kid (main_quit dying items k) (pid x) = quit_state (kid (die dying k) (pid x))"
proof -
  have ok: "\<forall>x \<in> set items. 0 < pid x" "distinct (map pid items)" "distinct (map fst (kids k))"
    using guard_ok_pid(2)[OF assms(1)] assms(1) by (auto simp: guard_ok_def)
  let ?k = "die dying (log_event (Kill 0 SIGINT) (log_event (Kill 0 SIGINT) k))"
  have "distinct (map fst (kids ?k))" "kid ?k q = kid (die dying k) q" for q using ok(3) by (simp_all add: kid_die log_event_def)
  with guard_quit_kid[OF ok(1,2), of ?k "pid x"] assms(2) show ?thesis by (simp add: main_quit_def)
qed

section \<open>Properties\<close>

text \<open>C23: A guard that could start, without children, on a machine where no \<open>fork\<close> fails, whose entries restart their process, and whose
  children die at any time but are not stopped (a stopped one counts as exited and would survive),
  runs until SIGINT arrives, as long as no signal comes that it neither catches nor ignores, and ends at
  the start of the next round. A daemon leads no session and ignores the hang-up, and the PID file has its
  number. At the end no guarded process is left running: those that died since the last pass, or of the SIGINT that the guard
  passes on, have been waited for, and every other one has been killed.\<close>

theorem guard_runs_until_sigint:
  assumes "guard_launch e words fs vars vals st p k = Some (Inr (p1, pid_file, items0, k0))"
    "kids k = []" "0 < next_pid k" "\<And>n. \<not> fork_fails k n" "\<And>x. x \<in> set items0 \<Longrightarrow> restore_mode x = RESTORE_MODE_PROCESS"
    "\<forall>r \<in> set rounds. SIGINT \<notin> set (fst r)" "SIGINT \<in> set signos"
    "\<forall>r \<in> set (rounds @ [(signos, dying), (signos', dying')]). \<forall>signo \<in> set (fst r). \<not> sig_ends (insert 2 (ignored p1)) signo"
  shows "\<exists>items1 k1. guard_program e words fs vars vals st (rounds @ (signos, dying) # (signos', dying') # rest) p k =
      Some (Inr (p1, pid_file, items1, k1, Ended)) \<and>
    (\<exists>a. parse_args (getopt ''drc:'' words) guard_args_init = Some a \<and> (daemonize_process a \<longrightarrow> \<not> leader p1 \<and> 1 \<in> ignored p1)) \<and>
    pid_file = (if pid_file_ok e then Some (show_int (guard_pid e) @ [LF]) else None) \<and>
    list_all2 same_process items0 items1 \<and> distinct (map pid items1) \<and>
    (\<forall>x \<in> set items1. kid k1 (pid x) = (if pid x \<in> set dying \<union> set dying' then None else Some Zombie))"
proof -
  from guard_launch_Inr[OF assms(1)] obtain a where a: "parse_args (getopt ''drc:'' words) guard_args_init = Some a"
    "(if daemonize_process a
      then daemonize (fork1_ok e) (setsid_ok e) (fork2_ok e) (rlim_max e) (redirect_std_io a) (Some ''iGuard'') p
      else Some p) = Some p1"
    "guard_start words fs vars vals st k = Some (Inr (items0, k0))"
    "pid_file = snd (genPIDfile (pid_file_ok e) (guard_pid e))" by blast
  have d: "daemonize_process a \<longrightarrow> \<not> leader p1 \<and> 1 \<in> ignored p1"
    using a(2) daemonize_keeps by (auto split: if_splits)
  from guard_start_Inr[OF a(3)] obtain listed where l: "start_process_list listed k = (items0, k0)" by metis
  from start_process_list_ok[OF assms(2-4), of listed] l have s: "guard_ok items0 k0" "fork_fails k0 = fork_fails k" by auto
  have ff: "\<not> fork_fails k0 n" for n using s(2) assms(4) by simp
  let ?rs = "map (\<lambda>r. (False, snd r)) rounds"
  have clear: "\<forall>r \<in> set ?rs. \<not> fst r" by auto
  from last_pass[OF s(1) ff assms(5) clear] obtain items1 k1 where
    g: "guard_main (?rs @ [(False, dying)]) items0 k0 = (items1, die dying k1, False)" "guard_ok items1 (die dying k1)"
      "list_all2 same_process items0 items1" "\<forall>x \<in> set items1. kid k1 (pid x) = Some Alive" by blast
  let ?k = "main_quit dying' items1 (die dying k1)"
  have flags: "exit_flags (insert 2 (ignored p1)) False (rounds @ (signos, dying) # (signos', dying') # rest) =
      ((?rs @ [(False, dying)]) @ (True, dying') # rs, e')" if "exit_flags (insert 2 (ignored p1)) True rest = (rs, e')" for rs e'
    using exit_flags_quiet[of rounds "insert 2 (ignored p1)"] assms(6-8) that by (auto simp: handler_fold find_none)
  have "guard_program e words fs vars vals st (rounds @ (signos, dying) # (signos', dying') # rest) p k =
      Some (Inr (p1, pid_file, items1, ?k, Ended))"
  proof (cases "exit_flags (insert 2 (ignored p1)) True rest")
    case (Pair rs e')
    show ?thesis
      using assms(1) flags[OF Pair] guard_main_append[OF g(1), of "(True, dying') # rs"] by (simp add: guard_program_def)
  qed
  moreover have "kid ?k (pid x) = (if pid x \<in> set dying \<union> set dying' then None else Some Zombie)" if "x \<in> set items1" for x
    using main_quit_kid[OF g(2) that] g(4) that by (simp add: kid_die)
  moreover have "distinct (map pid items1)" using g(2) by (simp add: guard_ok_def)
  ultimately show ?thesis using a(1,4) d g(3)
    by (intro exI[of _ items1] exI[of _ ?k]) (simp add: genPIDfile_def)
qed

text \<open>A daemon with one entry, which is running when SIGINT arrives.\<close>

definition demo_env :: launch_env where
  "demo_env = \<lparr>fork1_ok = True, setsid_ok = True, fork2_ok = True, rlim_max = Some 64, sigaction_ok = True,
     pid_file_ok = True, guard_pid = 42\<rparr>"

definition demo_process :: process where
  "demo_process = \<lparr>fds = [0 \<mapsto> ''tty''], umask = 18, leader = True, ignored = {}, log_name = None\<rparr>"

definition demo_kernel :: kernel where
  "demo_kernel = \<lparr>kids = [], next_pid = 100, fork_fails = (\<lambda>_. False), forks = 0, events = []\<rparr>"

abbreviation demo_words :: "string list" where "demo_words \<equiv> [''guard'', ''-d'', ''-c'', ''c'']"

lemma demo_launch:
  "\<exists>p1 x. guard_launch demo_env demo_words (Map.empty(''c'' \<mapsto> config_text sample_vars)) (Some (\<lambda>_. [])) (Some (\<lambda>_. []))
      empty_config demo_process demo_kernel =
    Some (Inr (p1, Some (show_int 42 @ [LF]), [x\<lparr>pid := 100\<rparr>], snd (start_process x demo_kernel))) \<and>
    restore_mode x = RESTORE_MODE_PROCESS"
proof -
  let ?fs = "Map.empty(''c'' \<mapsto> config_text sample_vars)"
  obtain x st where x: "init_process_list ?fs (Some (\<lambda>_. [])) (Some (\<lambda>_. [])) ''c'' empty_config = Some (Inr ([x], st))"
    "restore_mode x = RESTORE_MODE_PROCESS" using sample_guard_list by blast
  have a: "parse_args (getopt ''drc:'' demo_words) guard_args_init =
      Some (guard_args_init\<lparr>daemonize_process := True, use_dft_config_file := False, guard_config_path := ''c''\<rparr>)"
    by code_simp
  have k: "0 < next_pid demo_kernel" "\<not> fork_fails demo_kernel (forks demo_kernel)" by (simp_all add: demo_kernel_def)
  from start_process_alive[OF k(2,1), of x] obtain k1 where "start_process x demo_kernel = (x\<lparr>pid := 100\<rparr>, k1)"
    by (auto simp: demo_kernel_def)
  then have s: "start_process_list [x] demo_kernel = ([x\<lparr>pid := 100\<rparr>], snd (start_process x demo_kernel))"
    by (simp add: start_process_list_def)
  have g: "guard_start demo_words ?fs (Some (\<lambda>_. [])) (Some (\<lambda>_. [])) empty_config demo_kernel =
      Some (Inr ([x\<lparr>pid := 100\<rparr>], snd (start_process x demo_kernel)))"
    using a x(1) s by (simp add: guard_start_def)
  obtain p1 where "daemonize True True True (Some 64) False (Some ''iGuard'') demo_process = Some p1"
    by (simp add: daemonize_def Let_def)
  then show ?thesis using a g x(2)
    by (intro exI[of _ p1] exI[of _ x]) (simp add: guard_launch_def demo_env_def guard_args_init_def genPIDfile_def)
qed

theorem guard_runs_until_sigint_witness:
  "\<exists>p1 pid_file items k. guard_program demo_env demo_words (Map.empty(''c'' \<mapsto> config_text sample_vars)) (Some (\<lambda>_. [])) (Some (\<lambda>_. []))
      empty_config [([], [100]), ([17], []), ([SIGINT], []), ([], [])] demo_process demo_kernel =
    Some (Inr (p1, pid_file, items, k, Ended)) \<and> length items = 1 \<and> \<not> leader p1"
proof -
  from demo_launch obtain p1 x where l: "guard_launch demo_env demo_words (Map.empty(''c'' \<mapsto> config_text sample_vars))
      (Some (\<lambda>_. [])) (Some (\<lambda>_. [])) empty_config demo_process demo_kernel =
    Some (Inr (p1, Some (show_int 42 @ [LF]), [x\<lparr>pid := 100\<rparr>], snd (start_process x demo_kernel)))"
    and m: "restore_mode x = RESTORE_MODE_PROCESS" by blast
  have k: "kids demo_kernel = []" "0 < next_pid demo_kernel" "\<not> fork_fails demo_kernel n" for n by (simp_all add: demo_kernel_def)
  have a: "parse_args (getopt ''drc:'' demo_words) guard_args_init =
      Some (guard_args_init\<lparr>daemonize_process := True, use_dft_config_file := False, guard_config_path := ''c''\<rparr>)"
    by code_simp
  from guard_runs_until_sigint[OF l k, of "[([], [100]), ([17], [])]" "[SIGINT]" "[]" "[]" "[]" "[]"] m a show ?thesis
    by (auto simp: sig_ends_def dest: list_all2_lengthD)
qed

end
