(* ===== verification/LibUtils.thy ===== *)
theory LibUtils
  imports Symbols IoUtils
begin

unbundle bit_operations_syntax

text \<open>
  Small parts of \<open>libs/app_utils/src\<close>: \<open>signal_utils.c\<close> and \<open>timer_utils.c\<close> on a table of signal handlers,
  \<open>shell_ops.c\<close> on the output of a command, and \<open>debug_utils.c\<close> and \<open>mem_addr_vir2phy.c\<close> on a memory. What
  the system calls return is an argument. \<open>None\<close> is a store outside a buffer.
\<close>

section \<open>signal_utils.c and timer_utils.c\<close>

datatype sig_proc = SIG_DFL | SIG_IGN | Proc nat

text \<open>\<open>SIGRTMIN + 10\<close> and \<open>SIGRTMAX - 10\<close>.\<close>

definition RT_SIG_FOR_APP_MIN :: nat where "RT_SIG_FOR_APP_MIN = 44"
definition RT_SIG_FOR_APP_MAX :: nat where "RT_SIG_FOR_APP_MAX = 54"

definition sig_has_no_handler :: "(nat \<Rightarrow> sig_proc) \<Rightarrow> nat \<Rightarrow> bool" where
  "sig_has_no_handler t sig \<longleftrightarrow> t sig = SIG_IGN \<or> t sig = SIG_DFL"

text \<open>\<open>ok\<close>: the signals for which \<open>sigaction\<close> succeeds.\<close>

definition register_sig_proc :: "(nat \<Rightarrow> bool) \<Rightarrow> nat \<Rightarrow> sig_proc \<Rightarrow> (nat \<Rightarrow> sig_proc) \<Rightarrow> int \<times> (nat \<Rightarrow> sig_proc)" where
  "register_sig_proc ok sig h t = (if ok sig then (0, t(sig := h)) else (-1, t))"

definition ignore_sig :: "(nat \<Rightarrow> bool) \<Rightarrow> nat \<Rightarrow> (nat \<Rightarrow> sig_proc) \<Rightarrow> int \<times> (nat \<Rightarrow> sig_proc)" where
  "ignore_sig ok sig t = register_sig_proc ok sig SIG_IGN t"

definition restore_sig_default_proc :: "(nat \<Rightarrow> bool) \<Rightarrow> nat \<Rightarrow> (nat \<Rightarrow> sig_proc) \<Rightarrow> int \<times> (nat \<Rightarrow> sig_proc)" where
  "restore_sig_default_proc ok sig t = register_sig_proc ok sig SIG_DFL t"

fun free_sig_loop :: "(nat \<Rightarrow> bool) \<Rightarrow> sig_proc \<Rightarrow> nat list \<Rightarrow> (nat \<Rightarrow> sig_proc) \<Rightarrow> int \<times> (nat \<Rightarrow> sig_proc)" where
  "free_sig_loop ok h [] t = (-1, t)"
| "free_sig_loop ok h (i # is) t =
     (if \<not> sig_has_no_handler t i then free_sig_loop ok h is t
      else let (ret, t1) = register_sig_proc ok i h t
           in if ret = 0 then (int i, t1) else free_sig_loop ok h is t1)"

definition get_a_free_sig_and_register_proc ::
    "(nat \<Rightarrow> bool) \<Rightarrow> sig_proc \<Rightarrow> (nat \<Rightarrow> sig_proc) \<Rightarrow> int \<times> (nat \<Rightarrow> sig_proc)" where
  "get_a_free_sig_and_register_proc ok h t = free_sig_loop ok h [RT_SIG_FOR_APP_MIN..<RT_SIG_FOR_APP_MAX + 1] t"

text \<open>\<open>timer_create\<close> refuses the signal -1.\<close>

definition create_posix_timer ::
    "(nat \<Rightarrow> bool) \<Rightarrow> int \<Rightarrow> int \<Rightarrow> sig_proc \<Rightarrow> (nat \<Rightarrow> sig_proc) \<Rightarrow> int \<times> (nat \<Rightarrow> sig_proc)" where
  "create_posix_timer ok create_ret settime_ret timer_handler t =
     (let (signo, t1) = get_a_free_sig_and_register_proc ok timer_handler t
      in if signo = -1 \<or> create_ret \<noteq> 0 then (-1, t1)
         else if settime_ret \<noteq> 0 then (-1, t1) else (0, t1))"

definition free_sigs :: "(nat \<Rightarrow> bool) \<Rightarrow> (nat \<Rightarrow> sig_proc) \<Rightarrow> nat list" where
  "free_sigs ok t = filter (\<lambda>i. sig_has_no_handler t i \<and> ok i) [44..<55]"

lemma free_sig_loop_eq:
  "free_sig_loop ok h is t = (case filter (\<lambda>i. sig_has_no_handler t i \<and> ok i) is of [] \<Rightarrow> (-1, t) | i # _ \<Rightarrow> (int i, t(i := h)))"
proof (induction "is")
  case (Cons i "is")
  show ?case
  proof (cases "sig_has_no_handler t i \<and> ok i")
    case True
    then show ?thesis by (simp add: register_sig_proc_def)
  next
    case False
    then have "free_sig_loop ok h (i # is) t = free_sig_loop ok h is t" by (auto simp: register_sig_proc_def)
    with Cons False show ?thesis by auto
  qed
qed simp

lemma get_free_sig_eq:
  "get_a_free_sig_and_register_proc ok h t = (case free_sigs ok t of [] \<Rightarrow> (-1, t) | i # _ \<Rightarrow> (int i, t(i := h)))"
proof -
  have "[RT_SIG_FOR_APP_MIN..<RT_SIG_FOR_APP_MAX + 1] = [44..<55]"
    unfolding RT_SIG_FOR_APP_MIN_def RT_SIG_FOR_APP_MAX_def by simp
  then show ?thesis unfolding get_a_free_sig_and_register_proc_def free_sig_loop_eq free_sigs_def by argo
qed

lemma free_sigs_taken:
  assumes "free_sigs ok t = i # is" "h = Proc n"
  shows "free_sigs ok (t(i := h)) = is"
proof -
  have d: "distinct (i # is)" unfolding assms(1)[symmetric] free_sigs_def by simp
  have "free_sigs ok (t(i := h)) = filter (\<lambda>k. k \<noteq> i) (free_sigs ok t)"
    unfolding free_sigs_def filter_filter by (rule filter_cong) (auto simp: assms(2) sig_has_no_handler_def)
  also have "\<dots> = is" using d by (auto simp: assms(1) filter_id_conv)
  finally show ?thesis .
qed

section \<open>shell_ops.c\<close>

text \<open>\<open>get_temp_file\<close> of \<open>io_utils.c\<close>: what \<open>mkstemp\<close> gives each time; \<open>None\<close>: still interrupted.\<close>

fun get_temp_file :: "string outcome list \<Rightarrow> (int \<times> string option) option" where
  "get_temp_file [] = None"
| "get_temp_file (Done name # _) = Some (0, Some name)"
| "get_temp_file (Fail e # os) = (if e = EINTR then get_temp_file os else Some (-1, None))"

text \<open>The command line that is run; it has 512 cells.\<close>

definition cmd2file :: "string outcome list \<Rightarrow> string \<Rightarrow> (int \<times> string option \<times> string option) option" where
  "cmd2file tmp cmd = do {
     (ret, path) \<leftarrow> get_temp_file tmp;
     if ret < 0 then Some (ret, None, None)
     else let cmd_str = cmd @ ''  > '' @ the path
          in if 512 \<le> length cmd_str then None else Some (0, path, Some cmd_str) }"

text \<open>\<open>output\<close> is what is read from the file the command has written (\<open>None\<close>: reading fails), \<open>open_ok\<close> whether
  the file can be opened; without a temporary file the name is not initialised. The buffer afterwards.\<close>

definition get_cmd_result :: "string outcome list \<Rightarrow> bool \<Rightarrow> string option \<Rightarrow> char list \<Rightarrow> string \<Rightarrow> (int \<times> char list) option" where
  "get_cmd_result tmp open_ok output buf cmd = do {
     (r, output_file, _) \<leftarrow> cmd2file tmp cmd;
     if output_file = None then None
     else if \<not> open_ok then Some (-1, buf)
     else let bs = (case output of None \<Rightarrow> [] | Some s \<Rightarrow> take (length buf) s); ret = length bs
          in if ret > 0 then map_option (Pair 0) (store_at ret NUL (bs @ drop ret buf)) else Some (-1, buf) }"

text \<open>The number, and the result code.\<close>

definition get_cmd_result_int :: "string outcome list \<Rightarrow> bool \<Rightarrow> string option \<Rightarrow> string \<Rightarrow> (int \<times> int) option" where
  "get_cmd_result_int tmp open_ok output cmd =
     map_option (\<lambda>(ret, buf). (atoi (cstr buf), ret)) (get_cmd_result tmp open_ok output (replicate 64 NUL) cmd)"

text \<open>\<open>get_symbol_num\<close> of \<open>symbol_utils.c\<close>, whose command has 512 cells too: the result code and the number.\<close>

definition get_symbol_num :: "string outcome list \<Rightarrow> bool \<Rightarrow> string option \<Rightarrow> string \<Rightarrow> (int \<times> int) option" where
  "get_symbol_num tmp open_ok output exe_file =
     (let cmd_str = ''nm -S '' @ exe_file @ '' | wc -l''
      in if 512 \<le> length cmd_str then None
         else map_option (\<lambda>(nr, ret). (ret, nr)) (get_cmd_result_int tmp open_ok output cmd_str))"

section \<open>debug_utils.c and mem_addr_vir2phy.c\<close>

definition mem_readable :: "u8 \<Rightarrow> char" where
  "mem_readable b = (if 31 < b \<and> b < 127 then char_of (unat b) else CHR ''.'')"

definition mem_line :: "u64 \<Rightarrow> u8 list \<Rightarrow> string" where
  "mem_line cur_pos bytes =
     pad_right 16 (show_nat 16 (unat cur_pos)) @ '': '' @
     concat (map (\<lambda>b. show_02x b @ '' '') bytes) @ replicate (3 * (16 - length bytes)) (CHR '' '') @ '': '' @
     map mem_readable bytes @ replicate (16 - length bytes) (CHR '' '') @ [LF]"

function print_mem :: "vmem \<Rightarrow> u64 \<Rightarrow> nat \<Rightarrow> string" where
  "print_mem m cur_pos len =
     (if 16 \<le> len then mem_line cur_pos (bytes_from m cur_pos 16) @ print_mem m (cur_pos + 16) (len - 16)
      else if 0 < len then mem_line cur_pos (bytes_from m cur_pos len) else [])"
  by pat_completeness auto
termination by (relation "measure (\<lambda>(m, a, len). len)") auto

declare print_mem.simps [simp del]

text \<open>Memory as 64-bit words: a frame pointer refers to the saved one, the return address is in the next word.\<close>

fun get_call_links :: "(u64 \<Rightarrow> u64) \<Rightarrow> u64 \<Rightarrow> nat \<Rightarrow> u64 list" where
  "get_call_links m bp 0 = []"
| "get_call_links m bp (Suc nr) = (if m bp = 0 then [] else m (bp + 8) # get_call_links m (m bp) nr)"

text \<open>\<open>item\<close>: the outcome of opening, seeking and reading \<open>/proc/self/pagemap\<close> at an offset. Returned are the
  result, the address, and whether the descriptor is still open.\<close>

definition mem_addr_vir2phy :: "bool \<Rightarrow> bool \<Rightarrow> (u64 \<Rightarrow> u64 option) \<Rightarrow> u64 \<Rightarrow> u64 \<Rightarrow> int \<times> u64 option \<times> bool" where
  "mem_addr_vir2phy open_ok seek_ok pagemap page_size vir =
     (if \<not> open_ok then (-1, None, False)
      else if \<not> seek_ok then (-1, None, True)
      else case pagemap (vir div page_size * 8) of
        None \<Rightarrow> (-1, None, True)
      | Some item \<Rightarrow>
          if item AND push_bit 63 1 = 0 then (-1, None, True)
          else (0, Some ((item AND (push_bit 55 1 - 1)) * page_size + vir mod page_size), True))"

section \<open>Lemmas\<close>

lemma failed_timers:
  "free_sigs ok t = is \<Longrightarrow>
     free_sigs ok (fold (\<lambda>n t. snd (create_posix_timer ok (-1) 0 (Proc n) t)) [k..<k + length is] t) = []"
proof (induction "is" arbitrary: t k)
  case (Cons i "is")
  have step: "snd (create_posix_timer ok (-1) 0 (Proc k) t) = t(i := Proc k)"
    using Cons.prems by (simp add: create_posix_timer_def get_free_sig_eq)
  have upt: "[k..<k + length (i # is)] = k # [Suc k..<Suc k + length is]" using upt_conv_Cons[of k "k + length (i # is)"] by simp
  show ?case
    unfolding upt fold_Cons comp_apply step by (rule Cons.IH[OF free_sigs_taken[OF Cons.prems refl]])
qed simp

lemma signed_digits_10:
  assumes "rest = [] \<or> digit_value (hd rest) = None"
  shows "signed_digits (show_dec n @ rest) 10 = (False, n)"
    and "signed_digits (CHR ''-'' # show_dec n @ rest) 10 = (True, n)"
proof -
  obtain c s where cs: "show_dec n = c # s" by (cases "show_dec n") auto
  then obtain d where "digit_value c = Some d" using show_nat_digits[of 10 c n] by auto
  then have c: "\<not> isspace c \<and> c \<noteq> CHR ''-'' \<and> c \<noteq> CHR ''+''" by (rule digit_not_space)
  have v: "read_digits 10 (show_dec n @ rest) 0 = n"
    using read_digits_stop[OF assms] show_nat_digits[of 10 _ n]
    by (subst read_digits_append) (auto simp: read_show_nat)
  show "signed_digits (show_dec n @ rest) 10 = (False, n)"
    using c v cs by (simp add: signed_digits_def Let_def)
  have "\<not> isspace (CHR ''-'')" by (simp add: isspace_def)
  then show "signed_digits (CHR ''-'' # show_dec n @ rest) 10 = (True, n)"
    using c v cs by (simp add: signed_digits_def Let_def)
qed

lemma atoi_show_int:
  assumes "rest = [] \<or> digit_value (hd rest) = None" "- (2 ^ 31) \<le> i" "i < 2 ^ 31"
  shows "atoi (show_int i @ rest) = i"
proof -
  have "strtol (show_int i @ rest) 10 = i"
    using assms(2,3) signed_digits_10[OF assms(1)] by (simp add: strtol_def show_int_def)
  moreover have "long_to_int i = i"
    using assms(2,3) signed_take_bit_int_eq_self[of 31 i] by (simp add: long_to_int_def signed_of_int)
  ultimately show ?thesis by (simp add: atoi_def)
qed

lemma length_show_int:
  assumes "- (2 ^ 31) \<le> i" "i < 2 ^ 31"
  shows "length (show_int i) \<le> 11"
proof -
  have "nat \<bar>i\<bar> < 10 ^ 10" using assms by simp
  then have "length (show_dec (nat \<bar>i\<bar>)) \<le> 10" by (intro length_show_nat) simp_all
  then show ?thesis using assms by (auto simp: show_int_def split: if_splits)
qed

lemma show_int_no_NUL: "NUL \<notin> set (show_int i)"
  using show_int_chars[of NUL i] by (auto simp: isdigit_def)

lemma length_mem_line: "length bytes \<le> 16 \<Longrightarrow> length (mem_line a bytes) = 85"
  by (simp add: mem_line_def length_addr length_hex_columns)

lemma undump_mem_line:
  assumes "length bytes \<le> 16"
  shows "undump_line (mem_line a bytes) = bytes"
proof -
  let ?cols = "concat (map (\<lambda>b. show_02x b @ '' '') bytes) @ replicate (3 * (16 - length bytes)) (CHR '' '')"
  have "length ?cols = 48" using assms by (simp add: length_hex_columns)
  moreover have "drop 18 (mem_line a bytes) = ?cols @ '': '' @ map mem_readable bytes @
      replicate (16 - length bytes) (CHR '' '') @ [LF]"
    using length_addr[of a] by (simp add: mem_line_def)
  ultimately show ?thesis
    using hex_columns_show by (simp add: undump_line_def)
qed

lemma undump_mem_line_append:
  "length bytes \<le> 16 \<Longrightarrow> undump (mem_line a bytes @ s) = bytes @ undump s"
  by (simp add: undump_append length_mem_line undump_mem_line)

lemma undump_print_mem: "undump (print_mem m a n) = bytes_from m a n"
proof (induction m a n rule: print_mem.induct)
  case (1 m a n)
  have len: "length (bytes_from m a k) = k" for a k by (simp add: bytes_from_def)
  have nil: "undump [] = []" by (simp add: undump.simps)
  consider (full) "16 \<le> n" | (part) "0 < n" "n < 16" | (none) "n = 0" by linarith
  then show ?case
  proof cases
    case full
    then have "bytes_from m a n = bytes_from m a 16 @ bytes_from m (a + 16) (n - 16)"
      using bytes_from_append[of m a 16 "n - 16"] by simp
    with full 1 show ?thesis by (simp add: print_mem.simps[of m a n] undump_mem_line_append len)
  next
    case part
    with undump_mem_line_append[of "bytes_from m a n" a "[]"] show ?thesis
      by (simp add: print_mem.simps[of m a n] len nil)
  next
    case none
    then show ?thesis by (simp add: print_mem.simps[of m a 0] nil bytes_from_def)
  qed
qed

section \<open>Properties\<close>

text \<open>A free signal is the first one of the range without a handler, and nothing else changes. A timer that
  cannot be created keeps its signal: after as many failures as there are free signals, no timer can be
  created any more.\<close>

theorem failed_timers_use_up_signals:
  "create_posix_timer ok create_ret set_ret h
     (fold (\<lambda>n t. snd (create_posix_timer ok (-1) 0 (Proc n) t)) [0..<length (free_sigs ok t)] t) =
     (-1, fold (\<lambda>n t. snd (create_posix_timer ok (-1) 0 (Proc n) t)) [0..<length (free_sigs ok t)] t) \<and>
   get_a_free_sig_and_register_proc ok h t =
     (case free_sigs ok t of [] \<Rightarrow> (-1, t) | i # _ \<Rightarrow> (int i, t(i := h)))"
proof
  let ?t = "fold (\<lambda>n t. snd (create_posix_timer ok (-1) 0 (Proc n) t)) [0..<length (free_sigs ok t)] t"
  have "free_sigs ok ?t = []" using failed_timers[OF refl, where k = 0] by simp
  then show "create_posix_timer ok create_ret set_ret h ?t = (-1, ?t)"
    by (simp add: create_posix_timer_def get_free_sig_eq)
qed (rule get_free_sig_eq)

text \<open>The number a command prints is its result, for every number; output of 64 characters or more is stored
  with a NUL behind the buffer.\<close>

theorem cmd_result_int:
  assumes "length cmd + length name < 500" "- (2 ^ 31) \<le> i" "i < 2 ^ 31"
  shows "get_cmd_result_int [Fail EINTR, Done name] True (Some (show_int i @ [LF])) cmd = Some (i, 0) \<and>
    (64 \<le> length output \<longrightarrow> get_cmd_result_int [Done name] True (Some output) cmd = None)"
proof
  let ?out = "show_int i @ [LF]"
  have tmp: "cmd2file [Fail EINTR, Done name] cmd = Some (0, Some name, Some (cmd @ ''  > '' @ name))"
    "cmd2file [Done name] cmd = Some (0, Some name, Some (cmd @ ''  > '' @ name))"
    using assms(1) by (simp_all add: cmd2file_def)
  have n: "length (show_int i) \<le> 11" using assms(2,3) by (rule length_show_int)
  obtain m where m: "64 - length ?out = Suc m" using n by (cases "64 - length ?out") simp_all
  have "store_at (length ?out) NUL (?out @ replicate (64 - length ?out) NUL) = Some (?out @ NUL # replicate m NUL)"
    unfolding m replicate_Suc by (rule store_at_append) simp
  then have "get_cmd_result [Fail EINTR, Done name] True (Some ?out) (replicate 64 NUL) cmd =
      Some (0, ?out @ NUL # replicate m NUL)"
    using n by (simp add: get_cmd_result_def tmp)
  moreover have "cstr (?out @ NUL # replicate m NUL) = ?out"
    by (rule cstr_append_NUL) (simp add: show_int_no_NUL)
  moreover have "atoi ?out = i" by (rule atoi_show_int) (use assms(2,3) in \<open>simp_all add: digit_value_def\<close>)
  ultimately show "get_cmd_result_int [Fail EINTR, Done name] True (Some ?out) cmd = Some (i, 0)"
    by (simp add: get_cmd_result_int_def)
  show "64 \<le> length output \<longrightarrow> get_cmd_result_int [Done name] True (Some output) cmd = None"
    by (simp add: get_cmd_result_int_def get_cmd_result_def tmp store_at_def)
qed

theorem cmd_result_int_witness:
  "get_cmd_result_int [Fail EINTR, Done ''temp_a''] True (Some (show_int (-42) @ [LF])) ''cat n'' = Some (-42, 0)"
  using cmd_result_int[of "''cat n''" "''temp_a''" "-42"] by simp

text \<open>What is printed of a memory reads back as its bytes.\<close>

theorem print_mem_roundtrip: "undump (print_mem m a n) = bytes_from m a n"
  by (rule undump_print_mem)

text \<open>\<open>get_call_links\<close> returns the return addresses of a chain of frames, innermost first, at most \<open>nr\<close>.\<close>

fun frames :: "(u64 \<Rightarrow> u64) \<Rightarrow> u64 \<Rightarrow> u64 list \<Rightarrow> bool" where
  "frames m bp [] \<longleftrightarrow> m bp = 0"
| "frames m bp (r # rs) \<longleftrightarrow> m bp \<noteq> 0 \<and> m (bp + 8) = r \<and> frames m (m bp) rs"

lemma call_links_frames: "frames m bp rs \<Longrightarrow> get_call_links m bp nr = take nr rs"
proof (induction rs arbitrary: bp nr)
  case Nil
  then show ?case by (cases nr) simp_all
next
  case (Cons r rs)
  then show ?case by (cases nr) simp_all
qed

theorem get_call_links_chain: "frames m bp rs \<Longrightarrow> get_call_links m bp nr = take nr rs"
  by (rule call_links_frames)

theorem get_call_links_chain_witness:
  "get_call_links (\<lambda>a. if a = 100 then 200 else if a = 108 then 7 else if a = 200 then 300 else if a = 208 then 8 else 0) 100 5 = [7, 8]"
  using get_call_links_chain[of "\<lambda>a. if a = 100 then 200 else if a = 108 then 7 else if a = 200 then 300 else if a = 208 then 8 else 0" 100 "[7, 8]" 5]
  by simp

end
