(* ===== verification/Measure.thy ===== *)
theory Measure
  imports SysUtils
begin

text \<open>
  \<open>api/measure.h\<close> and \<open>src/measure.c\<close>: counting the processor cycles that pieces of code take. The measurements a program has
  are numbered by their addresses; \<open>rdtsc\<close> is an input. \<open>None\<close> is a store behind the table, or through a null pointer.
\<close>

section \<open>State\<close>

record t_measure =
  ms_name :: string
  total_cnt :: u64
  total_cycles :: u64
  one_time_begin :: u64
  one_time_end :: u64

text \<open>\<open>g_pt_measures\<close> is the list of the slots in use; \<open>init_measure\<close> takes memory for \<open>max_cnt\<close> structures of
  160 bytes where pointers of 8 bytes are stored. \<open>slots\<close>: how many there are, if there is a table.\<close>

record measures =
  objs :: "nat \<rightharpoonup> t_measure"
  g_pt_measures :: "nat list"
  slots :: "nat option"
  cpu_freq :: u64

definition no_measures :: measures where
  "no_measures = \<lparr>objs = Map.empty, g_pt_measures = [], slots = None, cpu_freq = 0\<rparr>"

section \<open>Operations\<close>

definition init_measure :: "bool \<Rightarrow> nat \<Rightarrow> u64 \<Rightarrow> u64 \<Rightarrow> measures \<Rightarrow> int \<times> measures" where
  "init_measure malloc_ok max_cnt t1 t2 s =
     (if malloc_ok then 0 else 1,
      s\<lparr>slots := (if malloc_ok then Some (160 * max_cnt div 8) else None), cpu_freq := get_cpu_freq t1 t2\<rparr>)"

definition add_measure :: "nat \<Rightarrow> measures \<Rightarrow> measures option" where
  "add_measure p s =
     (case slots s of
        None \<Rightarrow> None
      | Some n \<Rightarrow> if length (g_pt_measures s) < n then Some (s\<lparr>g_pt_measures := g_pt_measures s @ [p]\<rparr>) else None)"

text \<open>The macros, on the variable \<open>var\<close> of a thread. \<open>p\<close> is what \<open>malloc\<close> returns; the name has 128 cells.\<close>

definition INIT_TIME_MEASURE :: "string \<Rightarrow> nat option \<Rightarrow> nat option \<Rightarrow> measures \<Rightarrow> (nat option \<times> measures) option" where
  "INIT_TIME_MEASURE name p var s =
     (case var of
        Some q \<Rightarrow> Some (var, s)
      | None \<Rightarrow> (case p of
            None \<Rightarrow> None
          | Some q \<Rightarrow>
              if 128 \<le> length name then None
              else map_option (Pair (Some q)) (add_measure q (s\<lparr>objs := (objs s)(q \<mapsto>
                \<lparr>ms_name = name, total_cnt = 0, total_cycles = 0, one_time_begin = 0, one_time_end = 0\<rparr>)\<rparr>))))"

definition TIME_MEASURE_BEGIN :: "u64 \<Rightarrow> nat option \<Rightarrow> measures \<Rightarrow> measures option" where
  "TIME_MEASURE_BEGIN now var s = do {
     q \<leftarrow> var; m \<leftarrow> objs s q;
     Some (s\<lparr>objs := (objs s)(q \<mapsto> m\<lparr>one_time_begin := now\<rparr>)\<rparr>) }"

definition TIME_MEASURE_END :: "u64 \<Rightarrow> nat option \<Rightarrow> measures \<Rightarrow> measures option" where
  "TIME_MEASURE_END now var s = do {
     q \<leftarrow> var; m \<leftarrow> objs s q;
     Some (s\<lparr>objs := (objs s)(q \<mapsto> m\<lparr>one_time_end := now, total_cnt := total_cnt m + 1,
       total_cycles := total_cycles m + (now - one_time_begin m)\<rparr>)\<rparr>) }"

definition report_line :: "t_measure \<Rightarrow> string" where
  "report_line m =
     ms_name m @ '' exec '' @ show_dec (unat (total_cnt m)) @ '' times '' @
     show_dec (unat (total_cycles m)) @ '' cycles in total '' @
     show_dec (unat (if total_cnt m > 0 then total_cycles m div total_cnt m else 0)) @ '' cycles per time'' @ [LF]"

definition report_measure :: "measures \<Rightarrow> string option" where
  "report_measure s = do {
     ls \<leftarrow> those (map (\<lambda>p. map_option report_line (objs s p)) (g_pt_measures s));
     Some (''cpu freq = '' @ show_dec (unat (cpu_freq s)) @ [LF] @ concat ls) }"

section \<open>Measuring\<close>

text \<open>Runs of a piece of code: its two readings each time.\<close>

fun measure_runs :: "nat option \<Rightarrow> (u64 \<times> u64) list \<Rightarrow> measures \<Rightarrow> measures option" where
  "measure_runs var [] s = Some s"
| "measure_runs var ((b, e) # runs) s = do {
     s \<leftarrow> TIME_MEASURE_BEGIN b var s; s \<leftarrow> TIME_MEASURE_END e var s; measure_runs var runs s }"

lemma measure_runs_counts:
  "objs s q = Some m \<Longrightarrow>
     \<exists>b e. measure_runs (Some q) runs s = Some (s\<lparr>objs := (objs s)(q \<mapsto>
       m\<lparr>one_time_begin := b, one_time_end := e, total_cnt := total_cnt m + of_nat (length runs),
         total_cycles := total_cycles m + (\<Sum>(b, e) \<leftarrow> runs. e - b)\<rparr>)\<rparr>)"
proof (induction runs arbitrary: s m)
  case Nil
  then have "(objs s)(q \<mapsto> m) = objs s" by (simp add: fun_upd_idem)
  then show ?case by (intro exI[of _ "one_time_begin m"] exI[of _ "one_time_end m"]) simp
next
  case (Cons r runs)
  obtain b e where r: "r = (b, e)" by (cases r)
  let ?m = "m\<lparr>one_time_begin := b, one_time_end := e, total_cnt := total_cnt m + 1, total_cycles := total_cycles m + (e - b)\<rparr>"
  let ?s = "s\<lparr>objs := (objs s)(q \<mapsto> ?m)\<rparr>"
  have "measure_runs (Some q) (r # runs) s = measure_runs (Some q) runs ?s"
    using Cons.prems by (simp add: r TIME_MEASURE_BEGIN_def TIME_MEASURE_END_def)
  moreover have "objs ?s q = Some ?m" by simp
  from Cons.IH[OF this] obtain b' e' where "measure_runs (Some q) runs ?s = Some (?s\<lparr>objs := (objs ?s)(q \<mapsto>
       ?m\<lparr>one_time_begin := b', one_time_end := e', total_cnt := total_cnt ?m + of_nat (length runs),
         total_cycles := total_cycles ?m + (\<Sum>(b, e) \<leftarrow> runs. e - b)\<rparr>)\<rparr>)" by blast
  ultimately have "measure_runs (Some q) (r # runs) s = Some (s\<lparr>objs := (objs s)(q \<mapsto>
       m\<lparr>one_time_begin := b', one_time_end := e', total_cnt := total_cnt m + of_nat (length (r # runs)),
         total_cycles := total_cycles m + (\<Sum>(b, e) \<leftarrow> r # runs. e - b)\<rparr>)\<rparr>)"
    by (simp add: r add.assoc)
  then show ?case by blast
qed

section \<open>Properties\<close>

text \<open>After any runs of a measured piece of code the report has its name, the number of runs, the sum of
  the cycles and their average. The table has room for twenty times the measurements asked for, and
  one more is stored behind it.\<close>

theorem measure_reports:
  assumes "length name < 128" "init_measure True max_cnt t1 t2 no_measures = (0, s)" "0 < max_cnt" "length runs < 2 ^ 64"
  shows "(\<exists>s1 s2. INIT_TIME_MEASURE name (Some q) None s = Some (Some q, s1) \<and> measure_runs (Some q) runs s1 = Some s2 \<and>
      report_measure s2 = Some (''cpu freq = '' @ show_dec (unat ((t2 - t1) div 1000000 * 1000000)) @ [LF] @
        name @ '' exec '' @ show_dec (length runs) @ '' times '' @
        show_dec (unat (\<Sum>(b, e) \<leftarrow> runs. e - b)) @ '' cycles in total '' @
        show_dec (if runs = [] then 0 else unat (\<Sum>(b, e) \<leftarrow> runs. e - b) div length runs) @ '' cycles per time'' @ [LF])) \<and>
    (length ps = 20 * max_cnt \<longrightarrow> add_measure p (s\<lparr>g_pt_measures := ps\<rparr>) = None)"
proof -
  have s: "slots s = Some (20 * max_cnt)" "g_pt_measures s = []" "cpu_freq s = (t2 - t1) div 1000000 * 1000000"
    using assms(2) by (auto simp: init_measure_def no_measures_def get_cpu_freq_def)
  let ?m = "\<lparr>ms_name = name, total_cnt = 0, total_cycles = 0, one_time_begin = 0, one_time_end = 0\<rparr>"
  let ?s1 = "s\<lparr>objs := (objs s)(q \<mapsto> ?m), g_pt_measures := [q]\<rparr>"
  have i: "INIT_TIME_MEASURE name (Some q) None s = Some (Some q, ?s1)"
    using assms(1,3) s by (simp add: INIT_TIME_MEASURE_def add_measure_def)
  have "objs ?s1 q = Some ?m" by simp
  from measure_runs_counts[OF this, of runs] obtain b e where
    r: "measure_runs (Some q) runs ?s1 = Some (?s1\<lparr>objs := (objs ?s1)(q \<mapsto>
      ?m\<lparr>one_time_begin := b, one_time_end := e, total_cnt := of_nat (length runs), total_cycles := (\<Sum>(b, e) \<leftarrow> runs. e - b)\<rparr>)\<rparr>)"
    by auto
  have n: "unat (of_nat (length runs) :: u64) = length runs" using assms(4) by (simp add: unat_of_nat_small)
  have z: "(of_nat (length runs) :: u64) > 0 \<longleftrightarrow> runs \<noteq> []" using n by (auto simp: word_less_nat_alt)
  have "report_measure (?s1\<lparr>objs := (objs ?s1)(q \<mapsto>
      ?m\<lparr>one_time_begin := b, one_time_end := e, total_cnt := of_nat (length runs), total_cycles := (\<Sum>(b, e) \<leftarrow> runs. e - b)\<rparr>)\<rparr>) =
    Some (''cpu freq = '' @ show_dec (unat ((t2 - t1) div 1000000 * 1000000)) @ [LF] @
        name @ '' exec '' @ show_dec (length runs) @ '' times '' @
        show_dec (unat (\<Sum>(b, e) \<leftarrow> runs. e - b)) @ '' cycles in total '' @
        show_dec (if runs = [] then 0 else unat (\<Sum>(b, e) \<leftarrow> runs. e - b) div length runs) @ '' cycles per time'' @ [LF])"
    using n z s(3) by (simp add: report_measure_def report_line_def unat_div)
  with i r s(1) show ?thesis by (auto simp: add_measure_def)
qed

theorem measure_reports_witness:
  "\<exists>s1 s2. INIT_TIME_MEASURE ''f1'' (Some 7) None (snd (init_measure True 2 100 3000100 no_measures)) = Some (Some 7, s1) \<and>
    measure_runs (Some 7) [(10, 15), (20, 27)] s1 = Some s2"
proof -
  have i: "init_measure True 2 100 3000100 no_measures = (0, snd (init_measure True 2 100 3000100 no_measures))"
    by (simp add: init_measure_def)
  have h: "length ''f1'' < 128" "(0 :: nat) < 2" "length [(10, 15), (20, 27) :: u64 \<times> u64] < 2 ^ 64" by simp_all
  from measure_reports[OF h(1) i h(2,3), of 7] show ?thesis by blast
qed

end
