(* ===== verification/NetStat.thy ===== *)
theory NetStat
  imports SocketUtils Getopt
begin

text \<open>
  The statistics of the network test programs: \<open>api/stat.h\<close> on arrays of 64-bit counters, and the ten
  counters of the testers and reflectors (\<open>simple_apps\<close>: \<open>udp_tester.c\<close>, \<open>udp_reflector.c\<close>,
  \<open>tcp_tester.c\<close>, \<open>tcp_reflector.c\<close>), which differ only in the name of the third. Counters wrap at
  \<open>2 ^ 64\<close>.
\<close>

section \<open>Arrays of counters\<close>

definition sum_stats :: "u64 list list \<Rightarrow> nat \<Rightarrow> u64 list" where
  "sum_stats srcs item_num = map (\<lambda>i. foldl (\<lambda>d src. d + src ! i) 0 srcs) [0..<item_num]"

definition sub_stats :: "u64 list \<Rightarrow> u64 list \<Rightarrow> nat \<Rightarrow> u64 list" where
  "sub_stats larger smaller item_num = map (\<lambda>i. larger ! i - smaller ! i) [0..<item_num]"

definition stat_line :: "string \<Rightarrow> u64 \<Rightarrow> string" where
  "stat_line name v =
     pad_right 32 name @ ''    0x'' @ pad_right 16 (show_nat 16 (unat v)) @ ''('' @ show_dec (unat v) @ '')'' @ [LF]"

definition print_stats :: "bool \<Rightarrow> u64 list \<Rightarrow> string list \<Rightarrow> string" where
  "print_stats no_prt_zero_item items names =
     [LF] @ concat (map (\<lambda>(v, name). if v \<noteq> 0 \<or> \<not> no_prt_zero_item then stat_line name v else []) (zip items names))"

section \<open>The counters\<close>

record t_rxtx_stat =
  rx_times_total :: u64
  rx_times_fail :: u64
  rx_pkts :: u64
  rx_bytes :: u64
  tx_pkts_total :: u64
  tx_bytes_total :: u64
  tx_pkts_fail :: u64
  tx_bytes_fail :: u64
  tx_pkts_succ :: u64
  tx_bytes_succ :: u64

definition no_stat :: t_rxtx_stat where
  "no_stat = \<lparr>rx_times_total = 0, rx_times_fail = 0, rx_pkts = 0, rx_bytes = 0, tx_pkts_total = 0,
     tx_bytes_total = 0, tx_pkts_fail = 0, tx_bytes_fail = 0, tx_pkts_succ = 0, tx_bytes_succ = 0\<rparr>"

definition stat_items :: "t_rxtx_stat \<Rightarrow> u64 list" where
  "stat_items s = [rx_times_total s, rx_times_fail s, rx_pkts s, rx_bytes s, tx_pkts_total s,
     tx_bytes_total s, tx_pkts_fail s, tx_bytes_fail s, tx_pkts_succ s, tx_bytes_succ s]"

text \<open>The groups of \<open>INC_STAT\<close> and \<open>INC_STAT_VALUE\<close> in the loops; a byte count is an \<open>int\<close>.\<close>

definition count_rx :: "int \<Rightarrow> t_rxtx_stat \<Rightarrow> t_rxtx_stat" where
  "count_rx ret s =
     (let s1 = s\<lparr>rx_times_total := rx_times_total s + 1\<rparr>
      in if ret > 0 then s1\<lparr>rx_pkts := rx_pkts s1 + 1, rx_bytes := rx_bytes s1 + word_of_int ret\<rparr>
         else s1\<lparr>rx_times_fail := rx_times_fail s1 + 1\<rparr>)"

definition count_tx_try :: "int \<Rightarrow> t_rxtx_stat \<Rightarrow> t_rxtx_stat" where
  "count_tx_try len s =
     s\<lparr>tx_pkts_total := tx_pkts_total s + 1, tx_bytes_total := tx_bytes_total s + word_of_int len\<rparr>"

definition count_tx_succ :: "int \<Rightarrow> t_rxtx_stat \<Rightarrow> t_rxtx_stat" where
  "count_tx_succ len s =
     s\<lparr>tx_pkts_succ := tx_pkts_succ s + 1, tx_bytes_succ := tx_bytes_succ s + word_of_int len\<rparr>"

definition count_tx_fail :: "int \<Rightarrow> t_rxtx_stat \<Rightarrow> t_rxtx_stat" where
  "count_tx_fail len s =
     s\<lparr>tx_pkts_fail := tx_pkts_fail s + 1, tx_bytes_fail := tx_bytes_fail s + word_of_int len\<rparr>"

lemmas count_defs = count_rx_def count_tx_try_def count_tx_succ_def count_tx_fail_def Let_def

text \<open>Everything tried has succeeded or failed.\<close>

definition balanced :: "t_rxtx_stat \<Rightarrow> bool" where
  "balanced s \<longleftrightarrow> rx_times_total s = rx_times_fail s + rx_pkts s \<and>
     tx_pkts_total s = tx_pkts_fail s + tx_pkts_succ s \<and> tx_bytes_total s = tx_bytes_fail s + tx_bytes_succ s"

lemma balanced_no_stat: "balanced no_stat"
  by (simp add: balanced_def no_stat_def)

lemma balanced_rx: "balanced s \<Longrightarrow> balanced (count_rx ret s)"
  by (simp add: balanced_def count_defs)

lemma balanced_tx:
  "balanced s \<Longrightarrow> balanced (count_tx_succ len (count_tx_try len s))"
  "balanced s \<Longrightarrow> balanced (count_tx_fail len (count_tx_try len s))"
  by (simp_all add: balanced_def count_defs)

text \<open>The interface of a program that is driven by events and keeps an invariant.\<close>

locale event_program =
  fixes step :: "'e \<Rightarrow> 's \<Rightarrow> 's" and good :: "'s \<Rightarrow> bool"
  assumes step_good: "good s \<Longrightarrow> good (step e s)"
begin

lemma run_good: "good s \<Longrightarrow> good (fold step es s)"
  by (induction es arbitrary: s) (auto intro: step_good)

end

section \<open>The command line of the testers\<close>

record tester_paras =
  no_verbose :: bool
  cpu_idx :: u8
  src_ip :: "string option"
  src_port :: u16
  dst_ip :: "string option"
  dst_port :: u16
  enable_perf :: bool
  no_prt_pkt :: bool
  snd_interval :: int
  snd_data_len :: int

definition the_working_paras :: tester_paras where
  "the_working_paras = \<lparr>no_verbose = False, cpu_idx = -1, src_ip = None, src_port = 0, dst_ip = None,
     dst_port = 0, enable_perf = False, no_prt_pkt = False, snd_interval = 1, snd_data_len = 8\<rparr>"

definition snd_buf :: "char list" where
  "snd_buf = ''12345abc'' @ replicate (65536 - 8) NUL"

definition opt_entry :: "string \<Rightarrow> has_arg \<Rightarrow> nat \<Rightarrow> long_option" where
  "opt_entry name arg val = \<lparr>opt_name = name, opt_has_arg = arg, opt_val = val\<rparr>"

definition tester_options :: "long_option list" where
  "tester_options =
    [opt_entry ''help'' no_argument 1000, opt_entry ''no-verbose'' no_argument 1001,
     opt_entry ''bind-to-cpu'' required_argument 1002, opt_entry ''src-ip'' required_argument 1003,
     opt_entry ''src-port'' required_argument 1004, opt_entry ''snd-interval'' required_argument 1005,
     opt_entry ''enable-perf'' no_argument 1006, opt_entry ''no-print-pkt'' no_argument 1007,
     opt_entry ''dst-ip'' required_argument 1008, opt_entry ''dst-port'' required_argument 1009,
     opt_entry ''snd-data-len'' required_argument 1010]"

text \<open>\<open>strtoul\<close> of the argument, stored in an \<open>int\<close>.\<close>

definition int_arg :: "string option \<Rightarrow> int" where
  "int_arg optarg = sint (ucast (strtoul (the optarg) 0) :: u32)"

text \<open>\<open>None\<close>: the usage is printed and the program ends.\<close>

definition args_post_proc :: "tester_paras \<Rightarrow> tester_paras option" where
  "args_post_proc p =
     (let p1 = (if enable_perf p then p\<lparr>no_verbose := True, no_prt_pkt := True\<rparr> else p)
      in if dst_ip p1 = None \<or> dst_port p1 = 0 then None else Some p1)"

definition parse_arg :: "opt_event \<Rightarrow> tester_paras \<Rightarrow> tester_paras option" where
  "parse_arg ev p = (case ev of (opt, optarg) \<Rightarrow>
     if opt = 1004 then Some (p\<lparr>src_port := ucast (strtoul (the optarg) 0)\<rparr>)
     else if opt = 1003 then Some (p\<lparr>src_ip := optarg\<rparr>)
     else if opt = 1009 then Some (p\<lparr>dst_port := ucast (strtoul (the optarg) 0)\<rparr>)
     else if opt = 1008 then Some (p\<lparr>dst_ip := optarg\<rparr>)
     else if opt = 1001 then Some (p\<lparr>no_verbose := True\<rparr>)
     else if opt = 1007 then Some (p\<lparr>no_prt_pkt := True\<rparr>)
     else if opt = 1005 then Some (p\<lparr>snd_interval := int_arg optarg\<rparr>)
     else if opt = 1010 then Some (p\<lparr>snd_data_len := int_arg optarg\<rparr>)
     else if opt = 1006 then Some (p\<lparr>enable_perf := True\<rparr>)
     else if opt = 1002 then Some (p\<lparr>cpu_idx := ucast (strtoul (the optarg) 0)\<rparr>)
     else None)"

fun parse_args_from :: "opt_event list \<Rightarrow> tester_paras \<Rightarrow> tester_paras option" where
  "parse_args_from [] p = args_post_proc p"
| "parse_args_from (ev # evs) p = Option.bind (parse_arg ev p) (parse_args_from evs)"

definition parse_args :: "string list \<Rightarrow> tester_paras option" where
  "parse_args argv = parse_args_from (getopt_long ''hH'' tester_options argv) the_working_paras"

section \<open>The command line of the reflectors\<close>

record reflector_paras =
  r_no_verbose :: bool
  r_cpu_idx :: u8
  r_src_ip :: string
  r_src_port :: u16
  r_enable_perf :: bool
  r_no_prt_pkt :: bool
  only_recv :: bool

definition reflector_paras_init :: reflector_paras where
  "reflector_paras_init = \<lparr>r_no_verbose = False, r_cpu_idx = -1, r_src_ip = ''0.0.0.0'', r_src_port = 5555,
     r_enable_perf = False, r_no_prt_pkt = False, only_recv = False\<rparr>"

definition reflector_options :: "long_option list" where
  "reflector_options =
    [opt_entry ''help'' no_argument 1000, opt_entry ''no-verbose'' no_argument 1001,
     opt_entry ''bind-to-cpu'' required_argument 1002, opt_entry ''src-ip'' required_argument 1003,
     opt_entry ''src-port'' required_argument 1004, opt_entry ''only-recv'' no_argument 1005,
     opt_entry ''enable-perf'' no_argument 1006, opt_entry ''no-print-pkt'' no_argument 1007]"

definition reflector_arg :: "opt_event \<Rightarrow> reflector_paras \<Rightarrow> reflector_paras option" where
  "reflector_arg ev p = (case ev of (opt, optarg) \<Rightarrow>
     if opt = 1004 then Some (p\<lparr>r_src_port := ucast (strtoul (the optarg) 0)\<rparr>)
     else if opt = 1003 then Some (p\<lparr>r_src_ip := the optarg\<rparr>)
     else if opt = 1001 then Some (p\<lparr>r_no_verbose := True\<rparr>)
     else if opt = 1007 then Some (p\<lparr>r_no_prt_pkt := True\<rparr>)
     else if opt = 1005 then Some (p\<lparr>only_recv := True\<rparr>)
     else if opt = 1006 then Some (p\<lparr>r_enable_perf := True\<rparr>)
     else if opt = 1002 then Some (p\<lparr>r_cpu_idx := ucast (strtoul (the optarg) 0)\<rparr>)
     else None)"

fun reflector_args_from :: "opt_event list \<Rightarrow> reflector_paras \<Rightarrow> reflector_paras option" where
  "reflector_args_from [] p =
     Some (if r_enable_perf p then p\<lparr>r_no_verbose := True, r_no_prt_pkt := True\<rparr> else p)"
| "reflector_args_from (ev # evs) p = Option.bind (reflector_arg ev p) (reflector_args_from evs)"

definition reflector_parse_args :: "string list \<Rightarrow> reflector_paras option" where
  "reflector_parse_args argv = reflector_args_from (getopt_long ''hH'' reflector_options argv) reflector_paras_init"

text \<open>\<open>main\<close> binds the thread to a processor unless its number is the default 255; \<open>bind_ret\<close> is what
  \<open>bind_cur_thread_to_cpu\<close> returns. \<open>False\<close> ends the program.\<close>

definition bind_to_cpu :: "u8 \<Rightarrow> int \<Rightarrow> bool" where
  "bind_to_cpu idx bind_ret \<longleftrightarrow> idx = -1 \<or> bind_ret = 0"

text \<open>The loop around \<open>accept\<close> ends with the first connection; \<open>False\<close> ends the program, \<open>None\<close> is
  still waiting.\<close>

fun accept_loop :: "int outcome list \<Rightarrow> bool option" where
  "accept_loop [] = None"
| "accept_loop (Done fd # os) = Some True"
| "accept_loop (Fail e # os) = (if e = EINTR then accept_loop os else Some False)"

section \<open>Example command lines\<close>

definition demo_paras :: "int \<Rightarrow> int \<Rightarrow> tester_paras" where
  "demo_paras interval len = the_working_paras\<lparr>dst_ip := Some ''9'', dst_port := 7, snd_interval := interval, snd_data_len := len\<rparr>"

lemma demo_args:
  "parse_args [''t'', ''--dst-ip=9'', ''--dst-port=7''] = Some (demo_paras 1 8)"
  "parse_args [''t'', ''--dst-ip=9'', ''--dst-port=7'', ''--snd-data-len=-1''] = Some (demo_paras 1 (-1))"
  "reflector_parse_args [''r''] = Some reflector_paras_init"
proof -
  have e: "getopt_long ''hH'' tester_options [''t'', ''--dst-ip=9'', ''--dst-port=7''] = [(1008, Some ''9''), (1009, Some ''7'')]"
    "getopt_long ''hH'' tester_options [''t'', ''--dst-ip=9'', ''--dst-port=7'', ''--snd-data-len=-1''] =
      [(1008, Some ''9''), (1009, Some ''7''), (1010, Some ''-1'')]"
    "getopt_long ''hH'' reflector_options [''r''] = []"
    by code_simp+
  have "ucast (- 1 :: u64) = (- 1 :: u32)" by (rule bit_word_eqI) (simp add: bit_simps)
  then have v: "ucast (strtoul ''7'' 0) = (7 :: u16)" "int_arg (Some ''-1'') = -1"
    by (simp_all add: int_arg_def strtoul_def signed_digits_def isspace_def drop_0x_def digit_value_def)
  show "parse_args [''t'', ''--dst-ip=9'', ''--dst-port=7''] = Some (demo_paras 1 8)"
    "parse_args [''t'', ''--dst-ip=9'', ''--dst-port=7'', ''--snd-data-len=-1''] = Some (demo_paras 1 (-1))"
    "reflector_parse_args [''r''] = Some reflector_paras_init"
    unfolding parse_args_def reflector_parse_args_def e
    by (simp_all add: parse_arg_def v args_post_proc_def demo_paras_def the_working_paras_def reflector_paras_init_def)
qed

end
