(* ===== verification/RamDisk.thy ===== *)
theory RamDisk
  imports Prelude
begin

text \<open>
  \<open>misc/block_drv_test.c\<close>: a kernel module with three disks in memory. A request is a list of memory
  segments at consecutive sectors; a buffer is the part of a page a segment covers. What an allocation of
  the kernel answers is the argument \<open>ok\<close>; what the module holds of the kernel is a set, and giving
  back what is not held is \<open>None\<close>, as is an access outside a buffer or a disk.
\<close>

section \<open>Disks and requests\<close>

definition MAX_HD_NR :: nat where "MAX_HD_NR = 3"
definition SECTORS_PER_HD :: nat where "SECTORS_PER_HD = 16384"

record my_disk_struct =
  disk_index :: int
  sectors :: u64
  disk_bytes :: u64
  disk_space :: "u8 list"

record bio_vec =
  bv_len :: u32
  bv_buf :: "u8 list"

record bio =
  bi_sector :: u64
  bi_size :: u32
  bi_write :: bool
  bi_io_vec :: "bio_vec list"

text \<open>Heads, sectors and cylinders.\<close>

definition my_getgeo :: "my_disk_struct \<Rightarrow> u64 \<times> u64 \<times> u64" where
  "my_getgeo d = (2, 4, sectors d div 8)"

definition do_one_region ::
    "my_disk_struct \<Rightarrow> u64 \<Rightarrow> u64 \<Rightarrow> u8 list \<Rightarrow> bool \<Rightarrow> (my_disk_struct \<times> u8 list) option" where
  "do_one_region d sector nr buffer write =
     (let off = unat (sector * 512); bytes = unat (nr * 512); space = disk_space d
      in if length space < off + bytes \<or> length buffer < bytes then None
         else if write then Some (d\<lparr>disk_space := take off space @ take bytes buffer @ drop (off + bytes) space\<rparr>, buffer)
         else Some (d, take bytes (drop off space) @ drop bytes buffer))"

fun process_vecs ::
    "my_disk_struct \<Rightarrow> u64 \<Rightarrow> bool \<Rightarrow> bio_vec list \<Rightarrow> (my_disk_struct \<times> bio_vec list) option" where
  "process_vecs d sector write [] = Some (d, [])"
| "process_vecs d sector write (v # vs) = do {
     (d1, buf) \<leftarrow> do_one_region d sector (ucast (bv_len v div 512)) (bv_buf v) write;
     (d2, vs') \<leftarrow> process_vecs d1 (sector + ucast (bv_len v div 512)) write vs;
     Some (d2, v\<lparr>bv_buf := buf\<rparr> # vs') }"

definition process_bio :: "my_disk_struct \<Rightarrow> bio \<Rightarrow> (int \<times> my_disk_struct \<times> bio) option" where
  "process_bio d b =
     (if bi_size b = 0 then Some (0, d, b)
      else map_option (\<lambda>(d1, vs). (0, d1, b\<lparr>bi_io_vec := vs\<rparr>)) (process_vecs d (bi_sector b) (bi_write b) (bi_io_vec b)))"

text \<open>The status the request ends with, the disk, and the request with its buffers.\<close>

definition my_make_request :: "bio \<Rightarrow> my_disk_struct \<Rightarrow> (int \<times> my_disk_struct \<times> bio) option" where
  "my_make_request b d = process_bio d b"

section \<open>The module\<close>

datatype resource = Major int | Struct nat | Space nat | Queue nat | Gendisk nat

record blk_drv =
  pt_disks :: "my_disk_struct option list"
  disk_cnt :: int
  blk_major :: int
  held :: "resource set"

definition unloaded :: blk_drv where
  "unloaded = \<lparr>pt_disks = replicate MAX_HD_NR None, disk_cnt = 0, blk_major = 0, held = {}\<rparr>"

definition take_res :: "resource \<Rightarrow> blk_drv \<Rightarrow> blk_drv" where
  "take_res r b = b\<lparr>held := insert r (held b)\<rparr>"

definition give_back :: "resource \<Rightarrow> blk_drv \<Rightarrow> blk_drv option" where
  "give_back r b = (if r \<in> held b then Some (b\<lparr>held := held b - {r}\<rparr>) else None)"

definition ENOMEM :: int where "ENOMEM = 12"

definition new_disk :: "nat \<Rightarrow> my_disk_struct" where
  "new_disk i = \<lparr>disk_index = int i, sectors = of_nat SECTORS_PER_HD, disk_bytes = of_nat SECTORS_PER_HD * 512,
     disk_space = replicate (SECTORS_PER_HD * 512) 0\<rparr>"

text \<open>\<open>out_free_queue\<close>, \<open>out_free_disk_space\<close>, \<open>out_free_lo\<close> and \<open>out\<close>, in this order.\<close>

definition add_one_disk :: "(resource \<Rightarrow> bool) \<Rightarrow> nat \<Rightarrow> blk_drv \<Rightarrow> (int \<times> blk_drv) option" where
  "add_one_disk ok i b =
     (if \<not> ok (Struct i) then Some (- ENOMEM, b)
      else let b1 = take_res (Struct i) b
      in if \<not> ok (Space i) then map_option (Pair (- ENOMEM)) (give_back (Struct i) b1)
      else let b2 = take_res (Space i) b1
      in if \<not> ok (Queue i) then do {
           c \<leftarrow> give_back (Space i) b2; c \<leftarrow> give_back (Struct i) c; Some (- ENOMEM, c) }
      else let b3 = take_res (Queue i) b2
      in if \<not> ok (Gendisk i) then do {
           c \<leftarrow> give_back (Queue i) b3; c \<leftarrow> give_back (Space i) c; c \<leftarrow> give_back (Struct i) c; Some (- ENOMEM, c) }
      else Some (int i, (take_res (Gendisk i) b3)\<lparr>pt_disks := (pt_disks b)[i := Some (new_disk i)]\<rparr>))"

definition remove_my_disk :: "nat \<Rightarrow> blk_drv \<Rightarrow> blk_drv option" where
  "remove_my_disk i b = do {
     b \<leftarrow> give_back (Queue i) b;
     b \<leftarrow> give_back (Gendisk i) b;
     b \<leftarrow> give_back (Space i) b;
     give_back (Struct i) b }"

fun uninstall_from :: "nat list \<Rightarrow> blk_drv \<Rightarrow> blk_drv option" where
  "uninstall_from [] b = Some b"
| "uninstall_from (drive # ds) b =
     (case pt_disks b ! drive of
        None \<Rightarrow> uninstall_from ds b
      | Some d \<Rightarrow> do {
          b \<leftarrow> remove_my_disk drive b;
          uninstall_from ds (b\<lparr>pt_disks := (pt_disks b)[drive := None], disk_cnt := disk_cnt b - 1\<rparr>) })"

definition uninstall_disks :: "blk_drv \<Rightarrow> blk_drv option" where
  "uninstall_disks b = (if disk_cnt b = 0 then Some b else uninstall_from [0..<MAX_HD_NR] b)"

fun install_from :: "(resource \<Rightarrow> bool) \<Rightarrow> nat list \<Rightarrow> blk_drv \<Rightarrow> (int \<times> blk_drv) option" where
  "install_from ok [] b = Some (0, b)"
| "install_from ok (drive # ds) b = do {
     (err, b) \<leftarrow> add_one_disk ok drive b;
     if err = int drive then install_from ok ds (b\<lparr>disk_cnt := disk_cnt b + 1\<rparr>)
     else map_option (Pair err) (uninstall_disks b) }"

definition install_disks :: "(resource \<Rightarrow> bool) \<Rightarrow> blk_drv \<Rightarrow> (int \<times> blk_drv) option" where
  "install_disks ok b = install_from ok [0..<MAX_HD_NR] b"

text \<open>\<open>reg\<close> is what \<open>register_blkdev\<close> returns: the number, or a negative error.\<close>

definition the_init :: "int \<Rightarrow> (resource \<Rightarrow> bool) \<Rightarrow> blk_drv \<Rightarrow> (int \<times> blk_drv) option" where
  "the_init reg ok b =
     (if reg < 0 then Some (reg, b)
      else install_disks ok ((take_res (Major reg) b)\<lparr>blk_major := reg\<rparr>))"

definition the_exit :: "blk_drv \<Rightarrow> blk_drv option" where
  "the_exit b = do {
     b \<leftarrow> uninstall_disks b;
     if blk_major b \<noteq> 0 then map_option (\<lambda>b. b\<lparr>blk_major := 0\<rparr>) (give_back (Major (blk_major b)) b) else Some b }"

section \<open>Requests on a disk as an array of bytes\<close>

datatype request = Read nat nat | Write nat "u8 list"

text \<open>The bytes of the disk afterwards, and the bytes in the buffers of the request.\<close>

fun serve :: "request \<Rightarrow> u8 list \<Rightarrow> u8 list \<times> u8 list" where
  "serve (Read off n) bs = (bs, take n (drop off bs))"
| "serve (Write off xs) bs = (take off bs @ xs @ drop (off + length xs) bs, xs)"

fun serve_all :: "request list \<Rightarrow> u8 list \<Rightarrow> u8 list \<times> u8 list list" where
  "serve_all [] bs = (bs, [])"
| "serve_all (r # rs) bs =
     (let (bs1, out) = serve r bs; (bs2, outs) = serve_all rs bs1 in (bs2, out # outs))"

text \<open>A device run on a list of requests: the status each one ends with, and the request with its buffers.\<close>

fun step_all :: "('r \<Rightarrow> 's \<Rightarrow> (int \<times> 's \<times> 'r) option) \<Rightarrow> 'r list \<Rightarrow> 's \<Rightarrow> ('s \<times> (int \<times> 'r) list) option" where
  "step_all step [] s = Some (s, [])"
| "step_all step (r # rs) s = do {
     (status, s, r') \<leftarrow> step r s; (s, rs') \<leftarrow> step_all step rs s; Some (s, (status, r') # rs') }"

locale byte_store =
  fixes step :: "'r \<Rightarrow> 's \<Rightarrow> (int \<times> 's \<times> 'r) option" and view :: "'s \<Rightarrow> u8 list"
    and request :: "'r \<Rightarrow> request" and data :: "'r \<Rightarrow> u8 list" and fits :: "'r \<Rightarrow> 's \<Rightarrow> bool"
  assumes step_serves: "fits r s \<Longrightarrow>
      \<exists>s' r'. step r s = Some (0, s', r') \<and> (view s', data r') = serve (request r) (view s)"
    and step_fits: "fits r s \<Longrightarrow> fits q s \<Longrightarrow> step r s = Some (0, s', r') \<Longrightarrow> fits q s'"
begin

lemma run_serves:
  assumes "\<forall>r \<in> set rs. fits r s"
  shows "\<exists>s' rs'. step_all step rs s = Some (s', map (Pair 0) rs') \<and>
    (view s', map data rs') = serve_all (map request rs) (view s)"
  using assms
proof (induction rs arbitrary: s)
  case (Cons r rs)
  from step_serves[of r s] Cons.prems obtain s1 r1 where s1: "step r s = Some (0, s1, r1)"
    "(view s1, data r1) = serve (request r) (view s)" by auto
  have "\<forall>q \<in> set rs. fits q s1"
    using step_fits[OF _ _ s1(1)] Cons.prems by simp
  from Cons.IH[OF this] obtain s2 rs2 where s2: "step_all step rs s1 = Some (s2, map (Pair 0) rs2)"
    "(view s2, map data rs2) = serve_all (map request rs) (view s1)" by auto
  have "(view s2, map data (r1 # rs2)) = serve_all (map request (r # rs)) (view s)"
    unfolding list.map serve_all.simps s1(2)[symmetric] Let_def prod.case s2(2)[symmetric] ..
  moreover have "step_all step (r # rs) s = Some (s2, map (Pair 0) (r1 # rs2))" using s1(1) s2(1) by simp
  ultimately show ?case by blast
qed simp

end

definition bytes_of :: "bio_vec list \<Rightarrow> nat" where
  "bytes_of vs = sum_list (map (\<lambda>v. unat (bv_len v)) vs)"

definition vec_ok :: "bio_vec \<Rightarrow> bool" where
  "vec_ok v \<longleftrightarrow> 512 dvd unat (bv_len v) \<and> length (bv_buf v) = unat (bv_len v)"

definition bio_data :: "bio \<Rightarrow> u8 list" where
  "bio_data b = concat (map bv_buf (bi_io_vec b))"

definition bio_request :: "bio \<Rightarrow> request" where
  "bio_request b =
     (let off = unat (bi_sector b) * 512
      in if bi_write b then Write off (bio_data b) else Read off (bytes_of (bi_io_vec b)))"

text \<open>What the block layer makes sure of: whole sectors, inside the disk.\<close>

definition bio_ok :: "bio \<Rightarrow> my_disk_struct \<Rightarrow> bool" where
  "bio_ok b d \<longleftrightarrow> (\<forall>v \<in> set (bi_io_vec b). vec_ok v) \<and> bi_size b = of_nat (bytes_of (bi_io_vec b)) \<and>
     unat (bi_sector b) * 512 + bytes_of (bi_io_vec b) \<le> length (disk_space d) \<and> length (disk_space d) = SECTORS_PER_HD * 512"

lemma bytes_of_simps: "bytes_of [] = 0" "bytes_of (v # vs) = unat (bv_len v) + bytes_of vs"
  by (simp_all add: bytes_of_def)

lemma length_bufs: "\<forall>v \<in> set vs. vec_ok v \<Longrightarrow> length (concat (map bv_buf vs)) = bytes_of vs"
  by (induction vs) (simp_all add: bytes_of_simps vec_ok_def)

lemma sector_bytes:
  fixes s :: u64 and l :: u32
  assumes "512 dvd unat l" "unat s * 512 + unat l \<le> 8388608"
  shows "unat (s * 512) = unat s * 512" "unat (ucast (l div 512) * 512 :: u64) = unat l"
    "unat (s + ucast (l div 512)) * 512 = unat s * 512 + unat l"
proof -
  show "unat (s * 512) = unat s * 512" using assms(2) by (simp add: unat_word_ariths)
  have d: "unat (ucast (l div 512) :: u64) = unat l div 512"
    using unat_bound[of l] by (simp add: unsigned_ucast_eq take_bit_nat_eq_self unat_div)
  show "unat (ucast (l div 512) * 512 :: u64) = unat l"
    using assms by (simp add: unat_word_ariths d)
  have "unat (s + ucast (l div 512)) = unat s + unat l div 512"
    using assms(2) by (simp add: unat_word_ariths d)
  with assms(1) show "unat (s + ucast (l div 512)) * 512 = unat s * 512 + unat l"
    by (simp add: algebra_simps)
qed

lemma process_vecs_write:
  assumes "\<forall>v \<in> set vs. vec_ok v" "unat sector * 512 + bytes_of vs \<le> length (disk_space d)" "length (disk_space d) \<le> 8388608"
  shows "process_vecs d sector True vs = Some (d\<lparr>disk_space := take (unat sector * 512) (disk_space d) @ concat (map bv_buf vs) @
      drop (unat sector * 512 + bytes_of vs) (disk_space d)\<rparr>, vs)"
  using assms
proof (induction vs arbitrary: d sector)
  case Nil
  then show ?case by (simp add: bytes_of_simps)
next
  case (Cons v vs)
  let ?off = "unat sector * 512" and ?n = "unat (bv_len v)" and ?ds = "disk_space d"
  let ?d1 = "d\<lparr>disk_space := take ?off ?ds @ bv_buf v @ drop (?off + ?n) ?ds\<rparr>"
  have v: "512 dvd ?n" "length (bv_buf v) = ?n" using Cons.prems(1) by (simp_all add: vec_ok_def)
  have le: "?off + ?n + bytes_of vs \<le> length ?ds" using Cons.prems(2) by (simp add: bytes_of_simps)
  with Cons.prems(3) have b: "?off + ?n \<le> 8388608" by simp
  note s = sector_bytes[OF v(1) b]
  have 1: "do_one_region d sector (ucast (bv_len v div 512)) (bv_buf v) True = Some (?d1, bv_buf v)"
    using le v(2) by (simp add: do_one_region_def s Let_def)
  have "length (disk_space ?d1) = length ?ds" using le v(2) by simp
  with Cons.IH[of "sector + ucast (bv_len v div 512)" ?d1] Cons.prems(1,3) le
  have "process_vecs ?d1 (sector + ucast (bv_len v div 512)) True vs = Some (?d1\<lparr>disk_space :=
      take (?off + ?n) (disk_space ?d1) @ concat (map bv_buf vs) @ drop (?off + ?n + bytes_of vs) (disk_space ?d1)\<rparr>, vs)"
    by (simp add: s)
  with 1 v(2) le show ?case by (simp add: bytes_of_simps ac_simps)
qed

lemma process_vecs_read:
  assumes "\<forall>v \<in> set vs. vec_ok v" "unat sector * 512 + bytes_of vs \<le> length (disk_space d)" "length (disk_space d) \<le> 8388608"
  shows "\<exists>vs'. process_vecs d sector False vs = Some (d, vs') \<and>
    concat (map bv_buf vs') = take (bytes_of vs) (drop (unat sector * 512) (disk_space d))"
  using assms
proof (induction vs arbitrary: sector)
  case Nil
  then show ?case by (simp add: bytes_of_simps)
next
  case (Cons v vs)
  let ?off = "unat sector * 512" and ?n = "unat (bv_len v)" and ?ds = "disk_space d"
  have v: "512 dvd ?n" "length (bv_buf v) = ?n" using Cons.prems(1) by (simp_all add: vec_ok_def)
  have le: "?off + ?n + bytes_of vs \<le> length ?ds" using Cons.prems(2) by (simp add: bytes_of_simps)
  with Cons.prems(3) have b: "?off + ?n \<le> 8388608" by simp
  note s = sector_bytes[OF v(1) b]
  have 1: "do_one_region d sector (ucast (bv_len v div 512)) (bv_buf v) False = Some (d, take ?n (drop ?off ?ds))"
    using le v(2) by (simp add: do_one_region_def s Let_def)
  from Cons.IH[of "sector + ucast (bv_len v div 512)"] Cons.prems(1,3) le obtain vs' where
    "process_vecs d (sector + ucast (bv_len v div 512)) False vs = Some (d, vs')"
    "concat (map bv_buf vs') = take (bytes_of vs) (drop (?n + ?off) ?ds)"
    by (auto simp: s add.commute)
  with 1 show ?case by (simp add: bytes_of_simps take_add)
qed

interpretation ram_disk: byte_store my_make_request disk_space bio_request bio_data bio_ok
proof
  fix b q d d' b'
  assume ok: "bio_ok b d"
  then have len: "length (disk_space d) = 8388608" by (simp add: bio_ok_def SECTORS_PER_HD_def)
  let ?vs = "bi_io_vec b"
  from ok have vs: "\<forall>v \<in> set ?vs. vec_ok v" "unat (bi_sector b) * 512 + bytes_of ?vs \<le> length (disk_space d)"
    "bi_size b = of_nat (bytes_of ?vs)" by (auto simp: bio_ok_def)
  have size: "bi_size b = 0 \<longleftrightarrow> bytes_of ?vs = 0"
    using vs(2,3) len by (simp add: unat_of_nat_small flip: unat_eq_0)
  show "\<exists>d' b'. my_make_request b d = Some (0, d', b') \<and> (disk_space d', bio_data b') = serve (bio_request b) (disk_space d)"
  proof (cases "bi_size b = 0")
    case True
    have "length (bio_data b) = bytes_of ?vs" using length_bufs[OF vs(1)] by (simp add: bio_data_def)
    with True size have "bio_data b = []" "bytes_of ?vs = 0" by simp_all
    then show ?thesis by (simp add: my_make_request_def process_bio_def True bio_request_def Let_def)
  next
    case False
    show ?thesis
    proof (cases "bi_write b")
      case True
      with process_vecs_write[OF vs(1,2)] len length_bufs[OF vs(1)] False show ?thesis
        by (simp add: my_make_request_def process_bio_def bio_request_def bio_data_def Let_def)
    next
      case read: False
      from process_vecs_read[OF vs(1,2)] len obtain vs' where "process_vecs d (bi_sector b) False ?vs = Some (d, vs')"
        "concat (map bv_buf vs') = take (bytes_of ?vs) (drop (unat (bi_sector b) * 512) (disk_space d))" by auto
      with False read show ?thesis
        by (simp add: my_make_request_def process_bio_def bio_request_def bio_data_def Let_def)
    qed
  qed
  then obtain d1 b1 where 1: "my_make_request b d = Some (0, d1, b1)" "disk_space d1 = fst (serve (bio_request b) (disk_space d))"
    by (metis fst_conv)
  have "length (disk_space d1) = length (disk_space d)"
    using vs(2) length_bufs[OF vs(1)] by (simp add: 1(2) bio_request_def bio_data_def Let_def)
  then show "bio_ok q d'" if "bio_ok q d" "my_make_request b d = Some (0, d', b')"
    using that 1(1) by (simp add: bio_ok_def)
qed

section \<open>Loading and unloading\<close>

definition disk_res :: "nat \<Rightarrow> resource set" where
  "disk_res i = {Struct i, Space i, Queue i, Gendisk i}"

text \<open>The module with the first \<open>n\<close> disks.\<close>

definition with_disks :: "nat \<Rightarrow> int \<Rightarrow> blk_drv" where
  "with_disks n m = \<lparr>pt_disks = map (\<lambda>i. if i < n then Some (new_disk i) else None) [0..<MAX_HD_NR],
     disk_cnt = int n, blk_major = m, held = {Major m} \<union> (\<Union>i<n. disk_res i)\<rparr>"

definition all_ok :: "(resource \<Rightarrow> bool) \<Rightarrow> nat \<Rightarrow> bool" where
  "all_ok ok i \<longleftrightarrow> ok (Struct i) \<and> ok (Space i) \<and> ok (Queue i) \<and> ok (Gendisk i)"

lemma add_one_disk_fails:
  assumes "\<not> all_ok ok i" "held b \<inter> disk_res i = {}"
  shows "add_one_disk ok i b = Some (- ENOMEM, b)"
  using assms by (auto simp: all_ok_def add_one_disk_def take_res_def give_back_def disk_res_def Let_def insert_Diff_if)

lemma add_one_disk_works:
  assumes "all_ok ok n" "n < 3"
  shows "\<exists>b. add_one_disk ok n (with_disks n m) = Some (int n, b) \<and> b\<lparr>disk_cnt := disk_cnt b + 1\<rparr> = with_disks (Suc n) m"
proof -
  have "(map (\<lambda>i. if i < n then Some (new_disk i) else None) [0..<3])[n := Some (new_disk n)] =
      map (\<lambda>i. if i < Suc n then Some (new_disk i) else None) [0..<3]"
    by (rule nth_equalityI) (auto simp: nth_list_update less_Suc_eq)
  with assms show ?thesis
    by (auto simp: all_ok_def add_one_disk_def with_disks_def take_res_def Let_def MAX_HD_NR_def disk_res_def lessThan_Suc)
qed

lemma with_disks_fields: "disk_cnt (with_disks n m) = int n" "held (with_disks 0 m) = {Major m}"
  by (simp_all add: with_disks_def)

lemma held_before: "held (with_disks n m) \<inter> disk_res n = {}"
  by (auto simp: with_disks_def disk_res_def)

lemma remove_my_disk_eq:
  "disk_res i \<subseteq> held b \<Longrightarrow> remove_my_disk i b = Some (b\<lparr>held := held b - disk_res i\<rparr>)"
  by (auto simp: remove_my_disk_def give_back_def disk_res_def intro!: arg_cong[where f="\<lambda>h. b\<lparr>held := h\<rparr>"])

lemma uninstall_disks_eq:
  assumes "n \<le> 3"
  shows "uninstall_disks (with_disks n m) = Some (with_disks 0 m)"
proof -
  have u: "[0..<MAX_HD_NR] = [0, 1, 2]" by (simp add: MAX_HD_NR_def upt_rec)
  have l: "{..<Suc n} = insert n {..<n}" for n by auto
  consider "n = 0" | "n = 1" | "n = 2" | "n = 3" using assms by linarith
  then show ?thesis
    by cases (simp_all add: uninstall_disks_def u with_disks_def remove_my_disk_eq numeral_eq_Suc l disk_res_def)
qed

lemma install_disks_eq:
  "install_disks ok (with_disks 0 m) = Some (if \<forall>i<3. all_ok ok i then (0, with_disks 3 m) else (- ENOMEM, with_disks 0 m))"
proof -
  have u: "[0..<MAX_HD_NR] = [0, 1, 2]" by (simp add: MAX_HD_NR_def upt_rec)
  have step: "install_from ok (n # ds) (with_disks n m) =
      (if all_ok ok n then install_from ok ds (with_disks (Suc n) m) else Some (- ENOMEM, with_disks 0 m))" if "n < 3" for n ds
  proof (cases "all_ok ok n")
    case True
    from add_one_disk_works[OF this that] obtain b where
      "add_one_disk ok n (with_disks n m) = Some (int n, b)" "b\<lparr>disk_cnt := disk_cnt b + 1\<rparr> = with_disks (Suc n) m" by blast
    with True show ?thesis by simp
  next
    case False
    from add_one_disk_fails[OF this held_before] that show ?thesis
      by (simp add: False uninstall_disks_eq ENOMEM_def)
  qed
  have all: "(\<forall>i<3. all_ok ok i) \<longleftrightarrow> all_ok ok 0 \<and> all_ok ok 1 \<and> all_ok ok 2"
    by (auto simp: numeral_eq_Suc less_Suc_eq)
  show ?thesis
    unfolding install_disks_def u all using step[of 0 "[1, 2]"] step[of 1 "[2]"] step[of 2 "[]"]
    by (simp del: install_from.simps(2) add: numeral_2_eq_2 numeral_3_eq_3)
qed

lemma the_exit_eq: "n \<le> 3 \<Longrightarrow> 0 < m \<Longrightarrow> the_exit (with_disks n m) = Some unloaded"
  by (simp add: the_exit_def uninstall_disks_eq) (simp add: with_disks_def give_back_def unloaded_def MAX_HD_NR_def upt_rec numeral_3_eq_3)

section \<open>Properties\<close>

text \<open>C16: A new disk behaves as an array of zero bytes, for any requests of whole sectors inside it, however they
  are cut into segments: each of them ends with status 0, a write replaces exactly its bytes, and a
  read gets the bytes of the writes before it.\<close>

theorem ram_disk_serves:
  assumes "\<forall>b \<in> set bs. bio_ok b (new_disk i)"
  shows "\<exists>d bs'. step_all my_make_request bs (new_disk i) = Some (d, map (Pair 0) bs') \<and>
    (disk_space d, map bio_data bs') = serve_all (map bio_request bs) (replicate (SECTORS_PER_HD * 512) 0)"
  using ram_disk.run_serves[of bs "new_disk i", OF assms] by (simp add: new_disk_def)

text \<open>What was written is read back with any other cut into segments of the same sectors.\<close>

theorem ram_disk_reads_back:
  assumes "bio_ok w d" "bio_ok r d" "bi_write w" "\<not> bi_write r" "bi_sector r = bi_sector w"
    "bytes_of (bi_io_vec r) = bytes_of (bi_io_vec w)"
  shows "\<exists>d' w' r'. step_all my_make_request [w, r] d = Some (d', [(0, w'), (0, r')]) \<and> bio_data r' = bio_data w"
proof -
  from ram_disk.run_serves[of "[w, r]" d] assms(1,2) obtain d' bs' where
    1: "step_all my_make_request [w, r] d = Some (d', map (Pair 0) bs')"
      "(disk_space d', map bio_data bs') = serve_all [bio_request w, bio_request r] (disk_space d)" by auto
  then obtain w' r' where 2: "bs' = [w', r']" by (auto simp: Let_def split: prod.splits)
  have len: "length (bio_data w) = bytes_of (bi_io_vec w)"
    using assms(1) length_bufs by (auto simp: bio_ok_def bio_data_def)
  have "unat (bi_sector w) * 512 + bytes_of (bi_io_vec w) \<le> length (disk_space d)"
    using assms(1) by (simp add: bio_ok_def)
  with 1 2 assms(3-6) len show ?thesis by (auto simp: bio_request_def Let_def)
qed

text \<open>C32: The module either keeps its three disks, and \<open>the_exit\<close> then gives everything back, or refuses to
  load. It never frees twice. When the disks cannot be made it has given them back, but the block
  device number stays registered, and \<open>the_exit\<close> is not called for a module that did not load.\<close>

theorem blk_drv_init_exit:
  assumes "reg \<noteq> 0"
  shows "\<exists>err b. the_init reg ok unloaded = Some (err, b) \<and>
    (if reg < 0 then err = reg \<and> held b = {}
     else if \<forall>i<3. all_ok ok i then err = 0 \<and> disk_cnt b = 3 \<and> the_exit b = Some unloaded
     else err = - 12 \<and> disk_cnt b = 0 \<and> held b = {Major reg})"
proof (cases "reg < 0")
  case True
  then show ?thesis by (simp add: the_init_def unloaded_def)
next
  case False
  have "(take_res (Major reg) unloaded)\<lparr>blk_major := reg\<rparr> = with_disks 0 reg"
    by (simp add: take_res_def unloaded_def with_disks_def MAX_HD_NR_def upt_rec numeral_3_eq_3)
  with False have "the_init reg ok unloaded = install_disks ok (with_disks 0 reg)" by (simp add: the_init_def)
  with False assms show ?thesis
    using the_exit_eq[of 3 reg] by (simp add: install_disks_eq ENOMEM_def with_disks_fields)
qed

section \<open>Examples\<close>

definition demo_bio :: "bool \<Rightarrow> u32 list \<Rightarrow> bio" where
  "demo_bio write ls = \<lparr>bi_sector = 5, bi_size = sum_list ls, bi_write = write,
     bi_io_vec = map (\<lambda>l. \<lparr>bv_len = l, bv_buf = replicate (unat l) 7\<rparr>) ls\<rparr>"

lemma demo_bio_ok: "bio_ok (demo_bio write [1024]) (new_disk i)" "bio_ok (demo_bio write [512, 512]) (new_disk i)"
  by (simp_all add: bio_ok_def demo_bio_def vec_ok_def bytes_of_def new_disk_def SECTORS_PER_HD_def)

theorem ram_disk_serves_witness:
  "\<exists>d bs'. step_all my_make_request [demo_bio True [1024], demo_bio False [512, 512]] (new_disk 1) = Some (d, map (Pair 0) bs') \<and>
    (disk_space d, map bio_data bs') = serve_all (map bio_request [demo_bio True [1024], demo_bio False [512, 512]])
      (replicate (SECTORS_PER_HD * 512) 0)"
  by (rule ram_disk_serves) (simp add: demo_bio_ok)

theorem ram_disk_reads_back_witness:
  "\<exists>d' w' r'. step_all my_make_request [demo_bio True [1024], demo_bio False [512, 512]] (new_disk 1) = Some (d', [(0, w'), (0, r')]) \<and>
    bio_data r' = bio_data (demo_bio True [1024])"
  by (rule ram_disk_reads_back[OF demo_bio_ok(1) demo_bio_ok(2)]) (simp_all add: demo_bio_def bytes_of_def)

theorem blk_drv_init_exit_witness:
  "\<exists>b. the_init 252 (\<lambda>r. r \<noteq> Queue 1) unloaded = Some (- 12, b) \<and> held b = {Major 252}"
  using blk_drv_init_exit[of 252 "\<lambda>r. r \<noteq> Queue 1"] by (auto simp: all_ok_def split: if_splits)

end
