(* ===== verification/SerialPort.thy ===== *)
theory SerialPort
  imports Prelude
begin

unbundle bit_operations_syntax

text \<open>
  \<open>src/serial_port.c\<close>: setting up and using a serial line. The flags have the values of Linux, speeds are named by
  their number. What the calls on the descriptor return is an argument; \<open>None\<close> is a store outside the buffer.
\<close>

section \<open>Terminal settings\<close>

record termios =
  c_iflag :: u32
  c_oflag :: u32
  c_cflag :: u32
  c_lflag :: u32
  vtime :: u8
  vmin :: u8
  speed :: int

definition CSIZE :: u32 where "CSIZE = 0x30"
definition CS7 :: u32 where "CS7 = 0x20"
definition CS8 :: u32 where "CS8 = 0x30"
definition CSTOPB :: u32 where "CSTOPB = 0x40"
definition PARENB :: u32 where "PARENB = 0x100"
definition PARODD :: u32 where "PARODD = 0x200"
definition CRTSCTS :: u32 where "CRTSCTS = 0x80000000"
definition INPCK :: u32 where "INPCK = 0x10"
definition ICANON :: u32 where "ICANON = 2"

lemmas flag_defs = CSIZE_def CS7_def CS8_def CSTOPB_def PARENB_def PARODD_def CRTSCTS_def INPCK_def ICANON_def

text \<open>\<open>cfmakeraw\<close> of the C library.\<close>

definition cfmakeraw :: "termios \<Rightarrow> termios" where
  "cfmakeraw t = t\<lparr>c_iflag := c_iflag t AND NOT 0x5eb, c_oflag := c_oflag t AND NOT 1,
     c_lflag := c_lflag t AND NOT 0x804b, c_cflag := (c_cflag t AND NOT (CSIZE OR PARENB)) OR CS8, vmin := 1, vtime := 0\<rparr>"

text \<open>A line: its settings, and what \<open>tcgetattr\<close> and \<open>tcsetattr\<close> return.\<close>

record line =
  settings :: termios
  get_ret :: int
  set_ret :: int

definition tcsetattr :: "termios \<Rightarrow> line \<Rightarrow> int \<times> line" where
  "tcsetattr t l = (set_ret l, if set_ret l = 0 then l\<lparr>settings := t\<rparr> else l)"

section \<open>Configuration\<close>

definition name_arr :: "int list" where
  "name_arr = [115200, 57600, 38400, 19200, 9600, 4800, 2400, 1200, 300, 38400, 19200, 9600, 4800, 2400, 1200, 300]"

fun speed_loop :: "int list \<Rightarrow> int \<Rightarrow> termios \<Rightarrow> line \<Rightarrow> int \<times> line" where
  "speed_loop [] s t l = (0, l)"
| "speed_loop (n # ns) s t l =
     (if s = n then
        let t = t\<lparr>speed := n\<rparr>; (status, l) = tcsetattr t l
        in if status \<noteq> 0 then (1, l) else speed_loop ns s t l
      else speed_loop ns s t l)"

definition set_speed :: "int \<Rightarrow> line \<Rightarrow> int \<times> line" where
  "set_speed s l = speed_loop name_arr s (settings l) l"

definition set_databits :: "int \<Rightarrow> termios \<Rightarrow> termios option" where
  "set_databits databits t =
     (let t = t\<lparr>c_cflag := c_cflag t AND NOT CSIZE\<rparr>
      in if databits = 7 then Some (t\<lparr>c_cflag := c_cflag t OR CS7\<rparr>)
         else if databits = 8 then Some (t\<lparr>c_cflag := c_cflag t OR CS8\<rparr>)
         else None)"

definition set_parity_flags :: "char \<Rightarrow> termios \<Rightarrow> termios option" where
  "set_parity_flags parity t =
     (if parity = CHR ''n'' \<or> parity = CHR ''N'' then
        Some (t\<lparr>c_cflag := c_cflag t AND NOT PARENB, c_iflag := c_iflag t AND NOT INPCK\<rparr>)
      else if parity = CHR ''o'' \<or> parity = CHR ''O'' then Some (t\<lparr>c_cflag := c_cflag t OR (PARODD OR PARENB)\<rparr>)
      else if parity = CHR ''e'' \<or> parity = CHR ''E'' then Some (t\<lparr>c_cflag := (c_cflag t OR PARENB) AND NOT PARODD\<rparr>)
      else if parity = CHR ''S'' \<or> parity = CHR ''s'' then Some (t\<lparr>c_cflag := (c_cflag t AND NOT PARENB) AND NOT CSTOPB\<rparr>)
      else None)"

definition set_stopbits :: "int \<Rightarrow> termios \<Rightarrow> termios option" where
  "set_stopbits stopbits t =
     (if stopbits = 1 then Some (t\<lparr>c_cflag := c_cflag t AND NOT CSTOPB\<rparr>)
      else if stopbits = 2 then Some (t\<lparr>c_cflag := c_cflag t OR CSTOPB\<rparr>)
      else None)"

definition set_Parity :: "int \<Rightarrow> char \<Rightarrow> int \<Rightarrow> bool \<Rightarrow> line \<Rightarrow> int \<times> line" where
  "set_Parity databits parity stopbits RTSCTS l =
     (if get_ret l \<noteq> 0 then (-1, l)
      else case Option.bind (set_databits databits (settings l)) (\<lambda>t.
          Option.bind (set_parity_flags parity (cfmakeraw (t\<lparr>c_iflag := c_iflag t OR INPCK\<rparr>))) (set_stopbits stopbits)) of
        None \<Rightarrow> (-1, l)
      | Some t \<Rightarrow>
          let t = (if RTSCTS then t\<lparr>c_cflag := c_cflag t OR CRTSCTS\<rparr> else t);
              (ret, l) = tcsetattr (t\<lparr>vtime := 150, vmin := 0\<rparr>) l
          in if ret \<noteq> 0 then (-1, l) else (0, l))"

definition serial_set_line_input :: "line \<Rightarrow> int \<times> line" where
  "serial_set_line_input l =
     (if get_ret l \<noteq> 0 then (-1, l)
      else let t = settings l;
               (ret, l) = tcsetattr (t\<lparr>c_lflag := c_lflag t OR ICANON, vtime := 150, vmin := 0\<rparr>) l
           in if ret \<noteq> 0 then (-1, l) else (0, l))"

text \<open>\<open>fd\<close> is what \<open>open\<close> returns; the descriptor handed out is the second component.\<close>

definition serial_init :: "int \<Rightarrow> bool \<Rightarrow> int \<Rightarrow> bool \<Rightarrow> line \<Rightarrow> int \<times> int option \<times> line" where
  "serial_init fd RTSCTS s need_line_input l =
     (if fd = -1 then (1, None, l)
      else let l = snd (set_speed s l);
               l = snd (set_Parity 8 (CHR ''n'') 1 RTSCTS l);
               l = (if need_line_input then snd (serial_set_line_input l) else l)
           in (0, Some fd, l))"

section \<open>Reading and writing\<close>

definition serial_write :: "int \<Rightarrow> int" where
  "serial_write write_ret = 0"

text \<open>The buffer after \<open>read\<close> of at most one byte less than it has, and the NUL.\<close>

definition serial_read :: "char list option \<Rightarrow> char list \<Rightarrow> (int \<times> char list) option" where
  "serial_read read_res buf =
     (case read_res of
        None \<Rightarrow> None
      | Some bs \<Rightarrow>
          let bs = take (length buf - 1) bs
          in if buf = [] then None else Some (int (length bs), bs @ NUL # drop (length bs + 1) buf))"

section \<open>Properties\<close>

lemma mask_keeps:
  fixes w a b :: u32
  assumes "a AND b = 0"
  shows "(w AND NOT a) AND b = w AND b" "(w OR a) AND b = w AND b"
proof -
  have "\<not> (bit a n \<and> bit b n)" for n using assms by (metis bit_0_eq bit_and_iff bot_apply bot_bool_def)
  then show "(w AND NOT a) AND b = w AND b" "(w OR a) AND b = w AND b"
    by (auto intro!: bit_word_eqI simp: bit_simps)
qed

lemma mask_clears:
  fixes w a b :: u32
  shows "(w AND NOT a) AND a = 0" "(w OR a) AND a = a" "((w AND NOT (a OR b)) OR a) AND a = a"
  by (auto intro!: bit_word_eqI simp: bit_simps)

lemma flags_apart:
  "PARENB AND CSIZE = 0" "PARODD AND CSIZE = 0" "CSTOPB AND CSIZE = 0" "CRTSCTS AND CSIZE = 0" "(PARODD OR PARENB) AND CSIZE = 0"
  "CSTOPB AND PARENB = 0" "CRTSCTS AND PARENB = 0" "CRTSCTS AND CSTOPB = 0" "CS8 AND PARENB = 0" "CSIZE AND CS8 = CS8"
  "CS8 = CSIZE" "CS7 \<noteq> CS8" "PARENB \<noteq> 0" "CSTOPB \<noteq> 0"
  by (simp_all add: flag_defs)

lemmas flag_masks = mask_keeps[OF flags_apart(1)] mask_keeps[OF flags_apart(2)] mask_keeps[OF flags_apart(3)]
  mask_keeps[OF flags_apart(4)] mask_keeps[OF flags_apart(5)] mask_keeps[OF flags_apart(6)] mask_keeps[OF flags_apart(7)]
  mask_keeps[OF flags_apart(8)] mask_keeps[OF flags_apart(9)] mask_clears

lemma raw_size: "c_cflag (cfmakeraw t) AND CSIZE = CS8"
  by (simp add: cfmakeraw_def flags_apart(11) mask_clears)

lemma tcsetattr_ok: "set_ret l = 0 \<Longrightarrow> tcsetattr t l = (0, l\<lparr>settings := t\<rparr>)"
  by (simp add: tcsetattr_def)

lemma if_Some_cases:
  "(if a then Some x1 else if b then Some x2 else if c then Some x3 else if d then Some x4 else None) = Some y \<Longrightarrow>
     P x1 \<Longrightarrow> P x2 \<Longrightarrow> P x3 \<Longrightarrow> P x4 \<Longrightarrow> P y"
  by (auto split: if_splits)

lemma parity_size: "set_parity_flags parity t = Some t' \<Longrightarrow> c_cflag t' AND CSIZE = c_cflag t AND CSIZE"
  unfolding set_parity_flags_def by (erule if_Some_cases) (simp_all add: flag_masks)

lemma stopbits_size: "set_stopbits n t = Some t' \<Longrightarrow> c_cflag t' AND CSIZE = c_cflag t AND CSIZE"
  by (auto simp: set_stopbits_def flag_masks split: if_splits)

text \<open>\<open>cfmakeraw\<close> runs after the size is set and sets it again: whichever size is asked for, the line has eight
  data bits, and asking for seven succeeds.\<close>

theorem set_Parity_eight_bits:
  assumes "get_ret l = 0" "set_ret l = 0"
  shows "(set_Parity databits parity stopbits RTSCTS l = (0, l') \<longrightarrow> c_cflag (settings l') AND CSIZE = CS8) \<and>
    fst (set_Parity 7 (CHR ''N'') 1 RTSCTS l) = 0"
proof -
  have "c_cflag (settings l') AND CSIZE = CS8" if "set_Parity databits parity stopbits RTSCTS l = (0, l')"
  proof -
    from that assms obtain t1 t2 t3 where "set_parity_flags parity (cfmakeraw t1) = Some t2" "set_stopbits stopbits t2 = Some t3"
      "c_cflag (settings l') = (if RTSCTS then c_cflag t3 OR CRTSCTS else c_cflag t3)"
      by (auto simp: set_Parity_def Let_def tcsetattr_ok Option.bind_eq_Some_conv split: option.splits prod.splits if_splits)
    with parity_size stopbits_size raw_size show ?thesis by (auto simp: flag_masks)
  qed
  moreover have "fst (set_Parity 7 (CHR ''N'') 1 RTSCTS l) = 0"
    using assms by (simp add: set_Parity_def set_databits_def set_parity_flags_def set_stopbits_def Let_def tcsetattr_ok)
  ultimately show ?thesis by blast
qed

lemma speed_loop_found:
  assumes "set_ret l = 0"
  shows "speed_loop ns s t l = (0, if s \<in> set ns then l\<lparr>settings := t\<lparr>speed := s\<rparr>\<rparr> else l)"
  using assms by (induction ns arbitrary: l t) (auto simp: tcsetattr_ok Let_def)

text \<open>\<open>serial_init\<close> gives a raw line with eight bits, no parity, one stop bit and the timeout; the speed is set when it
  is one of the table, otherwise silently left as it was.\<close>

theorem serial_init_line:
  assumes "fd \<noteq> -1" "get_ret l = 0" "set_ret l = 0"
  shows "\<exists>l'. serial_init fd RTSCTS s need_line_input l = (0, Some fd, l') \<and>
    speed (settings l') = (if s \<in> set name_arr then s else speed (settings l)) \<and>
    c_cflag (settings l') AND CSIZE = CS8 \<and> c_cflag (settings l') AND PARENB = 0 \<and> c_cflag (settings l') AND CSTOPB = 0 \<and>
    (need_line_input \<longrightarrow> c_lflag (settings l') AND ICANON = ICANON) \<and> vtime (settings l') = 150 \<and> vmin (settings l') = 0"
  using assms
  by (cases RTSCTS; cases need_line_input)
    (simp_all add: serial_init_def set_speed_def speed_loop_found set_Parity_def set_databits_def set_parity_flags_def
      set_stopbits_def serial_set_line_input_def Let_def tcsetattr_ok cfmakeraw_def flag_masks flags_apart(11))

text \<open>When \<open>read\<close> fails, \<open>serial_read\<close> stores the NUL before the buffer.\<close>

theorem serial_read_failed: "serial_read None buf = None \<and> (buf \<noteq> [] \<longrightarrow>
    (\<exists>n b. serial_read (Some bs) buf = Some (n, b) \<and> length b = length buf \<and> take (nat n) b = take (length buf - 1) bs))"
  by (cases buf) (auto simp: serial_read_def Let_def min_def)

definition demo_line :: line where
  "demo_line = \<lparr>settings = \<lparr>c_iflag = 0x500, c_oflag = 5, c_cflag = 0xbf, c_lflag = 0x8a3b, vtime = 0, vmin = 1, speed = 9600\<rparr>,
     get_ret = 0, set_ret = 0\<rparr>"

theorem set_Parity_eight_bits_witness:
  "c_cflag (settings (snd (set_Parity 7 (CHR ''N'') 1 False demo_line))) AND CSIZE = CS8"
proof -
  have l: "get_ret demo_line = 0" "set_ret demo_line = 0" by (simp_all add: demo_line_def)
  from set_Parity_eight_bits[OF l] have "fst (set_Parity 7 (CHR ''N'') 1 False demo_line) = 0" by blast
  with set_Parity_eight_bits[OF l, of 7 "CHR ''N''" 1 False "snd (set_Parity 7 (CHR ''N'') 1 False demo_line)"] show ?thesis
    by (metis prod.collapse)
qed

theorem serial_init_line_witness:
  "\<exists>l. serial_init 3 True 57600 True demo_line = (0, Some 3, l) \<and> speed (settings l) = 57600"
proof -
  have l: "get_ret demo_line = 0" "set_ret demo_line = 0" by (simp_all add: demo_line_def)
  from serial_init_line[OF _ l, of 3 True 57600 True] show ?thesis by (auto simp: name_arr_def)
qed

theorem serial_read_failed_witness:
  "\<exists>n b. serial_read (Some ''abcdef'') ''1234'' = Some (n, b) \<and> take (nat n) b = ''abc''"
  using serial_read_failed[of "''1234''" "''abcdef''"] by auto

end
