(* ===== verification/TabExample.thy ===== *)
theory TabExample
  imports TabXxx
begin

text \<open>
  \<open>apps/tab_example/main.c\<close>: the program that fills, searches and empties the table of \<open>TabXxx\<close>. What it prints is a
  list of messages; the loop of sleeps at its end is left out. \<open>None\<close> is as in \<open>TabXxx\<close>.
\<close>

section \<open>The program\<close>

definition MAX_ADD_ENTRY_NUM :: nat where "MAX_ADD_ENTRY_NUM = 1000"

datatype tab_msg = Entry_num u32 | Add_failed nat | Not_found nat | Wrong_result nat | Wrong_ref_cnt u32 | Del_failed nat | Quit

text \<open>The loop counter \<open>i\<close> and the three keys are always equal.\<close>

definition add_one :: "nat \<Rightarrow> t_xxx_tab \<Rightarrow> (tab_msg list \<times> t_xxx_tab) option" where
  "add_one i t = do {
     let a = of_nat i;
     (ret, t1) \<leftarrow> tab_xxx_add_entry a a a a t;
     Some (case ret of Inl _ \<Rightarrow> [Add_failed i] | Inr _ \<Rightarrow> [], t1) }"

definition search_one :: "nat \<Rightarrow> t_xxx_tab \<Rightarrow> (tab_msg list \<times> t_xxx_tab) option" where
  "search_one i t = do {
     let a = of_nat i;
     (pt_entry, t1) \<leftarrow> tab_xxx_get_entry_by_key a a a t;
     if pt_entry = NullPtr then Some ([Not_found i], t1)
     else do {
       let e = entries t1 pt_entry;
       let m1 = (if key_a e \<noteq> a \<or> key_a e \<noteq> a \<or> key_c e \<noteq> a \<or> priv_data e \<noteq> a then [Wrong_result i] else []);
       let m2 = (if ref_cnt e \<noteq> 2 then [Wrong_ref_cnt (ref_cnt e)] else []);
       t2 \<leftarrow> tab_xxx_put pt_entry t1;
       let n = ref_cnt (entries t2 pt_entry);
       Some (m1 @ m2 @ (if n \<noteq> 1 then [Wrong_ref_cnt n] else []), t2) } }"

definition del_one :: "nat \<Rightarrow> t_xxx_tab \<Rightarrow> (tab_msg list \<times> t_xxx_tab) option" where
  "del_one i t = do {
     let a = of_nat i;
     (ret, t1) \<leftarrow> tab_xxx_del_entry_by_key a a a t;
     Some (case ret of Inl _ \<Rightarrow> [Del_failed i] | Inr _ \<Rightarrow> [], t1) }"

text \<open>The loops of the three tests.\<close>

fun test_loop ::
    "(nat \<Rightarrow> t_xxx_tab \<Rightarrow> (tab_msg list \<times> t_xxx_tab) option) \<Rightarrow> nat list \<Rightarrow> t_xxx_tab \<Rightarrow> (tab_msg list \<times> t_xxx_tab) option" where
  "test_loop f [] t = Some ([], t)"
| "test_loop f (i # is) t = do {
     (ms, t1) \<leftarrow> f i t;
     (ms', t2) \<leftarrow> test_loop f is t1;
     Some (ms @ ms', t2) }"

definition add_test :: "t_xxx_tab \<Rightarrow> (tab_msg list \<times> t_xxx_tab) option" where
  "add_test = test_loop add_one [0..<MAX_ADD_ENTRY_NUM + 2]"

definition search_test :: "t_xxx_tab \<Rightarrow> (tab_msg list \<times> t_xxx_tab) option" where
  "search_test = test_loop search_one [0..<MAX_ADD_ENTRY_NUM + 2]"

definition del_test :: "t_xxx_tab \<Rightarrow> (tab_msg list \<times> t_xxx_tab) option" where
  "del_test = test_loop del_one [0..<MAX_ADD_ENTRY_NUM + 2]"

definition print_entry_num :: "t_xxx_tab \<Rightarrow> (tab_msg list \<times> t_xxx_tab) option" where
  "print_entry_num t = do { (n, t1) \<leftarrow> tab_xxx_entry_num t; Some ([Entry_num n], t1) }"

definition tab_example_main :: "t_mm_manager option \<Rightarrow> bool \<Rightarrow> t_xxx_tab \<Rightarrow> (tab_msg list \<times> t_xxx_tab) option" where
  "tab_example_main mgr mem_ok t =
     (case tab_xxx_init mgr mem_ok (int MAX_ADD_ENTRY_NUM) t of
        Inl _ \<Rightarrow> Some ([Quit], t)
      | Inr t \<Rightarrow> do {
          (m1, t) \<leftarrow> print_entry_num t;
          (m2, t) \<leftarrow> add_test t;
          (m3, t) \<leftarrow> print_entry_num t;
          (m4, t) \<leftarrow> search_test t;
          (m5, t) \<leftarrow> print_entry_num t;
          (m6, t) \<leftarrow> del_test t;
          (m7, t) \<leftarrow> print_entry_num t;
          Some (m1 @ m2 @ m3 @ m4 @ m5 @ m6 @ m7, t) })"

section \<open>The table holds a set of numbers\<close>

abbreviation num_key :: "nat \<Rightarrow> u32 \<times> u32 \<times> u32" where "num_key i \<equiv> (of_nat i, of_nat i, of_nat i)"

definition has_numbers :: "t_xxx_tab \<Rightarrow> mm_ptr list \<Rightarrow> nat set \<Rightarrow> bool" where
  "has_numbers t es S \<longleftrightarrow> tab_inv 1000 t es {#} \<and> S \<subseteq> {..<1002} \<and>
     (\<lambda>p. key_of (entries t p)) ` set es = num_key ` S \<and> (\<forall>p \<in> set es. priv_data (entries t p) = key_a (entries t p))"

lemma num_key_inj: "i < 1002 \<Longrightarrow> j < 1002 \<Longrightarrow> num_key i = num_key j \<longleftrightarrow> i = j"
  by (simp add: word_of_nat_eq_iff take_bit_nat_eq_self)

lemma num_key_inj_on: "inj_on num_key {..<1002}"
  by (intro inj_onI) (use num_key_inj in blast)

lemma num_key_in: "S \<subseteq> {..<1002} \<Longrightarrow> i < 1002 \<Longrightarrow> num_key i \<in> num_key ` S \<longleftrightarrow> i \<in> S"
  using num_key_inj by blast

lemma num_key_card: "S \<subseteq> {..<1002} \<Longrightarrow> card (num_key ` S) = card S"
  by (intro card_image inj_onI) (use num_key_inj in blast)

lemma has_numbers_length:
  assumes "has_numbers t es S"
  shows "length es = card S" "distinct es" "inj_on (\<lambda>p. key_of (entries t p)) (set es)"
proof -
  have core: "tab_core 1000 t es {#}" using assms by (simp add: has_numbers_def tab_inv_def)
  show d: "distinct es" by (rule tab_core_bufs(2)[OF core])
  show inj: "inj_on (\<lambda>p. key_of (entries t p)) (set es)" using core by (simp add: tab_core_def tab_keys_def)
  have "card S = card (num_key ` S)" using assms num_key_card by (simp add: has_numbers_def)
  also have "\<dots> = card ((\<lambda>p. key_of (entries t p)) ` set es)" using assms by (simp add: has_numbers_def)
  also have "\<dots> = card (set es)" by (rule card_image[OF inj])
  finally show "length es = card S" using distinct_card[OF d] by simp
qed

lemma print_entry_num_has:
  assumes "has_numbers t es S"
  shows "print_entry_num t = Some ([Entry_num (of_nat (card S))], t)"
proof -
  have "held t = {}" "entry_num_in_use t = of_nat (length es)"
    using assms by (simp_all add: has_numbers_def tab_inv_def tab_core_def)
  then show ?thesis
    using has_numbers_length(1)[OF assms]
    by (simp add: print_entry_num_def tab_xxx_entry_num_def lock_first unlock_back Let_def)
qed

lemma add_one_new:
  assumes "has_numbers t es S" "i < 1002" "i \<notin> S" "card S < 1000"
  shows "\<exists>t' es'. add_one i t = Some ([], t') \<and> has_numbers t' es' (insert i S)"
proof -
  have inv: "tab_inv 1000 t es {#}" and S: "S \<subseteq> {..<1002}"
    and keys: "(\<lambda>p. key_of (entries t p)) ` set es = num_key ` S"
    and priv: "\<forall>p \<in> set es. priv_data (entries t p) = key_a (entries t p)" using assms(1) by (auto simp: has_numbers_def)
  note len = has_numbers_length[OF assms(1)]
  have k: "num_key i \<notin> (\<lambda>p. key_of (entries t p)) ` set es" unfolding keys using num_key_in[OF S assms(2)] assms(3) by simp
  have "card (Buf ` {..<1000 :: nat}) = 1000" by (simp add: card_image inj_on_def)
  then have full: "set es \<union> set_mset {#} \<noteq> Buf ` {..<1000}"
    using len(1) assms(4) distinct_card[OF len(2)] by auto
  have "length es < 2 ^ 16" using len(1) assms(4) by simp
  from tab_add_entry_spec(3)[OF inv k full this, of "of_nat i"] obtain p j t' where t':
    "tab_xxx_add_entry (of_nat i) (of_nat i) (of_nat i) (of_nat i) t = Some (Inr j, t')" "tab_inv 1000 t' (p # es) {#}"
    "p \<notin> set es" "entries t' = (entries t)(p := new_entry (of_nat i) (of_nat i) (of_nat i) (of_nat i) j)" by auto
  have "(\<lambda>q. key_of (entries t' q)) ` set (p # es) = num_key ` insert i S"
  proof -
    have "(\<lambda>q. key_of (entries t' q)) ` set es = (\<lambda>q. key_of (entries t q)) ` set es"
      by (rule image_cong) (use t'(3,4) in auto)
    then show ?thesis using keys t'(4) by (simp add: new_entry_def)
  qed
  moreover have "\<forall>q \<in> set (p # es). priv_data (entries t' q) = key_a (entries t' q)"
    using priv t'(3,4) by (auto simp: new_entry_def)
  ultimately have "has_numbers t' (p # es) (insert i S)"
    using t'(2) S assms(2) by (simp add: has_numbers_def)
  with t'(1) show ?thesis by (auto simp: add_one_def Let_def)
qed

lemma add_one_full:
  assumes "has_numbers t es S" "i < 1002" "i \<notin> S" "card S = 1000"
  shows "add_one i t = Some ([Add_failed i], t)"
proof -
  have inv: "tab_inv 1000 t es {#}" and S: "S \<subseteq> {..<1002}"
    and keys: "(\<lambda>p. key_of (entries t p)) ` set es = num_key ` S" using assms(1) by (auto simp: has_numbers_def)
  note len = has_numbers_length[OF assms(1)]
  have k: "num_key i \<notin> (\<lambda>p. key_of (entries t p)) ` set es" unfolding keys using num_key_in[OF S assms(2)] assms(3) by simp
  have "set es \<subseteq> Buf ` {..<1000}" using tab_core_bufs(1) inv by (force simp: tab_inv_def)
  moreover have "card (set es) = card (Buf ` {..<1000 :: nat})"
    using len(1) assms(4) distinct_card[OF len(2)] by (simp add: card_image inj_on_def)
  ultimately have "set es = Buf ` {..<1000}" by (intro card_subset_eq) simp_all
  then have "set es \<union> set_mset {#} = Buf ` {..<1000}" by simp
  from tab_add_entry_spec(2)[OF inv k this] show ?thesis by (simp add: add_one_def Let_def)
qed

lemma search_one_absent:
  assumes "has_numbers t es S" "i < 1002" "i \<notin> S"
  shows "search_one i t = Some ([Not_found i], t)"
proof -
  have inv: "tab_inv 1000 t es {#}" and S: "S \<subseteq> {..<1002}"
    and keys: "(\<lambda>p. key_of (entries t p)) ` set es = num_key ` S" using assms(1) by (auto simp: has_numbers_def)
  have "NullPtr \<notin> set es" using tab_core_bufs(4) inv by (force simp: tab_inv_def)
  moreover have "num_key i \<notin> (\<lambda>p. key_of (entries t p)) ` set es" unfolding keys using num_key_in[OF S assms(2)] assms(3) by simp
  ultimately have "lookup (\<lambda>p. key_of (entries t p) = num_key i) es = NullPtr"
    by (subst lookup_NullPtr) force+
  from tab_get_entry_by_key_spec[OF inv this[symmetric]] show ?thesis by (auto simp: search_one_def Let_def)
qed

text \<open>The entry of a number that is in the table.\<close>

lemma number_entry:
  assumes "has_numbers t es S" "i \<in> S"
  shows "\<exists>p \<in> set es. lookup (\<lambda>p. key_of (entries t p) = num_key i) es = p \<and> p \<noteq> NullPtr \<and>
    key_of (entries t p) = num_key i \<and> priv_data (entries t p) = of_nat i \<and> ref_cnt (entries t p) = 1"
proof -
  let ?p = "lookup (\<lambda>p. key_of (entries t p) = num_key i) es"
  have core: "tab_core 1000 t es {#}" and keys: "(\<lambda>p. key_of (entries t p)) ` set es = num_key ` S"
    and priv: "\<forall>p \<in> set es. priv_data (entries t p) = key_a (entries t p)"
    using assms(1) by (auto simp: has_numbers_def tab_inv_def)
  have null: "NullPtr \<notin> set es" by (rule tab_core_bufs(4)[OF core])
  have "num_key i \<in> (\<lambda>p. key_of (entries t p)) ` set es" unfolding keys using assms(2) by simp
  then have nz: "?p \<noteq> NullPtr" using lookup_NullPtr[OF null] by force
  from lookup_in[OF nz] have p: "?p \<in> set es" "key_of (entries t ?p) = num_key i" by auto
  moreover from core obtain fs where "tab_refs 1000 (entries t) es {#} fs" by (auto simp: tab_core_def)
  with p(1) have "unat (ref_cnt (entries t ?p)) = 1" by (simp add: tab_refs_def)
  then have "ref_cnt (entries t ?p) = 1" by (simp add: word_unat_eq_iff)
  ultimately show ?thesis using nz priv by auto
qed

lemma search_one_present:
  assumes "has_numbers t es S" "i \<in> S"
  shows "\<exists>t'. search_one i t = Some ([], t') \<and> has_numbers t' es S"
proof -
  have inv: "tab_inv 1000 t es {#}" using assms(1) by (simp add: has_numbers_def)
  from number_entry[OF assms] obtain p where p: "p \<in> set es" "p = lookup (\<lambda>p. key_of (entries t p) = num_key i) es"
    "p \<noteq> NullPtr" "key_of (entries t p) = num_key i" "priv_data (entries t p) = of_nat i" "ref_cnt (entries t p) = 1" by blast
  have "unat (ref_cnt (entries t p)) < 2 ^ 32 - 1" using p(6) by simp
  from tab_get_entry_by_key_spec[OF inv p(2) this] p(3) obtain t1 where t1:
    "tab_xxx_get_entry_by_key (of_nat i) (of_nat i) (of_nat i) t = Some (p, t1)" "tab_inv 1000 t1 es {#p#}"
    "t1 = upd_entry p (\<lambda>e. e\<lparr>ref_cnt := ref_cnt e + 1\<rparr>) t" by auto
  have e1: "entries t1 = (entries t)(p := (entries t p)\<lparr>ref_cnt := 2\<rparr>)"
    using t1(3) p(6) by (simp add: upd_entry_def)
  from tab_put_spec[OF t1(2), of p] obtain t2 where t2: "tab_xxx_put p t1 = Some t2" "tab_inv 1000 t2 es {#}"
    "entries t2 = (entries t1)(p := (entries t1 p)\<lparr>ref_cnt := ref_cnt (entries t1 p) - 1\<rparr>)" by auto
  have e2: "entries t2 = entries t" using t2(3) p(6) by (auto simp: e1 fun_eq_iff)
  then have "has_numbers t2 es S" using t2(2) assms(1) by (simp add: has_numbers_def)
  moreover have "search_one i t = Some ([], t2)"
    using t1(1) t2(1) p(3-6) by (simp add: search_one_def Let_def e1 e2)
  ultimately show ?thesis by blast
qed

lemma del_one_absent:
  assumes "has_numbers t es S" "i < 1002" "i \<notin> S"
  shows "del_one i t = Some ([Del_failed i], t)"
proof -
  have inv: "tab_inv 1000 t es {#}" and S: "S \<subseteq> {..<1002}"
    and keys: "(\<lambda>p. key_of (entries t p)) ` set es = num_key ` S" using assms(1) by (auto simp: has_numbers_def)
  have "NullPtr \<notin> set es" using tab_core_bufs(4) inv by (force simp: tab_inv_def)
  moreover have "num_key i \<notin> (\<lambda>p. key_of (entries t p)) ` set es" unfolding keys using num_key_in[OF S assms(2)] assms(3) by simp
  ultimately have "lookup (\<lambda>p. key_of (entries t p) = num_key i) es = NullPtr"
    by (subst lookup_NullPtr) force+
  from tab_del_entry_by_key_spec(1)[OF inv refl this] show ?thesis by (simp add: del_one_def Let_def)
qed

lemma del_one_present:
  assumes "has_numbers t es S" "i \<in> S"
  shows "\<exists>t' es'. del_one i t = Some ([], t') \<and> has_numbers t' es' (S - {i})"
proof -
  have inv: "tab_inv 1000 t es {#}" and S: "S \<subseteq> {..<1002}"
    and keys: "(\<lambda>p. key_of (entries t p)) ` set es = num_key ` S"
    and priv: "\<forall>p \<in> set es. priv_data (entries t p) = key_a (entries t p)" using assms(1) by (auto simp: has_numbers_def)
  note len = has_numbers_length[OF assms(1)]
  from number_entry[OF assms] obtain p where p: "p \<in> set es" "lookup (\<lambda>p. key_of (entries t p) = num_key i) es = p"
    "p \<noteq> NullPtr" "key_of (entries t p) = num_key i" by blast
  from tab_del_entry_by_key_spec(2)[OF inv refl, of "of_nat i" "of_nat i" "of_nat i"] p(2,3) obtain t' where t':
    "tab_xxx_del_entry_by_key (of_nat i) (of_nat i) (of_nat i) t = Some (Inr (), t')" "tab_inv 1000 t' (remove1 p es) {#}"
    "entries t' = (entries t)(p := (entries t p)\<lparr>ref_cnt := ref_cnt (entries t p) - 1\<rparr>)" by auto
  have s: "set (remove1 p es) = set es - {p}" using len(2) by simp
  have key: "key_of (entries t' q) = key_of (entries t q)" "priv_data (entries t' q) = priv_data (entries t q)" for q
    by (simp_all add: t'(3))
  have "(\<lambda>q. key_of (entries t' q)) ` set (remove1 p es) = (\<lambda>q. key_of (entries t q)) ` (set es - {p})"
    unfolding s key ..
  also have "\<dots> = (\<lambda>q. key_of (entries t q)) ` set es - {key_of (entries t p)}"
    using len(3) p(1) by (auto simp: inj_on_def)
  also have "\<dots> = num_key ` (S - {i})"
  proof -
    have "S - {i} \<subseteq> {..<1002}" "{i} \<subseteq> {..<1002}" using S assms(2) by auto
    from inj_on_image_set_diff[OF num_key_inj_on this] show ?thesis unfolding keys p(4) by simp
  qed
  finally have "has_numbers t' (remove1 p es) (S - {i})"
    using t'(2) S priv s key by (auto simp: has_numbers_def)
  with t'(1) show ?thesis by (auto simp: del_one_def Let_def)
qed

section \<open>The loops\<close>

lemma test_loop_append:
  "test_loop f (xs @ ys) t = do { (ms, t1) \<leftarrow> test_loop f xs t; (ms', t2) \<leftarrow> test_loop f ys t1; Some (ms @ ms', t2) }"
  by (induction xs arbitrary: t) (auto simp: bind_assoc split: bind_splits)

lemma add_loop:
  "has_numbers t es {} \<Longrightarrow> n \<le> 1000 \<Longrightarrow>
     \<exists>t' es'. test_loop add_one [0..<n] t = Some ([], t') \<and> has_numbers t' es' {..<n}"
proof (induction n)
  case (Suc n)
  then obtain t1 es1 where t1: "test_loop add_one [0..<n] t = Some ([], t1)" "has_numbers t1 es1 {..<n}" by auto
  from add_one_new[OF t1(2), of n] Suc.prems(2) obtain t2 es2 where
    t2: "add_one n t1 = Some ([], t2)" "has_numbers t2 es2 (insert n {..<n})" by auto
  moreover have "[0..<Suc n] = [0..<n] @ [n]" by simp
  ultimately show ?case using t1(1) unfolding test_loop_append \<open>[0..<Suc n] = [0..<n] @ [n]\<close>
    by (auto simp: lessThan_Suc)
qed auto

lemma search_loop:
  "has_numbers t es S \<Longrightarrow> set is \<subseteq> S \<Longrightarrow> \<exists>t'. test_loop search_one is t = Some ([], t') \<and> has_numbers t' es S"
proof (induction "is" arbitrary: t)
  case (Cons i "is")
  from search_one_present[OF Cons.prems(1), of i] Cons.prems(2) obtain t1 where
    "search_one i t = Some ([], t1)" "has_numbers t1 es S" by auto
  with Cons.IH[of t1] Cons.prems(2) show ?case by auto
qed auto

lemma del_loop:
  "has_numbers t es {..<1000} \<Longrightarrow> n \<le> 1000 \<Longrightarrow>
     \<exists>t' es'. test_loop del_one [0..<n] t = Some ([], t') \<and> has_numbers t' es' {n..<1000}"
proof (induction n)
  case 0
  then show ?case by (auto simp: atLeast0LessThan)
next
  case (Suc n)
  then obtain t1 es1 where t1: "test_loop del_one [0..<n] t = Some ([], t1)" "has_numbers t1 es1 {n..<1000}" by auto
  have "{n..<1000} - {n} = {Suc n..<1000}" by auto
  with del_one_present[OF t1(2), of n] Suc.prems(2) obtain t2 es2 where
    t2: "del_one n t1 = Some ([], t2)" "has_numbers t2 es2 {Suc n..<1000}" by auto
  moreover have "[0..<Suc n] = [0..<n] @ [n]" by simp
  ultimately show ?case using t1(1) unfolding test_loop_append \<open>[0..<Suc n] = [0..<n] @ [n]\<close> by auto
qed

text \<open>Two numbers more than the table has room for.\<close>

lemma loop_range: "[0..<MAX_ADD_ENTRY_NUM + 2] = [0..<1000] @ [1000, 1001]"
proof -
  have "[0..<1000 + 2] = [0..<1000] @ [1000..<1000 + 2]" by (rule upt_add_eq_append) simp
  moreover have "[1000..<1000 + 2] = [1000, 1001 :: nat]" by (simp add: upt_conv_Cons)
  ultimately show ?thesis unfolding MAX_ADD_ENTRY_NUM_def by argo
qed

lemma add_test_result:
  assumes "has_numbers t es {}"
  shows "\<exists>t' es'. add_test t = Some ([Add_failed 1000, Add_failed 1001], t') \<and> has_numbers t' es' {..<1000}"
proof -
  from add_loop[OF assms, of 1000] obtain t' es' where
    t': "test_loop add_one [0..<1000] t = Some ([], t')" "has_numbers t' es' {..<1000}" by auto
  with add_one_full[OF t'(2), of 1000] add_one_full[OF t'(2), of 1001] show ?thesis
    unfolding add_test_def loop_range test_loop_append by (auto simp del: upt_Suc)
qed

lemma search_test_result:
  assumes "has_numbers t es {..<1000}"
  shows "\<exists>t'. search_test t = Some ([Not_found 1000, Not_found 1001], t') \<and> has_numbers t' es {..<1000}"
proof -
  have "set [0..<1000] \<subseteq> {..<1000 :: nat}" by (simp add: atLeast0LessThan)
  from search_loop[OF assms this] obtain t' where
    t': "test_loop search_one [0..<1000] t = Some ([], t')" "has_numbers t' es {..<1000}" by blast
  with search_one_absent[OF t'(2), of 1000] search_one_absent[OF t'(2), of 1001] show ?thesis
    unfolding search_test_def loop_range test_loop_append by auto
qed

lemma del_test_result:
  assumes "has_numbers t es {..<1000}"
  shows "\<exists>t' es'. del_test t = Some ([Del_failed 1000, Del_failed 1001], t') \<and> has_numbers t' es' {}"
proof -
  from del_loop[OF assms, of 1000] obtain t' es' where
    t': "test_loop del_one [0..<1000] t = Some ([], t')" "has_numbers t' es' {}" by auto
  with del_one_absent[OF t'(2), of 1000] del_one_absent[OF t'(2), of 1001] show ?thesis
    unfolding del_test_def loop_range test_loop_append by auto
qed

section \<open>Properties\<close>

text \<open>C10: Started with memory for its thousand buffers in which the counter of free buffers, which the pool
  never initialises, happens to be zero, the program prints what it should: the table is empty, the thousand entries it has room for are added
  and the two further ones refused, each is found with its data and the right count of references and no other one,
  each is deleted, and the table is empty again with every buffer free and every lock released.\<close>

theorem tab_example_prints:
  assumes "create_buffer_manager (Some junk) True 80 1000 = Some pool" "buffer_num_free junk = 0" "held t = {}"
  shows "\<exists>t'. tab_example_main (Some junk) True t =
      Some ([Entry_num 0, Add_failed 1000, Add_failed 1001, Entry_num 1000, Not_found 1000, Not_found 1001, Entry_num 1000,
        Del_failed 1000, Del_failed 1001, Entry_num 0], t') \<and> tab_inv 1000 t' [] {#}"
proof -
  from tab_init_spec[OF assms(1,2) _ _ assms(3)] obtain t0 where
    t0: "tab_xxx_init (Some junk) True (int MAX_ADD_ENTRY_NUM) t = Inr t0" "tab_inv 1000 t0 [] {#}"
    by (auto simp: MAX_ADD_ENTRY_NUM_def)
  then have h0: "has_numbers t0 [] {}" by (simp add: has_numbers_def)
  from add_test_result[OF h0] obtain t1 es1 where
    t1: "add_test t0 = Some ([Add_failed 1000, Add_failed 1001], t1)" "has_numbers t1 es1 {..<1000}" by blast
  from search_test_result[OF t1(2)] obtain t2 where
    t2: "search_test t1 = Some ([Not_found 1000, Not_found 1001], t2)" "has_numbers t2 es1 {..<1000}" by blast
  from del_test_result[OF t2(2)] obtain t3 es3 where
    t3: "del_test t2 = Some ([Del_failed 1000, Del_failed 1001], t3)" "has_numbers t3 es3 {}" by blast
  have "es3 = []" using has_numbers_length(1)[OF t3(2)] by simp
  with t3(2) have "tab_inv 1000 t3 [] {#}" by (simp add: has_numbers_def)
  with t0(1) t1 t2 t3 print_entry_num_has[OF h0] print_entry_num_has[OF t1(2)] print_entry_num_has[OF t2(2)]
    print_entry_num_has[OF t3(2)] show ?thesis
    by (simp add: tab_example_main_def)
qed

theorem tab_example_prints_witness:
  "\<exists>t'. tab_example_main (Some (stale_memory 0)) True blank_tab =
      Some ([Entry_num 0, Add_failed 1000, Add_failed 1001, Entry_num 1000, Not_found 1000, Not_found 1001, Entry_num 1000,
        Del_failed 1000, Del_failed 1001, Entry_num 0], t')"
proof -
  obtain pool where "create_buffer_manager (Some (stale_memory 0)) True 80 1000 = Some pool"
    by (simp add: create_buffer_manager_def Let_def)
  from tab_example_prints[OF this, of blank_tab] show ?thesis by (auto simp: stale_memory_def blank_tab_def)
qed

end
