(* ===== verification/TcpPerf.thy ===== *)
theory TcpPerf
  imports NetStat
begin

text \<open>
  \<open>simple_apps/tcp_perf.c\<close>: a receiving and a sending thread that count what \<open>read\<close> and \<open>write\<close>
  return, each in its own structure, and the main thread that shows every second how much the sum
  of both has grown. The threads run in single increments, in any order with the signals. A length
  above the 64 KiB of the buffers is not refused and the calls then run behind them; the model has
  only what the calls return.
\<close>

section \<open>Counters\<close>

record t_perf_stat =
  tx_total :: u64
  tx_bytes_total :: u64
  tx_fail :: u64
  tx_bytes_fail :: u64
  tx_succ :: u64
  tx_bytes_succ :: u64
  tx_succ_part :: u64
  tx_bytes_succ_part :: u64
  tx_succ_sum :: u64
  tx_bytes_succ_sum :: u64
  rx_total :: u64
  rx_bytes_total :: u64
  rx_fail :: u64
  rx_bytes_fail :: u64
  rx_succ :: u64
  rx_bytes_succ :: u64
  rx_succ_part :: u64
  rx_bytes_succ_part :: u64
  rx_succ_sum :: u64
  rx_bytes_succ_sum :: u64

definition no_perf_stat :: t_perf_stat where
  "no_perf_stat = \<lparr>
     tx_total = 0, tx_bytes_total = 0, tx_fail = 0, tx_bytes_fail = 0, tx_succ = 0, tx_bytes_succ = 0,
     tx_succ_part = 0, tx_bytes_succ_part = 0, tx_succ_sum = 0, tx_bytes_succ_sum = 0, rx_total = 0,
     rx_bytes_total = 0, rx_fail = 0, rx_bytes_fail = 0, rx_succ = 0, rx_bytes_succ = 0, rx_succ_part = 0,
     rx_bytes_succ_part = 0, rx_succ_sum = 0, rx_bytes_succ_sum = 0\<rparr>"

definition perf_items :: "t_perf_stat \<Rightarrow> u64 list" where
  "perf_items s =
    [tx_total s, tx_bytes_total s, tx_fail s, tx_bytes_fail s, tx_succ s, tx_bytes_succ s, tx_succ_part s,
     tx_bytes_succ_part s, tx_succ_sum s, tx_bytes_succ_sum s, rx_total s, rx_bytes_total s, rx_fail s,
     rx_bytes_fail s, rx_succ s, rx_bytes_succ s, rx_succ_part s, rx_bytes_succ_part s, rx_succ_sum s,
     rx_bytes_succ_sum s]"

definition stat_item_names :: "string list" where
  "stat_item_names =
    [''tx_total'', ''tx_bytes_total'', ''tx_fail'', ''tx_bytes_fail'', ''tx_succ'', ''tx_bytes_succ'',
     ''tx_succ_part'', ''tx_bytes_succ_part'', ''tx_succ_sum'', ''tx_bytes_succ_sum'', ''rx_total'',
     ''rx_bytes_total'', ''rx_fail'', ''rx_bytes_fail'', ''rx_succ'', ''rx_bytes_succ'', ''rx_succ_part'',
     ''rx_bytes_succ_part'', ''rx_succ_sum'', ''rx_bytes_succ_sum'']"

section \<open>The command line\<close>

record perf_paras =
  is_server_mode :: int
  cpu_idx :: int
  cpu_idx_r :: int
  cpu_idx_s :: int
  src_ip :: "string option"
  src_port :: u16
  dst_ip :: "string option"
  dst_port :: u16
  snd_data :: bool
  snd_data_len :: int
  rcv_data :: bool
  rcv_data_len :: int

definition the_perf_paras :: perf_paras where
  "the_perf_paras = \<lparr>is_server_mode = -1, cpu_idx = -1, cpu_idx_r = -1, cpu_idx_s = -1, src_ip = None,
     src_port = 0, dst_ip = None, dst_port = 0, snd_data = False, snd_data_len = 1500 - 20 - 20,
     rcv_data = False, rcv_data_len = 1500 - 20 - 20\<rparr>"

definition perf_options :: "long_option list" where
  "perf_options =
    [opt_entry ''help'' no_argument 1000, opt_entry ''bind-to-cpu'' required_argument 1002,
     opt_entry ''bind-rx-to-cpu'' required_argument 1005, opt_entry ''bind-tx-to-cpu'' required_argument 1006,
     opt_entry ''src-ip'' required_argument 1003, opt_entry ''src-port'' required_argument 1004,
     opt_entry ''snd-data'' no_argument 1007, opt_entry ''rcv-data'' no_argument 1012,
     opt_entry ''dst-ip'' required_argument 1008, opt_entry ''dst-port'' required_argument 1009,
     opt_entry ''snd-data-len'' required_argument 1010, opt_entry ''rcv-data-len'' required_argument 1011]"

definition perf_args_post_proc :: "perf_paras \<Rightarrow> perf_paras option" where
  "perf_args_post_proc p =
     (if is_server_mode p = -1 then None
      else if is_server_mode p = 0 \<and> (dst_ip p = None \<or> dst_port p = 0) then None
      else if is_server_mode p \<noteq> 0 \<and> src_port p = 0 then None
      else Some p)"

definition perf_arg :: "opt_event \<Rightarrow> perf_paras \<Rightarrow> perf_paras option" where
  "perf_arg ev p = (case ev of (opt, optarg) \<Rightarrow>
     if opt = 1004 then Some (p\<lparr>src_port := ucast (strtoul (the optarg) 0)\<rparr>)
     else if opt = 1003 then Some (p\<lparr>src_ip := optarg\<rparr>)
     else if opt = 1009 then Some (p\<lparr>dst_port := ucast (strtoul (the optarg) 0)\<rparr>)
     else if opt = 1008 then Some (p\<lparr>dst_ip := optarg\<rparr>)
     else if opt = 1007 then Some (p\<lparr>snd_data := True\<rparr>)
     else if opt = 1012 then Some (p\<lparr>rcv_data := True\<rparr>)
     else if opt = 1010 then Some (p\<lparr>snd_data_len := int_arg optarg\<rparr>)
     else if opt = 1011 then Some (p\<lparr>rcv_data_len := int_arg optarg\<rparr>)
     else if opt = 1002 then Some (p\<lparr>cpu_idx := int_arg optarg\<rparr>)
     else if opt = 1005 then Some (p\<lparr>cpu_idx_r := int_arg optarg\<rparr>)
     else if opt = 1006 then Some (p\<lparr>cpu_idx_s := int_arg optarg\<rparr>)
     else if opt = of_char (CHR ''S'') \<or> opt = of_char (CHR ''s'') then Some (p\<lparr>is_server_mode := 1\<rparr>)
     else if opt = of_char (CHR ''C'') \<or> opt = of_char (CHR ''c'') then Some (p\<lparr>is_server_mode := 0\<rparr>)
     else None)"

fun perf_args_from :: "opt_event list \<Rightarrow> perf_paras \<Rightarrow> perf_paras option" where
  "perf_args_from [] p = perf_args_post_proc p"
| "perf_args_from (ev # evs) p = Option.bind (perf_arg ev p) (perf_args_from evs)"

definition perf_parse_args :: "string list \<Rightarrow> perf_paras option" where
  "perf_parse_args argv = perf_args_from (getopt_long ''hHSsCc'' perf_options argv) the_perf_paras"

section \<open>The threads\<close>

text \<open>The increments of one turn of a loop: those before the call, and those after it.\<close>

definition snd_try :: "int \<Rightarrow> (t_perf_stat \<Rightarrow> t_perf_stat) list" where
  "snd_try len =
    [\<lambda>s. s\<lparr>tx_total := tx_total s + 1\<rparr>, \<lambda>s. s\<lparr>tx_bytes_total := tx_bytes_total s + word_of_int len\<rparr>]"

definition snd_result :: "int \<Rightarrow> int \<Rightarrow> (t_perf_stat \<Rightarrow> t_perf_stat) list" where
  "snd_result len ret =
     (if ret > 0 then
        [\<lambda>s. s\<lparr>tx_succ_sum := tx_succ_sum s + 1\<rparr>, \<lambda>s. s\<lparr>tx_bytes_succ_sum := tx_bytes_succ_sum s + word_of_int ret\<rparr>] @
        (if len = ret then
           [\<lambda>s. s\<lparr>tx_succ := tx_succ s + 1\<rparr>, \<lambda>s. s\<lparr>tx_bytes_succ := tx_bytes_succ s + word_of_int ret\<rparr>]
         else
           [\<lambda>s. s\<lparr>tx_succ_part := tx_succ_part s + 1\<rparr>,
            \<lambda>s. s\<lparr>tx_bytes_succ_part := tx_bytes_succ_part s + word_of_int ret\<rparr>])
      else
        [\<lambda>s. s\<lparr>tx_fail := tx_fail s + 1\<rparr>, \<lambda>s. s\<lparr>tx_bytes_fail := tx_bytes_fail s + word_of_int len\<rparr>])"

definition rcv_try :: "int \<Rightarrow> (t_perf_stat \<Rightarrow> t_perf_stat) list" where
  "rcv_try len =
    [\<lambda>s. s\<lparr>rx_total := rx_total s + 1\<rparr>, \<lambda>s. s\<lparr>rx_bytes_total := rx_bytes_total s + word_of_int len\<rparr>]"

definition rcv_result :: "int \<Rightarrow> int \<Rightarrow> (t_perf_stat \<Rightarrow> t_perf_stat) list" where
  "rcv_result len ret =
     (if ret > 0 then
        [\<lambda>s. s\<lparr>rx_succ_sum := rx_succ_sum s + 1\<rparr>, \<lambda>s. s\<lparr>rx_bytes_succ_sum := rx_bytes_succ_sum s + word_of_int ret\<rparr>] @
        (if len = ret then
           [\<lambda>s. s\<lparr>rx_succ := rx_succ s + 1\<rparr>, \<lambda>s. s\<lparr>rx_bytes_succ := rx_bytes_succ s + word_of_int ret\<rparr>]
         else
           [\<lambda>s. s\<lparr>rx_succ_part := rx_succ_part s + 1\<rparr>,
            \<lambda>s. s\<lparr>rx_bytes_succ_part := rx_bytes_succ_part s + word_of_int ret\<rparr>])
      else
        [\<lambda>s. s\<lparr>rx_fail := rx_fail s + 1\<rparr>, \<lambda>s. s\<lparr>rx_bytes_fail := rx_bytes_fail s + word_of_int len\<rparr>])"

text \<open>A thread: its counters, the increments it is about to make, whether it is in its call or on the
  way to it, and what its calls have moved so far.\<close>

record perf_thread =
  stat :: t_perf_stat
  pend :: "(t_perf_stat \<Rightarrow> t_perf_stat) list"
  in_call :: bool
  running :: bool
  moved :: int

definition new_thread :: "bool \<Rightarrow> perf_thread" where
  "new_thread b = \<lparr>stat = no_perf_stat, pend = [], in_call = False, running = b, moved = 0\<rparr>"

definition thread_turn ::
    "(t_perf_stat \<Rightarrow> t_perf_stat) list \<Rightarrow> (t_perf_stat \<Rightarrow> t_perf_stat) list \<Rightarrow> int \<Rightarrow> bool \<Rightarrow> perf_thread \<Rightarrow> perf_thread" where
  "thread_turn before after ret need_exit t =
     (if \<not> running t then t
      else case pend t of
        f # fs \<Rightarrow> t\<lparr>stat := f (stat t), pend := fs\<rparr>
      | [] \<Rightarrow>
          if in_call t then t\<lparr>in_call := False, pend := after, moved := moved t + max 0 ret\<rparr>
          else if need_exit then t\<lparr>running := False\<rparr>
          else t\<lparr>in_call := True, pend := before\<rparr>)"

definition snd_thread :: "int \<Rightarrow> int \<Rightarrow> bool \<Rightarrow> perf_thread \<Rightarrow> perf_thread" where
  "snd_thread len ret = thread_turn (snd_try len) (snd_result len ret) ret"

definition rcv_thread :: "int \<Rightarrow> int \<Rightarrow> bool \<Rightarrow> perf_thread \<Rightarrow> perf_thread" where
  "rcv_thread len ret = thread_turn (rcv_try len) (rcv_result len ret) ret"

section \<open>The program\<close>

record tcp_perf =
  paras :: perf_paras
  rx :: perf_thread
  tx :: perf_thread
  last_stat :: "u64 list"
  shown :: "u64 list list"
  need_exit :: bool
  alarm_on :: bool

definition latest_stat :: "tcp_perf \<Rightarrow> u64 list" where
  "latest_stat w = sum_stats [perf_items (stat (rx w)), perf_items (stat (tx w))] 20"

definition show_stats :: "tcp_perf \<Rightarrow> tcp_perf \<times> string" where
  "show_stats w =
     (let inc = sub_stats (latest_stat w) (last_stat w) 20
      in (w\<lparr>last_stat := latest_stat w, shown := shown w @ [inc]\<rparr>, print_stats True inc stat_item_names))"

datatype perf_event = Sigint | Sigalrm | Rx int | Tx int

fun perf_step :: "perf_event \<Rightarrow> tcp_perf \<Rightarrow> tcp_perf" where
  "perf_step Sigint w = w\<lparr>need_exit := True, alarm_on := False\<rparr>"
| "perf_step Sigalrm w = (if alarm_on w then fst (show_stats w) else w)"
| "perf_step (Rx ret) w = w\<lparr>rx := rcv_thread (rcv_data_len (paras w)) ret (need_exit w) (rx w)\<rparr>"
| "perf_step (Tx ret) w = w\<lparr>tx := snd_thread (snd_data_len (paras w)) ret (need_exit w) (tx w)\<rparr>"

definition listen_and_wait_conn ::
    "(string \<Rightarrow> u32) \<Rightarrow> int \<Rightarrow> int \<Rightarrow> int \<Rightarrow> int outcome list \<Rightarrow> perf_paras \<Rightarrow> bool" where
  "listen_and_wait_conn inet_addr sock_ret addr_ret listen_ret accepts p \<longleftrightarrow>
     \<not> fst (tcp_socket_init inet_addr sock_ret addr_ret (src_ip p) (src_port p)) < 0 \<and>
     listen_ret = 0 \<and> accept_loop accepts = Some True"

definition connect2dst :: "(string \<Rightarrow> u32) \<Rightarrow> int \<Rightarrow> int \<Rightarrow> int \<Rightarrow> perf_paras \<Rightarrow> bool" where
  "connect2dst inet_addr sock_ret addr_ret conn_ret p \<longleftrightarrow>
     \<not> fst (if src_ip p \<noteq> None then tcp_socket_init inet_addr sock_ret addr_ret (src_ip p) (src_port p)
            else tcp_socket_init_no_addr sock_ret) < 0 \<and> \<not> conn_ret < 0"

text \<open>The threads that were created, the receiver first; \<open>None\<close> when one could not be.\<close>

definition start_rx_tx :: "int \<Rightarrow> int \<Rightarrow> perf_paras \<Rightarrow> (perf_thread \<times> perf_thread) option" where
  "start_rx_tx rx_ret tx_ret p =
     (if rcv_data p \<and> rx_ret \<noteq> 0 then None
      else if \<not> snd_data p then Some (new_thread (rcv_data p), new_thread False)
      else if tx_ret \<noteq> 0 then None
      else Some (new_thread (rcv_data p), new_thread True))"

text \<open>\<open>None\<close>: the program ends before its main loop, or still waits for a client.\<close>

definition tcp_perf_main ::
    "(string \<Rightarrow> u32) \<Rightarrow> int \<Rightarrow> int \<Rightarrow> int \<Rightarrow> int \<Rightarrow> int \<Rightarrow> int outcome list \<Rightarrow> int \<Rightarrow> int \<Rightarrow> string list \<Rightarrow> tcp_perf option" where
  "tcp_perf_main inet_addr bind_ret sock_ret addr_ret conn_ret listen_ret accepts rx_ret tx_ret argv = do {
     p \<leftarrow> perf_parse_args argv;
     if cpu_idx p \<noteq> -1 \<and> bind_ret \<noteq> 0 then None
     else if \<not> (if is_server_mode p \<noteq> 0 then listen_and_wait_conn inet_addr sock_ret addr_ret listen_ret accepts p
                else connect2dst inet_addr sock_ret addr_ret conn_ret p) then None
     else if \<not> snd_data p \<and> \<not> rcv_data p then None
     else do {
       (r, t) \<leftarrow> start_rx_tx rx_ret tx_ret p;
       Some \<lparr>paras = p, rx = r, tx = t, last_stat = replicate 20 0, shown = [], need_exit = False, alarm_on = True\<rparr> } }"

text \<open>Where \<open>main\<close> is. The receiver is joined even when it was never created; its handle is then 0.\<close>

datatype main_state = Waiting | Joins_no_thread | Ended

definition main_at :: "tcp_perf \<Rightarrow> main_state" where
  "main_at w =
     (if \<not> need_exit w then Waiting
      else if \<not> rcv_data (paras w) then Joins_no_thread
      else if running (rx w) \<or> (snd_data (paras w) \<and> running (tx w)) then Waiting
      else Ended)"

section \<open>What the counters of a thread say\<close>

text \<open>The ten counters of a direction, for a thread whose calls have moved \<open>m\<close> bytes and that has
  counted a try more than results when \<open>c\<close>.\<close>

definition counted :: "int \<Rightarrow> bool \<Rightarrow> int \<Rightarrow> u64 list \<Rightarrow> bool" where
  "counted len c m xs \<longleftrightarrow>
     (case xs of [all, ball, fails, bfail, ok, bok, part, bpart, some, bsome] \<Rightarrow>
        all = fails + ok + part + (if c then 1 else 0) \<and> some = ok + part \<and>
        bsome = bok + bpart \<and> bsome = word_of_int m \<and>
        ball = word_of_int len * all \<and> bfail = word_of_int len * fails \<and> bok = word_of_int len * ok
      | _ \<Rightarrow> False)"

definition tx_items :: "t_perf_stat \<Rightarrow> u64 list" where
  "tx_items s = take 10 (perf_items s)"

definition rx_items :: "t_perf_stat \<Rightarrow> u64 list" where
  "rx_items s = drop 10 (perf_items s)"

text \<open>The counters once the increments under way are made.\<close>

definition settled :: "perf_thread \<Rightarrow> t_perf_stat" where
  "settled t = fold (\<lambda>f. f) (pend t) (stat t)"

lemma counted_no_perf_stat: "counted len False 0 (tx_items no_perf_stat)" "counted len False 0 (rx_items no_perf_stat)"
  by (simp_all add: counted_def tx_items_def rx_items_def perf_items_def no_perf_stat_def)

lemma counted_try:
  "counted len False m (tx_items s) \<Longrightarrow> counted len True m (tx_items (fold (\<lambda>f. f) (snd_try len) s))"
  "counted len False m (rx_items s) \<Longrightarrow> counted len True m (rx_items (fold (\<lambda>f. f) (rcv_try len) s))"
  by (auto simp: counted_def tx_items_def rx_items_def perf_items_def snd_try_def rcv_try_def algebra_simps)

lemma counted_result:
  "counted len True m (tx_items s) \<Longrightarrow> counted len False (m + max 0 ret) (tx_items (fold (\<lambda>f. f) (snd_result len ret) s))"
  "counted len True m (rx_items s) \<Longrightarrow> counted len False (m + max 0 ret) (rx_items (fold (\<lambda>f. f) (rcv_result len ret) s))"
  by (auto simp: counted_def tx_items_def rx_items_def perf_items_def snd_result_def rcv_result_def algebra_simps max_def)

definition thread_ok :: "(t_perf_stat \<Rightarrow> u64 list) \<Rightarrow> int \<Rightarrow> perf_thread \<Rightarrow> bool" where
  "thread_ok items len t \<longleftrightarrow> counted len (in_call t) (moved t) (items (settled t)) \<and>
     length (pend t) \<le> 4 \<and> (in_call t \<longrightarrow> length (pend t) \<le> 2)"

lemma thread_turn_ok:
  assumes "thread_ok items len t"
    and "\<And>m s. counted len False m (items s) \<Longrightarrow> counted len True m (items (fold (\<lambda>f. f) before s))"
    and "\<And>m s. counted len True m (items s) \<Longrightarrow> counted len False (m + max 0 ret) (items (fold (\<lambda>f. f) after s))"
    and "length before = 2" "length after \<le> 4"
  shows "thread_ok items len (thread_turn before after ret ex t)"
  using assms by (cases "pend t") (auto simp: thread_ok_def thread_turn_def settled_def)

lemma snd_thread_ok: "thread_ok tx_items len t \<Longrightarrow> thread_ok tx_items len (snd_thread len ret ex t)"
  unfolding snd_thread_def
  by (rule thread_turn_ok) (simp_all add: counted_try counted_result, simp_all add: snd_try_def snd_result_def)

lemma rcv_thread_ok: "thread_ok rx_items len t \<Longrightarrow> thread_ok rx_items len (rcv_thread len ret ex t)"
  unfolding rcv_thread_def
  by (rule thread_turn_ok) (simp_all add: counted_try counted_result, simp_all add: rcv_try_def rcv_result_def)

lemma new_thread_ok: "thread_ok tx_items len (new_thread b)" "thread_ok rx_items len (new_thread b)"
  by (simp_all add: thread_ok_def new_thread_def settled_def counted_no_perf_stat)

text \<open>How many turns a thread has left once it is told to end.\<close>

definition turns_left :: "perf_thread \<Rightarrow> nat" where
  "turns_left t = (if running t then Suc (length (pend t) + (if in_call t then 5 else 0)) else 0)"

lemma turns_left_le: "thread_ok items len t \<Longrightarrow> turns_left t \<le> 8"
  by (auto simp: turns_left_def thread_ok_def)

lemma thread_turn_left:
  "length after \<le> 4 \<Longrightarrow> turns_left (thread_turn before after ret True t) \<le> turns_left t - 1"
  by (cases "pend t") (auto simp: thread_turn_def turns_left_def)

lemma turns_left_snd: "turns_left (snd_thread len ret True t) \<le> turns_left t - 1"
  unfolding snd_thread_def by (rule thread_turn_left) (simp add: snd_result_def)

lemma turns_left_rcv: "turns_left (rcv_thread len ret True t) \<le> turns_left t - 1"
  unfolding rcv_thread_def by (rule thread_turn_left) (simp add: rcv_result_def)

section \<open>What is shown\<close>

definition column :: "nat \<Rightarrow> u64 list list \<Rightarrow> u64" where
  "column i rows = sum_list (map (\<lambda>row. row ! i) rows)"

definition perf_ok :: "perf_paras \<Rightarrow> tcp_perf \<Rightarrow> bool" where
  "perf_ok p w \<longleftrightarrow> paras w = p \<and> thread_ok rx_items (rcv_data_len p) (rx w) \<and> thread_ok tx_items (snd_data_len p) (tx w) \<and>
     (\<forall>i < 20. column i (shown w) = last_stat w ! i)"

lemma show_stats_column:
  assumes "i < 20" "column i (shown w) = last_stat w ! i"
  shows "column i (shown (fst (show_stats w))) = last_stat (fst (show_stats w)) ! i"
  using assms by (simp add: show_stats_def Let_def column_def sub_stats_def)

interpretation perf: event_program perf_step "perf_ok p"
proof
  fix e w
  assume "perf_ok p w"
  then show "perf_ok p (perf_step e w)"
  proof (cases e)
    case Sigalrm
    with \<open>perf_ok p w\<close> show ?thesis
      using show_stats_column[of _ w] by (auto simp: perf_ok_def) (simp_all add: show_stats_def Let_def)
  qed (simp_all add: perf_ok_def rcv_thread_ok snd_thread_ok)
qed

lemma tcp_perf_main_start:
  assumes "tcp_perf_main inet_addr bind_ret sock_ret addr_ret conn_ret listen_ret accepts rx_ret tx_ret argv = Some w"
  shows "perf_ok (paras w) w" "snd_data (paras w) \<or> rcv_data (paras w)" "\<not> need_exit w"
proof -
  obtain p r t where w: "w = \<lparr>paras = p, rx = r, tx = t, last_stat = replicate 20 0, shown = [], need_exit = False, alarm_on = True\<rparr>"
    and s: "start_rx_tx rx_ret tx_ret p = Some (r, t)" "snd_data p \<or> rcv_data p"
    using assms by (auto simp: tcp_perf_main_def Option.bind_eq_Some_conv split: if_splits)
  show "perf_ok (paras w) w" "snd_data (paras w) \<or> rcv_data (paras w)" "\<not> need_exit w"
    using s by (auto simp: w perf_ok_def start_rx_tx_def new_thread_ok column_def split: if_splits)
qed

lemma idle_counts:
  "thread_ok tx_items len t \<Longrightarrow> pend t = [] \<and> \<not> in_call t \<Longrightarrow>
     tx_total (stat t) = tx_fail (stat t) + tx_succ (stat t) + tx_succ_part (stat t) \<and>
     tx_bytes_succ_sum (stat t) = word_of_int (moved t)"
  "thread_ok rx_items len t \<Longrightarrow> pend t = [] \<and> \<not> in_call t \<Longrightarrow>
     rx_total (stat t) = rx_fail (stat t) + rx_succ (stat t) + rx_succ_part (stat t) \<and>
     rx_bytes_succ_sum (stat t) = word_of_int (moved t)"
  by (simp_all add: thread_ok_def settled_def counted_def tx_items_def rx_items_def perf_items_def) metis+

section \<open>Properties\<close>

text \<open>C30: Whatever the order of increments, signals and calls: the lines shown add up, counter by counter,
  to the totals last seen, so nothing is shown twice or lost between two lines. Between two turns, every
  call of a thread has been counted as failed, complete or partial, and its byte counter is what the calls
  have moved, modulo \<open>2 ^ 64\<close>.\<close>

theorem tcp_perf_counts:
  assumes "tcp_perf_main inet_addr bind_ret sock_ret addr_ret conn_ret listen_ret accepts rx_ret tx_ret argv = Some w0"
    "w = fold perf_step es w0" "i < 20"
  shows "column i (shown w) = last_stat w ! i \<and>
    (alarm_on w \<longrightarrow> last_stat (perf_step Sigalrm w) ! i = perf_items (stat (rx w)) ! i + perf_items (stat (tx w)) ! i) \<and>
    (pend (tx w) = [] \<and> \<not> in_call (tx w) \<longrightarrow>
       tx_total (stat (tx w)) = tx_fail (stat (tx w)) + tx_succ (stat (tx w)) + tx_succ_part (stat (tx w)) \<and>
       tx_bytes_succ_sum (stat (tx w)) = word_of_int (moved (tx w))) \<and>
    (pend (rx w) = [] \<and> \<not> in_call (rx w) \<longrightarrow>
       rx_total (stat (rx w)) = rx_fail (stat (rx w)) + rx_succ (stat (rx w)) + rx_succ_part (stat (rx w)) \<and>
       rx_bytes_succ_sum (stat (rx w)) = word_of_int (moved (rx w)))"
proof -
  have ok: "perf_ok (paras w0) w"
    unfolding assms(2) by (rule perf.run_good[OF tcp_perf_main_start(1)[OF assms(1)]])
  have "last_stat (perf_step Sigalrm w) ! i = perf_items (stat (rx w)) ! i + perf_items (stat (tx w)) ! i" if "alarm_on w"
    using that assms(3) by (simp add: show_stats_def Let_def latest_stat_def sum_stats_def)
  with ok assms(3) show ?thesis
    using idle_counts(1)[of _ "tx w"] idle_counts(2)[of _ "rx w"] unfolding perf_ok_def by blast
qed

lemma perf_run_after_sigint:
  assumes "need_exit w" "turns_left (rx w) \<le> n" "turns_left (tx w) \<le> m"
    "n \<le> length (filter (\<lambda>e. \<exists>r. e = Rx r) es)" "m \<le> length (filter (\<lambda>e. \<exists>r. e = Tx r) es)"
  shows "need_exit (fold perf_step es w) \<and> \<not> running (rx (fold perf_step es w)) \<and> \<not> running (tx (fold perf_step es w)) \<and>
    paras (fold perf_step es w) = paras w"
  using assms
proof (induction es arbitrary: w n m)
  case Nil
  then show ?case by (simp add: turns_left_def split: if_splits)
next
  case (Cons e es)
  show ?case
  proof (cases e)
    case Sigint
    with Cons.IH[of "perf_step e w" n m] Cons.prems show ?thesis by simp
  next
    case Sigalrm
    with Cons.IH[of "perf_step e w" n m] Cons.prems show ?thesis by (simp add: show_stats_def Let_def)
  next
    case (Rx r)
    have "turns_left (rx (perf_step e w)) \<le> n - 1"
      using le_trans[OF turns_left_rcv diff_le_mono[OF Cons.prems(2)]] Cons.prems(1) by (simp add: Rx)
    with Cons.IH[of "perf_step e w" "n - 1" m] Cons.prems show ?thesis by (simp add: Rx)
  next
    case (Tx r)
    have "turns_left (tx (perf_step e w)) \<le> m - 1"
      using le_trans[OF turns_left_snd diff_le_mono[OF Cons.prems(3)]] Cons.prems(1) by (simp add: Tx)
    with Cons.IH[of "perf_step e w" n "m - 1"] Cons.prems show ?thesis by (simp add: Tx)
  qed
qed

text \<open>C5: After Ctrl-C and eight turns of each thread, the program has ended when it received data; a
  program that only sends then joins a thread that it never created.\<close>

theorem tcp_perf_ends:
  assumes "tcp_perf_main inet_addr bind_ret sock_ret addr_ret conn_ret listen_ret accepts rx_ret tx_ret argv = Some w0"
    "8 \<le> length (filter (\<lambda>e. \<exists>r. e = Rx r) es')" "8 \<le> length (filter (\<lambda>e. \<exists>r. e = Tx r) es')"
  shows "main_at (fold perf_step (es @ Sigint # es') w0) = (if rcv_data (paras w0) then Ended else Joins_no_thread)"
proof -
  let ?w = "perf_step Sigint (fold perf_step es w0)"
  have "perf_ok (paras w0) (fold perf_step es w0)"
    by (rule perf.run_good[OF tcp_perf_main_start(1)[OF assms(1)]])
  then have ok: "perf_ok (paras w0) ?w" by (rule perf.step_good)
  then have "turns_left (rx ?w) \<le> 8" "turns_left (tx ?w) \<le> 8" "paras ?w = paras w0"
    unfolding perf_ok_def using turns_left_le by blast+
  with perf_run_after_sigint[of ?w 8 8 es'] assms(2,3) show ?thesis by (simp add: main_at_def)
qed

section \<open>An example\<close>

lemma tcp_perf_demo:
  "tcp_perf_main (\<lambda>_. 9) 0 3 0 0 0 [] 0 0 [''t'', ''-c'', ''--dst-ip=9'', ''--dst-port=7'', ''--snd-data''] =
     Some \<lparr>paras = the_perf_paras\<lparr>is_server_mode := 0, dst_ip := Some ''9'', dst_port := 7, snd_data := True\<rparr>,
       rx = new_thread False, tx = new_thread True, last_stat = replicate 20 0, shown = [], need_exit = False, alarm_on = True\<rparr>"
proof -
  have e: "getopt_long ''hHSsCc'' perf_options [''t'', ''-c'', ''--dst-ip=9'', ''--dst-port=7'', ''--snd-data''] =
      [(of_char (CHR ''c''), None), (1008, Some ''9''), (1009, Some ''7''), (1007, None)]"
    by code_simp
  have v: "ucast (strtoul ''7'' 0) = (7 :: u16)"
    by (simp add: strtoul_def signed_digits_def isspace_def drop_0x_def digit_value_def)
  have c: "(of_char (CHR ''c'') :: nat) = 99" "(of_char (CHR ''s'') :: nat) = 115" "(of_char (CHR ''S'') :: nat) = 83" "(of_char (CHR ''C'') :: nat) = 67"
    by simp_all
  show ?thesis
    unfolding tcp_perf_main_def perf_parse_args_def e
    by (simp add: perf_arg_def v c perf_args_post_proc_def the_perf_paras_def connect2dst_def tcp_socket_init_no_addr_def
        socket_init_2_def start_rx_tx_def)
qed

theorem tcp_perf_counts_witness:
  "\<exists>w::tcp_perf. column 9 (shown w) = last_stat w ! 9 \<and> shown w \<noteq> []"
proof -
  let ?w = "fold perf_step [Tx 0, Tx 0, Tx 0, Tx 1460, Sigalrm] \<lparr>paras = the_perf_paras\<lparr>is_server_mode := 0, dst_ip := Some ''9'', dst_port := 7, snd_data := True\<rparr>,
       rx = new_thread False, tx = new_thread True, last_stat = replicate 20 0, shown = [], need_exit = False, alarm_on = True\<rparr>"
  have "column 9 (shown ?w) = last_stat ?w ! 9"
    using tcp_perf_counts[OF tcp_perf_demo refl, of 9 "[Tx 0, Tx 0, Tx 0, Tx 1460, Sigalrm]", simplified numeral_less_iff] by simp
  moreover have "shown ?w \<noteq> []" by (simp add: show_stats_def Let_def)
  ultimately show ?thesis by blast
qed

theorem tcp_perf_ends_witness:
  "main_at (fold perf_step ([] @ Sigint # replicate 8 (Rx 0) @ replicate 8 (Tx 0)) \<lparr>paras = the_perf_paras\<lparr>is_server_mode := 0, dst_ip := Some ''9'', dst_port := 7, snd_data := True\<rparr>,
       rx = new_thread False, tx = new_thread True, last_stat = replicate 20 0, shown = [], need_exit = False, alarm_on = True\<rparr>) = Joins_no_thread"
  using tcp_perf_ends[OF tcp_perf_demo, of "replicate 8 (Rx 0) @ replicate 8 (Tx 0)" "[]"]
  by (simp add: the_perf_paras_def del: fold_append fold_replicate replicate_append_same)

end
