(* ===== verification/TcpTest.thy ===== *)
theory TcpTest
  imports NetStat
begin

text \<open>
  \<open>simple_apps/tcp_tester.c\<close> and \<open>simple_apps/tcp_reflector.c\<close>, and both on one connection. The
  command lines are those of the UDP programs, text for text. A program is driven by its signals
  and by the iterations of its loop, with what the kernel returns; a write is the retry loop of
  \<open>IoUtils\<close>. \<open>None\<close>: a write that never returns, reads behind its buffer, or returns a variable
  that was never set (a negative length).
\<close>

section \<open>The tester\<close>

record tcp_tester =
  paras :: tester_paras
  stat :: t_rxtx_stat
  need_exit :: bool
  left_loop :: bool
  alarm_on :: bool
  sent :: "char list"
  rcvd :: "char list"

definition tcp_parse_args :: "string list \<Rightarrow> tester_paras option" where
  "tcp_parse_args argv = parse_args argv"

definition connect2dst :: "(string \<Rightarrow> u32) \<Rightarrow> int \<Rightarrow> int \<Rightarrow> int \<Rightarrow> tester_paras \<Rightarrow> bool" where
  "connect2dst inet_addr sock_ret addr_ret conn_ret p \<longleftrightarrow>
     \<not> fst (if src_ip p \<noteq> None then tcp_socket_init inet_addr sock_ret addr_ret (src_ip p) (src_port p)
            else tcp_socket_init_no_addr sock_ret) < 0 \<and> \<not> conn_ret < 0"

text \<open>What \<open>read\<close> returned, and the bytes.\<close>

definition read_ret :: "char list outcome \<Rightarrow> int" where
  "read_ret rd = (case rd of Done bs \<Rightarrow> int (length (take 65536 bs)) | Fail _ \<Rightarrow> -1)"

definition read_bytes :: "char list outcome \<Rightarrow> char list" where
  "read_bytes rd = (case rd of Done bs \<Rightarrow> take 65536 bs | Fail _ \<Rightarrow> [])"

definition rx_loop :: "int outcome \<Rightarrow> char list outcome \<Rightarrow> tcp_tester \<Rightarrow> tcp_tester" where
  "rx_loop sel rd t =
     (if fd_read_or_write_able sel \<le> 0 then t
      else let ret = read_ret rd; t1 = t\<lparr>stat := count_rx ret (stat t), rcvd := rcvd t @ read_bytes rd\<rparr>
           in if ret > 0 then t1 else t1\<lparr>left_loop := True\<rparr>)"

text \<open>\<open>write_certain_bytes\<close> of the first \<open>len\<close> bytes of a buffer.\<close>

definition write_from :: "char list \<Rightarrow> int \<Rightarrow> nat outcome list \<Rightarrow> (int \<times> char list) option" where
  "write_from buf len os =
     (if len < 0 \<or> int (length buf) < len then None
      else map_option (\<lambda>(ret, _, w, _). (ret, w)) (write_certain_bytes (take (nat len) buf) os))"

definition on_sigalrm :: "nat outcome list \<Rightarrow> tcp_tester \<Rightarrow> tcp_tester option" where
  "on_sigalrm os t =
     (let len = snd_data_len (paras t);
          t1 = t\<lparr>alarm_on := (snd_interval (paras t) \<noteq> 0), stat := count_tx_try len (stat t)\<rparr>
      in do {
        (ret, w) \<leftarrow> write_from snd_buf len os;
        let t2 = t1\<lparr>sent := sent t1 @ w\<rparr>;
        Some (if ret = 0 then t2\<lparr>stat := count_tx_succ len (stat t2)\<rparr>
              else t2\<lparr>stat := count_tx_fail len (stat t2), need_exit := True, alarm_on := False\<rparr>) })"

datatype tester_event = Sigint | Sigalrm "nat outcome list" | Loop "int outcome" "char list outcome"

fun tcp_tester_step :: "tester_event \<Rightarrow> tcp_tester \<Rightarrow> tcp_tester option" where
  "tcp_tester_step Sigint t = Some (t\<lparr>need_exit := True, alarm_on := False\<rparr>)"
| "tcp_tester_step (Sigalrm os) t = (if \<not> alarm_on t then Some t else on_sigalrm os t)"
| "tcp_tester_step (Loop sel rd) t = Some (if need_exit t \<or> left_loop t then t else rx_loop sel rd t)"

definition stat_item_names :: "string list" where
  "stat_item_names =
    [''rx_times_total'', ''rx_times_fail'', ''rx_times_succ'', ''rx_bytes'', ''tx_pkts_total'', ''tx_bytes_total'',
     ''tx_pkts_fail'', ''tx_bytes_fail'', ''tx_pkts_succ'', ''tx_bytes_succ'']"

definition show_stats :: "t_rxtx_stat \<Rightarrow> string" where
  "show_stats s = print_stats True (stat_items s) stat_item_names"

definition tcp_tester_main :: "(string \<Rightarrow> u32) \<Rightarrow> int \<Rightarrow> int \<Rightarrow> int \<Rightarrow> int \<Rightarrow> string list \<Rightarrow> tcp_tester option" where
  "tcp_tester_main inet_addr bind_ret sock_ret addr_ret conn_ret argv =
     (case tcp_parse_args argv of
        None \<Rightarrow> None
      | Some p \<Rightarrow>
          if \<not> bind_to_cpu (cpu_idx p) bind_ret \<or> \<not> connect2dst inet_addr sock_ret addr_ret conn_ret p then None
          else Some \<lparr>paras = p, stat = no_stat, need_exit = False, left_loop = False,
            alarm_on = (snd_interval p \<noteq> 0), sent = [], rcvd = []\<rparr>)"

section \<open>The reflector\<close>

record tcp_reflector =
  r_paras :: reflector_paras
  r_stat :: t_rxtx_stat
  r_need_exit :: bool
  r_left_loop :: bool
  r_sent :: "char list"
  r_rcvd :: "char list"

definition tcp_reflector_parse_args :: "string list \<Rightarrow> reflector_paras option" where
  "tcp_reflector_parse_args argv = reflector_parse_args argv"

definition make_conn ::
    "(string \<Rightarrow> u32) \<Rightarrow> int \<Rightarrow> int \<Rightarrow> int \<Rightarrow> int outcome list \<Rightarrow> reflector_paras \<Rightarrow> bool option" where
  "make_conn inet_addr sock_ret addr_ret listen_ret accepts p =
     (if fst (tcp_socket_init inet_addr sock_ret addr_ret (Some (r_src_ip p)) (r_src_port p)) < 0 then Some False
      else if listen_ret \<noteq> 0 then Some False
      else accept_loop accepts)"

definition rxtx_loop ::
    "int outcome \<Rightarrow> char list outcome \<Rightarrow> nat outcome list \<Rightarrow> tcp_reflector \<Rightarrow> tcp_reflector option" where
  "rxtx_loop sel rd os r =
     (if fd_read_or_write_able sel \<le> 0 then Some r
      else let ret = read_ret rd;
               r1 = r\<lparr>r_stat := count_rx ret (r_stat r), r_rcvd := r_rcvd r @ read_bytes rd\<rparr>
           in if ret \<le> 0 then Some (r1\<lparr>r_left_loop := True\<rparr>)
              else if only_recv (r_paras r) then Some r1
              else do {
                (send_ret, w) \<leftarrow> write_from (read_bytes rd) ret os;
                let r2 = r1\<lparr>r_sent := r_sent r1 @ w, r_stat := count_tx_try ret (r_stat r1)\<rparr>;
                Some (if send_ret = 0 then r2\<lparr>r_stat := count_tx_succ ret (r_stat r2)\<rparr>
                      else r2\<lparr>r_stat := count_tx_fail ret (r_stat r2)\<rparr>) })"

datatype reflector_event = RSigint | RLoop "int outcome" "char list outcome" "nat outcome list"

fun tcp_reflector_step :: "reflector_event \<Rightarrow> tcp_reflector \<Rightarrow> tcp_reflector option" where
  "tcp_reflector_step RSigint r = Some (r\<lparr>r_need_exit := True\<rparr>)"
| "tcp_reflector_step (RLoop sel rd os) r = (if r_need_exit r \<or> r_left_loop r then Some r else rxtx_loop sel rd os r)"

definition tcp_reflector_main ::
    "(string \<Rightarrow> u32) \<Rightarrow> int \<Rightarrow> int \<Rightarrow> int \<Rightarrow> int \<Rightarrow> int outcome list \<Rightarrow> string list \<Rightarrow> tcp_reflector option" where
  "tcp_reflector_main inet_addr bind_ret sock_ret addr_ret listen_ret accepts argv =
     (case tcp_reflector_parse_args argv of
        None \<Rightarrow> None
      | Some p \<Rightarrow>
          if \<not> bind_to_cpu (r_cpu_idx p) bind_ret \<or> make_conn inet_addr sock_ret addr_ret listen_ret accepts p \<noteq> Some True then None
          else Some \<lparr>r_paras = p, r_stat = no_stat, r_need_exit = False, r_left_loop = False, r_sent = [], r_rcvd = []\<rparr>)"

section \<open>Both on a connection\<close>

text \<open>The bytes on their way; \<open>failed\<close>: a reply of the reflector was not sent as a whole.\<close>

record tcp_world =
  tester :: tcp_tester
  reflector :: tcp_reflector
  to_r :: "char list"
  to_t :: "char list"
  failed :: bool

text \<open>\<open>n\<close> of the bytes on their way are read, at least one.\<close>

datatype conn_event = Alarm "nat outcome list" | Reflect nat "nat outcome list" | Collect nat | Tester_sigint | Reflector_sigint

fun conn_step :: "conn_event \<Rightarrow> tcp_world \<Rightarrow> tcp_world option" where
  "conn_step (Alarm os) w = do {
     t \<leftarrow> tcp_tester_step (Sigalrm os) (tester w);
     Some (w\<lparr>tester := t, to_r := to_r w @ drop (length (sent (tester w))) (sent t)\<rparr>) }"
| "conn_step (Reflect n os) w =
     (if n = 0 \<or> length (to_r w) < n \<or> 65536 < n \<or> r_need_exit (reflector w) \<or> r_left_loop (reflector w) then Some w
      else do {
        r \<leftarrow> tcp_reflector_step (RLoop (Done 1) (Done (take n (to_r w))) os) (reflector w);
        let back = drop (length (r_sent (reflector w))) (r_sent r);
        Some (w\<lparr>reflector := r, to_r := drop n (to_r w), to_t := to_t w @ back,
          failed := (failed w \<or> length back < n)\<rparr>) })"
| "conn_step (Collect n) w =
     (if n = 0 \<or> length (to_t w) < n \<or> 65536 < n \<or> need_exit (tester w) \<or> left_loop (tester w) then Some w
      else do {
        t \<leftarrow> tcp_tester_step (Loop (Done 1) (Done (take n (to_t w)))) (tester w);
        Some (w\<lparr>tester := t, to_t := drop n (to_t w)\<rparr>) })"
| "conn_step Tester_sigint w = do { t \<leftarrow> tcp_tester_step Sigint (tester w); Some (w\<lparr>tester := t\<rparr>) }"
| "conn_step Reflector_sigint w = do { r \<leftarrow> tcp_reflector_step RSigint (reflector w); Some (w\<lparr>reflector := r\<rparr>) }"

fun conn_run :: "conn_event list \<Rightarrow> tcp_world \<Rightarrow> tcp_world option" where
  "conn_run [] w = Some w"
| "conn_run (e # es) w = do { w1 \<leftarrow> conn_step e w; conn_run es w1 }"

definition conn_ok :: "tcp_world \<Rightarrow> bool" where
  "conn_ok w \<longleftrightarrow> (\<not> failed w \<longrightarrow> sent (tester w) = rcvd (tester w) @ to_t w @ to_r w) \<and>
     rx_bytes (stat (tester w)) = of_nat (length (rcvd (tester w))) \<and>
     rx_bytes (r_stat (reflector w)) = of_nat (length (r_rcvd (reflector w))) \<and>
     sent (tester w) = r_rcvd (reflector w) @ to_r w \<and>
     r_sent (reflector w) = rcvd (tester w) @ to_t w \<and>
     (\<not> need_exit (tester w) \<longrightarrow> tx_bytes_succ (stat (tester w)) = of_nat (length (sent (tester w)))) \<and>
     (\<not> failed w \<longrightarrow> tx_bytes_succ (r_stat (reflector w)) = of_nat (length (r_sent (reflector w)))) \<and>
     balanced (stat (tester w)) \<and> balanced (r_stat (reflector w))"

lemma write_from_some:
  assumes "write_from buf len os = Some (ret, w)"
  shows "0 \<le> len" "len \<le> int (length buf)" "w = take (length w) (take (nat len) buf)" "ret = 0 \<longleftrightarrow> length w = nat len"
proof -
  from assms show l: "0 \<le> len" "len \<le> int (length buf)" by (auto simp: write_from_def split: if_splits)
  from assms obtain n os' where "write_certain_bytes (take (nat len) buf) os = Some (ret, n, w, os')"
    by (auto simp: write_from_def split: if_splits)
  from write_certain_bytes_some[OF this] l
  show "w = take (length w) (take (nat len) buf)" "ret = 0 \<longleftrightarrow> length w = nat len"
    by (auto simp: min_def)
qed

lemma read_chunk: "n \<le> length xs \<Longrightarrow> n \<le> 65536 \<Longrightarrow> read_ret (Done (take n xs)) = int n"
  "n \<le> 65536 \<Longrightarrow> read_bytes (Done (take n xs)) = take n xs"
  by (simp_all add: read_ret_def read_bytes_def)

lemma rx_counters:
  "rx_bytes (count_rx n s) = (if 0 < n then rx_bytes s + word_of_int n else rx_bytes s)"
  "rx_bytes (count_tx_try n s) = rx_bytes s" "rx_bytes (count_tx_succ n s) = rx_bytes s" "rx_bytes (count_tx_fail n s) = rx_bytes s"
  "tx_bytes_succ (count_rx n s) = tx_bytes_succ s" "tx_bytes_succ (count_tx_try n s) = tx_bytes_succ s"
  "tx_bytes_succ (count_tx_fail n s) = tx_bytes_succ s" "tx_bytes_succ (count_tx_succ n s) = tx_bytes_succ s + word_of_int n"
  by (simp_all add: count_defs)

lemma alarm_conn_ok:
  assumes "conn_ok w" "conn_step (Alarm os) w = Some w'"
  shows "conn_ok w'"
proof (cases "alarm_on (tester w)")
  case True
  with assms(2) obtain t where t: "on_sigalrm os (tester w) = Some t"
    "w' = w\<lparr>tester := t, to_r := to_r w @ drop (length (sent (tester w))) (sent t)\<rparr>"
    by (auto simp: Option.bind_eq_Some_conv)
  let ?n = "snd_data_len (paras (tester w))" and ?s = "stat (tester w)"
  from t(1) obtain ret v where v: "write_from snd_buf ?n os = Some (ret, v)" "sent t = sent (tester w) @ v" "rcvd t = rcvd (tester w)"
    "stat t = (if ret = 0 then count_tx_succ ?n (count_tx_try ?n ?s) else count_tx_fail ?n (count_tx_try ?n ?s))"
    "need_exit t = (need_exit (tester w) \<or> ret \<noteq> 0)"
    by (auto simp: on_sigalrm_def Let_def Option.bind_eq_Some_conv)
  have "ret = 0 \<Longrightarrow> (word_of_int ?n :: 64 word) = of_nat (length v)"
    using write_from_some(1,4)[OF v(1)] by (simp add: of_nat_nat)
  with v t(2) assms(1) show ?thesis by (auto simp: conn_ok_def rx_counters balanced_tx)
qed (use assms in auto)

lemma collect_conn_ok:
  assumes "conn_ok w" "conn_step (Collect n) w = Some w'"
  shows "conn_ok w'"
proof (cases "n = 0 \<or> length (to_t w) < n \<or> 65536 < n \<or> need_exit (tester w) \<or> left_loop (tester w)")
  case False
  then have n: "0 < n" "n \<le> length (to_t w)" "n \<le> 65536" by auto
  with assms(2) False have w': "w' = w\<lparr>tester := (tester w)\<lparr>stat := count_rx (int n) (stat (tester w)),
      rcvd := rcvd (tester w) @ take n (to_t w)\<rparr>, to_t := drop n (to_t w)\<rparr>"
    by (auto simp: rx_loop_def fd_read_or_write_able_def read_chunk Let_def)
  have "take n (to_t w) @ drop n (to_t w) @ zs = to_t w @ zs" for zs by (simp flip: append_assoc)
  with assms(1) n show ?thesis
    by (auto simp: conn_ok_def w' rx_counters balanced_rx)
qed (use assms in auto)

lemma rxtx_loop_reply:
  assumes "rxtx_loop sel rd os r = Some r'" "0 < fd_read_or_write_able sel" "0 < read_ret rd" "\<not> only_recv (r_paras r)"
  obtains ret v where "write_from (read_bytes rd) (read_ret rd) os = Some (ret, v)" "r_sent r' = r_sent r @ v"
    "r_rcvd r' = r_rcvd r @ read_bytes rd"
    "r_stat r' = (if ret = 0 then count_tx_succ (read_ret rd) (count_tx_try (read_ret rd) (count_rx (read_ret rd) (r_stat r)))
     else count_tx_fail (read_ret rd) (count_tx_try (read_ret rd) (count_rx (read_ret rd) (r_stat r))))"
proof (cases "write_from (read_bytes rd) (read_ret rd) os")
  case None
  with assms show ?thesis by (simp add: rxtx_loop_def Let_def)
next
  case (Some p)
  obtain ret v where p: "p = (ret, v)" by (cases p)
  show ?thesis
    using assms by (intro that[of ret v]) (auto simp: rxtx_loop_def Let_def Some p split: if_splits)
qed

lemma reflect_conn_ok:
  assumes "conn_ok w" "conn_step (Reflect n os) w = Some w'"
  shows "conn_ok w'"
proof (cases "n = 0 \<or> length (to_r w) < n \<or> 65536 < n \<or> r_need_exit (reflector w) \<or> r_left_loop (reflector w)")
  case False
  let ?r = "reflector w" and ?xs = "take n (to_r w)"
  let ?r1 = "?r\<lparr>r_stat := count_rx (int n) (r_stat ?r), r_rcvd := r_rcvd ?r @ ?xs\<rparr>"
  from False have n: "0 < n" "n \<le> length (to_r w)" "n \<le> 65536" by auto
  from assms(2) False obtain r where r: "rxtx_loop (Done 1) (Done ?xs) os ?r = Some r"
    "w' = w\<lparr>reflector := r, to_r := drop n (to_r w), to_t := to_t w @ drop (length (r_sent ?r)) (r_sent r),
       failed := (failed w \<or> length (drop (length (r_sent ?r)) (r_sent r)) < n)\<rparr>"
    by (auto simp: Let_def Option.bind_eq_Some_conv)
  show ?thesis
  proof (cases "only_recv (r_paras ?r)")
    case True
    with r n have "r = ?r1"
      by (auto simp: rxtx_loop_def fd_read_or_write_able_def read_chunk Let_def)
    with r(2) assms(1) n show ?thesis by (auto simp: conn_ok_def rx_counters balanced_rx)
  next
    case only: False
    let ?s = "count_rx (int n) (r_stat ?r)"
    have x: "read_ret (Done ?xs) = int n" "read_bytes (Done ?xs) = ?xs" "0 < int n" "0 < fd_read_or_write_able (Done 1)"
      using n by (simp_all add: read_chunk fd_read_or_write_able_def)
    obtain ret v where v: "write_from ?xs (int n) os = Some (ret, v)" "r_sent r = r_sent ?r @ v"
      "r_rcvd r = r_rcvd ?r @ ?xs"
      "r_stat r = (if ret = 0 then count_tx_succ (int n) (count_tx_try (int n) ?s) else count_tx_fail (int n) (count_tx_try (int n) ?s))"
      by (rule rxtx_loop_reply[OF r(1) x(4) _ only, unfolded x(1,2), OF x(3)])
    have full: "v = ?xs" if "n \<le> length v"
    proof -
      have "v = take (length v) (take (nat (int n)) ?xs)" by (rule write_from_some(3)[OF v(1)])
      also have "\<dots> = ?xs" using that by simp
      finally show ?thesis .
    qed
    have "ret = 0" if "n \<le> length v"
      using write_from_some(4)[OF v(1)] full[OF that] n(2) by simp
    moreover have "take n (to_r w) @ drop n (to_r w) = to_r w" by simp
    ultimately
    show ?thesis using r(2) v(2-4) assms(1) n full
      by (auto simp: conn_ok_def rx_counters balanced_rx balanced_tx not_less)
  qed
qed (use assms in auto)

lemma conn_step_ok: "conn_step e w = Some w' \<Longrightarrow> conn_ok w \<Longrightarrow> conn_ok w'"
proof (cases e)
  case (Alarm os)
  then show "conn_step e w = Some w' \<Longrightarrow> conn_ok w \<Longrightarrow> ?thesis" by (simp only: alarm_conn_ok)
next
  case (Reflect n os)
  then show "conn_step e w = Some w' \<Longrightarrow> conn_ok w \<Longrightarrow> ?thesis" by (simp only: reflect_conn_ok)
next
  case (Collect n)
  then show "conn_step e w = Some w' \<Longrightarrow> conn_ok w \<Longrightarrow> ?thesis" by (simp only: collect_conn_ok)
qed (auto simp: conn_ok_def)

lemma conn_run_ok: "conn_run es w = Some w' \<Longrightarrow> conn_ok w \<Longrightarrow> conn_ok w'"
  by (induction es arbitrary: w) (auto simp: Option.bind_eq_Some_conv intro: conn_step_ok)

section \<open>Properties\<close>

text \<open>C4: However the kernel splits reads and writes, and whatever alarms and interrupts come: the reflector has got, byte for
  byte, what the tester sent but for what is on its way to it, what the tester gets back is what the reflector sent but for what
  is on its way back, and both programs count the bytes they got. As long as no reply of the reflector fails, what comes back
  is so a prefix of what was sent, and the reflector counts the bytes it sent back; until the tester is to end it counts the
  bytes it sent. What was tried has succeeded or failed in any case.\<close>

theorem tcp_echo_stream:
  assumes "tcp_tester_main inet_addr bind_ret sock_ret addr_ret conn_ret argv = Some t"
    "tcp_reflector_main inet_addr bind_ret' sock_ret' addr_ret' listen_ret accepts argv' = Some r"
    "conn_run es \<lparr>tester = t, reflector = r, to_r = [], to_t = [], failed = False\<rparr> = Some w"
  shows "sent (tester w) = r_rcvd (reflector w) @ to_r w \<and> r_sent (reflector w) = rcvd (tester w) @ to_t w \<and>
    rx_bytes (stat (tester w)) = of_nat (length (rcvd (tester w))) \<and>
    rx_bytes (r_stat (reflector w)) = of_nat (length (r_rcvd (reflector w))) \<and>
    (\<not> failed w \<longrightarrow> sent (tester w) = rcvd (tester w) @ to_t w @ to_r w \<and>
       tx_bytes_succ (r_stat (reflector w)) = of_nat (length (r_sent (reflector w)))) \<and>
    (\<not> need_exit (tester w) \<longrightarrow> tx_bytes_succ (stat (tester w)) = of_nat (length (sent (tester w)))) \<and>
    balanced (stat (tester w)) \<and> balanced (r_stat (reflector w))"
proof -
  have "stat t = no_stat \<and> sent t = [] \<and> rcvd t = []"
    using assms(1) by (auto simp: tcp_tester_main_def split: option.splits if_splits)
  moreover have "r_stat r = no_stat \<and> r_sent r = [] \<and> r_rcvd r = []"
    using assms(2) by (auto simp: tcp_reflector_main_def split: option.splits if_splits)
  ultimately have "conn_ok \<lparr>tester = t, reflector = r, to_r = [], to_t = [], failed = False\<rparr>"
    using balanced_no_stat by (simp add: conn_ok_def no_stat_def)
  from conn_run_ok[OF assms(3) this] show ?thesis unfolding conn_ok_def by blast
qed

definition demo_tester :: tcp_tester where
  "demo_tester = \<lparr>paras = demo_paras 1 8, stat = no_stat, need_exit = False, left_loop = False, alarm_on = True, sent = [], rcvd = []\<rparr>"

definition demo_reflector :: tcp_reflector where
  "demo_reflector = \<lparr>r_paras = reflector_paras_init, r_stat = no_stat, r_need_exit = False, r_left_loop = False, r_sent = [], r_rcvd = []\<rparr>"

lemma tcp_demo:
  "tcp_tester_main (\<lambda>_. 9) 0 3 0 0 [''t'', ''--dst-ip=9'', ''--dst-port=7''] = Some demo_tester"
  "tcp_reflector_main (\<lambda>_. 9) 0 3 0 0 [Done 4] [''r''] = Some demo_reflector"
  unfolding tcp_tester_main_def tcp_reflector_main_def tcp_parse_args_def tcp_reflector_parse_args_def demo_args
  by (simp_all add: demo_paras_def demo_tester_def demo_reflector_def the_working_paras_def reflector_paras_init_def bind_to_cpu_def
      connect2dst_def make_conn_def tcp_socket_init_no_addr_def tcp_socket_init_def socket_init_def socket_init_2_def Let_def)

lemma tcp_demo_run:
  "\<exists>w. conn_run [Alarm [Done 5, Done 3], Reflect 3 [Done 3], Collect 2]
     \<lparr>tester = demo_tester, reflector = demo_reflector, to_r = [], to_t = [], failed = False\<rparr> = Some w \<and> \<not> failed w"
proof -
  have w: "write_certain_bytes ''12345abc'' [Done 5, Done 3] = Some (0, 8, ''12345abc'', [])"
    "write_certain_bytes ''123'' [Done 3] = Some (0, 3, ''123'', [])"
    by code_simp+
  have r: "read_ret (Done ''123'') = 3" "read_bytes (Done ''123'') = ''123''" "read_ret (Done ''12'') = 2" "read_bytes (Done ''12'') = ''12''"
    by (simp_all add: read_ret_def read_bytes_def)
  show ?thesis
    by (simp add: w r demo_tester_def demo_reflector_def demo_paras_def the_working_paras_def reflector_paras_init_def
        on_sigalrm_def write_from_def rxtx_loop_def rx_loop_def Let_def fd_read_or_write_able_def snd_buf_def)
qed

theorem tcp_echo_stream_witness:
  "\<exists>w. conn_run [Alarm [Done 5, Done 3], Reflect 3 [Done 3], Collect 2]
     \<lparr>tester = demo_tester, reflector = demo_reflector, to_r = [], to_t = [], failed = False\<rparr> = Some w \<and>
     sent (tester w) = rcvd (tester w) @ to_t w @ to_r w"
  using tcp_demo_run tcp_echo_stream[OF tcp_demo] by blast

end
