(* ===== verification/TestPrograms.thy ===== *)
theory TestPrograms
  imports Debug Mm PcQueue ConfigFile Getopt Measure LibUtils
begin

text \<open>
  The programs of \<open>simple_apps\<close> that try out one part of the library: \<open>mm_test.c\<close>, \<open>pc_queue_test.c\<close>,
  \<open>config_file_test.c\<close>, \<open>measure_test.c\<close>, \<open>parse_args_test.c\<close>, \<open>parse_args_full_test.c\<close>, and \<open>netlink_test.c\<close>, which
  prints with \<open>Debug\<close>. Each is its whole \<open>main\<close> on the model of that part; the text it prints is the result.
\<close>

section \<open>\<open>parse_args_test.c\<close> and \<open>parse_args_full_test.c\<close>\<close>

text \<open>The variables the options set, and what has been printed.\<close>

record test_args =
  enable_opt_i :: int
  enable_opt_d :: int
  int_para_n :: int
  str_para_s :: "string option"
  enable_long_opt_a :: int
  long_int_para_b :: int
  long_str_para_c :: "string option"
  args_out :: string

definition no_test_args :: test_args where
  "no_test_args = \<lparr>enable_opt_i = 0, enable_opt_d = 0, int_para_n = 0, str_para_s = None,
     enable_long_opt_a = 0, long_int_para_b = 0, long_str_para_c = None, args_out = []\<rparr>"

definition LONG_OPT_A_ID :: nat where "LONG_OPT_A_ID = 1000"
definition LONG_OPT_B_ID :: nat where "LONG_OPT_B_ID = 1001"
definition LONG_OPT_C_ID :: nat where "LONG_OPT_C_ID = 1002"

definition test_options :: "long_option list" where
  "test_options =
     [\<lparr>opt_name = ''opt_a'', opt_has_arg = no_argument, opt_val = LONG_OPT_A_ID\<rparr>,
      \<lparr>opt_name = ''opt_b'', opt_has_arg = required_argument, opt_val = LONG_OPT_B_ID\<rparr>,
      \<lparr>opt_name = ''opt_c'', opt_has_arg = required_argument, opt_val = LONG_OPT_C_ID\<rparr>]"

definition args_usage :: "string \<Rightarrow> string" where
  "args_usage prog = ''Usage: '' @ prog @ '' [-<i/I>] [-n number] [-s string] [-d]'' @ [LF]"

definition args_full_usage :: "string \<Rightarrow> string" where
  "args_full_usage prog =
     ''Usage: '' @ prog @ '' [-<i/I>] [-n number] [-s string] [-d] [--opt_a] [--opt_b=number] [--opt_c=string]'' @ [LF]"

text \<open>The body of the loop of the first program; the second has three more cases.\<close>

definition args_case :: "string \<Rightarrow> opt_event \<Rightarrow> test_args \<Rightarrow> test_args" where
  "args_case usage ev a =
     (let opt = fst ev; optarg = snd ev
      in if opt = of_char (CHR ''i'') \<or> opt = of_char (CHR ''I'') then a\<lparr>enable_opt_i := 1\<rparr>
         else if opt = of_char (CHR ''n'') then a\<lparr>int_para_n := atoi (the optarg)\<rparr>
         else if opt = of_char (CHR ''s'') then a\<lparr>str_para_s := optarg\<rparr>
         else if opt = of_char (CHR ''d'') then a\<lparr>enable_opt_d := 1\<rparr>
         else a\<lparr>args_out := args_out a @ usage\<rparr>)"

definition args_full_case :: "string \<Rightarrow> opt_event \<Rightarrow> test_args \<Rightarrow> test_args" where
  "args_full_case usage ev a =
     (let opt = fst ev; optarg = snd ev
      in if opt = LONG_OPT_A_ID then a\<lparr>enable_long_opt_a := 1\<rparr>
         else if opt = LONG_OPT_B_ID then a\<lparr>long_int_para_b := atoi (the optarg)\<rparr>
         else if opt = LONG_OPT_C_ID then a\<lparr>long_str_para_c := optarg\<rparr>
         else args_case usage ev a)"

definition test_parse_args :: "string list \<Rightarrow> test_args" where
  "test_parse_args argv = fold (args_case (args_usage (hd argv))) (getopt ''iIn:s:d'' argv) no_test_args"

definition test_parse_args_full :: "string list \<Rightarrow> test_args" where
  "test_parse_args_full argv =
     fold (args_full_case (args_full_usage (hd argv))) (getopt_long ''iIn:s:d'' test_options argv) no_test_args"

text \<open>A null string prints as \<open>(null)\<close>.\<close>

definition show_str :: "string option \<Rightarrow> string" where
  "show_str s = (case s of None \<Rightarrow> ''(null)'' | Some t \<Rightarrow> t)"

definition args_lines :: "test_args \<Rightarrow> string" where
  "args_lines a =
     ''enable_opt_i = '' @ show_int (enable_opt_i a) @ [LF] @ ''enable_opt_d = '' @ show_int (enable_opt_d a) @ [LF] @
     ''int_para_n   = '' @ show_int (int_para_n a) @ [LF] @ ''str_para_s   = '' @ show_str (str_para_s a) @ [LF]"

definition parse_args_test_main :: "string list \<Rightarrow> string" where
  "parse_args_test_main argv = (let a = test_parse_args argv in args_out a @ args_lines a)"

definition parse_args_full_test_main :: "string list \<Rightarrow> string" where
  "parse_args_full_test_main argv =
     (let a = test_parse_args_full argv
      in args_out a @ args_lines a @
         ''enable_long_opt_a = '' @ show_int (enable_long_opt_a a) @ [LF] @
         ''long_int_para_b   = '' @ show_int (long_int_para_b a) @ [LF] @
         ''long_str_para_c   = '' @ show_str (long_str_para_c a) @ [LF])"

section \<open>\<open>config_file_test.c\<close>\<close>

definition some_data :: string where
  "some_data = ''abc='' @ [CHR 0x22] @ ''123'' @ [CHR 0x22]"

text \<open>\<open>accepted\<close>: how much \<open>fwrite\<close> and \<open>fclose\<close> bring to the disk. \<open>None\<close>: the file cannot be created and \<open>fwrite\<close> is called
  with a null pointer, or the parser fails.\<close>

definition config_file_test_main ::
    "bool \<Rightarrow> nat \<Rightarrow> rows option \<Rightarrow> rows option \<Rightarrow> disk \<Rightarrow> (string \<times> disk) option" where
  "config_file_test_main fopen_ok accepted vars vals fs =
     (if \<not> fopen_ok then None
      else let fs = fs(''test.config'' \<mapsto> take accepted some_data)
           in do {
             (num, st) \<leftarrow> parse_config_file fs vars vals None ''test.config'' False empty_config;
             r \<leftarrow> get_config_var ''abc'' st;
             Some (''abc='' @ show_str (Option.bind r (\<lambda>i. map_option (\<lambda>f. f i) (ga_values st))) @ [LF], fs) })"

section \<open>\<open>pc_queue_test.c\<close>\<close>

text \<open>\<open>addr i\<close> is \<open>&a[i]\<close>, and \<open>deref\<close> reads the array through a pointer. \<open>None\<close>: a read through another pointer;
  \<open>Inl\<close>: an assertion fails.\<close>

definition deref :: "(nat \<Rightarrow> u64) \<Rightarrow> u64 \<Rightarrow> nat option" where
  "deref addr p = List.find (\<lambda>i. addr i = p) [0..<5]"

fun enq_all :: "u64 list \<Rightarrow> t_pc_que \<Rightarrow> (unit + t_pc_que) option" where
  "enq_all [] q = Some (Inr q)"
| "enq_all (p # ps) q = do {
     (r, q) \<leftarrow> pc_que_enq_try p 0 0 q;
     if r = 0 then enq_all ps q else Some (Inl ()) }"

fun outq_all :: "string \<Rightarrow> (nat \<Rightarrow> u64) \<Rightarrow> nat list \<Rightarrow> t_pc_que \<Rightarrow> (unit + string) option" where
  "outq_all file addr [] q = Some (Inr [])"
| "outq_all file addr (i # js) q = do {
     ((p, _), q) \<leftarrow> pc_que_outq_try q;
     value \<leftarrow> deref addr p;
     if i \<noteq> value then Some (Inl ())
     else do {
       r \<leftarrow> outq_all file addr js q;
       Some (map_sum id (\<lambda>out. DBG_PRINT file 30 ''main'' (''value='' @ show_dec value) @ out) r) } }"

definition pc_queue_test_main :: "string \<Rightarrow> (nat \<Rightarrow> u64) \<Rightarrow> bool \<Rightarrow> (unit + string) option" where
  "pc_queue_test_main file addr mem_ok = do {
     r \<leftarrow> create_pc_que mem_ok 16;
     (case r of
        None \<Rightarrow> Some (Inl ())
      | Some q \<Rightarrow> do {
          r \<leftarrow> enq_all (map addr [0..<5]) q;
          (case r of Inl e \<Rightarrow> Some (Inl e) | Inr q \<Rightarrow> outq_all file addr [0..<5] q) }) }"

section \<open>\<open>measure_test.c\<close>\<close>

text \<open>A loop of \<open>TIME_MEASURE_BEGIN\<close>, the function, which prints, and \<open>TIME_MEASURE_END\<close>; one pair of readings for each turn.\<close>

fun timed_calls :: "string \<Rightarrow> nat option \<Rightarrow> (u64 \<times> u64) list \<Rightarrow> measures \<times> string \<Rightarrow> (measures \<times> string) option" where
  "timed_calls text var [] (s, out) = Some (s, out)"
| "timed_calls text var ((b, e) # runs) (s, out) = do {
     s \<leftarrow> TIME_MEASURE_BEGIN b var s;
     s \<leftarrow> TIME_MEASURE_END e var s;
     timed_calls text var runs (s, out @ text) }"

definition test_perform ::
    "nat option \<Rightarrow> nat option \<Rightarrow> (u64 \<times> u64) list \<Rightarrow> (u64 \<times> u64) list \<Rightarrow> measures \<Rightarrow> (measures \<times> string) option" where
  "test_perform p1 p2 runs1 runs2 s = do {
     (v1, s) \<leftarrow> INIT_TIME_MEASURE ''f1'' p1 None s;
     (v2, s) \<leftarrow> INIT_TIME_MEASURE ''f2'' p2 None s;
     r \<leftarrow> timed_calls (''f1 '' @ [LF]) v1 (take 5 runs1) (s, []);
     timed_calls (''f2 '' @ [LF]) v2 (take 3 runs2) r }"

definition measure_test_main ::
    "bool \<Rightarrow> u64 \<Rightarrow> u64 \<Rightarrow> nat option \<Rightarrow> nat option \<Rightarrow> (u64 \<times> u64) list \<Rightarrow> (u64 \<times> u64) list \<Rightarrow> string option" where
  "measure_test_main malloc_ok t1 t2 p1 p2 runs1 runs2 =
     (case init_measure malloc_ok 2 t1 t2 no_measures of (_, s) \<Rightarrow> do {
        (s, out) \<leftarrow> test_perform p1 p2 runs1 runs2 s;
        report \<leftarrow> report_measure s;
        Some (out @ report) })"

section \<open>\<open>mm_test.c\<close>\<close>

text \<open>The program is a straight line of calls on three pointers, numbered 1 to 3.\<close>

datatype mm_stmt =
    AllocBuffer nat | FreeBuffer nat | AssertFree u32 | FillPrint nat string | ForEachPrint | AddToAll nat | DelFromAll nat

record mm_test =
  mt_hd :: t_mm_manager
  mt_ptr :: "nat \<Rightarrow> mm_ptr"
  mt_buf :: "nat \<Rightarrow> string"
  mt_out :: string

text \<open>\<open>print_buf\<close>; \<open>NULL\<close> and wild pointers cannot be read.\<close>

fun print_buf :: "(nat \<Rightarrow> string) \<Rightarrow> mm_ptr \<Rightarrow> string option \<Rightarrow> bool \<times> string option" where
  "print_buf bufs (Buf b) (Some out) = (False, Some (out @ ''buf contents: '' @ bufs b @ [LF]))"
| "print_buf bufs p r = (False, None)"

fun buf_of :: "mm_ptr \<Rightarrow> nat option" where
  "buf_of (Buf b) = Some b"
| "buf_of p = None"

text \<open>\<open>strcpy(buf1, "buf1"); printf("buf1=%p : %s\n", buf1, buf1)\<close>; \<open>addr\<close> prints a pointer. \<open>None\<close>: an access without a
  buffer, or a call that does not return; \<open>Inl\<close>: an assertion fails, with what had been printed.\<close>

fun mm_exec :: "(nat \<Rightarrow> string) \<Rightarrow> mm_stmt \<Rightarrow> mm_test \<Rightarrow> (string + mm_test) option" where
  "mm_exec addr (AllocBuffer v) s = do {
     (p, m) \<leftarrow> alloc_buffer (mt_hd s);
     Some (Inr (s\<lparr>mt_hd := m, mt_ptr := (mt_ptr s)(v := p)\<rparr>)) }"
| "mm_exec addr (FreeBuffer v) s = do {
     b \<leftarrow> buf_of (mt_ptr s v);
     m \<leftarrow> free_buffer b (mt_hd s);
     Some (Inr (s\<lparr>mt_hd := m\<rparr>)) }"
| "mm_exec addr (AssertFree n) s = Some (if n = free_buffer_num (mt_hd s) then Inr s else Inl (mt_out s))"
| "mm_exec addr (FillPrint v text) s = do {
     b \<leftarrow> buf_of (mt_ptr s v);
     if 128 \<le> length text then None
     else Some (Inr (s\<lparr>mt_buf := (mt_buf s)(b := text), mt_out := mt_out s @ text @ ''='' @ addr b @ '' : '' @ text @ [LF]\<rparr>)) }"
| "mm_exec addr ForEachPrint s = do {
     r \<leftarrow> for_each_buf_in_all_link (print_buf (mt_buf s)) (mt_hd s) (Some (mt_out s));
     out \<leftarrow> r;
     Some (Inr (s\<lparr>mt_out := out\<rparr>)) }"
| "mm_exec addr (AddToAll v) s = do {
     b \<leftarrow> buf_of (mt_ptr s v);
     m \<leftarrow> add_to_all_link b (mt_hd s);
     Some (Inr (s\<lparr>mt_hd := m\<rparr>)) }"
| "mm_exec addr (DelFromAll v) s = do {
     b \<leftarrow> buf_of (mt_ptr s v);
     m \<leftarrow> delete_from_all_link b (mt_hd s);
     Some (Inr (s\<lparr>mt_hd := m\<rparr>)) }"

fun mm_exec_all :: "(nat \<Rightarrow> string) \<Rightarrow> mm_stmt list \<Rightarrow> mm_test \<Rightarrow> (string + mm_test) option" where
  "mm_exec_all addr [] s = Some (Inr s)"
| "mm_exec_all addr (c # cs) s =
     (case mm_exec addr c s of
        None \<Rightarrow> None
      | Some (Inl out) \<Rightarrow> Some (Inl out)
      | Some (Inr s) \<Rightarrow> mm_exec_all addr cs s)"

definition take_three :: "mm_stmt list" where
  "take_three =
     [AllocBuffer 1, AssertFree 2, FillPrint 1 ''buf1'', AllocBuffer 2, AssertFree 1, FillPrint 2 ''buf2'',
      AllocBuffer 3, AssertFree 0, FillPrint 3 ''buf3'']"

definition mm_test_stmts :: "mm_stmt list" where
  "mm_test_stmts =
     AssertFree 3 # take_three @
     [ForEachPrint, AddToAll 3, AddToAll 2, AddToAll 1, ForEachPrint, DelFromAll 3, DelFromAll 2, DelFromAll 1, ForEachPrint,
      FreeBuffer 1, FreeBuffer 2, FreeBuffer 3] @ take_three"

text \<open>The result: the output, with whether an assertion stopped the program.\<close>

definition mm_test_main :: "(nat \<Rightarrow> string) \<Rightarrow> t_mm_manager option \<Rightarrow> bool \<Rightarrow> (bool \<times> string) option" where
  "mm_test_main addr mgr mem_ok =
     (case create_buffer_manager mgr mem_ok 128 3 of
        None \<Rightarrow> Some (True, [])
      | Some m \<Rightarrow>
          (case mm_exec_all addr mm_test_stmts \<lparr>mt_hd = m, mt_ptr = (\<lambda>_. WildPtr), mt_buf = (\<lambda>_. []), mt_out = []\<rparr> of
             None \<Rightarrow> None
           | Some (Inl out) \<Rightarrow> Some (True, out)
           | Some (Inr s) \<Rightarrow> Some (False, mt_out s)))"

section \<open>\<open>netlink_test.c\<close>\<close>

definition INPUT_BUF_LEN :: nat where "INPUT_BUF_LEN = 1024 * 1024"

text \<open>Numbers of \<open>n\<close> bytes in the byte order of the machine, the lowest first.\<close>

fun le_num :: "u8 list \<Rightarrow> nat \<Rightarrow> nat \<Rightarrow> nat" where
  "le_num buf off 0 = 0"
| "le_num buf off (Suc n) = unat (buf ! off) + 256 * le_num buf (Suc off) n"

definition as_int :: "nat \<Rightarrow> int" where
  "as_int n = sint (of_nat n :: u32)"

text \<open>\<open>line\<close> is the number the compiler gives a macro call of several lines.\<close>

definition net_link_msg_proc :: "string \<Rightarrow> nat \<Rightarrow> u8 list \<Rightarrow> int \<Rightarrow> string" where
  "net_link_msg_proc file line buf len =
     DBG_PRINT file line ''net_link_msg_proc''
       (''got a msg, len='' @ show_int len @ [LF] @
        ''nlmsg_len = '' @ show_int (as_int (le_num buf 0 4)) @ [LF] @
        ''nlmsg_type = '' @ show_int (as_int (le_num buf 4 2)) @ [LF] @
        ''nlmsg_flags = '' @ show_int (as_int (le_num buf 6 2)) @ [LF] @
        ''nlmsg_seq = '' @ show_int (as_int (le_num buf 8 4)) @ [LF] @
        ''nlmsg_pid = '' @ show_int (as_int (le_num buf 12 4)) @ [LF])"

text \<open>One turn of the loop: what \<open>fd_readable\<close> and \<open>read\<close> answer.\<close>

datatype netlink_turn = NotReadable | ReadFails string | ReadBytes "u8 list"

fun netlink_turn_proc :: "string \<Rightarrow> nat \<Rightarrow> netlink_turn \<Rightarrow> u8 list \<times> string \<Rightarrow> u8 list \<times> string" where
  "netlink_turn_proc file line NotReadable (input, out) = (input, out)"
| "netlink_turn_proc file line (ReadFails err) (input, out) =
     (input, out @ ERR_DBG_PRINT file 69 ''event_proc_loop'' ''read failed'' err)"
| "netlink_turn_proc file line (ReadBytes bs) (input, out) =
     (let got = take INPUT_BUF_LEN bs; input = got @ drop (length got) input
      in if length got > 0 then (input, out @ net_link_msg_proc file line input (int (length got))) else (input, out))"

definition event_proc_loop :: "string \<Rightarrow> nat \<Rightarrow> netlink_turn list \<Rightarrow> u8 list \<Rightarrow> u8 list \<times> string" where
  "event_proc_loop file line turns input = fold (netlink_turn_proc file line) turns (input, [])"

text \<open>\<open>create_netlink_socket\<close>: the answers of \<open>socket\<close> and \<open>bind\<close>, with the text of the error; the right side is the
  descriptor.\<close>

definition create_netlink_socket :: "string \<Rightarrow> int \<Rightarrow> int \<Rightarrow> string \<Rightarrow> string + int" where
  "create_netlink_socket file sock bound err =
     (if sock < 0 then Inl (ERR_DBG_PRINT file 93 ''create_netlink_socket'' ''create netlink socket failed:'' err)
      else if bound < 0 then Inl (ERR_DBG_PRINT file 97 ''create_netlink_socket'' ''bind socket failed:'' err)
      else Inr sock)"

definition netlink_test_main :: "string \<Rightarrow> nat \<Rightarrow> int \<Rightarrow> int \<Rightarrow> string \<Rightarrow> netlink_turn list \<Rightarrow> u8 list \<Rightarrow> string" where
  "netlink_test_main file line sock bound err turns input =
     (case create_netlink_socket file sock bound err of
        Inl text \<Rightarrow> text
      | Inr fd \<Rightarrow> snd (event_proc_loop file line turns input))"

section \<open>Lemmas: options\<close>

text \<open>The last of the events with one of the letters.\<close>

definition last_event :: "nat set \<Rightarrow> opt_event list \<Rightarrow> opt_event option" where
  "last_event ks evs = List.find (\<lambda>ev. fst ev \<in> ks) (rev evs)"

definition given :: "nat set \<Rightarrow> opt_event list \<Rightarrow> int" where
  "given ks evs = (if last_event ks evs = None then 0 else 1)"

definition last_number :: "nat set \<Rightarrow> opt_event list \<Rightarrow> int" where
  "last_number ks evs = (case last_event ks evs of None \<Rightarrow> 0 | Some ev \<Rightarrow> atoi (the (snd ev)))"

definition last_string :: "nat set \<Rightarrow> opt_event list \<Rightarrow> string option" where
  "last_string ks evs = (case last_event ks evs of None \<Rightarrow> None | Some ev \<Rightarrow> snd ev)"

lemma last_event_snoc: "last_event ks (evs @ [ev]) = (if fst ev \<in> ks then Some ev else last_event ks evs)"
  by (simp add: last_event_def)

lemma last_event_Nil: "last_event ks [] = None" by (simp add: last_event_def)

lemmas last_simps = given_def last_number_def last_string_def last_event_snoc last_event_Nil

abbreviation ch :: "char \<Rightarrow> nat" where "ch c \<equiv> of_char c"

definition short_keys :: "nat set" where
  "short_keys = {ch (CHR ''i''), ch (CHR ''I''), ch (CHR ''n''), ch (CHR ''s''), ch (CHR ''d'')}"

definition full_keys :: "nat set" where
  "full_keys = {LONG_OPT_A_ID, LONG_OPT_B_ID, LONG_OPT_C_ID} \<union> short_keys"

definition complaints :: "nat set \<Rightarrow> string \<Rightarrow> opt_event list \<Rightarrow> string" where
  "complaints ks usage evs = concat (map (\<lambda>_. usage) (filter (\<lambda>ev. fst ev \<notin> ks) evs))"

lemma complaints_snoc: "complaints ks usage (evs @ [ev]) = complaints ks usage evs @ (if fst ev \<in> ks then [] else usage)"
  by (simp add: complaints_def)

definition args_result :: "nat set \<Rightarrow> string \<Rightarrow> opt_event list \<Rightarrow> test_args" where
  "args_result ks usage evs =
     \<lparr>enable_opt_i = given {ch (CHR ''i''), ch (CHR ''I'')} evs, enable_opt_d = given {ch (CHR ''d'')} evs,
      int_para_n = last_number {ch (CHR ''n'')} evs, str_para_s = last_string {ch (CHR ''s'')} evs,
      enable_long_opt_a = given (ks \<inter> {LONG_OPT_A_ID}) evs, long_int_para_b = last_number (ks \<inter> {LONG_OPT_B_ID}) evs,
      long_str_para_c = last_string (ks \<inter> {LONG_OPT_C_ID}) evs, args_out = complaints ks usage evs\<rparr>"

lemmas opt_ids = LONG_OPT_A_ID_def LONG_OPT_B_ID_def LONG_OPT_C_ID_def

lemma short_no_long: "short_keys \<inter> {LONG_OPT_A_ID} = {}" "short_keys \<inter> {LONG_OPT_B_ID} = {}" "short_keys \<inter> {LONG_OPT_C_ID} = {}"
  by (simp_all add: short_keys_def opt_ids)

lemma full_long: "full_keys \<inter> {LONG_OPT_A_ID} = {LONG_OPT_A_ID}" "full_keys \<inter> {LONG_OPT_B_ID} = {LONG_OPT_B_ID}"
  "full_keys \<inter> {LONG_OPT_C_ID} = {LONG_OPT_C_ID}"
  by (simp_all add: full_keys_def)

lemma args_case_result: "args_case usage ev (args_result short_keys usage evs) = args_result short_keys usage (evs @ [ev])"
  by (simp add: args_case_def args_result_def last_simps complaints_snoc short_no_long Let_def)
    (simp add: short_keys_def)

lemma args_full_case_result:
  "args_full_case usage ev (args_result full_keys usage evs) = args_result full_keys usage (evs @ [ev])"
proof (cases "fst ev \<in> {LONG_OPT_A_ID, LONG_OPT_B_ID, LONG_OPT_C_ID}")
  case True
  then have "fst ev \<notin> short_keys" "fst ev \<in> full_keys" by (auto simp: short_keys_def full_keys_def opt_ids)
  with True show ?thesis
    by (auto simp: args_full_case_def args_result_def last_simps complaints_snoc full_long short_keys_def Let_def opt_ids)
next
  case False
  then have "fst ev \<in> full_keys \<longleftrightarrow> fst ev \<in> short_keys" by (simp add: full_keys_def)
  with False show ?thesis
    by (simp add: args_full_case_def args_case_def args_result_def last_simps complaints_snoc full_long Let_def)
      (simp add: short_keys_def)
qed

lemma fold_snoc_result:
  assumes "\<And>ev evs. step ev (res evs) = res (evs @ [ev])"
  shows "fold step evs (res evs0) = res (evs0 @ evs)"
  by (induction evs arbitrary: evs0) (simp_all add: assms)

lemma args_result_Nil: "args_result ks usage [] = no_test_args"
  by (simp add: args_result_def no_test_args_def last_simps complaints_def)

section \<open>Lemmas: the buffer test\<close>

record mm_abs =
  ab_free :: "nat list"
  ab_all :: "nat list"
  ab_ptr :: "nat \<Rightarrow> nat option"
  ab_buf :: "nat \<Rightarrow> string"
  ab_out :: string

text \<open>The same program on two lists of buffers; \<open>None\<close> where it would not be allowed.\<close>

fun abs_exec :: "(nat \<Rightarrow> string) \<Rightarrow> mm_stmt \<Rightarrow> mm_abs \<Rightarrow> mm_abs option" where
  "abs_exec addr (AllocBuffer v) a =
     (case ab_free a of [] \<Rightarrow> None | b # fs \<Rightarrow> Some (a\<lparr>ab_free := fs, ab_ptr := (ab_ptr a)(v := Some b)\<rparr>))"
| "abs_exec addr (FreeBuffer v) a =
     (case ab_ptr a v of None \<Rightarrow> None
      | Some b \<Rightarrow> if b < 3 \<and> b \<notin> set (ab_free a) then Some (a\<lparr>ab_free := ab_free a @ [b]\<rparr>) else None)"
| "abs_exec addr (AssertFree n) a = (if unat n = length (ab_free a) then Some a else None)"
| "abs_exec addr (FillPrint v text) a =
     (case ab_ptr a v of None \<Rightarrow> None
      | Some b \<Rightarrow> if 128 \<le> length text then None
          else Some (a\<lparr>ab_buf := (ab_buf a)(b := text), ab_out := ab_out a @ text @ ''='' @ addr b @ '' : '' @ text @ [LF]\<rparr>))"
| "abs_exec addr ForEachPrint a =
     Some (a\<lparr>ab_out := ab_out a @ concat (map (\<lambda>b. ''buf contents: '' @ ab_buf a b @ [LF]) (ab_all a))\<rparr>)"
| "abs_exec addr (AddToAll v) a =
     (case ab_ptr a v of None \<Rightarrow> None
      | Some b \<Rightarrow> if b < 3 \<and> b \<notin> set (ab_all a) then Some (a\<lparr>ab_all := ab_all a @ [b]\<rparr>) else None)"
| "abs_exec addr (DelFromAll v) a =
     (case ab_ptr a v of None \<Rightarrow> None
      | Some b \<Rightarrow> if b \<in> set (ab_all a) then Some (a\<lparr>ab_all := remove1 b (ab_all a)\<rparr>) else None)"

fun abs_exec_all :: "(nat \<Rightarrow> string) \<Rightarrow> mm_stmt list \<Rightarrow> mm_abs \<Rightarrow> mm_abs option" where
  "abs_exec_all addr [] a = Some a"
| "abs_exec_all addr (c # cs) a = Option.bind (abs_exec addr c a) (abs_exec_all addr cs)"

definition mt_refines :: "mm_abs \<Rightarrow> mm_test \<Rightarrow> bool" where
  "mt_refines a s \<longleftrightarrow> mm_ok 3 (mt_hd s) (ab_free a) (ab_all a) \<and>
     (\<forall>v b. ab_ptr a v = Some b \<longrightarrow> mt_ptr s v = Buf b) \<and> mt_buf s = ab_buf a \<and> mt_out s = ab_out a"

lemma print_bufs:
  "fold_until (\<lambda>b. print_buf bufs (Buf b)) as (Some out) =
     Some (out @ concat (map (\<lambda>b. ''buf contents: '' @ bufs b @ [LF]) as))"
  by (induction as arbitrary: out) simp_all

lemma for_each_print:
  assumes "mm_ok 3 m fs as"
  shows "for_each_buf_in_all_link (print_buf bufs) m (Some out) =
     Some (Some (out @ concat (map (\<lambda>b. ''buf contents: '' @ bufs b @ [LF]) as)))"
proof -
  have l: "is_list (links m) AllHead (map LinkAll as)"
    using assms list_store_rep unfolding mm_ok_def mm_lists_def by fastforce
  have "fold_until (\<lambda>pos. print_buf bufs (buffer_of_all pos)) (map LinkAll as) s = fold_until (\<lambda>b. print_buf bufs (Buf b)) as s" for s
    by (induction as arbitrary: s) (auto split: prod.splits)
  with print_bufs show ?thesis by (simp add: for_each_buf_in_all_link_def list_for_each_eq[OF l])
qed

lemma mm_exec_refines:
  assumes "mt_refines a s" "abs_exec addr c a = Some a'"
  shows "\<exists>s'. mm_exec addr c s = Some (Inr s') \<and> mt_refines a' s'"
proof -
  have ok: "mm_ok 3 (mt_hd s) (ab_free a) (ab_all a)" and p: "\<And>v b. ab_ptr a v = Some b \<Longrightarrow> mt_ptr s v = Buf b"
    and bo: "mt_buf s = ab_buf a" "mt_out s = ab_out a"
    using assms(1) by (auto simp: mt_refines_def)
  show ?thesis
  proof (cases c)
    case (AllocBuffer v)
    with assms(2) obtain b fs where f: "ab_free a = b # fs" "a' = a\<lparr>ab_free := fs, ab_ptr := (ab_ptr a)(v := Some b)\<rparr>"
      by (auto split: list.splits)
    from mm_ok_alloc_some[OF ok[unfolded f(1)]] show ?thesis using AllocBuffer f p bo by (auto simp: mt_refines_def)
  next
    case (FreeBuffer v)
    with assms(2) obtain b where f: "ab_ptr a v = Some b" "b < 3" "b \<notin> set (ab_free a)" "a' = a\<lparr>ab_free := ab_free a @ [b]\<rparr>"
      by (auto split: option.splits if_splits)
    from mm_ok_free[OF ok f(2,3)] show ?thesis using FreeBuffer f p bo by (auto simp: mt_refines_def)
  next
    case (AssertFree n)
    with assms(2) have "unat n = length (ab_free a)" "a' = a" by (auto split: if_splits)
    moreover from this(1) have "n = buffer_num_free (mt_hd s)" using ok by (simp add: mm_ok_def word_unat_eq_iff)
    ultimately show ?thesis using AssertFree assms(1) by (simp add: free_buffer_num_def)
  next
    case (FillPrint v tx)
    with assms(2) show ?thesis using ok p bo by (auto simp: mt_refines_def split: option.splits if_splits)
  next
    case ForEachPrint
    with assms(2) show ?thesis using ok p bo for_each_print[OF ok] by (auto simp: mt_refines_def)
  next
    case (AddToAll v)
    with assms(2) obtain b where f: "ab_ptr a v = Some b" "b < 3" "b \<notin> set (ab_all a)" "a' = a\<lparr>ab_all := ab_all a @ [b]\<rparr>"
      by (auto split: option.splits if_splits)
    from mm_ok_all_add[OF ok f(2,3)] show ?thesis using AddToAll f p bo by (auto simp: mt_refines_def)
  next
    case (DelFromAll v)
    with assms(2) obtain b where f: "ab_ptr a v = Some b" "b \<in> set (ab_all a)" "a' = a\<lparr>ab_all := remove1 b (ab_all a)\<rparr>"
      by (auto split: option.splits if_splits)
    from mm_ok_all_del[OF ok f(2)] show ?thesis using DelFromAll f p bo by (auto simp: mt_refines_def)
  qed
qed

lemma mm_exec_all_refines:
  "mt_refines a s \<Longrightarrow> abs_exec_all addr cs a = Some a' \<Longrightarrow> \<exists>s'. mm_exec_all addr cs s = Some (Inr s') \<and> mt_refines a' s'"
proof (induction cs arbitrary: a s)
  case (Cons c cs)
  then obtain a1 where a1: "abs_exec addr c a = Some a1" "abs_exec_all addr cs a1 = Some a'" by (auto split: bind_splits)
  from mm_exec_refines[OF Cons.prems(1) a1(1)] obtain s1 where "mm_exec addr c s = Some (Inr s1)" "mt_refines a1 s1" by blast
  with Cons.IH[OF _ a1(2)] show ?case by simp
qed simp

definition fill_lines :: "(nat \<Rightarrow> string) \<Rightarrow> string" where
  "fill_lines addr =
     ''buf1='' @ addr 0 @ '' : buf1'' @ [LF] @ ''buf2='' @ addr 1 @ '' : buf2'' @ [LF] @ ''buf3='' @ addr 2 @ '' : buf3'' @ [LF]"

definition mm_test_text :: "(nat \<Rightarrow> string) \<Rightarrow> string" where
  "mm_test_text addr =
     fill_lines addr @ ''buf contents: buf3'' @ [LF] @ ''buf contents: buf2'' @ [LF] @ ''buf contents: buf1'' @ [LF] @ fill_lines addr"

lemma mm_test_abs:
  "map_option ab_out (abs_exec_all addr mm_test_stmts
     \<lparr>ab_free = [0, 1, 2], ab_all = [], ab_ptr = (\<lambda>_. None), ab_buf = (\<lambda>_. []), ab_out = []\<rparr>) = Some (mm_test_text addr)"
  by (simp add: mm_test_stmts_def take_three_def mm_test_text_def fill_lines_def)

section \<open>Lemmas: queue and measurement\<close>

lemma enq_all_room:
  "que_ok q cap xs \<Longrightarrow> length xs + length ps \<le> cap \<Longrightarrow>
     \<exists>q'. enq_all ps q = Some (Inr q') \<and> que_ok q' cap (xs @ map (\<lambda>p. (p, 0, 0)) ps)"
proof (induction ps arbitrary: q xs)
  case (Cons p ps)
  from pc_que.enq_room[OF Cons.prems(1), of "(p, 0, 0)"] Cons.prems(2)
  obtain q1 where q1: "que_enq (p, 0, 0) q = Some (True, q1)" "que_ok q1 cap (xs @ [(p, 0, 0)])" by auto
  then have "pc_que_enq_try p 0 0 q = Some (0, q1)" by (auto simp: que_enq_def)
  with Cons.IH[OF q1(2)] Cons.prems(2) show ?case by simp
qed auto

lemma deref_addr:
  assumes "inj_on addr {..<5}" "i < 5"
  shows "deref addr (addr i) = Some i"
  unfolding deref_def using assms by (subst find_Some_iff_unique) (auto dest: inj_onD)

definition value_lines :: "string \<Rightarrow> nat list \<Rightarrow> string" where
  "value_lines file js = concat (map (\<lambda>i. DBG_PRINT file 30 ''main'' (''value='' @ show_dec i)) js)"

lemma outq_all_values:
  assumes "inj_on addr {..<5}"
  shows "que_ok q cap (map (\<lambda>i. (addr i, 0, 0)) js) \<Longrightarrow> set js \<subseteq> {..<5} \<Longrightarrow>
     outq_all file addr js q = Some (Inr (value_lines file js))"
proof (induction js arbitrary: q)
  case (Cons i js)
  from Cons.prems(1) have "que_ok q cap ((addr i, 0, 0) # map (\<lambda>i. (addr i, 0, 0)) js)" by simp
  from pc_que.deq_item[OF this] obtain q1 where
    q1: "que_deq q = Some (Some (addr i, 0, 0), q1)" "que_ok q1 cap (map (\<lambda>i. (addr i, 0, 0)) js)" by blast
  from q1(1) obtain x where "pc_que_outq_try q = Some ((addr i, x), q1)" by (auto simp: que_deq_def)
  with Cons.IH[OF q1(2)] Cons.prems(2) deref_addr[OF assms, of i] show ?case by (simp add: value_lines_def)
qed (simp add: value_lines_def)

lemma timed_calls_runs:
  "measure_runs var runs s = Some s' \<Longrightarrow>
     timed_calls tx var runs (s, out) = Some (s', out @ concat (replicate (length runs) tx))"
  by (induction tx var runs "(s, out)" arbitrary: s out rule: timed_calls.induct) (auto split: bind_splits)

section \<open>Properties\<close>

text \<open>What the two command line programs know after any command line: an option counts as given wherever it stands, of
  several numbers or strings the last one counts, and each word that is no option of the program costs one line
  of usage, without ending it.\<close>

theorem test_args_values:
  "test_parse_args argv = args_result short_keys (args_usage (hd argv)) (getopt ''iIn:s:d'' argv) \<and>
   test_parse_args_full argv =
     args_result full_keys (args_full_usage (hd argv)) (getopt_long ''iIn:s:d'' test_options argv)"
  using fold_snoc_result[where res = "args_result short_keys (args_usage (hd argv))" and ?evs0.0 = "[]", OF args_case_result]
    fold_snoc_result[where res = "args_result full_keys (args_full_usage (hd argv))" and ?evs0.0 = "[]", OF args_full_case_result]
  by (simp add: test_parse_args_def test_parse_args_full_def args_result_Nil)

text \<open>The long options written out are printed as they were given.\<close>

theorem long_args_roundtrip:
  assumes "- (2 ^ 31) \<le> n" "n < 2 ^ 31"
  shows "parse_args_full_test_main [prog, ''--opt_c='' @ s, ''--opt_b='' @ show_int n, ''--opt_a''] =
    ''enable_opt_i = 0'' @ [LF] @ ''enable_opt_d = 0'' @ [LF] @ ''int_para_n   = 0'' @ [LF] @ ''str_para_s   = (null)'' @ [LF] @
    ''enable_long_opt_a = 1'' @ [LF] @ ''long_int_para_b   = '' @ show_int n @ [LF] @ ''long_str_para_c   = '' @ s @ [LF]"
proof -
  let ?o = "\<lambda>k r v. \<lparr>opt_name = k, opt_has_arg = r, opt_val = v\<rparr>"
  let ?pas = "[(?o ''opt_c'' required_argument LONG_OPT_C_ID, Some s), (?o ''opt_b'' required_argument LONG_OPT_B_ID, Some (show_int n)),
    (?o ''opt_a'' no_argument LONG_OPT_A_ID, None)]"
  have "options_ok test_options" by (simp add: options_ok_def test_options_def)
  then have "getopt_long ''iIn:s:d'' test_options (prog # map (\<lambda>(p, arg). long_word p arg) ?pas) =
      map (\<lambda>(p, arg). (opt_val p, arg)) ?pas"
    by (rule getopt_long_words) (simp add: test_options_def arg_fits_def)
  then have g: "getopt_long ''iIn:s:d'' test_options [prog, ''--opt_c='' @ s, ''--opt_b='' @ show_int n, ''--opt_a''] =
      [(LONG_OPT_C_ID, Some s), (LONG_OPT_B_ID, Some (show_int n)), (LONG_OPT_A_ID, None)]"
    by (simp add: long_word_def)
  have "atoi (show_int n) = n" using atoi_show_int[of "[]", OF _ assms] by simp
  moreover have "show_int 0 = ''0''" "show_int 1 = ''1''" by code_simp+
  ultimately show ?thesis
    unfolding parse_args_full_test_main_def test_parse_args_full_def g
    by (simp add: args_full_case_def no_test_args_def args_lines_def show_str_def opt_ids)
qed

theorem long_args_roundtrip_witness:
  "parse_args_full_test_main [''p'', ''--opt_c='' @ ''x'', ''--opt_b='' @ show_int (- 5), ''--opt_a''] =
    ''enable_opt_i = 0'' @ [LF] @ ''enable_opt_d = 0'' @ [LF] @ ''int_para_n   = 0'' @ [LF] @ ''str_para_s   = (null)'' @ [LF] @
    ''enable_long_opt_a = 1'' @ [LF] @ ''long_int_para_b   = '' @ show_int (- 5) @ [LF] @ ''long_str_para_c   = '' @ ''x'' @ [LF]"
  by (rule long_args_roundtrip) simp_all

text \<open>The queue test prints the five values in order, wherever the array lies, and fails its assertion only without memory.\<close>

theorem pc_queue_test_passes:
  assumes "inj_on addr {..<5}"
  shows "pc_queue_test_main file addr mem_ok = Some (if mem_ok then Inr (value_lines file [0, 1, 2, 3, 4]) else Inl ())"
proof (cases mem_ok)
  case True
  have u: "[0..<5] = [0, 1, 2, 3, 4 :: nat]" by (simp add: upt_rec)
  have len: "(0 :: nat) < unat (16 :: u32)" "48 + unat (16 :: u32) * 32 < 2 ^ 31" by simp_all
  from create_pc_que_ok[OF len] obtain q where q: "create_pc_que True 16 = Some (Some q)" "que_ok q 16 []" by auto
  from enq_all_room[OF q(2), of "map addr [0..<5]"] obtain q1 where
    q1: "enq_all (map addr [0..<5]) q = Some (Inr q1)" "que_ok q1 16 (map (\<lambda>i. (addr i, 0, 0)) [0..<5])"
    by (auto simp: comp_def)
  have "outq_all file addr [0..<5] q1 = Some (Inr (value_lines file [0..<5]))"
    by (rule outq_all_values[OF assms q1(2)]) auto
  with True q(1) q1(1) show ?thesis by (simp add: pc_queue_test_main_def u)
qed (simp add: pc_queue_test_main_def create_pc_que_def Let_def)

theorem pc_queue_test_passes_witness:
  "pc_queue_test_main ''t.c'' (\<lambda>i. 4096 + 4 * of_nat i) True = Some (Inr (value_lines ''t.c'' [0, 1, 2, 3, 4]))"
proof -
  have "inj_on (\<lambda>i. 4096 + 4 * of_nat i :: u64) {..<5}"
  proof -
    have "{..<5} = {0, 1, 2, 3, 4 :: nat}" by auto
    then show ?thesis by (simp add: inj_on_def)
  qed
  from pc_queue_test_passes[OF this] show ?thesis by simp
qed

text \<open>The buffer test runs through all its assertions exactly when the memory of the manager happens to be zero at the counter,
  which \<open>create_buffer_manager\<close> does not set; otherwise it stops at the second one, before anything is printed.\<close>

theorem mm_test_needs_zero_memory:
  "mm_test_main addr mgr mem_ok =
     (case mgr of
        None \<Rightarrow> Some (True, [])
      | Some junk \<Rightarrow> Some (if mem_ok \<and> buffer_num_free junk = 0 then (False, mm_test_text addr) else (True, [])))"
proof (cases "mgr = None \<or> \<not> mem_ok")
  case True
  then show ?thesis by (auto simp: mm_test_main_def create_buffer_manager_def split: option.split)
next
  case False
  then obtain junk where g: "mgr = Some junk" "mem_ok" by auto
  obtain m where m: "create_buffer_manager (Some junk) True 128 3 = Some m"
    by (simp add: create_buffer_manager_def Let_def)
  have u: "[0..<nat 3] = [0, 1, 2 :: nat]" by (simp add: upt_rec eval_nat_numeral)
  from create_buffer_manager_lists[OF m] have l: "mm_lists m [0, 1, 2] []" "buffer_num_free m = buffer_num_free junk + 3"
    unfolding u by simp_all
  let ?s = "\<lparr>mt_hd = m, mt_ptr = (\<lambda>_. WildPtr), mt_buf = (\<lambda>_. []), mt_out = []\<rparr>"
  let ?a = "\<lparr>ab_free = [0, 1, 2], ab_all = [], ab_ptr = (\<lambda>_. None), ab_buf = (\<lambda>_. []), ab_out = []\<rparr>"
  show ?thesis
  proof (cases "buffer_num_free junk = 0")
    case True
    then have "mt_refines ?a ?s" using l by (simp add: mt_refines_def mm_ok_def)
    moreover obtain a' where a': "abs_exec_all addr mm_test_stmts ?a = Some a'" "ab_out a' = mm_test_text addr"
      using mm_test_abs[of addr] by auto
    ultimately obtain s' where "mm_exec_all addr mm_test_stmts ?s = Some (Inr s')" "mt_refines a' s'"
      using mm_exec_all_refines by blast
    with True g m a'(2) show ?thesis by (simp add: mm_test_main_def mt_refines_def)
  next
    case False
    then have "free_buffer_num m \<noteq> 3" using l(2) by (simp add: free_buffer_num_def)
    with False g m show ?thesis by (simp add: mm_test_main_def mm_test_stmts_def)
  qed
qed

lemma test_config_answers:
  "map_option fst (config_file_test_main True 0 (Some f) (Some g) fs) = Some (''abc=(null)'' @ [LF])"
  "map_option fst (config_file_test_main True 1 (Some f) (Some g) fs) = Some (''abc=(null)'' @ [LF])"
  "map_option fst (config_file_test_main True 2 (Some f) (Some g) fs) = Some (''abc=(null)'' @ [LF])"
  "map_option fst (config_file_test_main True 3 (Some f) (Some g) fs) = Some (''abc=(null)'' @ [LF])"
  "map_option fst (config_file_test_main True 4 (Some f) (Some g) fs) = Some (''abc=(null)'' @ [LF])"
  "map_option fst (config_file_test_main True 5 (Some f) (Some g) fs) = Some (''abc=(null)'' @ [LF])"
  "map_option fst (config_file_test_main True 6 (Some f) (Some g) fs) = Some (''abc=(null)'' @ [LF])"
  "map_option fst (config_file_test_main True 7 (Some f) (Some g) fs) = Some (''abc=(null)'' @ [LF])"
  "map_option fst (config_file_test_main True 8 (Some f) (Some g) fs) = Some (''abc=(null)'' @ [LF])"
  "map_option fst (config_file_test_main True 9 (Some f) (Some g) fs) = Some (''abc=123'' @ [LF])"
  by code_simp+

text \<open>The configuration test prints the value when the whole line has reached the file; of a shorter line nothing is parsed.\<close>

theorem config_test_prints:
  "map_option fst (config_file_test_main True accepted (Some f) (Some g) fs) =
     Some (''abc='' @ (if 9 \<le> accepted then ''123'' else ''(null)'') @ [LF])"
proof (cases "9 \<le> accepted")
  case True
  then have "take accepted some_data = take 9 some_data" by (simp add: some_data_def)
  then have "config_file_test_main True accepted (Some f) (Some g) fs = config_file_test_main True 9 (Some f) (Some g) fs"
    unfolding config_file_test_main_def by simp
  with True test_config_answers(10)[of f g fs] show ?thesis by simp
next
  case False
  then have "accepted \<in> {0, 1, 2, 3, 4, 5, 6, 7, 8}" by auto
  with False show ?thesis using test_config_answers[of f g fs] by (elim insertE) simp_all
qed

text \<open>The measuring test: two functions, run five and three times; the report has their names in the order of their first
  use, the cycles and the averages.\<close>

theorem measure_test_prints:
  assumes "p1 \<noteq> p2" "length runs1 = 5" "length runs2 = 3"
  shows "measure_test_main True t1 t2 (Some p1) (Some p2) runs1 runs2 = Some (
    concat (replicate 5 (''f1 '' @ [LF])) @ concat (replicate 3 (''f2 '' @ [LF])) @
    ''cpu freq = '' @ show_dec (unat ((t2 - t1) div 1000000 * 1000000)) @ [LF] @
    ''f1 exec '' @ show_dec 5 @ '' times '' @ show_dec (unat (\<Sum>(b, e) \<leftarrow> runs1. e - b)) @ '' cycles in total '' @
      show_dec (unat (\<Sum>(b, e) \<leftarrow> runs1. e - b) div 5) @ '' cycles per time'' @ [LF] @
    ''f2 exec '' @ show_dec 3 @ '' times '' @ show_dec (unat (\<Sum>(b, e) \<leftarrow> runs2. e - b)) @ '' cycles in total '' @
      show_dec (unat (\<Sum>(b, e) \<leftarrow> runs2. e - b) div 3) @ '' cycles per time'' @ [LF])"
proof -
  let ?m = "\<lambda>name. \<lparr>ms_name = name, total_cnt = 0, total_cycles = 0, one_time_begin = 0, one_time_end = 0\<rparr>"
  let ?s = "\<lparr>objs = [p1 \<mapsto> ?m ''f1'', p2 \<mapsto> ?m ''f2''], g_pt_measures = [p1, p2], slots = Some 40,
     cpu_freq = (t2 - t1) div 1000000 * 1000000\<rparr>"
  have "objs ?s p1 = Some (?m ''f1'')" using assms(1) by simp
  from measure_runs_counts[OF this, of runs1] obtain b1 e1 where
    r1: "measure_runs (Some p1) runs1 ?s = Some (?s\<lparr>objs := (objs ?s)(p1 \<mapsto>
      (?m ''f1'')\<lparr>one_time_begin := b1, one_time_end := e1, total_cnt := 5, total_cycles := (\<Sum>(b, e) \<leftarrow> runs1. e - b)\<rparr>)\<rparr>)"
    (is "_ = Some ?s1") using assms(2) by auto
  have "objs ?s1 p2 = Some (?m ''f2'')" using assms(1) by simp
  from measure_runs_counts[OF this, of runs2] obtain b2 e2 where
    r2: "measure_runs (Some p2) runs2 ?s1 = Some (?s1\<lparr>objs := (objs ?s1)(p2 \<mapsto>
      (?m ''f2'')\<lparr>one_time_begin := b2, one_time_end := e2, total_cnt := 3, total_cycles := (\<Sum>(b, e) \<leftarrow> runs2. e - b)\<rparr>)\<rparr>)"
    (is "_ = Some ?s2") using assms(3) by auto
  have i: "init_measure True 2 t1 t2 no_measures =
      (0, \<lparr>objs = Map.empty, g_pt_measures = [], slots = Some 40, cpu_freq = (t2 - t1) div 1000000 * 1000000\<rparr>)"
    by (simp add: init_measure_def no_measures_def get_cpu_freq_def)
  have "test_perform (Some p1) (Some p2) runs1 runs2 (snd (init_measure True 2 t1 t2 no_measures)) =
      Some (?s2, concat (replicate 5 (''f1 '' @ [LF])) @ concat (replicate 3 (''f2 '' @ [LF])))"
    using timed_calls_runs[OF r1, of "''f1 '' @ [LF]" "[]"]
      timed_calls_runs[OF r2, of "''f2 '' @ [LF]" "concat (replicate 5 (''f1 '' @ [LF]))"] assms
    unfolding test_perform_def i by (simp add: INIT_TIME_MEASURE_def add_measure_def)
  moreover have "report_measure ?s2 = Some (''cpu freq = '' @ show_dec (unat (cpu_freq ?s2)) @ [LF] @
      concat [report_line (the (objs ?s2 p1)), report_line (the (objs ?s2 p2))])"
    using assms(1) by (simp add: report_measure_def)
  ultimately show ?thesis using assms(1)
    by (simp add: measure_test_main_def i report_line_def unat_div)
qed

theorem measure_test_prints_witness:
  "\<exists>out. measure_test_main True 100 3000100 (Some 7) (Some 8) (replicate 5 (10, 15)) (replicate 3 (1, 8)) = Some out"
  using measure_test_prints[of 7 8 "replicate 5 (10, 15)" "replicate 3 (1, 8)" 100 3000100] by simp

section \<open>Netlink messages\<close>

text \<open>The header of a message, and its sixteen bytes.\<close>

record nlmsghdr =
  nlmsg_len :: u32
  nlmsg_type :: u16
  nlmsg_flags :: u16
  nlmsg_seq :: u32
  nlmsg_pid :: u32

fun le_bytes :: "nat \<Rightarrow> nat \<Rightarrow> u8 list" where
  "le_bytes 0 v = []"
| "le_bytes (Suc n) v = of_nat v # le_bytes n (v div 256)"

definition nlmsg_bytes :: "nlmsghdr \<Rightarrow> u8 list" where
  "nlmsg_bytes h = le_bytes 4 (unat (nlmsg_len h)) @ le_bytes 2 (unat (nlmsg_type h)) @ le_bytes 2 (unat (nlmsg_flags h)) @
     le_bytes 4 (unat (nlmsg_seq h)) @ le_bytes 4 (unat (nlmsg_pid h))"

lemma length_le_bytes [simp]: "length (le_bytes n v) = n"
  by (induction n v rule: le_bytes.induct) simp_all

lemma length_nlmsg_bytes [simp]: "length (nlmsg_bytes h) = 16" by (simp add: nlmsg_bytes_def)

lemma le_num_le_bytes:
  "v < 256 ^ n \<Longrightarrow> length pre = off \<Longrightarrow> le_num (pre @ le_bytes n v @ post) off n = v"
proof (induction n v arbitrary: pre off rule: le_bytes.induct)
  case (2 n v)
  have "v div 256 < 256 ^ n" using "2.prems"(1) by (simp add: less_mult_imp_div_less mult.commute)
  from "2.IH"[OF this, of "pre @ [of_nat v]" "Suc off"] "2.prems"(2)
  have "le_num (pre @ le_bytes (Suc n) v @ post) (Suc off) n = v div 256" by simp
  moreover have "unat (of_nat v :: u8) = v mod 256" by (simp add: unat_of_nat)
  ultimately show ?case using "2.prems"(2) by (simp add: nth_append)
qed simp

definition nlmsg_text :: "string \<Rightarrow> nat \<Rightarrow> nat \<Rightarrow> nlmsghdr \<Rightarrow> string" where
  "nlmsg_text file line len h =
     DBG_PRINT file line ''net_link_msg_proc''
       (''got a msg, len='' @ show_dec len @ [LF] @ ''nlmsg_len = '' @ show_int (sint (nlmsg_len h)) @ [LF] @
        ''nlmsg_type = '' @ show_dec (unat (nlmsg_type h)) @ [LF] @ ''nlmsg_flags = '' @ show_dec (unat (nlmsg_flags h)) @ [LF] @
        ''nlmsg_seq = '' @ show_int (sint (nlmsg_seq h)) @ [LF] @ ''nlmsg_pid = '' @ show_int (sint (nlmsg_pid h)) @ [LF])"

lemma show_as_int16: "show_int (as_int (unat (w :: u16))) = show_dec (unat w)"
proof -
  have "uint w < 2 ^ 16" using unsigned_less[of w] by simp
  moreover have "- (2 ^ 31) \<le> uint w" by (rule order_trans[of _ 0]) simp_all
  ultimately have "signed_take_bit 31 (uint w) = uint w" by (intro signed_take_bit_int_eq_self) simp_all
  then have "sint (of_nat (unat w) :: u32) = int (unat w)"
    by (subst signed_of_nat) simp
  then show ?thesis by (simp add: as_int_def show_int_def)
qed

lemma net_link_msg_text: "net_link_msg_proc file line (nlmsg_bytes h @ rest) (int len) = nlmsg_text file line len h"
proof -
  have w: "unat (w :: u32) < 256 ^ 4" "unat (v :: u16) < 256 ^ 2" for w v using unsigned_less[of w] unsigned_less[of v] by simp_all
  have "le_num (nlmsg_bytes h @ rest) 0 4 = unat (nlmsg_len h)"
    using le_num_le_bytes[OF w(1), of "[]" 0] by (simp add: nlmsg_bytes_def)
  moreover have "le_num (nlmsg_bytes h @ rest) 4 2 = unat (nlmsg_type h)"
    using le_num_le_bytes[OF w(2), of "le_bytes 4 (unat (nlmsg_len h))" 4] by (simp add: nlmsg_bytes_def)
  moreover have "le_num (nlmsg_bytes h @ rest) 6 2 = unat (nlmsg_flags h)"
    using le_num_le_bytes[OF w(2), of "le_bytes 4 (unat (nlmsg_len h)) @ le_bytes 2 (unat (nlmsg_type h))" 6]
    by (simp add: nlmsg_bytes_def)
  moreover have "le_num (nlmsg_bytes h @ rest) 8 4 = unat (nlmsg_seq h)"
    using le_num_le_bytes[OF w(1), of "le_bytes 4 (unat (nlmsg_len h)) @ le_bytes 2 (unat (nlmsg_type h)) @ le_bytes 2 (unat (nlmsg_flags h))" 8]
    by (simp add: nlmsg_bytes_def)
  moreover have "le_num (nlmsg_bytes h @ rest) 12 4 = unat (nlmsg_pid h)"
    using le_num_le_bytes[OF w(1), of "le_bytes 4 (unat (nlmsg_len h)) @ le_bytes 2 (unat (nlmsg_type h)) @
        le_bytes 2 (unat (nlmsg_flags h)) @ le_bytes 4 (unat (nlmsg_seq h))" 12]
    by (simp add: nlmsg_bytes_def)
  ultimately show ?thesis
    unfolding net_link_msg_proc_def nlmsg_text_def by (simp only: show_as_int16) (simp add: as_int_def show_int_def)
qed

lemma read_header_turn:
  assumes "length rest + 16 \<le> INPUT_BUF_LEN"
  shows "netlink_turn_proc file line (ReadBytes (nlmsg_bytes h @ rest)) (input, out) =
    (nlmsg_bytes h @ rest @ drop (16 + length rest) input, out @ nlmsg_text file line (16 + length rest) h)"
proof -
  define bs where "bs = nlmsg_bytes h @ rest"
  have b: "take INPUT_BUF_LEN bs = bs" "length bs = 16 + length rest" using assms by (simp_all add: bs_def)
  have "net_link_msg_proc file line (bs @ drop (16 + length rest) input) (int (16 + length rest)) =
      nlmsg_text file line (16 + length rest) h"
    unfolding bs_def append_assoc by (rule net_link_msg_text)
  then show ?thesis unfolding bs_def[symmetric] append_assoc[symmetric]
    by (simp only: netlink_turn_proc.simps b Let_def) simp
qed

lemma turns_append: "fold (netlink_turn_proc file line) turns (input, out @ out') =
    map_prod id (\<lambda>t. out @ t) (fold (netlink_turn_proc file line) turns (input, out'))"
proof (induction turns arbitrary: input out')
  case (Cons t turns)
  then show ?case by (cases t) (simp_all add: Let_def)
qed simp

text \<open>Every datagram with at least a header is printed by the fields of its first header, in the order of arrival, however the
  program is interrupted by turns without data and failed reads; what follows in the datagram, further messages
  included, is not looked at.\<close>

theorem netlink_prints_headers:
  assumes "0 \<le> sock" "0 \<le> bound" "\<forall>(h, rest) \<in> set msgs. length rest + 16 \<le> INPUT_BUF_LEN"
  shows "netlink_test_main file line sock bound err (concat (map (\<lambda>(h, rest). [NotReadable, ReadBytes [], ReadBytes (nlmsg_bytes h @ rest)]) msgs)) input =
    concat (map (\<lambda>(h, rest). nlmsg_text file line (16 + length rest) h) msgs)"
proof -
  let ?turns = "\<lambda>ms. concat (map (\<lambda>(h, rest). [NotReadable, ReadBytes [], ReadBytes (nlmsg_bytes h @ rest)]) ms)"
  let ?txt = "\<lambda>ms. concat (map (\<lambda>(h, rest). nlmsg_text file line (16 + length rest) h) ms)"
  have "snd (fold (netlink_turn_proc file line) (?turns msgs) (input, [])) = ?txt msgs"
    using assms(3)
  proof (induction msgs arbitrary: input)
    case (Cons m msgs)
    obtain h rest where m: "m = (h, rest)" by (cases m)
    have le: "length rest + 16 \<le> INPUT_BUF_LEN" using Cons.prems m by simp
    let ?in = "nlmsg_bytes h @ rest @ drop (16 + length rest) input"
    have "fold (netlink_turn_proc file line) (?turns (m # msgs)) (input, []) =
        fold (netlink_turn_proc file line) (?turns msgs) (?in, nlmsg_text file line (16 + length rest) h @ [])"
      using read_header_turn[OF le] by (simp add: m Let_def)
    also have "snd \<dots> = nlmsg_text file line (16 + length rest) h @ ?txt msgs"
      unfolding turns_append using Cons by simp
    finally show ?case by (simp add: m)
  qed simp
  then show ?thesis using assms(1,2) by (simp add: netlink_test_main_def create_netlink_socket_def event_proc_loop_def)
qed

definition demo_header :: nlmsghdr where
  "demo_header = \<lparr>nlmsg_len = 32, nlmsg_type = 16, nlmsg_flags = 0, nlmsg_seq = 7, nlmsg_pid = 99\<rparr>"

theorem netlink_prints_headers_witness:
  "netlink_test_main ''t.c'' 51 3 0 [] [NotReadable, ReadBytes [], ReadBytes (nlmsg_bytes demo_header @ [1, 2])] [] =
    nlmsg_text ''t.c'' 51 18 demo_header"
  using netlink_prints_headers[of 3 0 "[(demo_header, [1, 2])]" "''t.c''" 51 "[]" "[]"] by (simp add: INPUT_BUF_LEN_def)

text \<open>The length is not checked: of a datagram of one byte the other fields are those of the datagram before.\<close>

theorem netlink_short_stale:
  "snd (event_proc_loop file line [ReadBytes (nlmsg_bytes h), ReadBytes [b]] []) =
     nlmsg_text file line 16 h @
     nlmsg_text file line 1 (h\<lparr>nlmsg_len := of_nat (unat b + 256 * (unat (nlmsg_len h) div 256))\<rparr>)"
proof -
  define v where "v = unat b + 256 * (unat (nlmsg_len h) div 256)"
  have b: "unat b < 256" using unsigned_less[of b] by simp
  have "unat (nlmsg_len h) < 2 ^ 32" using unsigned_less[of "nlmsg_len h"] by simp
  then have "unat (nlmsg_len h) div 256 < 16777216" by (intro less_mult_imp_div_less) simp
  with b have v: "v < 2 ^ 32" by (simp add: v_def)
  then have u: "unat (of_nat v :: u32) = v" by (intro unat_of_nat_small) simp
  have l4: "le_bytes 4 x = of_nat x # le_bytes 3 (x div 256)" for x
    using le_bytes.simps(2)[of 3 x] by (simp del: le_bytes.simps)
  have "v mod 256 = unat b" using b by (simp add: v_def)
  then have "unat (of_nat v :: u8) = unat b" unfolding unat_of_nat by simp
  then have "(of_nat v :: u8) = b" by (rule word_unat_eq_iff[THEN iffD2])
  moreover have "v div 256 = unat (nlmsg_len h) div 256" using b by (simp add: v_def)
  ultimately have "le_bytes 4 v = b # drop 1 (le_bytes 4 (unat (nlmsg_len h)))"
    using l4[of v] l4[of "unat (nlmsg_len h)"] by (simp del: le_bytes.simps)
  then have n: "nlmsg_bytes (h\<lparr>nlmsg_len := of_nat v\<rparr>) = b # drop 1 (nlmsg_bytes h)"
    by (simp add: nlmsg_bytes_def u)
  have le: "length ([] :: u8 list) + 16 \<le> INPUT_BUF_LEN" "take INPUT_BUF_LEN [b] = [b]" by (simp_all add: INPUT_BUF_LEN_def)
  have "netlink_turn_proc file line (ReadBytes [b]) (nlmsg_bytes h, out) =
      (nlmsg_bytes (h\<lparr>nlmsg_len := of_nat v\<rparr>), out @ nlmsg_text file line 1 (h\<lparr>nlmsg_len := of_nat v\<rparr>))" for out
    using net_link_msg_text[of "file" line "h\<lparr>nlmsg_len := of_nat v\<rparr>" "[]" 1] by (simp add: le(2) n Let_def)
  moreover have "netlink_turn_proc file line (ReadBytes (nlmsg_bytes h)) ([], []) = (nlmsg_bytes h, nlmsg_text file line 16 h)"
    using read_header_turn[OF le(1), of "file" line h "[]" "[]"] by simp
  ultimately show ?thesis unfolding v_def[symmetric] by (simp add: event_proc_loop_def)
qed

end
