(* ===== verification/TraceException.thy ===== *)
theory TraceException
  imports LibUtils SysUtils
begin

text \<open>
  \<open>libs/app_utils/src/trace_exception.c\<close>, the x86-64 variant: the handler of fatal signals, from the registers and
  the memory of the process to the text it prints. \<open>mapped\<close> tells which bytes of the memory can be read;
  \<open>None\<close> is a second fault in the handler, which kills the process, or output without an end.
\<close>

section \<open>Memory\<close>

text \<open>A word in memory, the least significant byte first.\<close>

definition word_at :: "vmem \<Rightarrow> u64 \<Rightarrow> u64" where
  "word_at m a = foldr (\<lambda>b w. ucast b + 256 * w) (bytes_from m a 8) 0"

definition bytes_mapped :: "(u64 \<Rightarrow> bool) \<Rightarrow> u64 \<Rightarrow> nat \<Rightarrow> bool" where
  "bytes_mapped mapped a n \<longleftrightarrow> list_all (\<lambda>i. mapped (a + of_nat i)) [0..<n]"

definition load_word :: "(u64 \<Rightarrow> bool) \<Rightarrow> vmem \<Rightarrow> u64 \<Rightarrow> u64 option" where
  "load_word mapped m a = (if bytes_mapped mapped a 8 then Some (word_at m a) else None)"

section \<open>Printing\<close>

text \<open>\<open>UL_FMT_STR\<close>.\<close>

definition show_ul :: "u64 \<Rightarrow> string" where
  "show_ul w = (let s = show_nat 16 (unat w) in ''0x'' @ replicate (16 - length s) (CHR ''0'') @ s)"

definition reg_names :: "string list" where
  "reg_names = [''R8'', ''R9'', ''R10'', ''R11'', ''R12'', ''R13'', ''R14'', ''R15'', ''RDI'', ''RSI'', ''RBP'', ''RBX'',
     ''RDX'', ''RAX'', ''RCX'', ''RSP'', ''RIP'', ''EFL'', ''CSGSFS'', ''ERR'', ''TRAPNO'', ''OLDMASK'', ''CR2'']"

text \<open>\<open>gregs\<close> are the 23 registers in the order of \<open>reg_names\<close>.\<close>

definition REG_BP_NO :: nat where "REG_BP_NO = 10"
definition REG_SP_NO :: nat where "REG_SP_NO = 15"
definition REG_PC_NO :: nat where "REG_PC_NO = 16"

definition print_gregs :: "u64 list \<Rightarrow> string" where
  "print_gregs gregs =
     ''value of general regs:'' @ [LF] @
     concat (map (\<lambda>i. (if i mod 4 = 0 then [LF] else []) @ pad_right 8 (reg_names ! i) @ ''='' @ show_ul (gregs ! i) @ ''    '')
       [0..<23]) @ [LF, LF, LF]"

text \<open>A null pointer is printed by \<open>%s\<close> as \<open>(null)\<close>; the offset is an \<open>unsigned int\<close>.\<close>

definition call_line :: "u64 \<Rightarrow> dl_info \<Rightarrow> string" where
  "call_line pc info =
     show_ul pc @ '' - '' @ (case dli_sname info of None \<Rightarrow> ''(null)'' | Some s \<Rightarrow> s) @ ''+'' @
     show_dec (unat (ucast (pc - dli_saddr info) :: u32)) @ '' ('' @ dli_fname info @ '')'' @ [LF]"

text \<open>The loop of \<open>print_call_links\<close>; \<open>look\<close> is \<open>addr2symbol_info\<close>.\<close>

partial_function (option) call_links_loop ::
    "(u64 \<Rightarrow> int \<times> dl_info) \<Rightarrow> (u64 \<Rightarrow> bool) \<Rightarrow> vmem \<Rightarrow> u64 \<Rightarrow> u64 \<Rightarrow> string option" where
  "call_links_loop look mapped m reg_bp reg_pc =
     (if reg_bp = 0 then Some []
      else if fst (look reg_pc) = 0 then Some []
      else if dli_sname (snd (look reg_pc)) = Some ''main'' then Some (call_line reg_pc (snd (look reg_pc)))
      else do {
        pc \<leftarrow> load_word mapped m (reg_bp + 8);
        bp \<leftarrow> load_word mapped m reg_bp;
        rest \<leftarrow> call_links_loop look mapped m bp pc;
        Some (call_line reg_pc (snd (look reg_pc)) @ rest) })"

definition print_call_links ::
    "(u64 \<Rightarrow> int \<times> dl_info) \<Rightarrow> (u64 \<Rightarrow> bool) \<Rightarrow> vmem \<Rightarrow> u64 \<Rightarrow> u64 \<Rightarrow> string option" where
  "print_call_links look mapped m reg_bp reg_pc =
     map_option (\<lambda>s. ''function call links:'' @ [LF] @ s @ [LF, LF, LF]) (call_links_loop look mapped m reg_bp reg_pc)"

definition print_stack_contents :: "(u64 \<Rightarrow> bool) \<Rightarrow> vmem \<Rightarrow> u64 \<Rightarrow> string option" where
  "print_stack_contents mapped m sp =
     (if bytes_mapped mapped sp 512 then Some (''stack contents:'' @ [LF] @ print_mem m sp 512 @ [LF, LF, LF]) else None)"

definition print_detailed_sig_info ::
    "(u64 \<Rightarrow> int \<times> dl_info) \<Rightarrow> (u64 \<Rightarrow> bool) \<Rightarrow> vmem \<Rightarrow> u64 \<Rightarrow> u64 list \<Rightarrow> string option" where
  "print_detailed_sig_info look mapped m si_addr gregs =
     (let reg_bp = gregs ! REG_BP_NO; reg_pc = gregs ! REG_PC_NO; reg_sp = gregs ! REG_SP_NO
      in do {
        links \<leftarrow> print_call_links look mapped m reg_bp reg_pc;
        stack \<leftarrow> print_stack_contents mapped m reg_sp;
        Some (''pc='' @ show_ul reg_pc @ '' access invalid mem addr='' @ show_ul si_addr @ [LF, LF, LF] @
          print_gregs gregs @ links @ stack) })"

section \<open>The handler\<close>

definition SIGILL :: nat where "SIGILL = 4"
definition SIGABRT :: nat where "SIGABRT = 6"
definition SIGSEGV :: nat where "SIGSEGV = 11"

definition sig_name :: "nat \<Rightarrow> string" where
  "sig_name sig_no =
     (if sig_no = SIGSEGV then ''SIGSEGV'' else if sig_no = SIGILL then ''SIGILL''
      else if sig_no = SIGABRT then ''SIGABRT'' else ''unknown'')"

text \<open>What \<open>get_self_path\<close> prints when it fails: the result of \<open>readlink\<close>.\<close>

definition self_path_complaint :: "string option \<Rightarrow> string" where
  "self_path_complaint link =
     (if fst (get_self_path link 1024) \<noteq> -1 then []
      else ''ret = '' @ show_int (case link of None \<Rightarrow> -1 | Some path \<Rightarrow> int (length (take 1024 path))))"

text \<open>The characters \<open>readlink\<close> has stored stay in the buffer when it is full: then no NUL ends them.\<close>

definition exceptionmy_handler ::
    "(u64 \<Rightarrow> int \<times> dl_info) \<Rightarrow> string option \<Rightarrow> (u64 \<Rightarrow> bool) \<Rightarrow> vmem \<Rightarrow> nat \<Rightarrow> u64 \<Rightarrow> u64 list \<Rightarrow> (string \<times> int) option" where
  "exceptionmy_handler look link mapped m sig_no si_addr gregs =
     (case link of
        Some path \<Rightarrow> if 1024 \<le> length path then None else Some path
      | None \<Rightarrow> Some []) \<bind> (\<lambda>prog_path.
      map_option (\<lambda>info.
        (self_path_complaint link @ [LF, LF, LF] @ ''***********************'' @ [LF] @ ''*******EXCEPTION*******'' @ [LF] @
         ''***********************'' @ [LF] @ ''[program]:'' @ prog_path @ [LF, LF] @
         ''received signal '' @ show_dec sig_no @ '' ('' @ sig_name sig_no @ '').'' @ [LF] @ ''The process will exit.'' @ [LF, LF] @
         info, 1))
       (print_detailed_sig_info look mapped m si_addr gregs))"

text \<open>\<open>handler\<close> is the address of \<open>exceptionmy_handler\<close>; the table is the one of \<open>signal_utils.c\<close>.\<close>

definition trace_exception_init :: "nat \<Rightarrow> (nat \<Rightarrow> sig_proc) \<Rightarrow> nat \<Rightarrow> sig_proc" where
  "trace_exception_init handler t = t(SIGSEGV := Proc handler, SIGILL := Proc handler, SIGABRT := Proc handler)"

section \<open>Frames\<close>

text \<open>What the loop prints of a chain of return addresses: as far as they have a symbol, and not beyond \<open>main\<close>.\<close>

definition is_main :: "(u64 \<Rightarrow> int \<times> dl_info) \<Rightarrow> u64 \<Rightarrow> bool" where
  "is_main look pc \<longleftrightarrow> dli_sname (snd (look pc)) = Some ''main''"

fun up_to_main :: "(u64 \<Rightarrow> int \<times> dl_info) \<Rightarrow> u64 list \<Rightarrow> u64 list" where
  "up_to_main look [] = []"
| "up_to_main look (pc # pcs) = (if is_main look pc then [pc] else pc # up_to_main look pcs)"

definition with_symbol :: "(u64 \<Rightarrow> int \<times> dl_info) \<Rightarrow> u64 list \<Rightarrow> u64 list" where
  "with_symbol look = takeWhile (\<lambda>pc. fst (look pc) \<noteq> 0)"

fun frames_mapped :: "(u64 \<Rightarrow> bool) \<Rightarrow> vmem \<Rightarrow> u64 \<Rightarrow> nat \<Rightarrow> bool" where
  "frames_mapped mapped m bp 0 \<longleftrightarrow> bytes_mapped mapped (bp + 8) 8 \<and> bytes_mapped mapped bp 8"
| "frames_mapped mapped m bp (Suc n) \<longleftrightarrow> bytes_mapped mapped (bp + 8) 8 \<and> bytes_mapped mapped bp 8 \<and>
     frames_mapped mapped m (word_at m bp) n"

lemma frames_mapped_load:
  "frames_mapped mapped m bp n \<Longrightarrow> load_word mapped m bp = Some (word_at m bp) \<and>
     load_word mapped m (bp + 8) = Some (word_at m (bp + 8))"
  by (cases n) (simp_all add: load_word_def)

lemma call_links_loop_frames:
  assumes "frames (word_at m) bp rs" "bp \<noteq> 0" "frames_mapped mapped m bp (length rs)"
  shows "call_links_loop look mapped m bp pc =
    Some (concat (map (\<lambda>pc. call_line pc (snd (look pc))) (up_to_main look (with_symbol look (pc # rs)))))"
  using assms
proof (induction rs arbitrary: bp pc)
  case Nil
  note l = frames_mapped_load[OF Nil.prems(3)]
  have "call_links_loop look mapped m 0 pc = Some []" for pc by (simp add: call_links_loop.simps[of look mapped m 0])
  with Nil.prems l show ?case
    by (subst call_links_loop.simps) (auto simp: with_symbol_def is_main_def)
next
  case (Cons r rs)
  note l = frames_mapped_load[OF Cons.prems(3)]
  have f: "frames (word_at m) (word_at m bp) rs" "word_at m bp \<noteq> 0" "r = word_at m (bp + 8)"
    "frames_mapped mapped m (word_at m bp) (length rs)" using Cons.prems by auto
  from Cons.IH[OF f(1,2,4), of r] f(3) l Cons.prems(2) show ?case
    by (subst call_links_loop.simps) (auto simp: with_symbol_def is_main_def)
qed

text \<open>A saved frame pointer that refers to its own frame.\<close>

lemma call_links_loop_endless:
  assumes "bp \<noteq> 0" "word_at m bp = bp" "pc = word_at m (bp + 8)" "fst (look pc) \<noteq> 0" "\<not> is_main look pc"
  shows "call_links_loop look mapped m bp pc = None"
proof -
  have "look0 = look \<and> mapped0 = mapped \<and> m0 = m \<longrightarrow> \<not> (bp0 = bp \<and> pc0 = pc)"
    if "call_links_loop look0 mapped0 m0 bp0 pc0 = Some r" for look0 mapped0 m0 bp0 pc0 r
    using that
  proof (rule call_links_loop.raw_induct[rotated])
    fix cl look0 mapped0 m0 bp0 pc0 r
    assume ih: "\<And>look0 mapped0 m0 bp0 pc0 r. cl look0 mapped0 m0 bp0 pc0 = Some r \<Longrightarrow>
        look0 = look \<and> mapped0 = mapped \<and> m0 = m \<longrightarrow> \<not> (bp0 = bp \<and> pc0 = pc)"
      and step: "(if bp0 = 0 then Some [] else if fst (look0 pc0) = 0 then Some []
        else if dli_sname (snd (look0 pc0)) = Some ''main'' then Some (call_line pc0 (snd (look0 pc0)))
        else Option.bind (load_word mapped0 m0 (bp0 + 8)) (\<lambda>pc. Option.bind (load_word mapped0 m0 bp0) (\<lambda>bp.
          Option.bind (cl look0 mapped0 m0 bp pc) (\<lambda>rest. Some (call_line pc0 (snd (look0 pc0)) @ rest))))) = Some r"
    show "look0 = look \<and> mapped0 = mapped \<and> m0 = m \<longrightarrow> \<not> (bp0 = bp \<and> pc0 = pc)"
    proof (intro impI notI)
      assume eq: "look0 = look \<and> mapped0 = mapped \<and> m0 = m" "bp0 = bp \<and> pc0 = pc"
      from step eq assms obtain rest where "cl look mapped m bp pc = Some rest"
        by (auto simp: load_word_def is_main_def bind_eq_Some_conv split: if_splits)
      from ih[OF this] show False by simp
    qed
  qed
  then show ?thesis by (cases "call_links_loop look mapped m bp pc") blast+
qed

lemma call_links_loop_fault:
  assumes "bp \<noteq> 0" "\<not> bytes_mapped mapped bp 8" "fst (look pc) \<noteq> 0" "\<not> is_main look pc"
  shows "call_links_loop look mapped m bp pc = None"
  using assms by (subst call_links_loop.simps) (simp add: load_word_def is_main_def bind_eq_None_conv)

section \<open>Properties\<close>

text \<open>C39: On a chain of frames in readable memory the handler lists what \<open>get_call_links\<close> of \<open>debug_utils.c\<close> records,
  with the interrupted instruction before it: as far as the addresses have a symbol, and up to \<open>main\<close>.\<close>

theorem print_call_links_agrees:
  assumes "frames (word_at m) bp rs" "bp \<noteq> 0" "frames_mapped mapped m bp (length rs)" "length rs \<le> nr"
  shows "print_call_links look mapped m bp pc = Some (''function call links:'' @ [LF] @
    concat (map (\<lambda>pc. call_line pc (snd (look pc)))
      (up_to_main look (with_symbol look (pc # get_call_links (word_at m) bp nr)))) @ [LF, LF, LF])"
  using call_links_loop_frames[OF assms(1-3), of look pc] call_links_frames[OF assms(1), of nr] assms(4)
  by (simp add: print_call_links_def)

text \<open>A frame pointer that is no address, as in code compiled without frame pointers, makes the handler itself
  fault, and one that is saved in its own frame makes it print for ever: nothing of the report of
  the registers and the stack is guaranteed.\<close>

theorem exception_handler_lost:
  assumes "fst (look pc) \<noteq> 0" "\<not> is_main look pc" "gregs ! REG_BP_NO = bp" "gregs ! REG_PC_NO = pc" "bp \<noteq> 0"
    and "\<not> bytes_mapped mapped bp 8 \<or> (word_at m bp = bp \<and> word_at m (bp + 8) = pc)"
  shows "exceptionmy_handler look link mapped m sig_no si_addr gregs = None"
proof -
  have "call_links_loop look mapped m bp pc = None"
    using assms call_links_loop_fault call_links_loop_endless by metis
  then have "print_detailed_sig_info look mapped m si_addr gregs = None"
    by (simp add: print_detailed_sig_info_def print_call_links_def assms(3,4))
  then show ?thesis by (simp add: exceptionmy_handler_def split: option.splits)
qed

text \<open>A process with two frames, \<open>main\<close> calling \<open>f\<close>.\<close>

definition demo_stack :: vmem where
  "demo_stack a = (if a = 1 then 2 else if a = 8 then 7 else if a = 0x200 then 0 else if a = 0x100 then 0
     else if a = 0x101 then 2 else if a = 0x108 then 9 else 0)"

definition demo_look :: "u64 \<Rightarrow> int \<times> dl_info" where
  "demo_look pc = (1, \<lparr>dli_fname = ''prog'', dli_sname = Some (if pc = 9 then ''main'' else ''f''), dli_saddr = 5\<rparr>)"

lemma demo_words: "word_at demo_stack 0x100 = 0x200" "word_at demo_stack 0x108 = 9" "word_at demo_stack 0x200 = 0"
  by (simp_all add: word_at_def bytes_from_def demo_stack_def upt_conv_Cons)

lemma demo_text: "show_ul 6 = ''0x0000000000000006''" "show_ul 9 = ''0x0000000000000009''"
  "show_dec 4 = ''4''" "show_dec (Suc 0) = ''1''"
  by code_simp+

theorem print_call_links_agrees_witness:
  "print_call_links demo_look (\<lambda>_. True) demo_stack 0x100 6 =
     Some (''function call links:'' @ [LF] @ ''0x0000000000000006 - f+1 (prog)'' @ [LF] @
       ''0x0000000000000009 - main+4 (prog)'' @ [LF] @ [LF, LF, LF])"
proof -
  have f: "frames (word_at demo_stack) 0x100 [9]" by (simp add: demo_words)
  have m: "frames_mapped (\<lambda>_. True) demo_stack 0x100 (length [9 :: u64])" by (simp add: bytes_mapped_def list_all_iff)
  have g: "get_call_links (word_at demo_stack) 0x100 1 = [9]" by (simp add: demo_words One_nat_def)
  have l: "call_line 6 (snd (demo_look 6)) = ''0x0000000000000006 - f+1 (prog)'' @ [LF]"
    "call_line 9 (snd (demo_look 9)) = ''0x0000000000000009 - main+4 (prog)'' @ [LF]"
    by (simp_all add: call_line_def demo_look_def demo_text)
  have u: "up_to_main demo_look (with_symbol demo_look [6, 9]) = [6, 9]"
    by (simp add: with_symbol_def is_main_def demo_look_def)
  have n: "(0x100 :: u64) \<noteq> 0" "length [9 :: u64] \<le> 1" by simp_all
  show ?thesis using print_call_links_agrees[OF f n(1) m n(2), of demo_look 6] unfolding g u by (simp add: l)
qed

theorem exception_handler_lost_witness:
  "exceptionmy_handler demo_look (Some ''/bin/prog'') (\<lambda>_. False) (\<lambda>_. 0) SIGSEGV 0 (replicate 10 0 @ 3 # replicate 12 6) = None"
  by (rule exception_handler_lost[where pc = 6 and bp = 3])
    (simp_all add: demo_look_def is_main_def REG_BP_NO_def REG_PC_NO_def bytes_mapped_def nth_append upt_conv_Cons)

end
