(* ===== verification/TtyCfg.thy ===== *)
theory TtyCfg
  imports SerialPort
begin

unbundle bit_operations_syntax

text \<open>
  \<open>libs/app_utils/src/tty_cfg.c\<close>: the terminal of a program that reads single keys, such as the editor of \<open>ViEdit\<close>. The
  terminal is the \<open>line\<close> of \<open>SerialPort\<close>; the results of \<open>tcgetattr\<close> are not checked by the code.
\<close>

section \<open>The code\<close>

definition ECHO :: u32 where "ECHO = 8"
definition ECHOE :: u32 where "ECHOE = 0x10"
definition ECHOK :: u32 where "ECHOK = 0x20"
definition ECHONL :: u32 where "ECHONL = 0x40"

record tty_state =
  tty :: line
  old_tty_cfg :: termios

text \<open>The static variable before the first call.\<close>

definition zero_termios :: termios where
  "zero_termios = \<lparr>c_iflag = 0, c_oflag = 0, c_cflag = 0, c_lflag = 0, vtime = 0, vmin = 0, speed = 0\<rparr>"

definition set_tty_input_to_raw_mode :: "tty_state \<Rightarrow> int \<times> tty_state" where
  "set_tty_input_to_raw_mode s =
     (let old = (if get_ret (tty s) = 0 then settings (tty s) else old_tty_cfg s);
          new = old\<lparr>c_lflag := c_lflag old AND NOT ICANON AND NOT (ECHO OR ECHOE OR ECHOK OR ECHONL)\<rparr>;
          (ret, l) = tcsetattr new (tty s)
      in (if ret \<noteq> 0 then -1 else 0, s\<lparr>tty := l, old_tty_cfg := old\<rparr>))"

definition restore_tty_input_mode :: "tty_state \<Rightarrow> int \<times> tty_state" where
  "restore_tty_input_mode s =
     (let (ret, l) = tcsetattr (old_tty_cfg s) (tty s)
      in (if ret \<noteq> 0 then -1 else 0, s\<lparr>tty := l\<rparr>))"

section \<open>Properties\<close>

text \<open>The key mode has neither lines nor echo and leaves the other flags, and is undone by one restoring; but after it was
  set twice the restored mode is the key mode, and restoring what was never set clears all settings.\<close>

theorem tty_mode_restored:
  assumes "get_ret (tty s) = 0" "set_ret (tty s) = 0" "set_tty_input_to_raw_mode s = (r, s1)"
  shows "r = 0 \<and> c_lflag (settings (tty s1)) AND (ICANON OR ECHO) = 0 \<and>
    c_lflag (settings (tty s1)) = c_lflag (settings (tty s)) AND NOT 0x7A \<and>
    settings (tty (snd (restore_tty_input_mode s1))) = settings (tty s) \<and>
    settings (tty (snd (restore_tty_input_mode (snd (set_tty_input_to_raw_mode s1))))) = settings (tty s1) \<and>
    (old_tty_cfg s = zero_termios \<longrightarrow> settings (tty (snd (restore_tty_input_mode s))) = zero_termios)"
proof -
  let ?f = "c_lflag (settings (tty s))"
  have m: "f AND NOT ICANON AND NOT (ECHO OR ECHOE OR ECHOK OR ECHONL) = f AND NOT 0x7A" for f
    by (simp add: ICANON_def ECHO_def ECHOE_def ECHOK_def ECHONL_def and.assoc)
  have c: "(?f AND NOT 0x7A) AND (ICANON OR ECHO) = 0"
    by (simp add: ICANON_def ECHO_def and.assoc)
  have s1: "s1 = s\<lparr>tty := (tty s)\<lparr>settings := (settings (tty s))\<lparr>c_lflag := ?f AND NOT 0x7A\<rparr>\<rparr>, old_tty_cfg := settings (tty s)\<rparr>" "r = 0"
    using assms(3) unfolding set_tty_input_to_raw_mode_def m Let_def tcsetattr_ok[OF assms(2)] using assms(1) by auto
  show ?thesis
    using assms(1,2) s1 c unfolding restore_tty_input_mode_def set_tty_input_to_raw_mode_def m Let_def by (simp add: tcsetattr_ok)
qed

theorem tty_mode_restored_witness:
  "c_lflag (settings (tty (snd (set_tty_input_to_raw_mode \<lparr>tty = demo_line, old_tty_cfg = zero_termios\<rparr>)))) = 0x8a01"
proof -
  let ?s = "\<lparr>tty = demo_line, old_tty_cfg = zero_termios\<rparr>"
  obtain r s1 where s1: "set_tty_input_to_raw_mode ?s = (r, s1)" by (cases "set_tty_input_to_raw_mode ?s")
  have g: "get_ret (tty ?s) = 0" "set_ret (tty ?s) = 0" by (simp_all add: demo_line_def)
  from tty_mode_restored[OF g s1] s1 show ?thesis by (simp add: demo_line_def)
qed

end
