(* ===== verification/UdpTest.thy ===== *)
theory UdpTest
  imports NetStat
begin

text \<open>
  \<open>simple_apps/udp_tester.c\<close> and \<open>simple_apps/udp_reflector.c\<close>: the tester sends a datagram at every
  alarm and counts what comes back, the reflector returns what it gets. A program is driven by
  events: its signals, and the iterations of its loop with what \<open>select\<close>, \<open>recvfrom\<close> and \<open>sendto\<close> return;
  a handler interrupts the loop, but the two count in different fields. Then both are joined by a
  network that loses and reorders.
\<close>

section \<open>The tester\<close>

text \<open>\<open>alarm_on\<close>: an alarm is pending. \<open>sent\<close> are the datagrams the kernel has taken, \<open>wrong_hosts\<close> the
  messages about a wrong peer; \<open>gone\<close> is the exit of \<open>DBG_PRINT_QUIT\<close>.\<close>

record udp_tester =
  paras :: tester_paras
  stat :: t_rxtx_stat
  dst_sock_addr :: sockaddr_in
  need_exit :: bool
  alarm_on :: bool
  sent :: "char list list"
  wrong_hosts :: nat
  gone :: bool

datatype tester_event =
    Sigint
  | Sigalrm "int outcome"
  | Loop "int outcome" "(char list \<times> sockaddr_in) outcome"

text \<open>A datagram is cut to the 65536 cells of \<open>buf\<close>.\<close>

definition received :: "(char list \<times> sockaddr_in) outcome \<Rightarrow> char list" where
  "received r = (case r of Done (d, _) \<Rightarrow> take 65536 d | Fail _ \<Rightarrow> [])"

definition rcv_ret :: "(char list \<times> sockaddr_in) outcome \<Rightarrow> int" where
  "rcv_ret r = udp_socket_recvfrom (case r of Done _ \<Rightarrow> Done (int (length (received r))) | Fail e \<Rightarrow> Fail e)"

definition from_addr :: "(char list \<times> sockaddr_in) outcome \<Rightarrow> sockaddr_in option" where
  "from_addr r = (case r of Done (_, a) \<Rightarrow> Some a | Fail _ \<Rightarrow> None)"

text \<open>An iteration of \<open>rx_loop\<close>.\<close>

definition rx_loop :: "int outcome \<Rightarrow> (char list \<times> sockaddr_in) outcome \<Rightarrow> udp_tester \<Rightarrow> udp_tester" where
  "rx_loop sel rcv t =
     (if fd_read_or_write_able sel \<le> 0 then t
      else let ret = rcv_ret rcv; t1 = t\<lparr>stat := count_rx ret (stat t)\<rparr>
           in if ret > 0 \<and> \<not> sockaddr_equal (the (from_addr rcv)) (dst_sock_addr t1)
              then t1\<lparr>wrong_hosts := wrong_hosts t1 + 1\<rparr> else t1)"

definition payload :: "tester_paras \<Rightarrow> char list" where
  "payload p = take (nat (snd_data_len p)) snd_buf"

definition on_sigalrm :: "int outcome \<Rightarrow> udp_tester \<Rightarrow> udp_tester" where
  "on_sigalrm snd_res t =
     (let len = snd_data_len (paras t);
          t1 = t\<lparr>alarm_on := (snd_interval (paras t) \<noteq> 0), stat := count_tx_try len (stat t)\<rparr>;
          ret = udp_socket_sendto snd_res;
          t2 = (case snd_res of Done _ \<Rightarrow> t1\<lparr>sent := sent t1 @ [payload (paras t)]\<rparr> | Fail _ \<Rightarrow> t1)
      in if ret = len then t2\<lparr>stat := count_tx_succ len (stat t2)\<rparr>
         else if ret \<le> 0 then t2\<lparr>stat := count_tx_fail len (stat t2)\<rparr>
         else t2\<lparr>gone := True\<rparr>)"

definition sig_handler :: "int outcome option \<Rightarrow> udp_tester \<Rightarrow> udp_tester" where
  "sig_handler sig t =
     (case sig of None \<Rightarrow> t\<lparr>need_exit := True, alarm_on := False\<rparr> | Some snd_res \<Rightarrow> on_sigalrm snd_res t)"

text \<open>The program; an event it does not wait for has no effect.\<close>

fun udp_tester_step :: "tester_event \<Rightarrow> udp_tester \<Rightarrow> udp_tester" where
  "udp_tester_step Sigint t = (if gone t then t else sig_handler None t)"
| "udp_tester_step (Sigalrm r) t = (if gone t \<or> \<not> alarm_on t then t else sig_handler (Some r) t)"
| "udp_tester_step (Loop sel rcv) t = (if gone t \<or> need_exit t then t else rx_loop sel rcv t)"

definition stat_item_names :: "string list" where
  "stat_item_names =
    [''rx_times_total'', ''rx_times_fail'', ''rx_pkts'', ''rx_bytes'', ''tx_pkts_total'', ''tx_bytes_total'',
     ''tx_pkts_fail'', ''tx_bytes_fail'', ''tx_pkts_succ'', ''tx_bytes_succ'']"

definition show_stats :: "t_rxtx_stat \<Rightarrow> string" where
  "show_stats s = print_stats True (stat_items s) stat_item_names"

text \<open>\<open>main\<close> up to the loop: \<open>bind_ret\<close> is what binding to the processor returns, the other two
  what \<open>socket\<close> and \<open>bind\<close> return; \<open>None\<close>: the program ended with a message.\<close>

definition udp_tester_main :: "(string \<Rightarrow> u32) \<Rightarrow> int \<Rightarrow> int \<Rightarrow> int \<Rightarrow> string list \<Rightarrow> udp_tester option" where
  "udp_tester_main inet_addr bind_ret sock_ret addr_ret argv =
     (case parse_args argv of
        None \<Rightarrow> None
      | Some p \<Rightarrow>
          if \<not> bind_to_cpu (cpu_idx p) bind_ret then None
          else let sockfd = fst (if src_ip p \<noteq> None then udp_socket_init inet_addr sock_ret addr_ret (src_ip p) (src_port p)
                                 else udp_socket_init_no_addr sock_ret)
               in if sockfd < 0 then None
                  else Some \<lparr>paras = p, stat = no_stat,
                    dst_sock_addr = make_sockaddr (inet_addr (the (dst_ip p))) (dst_port p), need_exit = False,
                    alarm_on = (snd_interval p \<noteq> 0), sent = [], wrong_hosts = 0, gone = False\<rparr>)"

section \<open>The reflector\<close>

record udp_reflector =
  r_paras :: reflector_paras
  r_stat :: t_rxtx_stat
  r_need_exit :: bool
  reflected :: "(char list \<times> sockaddr_in) list"
  r_gone :: bool

text \<open>An iteration of \<open>rxtx_loop\<close>, with the result of \<open>sendto\<close> if it is called.\<close>

definition rxtx_loop ::
    "int outcome \<Rightarrow> (char list \<times> sockaddr_in) outcome \<Rightarrow> int outcome \<Rightarrow> udp_reflector \<Rightarrow> udp_reflector" where
  "rxtx_loop sel rcv snd_res r =
     (if fd_read_or_write_able sel \<le> 0 then r
      else let ret = rcv_ret rcv; r1 = r\<lparr>r_stat := count_rx ret (r_stat r)\<rparr>
           in if ret \<le> 0 \<or> only_recv (r_paras r) then r1
              else let r2 = (case snd_res of
                               Done _ \<Rightarrow> r1\<lparr>reflected := reflected r1 @ [(received rcv, the (from_addr rcv))]\<rparr>
                             | Fail _ \<Rightarrow> r1);
                       send_ret = udp_socket_sendto snd_res;
                       r3 = r2\<lparr>r_stat := count_tx_try ret (r_stat r2)\<rparr>
                   in if send_ret = ret then r3\<lparr>r_stat := count_tx_succ ret (r_stat r3)\<rparr>
                      else if send_ret \<le> 0 then r3\<lparr>r_stat := count_tx_fail ret (r_stat r3)\<rparr>
                      else r3\<lparr>r_gone := True\<rparr>)"

datatype reflector_event =
    RSigint
  | RLoop "int outcome" "(char list \<times> sockaddr_in) outcome" "int outcome"

fun udp_reflector_step :: "reflector_event \<Rightarrow> udp_reflector \<Rightarrow> udp_reflector" where
  "udp_reflector_step RSigint r = (if r_gone r then r else r\<lparr>r_need_exit := True\<rparr>)"
| "udp_reflector_step (RLoop sel rcv snd_res) r =
     (if r_gone r \<or> r_need_exit r then r else rxtx_loop sel rcv snd_res r)"

definition udp_reflector_main :: "(string \<Rightarrow> u32) \<Rightarrow> int \<Rightarrow> int \<Rightarrow> int \<Rightarrow> string list \<Rightarrow> udp_reflector option" where
  "udp_reflector_main inet_addr bind_ret sock_ret addr_ret argv =
     (case reflector_parse_args argv of
        None \<Rightarrow> None
      | Some p \<Rightarrow>
          if \<not> bind_to_cpu (r_cpu_idx p) bind_ret then None
          else if fst (udp_socket_init inet_addr sock_ret addr_ret (Some (r_src_ip p)) (r_src_port p)) < 0 then None
          else Some \<lparr>r_paras = p, r_stat = no_stat, r_need_exit = False, reflected = [], r_gone = False\<rparr>)"

section \<open>The counters balance\<close>

text \<open>Unless the program has left in the middle of a send.\<close>

lemma udp_tester_balanced:
  "gone t \<or> balanced (stat t) \<Longrightarrow> gone (udp_tester_step e t) \<or> balanced (stat (udp_tester_step e t))"
  by (cases e) (auto simp: sig_handler_def on_sigalrm_def rx_loop_def Let_def balanced_rx balanced_tx split: outcome.splits)

lemma udp_reflector_balanced:
  "r_gone r \<or> balanced (r_stat r) \<Longrightarrow> r_gone (udp_reflector_step e r) \<or> balanced (r_stat (udp_reflector_step e r))"
  by (cases e) (auto simp: rxtx_loop_def Let_def balanced_rx balanced_tx split: outcome.splits)

interpretation udp_t: event_program udp_tester_step "\<lambda>t. gone t \<or> balanced (stat t)"
  by unfold_locales (rule udp_tester_balanced)

interpretation udp_r: event_program udp_reflector_step "\<lambda>r. r_gone r \<or> balanced (r_stat r)"
  by unfold_locales (rule udp_reflector_balanced)


section \<open>Both on a network\<close>

text \<open>What is on its way in either direction, and how many datagrams were lost: by the network, by a
  reply that could not be sent, or because the receiver had ended. Any datagram on its way may be the
  next to arrive or to get lost; \<open>ta\<close> is the address of the tester.\<close>

record udp_world =
  tester :: udp_tester
  reflector :: udp_reflector
  to_r :: "char list list"
  to_t :: "char list list"
  lost :: nat

datatype net_event =
    Tester_sigint | Reflector_sigint
  | Alarm bool
  | Arrive_r nat bool
  | Arrive_t nat
  | Lose_r nat | Lose_t nat

definition remove_nth :: "nat \<Rightarrow> 'a list \<Rightarrow> 'a list" where
  "remove_nth i xs = take i xs @ drop (Suc i) xs"

definition alarm_step :: "bool \<Rightarrow> udp_world \<Rightarrow> udp_world" where
  "alarm_step ok w =
     (let t = tester w;
          t' = udp_tester_step (Sigalrm (if ok then Done (snd_data_len (paras t)) else Fail EOther)) t
      in w\<lparr>tester := t', to_r := to_r w @ drop (length (sent t)) (sent t')\<rparr>)"

definition arrive_r :: "sockaddr_in \<Rightarrow> nat \<Rightarrow> bool \<Rightarrow> udp_world \<Rightarrow> udp_world" where
  "arrive_r ta i ok w =
     (let r = reflector w; d = to_r w ! i;
          r' = udp_reflector_step (RLoop (Done 1) (Done (d, ta)) (if ok then Done (int (length d)) else Fail EOther)) r;
          back = map fst (drop (length (reflected r)) (reflected r'))
      in w\<lparr>reflector := r', to_r := remove_nth i (to_r w), to_t := to_t w @ back,
           lost := lost w + (if back = [] then 1 else 0)\<rparr>)"

definition arrive_t :: "nat \<Rightarrow> udp_world \<Rightarrow> udp_world" where
  "arrive_t i w =
     (let t = tester w; t' = udp_tester_step (Loop (Done 1) (Done (to_t w ! i, dst_sock_addr t))) t
      in w\<lparr>tester := t', to_t := remove_nth i (to_t w), lost := lost w + (if need_exit t \<or> gone t then 1 else 0)\<rparr>)"

fun net_step :: "sockaddr_in \<Rightarrow> net_event \<Rightarrow> udp_world \<Rightarrow> udp_world" where
  "net_step ta Tester_sigint w = w\<lparr>tester := udp_tester_step Sigint (tester w)\<rparr>"
| "net_step ta Reflector_sigint w = w\<lparr>reflector := udp_reflector_step RSigint (reflector w)\<rparr>"
| "net_step ta (Alarm ok) w = alarm_step ok w"
| "net_step ta (Arrive_r i ok) w = (if i < length (to_r w) then arrive_r ta i ok w else w)"
| "net_step ta (Arrive_t i) w = (if i < length (to_t w) then arrive_t i w else w)"
| "net_step ta (Lose_r i) w = (if i < length (to_r w) then w\<lparr>to_r := remove_nth i (to_r w), lost := lost w + 1\<rparr> else w)"
| "net_step ta (Lose_t i) w = (if i < length (to_t w) then w\<lparr>to_t := remove_nth i (to_t w), lost := lost w + 1\<rparr> else w)"

text \<open>\<open>d\<close> datagrams have come back, \<open>n\<close> bytes each.\<close>

definition accounted :: "nat \<Rightarrow> char list \<Rightarrow> udp_world \<Rightarrow> nat \<Rightarrow> bool" where
  "accounted n data w d \<longleftrightarrow>
     length (sent (tester w)) = d + length (to_r w) + length (to_t w) + lost w \<and>
     tx_pkts_succ (stat (tester w)) = of_nat (length (sent (tester w))) \<and>
     tx_bytes_succ (stat (tester w)) = of_nat (n * length (sent (tester w))) \<and>
     rx_pkts (stat (tester w)) = of_nat d \<and> rx_bytes (stat (tester w)) = of_nat (n * d) \<and>
     wrong_hosts (tester w) = 0 \<and>
     (\<forall>x \<in> set (sent (tester w)) \<union> set (to_r w) \<union> set (to_t w). x = data)"

definition world_ok :: "tester_paras \<Rightarrow> udp_world \<Rightarrow> bool" where
  "world_ok p w \<longleftrightarrow> paras (tester w) = p \<and> \<not> gone (tester w) \<and> \<not> r_gone (reflector w) \<and>
     balanced (stat (tester w)) \<and> balanced (r_stat (reflector w)) \<and>
     (\<exists>d. accounted (nat (snd_data_len p)) (payload p) w d)"

lemma length_remove_nth: "i < length xs \<Longrightarrow> length xs = Suc (length (remove_nth i xs))"
  and set_remove_nth: "set (remove_nth i xs) \<subseteq> set xs"
  by (auto simp: remove_nth_def dest: in_set_takeD in_set_dropD)

lemma length_payload: "0 \<le> snd_data_len p \<Longrightarrow> snd_data_len p \<le> 65536 \<Longrightarrow> int (length (payload p)) = snd_data_len p"
  by (simp add: payload_def snd_buf_def)

lemma alarm_sends:
  assumes "\<not> gone t" "alarm_on t" "0 < snd_data_len (paras t)" "n = snd_data_len (paras t)"
  shows "udp_tester_step (Sigalrm (Done n)) t = t\<lparr>alarm_on := (snd_interval (paras t) \<noteq> 0),
      stat := count_tx_succ n (count_tx_try n (stat t)), sent := sent t @ [payload (paras t)]\<rparr>"
    "udp_tester_step (Sigalrm (Fail EOther)) t = t\<lparr>alarm_on := (snd_interval (paras t) \<noteq> 0),
      stat := count_tx_fail n (count_tx_try n (stat t))\<rparr>"
  using assms by (simp_all add: sig_handler_def on_sigalrm_def udp_results udp_socket_sendto_def Let_def)

lemma tx_counters:
  "tx_pkts_succ (count_tx_succ n (count_tx_try n s)) = tx_pkts_succ s + 1"
  "tx_bytes_succ (count_tx_succ n (count_tx_try n s)) = tx_bytes_succ s + word_of_int n"
  "tx_pkts_succ (count_tx_fail n (count_tx_try n s)) = tx_pkts_succ s"
  "tx_bytes_succ (count_tx_fail n (count_tx_try n s)) = tx_bytes_succ s"
  "rx_pkts (count_tx_succ n (count_tx_try n s)) = rx_pkts s" "rx_bytes (count_tx_succ n (count_tx_try n s)) = rx_bytes s"
  "rx_pkts (count_tx_fail n (count_tx_try n s)) = rx_pkts s" "rx_bytes (count_tx_fail n (count_tx_try n s)) = rx_bytes s"
  by (simp_all add: count_defs)

lemma alarm_world_ok:
  assumes "world_ok p w" "0 < snd_data_len p"
  shows "world_ok p (alarm_step ok w)"
proof (cases "alarm_on (tester w)")
  case True
  obtain d where d: "accounted (nat (snd_data_len p)) (payload p) w d" using assms(1) by (auto simp: world_ok_def)
  have p: "paras (tester w) = p" "\<not> gone (tester w)" using assms(1) by (simp_all add: world_ok_def)
  have n: "word_of_int (snd_data_len p) = (of_nat (nat (snd_data_len p)) :: u64)"
    using assms(2) by (simp add: of_nat_nat)
  note step = alarm_sends[OF p(2) True, unfolded p(1), OF assms(2) refl]
  show ?thesis
  proof (cases ok)
    case True
    have a: "alarm_step ok w = w\<lparr>tester := (tester w)\<lparr>alarm_on := (snd_interval p \<noteq> 0),
          stat := count_tx_succ (snd_data_len p) (count_tx_try (snd_data_len p) (stat (tester w))),
          sent := sent (tester w) @ [payload p]\<rparr>, to_r := to_r w @ [payload p]\<rparr>"
      by (simp only: alarm_step_def Let_def p True if_True step) simp
    have "accounted (nat (snd_data_len p)) (payload p) (alarm_step ok w) d"
      using d by (auto simp: accounted_def a tx_counters n distrib_left)
    with assms(1) show ?thesis by (auto simp: world_ok_def a balanced_tx)
  next
    case False
    have a: "alarm_step ok w = w\<lparr>tester := (tester w)\<lparr>alarm_on := (snd_interval p \<noteq> 0),
          stat := count_tx_fail (snd_data_len p) (count_tx_try (snd_data_len p) (stat (tester w)))\<rparr>\<rparr>"
      using False by (simp only: alarm_step_def Let_def p if_False step) simp
    have "accounted (nat (snd_data_len p)) (payload p) (alarm_step ok w) d"
      using d by (auto simp: accounted_def a tx_counters)
    with assms(1) show ?thesis by (auto simp: world_ok_def a balanced_tx)
  qed
next
  case False
  then have "alarm_step ok w = w" by (simp add: alarm_step_def)
  with assms(1) show ?thesis by simp
qed

lemma rcv_whole:
  "length d \<le> 65536 \<Longrightarrow> rcv_ret (Done (d, a)) = int (length d)" "length d \<le> 65536 \<Longrightarrow> received (Done (d, a)) = d"
  by (simp_all add: rcv_ret_def received_def udp_results)

lemma arrive_r_world_ok:
  assumes "world_ok p w" "0 < snd_data_len p" "snd_data_len p \<le> 65536" "i < length (to_r w)"
  shows "world_ok p (arrive_r ta i ok w)"
proof -
  obtain d where d: "accounted (nat (snd_data_len p)) (payload p) w d" using assms(1) by (auto simp: world_ok_def)
  have x: "to_r w ! i = payload p" using d assms(4) by (simp add: accounted_def)
  have len: "int (length (payload p)) = snd_data_len p" using assms(2,3) by (intro length_payload) simp_all
  then have len': "length (payload p) \<le> 65536" "0 < length (payload p)" using assms(2,3) by linarith+
  note rm = length_remove_nth[OF assms(4)] set_remove_nth[of i "to_r w"]
  have "accounted (nat (snd_data_len p)) (payload p) (arrive_r ta i ok w) d"
    using d rm len' by (auto simp: accounted_def arrive_r_def Let_def x rxtx_loop_def rcv_whole
        fd_read_or_write_able_def udp_socket_sendto_def algebra_simps)
  moreover have "\<not> r_gone (reflector (arrive_r ta i ok w)) \<and> balanced (r_stat (reflector (arrive_r ta i ok w)))"
    using assms(1) len' by (auto simp: world_ok_def arrive_r_def Let_def x rxtx_loop_def rcv_whole
        fd_read_or_write_able_def udp_socket_sendto_def balanced_tx balanced_rx)
  moreover have "tester (arrive_r ta i ok w) = tester w" by (simp add: arrive_r_def Let_def)
  ultimately show ?thesis using assms(1) by (auto simp: world_ok_def)
qed

lemma arrive_t_world_ok:
  assumes "world_ok p w" "0 < snd_data_len p" "snd_data_len p \<le> 65536" "i < length (to_t w)"
  shows "world_ok p (arrive_t i w)"
proof -
  obtain d where d: "accounted (nat (snd_data_len p)) (payload p) w d" using assms(1) by (auto simp: world_ok_def)
  have x: "to_t w ! i = payload p" using d assms(4) by (simp add: accounted_def)
  have len: "int (length (payload p)) = snd_data_len p" using assms(2,3) by (intro length_payload) simp_all
  then have len': "length (payload p) \<le> 65536" "0 < length (payload p)" "nat (snd_data_len p) = length (payload p)"
    using assms(2,3) by linarith+
  note rm = length_remove_nth[OF assms(4)] set_remove_nth[of i "to_t w"]
  have "\<exists>d. accounted (nat (snd_data_len p)) (payload p) (arrive_t i w) d"
  proof (cases "need_exit (tester w)")
    case True
    with d rm have "accounted (nat (snd_data_len p)) (payload p) (arrive_t i w) d"
      by (auto simp: accounted_def arrive_t_def Let_def algebra_simps)
    then show ?thesis ..
  next
    case False
    with d rm len' assms(1) have "accounted (nat (snd_data_len p)) (payload p) (arrive_t i w) (Suc d)"
      by (auto simp: accounted_def arrive_t_def Let_def x rx_loop_def rcv_whole world_ok_def from_addr_def
          fd_read_or_write_able_def sockaddr_equal_eq count_defs algebra_simps)
    then show ?thesis ..
  qed
  moreover have "\<not> gone (tester (arrive_t i w)) \<and> balanced (stat (tester (arrive_t i w))) \<and> paras (tester (arrive_t i w)) = p"
    using assms(1) by (auto simp: world_ok_def arrive_t_def Let_def rx_loop_def balanced_rx)
  moreover have "reflector (arrive_t i w) = reflector w" by (simp add: arrive_t_def Let_def)
  ultimately show ?thesis using assms(1) by (auto simp: world_ok_def)
qed

lemma other_world_ok:
  assumes "world_ok p w"
  shows "world_ok p (net_step ta Tester_sigint w)" "world_ok p (net_step ta Reflector_sigint w)"
    "world_ok p (net_step ta (Lose_r i) w)" "world_ok p (net_step ta (Lose_t i) w)"
proof -
  show "world_ok p (net_step ta Tester_sigint w)" "world_ok p (net_step ta Reflector_sigint w)"
    using assms by (auto simp: world_ok_def accounted_def sig_handler_def)
  obtain d where d: "accounted (nat (snd_data_len p)) (payload p) w d" using assms by (auto simp: world_ok_def)
  have "accounted (nat (snd_data_len p)) (payload p) (net_step ta (Lose_r i) w) d"
    using d length_remove_nth[of i "to_r w"] set_remove_nth[of i "to_r w"] by (auto simp: accounted_def)
  with assms show "world_ok p (net_step ta (Lose_r i) w)" by (auto simp: world_ok_def)
  have "accounted (nat (snd_data_len p)) (payload p) (net_step ta (Lose_t i) w) d"
    using d length_remove_nth[of i "to_t w"] set_remove_nth[of i "to_t w"] by (auto simp: accounted_def)
  with assms show "world_ok p (net_step ta (Lose_t i) w)" by (auto simp: world_ok_def)
qed

lemma net_step_world_ok:
  "world_ok p w \<and> 0 < snd_data_len p \<and> snd_data_len p \<le> 65536 \<Longrightarrow> world_ok p (net_step ta e w) \<and> 0 < snd_data_len p \<and> snd_data_len p \<le> 65536"
  using other_world_ok[of p w ta] alarm_world_ok[of p w] arrive_r_world_ok[of p w _ ta] arrive_t_world_ok[of p w]
  by (cases e) (simp_all only: net_step.simps(3-5) if_split simp_thms, auto)

interpretation udp_net: event_program "net_step ta" "\<lambda>w. world_ok p w \<and> 0 < snd_data_len p \<and> snd_data_len p \<le> 65536"
  by unfold_locales (rule net_step_world_ok)


section \<open>Properties\<close>

lemma tester_main_start:
  assumes "udp_tester_main inet_addr bind_ret sock_ret addr_ret argv = Some t"
  shows "stat t = no_stat \<and> sent t = [] \<and> wrong_hosts t = 0 \<and> \<not> gone t \<and> \<not> need_exit t"
  using assms by (auto simp: udp_tester_main_def Let_def split: option.splits if_splits)

lemma reflector_main_start:
  assumes "udp_reflector_main inet_addr bind_ret sock_ret addr_ret argv = Some r"
  shows "r_stat r = no_stat \<and> \<not> r_gone r"
  using assms by (auto simp: udp_reflector_main_def split: option.splits if_splits)

text \<open>C3: Let tester and reflector start on command lines that give the tester a data length between 1 and
  65536 (which the program does not check: it sends nothing, or overruns its buffer, with another one).
  However alarms, arrivals, losses, failed sends and interrupts then
  follow each other on a network that loses and reorders: every datagram the tester's counters call
  sent is one that has come back and is counted in \<open>rx_pkts\<close> with its bytes, is still on its way, or
  was lost; what comes back is what was sent, and in both programs all that was tried has
  succeeded or failed.\<close>

theorem udp_echo_accounts:
  assumes "udp_tester_main inet_addr bind_ret sock_ret addr_ret argv = Some t"
    "udp_reflector_main inet_addr bind_ret' sock_ret' addr_ret' argv' = Some r"
    "0 < snd_data_len (paras t)" "snd_data_len (paras t) \<le> 65536"
    "w = fold (net_step ta) es \<lparr>tester = t, reflector = r, to_r = [], to_t = [], lost = 0\<rparr>"
  shows "\<exists>d. length (sent (tester w)) = d + length (to_r w) + length (to_t w) + lost w \<and>
    tx_pkts_succ (stat (tester w)) = of_nat (length (sent (tester w))) \<and>
    rx_pkts (stat (tester w)) = of_nat d \<and> rx_bytes (stat (tester w)) = of_nat (nat (snd_data_len (paras t)) * d) \<and>
    (\<forall>x \<in> set (to_r w) \<union> set (to_t w). x = payload (paras t)) \<and>
    balanced (stat (tester w)) \<and> balanced (r_stat (reflector w))"
proof -
  let ?w = "\<lparr>tester = t, reflector = r, to_r = [], to_t = [], lost = 0\<rparr>"
  have "accounted (nat (snd_data_len (paras t))) (payload (paras t)) ?w 0"
    using tester_main_start[OF assms(1)] by (simp add: accounted_def no_stat_def)
  then have "world_ok (paras t) ?w"
    using tester_main_start[OF assms(1)] reflector_main_start[OF assms(2)] balanced_no_stat
    by (auto simp: world_ok_def)
  from udp_net.run_good[of "paras t" ?w ta es] this assms(3-5) have "world_ok (paras t) w" by simp
  then show ?thesis by (auto simp: world_ok_def accounted_def)
qed

definition demo_tester :: "int \<Rightarrow> int \<Rightarrow> udp_tester" where
  "demo_tester interval len = \<lparr>paras = demo_paras interval len, stat = no_stat, dst_sock_addr = make_sockaddr 9 7,
     need_exit = False, alarm_on = (interval \<noteq> 0), sent = [], wrong_hosts = 0, gone = False\<rparr>"

definition demo_reflector :: udp_reflector where
  "demo_reflector = \<lparr>r_paras = reflector_paras_init, r_stat = no_stat, r_need_exit = False, reflected = [], r_gone = False\<rparr>"

lemma udp_demo:
  "udp_tester_main (\<lambda>_. 9) 0 3 0 [''t'', ''--dst-ip=9'', ''--dst-port=7''] = Some (demo_tester 1 8)"
  "udp_tester_main (\<lambda>_. 9) 0 3 0 [''t'', ''--dst-ip=9'', ''--dst-port=7'', ''--snd-data-len=-1''] = Some (demo_tester 1 (-1))"
  "udp_reflector_main (\<lambda>_. 9) 0 3 0 [''r''] = Some demo_reflector"
  unfolding udp_tester_main_def udp_reflector_main_def demo_args
  by (simp_all add: demo_paras_def demo_tester_def demo_reflector_def the_working_paras_def reflector_paras_init_def bind_to_cpu_def
      udp_socket_init_no_addr_def udp_socket_init_def socket_init_def socket_init_2_def Let_def)

theorem udp_echo_accounts_witness:
  "\<exists>w d. w = fold (net_step (make_sockaddr 1 1)) [Alarm True, Arrive_r 0 True, Arrive_t 0, Alarm True, Lose_r 0]
       \<lparr>tester = demo_tester 1 8, reflector = demo_reflector, to_r = [], to_t = [], lost = 0\<rparr> \<and>
     length (sent (tester w)) = d + length (to_r w) + length (to_t w) + lost w \<and> rx_pkts (stat (tester w)) = of_nat d"
proof -
  have len: "0 < snd_data_len (paras (demo_tester 1 8))" "snd_data_len (paras (demo_tester 1 8)) \<le> 65536"
    by (simp_all add: demo_tester_def demo_paras_def)
  from udp_echo_accounts[OF udp_demo(1,3) len refl] show ?thesis by blast
qed

text \<open>A negative length is not refused: the failure of every \<open>sendto\<close>, -1, then equals the length,
  and the tester counts a success; an interval of 0 means that nothing is ever sent.\<close>

theorem udp_tester_bad_values:
  assumes "udp_tester_main inet_addr bind_ret sock_ret addr_ret argv = Some t"
  shows "(snd_data_len (paras t) = -1 \<longrightarrow> e \<noteq> EINTR \<longrightarrow> alarm_on t \<longrightarrow>
      tx_pkts_succ (stat (udp_tester_step (Sigalrm (Fail e)) t)) = 1 \<and> sent (udp_tester_step (Sigalrm (Fail e)) t) = []) \<and>
    (snd_interval (paras t) = 0 \<longrightarrow> sent (fold udp_tester_step es t) = [])"
proof -
  note start = tester_main_start[OF assms]
  have "snd_data_len (paras t) = -1 \<longrightarrow> e \<noteq> EINTR \<longrightarrow> alarm_on t \<longrightarrow>
      tx_pkts_succ (stat (udp_tester_step (Sigalrm (Fail e)) t)) = 1 \<and> sent (udp_tester_step (Sigalrm (Fail e)) t) = []"
    using start by (simp add: sig_handler_def on_sigalrm_def udp_socket_sendto_def count_defs no_stat_def)
  moreover have off: "\<not> alarm_on t" if "snd_interval (paras t) = 0"
    using that assms by (auto simp: udp_tester_main_def Let_def split: option.splits if_splits)
  moreover have "sent (fold udp_tester_step es t) = []" if "sent t = []" "\<not> alarm_on t" for t
    using that
  proof (induction es arbitrary: t)
    case (Cons e es)
    have "sent (udp_tester_step e t) = [] \<and> \<not> alarm_on (udp_tester_step e t)"
      using Cons.prems by (cases e) (auto simp: sig_handler_def rx_loop_def Let_def)
    with Cons.IH show ?case by simp
  qed simp
  with start off have "snd_interval (paras t) = 0 \<longrightarrow> sent (fold udp_tester_step es t) = []" by simp
  ultimately show ?thesis by simp
qed


theorem udp_tester_bad_values_witness:
  "tx_pkts_succ (stat (udp_tester_step (Sigalrm (Fail EOther)) (demo_tester 1 (-1)))) = 1"
  using udp_tester_bad_values[OF udp_demo(2), of EOther "[]"] by (simp add: demo_tester_def demo_paras_def)

end
