(* ===== verification/ViEdit.thy ===== *)
theory ViEdit
  imports StringUtils Debug
begin

text \<open>
  The screen editor \<open>simple_apps/vi_style_input_test.c\<close> on the editing functions of
  \<open>StringUtils\<close>: ten lines of at most 60 characters. Every function returns what it prints, as the
  operations of \<open>screen_ops.h\<close> and the texts between them, and the new state; \<open>None\<close> is an access
  outside a line. A terminal that carries the operations out gives the view of the user.
\<close>

section \<open>The code\<close>

definition MAX_LINE_LEN :: nat where "MAX_LINE_LEN = 60"
definition MAX_LINE_NR :: nat where "MAX_LINE_NR = 10"
definition INPUT_BUF_LEN :: nat where "INPUT_BUF_LEN = 8"

definition CR :: char where "CR = CHR 0x0D"

abbreviation no_break :: "string \<Rightarrow> bool" where "no_break t \<equiv> CR \<notin> set t \<and> LF \<notin> set t"

definition empty_line :: string where
  "empty_line = replicate MAX_LINE_LEN CHR '' ''"

record t_edit_ctx =
  some_data_for_edit :: "char list list"
  cur_line :: nat
  cur_col :: nat
  line_data_len :: "nat list"

definition the_edit_ctx :: t_edit_ctx where
  "the_edit_ctx = \<lparr>some_data_for_edit = replicate MAX_LINE_NR (replicate (MAX_LINE_LEN + 1) NUL),
     cur_line = 0, cur_col = 0, line_data_len = replicate MAX_LINE_NR 0\<rparr>"

text \<open>\<open>printf\<close> of a text, and the macros of \<open>screen_ops.h\<close>.\<close>

datatype screen_op =
    Printf string
  | MOVE_CURSOR_UP nat
  | MOVE_CURSOR_DOWN nat
  | MOVE_CURSOR_LEFT nat
  | MOVE_CURSOR_RIGHT nat
  | CLEAR_SCREEN
  | MOVE_CURSOR_TO nat nat
  | PUSH_SCREEN
  | POP_SCREEN

definition cursor_right :: "nat \<Rightarrow> screen_op list" where
  "cursor_right n = (if 0 < n then [MOVE_CURSOR_RIGHT n] else [])"

definition adjust_cursor :: "t_edit_ctx \<Rightarrow> screen_op list \<times> t_edit_ctx" where
  "adjust_cursor c =
     (let cur_line_len = line_data_len c ! cur_line c
      in if cur_col c \<le> cur_line_len then ([], c)
         else (Printf [CR] # cursor_right cur_line_len, c\<lparr>cur_col := cur_line_len\<rparr>))"

definition move_cursor_up :: "t_edit_ctx \<Rightarrow> screen_op list \<times> t_edit_ctx" where
  "move_cursor_up c =
     (if cur_line c < 1 then ([], c)
      else let (ops, c') = adjust_cursor (c\<lparr>cur_line := cur_line c - 1\<rparr>) in (MOVE_CURSOR_UP 1 # ops, c'))"

definition move_cursor_down :: "t_edit_ctx \<Rightarrow> screen_op list \<times> t_edit_ctx" where
  "move_cursor_down c =
     (if cur_line c \<ge> MAX_LINE_NR - 1 then ([], c)
      else let (ops, c') = adjust_cursor (c\<lparr>cur_line := cur_line c + 1\<rparr>) in (MOVE_CURSOR_DOWN 1 # ops, c'))"

definition move_cursor_left :: "t_edit_ctx \<Rightarrow> screen_op list \<times> t_edit_ctx" where
  "move_cursor_left c =
     (if cur_col c = 0 then ([], c) else ([MOVE_CURSOR_LEFT 1], c\<lparr>cur_col := cur_col c - 1\<rparr>))"

definition move_cursor_right :: "t_edit_ctx \<Rightarrow> screen_op list \<times> t_edit_ctx" where
  "move_cursor_right c =
     (if cur_col c \<ge> line_data_len c ! cur_line c then ([], c)
      else ([MOVE_CURSOR_RIGHT 1], c\<lparr>cur_col := cur_col c + 1\<rparr>))"

text \<open>The line is printed over blanks, then the cursor put back.\<close>

definition show_line :: "char list \<Rightarrow> screen_op" where
  "show_line line = Printf ([CR] @ empty_line @ [CR] @ cstr line @ [CR])"

definition put_line :: "char list \<Rightarrow> nat \<Rightarrow> nat \<Rightarrow> t_edit_ctx \<Rightarrow> t_edit_ctx" where
  "put_line line len col c =
     c\<lparr>some_data_for_edit := (some_data_for_edit c)[cur_line c := line],
       line_data_len := (line_data_len c)[cur_line c := len], cur_col := col\<rparr>"

definition backspace_proc :: "t_edit_ctx \<Rightarrow> (screen_op list \<times> t_edit_ctx) option" where
  "backspace_proc c =
     (let len = line_data_len c ! cur_line c; col = cur_col c
      in if len \<le> 0 \<or> col < 1 then Some ([], c)
         else do {
           line \<leftarrow> delete_char (some_data_for_edit c ! cur_line c) (col - 1) len;
           Some (show_line line # cursor_right (col - 1), put_line line (len - 1) (col - 1) c) })"

definition delete_proc :: "t_edit_ctx \<Rightarrow> (screen_op list \<times> t_edit_ctx) option" where
  "delete_proc c =
     (let len = line_data_len c ! cur_line c; col = cur_col c
      in if len \<le> 0 \<or> col \<ge> len then Some ([], c)
         else do {
           line \<leftarrow> delete_char (some_data_for_edit c ! cur_line c) col len;
           Some (show_line line # cursor_right col, put_line line (len - 1) col c) })"

definition normal_key_input_proc :: "char \<Rightarrow> t_edit_ctx \<Rightarrow> (screen_op list \<times> t_edit_ctx) option" where
  "normal_key_input_proc ch c =
     (let len = line_data_len c ! cur_line c; col = cur_col c
      in if len \<ge> MAX_LINE_LEN then Some ([], c)
         else do {
           line \<leftarrow> insert_char (some_data_for_edit c ! cur_line c) ch col len;
           Some ([show_line line, MOVE_CURSOR_RIGHT (col + 1)], put_line line (len + 1) (col + 1) c) })"

text \<open>What a key does: an effect on the text, \<open>need_exit\<close>, or \<open>ERR_DBG_PRINT_QUIT\<close>, which prints its message and
  aborts; here its line, function and message. The array \<open>input\<close> keeps the bytes of earlier reads behind those of the last.\<close>

datatype key_effect = Edit "screen_op list" t_edit_ctx | Exit | Abort nat string string

definition no_effect :: "t_edit_ctx \<Rightarrow> key_effect option" where
  "no_effect c = Some (Edit [] c)"

definition edit :: "screen_op list \<times> t_edit_ctx \<Rightarrow> key_effect" where
  "edit = case_prod Edit"

definition virtual_key_input_proc :: "u8 list \<Rightarrow> t_edit_ctx \<Rightarrow> key_effect option" where
  "virtual_key_input_proc inp c =
     (if inp ! 0 \<noteq> 0x1b then
        Some (Abort 175 ''virtual_key_input_proc'' (''what's going on? virtual key input[0]==0x'' @ show_02x (inp ! 0)))
      else if inp ! 1 = 0x5b then
        (if inp ! 2 = 0x41 then Some (edit (move_cursor_up c))
         else if inp ! 2 = 0x42 then Some (edit (move_cursor_down c))
         else if inp ! 2 = 0x44 then Some (edit (move_cursor_left c))
         else if inp ! 2 = 0x43 then Some (edit (move_cursor_right c))
         else if inp ! 2 = 0x33 \<and> inp ! 3 = 0x7e then map_option edit (delete_proc c)
         else no_effect c)
      else no_effect c)"

definition special_key_input_proc :: "u8 \<Rightarrow> t_edit_ctx \<Rightarrow> key_effect option" where
  "special_key_input_proc b c =
     (if b = 0x1b then Some Exit
      else if b = 0x0a then Some (edit (move_cursor_down c))
      else if b = 0x08 \<or> b = 0x7f then map_option edit (backspace_proc c)
      else no_effect c)"

definition input_proc :: "u8 list \<Rightarrow> nat \<Rightarrow> t_edit_ctx \<Rightarrow> key_effect option" where
  "input_proc inp len c =
     (if len \<ge> 3 then virtual_key_input_proc inp c
      else if len \<noteq> 1 then Some (Abort 300 ''input_proc'' (''what's going on? input len='' @ show_dec len))
      else if inp ! 0 > 31 \<and> inp ! 0 < 127 then map_option edit (normal_key_input_proc (char_of (unat (inp ! 0))) c)
      else special_key_input_proc (inp ! 0) c)"

text \<open>The loop over what \<open>read\<close> returns, an error or the end of the input as no bytes. The result:
  how it was left, if it was, what was printed, and the text.\<close>

datatype loop_end = Reading | Exited | Aborted nat string string

fun input_proc_loop :: "u8 list list \<Rightarrow> u8 list \<Rightarrow> t_edit_ctx \<Rightarrow> (loop_end \<times> screen_op list \<times> t_edit_ctx) option" where
  "input_proc_loop [] inp c = Some (Reading, [], c)"
| "input_proc_loop (r # reads) inp c =
     (if r = [] then input_proc_loop reads inp c
      else let inp1 = r @ drop (length r) inp
           in case input_proc inp1 (length r) c of
                None \<Rightarrow> None
              | Some (Abort line func msg) \<Rightarrow> Some (Aborted line func msg, [], c)
              | Some Exit \<Rightarrow> Some (Exited, [], c)
              | Some (Edit ops c1) \<Rightarrow>
                  map_option (\<lambda>(e, ops', c'). (e, ops @ ops', c')) (input_proc_loop reads inp1 c1))"

text \<open>What is printed after the loop: \<open>POP_SCREEN\<close>, or the message of \<open>ERR_DBG_PRINT_QUIT\<close>.\<close>

fun leave_ops :: "string \<Rightarrow> string \<Rightarrow> loop_end \<Rightarrow> screen_op list" where
  "leave_ops file errtext Reading = []"
| "leave_ops file errtext Exited = [POP_SCREEN]"
| "leave_ops file errtext (Aborted line func msg) = [Printf (ERR_DBG_PRINT file line func msg errtext)]"

definition vi_main :: "string \<Rightarrow> string \<Rightarrow> u8 list \<Rightarrow> u8 list list \<Rightarrow> (loop_end \<times> screen_op list \<times> t_edit_ctx) option" where
  "vi_main file errtext inp reads =
     map_option (\<lambda>(e, ops, c). (e, [PUSH_SCREEN, CLEAR_SCREEN, MOVE_CURSOR_TO 0 0] @ ops @ leave_ops file errtext e, c))
       (input_proc_loop reads inp the_edit_ctx)"

section \<open>A terminal\<close>

text \<open>A terminal of \<open>w\<close> columns and \<open>h\<close> lines; a count of 0 in a control sequence means 1, and the
  cursor stops at the border. A character at the right border is followed by a line break; a line feed is a line
  break, as the terminal adds the carriage return, and scrolls at the last line. \<open>PUSH_SCREEN\<close> changes to a second, empty
  screen and \<open>POP_SCREEN\<close> back.\<close>

record screen =
  cell :: "nat \<Rightarrow> nat \<Rightarrow> char"
  row :: nat
  col :: nat
  behind :: "((nat \<Rightarrow> nat \<Rightarrow> char) \<times> nat \<times> nat) option"

definition next_line :: "nat \<Rightarrow> screen \<Rightarrow> screen" where
  "next_line h s =
     (if row s + 1 < h then s\<lparr>row := row s + 1, col := 0\<rparr>
      else s\<lparr>cell := (\<lambda>r. if r + 1 < h then cell s (r + 1) else (\<lambda>_. CHR '' '')), col := 0\<rparr>)"

definition put_char :: "nat \<Rightarrow> nat \<Rightarrow> char \<Rightarrow> screen \<Rightarrow> screen" where
  "put_char w h ch s =
     (if ch = CR then s\<lparr>col := 0\<rparr>
      else if ch = LF then next_line h s
      else let s1 = (if col s < w then s else next_line h s)
           in s1\<lparr>cell := (cell s1)(row s1 := (cell s1 (row s1))(col s1 := ch)), col := col s1 + 1\<rparr>)"

fun show_op :: "nat \<Rightarrow> nat \<Rightarrow> screen_op \<Rightarrow> screen \<Rightarrow> screen" where
  "show_op w h (Printf t) s = fold (put_char w h) t s"
| "show_op w h (MOVE_CURSOR_UP n) s = s\<lparr>row := row s - max 1 n\<rparr>"
| "show_op w h (MOVE_CURSOR_DOWN n) s = s\<lparr>row := min (h - 1) (row s + max 1 n)\<rparr>"
| "show_op w h (MOVE_CURSOR_LEFT n) s = s\<lparr>col := col s - max 1 n\<rparr>"
| "show_op w h (MOVE_CURSOR_RIGHT n) s = s\<lparr>col := min (w - 1) (col s + max 1 n)\<rparr>"
| "show_op w h CLEAR_SCREEN s = s\<lparr>cell := \<lambda>_ _. CHR '' ''\<rparr>"
| "show_op w h (MOVE_CURSOR_TO y x) s = s\<lparr>row := min (h - 1) (max 1 y - 1), col := min (w - 1) (max 1 x - 1)\<rparr>"
| "show_op w h PUSH_SCREEN s =
     (if behind s = None then s\<lparr>cell := \<lambda>_ _. CHR '' '', row := 0, col := 0, behind := Some (cell s, row s, col s)\<rparr>
      else s\<lparr>row := 0, col := 0\<rparr>)"
| "show_op w h POP_SCREEN s =
     (case behind s of None \<Rightarrow> s | Some (c, y, x) \<Rightarrow> s\<lparr>cell := c, row := y, col := x, behind := None\<rparr>)"

definition screen_ops :: "nat \<Rightarrow> nat \<Rightarrow> screen_op list \<Rightarrow> screen \<Rightarrow> screen" where
  "screen_ops w h = fold (show_op w h)"

section \<open>The specification\<close>

text \<open>An editor on a list of lines and a cursor, and the keys as the bytes stand for them.\<close>

type_synonym doc = "string list \<times> nat \<times> nat"

datatype vkey = Insert char | Backspace | Delete | Up | Down | Left | Right | Quit | Unknown | Strange nat string string

definition decode_key :: "u8 list \<Rightarrow> nat \<Rightarrow> vkey" where
  "decode_key inp len =
     (if len = 1 then
        (let b = inp ! 0
         in if 31 < b \<and> b < 127 then Insert (char_of (unat b))
            else if b = 0x1b then Quit else if b = 0x0a then Down
            else if b = 0x08 \<or> b = 0x7f then Backspace else Unknown)
      else if len = 2 then Strange 300 ''input_proc'' ''what's going on? input len=2''
      else if inp ! 0 \<noteq> 0x1b then
        Strange 175 ''virtual_key_input_proc'' (''what's going on? virtual key input[0]==0x'' @ show_02x (inp ! 0))
      else if inp ! 1 \<noteq> 0x5b then Unknown
      else if inp ! 2 = 0x41 then Up else if inp ! 2 = 0x42 then Down
      else if inp ! 2 = 0x44 then Left else if inp ! 2 = 0x43 then Right
      else if inp ! 2 = 0x33 \<and> inp ! 3 = 0x7e then Delete else Unknown)"

fun keys_of :: "u8 list \<Rightarrow> u8 list list \<Rightarrow> vkey list" where
  "keys_of inp [] = []"
| "keys_of inp (r # reads) =
     (if r = [] then keys_of inp reads
      else let inp1 = r @ drop (length r) inp in decode_key inp1 (length r) # keys_of inp1 reads)"

fun edit_doc :: "vkey \<Rightarrow> doc \<Rightarrow> doc" where
  "edit_doc (Insert ch) (ls, l, c) =
     (if length (ls ! l) < 60 then (ls[l := take c (ls ! l) @ ch # drop c (ls ! l)], l, c + 1) else (ls, l, c))"
| "edit_doc Backspace (ls, l, c) =
     (if c = 0 then (ls, l, c) else (ls[l := take (c - 1) (ls ! l) @ drop c (ls ! l)], l, c - 1))"
| "edit_doc Delete (ls, l, c) = (ls[l := take c (ls ! l) @ drop (c + 1) (ls ! l)], l, c)"
| "edit_doc Up (ls, l, c) = (if l = 0 then (ls, l, c) else (ls, l - 1, min c (length (ls ! (l - 1)))))"
| "edit_doc Down (ls, l, c) = (if l < 9 then (ls, l + 1, min c (length (ls ! (l + 1)))) else (ls, l, c))"
| "edit_doc Left (ls, l, c) = (ls, l, c - 1)"
| "edit_doc Right (ls, l, c) = (ls, l, min (c + 1) (length (ls ! l)))"
| "edit_doc _ d = d"

text \<open>The keys up to the one that ends the program.\<close>

definition ends :: "vkey \<Rightarrow> bool" where
  "ends k \<longleftrightarrow> k = Quit \<or> (\<exists>line func msg. k = Strange line func msg)"

definition abs_edit :: "t_edit_ctx \<Rightarrow> doc" where
  "abs_edit c = (map cstr (some_data_for_edit c), cur_line c, cur_col c)"

definition edit_ok :: "t_edit_ctx \<Rightarrow> bool" where
  "edit_ok c \<longleftrightarrow> length (some_data_for_edit c) = 10 \<and> length (line_data_len c) = 10 \<and> cur_line c < 10 \<and>
     (\<forall>l<10. length (some_data_for_edit c ! l) = 61 \<and> length (cstr (some_data_for_edit c ! l)) = line_data_len c ! l \<and>
        holds (some_data_for_edit c ! l) (cstr (some_data_for_edit c ! l)) \<and> line_data_len c ! l \<le> 60 \<and>
        no_break (cstr (some_data_for_edit c ! l))) \<and>
     cur_col c \<le> line_data_len c ! cur_line c"

definition padded :: "string \<Rightarrow> nat \<Rightarrow> char" where
  "padded t k = (if k < length t then t ! k else CHR '' '')"

definition displays :: "doc \<Rightarrow> screen \<Rightarrow> bool" where
  "displays d s = (case d of (ls, l, c) \<Rightarrow>
     row s = l \<and> col s = c \<and> (\<forall>r<10. \<forall>k<60. cell s r k = padded (ls ! r) k))"


section \<open>The keys\<close>

lemma put_text:
  assumes "no_break t" "col s + length t \<le> w"
  shows "row (fold (put_char w h) t s) = row s \<and> col (fold (put_char w h) t s) = col s + length t \<and>
    cell (fold (put_char w h) t s) = (\<lambda>r k.
      if r = row s \<and> col s \<le> k \<and> k < col s + length t then t ! (k - col s) else cell s r k)"
  using assms
proof (induction t arbitrary: s)
  case (Cons x t)
  let ?s = "put_char w h x s"
  have s: "row ?s = row s" "col ?s = col s + 1" "cell ?s = (cell s)(row s := (cell s (row s))(col s := x))"
    using Cons.prems by (auto simp: put_char_def)
  have "no_break t" "col ?s + length t \<le> w" using Cons.prems s(2) by simp_all
  from Cons.IH[OF this] show ?case by (auto simp: s fun_eq_iff nth_Cons')
qed (auto simp: fun_eq_iff)

lemma put_CR: "put_char w h CR s = s\<lparr>col := 0\<rparr>"
  by (simp add: put_char_def)

lemma show_line_screen:
  assumes "no_break (cstr line)" "length (cstr line) \<le> 60" "60 \<le> w"
  shows "row (show_op w h (show_line line) s) = row s \<and> col (show_op w h (show_line line) s) = 0 \<and>
    (\<forall>k<60. cell (show_op w h (show_line line) s) (row s) k = padded (cstr line) k) \<and>
    (\<forall>r k. r \<noteq> row s \<longrightarrow> cell (show_op w h (show_line line) s) r k = cell s r k)"
proof -
  have e: "no_break empty_line" "length empty_line = 60" by (auto simp: empty_line_def CR_def MAX_LINE_LEN_def)
  have blank: "empty_line ! k = CHR '' ''" if "k < 60" for k using that by (simp add: empty_line_def MAX_LINE_LEN_def)
  let ?s1 = "fold (put_char w h) empty_line (s\<lparr>col := 0\<rparr>)"
  let ?s2 = "fold (put_char w h) (cstr line) (?s1\<lparr>col := 0\<rparr>)"
  have "show_op w h (show_line line) s = ?s2\<lparr>col := 0\<rparr>"
    by (simp add: show_line_def put_CR)
  with put_text[OF e(1), of "s\<lparr>col := 0\<rparr>" w h] put_text[OF assms(1), of "?s1\<lparr>col := 0\<rparr>" w h] e(2) assms(2,3)
  show ?thesis by (auto simp: padded_def blank)
qed

lemma screen_ops_simps [simp]:
  "screen_ops w h [] s = s"
  "screen_ops w h (op # ops) s = screen_ops w h ops (show_op w h op s)"
  "screen_ops w h (ops @ ops') s = screen_ops w h ops' (screen_ops w h ops s)"
  by (simp_all add: screen_ops_def)

lemma cursor_right_screen: "col s = 0 \<Longrightarrow> n < w \<Longrightarrow> screen_ops w h (cursor_right n) s = s\<lparr>col := n\<rparr>"
  by (auto simp: cursor_right_def)

definition refines :: "nat \<Rightarrow> nat \<Rightarrow> screen \<Rightarrow> vkey \<Rightarrow> t_edit_ctx \<Rightarrow> screen_op list \<times> t_edit_ctx \<Rightarrow> bool" where
  "refines w h s k c r \<longleftrightarrow> (case r of (ops, c') \<Rightarrow>
     edit_ok c' \<and> abs_edit c' = edit_doc k (abs_edit c) \<and> displays (abs_edit c') (screen_ops w h ops s))"

text \<open>The cursor moves: the texts stay.\<close>

lemma adjust_cursor_moves:
  assumes "edit_ok (c\<lparr>cur_col := 0\<rparr>)" "60 < w" "row s = cur_line c" "col s = cur_col c"
    "\<forall>r<10. \<forall>k<60. cell s r k = padded (cstr (some_data_for_edit c ! r)) k" "adjust_cursor c = (ops, c')"
  shows "edit_ok c' \<and> abs_edit c' = (map cstr (some_data_for_edit c), cur_line c,
      min (cur_col c) (length (cstr (some_data_for_edit c ! cur_line c)))) \<and> displays (abs_edit c') (screen_ops w h ops s)"
proof -
  let ?n = "line_data_len c ! cur_line c"
  have n: "length (cstr (some_data_for_edit c ! cur_line c)) = ?n" "?n < w" "length (some_data_for_edit c) = 10"
    using assms(1,2) by (auto simp: edit_ok_def intro: le_less_trans)
  show ?thesis
  proof (cases "cur_col c \<le> ?n")
    case True
    with assms n show ?thesis by (auto simp: adjust_cursor_def edit_ok_def abs_edit_def displays_def)
  next
    case False
    with assms(6) have r: "ops = Printf [CR] # cursor_right ?n" "c' = c\<lparr>cur_col := ?n\<rparr>"
      by (auto simp: adjust_cursor_def Let_def)
    from assms n False show ?thesis
      by (auto simp: r edit_ok_def abs_edit_def displays_def put_CR cursor_right_screen)
  qed
qed

lemma abs_edit_parts:
  assumes "edit_ok c" "displays (abs_edit c) s"
  shows "row s = cur_line c" "col s = cur_col c" "\<forall>r<10. \<forall>k<60. cell s r k = padded (cstr (some_data_for_edit c ! r)) k"
  using assms by (auto simp: edit_ok_def abs_edit_def displays_def)

lemma move_cursor_refines:
  assumes "edit_ok c" "displays (abs_edit c) s" "60 < w" "10 \<le> h"
  shows "refines w h s Up c (move_cursor_up c)" "refines w h s Down c (move_cursor_down c)"
    "refines w h s Left c (move_cursor_left c)" "refines w h s Right c (move_cursor_right c)"
proof -
  note p = abs_edit_parts[OF assms(1,2)]
  show "refines w h s Up c (move_cursor_up c)"
  proof (cases "cur_line c < 1")
    case False
    let ?c = "c\<lparr>cur_line := cur_line c - 1\<rparr>"
    obtain ops c' where a: "adjust_cursor ?c = (ops, c')" by fastforce
    have "edit_ok (?c\<lparr>cur_col := 0\<rparr>)" using assms(1) by (auto simp: edit_ok_def)
    from adjust_cursor_moves[OF this assms(3) _ _ _ a, of "show_op w h (MOVE_CURSOR_UP 1) s" h] p a False
    show ?thesis using assms(1) by (auto simp: refines_def move_cursor_up_def abs_edit_def edit_ok_def)
  qed (use assms in \<open>auto simp: refines_def move_cursor_up_def abs_edit_def\<close>)
  show "refines w h s Down c (move_cursor_down c)"
  proof (cases "cur_line c \<ge> MAX_LINE_NR - 1")
    case False
    then have l: "cur_line c < 9" by (simp add: MAX_LINE_NR_def)
    let ?c = "c\<lparr>cur_line := cur_line c + 1\<rparr>"
    obtain ops c' where a: "adjust_cursor ?c = (ops, c')" by fastforce
    have "edit_ok (?c\<lparr>cur_col := 0\<rparr>)" using assms(1) l by (auto simp: edit_ok_def)
    from adjust_cursor_moves[OF this assms(3) _ _ _ a, of "show_op w h (MOVE_CURSOR_DOWN 1) s" h] p a False l assms(4)
    show ?thesis using assms(1) by (auto simp: refines_def move_cursor_down_def abs_edit_def edit_ok_def)
  qed (use assms in \<open>auto simp: refines_def move_cursor_down_def abs_edit_def MAX_LINE_NR_def edit_ok_def\<close>)
  show "refines w h s Left c (move_cursor_left c)"
    using assms p by (auto simp: refines_def move_cursor_left_def abs_edit_def edit_ok_def displays_def)
  have "cur_col c < line_data_len c ! cur_line c \<Longrightarrow> cur_col c + 1 \<le> w - 1"
    using assms(1,3) unfolding edit_ok_def by fastforce
  then show "refines w h s Right c (move_cursor_right c)"
    using assms p by (auto simp: refines_def move_cursor_right_def abs_edit_def edit_ok_def displays_def)
qed

text \<open>The keys that change a line.\<close>

lemma put_line_refines:
  assumes "edit_ok c" "displays (abs_edit c) s" "60 < w"
    "holds line t" "length line = 61" "length t \<le> 60" "no_break t" "n \<le> length t" "len = length t"
    "edit_doc k (abs_edit c) = ((map cstr (some_data_for_edit c))[cur_line c := t], cur_line c, n)"
  shows "refines w h s k c (show_line line # cursor_right n, put_line line len n c)"
proof -
  note p = abs_edit_parts[OF assms(1,2)]
  have t: "cstr line = t" using assms(4) by (rule holds_cstr)
  have l: "cur_line c < length (some_data_for_edit c)" "cur_line c < length (line_data_len c)" "cur_line c < 10"
    "length (some_data_for_edit c) = 10"
    using assms(1) by (auto simp: edit_ok_def)
  have ok: "edit_ok (put_line line len n c)"
    using assms l t by (auto simp: edit_ok_def put_line_def nth_list_update)
  have a: "abs_edit (put_line line len n c) = ((map cstr (some_data_for_edit c))[cur_line c := t], cur_line c, n)"
    by (simp add: abs_edit_def put_line_def map_update t)
  define s' where "s' = show_op w h (show_line line) s"
  have s': "row s' = row s" "col s' = 0" "\<And>k. k < 60 \<Longrightarrow> cell s' (row s) k = padded t k" "\<And>r k. r \<noteq> row s \<Longrightarrow> cell s' r k = cell s r k"
    using show_line_screen[of line w h s] assms t by (auto simp: s'_def)
  have "screen_ops w h (show_line line # cursor_right n) s = s'\<lparr>col := n\<rparr>"
    using assms s'(2) by (simp add: cursor_right_screen s'_def)
  then have "displays (abs_edit (put_line line len n c)) (screen_ops w h (show_line line # cursor_right n) s)"
    unfolding a using p s' l by (auto simp: displays_def nth_list_update)
  with ok a assms(10) show ?thesis by (simp add: refines_def)
qed

lemma edit_ok_current_line:
  assumes "edit_ok c" "t = cstr (some_data_for_edit c ! cur_line c)"
  shows "holds (some_data_for_edit c ! cur_line c) t" "length (some_data_for_edit c ! cur_line c) = 61"
    "line_data_len c ! cur_line c = length t" "length t \<le> 60" "no_break t" "cur_col c \<le> length t"
    "map cstr (some_data_for_edit c) ! cur_line c = t" "(map cstr (some_data_for_edit c))[cur_line c := t] = map cstr (some_data_for_edit c)"
  using assms by (auto simp: edit_ok_def list_update_same_conv)

lemma cut_char: "n < length t \<Longrightarrow> length (take n t @ drop (Suc n) t) = length t - 1"
  and CR_cut: "no_break t \<Longrightarrow> no_break (take n t @ drop m t)"
  by (auto dest: in_set_takeD in_set_dropD)

lemma backspace_refines:
  assumes "edit_ok c" "displays (abs_edit c) s" "60 < w"
  shows "\<exists>r. backspace_proc c = Some r \<and> refines w h s Backspace c r"
proof -
  define t where "t = cstr (some_data_for_edit c ! cur_line c)"
  note l = edit_ok_current_line[OF assms(1) t_def]
  show ?thesis
  proof (cases "cur_col c = 0")
    case False
    then have i: "cur_col c - 1 < length t" "Suc (cur_col c - 1) = cur_col c" using l(6) by auto
    from delete_char_holds[OF l(1) i(1)] i(2) l(2) obtain line where line: "length line = 61"
      "delete_char (some_data_for_edit c ! cur_line c) (cur_col c - 1) (length t) = Some line"
      "holds line (take (cur_col c - 1) t @ drop (cur_col c) t)" by auto
    have "length (take (cur_col c - 1) t @ drop (cur_col c) t) = length t - 1" using cut_char[OF i(1)] i(2) by simp
    with put_line_refines[OF assms line(3,1) _ CR_cut[OF l(5)], of "cur_col c - 1" "length t - 1" Backspace h] l(4,6) False
    have "refines w h s Backspace c (show_line line # cursor_right (cur_col c - 1), put_line line (length t - 1) (cur_col c - 1) c)"
      by (simp add: abs_edit_def l(7))
    moreover have "backspace_proc c =
        Some (show_line line # cursor_right (cur_col c - 1), put_line line (length t - 1) (cur_col c - 1) c)"
      using False l(6) line(2) by (auto simp: backspace_proc_def Let_def l(3))
    ultimately show ?thesis by blast
  qed (use assms in \<open>auto simp: backspace_proc_def refines_def abs_edit_def\<close>)
qed

lemma delete_refines:
  assumes "edit_ok c" "displays (abs_edit c) s" "60 < w"
  shows "\<exists>r. delete_proc c = Some r \<and> refines w h s Delete c r"
proof -
  define t where "t = cstr (some_data_for_edit c ! cur_line c)"
  note l = edit_ok_current_line[OF assms(1) t_def]
  show ?thesis
  proof (cases "cur_col c < length t")
    case True
    from delete_char_holds[OF l(1) True] l(2) obtain line where line: "length line = 61"
      "delete_char (some_data_for_edit c ! cur_line c) (cur_col c) (length t) = Some line"
      "holds line (take (cur_col c) t @ drop (Suc (cur_col c)) t)" by auto
    note n = cut_char[OF True]
    have "delete_proc c = Some (show_line line # cursor_right (cur_col c), put_line line (length t - 1) (cur_col c) c)"
      using True by (auto simp: delete_proc_def Let_def l(3) line(2))
    moreover from put_line_refines[OF assms line(3,1) _ CR_cut[OF l(5)], of "cur_col c" "length t - 1" Delete h] l(4) True n
    have "refines w h s Delete c (show_line line # cursor_right (cur_col c), put_line line (length t - 1) (cur_col c) c)"
      by (simp add: abs_edit_def l(7))
    ultimately show ?thesis by blast
  next
    case False
    then have "take (cur_col c) t @ drop (Suc (cur_col c)) t = t" using l(6) by simp
    with False assms l(1-6) show ?thesis by (auto simp: l(7,8) delete_proc_def refines_def abs_edit_def)
  qed
qed

lemma insert_refines:
  assumes "edit_ok c" "displays (abs_edit c) s" "60 < w" "ch \<noteq> NUL" "ch \<noteq> CR" "ch \<noteq> LF"
  shows "\<exists>r. normal_key_input_proc ch c = Some r \<and> refines w h s (Insert ch) c r"
proof -
  define t where "t = cstr (some_data_for_edit c ! cur_line c)"
  note l = edit_ok_current_line[OF assms(1) t_def]
  show ?thesis
  proof (cases "length t < 60")
    case True
    let ?t = "take (cur_col c) t @ ch # drop (cur_col c) t"
    from insert_char_holds[OF l(1,6) _ assms(4)] l(2) True obtain line where line: "length line = 61"
      "insert_char (some_data_for_edit c ! cur_line c) ch (cur_col c) (length t) = Some line" "holds line ?t" by auto
    have n: "length ?t = length t + 1" using l(6) by simp
    have "no_break ?t" using l(5) assms(5,6) by (auto dest: in_set_takeD in_set_dropD)
    from put_line_refines[OF assms(1-3) line(3,1) _ this, of "cur_col c + 1" "length t + 1" "Insert ch" h] l(6) True n
    have "refines w h s (Insert ch) c (show_line line # cursor_right (cur_col c + 1), put_line line (length t + 1) (cur_col c + 1) c)"
      by (simp add: abs_edit_def l(7))
    moreover have "normal_key_input_proc ch c =
        Some (show_line line # cursor_right (cur_col c + 1), put_line line (length t + 1) (cur_col c + 1) c)"
      using True line(2) by (simp add: normal_key_input_proc_def Let_def l(3) MAX_LINE_LEN_def cursor_right_def)
    ultimately show ?thesis by blast
  qed (use assms l(1-6) in \<open>auto simp: l(7) normal_key_input_proc_def refines_def abs_edit_def MAX_LINE_LEN_def\<close>)
qed


section \<open>The loop\<close>

definition key_refines :: "nat \<Rightarrow> nat \<Rightarrow> screen \<Rightarrow> vkey \<Rightarrow> t_edit_ctx \<Rightarrow> key_effect option \<Rightarrow> bool" where
  "key_refines w h s k c r \<longleftrightarrow>
     (case r of None \<Rightarrow> False | Some (Abort line func msg) \<Rightarrow> k = Strange line func msg | Some Exit \<Rightarrow> k = Quit
      | Some (Edit ops c') \<Rightarrow> \<not> ends k \<and> refines w h s k c (ops, c'))"

lemma key_refinesI:
  "refines w h s k c r \<Longrightarrow> \<not> ends k \<Longrightarrow> key_refines w h s k c (Some (edit r))"
  "\<exists>r. p = Some r \<and> refines w h s k c r \<Longrightarrow> \<not> ends k \<Longrightarrow> key_refines w h s k c (map_option edit p)"
  by (auto simp: key_refines_def edit_def split: prod.splits)

lemma no_effect_refines:
  "edit_ok c \<Longrightarrow> displays (abs_edit c) s \<Longrightarrow> key_refines w h s Unknown c (no_effect c)"
  by (auto simp: key_refines_def no_effect_def refines_def abs_edit_def ends_def)

lemma input_proc_refines:
  assumes "edit_ok c" "displays (abs_edit c) s" "60 < w" "10 \<le> h" "0 < len"
  shows "key_refines w h s (decode_key inp len) c (input_proc inp len c)"
proof -
  note moves = move_cursor_refines[OF assms(1-4), THEN key_refinesI(1)]
  note edits = backspace_refines[OF assms(1-3), THEN key_refinesI(2)] delete_refines[OF assms(1-3), THEN key_refinesI(2)]
  note none = no_effect_refines[OF assms(1,2)]
  have stop: "key_refines w h s (Strange line func msg) c (Some (Abort line func msg))" "key_refines w h s Quit c (Some Exit)" for line func msg
    by (simp_all add: key_refines_def)
  show ?thesis
  proof (cases "len = 1")
    case True
    let ?b = "inp ! 0"
    have "key_refines w h s (Insert (char_of (unat ?b))) c (map_option edit (normal_key_input_proc (char_of (unat ?b)) c))"
      if "31 < ?b" "?b < 127"
    proof -
      have b: "31 < unat ?b" "unat ?b < 127" using that by (simp_all add: word_less_nat_alt)
      then have c: "of_char (char_of (unat ?b)) = unat ?b" by (simp add: of_char_of)
      have "char_of (unat ?b) \<noteq> x" if "of_char x = n" "n \<le> 31" for x :: char and n :: nat
      proof
        assume "char_of (unat ?b) = x"
        with c that b(1) show False by (simp only:)
      qed
      from this[of NUL 0] this[of CR 13] this[of LF 10]
      have "char_of (unat ?b) \<noteq> NUL" "char_of (unat ?b) \<noteq> CR" "char_of (unat ?b) \<noteq> LF"
        by (simp_all add: CR_def)
      from insert_refines[OF assms(1-3) this] show ?thesis by (rule key_refinesI(2)) (simp add: ends_def)
    qed
    then show ?thesis using True moves edits none stop
      by (simp add: decode_key_def input_proc_def special_key_input_proc_def Let_def ends_def)
  next
    case False
    have two: "show_dec 2 = ''2''" by code_simp
    from False assms(5) have "len = 2 \<or> 3 \<le> len" by linarith
    then show ?thesis using False moves edits none stop
      by (elim disjE) (simp_all add: decode_key_def input_proc_def virtual_key_input_proc_def ends_def two)
  qed
qed

definition end_of :: "vkey list \<Rightarrow> loop_end" where
  "end_of ks = (case dropWhile (\<lambda>k. \<not> ends k) ks of [] \<Rightarrow> Reading | k # _ \<Rightarrow> case k of Strange line func msg \<Rightarrow> Aborted line func msg | _ \<Rightarrow> Exited)"

definition edited :: "vkey list \<Rightarrow> doc \<Rightarrow> doc" where
  "edited ks d = fold edit_doc (takeWhile (\<lambda>k. \<not> ends k) ks) d"

lemma input_proc_loop_refines:
  assumes "edit_ok c" "displays (abs_edit c) s" "60 < w" "10 \<le> h"
  shows "\<exists>ops c'. input_proc_loop reads inp c = Some (end_of (keys_of inp reads), ops, c') \<and> edit_ok c' \<and>
    abs_edit c' = edited (keys_of inp reads) (abs_edit c) \<and> displays (abs_edit c') (screen_ops w h ops s)"
  using assms(1,2)
proof (induction reads inp c arbitrary: s rule: input_proc_loop.induct)
  case (1 inp c)
  then show ?case by (simp add: end_of_def edited_def)
next
  case (2 r reads inp c)
  show ?case
  proof (cases "r = []")
    case True
    with 2 show ?thesis by simp
  next
    case False
    let ?inp = "r @ drop (length r) inp"
    let ?k = "decode_key ?inp (length r)"
    from False have kr: "key_refines w h s ?k c (input_proc ?inp (length r) c)"
      by (intro input_proc_refines[OF "2.prems" assms(3,4)]) simp
    then consider line func msg where "input_proc ?inp (length r) c = Some (Abort line func msg)" "?k = Strange line func msg"
      | "input_proc ?inp (length r) c = Some Exit" "?k = Quit"
      | ops c1 where "input_proc ?inp (length r) c = Some (Edit ops c1)" "\<not> ends ?k" "refines w h s ?k c (ops, c1)"
      by (auto simp: key_refines_def split: option.splits key_effect.splits)
    then show ?thesis
    proof cases
      case 3
      from 3(3) have r: "edit_ok c1" "abs_edit c1 = edit_doc ?k (abs_edit c)" "displays (abs_edit c1) (screen_ops w h ops s)"
        by (auto simp: refines_def)
      from "2.IH"(2)[OF False refl 3(1) refl r(1,3)] obtain ops' c' where
        "input_proc_loop reads ?inp c1 = Some (end_of (keys_of ?inp reads), ops', c')" "edit_ok c'"
        "abs_edit c' = edited (keys_of ?inp reads) (abs_edit c1)"
        "displays (abs_edit c') (screen_ops w h ops' (screen_ops w h ops s))" by auto
      with False 3 r(2) show ?thesis by (auto simp: end_of_def edited_def Let_def)
    qed (use False "2.prems" in \<open>auto simp: end_of_def edited_def ends_def Let_def\<close>)
  qed
qed

lemma the_edit_ctx_ok: "edit_ok the_edit_ctx" and the_edit_ctx_abs: "abs_edit the_edit_ctx = (replicate 10 [], 0, 0)"
proof -
  have "replicate 61 NUL = NUL # replicate 60 NUL" by (simp flip: replicate_Suc)
  then have "holds (replicate 61 NUL) []" "cstr (replicate 61 NUL) = []" by (auto simp: holds_def cstr_def)
  then show "edit_ok the_edit_ctx" "abs_edit the_edit_ctx = (replicate 10 [], 0, 0)"
    by (simp_all add: edit_ok_def abs_edit_def the_edit_ctx_def MAX_LINE_NR_def MAX_LINE_LEN_def)
qed

text \<open>The editor never leaves the second screen by itself.\<close>

abbreviation keeps_screen :: "screen_op list \<Rightarrow> bool" where
  "keeps_screen ops \<equiv> PUSH_SCREEN \<notin> set ops \<and> POP_SCREEN \<notin> set ops"

lemma put_char_behind [simp]: "behind (put_char w h ch s) = behind s"
  by (simp add: put_char_def next_line_def Let_def)

lemma fold_put_behind [simp]: "behind (fold (put_char w h) t s) = behind s"
  by (induction t arbitrary: s) simp_all

lemma keeps_screen_behind: "keeps_screen ops \<Longrightarrow> behind (screen_ops w h ops s) = behind s"
proof (induction ops arbitrary: s)
  case (Cons op ops)
  then show ?case by (cases op) simp_all
qed simp

lemma adjust_keeps: "adjust_cursor c = (ops, c') \<Longrightarrow> keeps_screen ops"
  by (auto simp: adjust_cursor_def cursor_right_def Let_def split: if_splits)

lemma moves_keep:
  "move_cursor_up c = (ops, c') \<Longrightarrow> keeps_screen ops" "move_cursor_down c = (ops, c') \<Longrightarrow> keeps_screen ops"
  "move_cursor_left c = (ops, c') \<Longrightarrow> keeps_screen ops" "move_cursor_right c = (ops, c') \<Longrightarrow> keeps_screen ops"
  by (auto simp: move_cursor_up_def move_cursor_down_def move_cursor_left_def move_cursor_right_def
      split: if_splits prod.splits dest!: adjust_keeps)

lemma edits_keep:
  "backspace_proc c = Some (ops, c') \<Longrightarrow> keeps_screen ops" "delete_proc c = Some (ops, c') \<Longrightarrow> keeps_screen ops"
  "normal_key_input_proc ch c = Some (ops, c') \<Longrightarrow> keeps_screen ops"
  by (auto simp: backspace_proc_def delete_proc_def normal_key_input_proc_def show_line_def cursor_right_def Let_def
      Option.bind_eq_Some_conv split: if_splits)

lemma edit_Edit: "edit r = Edit ops c \<longleftrightarrow> r = (ops, c)"
  by (cases r) (simp add: edit_def)

lemma input_proc_keeps: "input_proc inp len c = Some (Edit ops c') \<Longrightarrow> keeps_screen ops"
  by (auto simp: input_proc_def virtual_key_input_proc_def special_key_input_proc_def no_effect_def edit_Edit
      split: if_splits dest!: moves_keep edits_keep)

lemma input_proc_loop_keeps: "input_proc_loop reads inp c = Some (e, ops, c') \<Longrightarrow> keeps_screen ops"
proof (induction reads inp c arbitrary: e ops c' rule: input_proc_loop.induct)
  case (2 r reads inp c)
  show ?case
  proof (cases "r = []")
    case False
    let ?p = "input_proc (r @ drop (length r) inp) (length r) c"
    show ?thesis
    proof (cases "\<exists>ops1 c1. ?p = Some (Edit ops1 c1)")
      case True
      then obtain ops1 c1 where p: "?p = Some (Edit ops1 c1)" by blast
      with "2.prems" False obtain ops2 where
        "input_proc_loop reads (r @ drop (length r) inp) c1 = Some (e, ops2, c')" "ops = ops1 @ ops2"
        by (auto simp: Let_def)
      with "2.IH"(2)[OF False refl p refl] input_proc_keeps[OF p] show ?thesis by auto
    qed (use "2.prems" False in \<open>auto simp: Let_def split: option.splits key_effect.splits\<close>)
  qed (use 2 in auto)
qed simp

lemma vi_main_refines:
  assumes "60 < w" "10 \<le> h"
  shows "\<exists>ops c. vi_main file errtext inp reads =
      Some (end_of (keys_of inp reads), ops @ leave_ops file errtext (end_of (keys_of inp reads)), c) \<and>
    (\<forall>t \<in> set (fst (abs_edit c)). length t \<le> 60) \<and> abs_edit c = edited (keys_of inp reads) (replicate 10 [], 0, 0) \<and>
    displays (abs_edit c) (screen_ops w h ops s) \<and>
    (behind s = None \<longrightarrow> screen_ops w h (ops @ [POP_SCREEN]) s = s)"
proof -
  let ?start = "[PUSH_SCREEN, CLEAR_SCREEN, MOVE_CURSOR_TO 0 0]"
  let ?s = "screen_ops w h ?start s"
  have "displays (abs_edit the_edit_ctx) ?s" by (simp add: the_edit_ctx_abs displays_def padded_def)
  from input_proc_loop_refines[OF the_edit_ctx_ok this assms, of reads inp] obtain ops c where
    c: "input_proc_loop reads inp the_edit_ctx = Some (end_of (keys_of inp reads), ops, c)" "edit_ok c"
    "abs_edit c = edited (keys_of inp reads) (abs_edit the_edit_ctx)" "displays (abs_edit c) (screen_ops w h ops ?s)" by auto
  have "\<forall>t \<in> set (fst (abs_edit c)). length t \<le> 60"
    using c(2) by (auto simp: edit_ok_def abs_edit_def in_set_conv_nth)
  moreover have "behind (screen_ops w h (?start @ ops) s) = Some (cell s, row s, col s)" if "behind s = None"
    using keeps_screen_behind[OF input_proc_loop_keeps[OF c(1)]] that by simp
  then have "screen_ops w h ((?start @ ops) @ [POP_SCREEN]) s = s" if "behind s = None"
    using that unfolding screen_ops_simps(3)[of _ _ "?start @ ops"] by simp
  moreover have "vi_main file errtext inp reads =
      Some (end_of (keys_of inp reads), (?start @ ops) @ leave_ops file errtext (end_of (keys_of inp reads)), c)"
    using c(1) by (simp add: vi_main_def)
  moreover have "displays (abs_edit c) (screen_ops w h (?start @ ops) s)"
    using c(4) by (simp only: screen_ops_simps(3))
  ultimately show ?thesis using c(3) unfolding the_edit_ctx_abs by (intro exI[of _ "?start @ ops"] exI[of _ c] conjI impI) simp_all
qed

section \<open>Properties\<close>

text \<open>C2: The user sees the text: on a terminal of more than 60 columns and at least ten lines, whatever
  is read, the program accesses no cell outside its lines, ends as the keys say, and up to then its first ten
  lines on the screen and the cursor are those of an editor on lists of characters that was given the
  keys the bytes stand for; a line never has more than 60 characters. What it prints then is nothing while it reads,
  on Escape the change back to the screen there was before, which is unharmed, and for a key that it does not expect the message
  of \<open>ERR_DBG_PRINT_QUIT\<close>, over the text that is shown.\<close>

theorem vi_edit_screen:
  assumes "60 < w" "10 \<le> h"
  shows "\<exists>ops c. vi_main file errtext inp reads =
      Some (end_of (keys_of inp reads), ops @ leave_ops file errtext (end_of (keys_of inp reads)), c) \<and>
    (\<forall>t \<in> set (fst (abs_edit c)). length t \<le> 60) \<and> abs_edit c = edited (keys_of inp reads) (replicate 10 [], 0, 0) \<and>
    displays (abs_edit c) (screen_ops w h ops s) \<and>
    (behind s = None \<longrightarrow> screen_ops w h (ops @ [POP_SCREEN]) s = s)"
  using assms by (rule vi_main_refines)

text \<open>Two or more bytes in one read that are no control sequence, as from a paste, abort the
  program, with the terminal left in raw mode.\<close>

theorem vi_paste_aborts:
  assumes "2 \<le> length r" "length r = 2 \<or> r ! 0 \<noteq> 0x1b"
  shows "\<exists>line func msg ops c. vi_main file errtext inp (r # reads) =
    Some (Aborted line func msg, ops @ [Printf (ERR_DBG_PRINT file line func msg errtext)], c)"
proof -
  have "r \<noteq> []" using assms(1) by auto
  with assms have "\<exists>line func msg. decode_key (r @ drop (length r) inp) (length r) = Strange line func msg"
    by (cases "length r = 2") (simp_all add: decode_key_def nth_append)
  with \<open>r \<noteq> []\<close> obtain line func msg where "decode_key (r @ drop (length r) inp) (length r) = Strange line func msg" "r \<noteq> []"
    by blast
  then have e: "end_of (keys_of inp (r # reads)) = Aborted line func msg" by (simp add: end_of_def ends_def Let_def)
  obtain ops c where "vi_main file errtext inp (r # reads) =
      Some (end_of (keys_of inp (r # reads)), ops @ leave_ops file errtext (end_of (keys_of inp (r # reads))), c)"
    using vi_main_refines[of 61 10 "file" errtext inp "r # reads"] by fastforce
  then show ?thesis unfolding e leave_ops.simps by blast
qed

theorem vi_edit_screen_witness:
  "\<exists>ops c. vi_main ''v.c'' ''Success'' (replicate 8 0) [[0x61], [0x62], [0x1b, 0x5b, 0x44], [0x63], [0x1b]] = Some (Exited, ops @ [POP_SCREEN], c) \<and>
     abs_edit c = (''acb'' # replicate 9 [], 0, 2) \<and>
     cell (screen_ops 80 24 ops (\<lparr>cell = \<lambda>_ _. CHR ''x'', row = 5, col = 7, behind = None\<rparr>)) 0 1 = CHR ''c''"
proof -
  let ?s = "\<lparr>cell = \<lambda>_ _. CHR ''x'', row = 5, col = 7, behind = None\<rparr>"
  let ?reads = "[[0x61], [0x62], [0x1b, 0x5b, 0x44], [0x63], [0x1b]] :: u8 list list"
  have k: "keys_of (replicate 8 0) ?reads = [Insert (CHR ''a''), Insert (CHR ''b''), Left, Insert (CHR ''c''), Quit]"
    by code_simp
  have e: "end_of [Insert (CHR ''a''), Insert (CHR ''b''), Left, Insert (CHR ''c''), Quit] = Exited"
    "edited [Insert (CHR ''a''), Insert (CHR ''b''), Left, Insert (CHR ''c''), Quit] (replicate 10 [], 0, 0) =
      (''acb'' # replicate 9 [], 0, 2)"
    by (simp_all add: end_of_def edited_def ends_def eval_nat_numeral)
  obtain ops c where "vi_main ''v.c'' ''Success'' (replicate 8 0) ?reads = Some (Exited, ops @ [POP_SCREEN], c)"
    "abs_edit c = (''acb'' # replicate 9 [], 0, 2)" "displays (abs_edit c) (screen_ops 80 24 ops ?s)"
    using vi_edit_screen[of 80 24 "''v.c''" "''Success''" "replicate 8 0" ?reads ?s] unfolding k e leave_ops.simps by auto
  moreover from this have "cell (screen_ops 80 24 ops ?s) 0 1 = CHR ''c''"
    by (auto simp: displays_def padded_def)
  ultimately show ?thesis by blast
qed

theorem vi_paste_aborts_witness:
  "\<exists>line func msg ops c. vi_main ''v.c'' ''Success'' (replicate 8 0) [[0x61, 0x62, 0x63]] =
     Some (Aborted line func msg, ops @ [Printf (ERR_DBG_PRINT ''v.c'' line func msg ''Success'')], c)"
  by (rule vi_paste_aborts) simp_all

end
