(* ===== verification/X86Arch.thy ===== *)
theory X86Arch
  imports Prelude
begin

unbundle bit_operations_syntax

text \<open>
  \<open>simple_apps/x86_arch_name.c\<close> with the constants of \<open>cpuid.h\<close>: from what the instruction \<open>cpuid\<close> returns to the name of the
  architecture. \<open>cpuid\<close> is an argument, of a level and a count; \<open>xgetbv\<close> is the low half of the register
  with the enabled states. The text of the program is that of the driver of gcc, with \<open>arch\<close> always 1.
\<close>

section \<open>The processor\<close>

record cpu_regs =
  eax :: u32
  ebx :: u32
  ecx :: u32
  edx :: u32

abbreviation bit_at :: "nat \<Rightarrow> u32" where "bit_at n \<equiv> push_bit n 1"

definition bit_SSE3 :: u32 where "bit_SSE3 = bit_at 0"
definition bit_SSSE3 :: u32 where "bit_SSSE3 = bit_at 9"
definition bit_SSE4_2 :: u32 where "bit_SSE4_2 = bit_at 20"
definition bit_MOVBE :: u32 where "bit_MOVBE = bit_at 22"
definition bit_OSXSAVE :: u32 where "bit_OSXSAVE = bit_at 27"
definition bit_AVX :: u32 where "bit_AVX = bit_at 28"
definition bit_CMPXCHG8B :: u32 where "bit_CMPXCHG8B = bit_at 8"
definition bit_CMOV :: u32 where "bit_CMOV = bit_at 15"
definition bit_MMX :: u32 where "bit_MMX = bit_at 23"
definition bit_SSE :: u32 where "bit_SSE = bit_at 25"
definition bit_SSE2 :: u32 where "bit_SSE2 = bit_at 26"
definition bit_SSE4a :: u32 where "bit_SSE4a = bit_at 6"
definition bit_XOP :: u32 where "bit_XOP = bit_at 11"
definition bit_LM :: u32 where "bit_LM = bit_at 29"
definition bit_3DNOWP :: u32 where "bit_3DNOWP = bit_at 30"
definition bit_3DNOW :: u32 where "bit_3DNOW = bit_at 31"
definition bit_BMI :: u32 where "bit_BMI = bit_at 3"
definition bit_AVX2 :: u32 where "bit_AVX2 = bit_at 5"
definition bit_XSAVEOPT :: u32 where "bit_XSAVEOPT = bit_at 0"

definition signature_AMD_ebx :: u32 where "signature_AMD_ebx = 0x68747541"
definition signature_CENTAUR_ebx :: u32 where "signature_CENTAUR_ebx = 0x746e6543"
definition signature_INTEL_ebx :: u32 where "signature_INTEL_ebx = 0x756e6547"
definition signature_NSC_ebx :: u32 where "signature_NSC_ebx = 0x646f6547"

text \<open>\<open>__get_cpuid_max\<close> on x86-64: the highest level and the signature.\<close>

definition get_cpuid_max :: "(u32 \<Rightarrow> u32 \<Rightarrow> cpu_regs) \<Rightarrow> u32 \<Rightarrow> u32 \<times> u32" where
  "get_cpuid_max cpuid ext = (eax (cpuid ext 0), ebx (cpuid ext 0))"

datatype processor_type =
    PROCESSOR_I386 | PROCESSOR_I486 | PROCESSOR_PENTIUM | PROCESSOR_PENTIUMPRO | PROCESSOR_GEODE | PROCESSOR_K6
  | PROCESSOR_ATHLON | PROCESSOR_PENTIUM4 | PROCESSOR_K8 | PROCESSOR_NOCONA | PROCESSOR_CORE2 | PROCESSOR_COREI7
  | PROCESSOR_HASWELL | PROCESSOR_GENERIC32 | PROCESSOR_GENERIC64 | PROCESSOR_AMDFAM10 | PROCESSOR_BDVER1
  | PROCESSOR_BDVER2 | PROCESSOR_BDVER3 | PROCESSOR_BTVER1 | PROCESSOR_BTVER2 | PROCESSOR_ATOM | PROCESSOR_max

section \<open>Features\<close>

record features =
  has_sse3 :: bool
  has_ssse3 :: bool
  has_sse4_2 :: bool
  has_avx :: bool
  has_osxsave :: bool
  has_movbe :: bool
  has_cmpxchg8b :: bool
  has_cmov :: bool
  has_mmx :: bool
  has_sse :: bool
  has_sse2 :: bool
  has_bmi :: bool
  has_avx2 :: bool
  has_xsaveopt :: bool
  has_xop :: bool
  has_sse4a :: bool
  has_longmode :: bool
  has_3dnowp :: bool
  has_3dnow :: bool

abbreviation has_bit :: "u32 \<Rightarrow> u32 \<Rightarrow> bool" where "has_bit w b \<equiv> w AND b \<noteq> 0"

text \<open>Model and family; the extended fields only count for Intel.\<close>

definition family_model :: "u32 \<Rightarrow> u32 \<Rightarrow> u32 \<times> u32" where
  "family_model vendor a =
     (let model = drop_bit 4 a AND 0x0f; family = drop_bit 8 a AND 0x0f;
          extended_model = drop_bit 12 a AND 0xf0; extended_family = drop_bit 20 a AND 0xff
      in if vendor = signature_INTEL_ebx
         then (if family = 0x0f then (family + extended_family, model + extended_model)
               else if family = 0x06 then (family, model + extended_model) else (family, model))
         else (family, model))"

definition basic_features :: "(u32 \<Rightarrow> u32 \<Rightarrow> cpu_regs) \<Rightarrow> u32 \<Rightarrow> features" where
  "basic_features cpuid max_level =
     (let r = cpuid 1 0; c = ecx r; d = edx r
      in \<lparr>has_sse3 = has_bit c bit_SSE3, has_ssse3 = has_bit c bit_SSSE3, has_sse4_2 = has_bit c bit_SSE4_2,
        has_avx = has_bit c bit_AVX, has_osxsave = has_bit c bit_OSXSAVE, has_movbe = has_bit c bit_MOVBE,
        has_cmpxchg8b = has_bit d bit_CMPXCHG8B, has_cmov = has_bit d bit_CMOV, has_mmx = has_bit d bit_MMX,
        has_sse = has_bit d bit_SSE, has_sse2 = has_bit d bit_SSE2,
        has_bmi = (max_level \<ge> 7 \<and> has_bit (ebx (cpuid 7 0)) bit_BMI),
        has_avx2 = (max_level \<ge> 7 \<and> has_bit (ebx (cpuid 7 0)) bit_AVX2),
        has_xsaveopt = (max_level \<ge> 13 \<and> has_bit (eax (cpuid 13 1)) bit_XSAVEOPT),
        has_xop = False, has_sse4a = False, has_longmode = False, has_3dnowp = False, has_3dnow = False\<rparr>)"

text \<open>\<open>XSTATE_SSE | XSTATE_YMM\<close> is 6.\<close>

definition ymm_enabled :: "u32 \<Rightarrow> features \<Rightarrow> bool" where
  "ymm_enabled xgetbv f \<longleftrightarrow> has_osxsave f \<and> xgetbv AND 6 = 6"

definition check_os_support :: "u32 \<Rightarrow> features \<Rightarrow> features" where
  "check_os_support xgetbv f =
     (if \<not> ymm_enabled xgetbv f then f\<lparr>has_avx := False, has_avx2 := False, has_xop := False, has_xsaveopt := False\<rparr> else f)"

definition extended_features :: "(u32 \<Rightarrow> u32 \<Rightarrow> cpu_regs) \<Rightarrow> features \<Rightarrow> features" where
  "extended_features cpuid f =
     (if eax (cpuid 0x80000000 0) > 0x80000000 then
        let r = cpuid 0x80000001 0
        in f\<lparr>has_sse4a := has_bit (ecx r) bit_SSE4a, has_xop := has_bit (ecx r) bit_XOP,
          has_longmode := has_bit (edx r) bit_LM, has_3dnowp := has_bit (edx r) bit_3DNOWP,
          has_3dnow := has_bit (edx r) bit_3DNOW\<rparr>
      else f)"

definition cpu_features :: "(u32 \<Rightarrow> u32 \<Rightarrow> cpu_regs) \<Rightarrow> u32 \<Rightarrow> u32 \<Rightarrow> features" where
  "cpu_features cpuid xgetbv max_level =
     extended_features cpuid (check_os_support xgetbv (basic_features cpuid max_level))"

section \<open>Processors and names\<close>

definition amd_processor :: "(u32 \<Rightarrow> u32 \<Rightarrow> cpu_regs) \<Rightarrow> features \<Rightarrow> u32 \<Rightarrow> processor_type" where
  "amd_processor cpuid f family =
     (let name = (if eax (cpuid 0x80000000 0) > 0x80000001 then eax (cpuid 0x80000002 0) else 0)
      in if name = signature_NSC_ebx then PROCESSOR_GEODE
         else if has_movbe f then PROCESSOR_BTVER2
         else if has_xsaveopt f then PROCESSOR_BDVER3
         else if has_bmi f then PROCESSOR_BDVER2
         else if has_xop f then PROCESSOR_BDVER1
         else if has_sse4a f \<and> has_ssse3 f then PROCESSOR_BTVER1
         else if has_sse4a f then PROCESSOR_AMDFAM10
         else if has_sse2 f \<or> has_longmode f then PROCESSOR_K8
         else if has_3dnowp f \<and> family = 6 then PROCESSOR_ATHLON
         else if has_mmx f then PROCESSOR_K6
         else PROCESSOR_PENTIUM)"

text \<open>The processor, and \<open>cpu\<close> as it is set already.\<close>

definition centaur_processor :: "features \<Rightarrow> u32 \<Rightarrow> u32 \<Rightarrow> processor_type \<times> string" where
  "centaur_processor f family model =
     (if family = 6 then
        (if model > 9 then (PROCESSOR_GENERIC32, ''i386'')
         else if model = 9 then (PROCESSOR_I386, ''c3-2'')
         else if model \<ge> 6 then (PROCESSOR_I386, ''c3'')
         else (PROCESSOR_GENERIC32, ''i386''))
      else if family = 5 then
        (if has_3dnow f then (PROCESSOR_I386, ''winchip2'')
         else if has_mmx f then (PROCESSOR_I386, ''winchip2-c6'')
         else (PROCESSOR_GENERIC32, ''i386''))
      else (PROCESSOR_GENERIC32, ''i386''))"

definition other_processor :: "u32 \<Rightarrow> processor_type" where
  "other_processor family =
     (if family = 4 then PROCESSOR_I486
      else if family = 5 then PROCESSOR_PENTIUM
      else if family = 6 then PROCESSOR_PENTIUMPRO
      else if family = 15 then PROCESSOR_PENTIUM4
      else PROCESSOR_GENERIC32)"

text \<open>Family 6: the models that are known, and the others by their features.\<close>

definition known_model :: "u32 \<Rightarrow> string option" where
  "known_model model =
     (if model \<in> {0x1c, 0x26} then Some ''atom''
      else if model \<in> {0x0f, 0x17, 0x1d} then Some ''core2''
      else if model \<in> {0x1a, 0x1e, 0x1f, 0x2e, 0x25, 0x2c, 0x2f} then Some ''corei7''
      else if model \<in> {0x2a, 0x2d} then Some ''corei7-avx''
      else if model \<in> {0x3a, 0x3e} then Some ''core-avx-i''
      else if model \<in> {0x3c, 0x45, 0x46} then Some ''core-avx2''
      else None)"

definition unknown_pentiumpro :: "features \<Rightarrow> string" where
  "unknown_pentiumpro f =
     (if has_avx2 f then ''core-avx2''
      else if has_avx f then ''corei7-avx''
      else if has_sse4_2 f then ''corei7''
      else if has_ssse3 f then (if has_movbe f then ''atom'' else ''core2'')
      else if has_sse3 f then ''pentium-m''
      else if has_sse2 f then ''pentium-m''
      else if has_sse f then ''pentium3''
      else if has_mmx f then ''pentium2''
      else ''pentiumpro'')"

definition generic_name :: "features \<Rightarrow> string \<Rightarrow> string" where
  "generic_name f cpu =
     (if has_ssse3 f then ''core2''
      else if has_sse3 f then (if has_longmode f then ''nocona'' else ''prescott'')
      else if has_sse2 f then ''pentium4''
      else if has_cmov f then ''pentiumpro''
      else if has_mmx f then ''pentium-mmx''
      else if has_cmpxchg8b f then ''pentium''
      else cpu)"

fun cpu_name :: "processor_type \<Rightarrow> features \<Rightarrow> u32 \<Rightarrow> string \<Rightarrow> string" where
  "cpu_name PROCESSOR_I386 f model cpu = cpu"
| "cpu_name PROCESSOR_I486 f model cpu = ''i486''"
| "cpu_name PROCESSOR_PENTIUM f model cpu = (if has_mmx f then ''pentium-mmx'' else ''pentium'')"
| "cpu_name PROCESSOR_PENTIUMPRO f model cpu =
     (case known_model model of Some name \<Rightarrow> name | None \<Rightarrow> unknown_pentiumpro f)"
| "cpu_name PROCESSOR_PENTIUM4 f model cpu =
     (if has_sse3 f then (if has_longmode f then ''nocona'' else ''prescott'') else ''pentium4'')"
| "cpu_name PROCESSOR_GEODE f model cpu = ''geode''"
| "cpu_name PROCESSOR_K6 f model cpu = (if has_3dnow f then ''k6-3'' else ''k6'')"
| "cpu_name PROCESSOR_ATHLON f model cpu = (if has_sse f then ''athlon-4'' else ''athlon'')"
| "cpu_name PROCESSOR_K8 f model cpu = (if has_sse3 f then ''k8-sse3'' else ''k8'')"
| "cpu_name PROCESSOR_AMDFAM10 f model cpu = ''amdfam10''"
| "cpu_name PROCESSOR_BDVER1 f model cpu = ''bdver1''"
| "cpu_name PROCESSOR_BDVER2 f model cpu = ''bdver2''"
| "cpu_name PROCESSOR_BDVER3 f model cpu = ''bdver3''"
| "cpu_name PROCESSOR_BTVER1 f model cpu = ''btver1''"
| "cpu_name PROCESSOR_BTVER2 f model cpu = ''btver2''"
| "cpu_name p f model cpu = generic_name f cpu"

definition host_detect_local_cpu :: "(u32 \<Rightarrow> u32 \<Rightarrow> cpu_regs) \<Rightarrow> u32 \<Rightarrow> string" where
  "host_detect_local_cpu cpuid xgetbv =
     (case get_cpuid_max cpuid 0 of (max_level, vendor) \<Rightarrow>
        if max_level < 1 then ''i386''
        else let (family, model) = family_model vendor (eax (cpuid 1 0));
                 f = cpu_features cpuid xgetbv max_level;
                 (processor, cpu) =
                   (if vendor = signature_AMD_ebx then (amd_processor cpuid f family, ''i386'')
                    else if vendor = signature_CENTAUR_ebx then centaur_processor f family model
                    else (other_processor family, ''i386''))
             in cpu_name processor f model cpu)"

definition x86_arch_main :: "(u32 \<Rightarrow> u32 \<Rightarrow> cpu_regs) \<Rightarrow> u32 \<Rightarrow> string \<times> nat" where
  "x86_arch_main cpuid xgetbv = (host_detect_local_cpu cpuid xgetbv @ [CHR 0x0A], 0)"

section \<open>Lemmas\<close>

definition arch_names :: "string set" where
  "arch_names = {''i386'', ''i486'', ''pentium'', ''pentium-mmx'', ''pentiumpro'', ''pentium2'', ''pentium3'', ''pentium-m'',
     ''pentium4'', ''prescott'', ''nocona'', ''core2'', ''corei7'', ''corei7-avx'', ''core-avx-i'', ''core-avx2'', ''atom'',
     ''k6'', ''k6-3'', ''athlon'', ''athlon-4'', ''k8'', ''k8-sse3'', ''amdfam10'', ''bdver1'', ''bdver2'', ''bdver3'',
     ''btver1'', ''btver2'', ''geode'', ''c3'', ''c3-2'', ''winchip2'', ''winchip2-c6''}"

lemma known_model_names: "known_model m = Some n \<Longrightarrow> n \<in> {''atom'', ''core2'', ''corei7'', ''corei7-avx'', ''core-avx-i'', ''core-avx2''}"
  by (auto simp: known_model_def split: if_splits)

lemma unknown_names: "unknown_pentiumpro f \<in>
    {''core-avx2'', ''corei7-avx'', ''corei7'', ''atom'', ''core2'', ''pentium-m'', ''pentium3'', ''pentium2'', ''pentiumpro''}"
  by (simp add: unknown_pentiumpro_def)

lemma generic_names: "generic_name f cpu \<in>
    {''core2'', ''nocona'', ''prescott'', ''pentium4'', ''pentiumpro'', ''pentium-mmx'', ''pentium'', cpu}"
  by (simp add: generic_name_def)

lemma centaur_names: "snd (centaur_processor f family model) \<in> {''i386'', ''c3-2'', ''c3'', ''winchip2'', ''winchip2-c6''}"
  by (simp add: centaur_processor_def)

lemma cpu_name_known: "cpu \<in> {''i386'', ''c3-2'', ''c3'', ''winchip2'', ''winchip2-c6''} \<Longrightarrow> cpu_name p f model cpu \<in> arch_names"
proof -
  assume c: "cpu \<in> {''i386'', ''c3-2'', ''c3'', ''winchip2'', ''winchip2-c6''}"
  then have c': "cpu \<in> arch_names" by (auto simp: arch_names_def)
  have k: "known_model model = Some n \<Longrightarrow> n \<in> arch_names" for n
    using known_model_names by (fastforce simp: arch_names_def)
  have u: "unknown_pentiumpro f \<in> arch_names" using unknown_names[of f] by (auto simp: arch_names_def)
  have g: "generic_name f cpu \<in> arch_names" using generic_names[of f cpu] c' by (auto simp: arch_names_def)
  show ?thesis by (cases p) (simp_all add: c' g u k split: option.split, simp_all add: arch_names_def)
qed

lemma other_features [simp]:
  "has_avx (extended_features cpuid f) = has_avx f" "has_avx2 (extended_features cpuid f) = has_avx2 f"
  by (simp_all add: extended_features_def Let_def)

lemma avx_needs_os:
  "has_avx (cpu_features cpuid xgetbv l) \<or> has_avx2 (cpu_features cpuid xgetbv l) \<Longrightarrow>
     has_bit (ecx (cpuid 1 0)) bit_OSXSAVE \<and> xgetbv AND 6 = 6"
  by (auto simp: cpu_features_def check_os_support_def ymm_enabled_def basic_features_def Let_def split: if_splits)

text \<open>The names with AVX come from the table of models or from the features.\<close>

abbreviation cpu_vendor :: "(u32 \<Rightarrow> u32 \<Rightarrow> cpu_regs) \<Rightarrow> u32" where "cpu_vendor cpuid \<equiv> ebx (cpuid 0 0)"

abbreviation cpu_model :: "(u32 \<Rightarrow> u32 \<Rightarrow> cpu_regs) \<Rightarrow> u32" where
  "cpu_model cpuid \<equiv> snd (family_model (cpu_vendor cpuid) (eax (cpuid 1 0)))"

lemma unknown_avx: "unknown_pentiumpro f \<in> {''core-avx2'', ''corei7-avx''} \<Longrightarrow> has_avx f \<or> has_avx2 f"
  by (auto simp: unknown_pentiumpro_def split: if_splits)

lemma cpu_name_avx:
  assumes "cpu_name p f model cpu \<in> {''core-avx2'', ''corei7-avx''}" "cpu \<notin> {''core-avx2'', ''corei7-avx''}"
  shows "known_model model = Some (cpu_name p f model cpu) \<or> has_avx f \<or> has_avx2 f"
proof (cases p)
  case PROCESSOR_PENTIUMPRO
  with assms show ?thesis using unknown_avx[of f] by (auto split: option.splits)
next
  case PROCESSOR_GENERIC32 with assms show ?thesis by (auto simp: generic_name_def split: if_splits)
next
  case PROCESSOR_GENERIC64 with assms show ?thesis by (auto simp: generic_name_def split: if_splits)
next
  case PROCESSOR_NOCONA with assms show ?thesis by (auto simp: generic_name_def split: if_splits)
next
  case PROCESSOR_CORE2 with assms show ?thesis by (auto simp: generic_name_def split: if_splits)
next
  case PROCESSOR_COREI7 with assms show ?thesis by (auto simp: generic_name_def split: if_splits)
next
  case PROCESSOR_HASWELL with assms show ?thesis by (auto simp: generic_name_def split: if_splits)
next
  case PROCESSOR_ATOM with assms show ?thesis by (auto simp: generic_name_def split: if_splits)
next
  case PROCESSOR_max with assms show ?thesis by (auto simp: generic_name_def split: if_splits)
qed (use assms in \<open>auto split: if_splits\<close>)

text \<open>Every run ends in \<open>cpu_name\<close> with one of the names that are set before it, or below level 1.\<close>

lemma detect_cases:
  obtains "host_detect_local_cpu cpuid xgetbv = ''i386''"
  | p cpu where "cpu \<in> {''i386'', ''c3-2'', ''c3'', ''winchip2'', ''winchip2-c6''}"
      "host_detect_local_cpu cpuid xgetbv = cpu_name p (cpu_features cpuid xgetbv (eax (cpuid 0 0))) (cpu_model cpuid) cpu"
proof (cases "eax (cpuid 0 0) < 1")
  case True
  then show ?thesis using that(1) by (simp add: host_detect_local_cpu_def get_cpuid_max_def)
next
  case False
  obtain family model where fm: "family_model (cpu_vendor cpuid) (eax (cpuid 1 0)) = (family, model)" by fastforce
  define f where "f = cpu_features cpuid xgetbv (eax (cpuid 0 0))"
  define pc where "pc = (if cpu_vendor cpuid = signature_AMD_ebx then (amd_processor cpuid f family, ''i386'')
                    else if cpu_vendor cpuid = signature_CENTAUR_ebx then centaur_processor f family model
                    else (other_processor family, ''i386''))"
  have "snd pc \<in> {''i386'', ''c3-2'', ''c3'', ''winchip2'', ''winchip2-c6''}"
    using centaur_names[of f family model] by (simp add: pc_def)
  moreover have "host_detect_local_cpu cpuid xgetbv = cpu_name (fst pc) f model (snd pc)"
    unfolding host_detect_local_cpu_def get_cpuid_max_def prod.case if_not_P[OF False] fm Let_def f_def[symmetric] pc_def[symmetric]
    by (rule case_prod_beta)
  ultimately show ?thesis using that(2)[of "snd pc" "fst pc"] fm by (simp add: f_def)
qed

section \<open>Properties\<close>

text \<open>Whatever \<open>cpuid\<close> answers, the name is one of the 34 that the code can set: never an unset pointer, never "generic".\<close>

theorem arch_name_known: "host_detect_local_cpu cpuid xgetbv \<in> arch_names"
proof (cases rule: detect_cases[of cpuid xgetbv])
  case 1 then show ?thesis by (simp add: arch_names_def)
next
  case (2 p cpu) then show ?thesis using cpu_name_known by metis
qed

text \<open>A name with AVX or AVX2 is given only when the operating system saves the registers (OSXSAVE, and SSE and YMM enabled), or
  when the model is in the table; the table does not ask the operating system.\<close>

theorem avx_name_needs_os:
  assumes "host_detect_local_cpu cpuid xgetbv \<in> {''core-avx2'', ''corei7-avx''}"
  shows "known_model (cpu_model cpuid) = Some (host_detect_local_cpu cpuid xgetbv) \<or>
    has_bit (ecx (cpuid 1 0)) bit_OSXSAVE \<and> xgetbv AND 6 = 6"
proof (cases rule: detect_cases[of cpuid xgetbv])
  case 1 with assms show ?thesis by simp
next
  case (2 p cpu)
  then show ?thesis using cpu_name_avx[of p _ "cpu_model cpuid" cpu] assms avx_needs_os[of cpuid xgetbv "eax (cpuid 0 0)"]
    by auto
qed

text \<open>A Haswell of model 0x3c, whose system saves nothing, is called ''core-avx2''; one of an unknown model is not.\<close>

definition demo_intel :: "u32 \<Rightarrow> u32 \<Rightarrow> u32 \<Rightarrow> cpu_regs" where
  "demo_intel sig level count =
     (if level = 0 then \<lparr>eax = 13, ebx = signature_INTEL_ebx, ecx = 0, edx = 0\<rparr>
      else if level = 1 then \<lparr>eax = sig, ebx = 0, ecx = bit_SSE4_2 OR bit_AVX, edx = 0\<rparr>
      else if level = 7 then \<lparr>eax = 0, ebx = bit_AVX2, ecx = 0, edx = 0\<rparr>
      else \<lparr>eax = 0, ebx = 0, ecx = 0, edx = 0\<rparr>)"

lemma demo_names:
  "host_detect_local_cpu (demo_intel 0x306C3) 0 = ''core-avx2''"
  "host_detect_local_cpu (demo_intel 0x506E3) 0 = ''corei7''"
  by code_simp+

theorem avx_name_needs_os_witness:
  "known_model (cpu_model (demo_intel 0x306C3)) = Some ''core-avx2'' \<and> host_detect_local_cpu (demo_intel 0x506E3) 0 = ''corei7''"
proof
  have "\<not> has_bit (ecx (demo_intel 0x306C3 1 0)) bit_OSXSAVE" by code_simp
  then show "known_model (cpu_model (demo_intel 0x306C3)) = Some ''core-avx2''"
    using avx_name_needs_os[of "demo_intel 0x306C3" 0] unfolding demo_names by blast
qed (rule demo_names)

text \<open>\<open>has_xop\<close> is reset with the AVX features but read from \<open>cpuid\<close> only afterwards: an AMD processor with XOP is called ''bdver1''
  also when the operating system does not save its registers.\<close>

theorem amd_xop_ignores_os:
  assumes "eax (cpuid 0 0) \<ge> 1" "cpu_vendor cpuid = signature_AMD_ebx" "eax (cpuid 0x80000000 0) = 0x80000001"
    "has_bit (ecx (cpuid 0x80000001 0)) bit_XOP" "\<not> has_bit (ecx (cpuid 1 0)) bit_MOVBE" "eax (cpuid 0 0) < 7"
  shows "host_detect_local_cpu cpuid xgetbv = ''bdver1''"
proof -
  define f where "f = cpu_features cpuid xgetbv (eax (cpuid 0 0))"
  have lev: "\<not> 7 \<le> eax (cpuid 0 0)" "\<not> 13 \<le> eax (cpuid 0 0)"
    using assms(6) by (simp_all add: not_le less_trans[OF assms(6)])
  have f: "\<not> has_movbe f" "\<not> has_xsaveopt f" "\<not> has_bmi f" "has_xop f"
    using assms(3-5) lev by (simp_all add: f_def cpu_features_def check_os_support_def basic_features_def extended_features_def Let_def)
  have p: "amd_processor cpuid f family = PROCESSOR_BDVER1" for family
    using f assms(3) by (simp add: amd_processor_def signature_NSC_ebx_def)
  have l: "\<not> eax (cpuid 0 0) < 1" using assms(1) by (rule leD)
  show ?thesis
    unfolding host_detect_local_cpu_def get_cpuid_max_def prod.case if_not_P[OF l] Let_def f_def[symmetric] assms(2) if_P[OF refl] p
    by (simp split: prod.split)
qed

definition demo_amd :: "u32 \<Rightarrow> u32 \<Rightarrow> cpu_regs" where
  "demo_amd level count =
     (if level = 0 then \<lparr>eax = 6, ebx = signature_AMD_ebx, ecx = 0, edx = 0\<rparr>
      else if level = 0x80000000 then \<lparr>eax = 0x80000001, ebx = 0, ecx = 0, edx = 0\<rparr>
      else if level = 0x80000001 then \<lparr>eax = 0, ebx = 0, ecx = bit_XOP, edx = 0\<rparr>
      else \<lparr>eax = 0, ebx = 0, ecx = 0, edx = 0\<rparr>)"

lemma demo_amd_regs:
  "eax (demo_amd 0 0) \<ge> 1" "cpu_vendor demo_amd = signature_AMD_ebx" "eax (demo_amd 0x80000000 0) = 0x80000001"
  "has_bit (ecx (demo_amd 0x80000001 0)) bit_XOP" "\<not> has_bit (ecx (demo_amd 1 0)) bit_MOVBE" "eax (demo_amd 0 0) < 7"
  by code_simp+

theorem amd_xop_ignores_os_witness: "host_detect_local_cpu demo_amd 0 = ''bdver1''"
  by (rule amd_xop_ignores_os[of demo_amd, OF demo_amd_regs])

end
