(* ===== verification/Spec2Isabelle.thy ===== *)
theory Spec2Isabelle
  imports Prelude ListH Mm TabXxx PcQueue StringUtils CLib Getopt NetHdr NetCsum NetDesc NetAddr
    ConfigFile SocketUtils P2pServer P2pClient IoUtils LogFile Telnetd Symbols DebugShell Sched
    Guard TapWriter AudioModem AudioLink CharDev Debug DiskMonitor DropPackets Fucai GuardLaunch
    LibUtils Measure NetStat RamDisk SerialPort SysUtils TabExample TcpPerf TcpTest TestPrograms
    TraceException TtyCfg UdpTest ViEdit X86Arch
begin

text \<open>
  A verification library for the core of the repository: the shared library
  \<open>libs/app_utils\<close> (lists, buffers, queues, strings, packets, configuration, log, I/O and
  the telnet debug shell) and the programs built on it. Every model function is written from
  the C function of the same name; the two exceptions in naming are functions that clash with
  a constant of HOL and the steps into which a handler is cut.

  \<^bold>\<open>Conventions.\<close> A struct is a record, a C enumeration or tagged value a datatype, an integer a
  word of its width (\<open>Prelude\<close>) where it can wrap, otherwise \<open>int\<close> or \<open>nat\<close> with the bound stated. State
  is passed explicitly. \<open>None\<close> is a run that has no defined result: an access outside a
  buffer, through a null pointer, or a call that does not return; each theory says which.
  Error returns of the code are the left injection of a sum, or the code's negative number.
  What the kernel and the C library answer (\<open>malloc\<close>, \<open>fopen\<close>, \<open>write\<close>, \<open>fork\<close>,
  \<open>strftime\<close>, \<open>dlsym\<close>, ...) is an argument of the definition that calls it, so a property holds for
  every answer. Messages to the log and to standard output are left out unless they are the
  function's purpose.

  \<^bold>\<open>Parts, theories and how they interact.\<close>
  \<^item> \<open>Prelude\<close>, \<open>CLib\<close>: the C integers and byte memory, strings in buffers, folds with an early exit; the
    conversions of \<open>printf\<close>, \<open>strtol\<close>, \<open>fgets\<close>, \<open>strchr\<close>, \<open>strtok\<close> with the round trips between
    printing and parsing that every text format below uses; the default action of a signal.
  \<^item> \<open>Getopt\<close>: \<open>getopt_long\<close> of the C library, with which the programs read their command line.
  \<^item> \<open>ListH\<close> (\<open>api/list.h\<close>): the intrusive list on a heap of pointers. Locale \<open>linked_lists\<close> is the
    contract of any number of disjoint lists in one heap; interpretation \<open>kernel_list\<close>.
  \<^item> \<open>Mm\<close> (\<open>src/mm.c\<close>): the buffer manager on those lists. Locale \<open>buffer_pool\<close>, interpretation
    \<open>mm_pool\<close>; \<open>alloc_step\<close> is the thread-level relation of \<open>alloc_buffer\<close>.
  \<^item> \<open>TabXxx\<close> (\<open>apps/tab_example/tab_xxx.c\<close>): the reference-counted table, whose entries live in
    buffers of \<open>Mm\<close> and on three lists of \<open>ListH\<close>. \<open>tab_inv\<close> is its invariant, over two
    ghosts: the entries in the table and the references held outside. \<open>TabExample\<close> (\<open>main.c\<close>) runs on it.
  \<^item> \<open>PcQueue\<close> (\<open>src/pc_queue.c\<close>): the ring of one producer and one consumer; locale \<open>bounded_fifo\<close>,
    interpretation \<open>pc_que\<close>; \<open>spsc_step\<close> has every access to the two indexes as a step, and the access to the
    slot, which only one of the threads may use between them, as one.
  \<^item> \<open>StringUtils\<close> (\<open>src/string_utils.c\<close>): trimming, replacing, inserting and deleting.
  \<^item> \<open>NetHdr\<close>, \<open>NetCsum\<close>, \<open>NetDesc\<close>, \<open>NetAddr\<close> (\<open>src/net.c\<close>, \<open>api/net.h\<close>): header fields and length updates,
    checksums, one-line descriptions, reading and printing of addresses, on a flat byte memory.
  \<^item> \<open>ConfigFile\<close> (\<open>src/config_file_ops.c\<close>): parsing, look-up, update and rewriting of the
    configuration, on \<open>StringUtils\<close>; files are a map from paths to contents.
  \<^item> \<open>IoUtils\<close>, \<open>LogFile\<close> (\<open>src/io_utils.c\<close>, \<open>src/log.c\<close>): the retry loops over a list of kernel
    outcomes; the size-bounded log with rotation.
  \<^item> \<open>Telnetd\<close> (\<open>src/telnetd4dbg.c\<close>): line editor with history, login, command loop, telnet option
    filter, output translation and the serving thread. \<open>Symbols\<close> (\<open>src/symbol_utils.c\<close>): symbol
    table, call parser, assignment and memory dump. \<open>DebugShell\<close> composes the two.
  \<^item> \<open>SocketUtils\<close> (\<open>src/socket.c\<close>): the IPv4 helpers the two programs below share. \<open>P2pServer\<close>
    (\<open>simple_apps/p2p_server.c\<close>): the rendezvous server on \<open>ListH\<close> and \<open>Mm\<close>. \<open>P2pClient\<close>
    (\<open>simple_apps/p2p_client.c\<close>): its client as a state machine over the polls of its socket and its
    timer, and two clients run against the model of the server.
  \<^item> \<open>TapWriter\<close> (\<open>misc/tap_writer.c\<close>): the paced sender of a packet dump to a tap interface.
  \<^item> \<open>Sched\<close> (\<open>simple_apps/sched.c\<close>): scheduler, context switch and the example program.
  \<^item> \<open>Guard\<close> (\<open>simple_apps/guard.c\<close>): the process guard, configured through \<open>ConfigFile\<close>, over a small
    model of the kernel's processes. \<open>GuardLaunch\<close> composes it with \<open>SysUtils\<close> to the whole program, from the command line
    through the daemon and the PID file to the end after SIGINT.

  \<^item> \<open>AudioModem\<close>, \<open>AudioLink\<close> (\<open>apps/data_in_audio\<close>): the file transfer over sound, and the analysis of
    its signal (window sums of joined tones) by which a file arrives whatever the alignment.
  \<^item> \<open>ViEdit\<close> (\<open>simple_apps/vi_style_input_test.c\<close>): the screen editor, from the bytes of each read to the cells of
    a terminal; what is on the screen is the text and the cursor of an editor on two lists.
  \<^item> \<open>NetStat\<close> (\<open>api/stat.h\<close> and what the traffic programs share), \<open>UdpTest\<close>, \<open>TcpTest\<close>, \<open>TcpPerf\<close>
    (\<open>simple_apps/udp_*.c\<close>, \<open>tcp_*.c\<close>): counters, loops and signal handlers of the traffic generators, each with its
    partner on a network that loses and reorders, or on a connection. Locale \<open>event_program\<close> is a program that
    steps over a list of events and keeps an invariant; the four interpretations are the programs and the network.
  \<^item> \<open>RamDisk\<close>, \<open>CharDev\<close>, \<open>DropPackets\<close> (\<open>misc/block_drv_test.c\<close>, \<open>misc/kernel_dev_frm\<close>, \<open>misc/drop_packets\<close>): the
    kernel modules. What they hold of the kernel is a set of resources or a flag, so that a leak or a use after
    the release can be stated. Locale \<open>byte_store\<close>, interpretation \<open>ram_disk\<close>.
  \<^item> \<open>DiskMonitor\<close> (\<open>simple_apps/disk_monitor.c\<close>): the removal of the oldest logs, on a directory in order of age.
  \<^item> \<open>SysUtils\<close>, \<open>SerialPort\<close>, \<open>TtyCfg\<close>, \<open>Measure\<close>, \<open>LibUtils\<close>, \<open>Fucai\<close>: the smaller files of the shared library (\<open>misc_utils.c\<close>,
    \<open>sys_utils.c\<close>, \<open>daemon.c\<close>; \<open>serial_port.c\<close>; \<open>tty_cfg.c\<close>; \<open>measure.c\<close>; \<open>signal_utils.c\<close>, \<open>timer_utils.c\<close>, \<open>shell_ops.c\<close>, \<open>debug_utils.c\<close>,
    \<open>mem_addr_vir2phy.c\<close>), \<open>TraceException\<close> (\<open>trace_exception.c\<close>: the report of a fatal signal) and the counting program \<open>simple_apps/fucai_3d.c\<close>.
  \<^item> \<open>X86Arch\<close> (\<open>simple_apps/x86_arch_name.c\<close>, \<open>cpuid.h\<close>): the name of the processor from what \<open>cpuid\<close> and \<open>xgetbv\<close> answer.
  \<^item> \<open>TestPrograms\<close>: the programs that try out one part of the library (\<open>mm_test.c\<close>, \<open>pc_queue_test.c\<close>,
    \<open>config_file_test.c\<close>, \<open>measure_test.c\<close>, \<open>parse_args_*.c\<close>) and \<open>netlink_test.c\<close>. \<open>Debug\<close> (\<open>api/debug.h\<close>): the messages they and the editor print.

  \<^bold>\<open>What the lemmas show.\<close>
  \<^item> Refinement. The table refines a finite map with reference counts, the server a bounded
    registry in arrival order, the shell an editor on a pair of a line and a history, the list
    operations refine operations on lists, and the two queues a bounded FIFO. Each is stated on the result of
    the detailed definitions, and holds on every branch, errors included.
  \<^item> Invariants. \<open>tab_inv\<close>, \<open>mm_ok\<close>, \<open>que_ok\<close>, the server's, the scheduler's and the telnet session's
    invariants are established by the initialisation and kept by every operation; for the
    concurrent parts by induction over a step relation.
  \<^item> Round trips. What \<open>write_to_config_file\<close> prints is what \<open>parse_config_file\<close> reads; addresses, calls,
    dumps, symbol listings and telnet option filtering likewise.
  \<^item> Equivalence with a reference. Checksums against the sum modulo 65535, \<open>get_key\<close> against a grammar.
  \<^item> Liveness and termination. Loops in the code are structural recursion or \<open>function\<close>
    with a measure; a loop the code does not bound returns \<open>None\<close> when its input is used up,
    and the properties that it returns are proved as such.
  \<^item> Errors and bounds. Where the code falls short of its purpose (a missing check, a race, an
    overflow) the property states what happens, with a concrete run as its witness.

  \<^bold>\<open>Bounds and fuel.\<close> The constants are the source's: 50 variables and lines of 768 characters in a
  configuration, 256 requests in the server, 10 tasks, 512 cells in the shell's line, 20 commands of
  history. Only the scheduler's example program runs with fuel: \<open>run 40\<close>, and the property states
  that the program has ended well before. \<open>tab_xxx\<close>'s search for an id is bounded by
  the number of ids: it returns \<open>None\<close> exactly when all are in use, where the code does not return.

  \<^bold>\<open>Not modelled.\<close> \<open>mem_ops.c\<close> is one call of \<open>mmap\<close>; the other \<open>*_test.c\<close> programs
  and \<open>hello\<close> only start a service of the library. Inside the modelled files the calls that only print or
  log, and those that only pass their arguments to one system call, are left out.
\<close>

end
